(* ===== verification/Prelude.thy ===== *)
theory Prelude
  imports Complex_Main "HOL-Library.List_Lexorder" "HOL-Library.Char_ord"
begin

text \<open>
  Shared vocabulary of the development: Python values, the result type of code that may
  raise, insertion-ordered dictionaries as association lists, Python slices and stable
  sorts, and the automation (simp rules and fact collections) the component theories use.

  Strings are lists of \<open>char\<close>, one per code point below 256.
\<close>

named_theorems res_simps \<open>rewriting of results of code that may raise\<close>
named_theorems dict_simps \<open>rewriting of operations on insertion-ordered dictionaries\<close>

section \<open>Python values\<close>

datatype pyfloat = Finite rat | PosInf | NegInf | NotANumber

text \<open>
  A dynamically typed Python value. \<open>PDict\<close> keeps the insertion order of its items and
  allows keys of any type; \<open>POther\<close> is an object that is none of the JSON types.
\<close>

datatype pyval =
    PNone
  | PBool bool
  | PInt int
  | PFloat pyfloat
  | PStr string
  | PList "pyval list"
  | PDict "(pyval \<times> pyval) list"
  | POther nat

type_synonym pydict = "(string \<times> pyval) list"

section \<open>Results of code that may raise\<close>

definition rbind :: "'e + 'a \<Rightarrow> ('a \<Rightarrow> 'e + 'b) \<Rightarrow> 'e + 'b" where
  "rbind m f = (case m of Inl e \<Rightarrow> Inl e | Inr x \<Rightarrow> f x)"

lemma rbind_simps [simp]:
  "rbind (Inl e) f = Inl e"
  "rbind (Inr x) f = f x"
  by (simp_all add: rbind_def)

lemma rbind_Inr_iff [res_simps]:
  "rbind m f = Inr y \<longleftrightarrow> (\<exists>x. m = Inr x \<and> f x = Inr y)"
  by (cases m) auto

lemma rbind_Inl_iff [res_simps]:
  "rbind m f = Inl e \<longleftrightarrow> m = Inl e \<or> (\<exists>x. m = Inr x \<and> f x = Inl e)"
  by (cases m) auto

lemma rbind_cong [fundef_cong]:
  "m = m' \<Longrightarrow> (\<And>x. m' = Inr x \<Longrightarrow> f x = f' x) \<Longrightarrow> rbind m f = rbind m' f'"
  by (cases m') auto

definition check :: "bool \<Rightarrow> 'e \<Rightarrow> 'e + unit" where
  "check b e = (if b then Inr () else Inl e)"

lemma check_iff [res_simps]:
  "check b e = Inr u \<longleftrightarrow> b"
  "check b e = Inl e' \<longleftrightarrow> \<not> b \<and> e' = e"
  by (auto simp: check_def)

lemma check_simps [simp]:
  "check True e = Inr ()"
  "check False e = Inl e"
  by (simp_all add: check_def)

text \<open>A list comprehension whose body may raise stops at the first error.\<close>

fun map_res :: "('a \<Rightarrow> 'e + 'b) \<Rightarrow> 'a list \<Rightarrow> 'e + 'b list" where
  "map_res f [] = Inr []"
| "map_res f (x # xs) = rbind (f x) (\<lambda>y. rbind (map_res f xs) (\<lambda>ys. Inr (y # ys)))"

lemma map_res_cong [fundef_cong]:
  "xs = ys \<Longrightarrow> (\<And>x. x \<in> set ys \<Longrightarrow> f x = g x) \<Longrightarrow> map_res f xs = map_res g ys"
  by (induction xs arbitrary: ys) (auto intro!: rbind_cong)

lemma map_res_length: "map_res f xs = Inr ys \<Longrightarrow> length ys = length xs"
  by (induction xs arbitrary: ys) (auto simp: res_simps)

lemma map_res_Inr_iff:
  "map_res f xs = Inr ys \<longleftrightarrow> list_all2 (\<lambda>x y. f x = Inr y) xs ys"
proof (induction xs arbitrary: ys)
  case Nil
  then show ?case by auto
next
  case (Cons x xs)
  then show ?case by (cases ys) (auto simp: res_simps)
qed

section \<open>Insertion-ordered dictionaries\<close>

text \<open>
  \<open>od_set\<close> overwrites in place or appends, as \<open>d[k] = v\<close> does; \<open>od_pop\<close> removes;
  \<open>od_move_to_end\<close> and \<open>od_pop_first\<close> are those of \<open>OrderedDict\<close>. Lookup is \<open>map_of\<close>.
\<close>

fun od_set :: "'k \<Rightarrow> 'v \<Rightarrow> ('k \<times> 'v) list \<Rightarrow> ('k \<times> 'v) list" where
  "od_set k v [] = [(k, v)]"
| "od_set k v ((k', v') # d) = (if k = k' then (k, v) # d else (k', v') # od_set k v d)"

definition od_pop :: "'k \<Rightarrow> ('k \<times> 'v) list \<Rightarrow> ('k \<times> 'v) list" where
  "od_pop k d = filter (\<lambda>e. fst e \<noteq> k) d"

definition od_move_to_end :: "'k \<Rightarrow> ('k \<times> 'v) list \<Rightarrow> ('k \<times> 'v) list" where
  "od_move_to_end k d = (case map_of d k of None \<Rightarrow> d | Some v \<Rightarrow> od_pop k d @ [(k, v)])"

definition od_get_default :: "('k \<times> 'v) list \<Rightarrow> 'k \<Rightarrow> 'v \<Rightarrow> 'v" where
  "od_get_default d k v = (case map_of d k of None \<Rightarrow> v | Some w \<Rightarrow> w)"

definition od_update :: "('k \<times> 'v) list \<Rightarrow> ('k \<times> 'v) list \<Rightarrow> ('k \<times> 'v) list" where
  "od_update d e = fold (\<lambda>(k, v). od_set k v) e d"

abbreviation od_keys :: "('k \<times> 'v) list \<Rightarrow> 'k list" where
  "od_keys d \<equiv> map fst d"

abbreviation od_ok :: "('k \<times> 'v) list \<Rightarrow> bool" where
  "od_ok d \<equiv> distinct (map fst d)"

lemma map_of_od_set [simp]: "map_of (od_set k v d) = (map_of d)(k \<mapsto> v)"
  by (induction k v d rule: od_set.induct) auto

lemma od_get_default_set: "od_get_default (od_set k v d) k' z = (if k = k' then v else od_get_default d k' z)"
  by (simp add: od_get_default_def)

lemma od_get_default_Nil [simp]: "od_get_default [] k z = z"
  by (simp add: od_get_default_def)

lemma od_keys_set [dict_simps]:
  "od_keys (od_set k v d) = (if k \<in> fst ` set d then od_keys d else od_keys d @ [k])"
  by (induction k v d rule: od_set.induct) auto

lemma od_ok_set [simp]: "od_ok d \<Longrightarrow> od_ok (od_set k v d)"
  by (auto simp: od_keys_set)

lemma od_set_fresh: "k \<notin> fst ` set d \<Longrightarrow> od_set k v d = d @ [(k, v)]"
  by (induction k v d rule: od_set.induct) auto

lemma dom_od_set [simp]: "fst ` set (od_set k v d) = insert k (fst ` set d)"
  by (induction k v d rule: od_set.induct) auto

lemma od_set_not_Nil [simp]: "od_set k v d \<noteq> []"
  by (induction k v d rule: od_set.induct) auto

lemma od_set_ok_items: "od_ok d \<Longrightarrow> set (od_set k v d) = insert (k, v) {e \<in> set d. fst e \<noteq> k}"
  by (induction k v d rule: od_set.induct) force+

lemma od_set_items: "set (od_set k v d) \<subseteq> insert (k, v) (set d)"
  by (induction k v d rule: od_set.induct) auto

lemma od_set_values: "snd ` set (od_set k v d) \<subseteq> insert v (snd ` set d)"
  by (induction k v d rule: od_set.induct) auto

lemma length_od_set:
  "length (od_set k v d) = (if k \<in> fst ` set d then length d else Suc (length d))"
  by (induction k v d rule: od_set.induct) auto

lemma map_of_od_pop [simp]: "map_of (od_pop k d) = (map_of d)(k := None)"
  by (induction d) (auto simp: od_pop_def)

lemma od_get_default_pop: "od_get_default (od_pop k d) k' z = (if k = k' then z else od_get_default d k' z)"
  by (simp add: od_get_default_def)

lemma od_keys_pop [dict_simps]: "od_keys (od_pop k d) = filter (\<lambda>k'. k' \<noteq> k) (od_keys d)"
  by (induction d) (auto simp: od_pop_def)

lemma od_ok_pop [simp]: "od_ok d \<Longrightarrow> od_ok (od_pop k d)"
  by (simp add: od_keys_pop)

lemma dom_od_pop [simp]: "fst ` set (od_pop k d) = fst ` set d - {k}"
  by (auto simp: od_pop_def)

lemma od_pop_absent [simp]: "k \<notin> fst ` set d \<Longrightarrow> od_pop k d = d"
  by (induction d) (auto simp: od_pop_def)

lemma od_pop_append [simp]: "od_pop k (d @ e) = od_pop k d @ od_pop k e"
  by (simp add: od_pop_def)

lemma od_pop_single [simp]: "od_pop k [(k', v)] = (if k = k' then [] else [(k', v)])"
  by (simp add: od_pop_def)

lemma length_od_pop_le: "length (od_pop k d) \<le> length d"
  by (simp add: od_pop_def)

lemma length_od_pop:
  assumes "od_ok d" and "k \<in> fst ` set d"
  shows "Suc (length (od_pop k d)) = length d"
  using assms
proof (induction d)
  case Nil
  then show ?case by simp
next
  case (Cons e d)
  show ?case
  proof (cases "fst e = k")
    case True
    with Cons.prems have "k \<notin> fst ` set d" by auto
    then have "od_pop k d = d" by (rule od_pop_absent)
    with True show ?thesis by (simp add: od_pop_def)
  next
    case False
    with Cons.prems have "od_ok d" and "k \<in> fst ` set d" by auto
    then have "Suc (length (od_pop k d)) = length d" by (rule Cons.IH)
    with False show ?thesis by (simp add: od_pop_def)
  qed
qed

lemma od_pop_set_fresh: "k \<notin> fst ` set d \<Longrightarrow> od_pop k (od_set k v d) = d"
  by (simp add: od_set_fresh)

lemma map_of_None_iff: "map_of d k = None \<longleftrightarrow> k \<notin> fst ` set d"
  by (simp add: map_of_eq_None_iff)

lemma map_of_Some_dom: "map_of d k = Some v \<Longrightarrow> k \<in> fst ` set d"
  by (metis map_of_None_iff option.distinct(1))

lemma map_of_move_to_end [simp]: "map_of (od_move_to_end k d) = map_of d"
  by (auto simp: od_move_to_end_def map_add_def split: option.splits)

lemma dom_move_to_end [simp]: "fst ` set (od_move_to_end k d) = fst ` set d"
  by (auto simp: od_move_to_end_def image_Un split: option.splits dest: map_of_Some_dom)

lemma od_ok_move_to_end [simp]: "od_ok d \<Longrightarrow> od_ok (od_move_to_end k d)"
  by (auto simp: od_move_to_end_def od_keys_pop split: option.splits)

lemma length_move_to_end:
  assumes "od_ok d"
  shows "length (od_move_to_end k d) = length d"
proof (cases "map_of d k")
  case None
  then show ?thesis by (simp add: od_move_to_end_def)
next
  case (Some v)
  with length_od_pop [OF assms map_of_Some_dom [OF Some]] show ?thesis
    by (simp add: od_move_to_end_def)
qed

section \<open>Lists\<close>

text \<open>\<open>list(dict.fromkeys(xs))\<close>: the first occurrence of each element, in order.\<close>

fun fromkeys :: "'a list \<Rightarrow> 'a list" where
  "fromkeys [] = []"
| "fromkeys (x # xs) = x # filter (\<lambda>y. y \<noteq> x) (fromkeys xs)"

lemma set_fromkeys [simp]: "set (fromkeys xs) = set xs"
  by (induction xs) auto

lemma distinct_fromkeys [simp]: "distinct (fromkeys xs)"
  by (induction xs) auto

lemma fromkeys_id: "distinct xs \<Longrightarrow> fromkeys xs = xs"
proof (induction xs)
  case Nil
  then show ?case by simp
next
  case (Cons x xs)
  moreover from Cons.prems have "filter (\<lambda>y. y \<noteq> x) xs = xs"
    by (auto simp: filter_id_conv)
  ultimately show ?case by simp
qed

lemma filter_fromkeys: "filter P (fromkeys xs) = fromkeys (filter P xs)"
proof (induction xs)
  case Nil
  then show ?case by simp
next
  case (Cons x xs)
  have "filter P (filter (\<lambda>y. y \<noteq> x) (fromkeys xs)) = filter (\<lambda>y. y \<noteq> x) (filter P (fromkeys xs))"
    by (simp add: conj_commute)
  moreover have "filter (\<lambda>y. y \<noteq> x) (filter P (fromkeys xs)) = filter P (fromkeys xs)" if "\<not> P x"
    using that by (subst filter_id_conv) auto
  ultimately show ?case using Cons by simp
qed

lemma fromkeys_append:
  "fromkeys (xs @ ys) = fromkeys xs @ filter (\<lambda>y. y \<notin> set xs) (fromkeys ys)"
proof (induction xs)
  case Nil
  then show ?case by simp
next
  case (Cons x xs)
  then show ?case by (simp add: conj_commute)
qed

lemma map_filter_agree: "(\<And>x. x \<in> set xs \<Longrightarrow> f x = g x) \<Longrightarrow> List.map_filter f xs = List.map_filter g xs"
  by (induction xs) (auto simp: List.map_filter_simps split: option.split)

text \<open>\<open>xs[-n:]\<close> for a natural \<open>n\<close>: all of \<open>xs\<close> when \<open>n = 0\<close>.\<close>

definition last_slice :: "nat \<Rightarrow> 'a list \<Rightarrow> 'a list" where
  "last_slice n xs = (if n = 0 then xs else drop (length xs - n) xs)"

lemma set_last_slice: "set (last_slice n xs) \<subseteq> set xs"
  by (auto simp: last_slice_def dest: in_set_dropD)

lemma length_last_slice: "0 < n \<Longrightarrow> length (last_slice n xs) = min n (length xs)"
  by (auto simp: last_slice_def)

text \<open>
  \<open>sorted(xs, key=f)\<close> and \<open>sorted(xs, key=f, reverse=True)\<close>; both are stable, and the
  second keeps the order of elements with equal keys.
\<close>

definition sorted_desc :: "('a \<Rightarrow> 'k::linorder) \<Rightarrow> 'a list \<Rightarrow> 'a list" where
  "sorted_desc f xs = rev (sort_key f (rev xs))"

lemma set_sorted_desc [simp]: "set (sorted_desc f xs) = set xs"
  by (simp add: sorted_desc_def)

lemma length_sorted_desc [simp]: "length (sorted_desc f xs) = length xs"
  by (simp add: sorted_desc_def)

lemma distinct_sorted_desc [simp]: "distinct (sorted_desc f xs) = distinct xs"
  by (simp add: sorted_desc_def distinct_sort)

lemma sorted_desc_sorted: "sorted_wrt (\<lambda>x y. f y \<le> f x) (sorted_desc f xs)"
proof -
  have "sorted (map f (sort_key f (rev xs)))" by (rule sorted_sort_key)
  then have "sorted_wrt (\<lambda>x y. f x \<le> f y) (sort_key f (rev xs))"
    by (simp add: sorted_map)
  then show ?thesis by (simp add: sorted_desc_def sorted_wrt_rev)
qed

lemma sorted_wrt_take: "sorted_wrt P xs \<Longrightarrow> sorted_wrt P (take n xs)"
  by (metis append_take_drop_id sorted_wrt_append)

end
