(* ===== verification/ThreadIndex.thy ===== *)
theory ThreadIndex
  imports Prelude
begin

text \<open>
  The secondary index \<open>thread_id -> insertion-ordered run_id set\<close> that both
  \<open>MemoryRunStore\<close> (\<open>runtime/runs/store/memory.py\<close>) and \<open>RunManager\<close>
  (\<open>runtime/runs/manager.py\<close>) keep beside their run table.  The locale
  \<open>indexed_registry\<close> is the contract between a run table and its index; its lemmas say
  that insertion and removal keep the two in lockstep and that reading a bucket is the
  same as scanning the whole table.
\<close>

type_synonym thread_index = "(string \<times> string list) list"

text \<open>A Python \<open>dict[str, None]\<close> used as an ordered set: inserting a present key keeps its place.\<close>

definition bucket_add :: "string \<Rightarrow> string list \<Rightarrow> string list" where
  "bucket_add rid b = (if rid \<in> set b then b else b @ [rid])"

definition index_run :: "string \<Rightarrow> string \<Rightarrow> thread_index \<Rightarrow> thread_index" where
  "index_run rid tid idx = od_set tid (bucket_add rid (od_get_default idx tid [])) idx"

definition unindex_run :: "string \<Rightarrow> string \<Rightarrow> thread_index \<Rightarrow> thread_index" where
  "unindex_run rid tid idx =
     (case map_of idx tid of
        None \<Rightarrow> idx
      | Some b \<Rightarrow>
          (let b' = filter (\<lambda>k. k \<noteq> rid) b
           in if b' = [] then od_pop tid idx else od_set tid b' idx))"

definition bucket :: "thread_index \<Rightarrow> string \<Rightarrow> string list" where
  "bucket idx tid = od_get_default idx tid []"

definition no_empty_bucket :: "thread_index \<Rightarrow> bool" where
  "no_empty_bucket idx \<longleftrightarrow> [] \<notin> snd ` set idx"

lemma bucket_simps [simp]: "bucket [] tid = []"
  by (simp add: bucket_def od_get_default_def)

lemma bucket_index_run:
  "bucket (index_run rid tid idx) t = (if t = tid then bucket_add rid (bucket idx tid) else bucket idx t)"
  by (simp add: bucket_def index_run_def od_get_default_def)

lemma bucket_unindex_run:
  "bucket (unindex_run rid tid idx) t =
     (if t = tid then filter (\<lambda>k. k \<noteq> rid) (bucket idx tid) else bucket idx t)"
  by (auto simp: bucket_def unindex_run_def od_get_default_def Let_def split: option.splits)

lemma od_ok_index_run [simp]: "od_ok idx \<Longrightarrow> od_ok (index_run rid tid idx)"
  by (simp add: index_run_def)

lemma od_ok_unindex_run [simp]: "od_ok idx \<Longrightarrow> od_ok (unindex_run rid tid idx)"
  by (simp add: unindex_run_def Let_def split: option.splits)

lemma no_empty_set:
  assumes "no_empty_bucket idx" and "b \<noteq> []"
  shows "no_empty_bucket (od_set tid b idx)"
  using assms od_set_values [of tid b idx] by (auto simp: no_empty_bucket_def)

lemma no_empty_index_run:
  assumes "no_empty_bucket idx"
  shows "no_empty_bucket (index_run rid tid idx)"
proof -
  have "bucket_add rid b \<noteq> []" for b
    by (cases b) (simp_all add: bucket_add_def)
  with assms show ?thesis unfolding index_run_def by (rule no_empty_set)
qed

lemma no_empty_unindex_run:
  assumes "no_empty_bucket idx"
  shows "no_empty_bucket (unindex_run rid tid idx)"
proof -
  have pop: "no_empty_bucket (od_pop tid idx)"
    using assms by (auto simp: no_empty_bucket_def od_pop_def)
  show ?thesis
    using assms pop by (auto simp: unindex_run_def Let_def intro: no_empty_set split: option.splits)
qed

text \<open>A run indexed in a thread and taken out again leaves the index as it was.\<close>

lemma unindex_index_fresh:
  assumes "rid \<notin> set (bucket idx tid)" and "od_ok idx" and "no_empty_bucket idx"
  shows "unindex_run rid tid (index_run rid tid idx) = idx"
proof (cases "map_of idx tid")
  case None
  then have "tid \<notin> fst ` set idx" by (simp add: map_of_eq_None_iff)
  then show ?thesis
    using None by (simp add: index_run_def unindex_run_def od_get_default_def bucket_add_def od_pop_set_fresh Let_def)
next
  case (Some b)
  have ne: "b \<noteq> []" using assms(3) map_of_SomeD [OF Some] by (force simp: no_empty_bucket_def)
  have same: "od_set tid b (od_set tid c d) = d" if "map_of d tid = Some b" "od_ok d" for c d
    using that by (induction d) (auto split: if_splits)
  have notin: "rid \<notin> set b" using assms(1) Some by (simp add: bucket_def od_get_default_def)
  then have "filter (\<lambda>k. k \<noteq> rid) b = b" by (auto simp: filter_id_conv)
  then show ?thesis
    using Some ne notin assms(2)
    by (simp add: index_run_def unindex_run_def od_get_default_def bucket_add_def Let_def same)
qed

section \<open>The contract between a run table and its index\<close>

locale indexed_registry =
  fixes keys :: "'s \<Rightarrow> string list"
    and thread_of :: "'s \<Rightarrow> string \<Rightarrow> string option"
    and bucket_of :: "'s \<Rightarrow> string \<Rightarrow> string list"
    and ins :: "string \<Rightarrow> 'r \<Rightarrow> 's \<Rightarrow> 's"
    and thread_in :: "'r \<Rightarrow> string"
    and del :: "string \<Rightarrow> 's \<Rightarrow> 's"
  assumes keys_ins: "k \<notin> set (keys s) \<Longrightarrow> keys (ins k r s) = keys s @ [k]"
    and thread_ins: "thread_of (ins k r s) = (thread_of s)(k \<mapsto> thread_in r)"
    and bucket_ins: "bucket_of (ins k r s) t =
      (if t = thread_in r then bucket_add k (bucket_of s t) else bucket_of s t)"
    and keys_del: "keys (del k s) = filter (\<lambda>k'. k' \<noteq> k) (keys s)"
    and thread_del: "thread_of (del k s) = (thread_of s)(k := None)"
    and bucket_del: "bucket_of (del k s) t =
      (if thread_of s k = Some t then filter (\<lambda>k'. k' \<noteq> k) (bucket_of s t) else bucket_of s t)"
begin

text \<open>Lockstep: each bucket is the table's key list restricted to its thread.\<close>

definition in_step :: "'s \<Rightarrow> bool" where
  "in_step s \<longleftrightarrow> (\<forall>t. bucket_of s t = filter (\<lambda>k. thread_of s k = Some t) (keys s))"

lemma in_step_bucket: "in_step s \<Longrightarrow> bucket_of s t = filter (\<lambda>k. thread_of s k = Some t) (keys s)"
  by (simp add: in_step_def)

lemma in_step_agree:
  assumes "keys s' = keys s" and "thread_of s' = thread_of s" and "bucket_of s' = bucket_of s"
  shows "in_step s' = in_step s"
  by (simp add: in_step_def assms)

lemma in_step_ins_fresh:
  assumes "in_step s" and "k \<notin> set (keys s)"
  shows "in_step (ins k r s)"
proof -
  have same: "filter (\<lambda>k'. thread_of (ins k r s) k' = Some t) (keys s) =
      filter (\<lambda>k'. thread_of s k' = Some t) (keys s)" for t
    using assms(2) by (auto simp: thread_ins intro: filter_cong)
  have "bucket_of (ins k r s) t =
      filter (\<lambda>k'. thread_of (ins k r s) k' = Some t) (keys (ins k r s))" for t
    using assms by (auto simp: bucket_ins keys_ins same in_step_bucket bucket_add_def)
      (auto simp: thread_ins)
  then show ?thesis by (simp add: in_step_def)
qed

lemma in_step_ins_same_thread:
  assumes "in_step s" and "k \<in> set (keys s)" and "keys (ins k r s) = keys s"
    and "thread_of s k = Some (thread_in r)"
  shows "in_step (ins k r s)"
proof -
  have thr: "thread_of (ins k r s) = thread_of s"
    using assms(4) by (auto simp: thread_ins)
  have "k \<in> set (bucket_of s (thread_in r))"
    using assms by (simp add: in_step_bucket)
  then have "bucket_of (ins k r s) t = bucket_of s t" for t
    by (auto simp: bucket_ins bucket_add_def)
  then show ?thesis using assms(1,3) thr by (simp add: in_step_def)
qed

lemma in_step_del:
  assumes "in_step s"
  shows "in_step (del k s)"
proof -
  have "bucket_of (del k s) t =
      filter (\<lambda>k'. thread_of (del k s) k' = Some t) (keys (del k s))" for t
  proof (cases "thread_of s k = Some t")
    case True
    then show ?thesis
      using assms by (auto simp: bucket_del keys_del thread_del in_step_bucket intro: filter_cong)
  next
    case False
    then show ?thesis
      using assms by (auto simp: bucket_del keys_del thread_del in_step_bucket intro!: filter_cong)
  qed
  then show ?thesis by (simp add: in_step_def)
qed

end

end
