(* ===== verification/RunStore.thy ===== *)
theory RunStore
  imports ThreadIndex
begin

text \<open>
  The in-memory run store (\<open>backend/packages/harness/vassilflow/runtime/runs/store/memory.py\<close>,
  class \<open>MemoryRunStore\<close>) and the run statuses of \<open>runtime/runs/schemas.py\<close>.
  A stored row is a record; a column that may be NULL or a key that may be absent is an
  option.  The wall clock (\<open>datetime.now(UTC).isoformat()\<close>) is the argument \<open>now\<close>.
  A \<open>limit\<close> is a natural number: the callers never pass a negative one.
\<close>

section \<open>Statuses\<close>

datatype run_status = Pending | Running | Success | RunError | Timeout | Interrupted

datatype disconnect_mode = DmCancel | DmContinue

fun status_value :: "run_status \<Rightarrow> string" where
  "status_value Pending = ''pending''"
| "status_value Running = ''running''"
| "status_value Success = ''success''"
| "status_value RunError = ''error''"
| "status_value Timeout = ''timeout''"
| "status_value Interrupted = ''interrupted''"

definition status_of_string :: "string \<Rightarrow> run_status option" where
  "status_of_string s =
     (if s = ''pending'' then Some Pending else if s = ''running'' then Some Running
      else if s = ''success'' then Some Success else if s = ''error'' then Some RunError
      else if s = ''timeout'' then Some Timeout else if s = ''interrupted'' then Some Interrupted
      else None)"

fun disconnect_value :: "disconnect_mode \<Rightarrow> string" where
  "disconnect_value DmCancel = ''cancel''"
| "disconnect_value DmContinue = ''continue''"

definition disconnect_of_string :: "string \<Rightarrow> disconnect_mode option" where
  "disconnect_of_string s =
     (if s = ''cancel'' then Some DmCancel else if s = ''continue'' then Some DmContinue else None)"

lemma status_roundtrip [simp]: "status_of_string (status_value st) = Some st"
  by (cases st) (simp_all add: status_of_string_def)

lemma status_value_inject [simp]: "status_value a = status_value b \<longleftrightarrow> a = b"
  by (cases a; cases b) simp_all

lemma disconnect_roundtrip [simp]: "disconnect_of_string (disconnect_value m) = Some m"
  by (cases m) (simp_all add: disconnect_of_string_def)

section \<open>Rows\<close>

type_synonym model_usage = "(string \<times> int) list"

record run_stats =
  st_input_tokens :: "int option"
  st_output_tokens :: "int option"
  st_total_tokens :: "int option"
  st_llm_calls :: "int option"
  st_lead_tokens :: "int option"
  st_subagent_tokens :: "int option"
  st_middleware_tokens :: "int option"
  st_by_model :: "(string \<times> model_usage) list option"
  st_messages :: "int option"
  st_last_ai :: "string option"
  st_first_human :: "string option"

definition no_stats :: run_stats where
  "no_stats = \<lparr>st_input_tokens = None, st_output_tokens = None, st_total_tokens = None,
     st_llm_calls = None, st_lead_tokens = None, st_subagent_tokens = None,
     st_middleware_tokens = None, st_by_model = None, st_messages = None,
     st_last_ai = None, st_first_human = None\<rparr>"

record run_row =
  row_run_id :: string
  row_thread_id :: string
  row_assistant_id :: "string option"
  row_user_id :: "string option"
  row_model_name :: "string option"
  row_status :: "string option"
  row_strategy :: "string option"
  row_metadata :: "pydict option"
  row_kwargs :: "pydict option"
  row_error :: "string option"
  row_created_at :: "string option"
  row_updated_at :: "string option"
  row_on_disconnect :: "string option"
  row_stats :: run_stats

text \<open>The keyword arguments of \<open>RunStore.put\<close>.\<close>

record put_payload =
  pp_thread_id :: string
  pp_assistant_id :: "string option"
  pp_user_id :: "string option"
  pp_model_name :: "string option"
  pp_status :: string
  pp_strategy :: string
  pp_metadata :: pydict
  pp_kwargs :: pydict
  pp_error :: "string option"
  pp_created_at :: "string option"

text \<open>Python's \<open>x or d\<close> on an optional string.\<close>

definition str_or :: "string option \<Rightarrow> string \<Rightarrow> string" where
  "str_or x d = (case x of None \<Rightarrow> d | Some s \<Rightarrow> if s = '''' then d else s)"

definition keep_some :: "'a option \<Rightarrow> 'a option \<Rightarrow> 'a option" where
  "keep_some new old = (case new of None \<Rightarrow> old | Some _ \<Rightarrow> new)"

text \<open>\<open>for key, value in kwargs.items(): if value is not None: row[key] = value\<close>\<close>

definition merge_stats :: "run_stats \<Rightarrow> run_stats \<Rightarrow> run_stats" where
  "merge_stats n prev = \<lparr>
     st_input_tokens = keep_some (st_input_tokens n) (st_input_tokens prev),
     st_output_tokens = keep_some (st_output_tokens n) (st_output_tokens prev),
     st_total_tokens = keep_some (st_total_tokens n) (st_total_tokens prev),
     st_llm_calls = keep_some (st_llm_calls n) (st_llm_calls prev),
     st_lead_tokens = keep_some (st_lead_tokens n) (st_lead_tokens prev),
     st_subagent_tokens = keep_some (st_subagent_tokens n) (st_subagent_tokens prev),
     st_middleware_tokens = keep_some (st_middleware_tokens n) (st_middleware_tokens prev),
     st_by_model = keep_some (st_by_model n) (st_by_model prev),
     st_messages = keep_some (st_messages n) (st_messages prev),
     st_last_ai = keep_some (st_last_ai n) (st_last_ai prev),
     st_first_human = keep_some (st_first_human n) (st_first_human prev)\<rparr>"

lemma merge_no_stats [simp]: "merge_stats no_stats s = s"
  by (simp add: merge_stats_def no_stats_def keep_some_def)

section \<open>The store\<close>

record mem_store =
  ms_runs :: "(string \<times> run_row) list"
  ms_by_thread :: thread_index

definition ms_empty :: mem_store where
  "ms_empty = \<lparr>ms_runs = [], ms_by_thread = []\<rparr>"

definition ms_new_row :: "string \<Rightarrow> string \<Rightarrow> put_payload \<Rightarrow> run_row" where
  "ms_new_row now rid p = \<lparr>
     row_run_id = rid, row_thread_id = pp_thread_id p, row_assistant_id = pp_assistant_id p,
     row_user_id = pp_user_id p, row_model_name = pp_model_name p,
     row_status = Some (pp_status p), row_strategy = Some (pp_strategy p),
     row_metadata = Some (pp_metadata p), row_kwargs = Some (pp_kwargs p),
     row_error = pp_error p, row_created_at = Some (str_or (pp_created_at p) now),
     row_updated_at = Some now, row_on_disconnect = None, row_stats = no_stats\<rparr>"

definition ms_insert :: "string \<Rightarrow> run_row \<Rightarrow> mem_store \<Rightarrow> mem_store" where
  "ms_insert rid row s = \<lparr>
     ms_runs = od_set rid row (ms_runs s),
     ms_by_thread = index_run rid (row_thread_id row) (ms_by_thread s)\<rparr>"

definition ms_put :: "string \<Rightarrow> string \<Rightarrow> put_payload \<Rightarrow> mem_store \<Rightarrow> mem_store" where
  "ms_put now rid p s = ms_insert rid (ms_new_row now rid p) s"

definition ms_get :: "string \<Rightarrow> string option \<Rightarrow> mem_store \<Rightarrow> run_row option" where
  "ms_get rid uid s =
     (case map_of (ms_runs s) rid of
        None \<Rightarrow> None
      | Some row \<Rightarrow> if uid \<noteq> None \<and> row_user_id row \<noteq> uid then None else Some row)"

definition created_key :: "run_row \<Rightarrow> string" where
  "created_key row = (case row_created_at row of None \<Rightarrow> '''' | Some c \<Rightarrow> c)"

definition ms_list_by_thread ::
  "string \<Rightarrow> string option \<Rightarrow> nat \<Rightarrow> mem_store \<Rightarrow> run_row list" where
  "ms_list_by_thread tid uid limit s =
     take limit (sorted_desc created_key
       (filter (\<lambda>row. uid = None \<or> row_user_id row = uid)
         (List.map_filter (map_of (ms_runs s)) (bucket (ms_by_thread s) tid))))"

text \<open>Rewrite one row in place, the pattern of every update; \<open>False\<close> when there is no such row.\<close>

definition ms_modify :: "string \<Rightarrow> (run_row \<Rightarrow> run_row) \<Rightarrow> mem_store \<Rightarrow> mem_store \<times> bool" where
  "ms_modify rid f s =
     (case map_of (ms_runs s) rid of
        None \<Rightarrow> (s, False)
      | Some row \<Rightarrow> (s\<lparr>ms_runs := od_set rid (f row) (ms_runs s)\<rparr>, True))"

definition ms_update_status ::
  "string \<Rightarrow> string \<Rightarrow> string \<Rightarrow> string option \<Rightarrow> mem_store \<Rightarrow> mem_store \<times> bool" where
  "ms_update_status now rid st err s =
     ms_modify rid (\<lambda>row. row\<lparr>row_status := Some st, row_error := keep_some err (row_error row),
       row_updated_at := Some now\<rparr>) s"

definition ms_update_model_name ::
  "string \<Rightarrow> string \<Rightarrow> string option \<Rightarrow> mem_store \<Rightarrow> mem_store" where
  "ms_update_model_name now rid model s =
     fst (ms_modify rid (\<lambda>row. row\<lparr>row_model_name := model, row_updated_at := Some now\<rparr>) s)"

definition ms_delete :: "string \<Rightarrow> mem_store \<Rightarrow> mem_store" where
  "ms_delete rid s =
     (case map_of (ms_runs s) rid of
        None \<Rightarrow> s
      | Some row \<Rightarrow> \<lparr>ms_runs = od_pop rid (ms_runs s),
                      ms_by_thread = unindex_run rid (row_thread_id row) (ms_by_thread s)\<rparr>)"

definition ms_update_run_completion ::
  "string \<Rightarrow> string \<Rightarrow> string \<Rightarrow> run_stats \<Rightarrow> string option \<Rightarrow> mem_store \<Rightarrow> mem_store \<times> bool" where
  "ms_update_run_completion now rid st stats err s =
     ms_modify rid (\<lambda>row. row\<lparr>row_status := Some st,
       row_stats := merge_stats stats (row_stats row),
       row_error := keep_some err (row_error row), row_updated_at := Some now\<rparr>) s"

definition ms_update_run_progress :: "string \<Rightarrow> string \<Rightarrow> run_stats \<Rightarrow> mem_store \<Rightarrow> mem_store" where
  "ms_update_run_progress now rid stats s =
     (case map_of (ms_runs s) rid of
        None \<Rightarrow> s
      | Some row \<Rightarrow>
          if row_status row = Some ''running''
          then fst (ms_modify rid (\<lambda>row. row\<lparr>row_stats := merge_stats stats (row_stats row),
                 row_updated_at := Some now\<rparr>) s)
          else s)"

definition ms_list_status :: "string list \<Rightarrow> string \<Rightarrow> string option \<Rightarrow> mem_store \<Rightarrow> run_row list" where
  "ms_list_status sts now before s =
     sort_key created_key
       (filter (\<lambda>row. row_status row \<in> Some ` set sts \<and> created_key row \<le> str_or before now)
         (map snd (ms_runs s)))"

definition ms_list_pending :: "string \<Rightarrow> string option \<Rightarrow> mem_store \<Rightarrow> run_row list" where
  "ms_list_pending now before s = ms_list_status [''pending''] now before s"

definition ms_list_inflight :: "string \<Rightarrow> string option \<Rightarrow> mem_store \<Rightarrow> run_row list" where
  "ms_list_inflight now before s = ms_list_status [''pending'', ''running''] now before s"

section \<open>Token aggregation\<close>

type_synonym model_totals = "(string \<times> (int \<times> int)) list"

record token_totals =
  tt_total :: int
  tt_input :: int
  tt_output :: int
  tt_runs :: nat
  tt_by_model :: model_totals
  tt_lead :: int
  tt_subagent :: int
  tt_middleware :: int

definition or_zero :: "int option \<Rightarrow> int" where
  "or_zero x = (case x of None \<Rightarrow> 0 | Some n \<Rightarrow> n)"

text \<open>\<open>entry = by_model.setdefault(m, ...); entry["tokens"] += t; entry["runs"] += 1\<close>\<close>

definition add_model :: "string \<Rightarrow> int \<Rightarrow> model_totals \<Rightarrow> model_totals" where
  "add_model m t acc =
     (let e = od_get_default acc m (0, 0) in od_set m (fst e + t, snd e + 1) acc)"

definition usage_total :: "model_usage \<Rightarrow> int" where
  "usage_total u = od_get_default u ''total_tokens'' 0"

definition add_row_models :: "run_row \<Rightarrow> model_totals \<Rightarrow> model_totals" where
  "add_row_models row acc =
     (case st_by_model (row_stats row) of
        Some (u # us) \<Rightarrow> fold (\<lambda>(m, usage). add_model m (usage_total usage)) (u # us) acc
      | _ \<Rightarrow> add_model (str_or (row_model_name row) ''unknown'')
               (or_zero (st_total_tokens (row_stats row))) acc)"

definition ms_completed_rows :: "string \<Rightarrow> bool \<Rightarrow> mem_store \<Rightarrow> run_row list" where
  "ms_completed_rows tid active s =
     filter (\<lambda>row. row_status row \<in>
         (if active then {Some ''success'', Some ''error'', Some ''running''}
          else {Some ''success'', Some ''error''}))
       (List.map_filter (map_of (ms_runs s)) (bucket (ms_by_thread s) tid))"

definition ms_aggregate_tokens :: "string \<Rightarrow> bool \<Rightarrow> mem_store \<Rightarrow> token_totals" where
  "ms_aggregate_tokens tid active s =
     (let done = ms_completed_rows tid active s;
          total = (\<lambda>f. sum_list (map (\<lambda>row. or_zero (f (row_stats row))) done))
      in \<lparr>tt_total = total st_total_tokens, tt_input = total st_input_tokens,
          tt_output = total st_output_tokens, tt_runs = length done,
          tt_by_model = fold add_row_models done [],
          tt_lead = total st_lead_tokens, tt_subagent = total st_subagent_tokens,
          tt_middleware = total st_middleware_tokens\<rparr>)"

section \<open>Well-formed stores\<close>

text \<open>Every row is filed under its own id, and the index agrees with the table.\<close>

definition rows_filed :: "(string \<times> run_row) list \<Rightarrow> bool" where
  "rows_filed d \<longleftrightarrow> (\<forall>(k, row) \<in> set d. row_run_id row = k)"

definition ms_thread_of :: "mem_store \<Rightarrow> string \<Rightarrow> string option" where
  "ms_thread_of s k = map_option row_thread_id (map_of (ms_runs s) k)"

lemma ms_thread_insert: "ms_thread_of (ms_insert k r s) = (ms_thread_of s)(k \<mapsto> row_thread_id r)"
  by (auto simp: ms_thread_of_def ms_insert_def)

lemma ms_keys_delete:
  "od_keys (ms_runs (ms_delete k s)) = filter (\<lambda>k'. k' \<noteq> k) (od_keys (ms_runs s))"
proof (cases "map_of (ms_runs s) k")
  case None
  then have "k \<notin> set (od_keys (ms_runs s))" by (simp add: map_of_None_iff)
  then have "filter (\<lambda>k'. k' \<noteq> k) (od_keys (ms_runs s)) = od_keys (ms_runs s)"
    by (intro filter_True) auto
  with None show ?thesis by (simp add: ms_delete_def)
next
  case (Some row)
  then show ?thesis by (simp add: ms_delete_def od_keys_pop)
qed

lemma ms_bucket_delete:
  "bucket (ms_by_thread (ms_delete k s)) t =
     (if ms_thread_of s k = Some t then filter (\<lambda>k'. k' \<noteq> k) (bucket (ms_by_thread s) t)
      else bucket (ms_by_thread s) t)"
  by (auto simp: ms_delete_def ms_thread_of_def bucket_unindex_run split: option.splits)

interpretation ms: indexed_registry
  "\<lambda>s. od_keys (ms_runs s)" ms_thread_of "\<lambda>s. bucket (ms_by_thread s)"
  ms_insert row_thread_id ms_delete
proof unfold_locales
  fix k :: string and s :: mem_store and r t
  show "k \<notin> set (od_keys (ms_runs s)) \<Longrightarrow>
      od_keys (ms_runs (ms_insert k r s)) = od_keys (ms_runs s) @ [k]"
    by (simp add: ms_insert_def od_keys_set)
  show "ms_thread_of (ms_insert k r s) = (ms_thread_of s)(k \<mapsto> row_thread_id r)"
    by (rule ms_thread_insert)
  show "bucket (ms_by_thread (ms_insert k r s)) t =
      (if t = row_thread_id r then bucket_add k (bucket (ms_by_thread s) t)
       else bucket (ms_by_thread s) t)"
    by (simp add: ms_insert_def bucket_index_run)
  show "od_keys (ms_runs (ms_delete k s)) = filter (\<lambda>k'. k' \<noteq> k) (od_keys (ms_runs s))"
    by (rule ms_keys_delete)
  show "ms_thread_of (ms_delete k s) = (ms_thread_of s)(k := None)"
    by (auto simp: ms_thread_of_def ms_delete_def fun_eq_iff split: option.splits)
  show "bucket (ms_by_thread (ms_delete k s)) t =
      (if ms_thread_of s k = Some t then filter (\<lambda>k'. k' \<noteq> k) (bucket (ms_by_thread s) t)
       else bucket (ms_by_thread s) t)"
    by (rule ms_bucket_delete)
qed

definition ms_ok :: "mem_store \<Rightarrow> bool" where
  "ms_ok s \<longleftrightarrow> od_ok (ms_runs s) \<and> rows_filed (ms_runs s) \<and> ms.in_step s
     \<and> od_ok (ms_by_thread s) \<and> no_empty_bucket (ms_by_thread s)"

lemma ms_ok_empty: "ms_ok ms_empty"
  by (simp add: ms_ok_def ms_empty_def rows_filed_def ms.in_step_def no_empty_bucket_def)

lemma rows_filed_set:
  "rows_filed d \<Longrightarrow> row_run_id row = k \<Longrightarrow> rows_filed (od_set k row d)"
  by (induction k row d rule: od_set.induct) (auto simp: rows_filed_def split: if_splits)

lemma rows_filed_pop: "rows_filed d \<Longrightarrow> rows_filed (od_pop k d)"
  by (auto simp: rows_filed_def od_pop_def)

text \<open>A put of a new run, or of a known run under its own thread, keeps the store well formed.\<close>

lemma ms_ok_insert:
  assumes "ms_ok s" and "row_run_id row = rid"
    and "ms_thread_of s rid = None \<or> ms_thread_of s rid = Some (row_thread_id row)"
  shows "ms_ok (ms_insert rid row s)"
proof -
  have step: "ms.in_step (ms_insert rid row s)"
  proof (cases "rid \<in> set (od_keys (ms_runs s))")
    case True
    with assms(3) have "ms_thread_of s rid = Some (row_thread_id row)"
      by (auto simp: ms_thread_of_def map_of_None_iff)
    moreover from True have "od_keys (ms_runs (ms_insert rid row s)) = od_keys (ms_runs s)"
      by (simp add: ms_insert_def od_keys_set)
    ultimately show ?thesis
      using ms.in_step_ins_same_thread True assms(1) by (simp add: ms_ok_def)
  next
    case False
    with assms(1) show ?thesis using ms.in_step_ins_fresh by (simp add: ms_ok_def)
  qed
  with assms(1,2) show ?thesis
    unfolding ms_ok_def by (auto simp: ms_insert_def rows_filed_set no_empty_index_run)
qed

lemma ms_ok_put:
  assumes "ms_ok s"
    and "ms_thread_of s rid = None \<or> ms_thread_of s rid = Some (pp_thread_id p)"
  shows "ms_ok (ms_put now rid p s)"
  unfolding ms_put_def using assms by (intro ms_ok_insert) (auto simp: ms_new_row_def)

lemma ms_ok_delete: "ms_ok s \<Longrightarrow> ms_ok (ms_delete rid s)"
  using ms.in_step_del [of s rid]
  by (auto simp: ms_ok_def ms_delete_def rows_filed_pop no_empty_unindex_run split: option.splits)

text \<open>An update that keeps a row's id and thread keeps the store well formed.\<close>

lemma ms_ok_modify:
  assumes "ms_ok s"
    and "\<And>row. row_run_id (f row) = row_run_id row" "\<And>row. row_thread_id (f row) = row_thread_id row"
  shows "ms_ok (fst (ms_modify rid f s))"
proof (cases "map_of (ms_runs s) rid")
  case None
  with assms(1) show ?thesis by (simp add: ms_modify_def)
next
  case (Some row)
  let ?s' = "s\<lparr>ms_runs := od_set rid (f row) (ms_runs s)\<rparr>"
  from map_of_SomeD [OF Some] assms(1) have id: "row_run_id row = rid"
    by (auto simp: ms_ok_def rows_filed_def)
  have keys: "od_keys (ms_runs ?s') = od_keys (ms_runs s)"
    using map_of_Some_dom [OF Some] by (simp add: od_keys_set)
  have thr: "ms_thread_of ?s' = ms_thread_of s"
    using Some assms(3) by (auto simp: ms_thread_of_def fun_eq_iff)
  have "ms.in_step ?s'"
    using assms(1) keys thr by (simp add: ms_ok_def ms.in_step_def)
  then show ?thesis
    using assms id Some by (simp add: ms_ok_def ms_modify_def rows_filed_set)
qed

lemma ms_ok_updates [simp]:
  assumes "ms_ok s"
  shows "ms_ok (fst (ms_update_status now rid st err s))"
    and "ms_ok (ms_update_model_name now rid model s)"
    and "ms_ok (fst (ms_update_run_completion now rid st stats err s))"
    and "ms_ok (ms_update_run_progress now rid stats s)"
  using assms
  by (auto simp: ms_update_status_def ms_update_model_name_def ms_update_run_completion_def
      ms_update_run_progress_def intro!: ms_ok_modify split: option.splits)

section \<open>Indexed reads equal full scans\<close>

lemma map_filter_entries:
  assumes "\<And>k v. (k, v) \<in> set d \<Longrightarrow> m k = Some v"
  shows "List.map_filter m (filter (\<lambda>k. P (m k)) (od_keys d)) =
    filter (\<lambda>v. P (Some v)) (map snd d)"
  using assms
proof (induction d)
  case Nil
  then show ?case by (simp add: List.map_filter_simps)
next
  case (Cons e d)
  obtain k v where e: "e = (k, v)" by (cases e)
  from Cons.prems have "m k = Some v" by (simp add: e)
  moreover have "List.map_filter m (filter (\<lambda>k. P (m k)) (od_keys d)) = filter (\<lambda>v. P (Some v)) (map snd d)"
    using Cons by simp
  ultimately show ?case by (simp add: e List.map_filter_simps)
qed

lemma map_filter_keys:
  assumes "od_ok d"
  shows "List.map_filter (map_of d) (filter (\<lambda>k. P (map_of d k)) (od_keys d)) =
    filter (\<lambda>v. P (Some v)) (map snd d)"
  using assms by (intro map_filter_entries) simp

lemma ms_thread_rows:
  assumes "ms_ok s"
  shows "List.map_filter (map_of (ms_runs s)) (bucket (ms_by_thread s) tid) =
    filter (\<lambda>row. row_thread_id row = tid) (map snd (ms_runs s))"
proof -
  have "bucket (ms_by_thread s) tid =
      filter (\<lambda>k. map_option row_thread_id (map_of (ms_runs s) k) = Some tid) (od_keys (ms_runs s))"
    using assms by (simp add: ms_ok_def ms.in_step_bucket ms_thread_of_def)
  with assms show ?thesis
    using map_filter_keys [of "ms_runs s" "\<lambda>x. map_option row_thread_id x = Some tid"]
    by (simp add: ms_ok_def)
qed


section \<open>What the store guarantees\<close>

definition ms_rows :: "mem_store \<Rightarrow> run_row list" where
  "ms_rows s = map snd (ms_runs s)"

text \<open>On a well-formed store, listing a thread through the index returns what a scan of every
  row would: the rows of that thread the user may see, newest first (rows created at the same
  time in insertion order), at most \<open>limit\<close> of them.\<close>

lemma list_by_thread_scan:
  assumes "ms_ok s"
  shows "ms_list_by_thread tid uid limit s =
    take limit (sorted_desc created_key
      (filter (\<lambda>row. row_thread_id row = tid \<and> (uid = None \<or> row_user_id row = uid)) (ms_rows s)))"
  by (simp add: ms_list_by_thread_def ms_thread_rows [OF assms] ms_rows_def conj_commute)

definition demo_payload :: put_payload where
  "demo_payload = \<lparr>pp_thread_id = ''t1'', pp_assistant_id = None, pp_user_id = Some ''u'',
     pp_model_name = Some ''m'', pp_status = ''success'', pp_strategy = ''reject'', pp_metadata = [],
     pp_kwargs = [], pp_error = None, pp_created_at = Some ''2026''\<rparr>"

definition demo_row_store :: mem_store where
  "demo_row_store = ms_put ''2026'' ''r2'' demo_payload (ms_put ''2025'' ''r1'' demo_payload ms_empty)"

lemma demo_row_store_ok: "ms_ok demo_row_store"
  unfolding demo_row_store_def
  by (intro ms_ok_put ms_ok_empty)
    (simp_all add: ms_thread_of_def ms_put_def ms_insert_def ms_empty_def)

text \<open>The tokens and runs one completed row contributes to the per-model breakdown.\<close>

definition row_model_tokens :: "run_row \<Rightarrow> int" where
  "row_model_tokens row =
     (case st_by_model (row_stats row) of
        Some (u # us) \<Rightarrow> sum_list (map (usage_total \<circ> snd) (u # us))
      | _ \<Rightarrow> or_zero (st_total_tokens (row_stats row)))"

definition row_model_runs :: "run_row \<Rightarrow> int" where
  "row_model_runs row =
     (case st_by_model (row_stats row) of Some (u # us) \<Rightarrow> int (length (u # us)) | _ \<Rightarrow> 1)"

definition model_tokens_sum :: "model_totals \<Rightarrow> int" where
  "model_tokens_sum acc = sum_list (map (fst \<circ> snd) acc)"

definition model_runs_sum :: "model_totals \<Rightarrow> int" where
  "model_runs_sum acc = sum_list (map (snd \<circ> snd) acc)"

lemma sum_od_set:
  fixes f :: "'v \<Rightarrow> int"
  assumes "f z = 0"
  shows "sum_list (map (f \<circ> snd) (od_set k v d)) =
    sum_list (map (f \<circ> snd) d) + f v - f (od_get_default d k z)"
  using assms by (induction k v d rule: od_set.induct) (auto simp: od_get_default_def)

lemma add_model_sums:
  "model_tokens_sum (add_model m t acc) = model_tokens_sum acc + t"
  "model_runs_sum (add_model m t acc) = model_runs_sum acc + 1"
  using sum_od_set [of fst "(0, 0)" m "(fst (od_get_default acc m (0, 0)) + t, snd (od_get_default acc m (0, 0)) + 1)" acc]
    sum_od_set [of snd "(0, 0)" m "(fst (od_get_default acc m (0, 0)) + t, snd (od_get_default acc m (0, 0)) + 1)" acc]
  by (simp_all add: add_model_def model_tokens_sum_def model_runs_sum_def Let_def)

lemma fold_add_model_sums:
  "model_tokens_sum (fold (\<lambda>(m, usage). add_model m (usage_total usage)) us acc) =
     model_tokens_sum acc + sum_list (map (usage_total \<circ> snd) us)"
  "model_runs_sum (fold (\<lambda>(m, usage). add_model m (usage_total usage)) us acc) =
     model_runs_sum acc + int (length us)"
  by (induction us arbitrary: acc) (auto simp: add_model_sums)

lemma add_row_models_sums:
  "model_tokens_sum (add_row_models row acc) = model_tokens_sum acc + row_model_tokens row"
  "model_runs_sum (add_row_models row acc) = model_runs_sum acc + row_model_runs row"
  by (auto simp: add_row_models_def row_model_tokens_def row_model_runs_def add_model_sums
      fold_add_model_sums simp del: fold_simps split: option.splits list.splits)

lemma fold_row_models_sums:
  "model_tokens_sum (fold add_row_models rows acc) = model_tokens_sum acc + sum_list (map row_model_tokens rows)"
  "model_runs_sum (fold add_row_models rows acc) = model_runs_sum acc + sum_list (map row_model_runs rows)"
  by (induction rows arbitrary: acc) (simp_all add: add_row_models_sums)

text \<open>Aggregation loses no tokens: over the completed rows of a thread, the per-model
  breakdown sums to each row's own per-model usage, or to its total where it has none, and
  counts every row once per model it used.\<close>

lemma aggregate_conserves_tokens:
  assumes "ms_ok s"
  shows "let done = filter (\<lambda>row. row_thread_id row = tid \<and> row_status row \<in> {Some ''success'', Some ''error''})
               (ms_rows s);
             agg = ms_aggregate_tokens tid False s
         in tt_runs agg = length done
            \<and> model_tokens_sum (tt_by_model agg) = sum_list (map row_model_tokens done)
            \<and> model_runs_sum (tt_by_model agg) = sum_list (map row_model_runs done)
            \<and> tt_total agg = sum_list (map (\<lambda>row. or_zero (st_total_tokens (row_stats row))) done)"
proof -
  have rows: "ms_completed_rows tid False s =
      filter (\<lambda>row. row_thread_id row = tid \<and> row_status row \<in> {Some ''success'', Some ''error''}) (ms_rows s)"
    by (simp add: ms_completed_rows_def ms_thread_rows [OF assms] ms_rows_def conj_commute)
  show ?thesis
    unfolding Let_def rows [symmetric]
    by (simp add: ms_aggregate_tokens_def Let_def fold_row_models_sums)
      (simp add: model_tokens_sum_def model_runs_sum_def)
qed

end
