(* ===== verification/PersistRetry.thy ===== *)
theory PersistRetry
  imports Prelude
begin

text \<open>
  Transient persistence failures and the bounded retry of store writes
  (\<open>runtime/runs/manager.py\<close>: \<open>_is_retryable_persistence_error\<close>,
  \<open>PersistenceRetryPolicy\<close>, \<open>RunManager._call_store_with_retry\<close>).

  An exception is a node of a graph: \<open>orig\<close>, \<open>__cause__\<close> and \<open>__context__\<close> refer to
  other exceptions by index, cycles included; an index outside the list is a reference to
  something that is not an exception.
\<close>

section \<open>Exceptions and their chains\<close>

record exc_node =
  ex_message :: string
  ex_is_sqlite :: bool
  ex_code :: "int option"
  ex_orig :: "nat option"
  ex_cause :: "nat option"
  ex_context :: "nat option"

type_synonym exc_graph = "exc_node list"

text \<open>\<open>str.lower\<close> on code points below 256.\<close>

definition lower_char :: "char \<Rightarrow> char" where
  "lower_char c =
     (let n = (of_char c :: nat)
      in if 65 \<le> n \<and> n \<le> 90 \<or> 192 \<le> n \<and> n \<le> 222 \<and> n \<noteq> 215 then char_of (n + 32) else c)"

definition str_lower :: "string \<Rightarrow> string" where
  "str_lower s = map lower_char s"

text \<open>\<open>needle in haystack\<close>\<close>

fun str_contains :: "string \<Rightarrow> string \<Rightarrow> bool" where
  "str_contains p [] = (p = [])"
| "str_contains p (c # s) = (take (length p) (c # s) = p \<or> str_contains p s)"

definition retryable_messages :: "string list" where
  "retryable_messages =
     [''database is locked'', ''database table is locked'', ''database is busy'']"

text \<open>\<open>SQLITE_BUSY\<close> and \<open>SQLITE_LOCKED\<close>.\<close>

definition retryable_codes :: "int list" where
  "retryable_codes = [5, 6]"

definition is_lock_error :: "exc_node \<Rightarrow> bool" where
  "is_lock_error e \<longleftrightarrow>
     list_ex (\<lambda>f. str_contains f (str_lower (ex_message e))) retryable_messages \<or>
     ex_is_sqlite e \<and> (case ex_code e of None \<Rightarrow> False | Some c \<Rightarrow> c \<in> set retryable_codes)"

definition exc_links :: "exc_graph \<Rightarrow> nat \<Rightarrow> nat list" where
  "exc_links g i =
     filter (\<lambda>j. j < length g)
       (List.map_filter id [ex_orig (g ! i), ex_cause (g ! i), ex_context (g ! i)])"

text \<open>
  The work list is a stack (\<open>pending.pop()\<close> takes the last element), here with its top at
  the head; the three chained exceptions are appended in order, so the context is on top.
\<close>

function retry_walk :: "exc_graph \<Rightarrow> nat list \<Rightarrow> nat list \<Rightarrow> bool" where
  "retry_walk g [] seen = False"
| "retry_walk g (i # pending) seen =
     (if length g \<le> i then retry_walk g pending seen
      else if i \<in> set seen then retry_walk g pending seen
      else if is_lock_error (g ! i) then True
      else retry_walk g (rev (exc_links g i) @ pending) (i # seen))"
  by pat_completeness auto
termination
proof (relation "measures [\<lambda>(g, p, seen). card ({..< length g} - set seen), \<lambda>(g, p, seen). length p]")
  fix g :: exc_graph and i and pending seen :: "nat list"
  assume new: "\<not> length g \<le> i" "i \<notin> set seen"
  then have "i \<in> {..< length g} - set seen" by simp
  moreover have "i \<notin> {..< length g} - set (i # seen)" by simp
  moreover have "{..< length g} - set (i # seen) \<subseteq> {..< length g} - set seen"
    by (rule Diff_mono) auto
  ultimately have "{..< length g} - set (i # seen) \<subset> {..< length g} - set seen" by blast
  then have "card ({..< length g} - set (i # seen)) < card ({..< length g} - set seen)"
    by (intro psubset_card_mono) auto
  then show "((g, rev (exc_links g i) @ pending, i # seen), g, i # pending, seen)
      \<in> measures [\<lambda>(g, p, seen). card ({..< length g} - set seen), \<lambda>(g, p, seen). length p]"
    by (simp only: in_measures prod.case simp_thms)
qed auto

definition is_retryable_persistence_error :: "exc_graph \<Rightarrow> nat \<Rightarrow> bool" where
  "is_retryable_persistence_error g i = retry_walk g [i] []"

definition exc_edge :: "exc_graph \<Rightarrow> (nat \<times> nat) set" where
  "exc_edge g = {(i, j). i < length g \<and> j \<in> set (exc_links g i)}"

lemma exc_links_valid: "j \<in> set (exc_links g i) \<Longrightarrow> j < length g"
  by (auto simp: exc_links_def)

text \<open>
  Loop invariant: nothing seen so far is a lock error, and whatever a seen node links to is
  seen or pending.
\<close>

definition walk_inv :: "exc_graph \<Rightarrow> nat list \<Rightarrow> nat list \<Rightarrow> bool" where
  "walk_inv g pending seen \<longleftrightarrow>
     (\<forall>i \<in> set seen. \<not> is_lock_error (g ! i) \<and> set (exc_links g i) \<subseteq> set seen \<union> set pending)"

lemma walk_closed:
  assumes "walk_inv g [] seen" and "(i, j) \<in> (exc_edge g)\<^sup>*" and "i \<in> set seen"
  shows "j \<in> set seen"
  using assms(2,3)
proof (induction rule: rtrancl_induct)
  case base
  then show ?case .
next
  case (step y z)
  with assms(1) show ?case by (auto simp: walk_inv_def exc_edge_def)
qed

lemma retry_walk_complete:
  assumes "walk_inv g pending seen"
    and "i \<in> set pending \<union> set seen" and "i < length g"
    and "(i, j) \<in> (exc_edge g)\<^sup>*" and "is_lock_error (g ! j)"
  shows "retry_walk g pending seen"
  using assms
proof (induction g pending seen arbitrary: i rule: retry_walk.induct)
  case (1 g seen)
  then have "j \<in> set seen" using walk_closed by auto
  with 1 show ?case by (simp add: walk_inv_def)
next
  case (2 g k pending seen)
  consider (out) "length g \<le> k" | (seen) "k < length g" "k \<in> set seen"
    | (hit) "k < length g" "k \<notin> set seen" "is_lock_error (g ! k)"
    | (go) "k < length g" "k \<notin> set seen" "\<not> is_lock_error (g ! k)"
    by force
  then show ?case
  proof cases
    case out
    have "walk_inv g pending seen"
      using "2.prems"(1) out by (fastforce simp: walk_inv_def dest: exc_links_valid)
    moreover have "i \<in> set pending \<union> set seen" using "2.prems"(2,3) out by auto
    ultimately have "retry_walk g pending seen"
      using "2.IH"(1) [OF out] "2.prems"(3,4,5) by blast
    with out show ?thesis by simp
  next
    case seen
    then have "walk_inv g pending seen" and "i \<in> set pending \<union> set seen"
      using "2.prems"(1,2) by (auto simp: walk_inv_def)
    then have "retry_walk g pending seen"
      using "2.IH"(2) seen "2.prems"(3,4,5) by (meson not_le)
    with seen show ?thesis by simp
  next
    case hit
    then show ?thesis by simp
  next
    case go
    have "walk_inv g (rev (exc_links g k) @ pending) (k # seen)"
      using "2.prems"(1) go by (auto simp: walk_inv_def)
    moreover have "i \<in> set (rev (exc_links g k) @ pending) \<union> set (k # seen)"
      using "2.prems"(2) by auto
    ultimately have "retry_walk g (rev (exc_links g k) @ pending) (k # seen)"
      using "2.IH"(3) go "2.prems"(3,4,5) by (meson not_le)
    with go show ?thesis by simp
  qed
qed

lemma retry_walk_sound:
  "retry_walk g pending seen \<Longrightarrow>
     \<exists>i \<in> set pending. i < length g \<and> (\<exists>j. (i, j) \<in> (exc_edge g)\<^sup>* \<and> is_lock_error (g ! j))"
proof (induction g pending seen rule: retry_walk.induct)
  case (1 g seen)
  then show ?case by simp
next
  case (2 g k pending seen)
  show ?case
  proof (cases "k < length g \<and> k \<notin> set seen")
    case False
    with 2 have "retry_walk g pending seen" by (auto split: if_splits)
    with False 2 show ?thesis by (meson list.set_intros(2) not_le)
  next
    case True
    show ?thesis
    proof (cases "is_lock_error (g ! k)")
      case True
      with \<open>k < length g \<and> _\<close> show ?thesis by auto
    next
      case False
      with True 2 obtain i j where i: "i \<in> set (exc_links g k) \<union> set pending" "i < length g"
        and j: "(i, j) \<in> (exc_edge g)\<^sup>*" "is_lock_error (g ! j)"
        by (auto simp: not_le)
      show ?thesis
      proof (cases "i \<in> set (exc_links g k)")
        case True
        with \<open>k < length g \<and> _\<close> have "(k, i) \<in> exc_edge g" by (simp add: exc_edge_def)
        with j \<open>k < length g \<and> _\<close> show ?thesis
          by (meson converse_rtrancl_into_rtrancl list.set_intros(1))
      next
        case False
        with i j show ?thesis by auto
      qed
    qed
  qed
qed

section \<open>Bounded retry\<close>

record retry_policy =
  max_attempts :: nat
  initial_delay :: rat
  max_delay :: rat
  backoff_factor :: rat

definition default_policy :: retry_policy where
  "default_policy = \<lparr>max_attempts = 5, initial_delay = 1/20, max_delay = 1, backoff_factor = 2\<rparr>"

text \<open>
  The outcomes of the next store attempts: \<open>None\<close> succeeds, \<open>Some (g, i)\<close> raises that
  exception and leaves the store as it was; every attempt past the end succeeds.
\<close>

type_synonym fault = "exc_graph \<times> nat"
type_synonym faults = "fault option list"

definition next_delay :: "retry_policy \<Rightarrow> rat \<Rightarrow> rat" where
  "next_delay p d = min (max_delay p) (if d \<noteq> 0 then d * backoff_factor p else initial_delay p)"

text \<open>Result, store, remaining outcomes, and the sleeps made between the attempts.\<close>

fun retry_loop ::
  "retry_policy \<Rightarrow> ('s \<Rightarrow> 's \<times> 'a) \<Rightarrow> faults \<Rightarrow> nat \<Rightarrow> rat \<Rightarrow> 's \<Rightarrow>
     (fault + 'a) \<times> 's \<times> faults \<times> rat list" where
  "retry_loop p f [] n d s = (case f s of (s', x) \<Rightarrow> (Inr x, s', [], []))"
| "retry_loop p f (None # fs) n d s = (case f s of (s', x) \<Rightarrow> (Inr x, s', fs, []))"
| "retry_loop p f (Some e # fs) n d s =
     (if max_attempts p \<le> n \<or> \<not> is_retryable_persistence_error (fst e) (snd e)
      then (Inl e, s, fs, [])
      else case retry_loop p f fs (n + 1) (next_delay p d) s of
             (r, s', fs', ds) \<Rightarrow> (r, s', fs', if 0 < d then d # ds else ds))"

definition call_store_with_retry ::
  "retry_policy \<Rightarrow> ('s \<Rightarrow> 's \<times> 'a) \<Rightarrow> faults \<Rightarrow> 's \<Rightarrow> (fault + 'a) \<times> 's \<times> faults \<times> rat list" where
  "call_store_with_retry p f fs s = retry_loop p f fs 1 (initial_delay p) s"

text \<open>The operation ran exactly once, or not at all and the store is untouched.\<close>

lemma retry_loop_effect:
  "retry_loop p f fs n d s = (r, s', fs', ds) \<Longrightarrow>
     (case r of Inl e \<Rightarrow> s' = s | Inr x \<Rightarrow> f s = (s', x))"
proof (induction p f fs n d s arbitrary: r s' fs' ds rule: retry_loop.induct)
  case (3 p f e fs n d s)
  then show ?case by (fastforce split: if_splits prod.splits)
qed (auto split: prod.splits)

lemma retry_loop_attempts:
  "retry_loop p f fs n d s = (r, s', fs', ds) \<Longrightarrow> n \<le> max_attempts p \<Longrightarrow>
     \<exists>k \<le> Suc (max_attempts p) - n. fs' = drop k fs"
proof (induction p f fs n d s arbitrary: r s' fs' ds rule: retry_loop.induct)
  case (1 p f n d s)
  then show ?case by (auto split: prod.splits)
next
  case (2 p f fs n d s)
  then show ?case by (intro exI [of _ 1]) (auto split: prod.splits)
next
  case (3 p f e fs n d s)
  show ?case
  proof (cases "max_attempts p \<le> n \<or> \<not> is_retryable_persistence_error (fst e) (snd e)")
    case True
    with 3 show ?thesis by (intro exI [of _ 1]) auto
  next
    case False
    with 3 obtain ds' where "retry_loop p f fs (n + 1) (next_delay p d) s = (r, s', fs', ds')"
      by (auto split: prod.splits)
    with 3 False obtain k where k: "k \<le> Suc (max_attempts p) - (n + 1)" "fs' = drop k fs"
      by fastforce
    with False show ?thesis by (intro exI [of _ "Suc k"]) auto
  qed
qed

lemma next_delay_le: "next_delay p d \<le> max_delay p"
  by (simp add: next_delay_def)

lemma retry_loop_sleeps:
  "retry_loop p f fs n d s = (r, s', fs', ds) \<Longrightarrow> n \<le> max_attempts p \<Longrightarrow>
     length ds \<le> max_attempts p - n \<and> (\<forall>x \<in> set ds. 0 < x \<and> x \<le> max d (max_delay p))"
proof (induction p f fs n d s arbitrary: r s' fs' ds rule: retry_loop.induct)
  case (3 p f e fs n d s)
  show ?case
  proof (cases "max_attempts p \<le> n \<or> \<not> is_retryable_persistence_error (fst e) (snd e)")
    case True
    with 3 show ?thesis by auto
  next
    case False
    with 3 obtain ds' where rec: "retry_loop p f fs (n + 1) (next_delay p d) s = (r, s', fs', ds')"
      and ds: "ds = (if 0 < d then d # ds' else ds')"
      by (auto split: prod.splits)
    have "length ds' \<le> max_attempts p - (n + 1) \<and>
        (\<forall>x \<in> set ds'. 0 < x \<and> x \<le> max (next_delay p d) (max_delay p))"
      using 3(1) [OF False rec] False by simp
    then show ?thesis
      using False ds next_delay_le [of p d] by (auto simp: max_def split: if_splits)
  qed
qed (auto split: prod.splits)

text \<open>Fewer lock errors than attempts, then a success: the operation is applied.\<close>

lemma retry_loop_succeeds:
  assumes "\<forall>e \<in> set es. is_retryable_persistence_error (fst e) (snd e)"
    and "n + length es \<le> max_attempts p"
  shows "\<exists>ds. retry_loop p f (map Some es @ None # fs) n d s = (case f s of (s', x) \<Rightarrow> (Inr x, s', fs, ds))"
  using assms
proof (induction es arbitrary: n d)
  case Nil
  then show ?case by (auto split: prod.splits)
next
  case (Cons e es)
  then have "\<forall>e \<in> set es. is_retryable_persistence_error (fst e) (snd e)"
    and "(n + 1) + length es \<le> max_attempts p" by auto
  from Cons.IH [OF this, of "next_delay p d"] Cons.prems show ?case
    by (auto split: prod.splits)
qed


section \<open>What the classification and the retry guarantee\<close>

text \<open>The walk over an exception and its chained exceptions terminates on every graph, cyclic
  ones included, and answers true exactly when a lock error is reachable from the exception.\<close>

lemma retryable_iff_reachable:
  "is_retryable_persistence_error g i \<longleftrightarrow>
     i < length g \<and> (\<exists>j. (i, j) \<in> (exc_edge g)\<^sup>* \<and> is_lock_error (g ! j))"
proof
  assume "is_retryable_persistence_error g i"
  then show "i < length g \<and> (\<exists>j. (i, j) \<in> (exc_edge g)\<^sup>* \<and> is_lock_error (g ! j))"
    using retry_walk_sound [of g "[i]" "[]"] by (simp add: is_retryable_persistence_error_def)
next
  assume "i < length g \<and> (\<exists>j. (i, j) \<in> (exc_edge g)\<^sup>* \<and> is_lock_error (g ! j))"
  moreover have "walk_inv g [i] []" by (simp add: walk_inv_def)
  ultimately show "is_retryable_persistence_error g i"
    using retry_walk_complete [of g "[i]" "[]" i] by (auto simp: is_retryable_persistence_error_def)
qed

text \<open>A store call makes at most \<open>max_attempts\<close> attempts, sleeps fewer times than that and
  never longer than the larger of the initial and the maximal delay, and leaves the store either
  untouched (it failed) or changed by exactly one run of the operation (it succeeded).\<close>

lemma retry_bounded:
  assumes "call_store_with_retry p f fs s = (r, s', fs', ds)" and "1 \<le> max_attempts p"
  shows "(\<exists>k \<le> max_attempts p. fs' = drop k fs) \<and> length ds < max_attempts p
    \<and> (\<forall>d \<in> set ds. 0 < d \<and> d \<le> max (initial_delay p) (max_delay p))
    \<and> (case r of Inl e \<Rightarrow> s' = s | Inr x \<Rightarrow> f s = (s', x))"
proof -
  from assms(1) have run: "retry_loop p f fs 1 (initial_delay p) s = (r, s', fs', ds)"
    by (simp add: call_store_with_retry_def)
  from retry_loop_attempts [OF run assms(2)] retry_loop_sleeps [OF run assms(2)]
    retry_loop_effect [OF run] assms(2)
  show ?thesis by auto
qed

definition busy_fault :: fault where
  "busy_fault = ([\<lparr>ex_message = ''(sqlite3.OperationalError) Database is LOCKED'', ex_is_sqlite = True,
     ex_code = Some 5, ex_orig = None, ex_cause = Some 0, ex_context = Some 0\<rparr>], 0)"

lemma busy_fault_retryable: "is_retryable_persistence_error (fst busy_fault) (snd busy_fault)"
  by code_simp

end
