(* ===== verification/RunManager.thy ===== *)
theory RunManager
  imports RunStore PersistRetry
begin

text \<open>
  The run registry \<open>RunManager\<close> (\<open>backend/packages/harness/vassilflow/runtime/runs/manager.py\<close>)
  over the in-memory run store.

  The state holds the run records, the thread index, the asyncio tasks the records refer to
  and the outcomes of the coming store attempts.  Every section the code runs under
  \<open>self._lock\<close> is one function; where the code awaits something that lets other
  coroutines run (the store read of \<open>get\<close>, the wait for predecessor tasks of
  \<open>create_or_reject\<close>, the drain of \<open>shutdown\<close>), the change made meanwhile is an argument
  \<open>env\<close>.  The clock is the argument \<open>now\<close> and the fresh \<open>uuid4\<close> the argument \<open>rid\<close>.
\<close>

section \<open>Records and state\<close>

datatype task_state = TaskActive bool | TaskFinished | TaskCancelled

fun task_done :: "task_state \<Rightarrow> bool" where
  "task_done (TaskActive c) = False"
| "task_done TaskFinished = True"
| "task_done TaskCancelled = True"

text \<open>\<open>task.cancel()\<close> asks an active task to stop; it has no effect on a done one.\<close>

fun task_cancel :: "task_state \<Rightarrow> task_state" where
  "task_cancel (TaskActive c) = TaskActive True"
| "task_cancel t = t"

record run_record =
  r_run_id :: string
  r_thread_id :: string
  r_assistant_id :: "string option"
  r_status :: run_status
  r_on_disconnect :: disconnect_mode
  r_strategy :: string
  r_metadata :: pydict
  r_kwargs :: pydict
  r_user_id :: "string option"
  r_created_at :: string
  r_updated_at :: string
  r_task :: "nat option"
  r_abort_set :: bool
  r_abort_action :: string
  r_error :: "string option"
  r_model_name :: "string option"
  r_store_only :: bool
  r_stats :: run_stats

text \<open>The counters of a fresh record: the dataclass defaults.\<close>

definition zero_stats :: run_stats where
  "zero_stats = \<lparr>st_input_tokens = Some 0, st_output_tokens = Some 0, st_total_tokens = Some 0,
     st_llm_calls = Some 0, st_lead_tokens = Some 0, st_subagent_tokens = Some 0,
     st_middleware_tokens = Some 0, st_by_model = Some [], st_messages = Some 0,
     st_last_ai = None, st_first_human = None\<rparr>"

record run_manager =
  rm_runs :: "(string \<times> run_record) list"
  rm_by_thread :: thread_index
  rm_tasks :: "nat \<Rightarrow> task_state"
  rm_store :: "mem_store option"
  rm_policy :: retry_policy
  rm_faults :: faults

datatype rm_error =
    ConflictActive
  | ConflictFinalizing
  | UnsupportedStrategy
  | AdmissionCancelled
  | StoreFailure fault

definition rm_init :: "mem_store option \<Rightarrow> retry_policy \<Rightarrow> faults \<Rightarrow> run_manager" where
  "rm_init st p fs = \<lparr>rm_runs = [], rm_by_thread = [], rm_tasks = (\<lambda>_. TaskFinished),
     rm_store = st, rm_policy = p, rm_faults = fs\<rparr>"

section \<open>The registry and its index\<close>

definition index_run_locked :: "run_record \<Rightarrow> run_manager \<Rightarrow> run_manager" where
  "index_run_locked r m = m\<lparr>rm_by_thread := index_run (r_run_id r) (r_thread_id r) (rm_by_thread m)\<rparr>"

definition unindex_run_locked :: "string \<Rightarrow> string \<Rightarrow> run_manager \<Rightarrow> run_manager" where
  "unindex_run_locked rid tid m = m\<lparr>rm_by_thread := unindex_run rid tid (rm_by_thread m)\<rparr>"

definition thread_records :: "run_manager \<Rightarrow> string \<Rightarrow> run_record list" where
  "thread_records m tid = List.map_filter (map_of (rm_runs m)) (bucket (rm_by_thread m) tid)"

definition active_status :: "run_status \<Rightarrow> bool" where
  "active_status st \<longleftrightarrow> st = Pending \<or> st = Running"

definition is_inflight :: "run_manager \<Rightarrow> run_record \<Rightarrow> bool" where
  "is_inflight m r \<longleftrightarrow> active_status (r_status r) \<or>
     (case r_task r of None \<Rightarrow> False | Some t \<Rightarrow> \<not> task_done (rm_tasks m t))"

text \<open>\<open>self._runs[run_id] = record; self._index_run_locked(record)\<close> and its undoing.\<close>

definition register_run :: "string \<Rightarrow> run_record \<Rightarrow> run_manager \<Rightarrow> run_manager" where
  "register_run rid r m =
     m\<lparr>rm_runs := od_set rid r (rm_runs m),
       rm_by_thread := index_run rid (r_thread_id r) (rm_by_thread m)\<rparr>"

definition rollback_run :: "string \<Rightarrow> string \<Rightarrow> run_manager \<Rightarrow> run_manager" where
  "rollback_run rid tid m = unindex_run_locked rid tid (m\<lparr>rm_runs := od_pop rid (rm_runs m)\<rparr>)"

text \<open>Change one live record.\<close>

definition modify_run :: "string \<Rightarrow> (run_record \<Rightarrow> run_record) \<Rightarrow> run_manager \<Rightarrow> run_manager" where
  "modify_run rid f m =
     (case map_of (rm_runs m) rid of
        None \<Rightarrow> m
      | Some r \<Rightarrow> m\<lparr>rm_runs := od_set rid (f r) (rm_runs m)\<rparr>)"

section \<open>Persistence\<close>

definition store_put_payload :: "run_record \<Rightarrow> string option \<Rightarrow> put_payload" where
  "store_put_payload r err = \<lparr>
     pp_thread_id = r_thread_id r, pp_assistant_id = r_assistant_id r, pp_user_id = r_user_id r,
     pp_model_name = r_model_name r, pp_status = status_value (r_status r),
     pp_strategy = r_strategy r, pp_metadata = r_metadata r, pp_kwargs = r_kwargs r,
     pp_error = keep_some err (r_error r), pp_created_at = Some (r_created_at r)\<rparr>"

text \<open>One store operation under the retry policy, on a manager that has the store \<open>s\<close>.\<close>

definition store_call ::
  "(mem_store \<Rightarrow> mem_store \<times> 'a) \<Rightarrow> mem_store \<Rightarrow> run_manager \<Rightarrow> (fault + 'a) \<times> run_manager" where
  "store_call f s m =
     (case call_store_with_retry (rm_policy m) f (rm_faults m) s of
        (r, s', fs, _) \<Rightarrow> (r, m\<lparr>rm_store := Some s', rm_faults := fs\<rparr>))"

text \<open>One attempt without retry.\<close>

definition store_once ::
  "(mem_store \<Rightarrow> mem_store \<times> 'a) \<Rightarrow> mem_store \<Rightarrow> run_manager \<Rightarrow> (fault + 'a) \<times> run_manager" where
  "store_once f s m =
     (case rm_faults m of
        Some e # fs \<Rightarrow> (Inl e, m\<lparr>rm_faults := fs\<rparr>)
      | fs \<Rightarrow> (case f s of (s', x) \<Rightarrow> (Inr x, m\<lparr>rm_store := Some s', rm_faults := tl fs\<rparr>)))"

definition persist_snapshot ::
  "string \<Rightarrow> string \<Rightarrow> put_payload \<Rightarrow> run_manager \<Rightarrow> bool \<times> run_manager" where
  "persist_snapshot now rid p m =
     (case rm_store m of
        None \<Rightarrow> (True, m)
      | Some s \<Rightarrow>
          (case store_call (\<lambda>s. (ms_put now rid p s, ())) s m of
             (Inr _, m') \<Rightarrow> (True, m')
           | (Inl _, m') \<Rightarrow> (False, m')))"

definition persist_new_run ::
  "string \<Rightarrow> run_record \<Rightarrow> run_manager \<Rightarrow> (fault + unit) \<times> run_manager" where
  "persist_new_run now r m =
     (case rm_store m of
        None \<Rightarrow> (Inr (), m)
      | Some s \<Rightarrow> store_call (\<lambda>s. (ms_put now (r_run_id r) (store_put_payload r None) s, ())) s m)"

definition persist_to_store ::
  "string \<Rightarrow> run_record \<Rightarrow> string option \<Rightarrow> run_manager \<Rightarrow> bool \<times> run_manager" where
  "persist_to_store now r err m = persist_snapshot now (r_run_id r) (store_put_payload r err) m"

definition persist_status ::
  "string \<Rightarrow> run_record \<Rightarrow> run_status \<Rightarrow> string option \<Rightarrow> run_manager \<Rightarrow> bool \<times> run_manager" where
  "persist_status now r st err m =
     (case rm_store m of
        None \<Rightarrow> (True, m)
      | Some s \<Rightarrow>
          (case store_call (ms_update_status now (r_run_id r) (status_value st) err) s m of
             (Inl _, m') \<Rightarrow> (False, m')
           | (Inr False, m') \<Rightarrow> persist_snapshot now (r_run_id r) (store_put_payload r err) m'
           | (Inr True, m') \<Rightarrow> (True, m')))"

definition persist_model_name ::
  "string \<Rightarrow> string \<Rightarrow> string option \<Rightarrow> run_manager \<Rightarrow> run_manager" where
  "persist_model_name now rid model m =
     (case rm_store m of
        None \<Rightarrow> m
      | Some s \<Rightarrow> snd (store_call (\<lambda>s. (ms_update_model_name now rid model s, ())) s m))"

definition int_or_zero :: "int option \<Rightarrow> int option" where
  "int_or_zero x = Some (or_zero x)"

definition or_empty :: "'a list option \<Rightarrow> 'a list" where
  "or_empty x = (case x of None \<Rightarrow> [] | Some d \<Rightarrow> d)"

text \<open>\<open>None\<close> when the status or the disconnect mode of the row is no member of its enum.\<close>

definition record_from_store :: "run_row \<Rightarrow> run_record option" where
  "record_from_store row =
     (case (status_of_string (str_or (row_status row) ''pending''),
            disconnect_of_string (str_or (row_on_disconnect row) ''cancel'')) of
        (Some st, Some od) \<Rightarrow> Some \<lparr>
          r_run_id = row_run_id row, r_thread_id = row_thread_id row,
          r_assistant_id = row_assistant_id row, r_status = st, r_on_disconnect = od,
          r_strategy = str_or (row_strategy row) ''reject'',
          r_metadata = or_empty (row_metadata row), r_kwargs = or_empty (row_kwargs row),
          r_user_id = row_user_id row, r_created_at = str_or (row_created_at row) '''',
          r_updated_at = str_or (row_updated_at row) '''', r_task = None, r_abort_set = False,
          r_abort_action = ''interrupt'', r_error = row_error row,
          r_model_name = row_model_name row, r_store_only = True,
          r_stats = (let s = row_stats row in \<lparr>
            st_input_tokens = int_or_zero (st_input_tokens s),
            st_output_tokens = int_or_zero (st_output_tokens s),
            st_total_tokens = int_or_zero (st_total_tokens s),
            st_llm_calls = int_or_zero (st_llm_calls s),
            st_lead_tokens = int_or_zero (st_lead_tokens s),
            st_subagent_tokens = int_or_zero (st_subagent_tokens s),
            st_middleware_tokens = int_or_zero (st_middleware_tokens s),
            st_by_model = Some (or_empty (st_by_model s)),
            st_messages = int_or_zero (st_messages s),
            st_last_ai = st_last_ai s, st_first_human = st_first_human s\<rparr>)\<rparr>
      | _ \<Rightarrow> None)"

section \<open>Operations\<close>

definition update_run_completion ::
  "string \<Rightarrow> string \<Rightarrow> string \<Rightarrow> run_stats \<Rightarrow> string option \<Rightarrow> run_manager \<Rightarrow> run_manager" where
  "update_run_completion now rid st stats err m =
     (let m1 = modify_run rid (\<lambda>r. r\<lparr>r_stats := merge_stats stats (r_stats r),
                  r_error := keep_some err (r_error r), r_updated_at := now\<rparr>) m;
          recovery = map_option (\<lambda>r. store_put_payload r err) (map_of (rm_runs m1) rid)
      in case rm_store m1 of
           None \<Rightarrow> m1
         | Some s \<Rightarrow>
             (case store_call (ms_update_run_completion now rid st stats err) s m1 of
                (Inr False, m2) \<Rightarrow>
                  (case recovery of
                     None \<Rightarrow> m2
                   | Some p \<Rightarrow>
                       (case persist_snapshot now rid p m2 of
                          (False, m3) \<Rightarrow> m3
                        | (True, m3) \<Rightarrow>
                            (case rm_store m3 of
                               None \<Rightarrow> m3
                             | Some s3 \<Rightarrow>
                                 snd (store_call (ms_update_run_completion now rid st stats err) s3 m3))))
              | (_, m2) \<Rightarrow> m2))"

definition update_run_progress :: "string \<Rightarrow> string \<Rightarrow> run_stats \<Rightarrow> run_manager \<Rightarrow> run_manager" where
  "update_run_progress now rid stats m =
     (let should = (case map_of (rm_runs m) rid of None \<Rightarrow> True | Some r \<Rightarrow> r_status r = Running);
          m1 = (if should then modify_run rid (\<lambda>r. r\<lparr>r_stats := merge_stats stats (r_stats r),
                                                     r_updated_at := now\<rparr>) m else m)
      in case rm_store m1 of
           None \<Rightarrow> m1
         | Some s \<Rightarrow>
             if should then snd (store_once (\<lambda>s. (ms_update_run_progress now rid stats s, ())) s m1)
             else m1)"

definition new_record ::
  "string \<Rightarrow> string \<Rightarrow> string \<Rightarrow> string option \<Rightarrow> disconnect_mode \<Rightarrow> pydict \<Rightarrow> pydict \<Rightarrow>
     string \<Rightarrow> string option \<Rightarrow> string option \<Rightarrow> run_record" where
  "new_record now rid tid aid od meta kw strat model uid = \<lparr>
     r_run_id = rid, r_thread_id = tid, r_assistant_id = aid, r_status = Pending,
     r_on_disconnect = od, r_strategy = strat, r_metadata = meta, r_kwargs = kw,
     r_user_id = uid, r_created_at = now, r_updated_at = now, r_task = None,
     r_abort_set = False, r_abort_action = ''interrupt'', r_error = None,
     r_model_name = model, r_store_only = False, r_stats = zero_stats\<rparr>"

text \<open>Register a record, persist it, and take it out again if that fails.\<close>

definition register_and_persist ::
  "string \<Rightarrow> run_record \<Rightarrow> run_manager \<Rightarrow> (rm_error + unit) \<times> run_manager" where
  "register_and_persist now r m =
     (case persist_new_run now r (register_run (r_run_id r) r m) of
        (Inr _, m') \<Rightarrow> (Inr (), m')
      | (Inl e, m') \<Rightarrow> (Inl (StoreFailure e), rollback_run (r_run_id r) (r_thread_id r) m'))"

definition rm_create ::
  "string \<Rightarrow> string \<Rightarrow> string \<Rightarrow> string option \<Rightarrow> disconnect_mode \<Rightarrow> pydict \<Rightarrow> pydict \<Rightarrow>
     string \<Rightarrow> string option \<Rightarrow> run_manager \<Rightarrow> (rm_error + run_record) \<times> run_manager" where
  "rm_create now rid tid aid od meta kw strat uid m =
     (let r = new_record now rid tid aid od meta kw strat None uid
      in case register_and_persist now r m of
           (Inl e, m') \<Rightarrow> (Inl e, m')
         | (Inr _, m') \<Rightarrow> (Inr r, m'))"

definition rm_get ::
  "(run_manager \<Rightarrow> run_manager) \<Rightarrow> string \<Rightarrow> string option \<Rightarrow> run_manager \<Rightarrow>
     run_record option \<times> run_manager" where
  "rm_get env rid uid m =
     (case map_of (rm_runs m) rid of
        Some r \<Rightarrow> (Some r, m)
      | None \<Rightarrow>
          (case rm_store m of
             None \<Rightarrow> (None, m)
           | Some s \<Rightarrow>
               (case store_once (\<lambda>s. (s, ms_get rid uid s)) s m of
                  (Inl _, m') \<Rightarrow> (None, m')
                | (Inr row, m') \<Rightarrow>
                    (let m2 = env m'
                     in case map_of (rm_runs m2) rid of
                          Some r \<Rightarrow> (Some r, m2)
                        | None \<Rightarrow> (Option.bind row record_from_store, m2)))))"

definition merge_store_rows :: "run_row list \<Rightarrow> (string \<times> run_record) list \<Rightarrow> (string \<times> run_record) list" where
  "merge_store_rows rows d =
     fold (\<lambda>row d. if row_run_id row = '''' \<or> row_run_id row \<in> fst ` set d then d
                    else case record_from_store row of
                           None \<Rightarrow> d
                         | Some r \<Rightarrow> od_set (row_run_id row) r d) rows d"

definition newest_first :: "nat \<Rightarrow> run_record list \<Rightarrow> run_record list" where
  "newest_first limit rs = take limit (sorted_desc r_created_at rs)"

definition rm_list_by_thread ::
  "string \<Rightarrow> string option \<Rightarrow> nat \<Rightarrow> run_manager \<Rightarrow> run_record list \<times> run_manager" where
  "rm_list_by_thread tid uid limit m =
     (let mem = thread_records m tid
      in case rm_store m of
           None \<Rightarrow> (newest_first limit mem, m)
         | Some s \<Rightarrow>
             (case store_once (\<lambda>s. (s, ms_list_by_thread tid uid limit s)) s m of
                (Inl _, m') \<Rightarrow> (newest_first limit mem, m')
              | (Inr rows, m') \<Rightarrow>
                  (newest_first limit
                     (map snd (merge_store_rows rows (map (\<lambda>r. (r_run_id r, r)) mem))), m')))"

definition set_status :: "string \<Rightarrow> string \<Rightarrow> run_status \<Rightarrow> string option \<Rightarrow> run_manager \<Rightarrow> run_manager" where
  "set_status now rid st err m =
     (case map_of (rm_runs m) rid of
        None \<Rightarrow> m
      | Some r \<Rightarrow>
          (let r' = r\<lparr>r_status := st, r_updated_at := now, r_error := keep_some err (r_error r)\<rparr>
           in snd (persist_status now r' st err (modify_run rid (\<lambda>_. r') m))))"

definition update_model_name :: "string \<Rightarrow> string \<Rightarrow> string option \<Rightarrow> run_manager \<Rightarrow> run_manager" where
  "update_model_name now rid model m =
     (case map_of (rm_runs m) rid of
        None \<Rightarrow> m
      | Some r \<Rightarrow> persist_model_name now rid model
          (modify_run rid (\<lambda>r. r\<lparr>r_model_name := model, r_updated_at := now\<rparr>) m))"

text \<open>\<open>record.abort_event.set()\<close>, the abort action, and \<open>task.cancel()\<close> on an active task.\<close>

definition cancel_task :: "nat option \<Rightarrow> (nat \<Rightarrow> task_state) \<Rightarrow> (nat \<Rightarrow> task_state)" where
  "cancel_task t tasks = (case t of None \<Rightarrow> tasks | Some i \<Rightarrow> tasks(i := task_cancel (tasks i)))"

definition interrupt_run :: "string \<Rightarrow> string \<Rightarrow> string \<Rightarrow> run_manager \<Rightarrow> run_manager" where
  "interrupt_run now action rid m =
     (case map_of (rm_runs m) rid of
        None \<Rightarrow> m
      | Some r \<Rightarrow> (modify_run rid (\<lambda>r. r\<lparr>r_abort_action := action, r_abort_set := True,
                     r_status := Interrupted, r_updated_at := now\<rparr>) m)
                   \<lparr>rm_tasks := cancel_task (r_task r) (rm_tasks m)\<rparr>)"

definition rm_cancel :: "string \<Rightarrow> string \<Rightarrow> string \<Rightarrow> run_manager \<Rightarrow> bool \<times> run_manager" where
  "rm_cancel now rid action m =
     (case map_of (rm_runs m) rid of
        None \<Rightarrow> (False, m)
      | Some r \<Rightarrow>
          if r_status r = Interrupted then (True, m)
          else if \<not> active_status (r_status r) then (False, m)
          else (let m1 = interrupt_run now action rid m
                in case map_of (rm_runs m1) rid of
                     None \<Rightarrow> (True, m1)
                   | Some r1 \<Rightarrow> (True, snd (persist_status now r1 Interrupted None m1))))"

definition supported_strategies :: "string list" where
  "supported_strategies = [''reject'', ''interrupt'', ''rollback'']"

definition inflight_on :: "run_manager \<Rightarrow> string \<Rightarrow> run_record list" where
  "inflight_on m tid = filter (is_inflight m) (thread_records m tid)"

text \<open>The runs a replacement interrupts: not aborted before, and not yet terminal.\<close>

definition to_interrupt :: "run_record \<Rightarrow> bool" where
  "to_interrupt r \<longleftrightarrow> \<not> r_abort_set r \<and> active_status (r_status r)"

text \<open>
  The locked section of \<open>_create_or_reject\<close>: the predecessors still in flight and, of
  them, the ones interrupted here.
\<close>

definition reserve_run ::
  "string \<Rightarrow> run_record \<Rightarrow> run_manager \<Rightarrow> (rm_error + string list \<times> string list) \<times> run_manager" where
  "reserve_run now r m =
     (if r_strategy r \<notin> set supported_strategies then (Inl UnsupportedStrategy, m)
      else
        let inflight = inflight_on m (r_thread_id r)
        in if r_strategy r = ''reject'' \<and> inflight \<noteq> [] then (Inl ConflictActive, m)
           else
             case register_and_persist now r m of
               (Inl e, m') \<Rightarrow> (Inl e, m')
             | (Inr _, m1) \<Rightarrow>
                 (let ids = (if r_strategy r \<noteq> ''reject''
                             then map r_run_id (filter to_interrupt inflight) else [])
                  in (Inr (map r_run_id inflight, ids),
                      fold (interrupt_run now (r_strategy r)) ids m1)))"

definition persist_current :: "string \<Rightarrow> string \<Rightarrow> run_manager \<Rightarrow> run_manager" where
  "persist_current now rid m =
     (case map_of (rm_runs m) rid of
        None \<Rightarrow> m
      | Some r \<Rightarrow> snd (persist_status now r (r_status r) (r_error r) m))"

definition persist_interrupted :: "string \<Rightarrow> string \<Rightarrow> run_manager \<Rightarrow> run_manager" where
  "persist_interrupted now rid m =
     (case map_of (rm_runs m) rid of
        None \<Rightarrow> m
      | Some r \<Rightarrow> snd (persist_status now r Interrupted None m))"

text \<open>The tasks of the given runs that are not done.\<close>

definition open_tasks :: "run_manager \<Rightarrow> string list \<Rightarrow> nat list" where
  "open_tasks m ids =
     filter (\<lambda>t. \<not> task_done (rm_tasks m t))
       (List.map_filter (\<lambda>rid. Option.bind (map_of (rm_runs m) rid) r_task) ids)"

definition admission_failed_error :: string where
  "admission_failed_error = ''Run admission ended before predecessor finalization completed''"

definition fail_admission :: "string \<Rightarrow> string \<Rightarrow> run_manager \<Rightarrow> run_manager" where
  "fail_admission now rid m =
     set_status now rid RunError (Some admission_failed_error)
       (modify_run rid (\<lambda>r. r\<lparr>r_abort_set := True\<rparr>) m)"

text \<open>
  The rest of \<open>_create_or_reject\<close>: persist the interruptions, wait for the predecessors'
  tasks (\<open>env\<close> is what happens until the wait returns, \<open>cancelled\<close> says that the
  admission itself was cancelled in it), and persist the predecessors' final status.
\<close>

definition settle_run ::
  "(run_manager \<Rightarrow> run_manager) \<Rightarrow> bool \<Rightarrow> string \<Rightarrow> string \<Rightarrow> string list \<Rightarrow> string list \<Rightarrow>
     run_manager \<Rightarrow> (rm_error + unit) \<times> run_manager" where
  "settle_run env cancelled now rid inflight ids m =
     (let m1 = fold (persist_interrupted now) ids m;
          tasks = open_tasks m1 inflight
      in if tasks = [] then (Inr (), fold (persist_current now) ids m1)
         else let m2 = env m1
              in if cancelled then (Inl AdmissionCancelled, fail_admission now rid m2)
                 else if filter (\<lambda>t. \<not> task_done (rm_tasks m2 t)) tasks \<noteq> []
                 then (Inl ConflictFinalizing, fail_admission now rid m2)
                 else (Inr (), fold (persist_current now) ids m2))"

definition create_or_reject ::
  "(run_manager \<Rightarrow> run_manager) \<Rightarrow> bool \<Rightarrow> string \<Rightarrow> string \<Rightarrow> string \<Rightarrow> string option \<Rightarrow>
     disconnect_mode \<Rightarrow> pydict \<Rightarrow> pydict \<Rightarrow> string \<Rightarrow> string option \<Rightarrow> string option \<Rightarrow>
     run_manager \<Rightarrow> (rm_error + run_record) \<times> run_manager" where
  "create_or_reject env cancelled now rid tid aid od meta kw strat model uid m =
     (let r = new_record now rid tid aid od meta kw strat model uid
      in case reserve_run now r m of
           (Inl e, m') \<Rightarrow> (Inl e, m')
         | (Inr (inflight, ids), m1) \<Rightarrow>
             (case settle_run env cancelled now rid inflight ids m1 of
                (Inl e, m2) \<Rightarrow> (Inl e, m2)
              | (Inr _, m2) \<Rightarrow>
                  (Inr (case map_of (rm_runs m2) rid of None \<Rightarrow> r | Some r' \<Rightarrow> r'), m2)))"

definition reconcile_row ::
  "string \<Rightarrow> string \<Rightarrow> run_row \<Rightarrow> run_record list \<times> run_manager \<Rightarrow> run_record list \<times> run_manager" where
  "reconcile_row now err row acc =
     (case acc of (rs, m) \<Rightarrow>
       (case record_from_store row of
          None \<Rightarrow> (rs, m)
        | Some r \<Rightarrow>
            (let owned = (case map_of (rm_runs m) (r_run_id r) of
                            Some live \<Rightarrow> active_status (r_status live)
                          | None \<Rightarrow> False);
                 r' = r\<lparr>r_status := RunError, r_error := Some err, r_updated_at := now\<rparr>
             in if owned then (rs, m)
                else case persist_status now r' RunError (Some err) m of
                       (False, m') \<Rightarrow> (rs, m')
                     | (True, m') \<Rightarrow> (rs @ [r'], m'))))"

definition reconcile_orphaned_inflight_runs ::
  "string \<Rightarrow> string \<Rightarrow> string option \<Rightarrow> run_manager \<Rightarrow> run_record list \<times> run_manager" where
  "reconcile_orphaned_inflight_runs now err before m =
     (case rm_store m of
        None \<Rightarrow> ([], m)
      | Some s \<Rightarrow>
          (case store_call (\<lambda>s. (s, ms_list_inflight now before s)) s m of
             (Inl _, m') \<Rightarrow> ([], m')
           | (Inr rows, m') \<Rightarrow> fold (reconcile_row now err) rows ([], m')))"

definition has_inflight :: "string \<Rightarrow> run_manager \<Rightarrow> bool" where
  "has_inflight tid m = list_ex (is_inflight m) (thread_records m tid)"

definition rm_cleanup :: "string \<Rightarrow> run_manager \<Rightarrow> run_manager" where
  "rm_cleanup rid m =
     (case map_of (rm_runs m) rid of
        None \<Rightarrow> m
      | Some r \<Rightarrow> unindex_run_locked rid (r_thread_id r) (m\<lparr>rm_runs := od_pop rid (rm_runs m)\<rparr>))"

text \<open>
  \<open>shutdown\<close>: abort the runs whose task is active, drain (\<open>env\<close>), mark the ones that did
  not settle on their own, and persist as many of those (\<open>persisted\<close>) as the time budget
  allows.
\<close>

definition shutdown_abort :: "string \<Rightarrow> run_manager \<Rightarrow> run_manager" where
  "shutdown_abort rid m =
     (case map_of (rm_runs m) rid of
        None \<Rightarrow> m
      | Some r \<Rightarrow>
          if to_interrupt r
          then (modify_run rid (\<lambda>r. r\<lparr>r_abort_action := ''interrupt'', r_abort_set := True\<rparr>) m)
                 \<lparr>rm_tasks := cancel_task (r_task r) (rm_tasks m)\<rparr>
          else m)"

definition task_of :: "run_manager \<Rightarrow> string \<Rightarrow> nat option" where
  "task_of m rid = Option.bind (map_of (rm_runs m) rid) r_task"

definition settled_itself :: "run_manager \<Rightarrow> string \<Rightarrow> bool" where
  "settled_itself m rid \<longleftrightarrow>
     (case task_of m rid of None \<Rightarrow> False | Some t \<Rightarrow> rm_tasks m t = TaskFinished)"

definition shutdown_mark :: "string \<Rightarrow> string \<Rightarrow> run_manager \<Rightarrow> run_manager" where
  "shutdown_mark now rid m =
     modify_run rid (\<lambda>r. if active_status (r_status r)
       then r\<lparr>r_status := Interrupted, r_updated_at := now\<rparr> else r) m"

definition rm_shutdown :: "(run_manager \<Rightarrow> run_manager) \<Rightarrow> nat \<Rightarrow> string \<Rightarrow> run_manager \<Rightarrow> run_manager" where
  "rm_shutdown env persisted now m =
     (let inflight = filter (\<lambda>rid. case task_of m rid of None \<Rightarrow> False
                                      | Some t \<Rightarrow> \<not> task_done (rm_tasks m t)) (od_keys (rm_runs m));
          m1 = fold shutdown_abort inflight m
      in if inflight = [] then m1
         else let m2 = env m1;
                  rest = filter (\<lambda>rid. \<not> settled_itself m2 rid) inflight;
                  m3 = fold (shutdown_mark now) rest m2
              in fold (persist_current now) (take persisted rest) m3)"

section \<open>What each operation leaves alone\<close>

lemma store_call_frame [simp]:
  "rm_runs (snd (store_call f s m)) = rm_runs m"
  "rm_by_thread (snd (store_call f s m)) = rm_by_thread m"
  "rm_tasks (snd (store_call f s m)) = rm_tasks m"
  "rm_policy (snd (store_call f s m)) = rm_policy m"
  by (simp_all add: store_call_def split: prod.splits)

lemma store_once_frame [simp]:
  "rm_runs (snd (store_once f s m)) = rm_runs m"
  "rm_by_thread (snd (store_once f s m)) = rm_by_thread m"
  "rm_tasks (snd (store_once f s m)) = rm_tasks m"
  "rm_policy (snd (store_once f s m)) = rm_policy m"
  by (simp_all add: store_once_def split: prod.splits list.splits option.splits)

text \<open>Two managers that differ at most in their store, its coming outcomes and the tasks.\<close>

definition same_registry :: "run_manager \<Rightarrow> run_manager \<Rightarrow> bool" where
  "same_registry m m' \<longleftrightarrow> rm_runs m' = rm_runs m \<and> rm_by_thread m' = rm_by_thread m"

lemma same_registry_refl [simp]: "same_registry m m"
  by (simp add: same_registry_def)

lemma same_registry_trans: "same_registry a b \<Longrightarrow> same_registry b c \<Longrightarrow> same_registry a c"
  by (simp add: same_registry_def)

lemma store_call_pair:
  assumes "store_call f s m = (r, m')"
  shows "rm_runs m' = rm_runs m" "rm_by_thread m' = rm_by_thread m"
    "rm_tasks m' = rm_tasks m" "rm_policy m' = rm_policy m"
  using store_call_frame [of f s m] assms by simp_all

lemma persist_snapshot_frame [simp]:
  "rm_runs (snd (persist_snapshot now rid p m)) = rm_runs m"
  "rm_by_thread (snd (persist_snapshot now rid p m)) = rm_by_thread m"
  "rm_tasks (snd (persist_snapshot now rid p m)) = rm_tasks m"
  by (auto simp: persist_snapshot_def store_call_pair split: option.splits prod.splits sum.splits)

lemma persist_status_frame [simp]:
  "rm_runs (snd (persist_status now r st err m)) = rm_runs m"
  "rm_by_thread (snd (persist_status now r st err m)) = rm_by_thread m"
  "rm_tasks (snd (persist_status now r st err m)) = rm_tasks m"
  by (auto simp: persist_status_def store_call_pair split: option.splits prod.splits sum.splits bool.splits)

lemma persist_new_run_frame [simp]:
  "rm_runs (snd (persist_new_run now r m)) = rm_runs m"
  "rm_by_thread (snd (persist_new_run now r m)) = rm_by_thread m"
  "rm_tasks (snd (persist_new_run now r m)) = rm_tasks m"
  by (auto simp: persist_new_run_def split: option.splits)

lemma persist_model_name_frame [simp]:
  "rm_runs (persist_model_name now rid model m) = rm_runs m"
  "rm_by_thread (persist_model_name now rid model m) = rm_by_thread m"
  by (auto simp: persist_model_name_def split: option.splits)

lemma persist_current_frame [simp]:
  "rm_runs (persist_current now rid m) = rm_runs m"
  "rm_by_thread (persist_current now rid m) = rm_by_thread m"
  "rm_tasks (persist_current now rid m) = rm_tasks m"
  by (auto simp: persist_current_def split: option.splits)

lemma persist_interrupted_frame [simp]:
  "rm_runs (persist_interrupted now rid m) = rm_runs m"
  "rm_by_thread (persist_interrupted now rid m) = rm_by_thread m"
  "rm_tasks (persist_interrupted now rid m) = rm_tasks m"
  by (auto simp: persist_interrupted_def split: option.splits)

lemma fold_persist_frame [simp]:
  "rm_runs (fold (persist_interrupted now) ids m) = rm_runs m"
  "rm_by_thread (fold (persist_interrupted now) ids m) = rm_by_thread m"
  "rm_tasks (fold (persist_interrupted now) ids m) = rm_tasks m"
  "rm_runs (fold (persist_current now) ids m) = rm_runs m"
  "rm_by_thread (fold (persist_current now) ids m) = rm_by_thread m"
  "rm_tasks (fold (persist_current now) ids m) = rm_tasks m"
  by (induction ids arbitrary: m) simp_all

section \<open>Lockstep of the registry and its index\<close>

definition rm_thread_of :: "run_manager \<Rightarrow> string \<Rightarrow> string option" where
  "rm_thread_of m k = map_option r_thread_id (map_of (rm_runs m) k)"

lemma rm_keys_cleanup:
  "od_keys (rm_runs (rm_cleanup k m)) = filter (\<lambda>k'. k' \<noteq> k) (od_keys (rm_runs m))"
proof (cases "map_of (rm_runs m) k")
  case None
  then have "k \<notin> set (od_keys (rm_runs m))" by (simp add: map_of_None_iff)
  then have "filter (\<lambda>k'. k' \<noteq> k) (od_keys (rm_runs m)) = od_keys (rm_runs m)"
    by (intro filter_True) auto
  with None show ?thesis by (simp add: rm_cleanup_def)
next
  case (Some r)
  then show ?thesis by (simp add: rm_cleanup_def unindex_run_locked_def od_keys_pop)
qed

interpretation rm: indexed_registry
  "\<lambda>m. od_keys (rm_runs m)" rm_thread_of "\<lambda>m. bucket (rm_by_thread m)"
  register_run r_thread_id rm_cleanup
proof unfold_locales
  fix k :: string and m :: run_manager and r t
  show "k \<notin> set (od_keys (rm_runs m)) \<Longrightarrow>
      od_keys (rm_runs (register_run k r m)) = od_keys (rm_runs m) @ [k]"
    by (simp add: register_run_def od_keys_set)
  show "rm_thread_of (register_run k r m) = (rm_thread_of m)(k \<mapsto> r_thread_id r)"
    by (auto simp: rm_thread_of_def register_run_def)
  show "bucket (rm_by_thread (register_run k r m)) t =
      (if t = r_thread_id r then bucket_add k (bucket (rm_by_thread m) t)
       else bucket (rm_by_thread m) t)"
    by (simp add: register_run_def bucket_index_run)
  show "od_keys (rm_runs (rm_cleanup k m)) = filter (\<lambda>k'. k' \<noteq> k) (od_keys (rm_runs m))"
    by (rule rm_keys_cleanup)
  show "rm_thread_of (rm_cleanup k m) = (rm_thread_of m)(k := None)"
    by (auto simp: rm_thread_of_def rm_cleanup_def unindex_run_locked_def fun_eq_iff split: option.splits)
  show "bucket (rm_by_thread (rm_cleanup k m)) t =
      (if rm_thread_of m k = Some t then filter (\<lambda>k'. k' \<noteq> k) (bucket (rm_by_thread m) t)
       else bucket (rm_by_thread m) t)"
    by (auto simp: rm_cleanup_def rm_thread_of_def unindex_run_locked_def bucket_unindex_run
        split: option.splits)
qed

definition records_filed :: "(string \<times> run_record) list \<Rightarrow> bool" where
  "records_filed d \<longleftrightarrow> (\<forall>(k, r) \<in> set d. r_run_id r = k)"

definition rm_ok :: "run_manager \<Rightarrow> bool" where
  "rm_ok m \<longleftrightarrow> od_ok (rm_runs m) \<and> records_filed (rm_runs m) \<and> rm.in_step m
     \<and> od_ok (rm_by_thread m) \<and> no_empty_bucket (rm_by_thread m)"

lemma records_filed_set: "records_filed d \<Longrightarrow> r_run_id r = k \<Longrightarrow> records_filed (od_set k r d)"
  by (induction k r d rule: od_set.induct) (auto simp: records_filed_def split: if_splits)

lemma records_filed_lookup: "records_filed d \<Longrightarrow> map_of d k = Some r \<Longrightarrow> r_run_id r = k"
  by (drule map_of_SomeD) (auto simp: records_filed_def)

lemma rm_ok_init: "rm_ok (rm_init st p fs)"
  by (simp add: rm_ok_def rm_init_def records_filed_def rm.in_step_def no_empty_bucket_def)

lemma rm_ok_same: "same_registry m m' \<Longrightarrow> rm_ok m' = rm_ok m"
  using rm.in_step_agree [of m' m]
  by (auto simp: rm_ok_def same_registry_def rm_thread_of_def fun_eq_iff)

lemma rm_ok_register:
  assumes "rm_ok m" and "r_run_id r \<notin> fst ` set (rm_runs m)"
  shows "rm_ok (register_run (r_run_id r) r m)"
proof -
  have "rm.in_step (register_run (r_run_id r) r m)"
    using rm.in_step_ins_fresh [of m "r_run_id r" r] assms by (simp add: rm_ok_def)
  with assms(1) show ?thesis
    unfolding rm_ok_def by (auto simp: register_run_def records_filed_set no_empty_index_run)
qed

lemma rm_ok_cleanup: "rm_ok m \<Longrightarrow> rm_ok (rm_cleanup rid m)"
  using rm.in_step_del [of m rid]
  by (auto simp: rm_ok_def rm_cleanup_def unindex_run_locked_def no_empty_unindex_run
      records_filed_def od_pop_def distinct_map_filter split: option.splits)

lemma modify_run_frame [simp]:
  "rm_by_thread (modify_run rid f m) = rm_by_thread m"
  "rm_tasks (modify_run rid f m) = rm_tasks m"
  "rm_store (modify_run rid f m) = rm_store m"
  "od_keys (rm_runs (modify_run rid f m)) = od_keys (rm_runs m)"
  by (auto simp: modify_run_def od_keys_set map_of_None_iff dest: map_of_Some_dom split: option.splits)

lemma modify_run_lookup:
  "map_of (rm_runs (modify_run rid f m)) k =
     (if k = rid then map_option f (map_of (rm_runs m) rid) else map_of (rm_runs m) k)"
  by (auto simp: modify_run_def split: option.splits)

text \<open>Changing a record in place, its id and thread kept, keeps the registry well formed.\<close>

lemma rm_ok_modify:
  assumes "rm_ok m"
    and "\<And>r. map_of (rm_runs m) rid = Some r \<Longrightarrow> r_run_id (f r) = r_run_id r \<and> r_thread_id (f r) = r_thread_id r"
  shows "rm_ok (modify_run rid f m)"
proof -
  have "rm_thread_of (modify_run rid f m) = rm_thread_of m"
    using assms(2)
    by (cases "map_of (rm_runs m) rid") (auto simp: rm_thread_of_def fun_eq_iff modify_run_lookup)
  then have "rm.in_step (modify_run rid f m) = rm.in_step m"
    by (intro rm.in_step_agree) (auto simp: fun_eq_iff)
  moreover have "records_filed (rm_runs (modify_run rid f m))"
  proof (cases "map_of (rm_runs m) rid")
    case None
    with assms(1) show ?thesis by (simp add: modify_run_def rm_ok_def)
  next
    case (Some r)
    with assms have "r_run_id (f r) = rid"
      using records_filed_lookup by (auto simp: rm_ok_def)
    with assms(1) Some show ?thesis
      by (simp add: modify_run_def rm_ok_def records_filed_set)
  qed
  ultimately show ?thesis using assms(1) by (simp add: rm_ok_def)
qed

lemma thread_records_scan:
  assumes "rm_ok m"
  shows "thread_records m tid = filter (\<lambda>r. r_thread_id r = tid) (map snd (rm_runs m))"
proof -
  have "bucket (rm_by_thread m) tid =
      filter (\<lambda>k. map_option r_thread_id (map_of (rm_runs m) k) = Some tid) (od_keys (rm_runs m))"
    using assms by (simp add: rm_ok_def rm.in_step_bucket rm_thread_of_def)
  with assms show ?thesis
    using map_filter_keys [of "rm_runs m" "\<lambda>x. map_option r_thread_id x = Some tid"]
    by (simp add: rm_ok_def thread_records_def)
qed
end
