(* ===== verification/RunLifecycle.thy ===== *)
theory RunLifecycle
  imports RunManager
begin

text \<open>
  Any interleaving of the locked sections of \<open>RunManager\<close> as a step relation, the
  invariant of its reachable states, and what admission, cancellation, recovery and
  shutdown guarantee.
\<close>

inductive rm_step :: "run_manager \<Rightarrow> run_manager \<Rightarrow> bool" where
  step_create: "rid \<notin> fst ` set (rm_runs m) \<Longrightarrow>
     rm_step m (snd (rm_create now rid tid aid od meta kw strat uid m))"
| step_reserve: "r_run_id r \<notin> fst ` set (rm_runs m) \<Longrightarrow> rm_step m (snd (reserve_run now r m))"
| step_persist_interrupted: "rm_step m (fold (persist_interrupted now) ids m)"
| step_persist_current: "rm_step m (fold (persist_current now) ids m)"
| step_fail_admission: "rm_step m (fail_admission now rid m)"
| step_set_status: "rm_step m (set_status now rid st err m)"
| step_model_name: "rm_step m (update_model_name now rid model m)"
| step_cancel: "rm_step m (snd (rm_cancel now rid action m))"
| step_completion: "rm_step m (update_run_completion now rid stv stats err m)"
| step_progress: "rm_step m (update_run_progress now rid stats m)"
| step_attach: "rm_step m (modify_run rid (\<lambda>r. r\<lparr>r_task := Some t\<rparr>) m)"
| step_tasks: "rm_step m (m\<lparr>rm_tasks := ts\<rparr>)"
| step_reconcile: "rm_step m (snd (reconcile_orphaned_inflight_runs now e before m))"
| step_cleanup: "rm_step m (rm_cleanup rid m)"
| step_shutdown_abort: "rm_step m (shutdown_abort rid m)"
| step_shutdown_mark: "rm_step m (shutdown_mark now rid m)"
| step_get: "rm_step m (snd (rm_get id rid uid m))"
| step_list: "rm_step m (snd (rm_list_by_thread tid uid limit m))"

inductive rm_reach :: "run_manager \<Rightarrow> bool" where
  reach_init: "rm_reach (rm_init st p fs)"
| reach_step: "rm_reach m \<Longrightarrow> rm_step m m' \<Longrightarrow> rm_reach m'"

section \<open>Every locked section keeps the registry well formed\<close>

lemma rollback_is_cleanup:
  assumes "map_of (rm_runs m) rid = Some r"
  shows "rollback_run rid (r_thread_id r) m = rm_cleanup rid m"
  using assms by (simp add: rollback_run_def rm_cleanup_def)

lemma rollback_register:
  assumes "rm_ok m" and "r_run_id r \<notin> fst ` set (rm_runs m)"
    and "same_registry (register_run (r_run_id r) r m) m'"
  shows "same_registry m (rollback_run (r_run_id r) (r_thread_id r) m')"
proof -
  have "bucket (rm_by_thread m) (r_thread_id r) =
      filter (\<lambda>k. rm_thread_of m k = Some (r_thread_id r)) (od_keys (rm_runs m))"
    using assms(1) by (simp add: rm_ok_def rm.in_step_bucket)
  then have "r_run_id r \<notin> set (bucket (rm_by_thread m) (r_thread_id r))"
    using assms(2) by auto
  then have "unindex_run (r_run_id r) (r_thread_id r)
      (index_run (r_run_id r) (r_thread_id r) (rm_by_thread m)) = rm_by_thread m"
    using assms(1) by (intro unindex_index_fresh) (auto simp: rm_ok_def)
  with assms(2,3) show ?thesis
    by (simp add: same_registry_def rollback_run_def unindex_run_locked_def register_run_def
        od_pop_set_fresh)
qed

lemma register_and_persist_cases:
  assumes "register_and_persist now r m = (res, m')"
    and "rm_ok m" and "r_run_id r \<notin> fst ` set (rm_runs m)"
  shows "case res of Inl e \<Rightarrow> same_registry m m' \<and> rm_tasks m' = rm_tasks m
    | Inr _ \<Rightarrow> same_registry (register_run (r_run_id r) r m) m' \<and> rm_tasks m' = rm_tasks m"
proof -
  obtain x m1 where p: "persist_new_run now r (register_run (r_run_id r) r m) = (x, m1)"
    by (cases "persist_new_run now r (register_run (r_run_id r) r m)")
  have same: "same_registry (register_run (r_run_id r) r m) m1" and tasks: "rm_tasks m1 = rm_tasks m"
    using persist_new_run_frame [of now r "register_run (r_run_id r) r m"]
    unfolding p same_registry_def by (simp_all add: register_run_def)
  show ?thesis
  proof (cases x)
    case (Inl e)
    with p assms(1) rollback_register [OF assms(2,3) same] tasks show ?thesis
      by (auto simp: register_and_persist_def rollback_run_def unindex_run_locked_def)
  next
    case (Inr u)
    with p assms(1) same tasks show ?thesis by (auto simp: register_and_persist_def)
  qed
qed

lemma rm_ok_register_and_persist:
  assumes "rm_ok m" and "r_run_id r \<notin> fst ` set (rm_runs m)"
  shows "rm_ok (snd (register_and_persist now r m))"
proof -
  obtain res m' where eq: "register_and_persist now r m = (res, m')"
    by (cases "register_and_persist now r m")
  from register_and_persist_cases [OF eq assms] show ?thesis
    using eq assms rm_ok_same rm_ok_register by (cases res) auto
qed

lemma rm_ok_create:
  assumes "rm_ok m" and "rid \<notin> fst ` set (rm_runs m)"
  shows "rm_ok (snd (rm_create now rid tid aid od meta kw strat uid m))"
proof -
  let ?r = "new_record now rid tid aid od meta kw strat None uid"
  have "rm_ok (snd (register_and_persist now ?r m))"
    using assms by (intro rm_ok_register_and_persist) (simp_all add: new_record_def)
  then show ?thesis
    by (auto simp: rm_create_def Let_def split: prod.splits sum.splits)
qed

lemma rm_ok_tasks [simp]: "rm_ok (m\<lparr>rm_tasks := ts\<rparr>) = rm_ok m"
  using rm_ok_same [of m "m\<lparr>rm_tasks := ts\<rparr>"] by (simp add: same_registry_def)

lemma rm_ok_interrupt: "rm_ok m \<Longrightarrow> rm_ok (interrupt_run now a rid m)"
  by (auto simp: interrupt_run_def intro: rm_ok_modify split: option.splits)

lemma rm_ok_fold_interrupt: "rm_ok m \<Longrightarrow> rm_ok (fold (interrupt_run now a) ids m)"
  by (induction ids arbitrary: m) (simp_all add: rm_ok_interrupt)

lemma rm_ok_reserve:
  assumes "rm_ok m" and "r_run_id r \<notin> fst ` set (rm_runs m)"
  shows "rm_ok (snd (reserve_run now r m))"
  using assms rm_ok_register_and_persist [OF assms, of now]
  by (auto simp: reserve_run_def Let_def intro: rm_ok_fold_interrupt split: prod.splits sum.splits)

lemma rm_ok_persists [simp]:
  "rm_ok (snd (persist_status now r st err m)) = rm_ok m"
  "rm_ok (snd (persist_snapshot now rid p m)) = rm_ok m"
  "rm_ok (persist_model_name now rid model m) = rm_ok m"
  "rm_ok (fold (persist_interrupted now) ids m) = rm_ok m"
  "rm_ok (fold (persist_current now) ids m) = rm_ok m"
  "rm_ok (snd (store_call f s m)) = rm_ok m"
  "rm_ok (snd (store_once g s m)) = rm_ok m"
  by (rule rm_ok_same; simp add: same_registry_def)+

lemma rm_ok_pair:
  "store_call f s m = (x, m') \<Longrightarrow> rm_ok m' = rm_ok m"
  "store_once g s m = (y, m') \<Longrightarrow> rm_ok m' = rm_ok m"
  "persist_snapshot now rid p m = (b, m') \<Longrightarrow> rm_ok m' = rm_ok m"
  "persist_status now r st err m = (b, m') \<Longrightarrow> rm_ok m' = rm_ok m"
  by (metis rm_ok_persists(6) snd_conv, metis rm_ok_persists(7) snd_conv,
      metis rm_ok_persists(2) snd_conv, metis rm_ok_persists(1) snd_conv)

lemma rm_ok_set_status: "rm_ok m \<Longrightarrow> rm_ok (set_status now rid st err m)"
  by (auto simp: set_status_def Let_def intro!: rm_ok_modify split: option.splits)

lemma rm_ok_cancel: "rm_ok m \<Longrightarrow> rm_ok (snd (rm_cancel now rid a m))"
  by (auto simp: rm_cancel_def Let_def rm_ok_interrupt split: option.splits)

lemma rm_ok_completion: "rm_ok m \<Longrightarrow> rm_ok (update_run_completion now rid stv stats err m)"
  using rm_ok_modify [of m rid "\<lambda>r. r\<lparr>r_stats := merge_stats stats (r_stats r),
      r_error := keep_some err (r_error r), r_updated_at := now\<rparr>"]
  by (auto simp: update_run_completion_def Let_def rm_ok_pair
      split: option.splits prod.splits sum.splits bool.splits)

lemma rm_ok_progress: "rm_ok m \<Longrightarrow> rm_ok (update_run_progress now rid stats m)"
  using rm_ok_modify [of m rid "\<lambda>r. r\<lparr>r_stats := merge_stats stats (r_stats r), r_updated_at := now\<rparr>"]
  by (auto simp: update_run_progress_def Let_def split: option.splits)

lemma rm_ok_reconcile_fold:
  "rm_ok (snd acc) \<Longrightarrow> rm_ok (snd (fold (reconcile_row now e) rows acc))"
proof (induction rows arbitrary: acc)
  case Nil
  then show ?case by simp
next
  case (Cons row rows)
  have "rm_ok (snd (reconcile_row now e row acc))"
    using Cons.prems
    by (auto simp: reconcile_row_def Let_def rm_ok_pair split: prod.splits option.splits bool.splits)
  with Cons.IH show ?case by simp
qed

lemma rm_ok_reconcile: "rm_ok m \<Longrightarrow> rm_ok (snd (reconcile_orphaned_inflight_runs now e before m))"
  by (auto simp: reconcile_orphaned_inflight_runs_def rm_ok_pair intro!: rm_ok_reconcile_fold
      split: option.splits prod.splits sum.splits)

lemma rm_ok_shutdown_steps:
  "rm_ok m \<Longrightarrow> rm_ok (shutdown_abort rid m)"
  "rm_ok m \<Longrightarrow> rm_ok (shutdown_mark now rid m)"
  by (auto simp: shutdown_abort_def shutdown_mark_def intro!: rm_ok_modify split: option.splits)

lemma rm_ok_reads:
  "rm_ok m \<Longrightarrow> rm_ok (snd (rm_get id rid uid m))"
  "rm_ok m \<Longrightarrow> rm_ok (snd (rm_list_by_thread tid uid limit m))"
  by (auto simp: rm_get_def rm_list_by_thread_def Let_def rm_ok_pair
      split: option.splits prod.splits sum.splits)

lemma rm_ok_step: "rm_step m m' \<Longrightarrow> rm_ok m \<Longrightarrow> rm_ok m'"
proof (induction rule: rm_step.induct)
  case (step_model_name m now rid model)
  then show ?case
    by (auto simp: update_model_name_def intro!: rm_ok_modify split: option.splits)
next
  case (step_attach m rid t)
  then show ?case by (auto intro!: rm_ok_modify)
next
  case (step_fail_admission m now rid)
  then show ?case by (auto simp: fail_admission_def intro!: rm_ok_set_status rm_ok_modify)
qed (simp_all add: rm_ok_create rm_ok_reserve rm_ok_set_status rm_ok_cancel rm_ok_completion
    rm_ok_progress rm_ok_reconcile rm_ok_cleanup rm_ok_shutdown_steps rm_ok_reads)

lemma rm_reach_ok: "rm_reach m \<Longrightarrow> rm_ok m"
  by (induction rule: rm_reach.induct) (auto simp: rm_ok_init intro: rm_ok_step)


section \<open>Reading a thread through the index\<close>

text \<open>C3. In every state an interleaving of the registry's locked sections can reach, reading a
  thread through the secondary index gives exactly the records a scan of the whole registry
  would give, in registry order.\<close>

theorem reachable_thread_records:
  assumes "rm_reach m"
  shows "thread_records m tid = filter (\<lambda>r. r_thread_id r = tid) (map snd (rm_runs m))"
  using thread_records_scan [OF rm_reach_ok [OF assms]] .

definition demo_manager :: run_manager where
  "demo_manager = snd (rm_create ''2026-01-01'' ''r1'' ''t1'' None DmCancel [] [] ''reject'' None
     (rm_init (Some ms_empty) default_policy []))"

lemma demo_reach: "rm_reach demo_manager"
  unfolding demo_manager_def
  by (rule reach_step [OF reach_init step_create]) (simp add: rm_init_def)

theorem reachable_thread_records_witness:
  "rm_reach demo_manager \<and>
   thread_records demo_manager ''t1'' =
     filter (\<lambda>r. r_thread_id r = ''t1'') (map snd (rm_runs demo_manager))"
  using demo_reach reachable_thread_records [OF demo_reach] by simp

section \<open>Creation\<close>

lemma store_call_failure:
  assumes "store_call f s m = (Inl e, m')"
  shows "rm_store m' = Some s"
  using assms retry_loop_effect [of "rm_policy m" f "rm_faults m" 1 "initial_delay (rm_policy m)" s]
  by (fastforce simp: store_call_def call_store_with_retry_def split: prod.splits)

lemma store_call_success:
  assumes "store_call f s m = (Inr x, m')"
  shows "\<exists>s'. f s = (s', x) \<and> rm_store m' = Some s'"
  using assms retry_loop_effect [of "rm_policy m" f "rm_faults m" 1 "initial_delay (rm_policy m)" s]
  by (fastforce simp: store_call_def call_store_with_retry_def split: prod.splits)

lemma persist_new_run_failure:
  assumes "persist_new_run now r m = (Inl e, m')"
  shows "rm_store m' = rm_store m"
  using assms by (cases "rm_store m") (auto simp: persist_new_run_def dest: store_call_failure)

text \<open>A run whose first store write fails is not registered: the record table, the thread
  index and the store are exactly as before.\<close>

lemma create_failure_rolls_back:
  assumes "rm_ok m" and "rid \<notin> fst ` set (rm_runs m)"
    and "rm_create now rid tid aid od meta kw strat uid m = (Inl e, m')"
  shows "rm_runs m' = rm_runs m \<and> rm_by_thread m' = rm_by_thread m \<and> rm_store m' = rm_store m"
proof -
  let ?r = "new_record now rid tid aid od meta kw strat None uid"
  from assms(3) have reg: "register_and_persist now ?r m = (Inl e, m')"
    by (auto simp: rm_create_def Let_def split: prod.splits sum.splits)
  have "same_registry m m'"
    using register_and_persist_cases [OF reg assms(1)] assms(2) by (simp add: new_record_def)
  moreover from reg have "rm_store m' = rm_store m"
    by (auto simp: register_and_persist_def rollback_run_def unindex_run_locked_def
        register_run_def dest: persist_new_run_failure split: prod.splits sum.splits)
  ultimately show ?thesis by (simp add: same_registry_def)
qed

text \<open>A permanent failure: an exception that is not a lock error.\<close>

definition demo_fault :: fault where
  "demo_fault = ([\<lparr>ex_message = ''disk full'', ex_is_sqlite = False, ex_code = None,
     ex_orig = None, ex_cause = None, ex_context = None\<rparr>], 0)"

lemma demo_fault_permanent: "\<not> is_retryable_persistence_error (fst demo_fault) (snd demo_fault)"
  by code_simp

text \<open>Creation publishes a run only with its row: when it succeeds the new record is pending
  and, if there is a store, the store holds a row for it with status pending under its thread.\<close>

lemma create_success_visible:
  assumes "rm_create now rid tid aid od meta kw strat uid m = (Inr r, m')"
    and "rm_store m \<noteq> None"
  shows "\<exists>s' row. rm_store m' = Some s' \<and> ms_get rid None s' = Some row \<and>
      row_status row = Some ''pending'' \<and> row_thread_id row = tid \<and>
      map_of (rm_runs m') rid = Some r \<and> r_status r = Pending"
proof -
  from assms(2) obtain s where s: "rm_store m = Some s" by auto
  let ?r = "new_record now rid tid aid od meta kw strat None uid"
  let ?p = "store_put_payload ?r None"
  from assms(1) s have r: "r = ?r"
    and call: "store_call (\<lambda>s. (ms_put now rid ?p s, ())) s (register_run rid ?r m) = (Inr (), m')"
    by (auto simp: rm_create_def Let_def register_and_persist_def persist_new_run_def register_run_def
        new_record_def split: prod.splits sum.splits)
  from store_call_success [OF call] have st: "rm_store m' = Some (ms_put now rid ?p s)" by simp
  have "map_of (rm_runs m') rid = Some ?r"
    using store_call_pair(1) [OF call] by (simp add: register_run_def)
  with st r show ?thesis
    by (simp add: ms_get_def ms_put_def ms_insert_def ms_new_row_def store_put_payload_def new_record_def)
qed

section \<open>Admission\<close>

definition interrupted_record :: "string \<Rightarrow> string \<Rightarrow> run_record \<Rightarrow> run_record" where
  "interrupted_record now a r =
     r\<lparr>r_abort_action := a, r_abort_set := True, r_status := Interrupted, r_updated_at := now\<rparr>"

lemma interrupt_run_lookup:
  "map_of (rm_runs (interrupt_run now a rid m)) k =
     (if k = rid then map_option (interrupted_record now a) (map_of (rm_runs m) rid)
      else map_of (rm_runs m) k)"
  by (auto simp: interrupt_run_def modify_run_lookup interrupted_record_def split: option.splits)

lemma interrupted_twice [simp]:
  "interrupted_record now a (interrupted_record now a r) = interrupted_record now a r"
  by (simp add: interrupted_record_def)

lemma fold_interrupt_lookup:
  "map_of (rm_runs (fold (interrupt_run now a) ids m)) k =
     (if k \<in> set ids then map_option (interrupted_record now a) (map_of (rm_runs m) k)
      else map_of (rm_runs m) k)"
  by (induction ids arbitrary: m)
    (auto simp: interrupt_run_lookup option.map_comp o_def)

lemma task_done_cancel [simp]: "task_done (task_cancel t) = task_done t"
  by (cases t) simp_all

lemma interrupt_tasks_done: "task_done (rm_tasks (interrupt_run now a rid m) t) = task_done (rm_tasks m t)"
  by (auto simp: interrupt_run_def cancel_task_def split: option.splits)

lemma fold_interrupt_tasks_done:
  "task_done (rm_tasks (fold (interrupt_run now a) ids m) t) = task_done (rm_tasks m t)"
  by (induction ids arbitrary: m) (simp_all add: interrupt_tasks_done)

lemma record_lookup:
  assumes "rm_ok m" and "x \<in> set (map snd (rm_runs m))"
  shows "map_of (rm_runs m) (r_run_id x) = Some x"
  using assms by (auto simp: rm_ok_def records_filed_def)

lemma thread_record_iff:
  assumes "rm_ok m"
  shows "x \<in> set (thread_records m tid) \<longleftrightarrow>
    map_of (rm_runs m) (r_run_id x) = Some x \<and> r_thread_id x = tid"
proof -
  have "x \<in> set (thread_records m tid) \<longleftrightarrow> x \<in> set (map snd (rm_runs m)) \<and> r_thread_id x = tid"
    by (auto simp: thread_records_scan [OF assms])
  moreover have "x \<in> set (map snd (rm_runs m)) \<longleftrightarrow> map_of (rm_runs m) (r_run_id x) = Some x"
    using record_lookup [OF assms, of x] by (metis map_of_SomeD image_eqI list.set_map snd_conv)
  ultimately show ?thesis by blast
qed

text \<open>What a successful reservation did.\<close>

lemma reserve_run_success:
  assumes "rm_ok m" and "r_run_id r \<notin> fst ` set (rm_runs m)"
    and "reserve_run now r m = (Inr (infl, ids), m')"
  obtains m1 where "same_registry (register_run (r_run_id r) r m) m1" "rm_tasks m1 = rm_tasks m"
    "m' = fold (interrupt_run now (r_strategy r)) ids m1"
    "infl = map r_run_id (inflight_on m (r_thread_id r))"
    "ids = (if r_strategy r \<noteq> ''reject''
            then map r_run_id (filter to_interrupt (inflight_on m (r_thread_id r))) else [])"
    "r_strategy r = ''reject'' \<Longrightarrow> inflight_on m (r_thread_id r) = []"
proof -
  let ?inf = "inflight_on m (r_thread_id r)"
  have ok: "r_strategy r \<in> set supported_strategies" "\<not> (r_strategy r = ''reject'' \<and> ?inf \<noteq> [])"
    using assms(3) by (auto simp: reserve_run_def Let_def split: if_splits)
  obtain x m1 where p: "register_and_persist now r m = (x, m1)"
    by (cases "register_and_persist now r m")
  with ok assms(3) have x: "x = Inr ()"
    by (cases x) (auto simp: reserve_run_def Let_def split: if_splits)
  from ok assms(3) have rest: "m' = fold (interrupt_run now (r_strategy r)) ids m1"
      "infl = map r_run_id ?inf"
      "ids = (if r_strategy r \<noteq> ''reject'' then map r_run_id (filter to_interrupt ?inf) else [])"
    by (auto simp: reserve_run_def Let_def p x split: if_splits)
  note reg = p [unfolded x]
  from register_and_persist_cases [OF reg assms(1,2)]
  have "same_registry (register_run (r_run_id r) r m) m1" "rm_tasks m1 = rm_tasks m" by auto
  with rest ok(2) show ?thesis by (intro that [of m1]) auto
qed

text \<open>C1. Once a run is reserved on a thread, under any of the supported strategies, it is registered, every
  predecessor that was pending or running and not yet told to stop is interrupted, and any other run that is still
  pending or running had been told to stop before (by a shutdown, say): nothing but the new run is active
  without being on its way out.  Under \<open>reject\<close> the new run is the only active one.\<close>

theorem reserve_sole_active:
  assumes "rm_ok m" and "r_run_id r \<notin> fst ` set (rm_runs m)"
    and "reserve_run now r m = (Inr (infl, ids), m')"
  shows "map_of (rm_runs m') (r_run_id r) = Some r
    \<and> (\<forall>x \<in> set (thread_records m' (r_thread_id r)). active_status (r_status x) \<and> r_run_id x \<noteq> r_run_id r
         \<longrightarrow> r_strategy r \<noteq> ''reject'' \<and> r_abort_set x \<and> x \<in> set (thread_records m (r_thread_id r)))
    \<and> (\<forall>x \<in> set (thread_records m (r_thread_id r)). active_status (r_status x) \<and> \<not> r_abort_set x
         \<longrightarrow> map_of (rm_runs m') (r_run_id x)
             = Some (x\<lparr>r_abort_action := r_strategy r, r_abort_set := True, r_status := Interrupted, r_updated_at := now\<rparr>))"
proof (intro conjI ballI impI)
  let ?tid = "r_thread_id r"
  obtain m1 where m1: "same_registry (register_run (r_run_id r) r m) m1"
    and m': "m' = fold (interrupt_run now (r_strategy r)) ids m1"
    and ids: "ids = (if r_strategy r \<noteq> ''reject''
            then map r_run_id (filter to_interrupt (inflight_on m ?tid)) else [])"
    and rej: "r_strategy r = ''reject'' \<Longrightarrow> inflight_on m ?tid = []"
    using reserve_run_success [OF assms] by metis
  have old: "r_run_id x \<noteq> r_run_id r" "map_of (rm_runs m1) (r_run_id x) = Some x"
    if "x \<in> set (thread_records m ?tid)" for x
  proof -
    from that have "map_of (rm_runs m) (r_run_id x) = Some x"
      by (simp add: thread_record_iff [OF assms(1)])
    then show "r_run_id x \<noteq> r_run_id r" using assms(2) map_of_Some_dom by metis
    then show "map_of (rm_runs m1) (r_run_id x) = Some x"
      using m1 \<open>map_of (rm_runs m) (r_run_id x) = Some x\<close> by (simp add: same_registry_def register_run_def)
  qed
  have in_ids: "k \<in> set ids \<Longrightarrow> \<exists>x \<in> set (thread_records m ?tid). r_run_id x = k \<and> to_interrupt x" for k
    by (auto simp: ids inflight_on_def split: if_splits)
  have "r_run_id r \<notin> set ids"
    using in_ids old(1) by metis
  then show "map_of (rm_runs m') (r_run_id r) = Some r"
    using m1 by (simp add: m' fold_interrupt_lookup same_registry_def register_run_def)
  show "r_strategy r \<noteq> ''reject''" "r_abort_set x" "x \<in> set (thread_records m ?tid)"
    if x: "x \<in> set (thread_records m' ?tid)" and act: "active_status (r_status x) \<and> r_run_id x \<noteq> r_run_id r" for x
  proof -
    have "rm_ok m'"
      using rm_ok_reserve [OF assms(1,2), of now] assms(3) by simp
    with x have look: "map_of (rm_runs m') (r_run_id x) = Some x" "r_thread_id x = ?tid"
      by (simp_all add: thread_record_iff)
    have pre: "map_of (rm_runs m1) (r_run_id x) = map_of (rm_runs m) (r_run_id x)"
      using m1 act by (simp add: same_registry_def register_run_def)
    have notid: "r_run_id x \<notin> set ids"
    proof
      assume "r_run_id x \<in> set ids"
      with look(1) have "r_status x = Interrupted"
        by (auto simp: m' fold_interrupt_lookup interrupted_record_def)
      with act show False by (simp add: active_status_def)
    qed
    with look pre have "map_of (rm_runs m) (r_run_id x) = Some x"
      by (simp add: m' fold_interrupt_lookup)
    with look(2) show rec: "x \<in> set (thread_records m ?tid)"
      by (simp add: thread_record_iff [OF assms(1)])
    with act have infl: "x \<in> set (inflight_on m ?tid)"
      by (simp add: inflight_on_def is_inflight_def)
    then show "r_strategy r \<noteq> ''reject''" using rej by auto
    with notid infl act show "r_abort_set x" by (auto simp: ids to_interrupt_def)
  qed
  show "map_of (rm_runs m') (r_run_id x)
      = Some (x\<lparr>r_abort_action := r_strategy r, r_abort_set := True, r_status := Interrupted, r_updated_at := now\<rparr>)"
    if x: "x \<in> set (thread_records m ?tid)" and act: "active_status (r_status x) \<and> \<not> r_abort_set x" for x
  proof -
    have infl: "x \<in> set (inflight_on m ?tid)"
      using x act by (simp add: inflight_on_def is_inflight_def)
    then have "r_run_id x \<in> set ids"
      using rej act by (auto simp: ids to_interrupt_def)
    with old(2) [OF x] show ?thesis
      by (simp add: m' fold_interrupt_lookup interrupted_record_def)
  qed
qed

text \<open>A request that names no supported strategy, or asks to be rejected on a busy thread, is
  refused and changes nothing.\<close>

lemma create_or_reject_refuses:
  "(strat \<notin> set supported_strategies \<longrightarrow>
      create_or_reject env c now rid tid aid od meta kw strat model uid m = (Inl UnsupportedStrategy, m)) \<and>
   (strat = ''reject'' \<and> has_inflight tid m \<longrightarrow>
      create_or_reject env c now rid tid aid od meta kw strat model uid m = (Inl ConflictActive, m))"
proof (intro conjI impI)
  assume "strat \<notin> set supported_strategies"
  then show "create_or_reject env c now rid tid aid od meta kw strat model uid m = (Inl UnsupportedStrategy, m)"
    by (simp add: create_or_reject_def Let_def reserve_run_def new_record_def)
next
  assume asm: "strat = ''reject'' \<and> has_inflight tid m"
  then have "inflight_on m tid \<noteq> []"
    by (auto simp: has_inflight_def inflight_on_def list_ex_iff filter_empty_conv)
  with asm show "create_or_reject env c now rid tid aid od meta kw strat model uid m = (Inl ConflictActive, m)"
    by (simp add: create_or_reject_def Let_def reserve_run_def new_record_def supported_strategies_def)
qed

lemma demo_ok: "rm_ok demo_manager"
  using rm_reach_ok [OF demo_reach] .

definition demo_new :: run_record where
  "demo_new = new_record ''2026-01-02'' ''r2'' ''t1'' None DmCancel [] [] ''interrupt'' None None"

lemma demo_runs:
  "rm_runs demo_manager =
     [(''r1'', new_record ''2026-01-01'' ''r1'' ''t1'' None DmCancel [] [] ''reject'' None None)]"
  "rm_faults demo_manager = []"
  "bucket (rm_by_thread demo_manager) ''t1'' = [''r1'']"
  by (simp_all add: demo_manager_def rm_create_def Let_def register_and_persist_def persist_new_run_def
      rm_init_def register_run_def store_call_def call_store_with_retry_def new_record_def
      bucket_index_run bucket_add_def)

lemma demo_store: "\<exists>s. rm_store demo_manager = Some s"
  by (simp add: demo_manager_def rm_create_def Let_def register_and_persist_def persist_new_run_def
      rm_init_def register_run_def store_call_def call_store_with_retry_def)

lemma demo_records:
  "thread_records demo_manager ''t1'' =
     [new_record ''2026-01-01'' ''r1'' ''t1'' None DmCancel [] [] ''reject'' None None]"
  by (simp add: thread_records_def demo_runs List.map_filter_simps)

lemma demo_reserve: "\<exists>m'. reserve_run ''2026-01-02'' demo_new demo_manager = (Inr ([''r1''], [''r1'']), m')"
proof -
  obtain s where s: "rm_store demo_manager = Some s" using demo_store by blast
  have inf: "inflight_on demo_manager ''t1'' =
      [new_record ''2026-01-01'' ''r1'' ''t1'' None DmCancel [] [] ''reject'' None None]"
    by (simp add: inflight_on_def demo_records is_inflight_def active_status_def new_record_def)
  show ?thesis
    using s inf demo_runs(2)
    by (simp add: reserve_run_def demo_new_def new_record_def supported_strategies_def Let_def
        register_and_persist_def persist_new_run_def register_run_def store_call_def
        call_store_with_retry_def to_interrupt_def active_status_def)
qed

theorem reserve_sole_active_witness:
  "\<exists>m' x. reserve_run ''2026-01-02'' demo_new demo_manager = (Inr ([''r1''], [''r1'']), m') \<and>
     map_of (rm_runs m') ''r2'' = Some demo_new \<and> map_of (rm_runs m') ''r1'' = Some x \<and> r_status x = Interrupted"
proof -
  obtain m' where m': "reserve_run ''2026-01-02'' demo_new demo_manager = (Inr ([''r1''], [''r1'']), m')"
    using demo_reserve by blast
  have ids: "r_run_id demo_new = ''r2''" "r_thread_id demo_new = ''t1''"
    by (simp_all add: demo_new_def new_record_def)
  have "r_run_id demo_new \<notin> fst ` set (rm_runs demo_manager)"
    by (simp add: ids demo_runs)
  from reserve_sole_active [OF demo_ok this m'] show ?thesis
    using m' by (auto simp: ids demo_records new_record_def active_status_def)
qed

text \<open>C2. A replacement is admitted only when the task of every predecessor that was in flight is
  done, whatever ran during the wait (asyncio never revives a done task).\<close>

theorem admission_waits_for_predecessors:
  assumes "rm_ok m" and "rid \<notin> fst ` set (rm_runs m)"
    and "create_or_reject env c now rid tid aid od meta kw strat model uid m = (Inr r, m')"
    and env: "\<And>m t. task_done (rm_tasks m t) \<Longrightarrow> task_done (rm_tasks (env m) t)"
  shows "\<forall>x \<in> set (inflight_on m tid). \<forall>t. r_task x = Some t \<longrightarrow> task_done (rm_tasks m' t)"
proof (intro ballI allI impI)
  fix x t
  assume x: "x \<in> set (inflight_on m tid)" and t: "r_task x = Some t"
  let ?r = "new_record now rid tid aid od meta kw strat model uid"
  have r: "r_run_id ?r = rid" "r_thread_id ?r = tid" by (simp_all add: new_record_def)
  from assms(3) obtain infl ids m1 where res: "reserve_run now ?r m = (Inr (infl, ids), m1)"
    and settle: "settle_run env c now rid infl ids m1 = (Inr (), m')"
    by (auto simp: create_or_reject_def Let_def split: prod.splits sum.splits)
  obtain m0 where m0: "same_registry (register_run rid ?r m) m0"
    and m1: "m1 = fold (interrupt_run now (r_strategy ?r)) ids m0"
    and infl: "infl = map r_run_id (inflight_on m tid)"
    using reserve_run_success [OF assms(1) _ res] assms(2) r by metis
  let ?p = "fold (persist_interrupted now) ids m1"
  have xm: "map_of (rm_runs m) (r_run_id x) = Some x"
    using x assms(1) by (auto simp: inflight_on_def thread_record_iff)
  then have "r_run_id x \<noteq> rid" using assms(2) map_of_Some_dom by metis
  with m0 xm have "map_of (rm_runs m0) (r_run_id x) = Some x"
    by (simp add: same_registry_def register_run_def)
  then have task: "Option.bind (map_of (rm_runs ?p) (r_run_id x)) r_task = Some t"
    using t by (simp add: m1 fold_interrupt_lookup interrupted_record_def)
  have open_iff: "t \<in> set (open_tasks ?p infl)" if "\<not> task_done (rm_tasks ?p t)"
    using that task x unfolding open_tasks_def infl
    by (auto simp: List.map_filter_def image_iff intro!: bexI [of _ x])
  show "task_done (rm_tasks m' t)"
  proof (cases "open_tasks ?p infl = []")
    case True
    with open_iff have "task_done (rm_tasks ?p t)" by auto
    with True settle show ?thesis by (auto simp: settle_run_def Let_def)
  next
    case False
    with settle have e: "m' = fold (persist_current now) ids (env ?p)"
      and fin: "filter (\<lambda>t. \<not> task_done (rm_tasks (env ?p) t)) (open_tasks ?p infl) = []"
      by (auto simp: settle_run_def Let_def split: if_splits)
    show ?thesis
    proof (cases "task_done (rm_tasks ?p t)")
      case True
      then show ?thesis using env [of ?p t] by (simp add: e)
    next
      case False
      with open_iff fin have "task_done (rm_tasks (env ?p) t)" by (auto simp: filter_empty_conv)
      then show ?thesis by (simp add: e)
    qed
  qed
qed

text \<open>A replacement whose predecessors do not finish in time, or that is cancelled while it
  waits, fails closed: its record, if still registered, is aborted and in status error.\<close>

lemma failed_admission_is_error:
  assumes "reserve_run now (new_record now rid tid aid od meta kw strat model uid) m = (Inr (infl, ids), m1)"
    and "create_or_reject env c now rid tid aid od meta kw strat model uid m = (Inl e, m')"
    and "map_of (rm_runs m') rid = Some r"
  shows "(e = ConflictFinalizing \<or> e = AdmissionCancelled) \<and> r_status r = RunError \<and> r_abort_set r
    \<and> r_error r = Some admission_failed_error"
proof -
  from assms(1,2) obtain m2 where e: "e = ConflictFinalizing \<or> e = AdmissionCancelled"
    and m': "m' = fail_admission now rid m2"
    by (auto simp: create_or_reject_def settle_run_def Let_def split: if_splits prod.splits sum.splits)
  let ?m3 = "modify_run rid (\<lambda>r. r\<lparr>r_abort_set := True\<rparr>) m2"
  show ?thesis
  proof (cases "map_of (rm_runs m2) rid")
    case None
    with assms(3) show ?thesis
      by (simp add: m' fail_admission_def set_status_def modify_run_lookup)
  next
    case (Some r2)
    with assms(3) have "r = r2\<lparr>r_abort_set := True, r_status := RunError, r_updated_at := now,
        r_error := Some admission_failed_error\<rparr>"
      by (simp add: m' fail_admission_def set_status_def modify_run_lookup Let_def keep_some_def)
    with e show ?thesis by simp
  qed
qed

definition busy_record :: run_record where
  "busy_record = (new_record ''2026-01-01'' ''r1'' ''t1'' None DmCancel [] [] ''reject'' None None)
     \<lparr>r_status := Running, r_task := Some 0\<rparr>"

definition busy_manager :: run_manager where
  "busy_manager = \<lparr>rm_runs = [(''r1'', busy_record)], rm_by_thread = [(''t1'', [''r1''])],
     rm_tasks = (\<lambda>_. TaskActive False), rm_store = None, rm_policy = default_policy, rm_faults = []\<rparr>"

lemma busy_ok: "rm_ok busy_manager"
  by (simp add: rm_ok_def busy_manager_def records_filed_def rm.in_step_def no_empty_bucket_def
      rm_thread_of_def busy_record_def new_record_def bucket_def od_get_default_def)

lemma busy_inflight: "inflight_on busy_manager ''t1'' = [busy_record]"
  by (simp add: inflight_on_def thread_records_def busy_manager_def bucket_def od_get_default_def
      List.map_filter_simps is_inflight_def busy_record_def new_record_def active_status_def)

definition finish_tasks :: "run_manager \<Rightarrow> run_manager" where
  "finish_tasks m = m\<lparr>rm_tasks := (\<lambda>_. TaskFinished)\<rparr>"

lemmas admission_eval = create_or_reject_def Let_def reserve_run_def new_record_def
  supported_strategies_def register_and_persist_def persist_new_run_def register_run_def
  to_interrupt_def active_status_def interrupt_run_def modify_run_def settle_run_def
  persist_interrupted_def persist_current_def persist_status_def open_tasks_def
  List.map_filter_simps

lemma busy_admission:
  "\<exists>r m'. create_or_reject finish_tasks False ''2026-01-02'' ''r2'' ''t1'' None DmCancel [] [] ''interrupt'' None None
     busy_manager = (Inr r, m')"
  using busy_inflight
  by (simp add: admission_eval busy_manager_def busy_record_def cancel_task_def finish_tasks_def)

lemma busy_conflict:
  "\<exists>infl ids m1 m' r. reserve_run ''2026-01-02''
       (new_record ''2026-01-02'' ''r2'' ''t1'' None DmCancel [] [] ''interrupt'' None None) busy_manager
       = (Inr (infl, ids), m1) \<and>
     create_or_reject id False ''2026-01-02'' ''r2'' ''t1'' None DmCancel [] [] ''interrupt'' None None
       busy_manager = (Inl ConflictFinalizing, m') \<and> map_of (rm_runs m') ''r2'' = Some r"
  using busy_inflight
  by (simp add: admission_eval busy_manager_def busy_record_def cancel_task_def fail_admission_def
      set_status_def)

theorem admission_waits_for_predecessors_witness:
  "\<exists>r m'. create_or_reject finish_tasks False ''2026-01-02'' ''r2'' ''t1'' None DmCancel [] [] ''interrupt'' None None
     busy_manager = (Inr r, m') \<and> r_task busy_record = Some 0 \<and> task_done (rm_tasks m' 0)"
proof -
  obtain r m' where m': "create_or_reject finish_tasks False ''2026-01-02'' ''r2'' ''t1'' None DmCancel [] []
      ''interrupt'' None None busy_manager = (Inr r, m')"
    using busy_admission by blast
  have fresh: "''r2'' \<notin> fst ` set (rm_runs busy_manager)" by (simp add: busy_manager_def)
  have "task_done (rm_tasks (finish_tasks m) t)" for m t by (simp add: finish_tasks_def)
  from admission_waits_for_predecessors [OF busy_ok fresh m' this] m' show ?thesis
    by (auto simp: busy_inflight busy_record_def)
qed

section \<open>Cancellation\<close>

text \<open>Cancelling a run on every branch: unknown or terminal runs are refused without a change,
  an interrupted run is accepted without a change, and a pending or running run becomes
  interrupted with its abort signal set, the given action recorded and its task asked to stop,
  while every other record stays as it was.\<close>

lemma cancel_outcomes:
  "case map_of (rm_runs m) rid of
     None \<Rightarrow> rm_cancel now rid a m = (False, m)
   | Some r \<Rightarrow>
       if r_status r = Interrupted then rm_cancel now rid a m = (True, m)
       else if \<not> active_status (r_status r) then rm_cancel now rid a m = (False, m)
       else fst (rm_cancel now rid a m) = True \<and>
         rm_runs (snd (rm_cancel now rid a m)) = od_set rid (interrupted_record now a r) (rm_runs m) \<and>
         rm_tasks (snd (rm_cancel now rid a m)) = cancel_task (r_task r) (rm_tasks m)"
  by (auto simp: rm_cancel_def Let_def interrupt_run_def modify_run_def interrupted_record_def
      split: option.splits)

section \<open>Persistence and hydration\<close>

text \<open>A record persisted when it was created and read back from the store is the same record
  but for what the row does not carry: it is marked store-only, and its disconnect mode reads
  as cancel whatever it was.\<close>

lemma hydrated_record:
  assumes "r = new_record now rid tid aid od meta kw strat model uid" and "now \<noteq> ''''" and "strat \<noteq> ''''"
  shows "record_from_store (ms_new_row now rid (store_put_payload r None)) =
    Some (r\<lparr>r_on_disconnect := DmCancel, r_store_only := True\<rparr>)"
  using assms
  by (simp add: record_from_store_def ms_new_row_def store_put_payload_def new_record_def str_or_def
      status_of_string_def disconnect_of_string_def keep_some_def or_empty_def int_or_zero_def
      or_zero_def no_stats_def zero_stats_def)

text \<open>When no store attempt fails, a status change reaches the store even if the row had been
  lost: the row is rewritten from the record, so the stored status is the new one.\<close>

lemma set_status_persisted:
  assumes "rm_store m = Some s" and "rm_faults m = []" and "map_of (rm_runs m) rid = Some r"
    and "r_run_id r = rid"
  shows "\<exists>s' row. rm_store (set_status now rid st err m) = Some s' \<and> ms_get rid None s' = Some row \<and>
    row_status row = Some (status_value st)"
proof -
  let ?r = "r\<lparr>r_status := st, r_updated_at := now, r_error := keep_some err (r_error r)\<rparr>"
  show ?thesis
  proof (cases "map_of (ms_runs s) rid")
    case None
    then show ?thesis
      using assms
      by (auto simp: set_status_def Let_def persist_status_def persist_snapshot_def store_call_def
          call_store_with_retry_def modify_run_def ms_update_status_def ms_modify_def ms_get_def
          ms_put_def ms_insert_def ms_new_row_def store_put_payload_def)
  next
    case (Some row)
    then show ?thesis
      using assms
      by (auto simp: set_status_def Let_def persist_status_def store_call_def
          call_store_with_retry_def modify_run_def ms_update_status_def ms_modify_def ms_get_def)
  qed
qed

section \<open>Shutdown\<close>

definition marked_record :: "string \<Rightarrow> run_record \<Rightarrow> run_record" where
  "marked_record now r =
     (if active_status (r_status r) then r\<lparr>r_status := Interrupted, r_updated_at := now\<rparr> else r)"

lemma marked_inactive [simp]: "\<not> active_status (r_status (marked_record now r))"
  by (simp add: marked_record_def active_status_def)

lemma shutdown_mark_lookup:
  "map_of (rm_runs (shutdown_mark now rid m)) k =
     (if k = rid then map_option (marked_record now) (map_of (rm_runs m) rid)
      else map_of (rm_runs m) k)"
  by (simp add: shutdown_mark_def modify_run_lookup marked_record_def [abs_def])

lemma fold_shutdown_mark_other:
  "k \<notin> set ids \<Longrightarrow> map_of (rm_runs (fold (shutdown_mark now) ids m)) k = map_of (rm_runs m) k"
  by (induction ids arbitrary: m) (simp_all add: shutdown_mark_lookup)

lemma fold_shutdown_mark_inactive:
  assumes "k \<in> set ids \<or> (\<forall>r. map_of (rm_runs m) k = Some r \<longrightarrow> \<not> active_status (r_status r))"
    and "map_of (rm_runs (fold (shutdown_mark now) ids m)) k = Some r"
  shows "\<not> active_status (r_status r)"
  using assms
proof (induction ids arbitrary: m)
  case Nil
  then show ?case by simp
next
  case (Cons i ids)
  show ?case
  proof (rule Cons.IH [of "shutdown_mark now i m"])
    show "k \<in> set ids \<or> (\<forall>r. map_of (rm_runs (shutdown_mark now i m)) k = Some r \<longrightarrow> \<not> active_status (r_status r))"
      using Cons.prems(1) by (auto simp: shutdown_mark_lookup)
    show "map_of (rm_runs (fold (shutdown_mark now) ids (shutdown_mark now i m))) k = Some r"
      using Cons.prems(2) by simp
  qed
qed

text \<open>The runs a shutdown drains, and the registry right after the drain.\<close>

definition shutdown_targets :: "run_manager \<Rightarrow> string list" where
  "shutdown_targets m = filter (\<lambda>rid. case task_of m rid of None \<Rightarrow> False
     | Some t \<Rightarrow> \<not> task_done (rm_tasks m t)) (od_keys (rm_runs m))"

definition drained :: "(run_manager \<Rightarrow> run_manager) \<Rightarrow> run_manager \<Rightarrow> run_manager" where
  "drained env m = env (fold shutdown_abort (shutdown_targets m) m)"

text \<open>Shutdown decides each drained run after the drain: a run whose task finished by itself
  keeps the record it had then, and every other drained run ends neither pending nor running.\<close>

lemma shutdown_keeps_settled:
  assumes "rid \<in> set (shutdown_targets m)"
  shows "if settled_itself (drained env m) rid
    then map_of (rm_runs (rm_shutdown env n now m)) rid = map_of (rm_runs (drained env m)) rid
    else \<forall>r. map_of (rm_runs (rm_shutdown env n now m)) rid = Some r \<longrightarrow> \<not> active_status (r_status r)"
proof -
  let ?rest = "filter (\<lambda>rid. \<not> settled_itself (drained env m) rid) (shutdown_targets m)"
  have ne: "shutdown_targets m \<noteq> []" using assms by auto
  have "rm_runs (rm_shutdown env n now m) = rm_runs (fold (shutdown_mark now) ?rest (drained env m))"
    using ne by (simp add: rm_shutdown_def Let_def shutdown_targets_def [symmetric] drained_def)
  note runs = this
  show ?thesis
  proof (cases "settled_itself (drained env m) rid")
    case True
    then have "rid \<notin> set ?rest" by simp
    from fold_shutdown_mark_other [OF this] True show ?thesis by (simp add: runs)
  next
    case False
    with assms have "rid \<in> set ?rest" by simp
    with False fold_shutdown_mark_inactive show ?thesis by (simp only: runs if_False) blast
  qed
qed

end
