(* ===== verification/PyText.thy ===== *)
theory PyText
  imports Prelude
begin

text \<open>
  The parts of Python's text and sequence library the components use: decimal printing and
  \<open>int(text)\<close>, \<open>str.rpartition\<close>, \<open>str.strip\<close>, slices with optional signed bounds, and the
  \<open>bisect\<close> module.  Each comes with the fact its callers rely on: printing and parsing are
  inverse, and a bisection of a sorted list counts the elements on one side of the needle.
\<close>

section \<open>Decimal numbers\<close>

definition digit_char :: "nat \<Rightarrow> char" where
  "digit_char d = ''0123456789'' ! d"

fun dec :: "nat \<Rightarrow> string" where
  "dec n = (if n < 10 then [digit_char n] else dec (n div 10) @ [digit_char (n mod 10)])"

declare dec.simps [simp del]

definition int_str :: "int \<Rightarrow> string" where
  "int_str i = (if i < 0 then CHR ''-'' # dec (nat (- i)) else dec (nat i))"

definition is_digit :: "char \<Rightarrow> bool" where
  "is_digit c \<longleftrightarrow> 48 \<le> (of_char c :: nat) \<and> (of_char c :: nat) \<le> 57"

definition digit_val :: "char \<Rightarrow> nat" where
  "digit_val c = of_char c - 48"

text \<open>\<open>str.isspace\<close> on code points below 256.\<close>

definition is_space :: "char \<Rightarrow> bool" where
  "is_space c \<longleftrightarrow> (let n = (of_char c :: nat)
     in (9 \<le> n \<and> n \<le> 13) \<or> (28 \<le> n \<and> n \<le> 32) \<or> n = 133 \<or> n = 160)"

definition str_strip :: "string \<Rightarrow> string" where
  "str_strip s = rev (dropWhile is_space (rev (dropWhile is_space s)))"

lemma dropWhile_strip: "dropWhile P (rev (dropWhile P (rev (dropWhile P s)))) = rev (dropWhile P (rev (dropWhile P s)))"
proof (cases "dropWhile P s")
  case Nil
  show ?thesis unfolding Nil by simp
next
  case (Cons c t)
  then have c: "\<not> P c" by (metis hd_dropWhile list.distinct(1) list.sel(1))
  then have "dropWhile P (rev t @ [c]) = dropWhile P (rev t) @ [c]"
    by (induction "rev t") (auto simp: dropWhile_append)
  with Cons c show ?thesis by simp
qed

lemma str_strip_idem [simp]: "str_strip (str_strip s) = str_strip s"
proof -
  have "dropWhile is_space (str_strip s) = str_strip s"
    by (simp add: str_strip_def dropWhile_strip)
  moreover have "dropWhile is_space (rev (str_strip s)) = rev (str_strip s)"
    by (simp add: str_strip_def)
  ultimately show ?thesis by (simp add: str_strip_def [of "str_strip s"])
qed

definition digits_val :: "string \<Rightarrow> nat" where
  "digits_val s = fold (\<lambda>c acc. 10 * acc + digit_val c) s 0"

text \<open>Digits, with single underscores allowed between two of them.\<close>

fun digit_groups :: "string \<Rightarrow> string option" where
  "digit_groups [] = None"
| "digit_groups [c] = (if is_digit c then Some [c] else None)"
| "digit_groups (c # d # s) =
     (if \<not> is_digit c then None
      else if d = CHR ''_'' then map_option ((#) c) (digit_groups s)
      else map_option ((#) c) (digit_groups (d # s)))"

definition py_nat :: "string \<Rightarrow> nat option" where
  "py_nat s = map_option digits_val (digit_groups s)"

definition py_int :: "string \<Rightarrow> int option" where
  "py_int s =
     (case str_strip s of
        [] \<Rightarrow> None
      | c # t \<Rightarrow>
          (if c = CHR ''-'' then map_option (\<lambda>n. - int n) (py_nat t)
           else if c = CHR ''+'' then map_option int (py_nat t)
           else map_option int (py_nat (c # t))))"

lemma of_char_digit:
  assumes "d < 10"
  shows "(of_char (digit_char d) :: nat) = 48 + d"
proof -
  have "d \<in> {0, 1, 2, 3, 4, 5, 6, 7, 8, 9}" using assms by auto
  then show ?thesis by (auto simp: digit_char_def)
qed

lemma is_digit_char [simp]: "d < 10 \<Longrightarrow> is_digit (digit_char d)"
  by (simp add: is_digit_def of_char_digit)

lemma digit_val_char [simp]: "d < 10 \<Longrightarrow> digit_val (digit_char d) = d"
  by (simp add: digit_val_def of_char_digit)

lemma digit_not_special:
  assumes "is_digit c"
  shows "\<not> is_space c" and "c \<noteq> CHR ''-''" and "c \<noteq> CHR ''+''" and "c \<noteq> CHR ''_''"
  using assms by (auto simp: is_digit_def is_space_def Let_def)

lemma dec_digits: "list_all is_digit (dec n)"
proof (induction n rule: dec.induct)
  case (1 n)
  then show ?case by (subst dec.simps) simp
qed

lemma dec_not_Nil [simp]: "dec n \<noteq> []"
  by (subst dec.simps) simp

lemma digits_val_dec: "digits_val (dec n) = n"
proof (induction n rule: dec.induct)
  case (1 n)
  show ?case
  proof (cases "n < 10")
    case True
    then show ?thesis by (subst dec.simps) (simp add: digits_val_def)
  next
    case False
    with 1 have "digits_val (dec (n div 10)) = n div 10" by simp
    with False show ?thesis
      by (subst dec.simps) (simp add: digits_val_def)
  qed
qed

lemma dec_inject [simp]: "dec m = dec n \<longleftrightarrow> m = n"
  by (metis digits_val_dec)

lemma digit_groups_digits: "s \<noteq> [] \<Longrightarrow> list_all is_digit s \<Longrightarrow> digit_groups s = Some s"
  by (induction s rule: digit_groups.induct) (auto dest: digit_not_special)

lemma py_nat_dec [simp]: "py_nat (dec n) = Some n"
  by (simp add: py_nat_def digit_groups_digits dec_digits digits_val_dec)

lemma dropWhile_digits: "list_all is_digit s \<Longrightarrow> dropWhile is_space s = s"
  by (cases s) (auto dest: digit_not_special)

lemma str_strip_digits: "list_all is_digit s \<Longrightarrow> str_strip s = s"
  by (simp add: str_strip_def dropWhile_digits list_all_rev)

lemma py_int_dec [simp]: "py_int (dec n) = Some (int n)"
proof -
  obtain c t where ct: "dec n = c # t" by (cases "dec n") auto
  have "is_digit c" using dec_digits [of n] ct by simp
  then show ?thesis
    using py_nat_dec [of n] digit_not_special [of c] str_strip_digits [OF dec_digits, of n]
    by (simp add: py_int_def ct)
qed

section \<open>Partition at the last separator\<close>

text \<open>
  \<open>s.rpartition(c)\<close> as the text before and after the last \<open>c\<close>; \<open>None\<close> when \<open>c\<close> does not
  occur, where Python returns two empty strings and the whole text.
\<close>

definition rpartition :: "char \<Rightarrow> string \<Rightarrow> (string \<times> string) option" where
  "rpartition c s =
     (if c \<in> set s
      then Some (rev (tl (dropWhile (\<lambda>x. x \<noteq> c) (rev s))), rev (takeWhile (\<lambda>x. x \<noteq> c) (rev s)))
      else None)"

lemma rpartition_append: "c \<notin> set t \<Longrightarrow> rpartition c (s @ c # t) = Some (s, t)"
proof -
  assume c: "c \<notin> set t"
  then have "takeWhile (\<lambda>x. x \<noteq> c) (rev t @ c # rev s) = rev t"
    and "dropWhile (\<lambda>x. x \<noteq> c) (rev t @ c # rev s) = c # rev s"
    by (simp_all add: takeWhile_append dropWhile_append)
  then show ?thesis by (simp add: rpartition_def)
qed

section \<open>Slices\<close>

text \<open>\<open>xs[lo:hi]\<close> with signed bounds that may be left out.\<close>

definition slice_bound :: "nat \<Rightarrow> int \<Rightarrow> nat" where
  "slice_bound n i = (if i < 0 then nat (int n + i) else min n (nat i))"

definition py_slice :: "int option \<Rightarrow> int option \<Rightarrow> 'a list \<Rightarrow> 'a list" where
  "py_slice lo hi xs =
     (let n = length xs;
          a = (case lo of None \<Rightarrow> 0 | Some i \<Rightarrow> slice_bound n i);
          b = (case hi of None \<Rightarrow> n | Some i \<Rightarrow> slice_bound n i)
      in drop a (take b xs))"

lemma py_slice_first: "py_slice None (Some (int k)) xs = take k xs"
  by (simp add: py_slice_def slice_bound_def Let_def min_def)

lemma py_slice_last: "py_slice (Some (- int k)) None xs = (if k = 0 then xs else drop (length xs - k) xs)"
  by (auto simp: py_slice_def slice_bound_def Let_def) (metis nat_minus_as_int)

lemma py_slice_range: "py_slice (Some (int a)) (Some (int b)) xs = drop a (take b xs)"
  by (cases "a \<le> length xs") (auto simp: py_slice_def slice_bound_def Let_def min_def)

lemma py_slice_subset: "set (py_slice lo hi xs) \<subseteq> set xs"
  by (auto simp: py_slice_def Let_def dest: in_set_dropD in_set_takeD)

section \<open>Bisection\<close>

text \<open>
  The loop of \<open>bisect.bisect_left\<close> and \<open>bisect.bisect_right\<close>: both narrow a window by a
  test of the middle element, and differ only in the test (\<open>key < x\<close> and \<open>key <= x\<close>).
\<close>

function bisect_loop :: "('a \<Rightarrow> bool) \<Rightarrow> 'a list \<Rightarrow> nat \<Rightarrow> nat \<Rightarrow> nat" where
  "bisect_loop below xs lo hi =
     (if lo < hi
      then (let mid = (lo + hi) div 2
            in if below (xs ! mid) then bisect_loop below xs (mid + 1) hi else bisect_loop below xs lo mid)
      else lo)"
  by pat_completeness auto
termination by (relation "measure (\<lambda>(_, _, lo, hi). hi - lo)") auto

declare bisect_loop.simps [simp del]

definition bisect_left :: "('a \<Rightarrow> int) \<Rightarrow> 'a list \<Rightarrow> int \<Rightarrow> nat" where
  "bisect_left key xs x = bisect_loop (\<lambda>e. key e < x) xs 0 (length xs)"

definition bisect_right :: "('a \<Rightarrow> int) \<Rightarrow> 'a list \<Rightarrow> int \<Rightarrow> nat" where
  "bisect_right key xs x = bisect_loop (\<lambda>e. \<not> x < key e) xs 0 (length xs)"

lemma bisect_loop_point:
  assumes "p \<le> length xs" and "\<forall>i < p. below (xs ! i)" and "\<forall>i. p \<le> i \<and> i < length xs \<longrightarrow> \<not> below (xs ! i)"
    and "lo \<le> p" and "p \<le> hi" and "hi \<le> length xs"
  shows "bisect_loop below xs lo hi = p"
  using assms
proof (induction below xs lo hi rule: bisect_loop.induct)
  case (1 below xs lo hi)
  show ?case
  proof (cases "lo < hi")
    case False
    with 1 show ?thesis by (subst bisect_loop.simps) simp
  next
    case True
    let ?mid = "(lo + hi) div 2"
    have mid: "lo \<le> ?mid" "?mid < hi" using True by auto
    show ?thesis
    proof (cases "below (xs ! ?mid)")
      case True
      then have "?mid < p" using 1(5) mid 1(8) by (meson leI le_trans not_le order_less_le_trans)
      then have "bisect_loop below xs (?mid + 1) hi = p"
        using 1 \<open>lo < hi\<close> True by simp
      with True \<open>lo < hi\<close> show ?thesis by (subst bisect_loop.simps) (simp add: Let_def)
    next
      case False
      then have "p \<le> ?mid" using 1(4) by (meson leI)
      then have "bisect_loop below xs lo ?mid = p"
        using 1 \<open>lo < hi\<close> False mid by simp
      with False \<open>lo < hi\<close> show ?thesis by (subst bisect_loop.simps) (simp add: Let_def)
    qed
  qed
qed

lemma sorted_filter_take:
  assumes "sorted_wrt (\<lambda>x y. (key x :: int) \<le> key y) xs" and "\<And>a b. a \<le> b \<Longrightarrow> P b \<Longrightarrow> P a"
  shows "takeWhile (P \<circ> key) xs = filter (P \<circ> key) xs"
  using assms(1)
proof (induction xs)
  case Nil
  then show ?case by simp
next
  case (Cons x xs)
  show ?case
  proof (cases "P (key x)")
    case True
    with Cons show ?thesis by simp
  next
    case False
    then have "\<forall>y \<in> set xs. \<not> P (key y)" using Cons.prems assms(2) by auto
    with False show ?thesis by simp
  qed
qed

lemma bisect_loop_takeWhile:
  assumes "takeWhile P xs = filter P xs"
  shows "bisect_loop P xs 0 (length xs) = length (takeWhile P xs)"
proof -
  let ?p = "length (takeWhile P xs)"
  have split: "takeWhile P xs @ dropWhile P xs = xs" by simp
  have "filter P xs = filter P (takeWhile P xs) @ filter P (dropWhile P xs)"
    by (simp flip: filter_append)
  moreover have "filter P (takeWhile P xs) = takeWhile P xs"
    by (simp add: filter_id_conv) (blast dest: set_takeWhileD)
  ultimately have drop: "filter P (dropWhile P xs) = []" using assms by simp
  have above: "\<not> P (xs ! i)" if "?p \<le> i" "i < length xs" for i
  proof -
    have "xs ! i = dropWhile P xs ! (i - ?p)"
      using that nth_append [of "takeWhile P xs" "dropWhile P xs" i] by simp
    moreover have "length xs = ?p + length (dropWhile P xs)"
      by (simp flip: length_append)
    ultimately have "xs ! i \<in> set (dropWhile P xs)" using that by simp
    with drop show ?thesis by (auto simp: filter_empty_conv)
  qed
  have below: "P (xs ! i)" if "i < ?p" for i
  proof -
    have "xs ! i = takeWhile P xs ! i" using that by (simp add: takeWhile_nth)
    then have "xs ! i \<in> set (takeWhile P xs)" using that by simp
    then show ?thesis by (blast dest: set_takeWhileD)
  qed
  show ?thesis
    by (rule bisect_loop_point) (use above below in \<open>auto simp: length_takeWhile_le\<close>)
qed

lemma bisect_left_take:
  assumes "sorted_wrt (\<lambda>x y. key x \<le> key y) xs"
  shows "take (bisect_left key xs x) xs = filter (\<lambda>e. key e < x) xs"
    and "drop (bisect_left key xs x) xs = filter (\<lambda>e. x \<le> key e) xs"
    and "bisect_left key xs x \<le> length xs"
proof -
  let ?P = "(\<lambda>k. k < x) \<circ> key"
  have tw: "takeWhile ?P xs = filter ?P xs"
    using assms by (rule sorted_filter_take) simp
  have b: "bisect_left key xs x = length (takeWhile ?P xs)"
    using bisect_loop_takeWhile [OF tw] by (simp add: bisect_left_def comp_def)
  show t: "take (bisect_left key xs x) xs = filter (\<lambda>e. key e < x) xs"
    using tw unfolding b takeWhile_eq_take [symmetric] by (simp add: comp_def)
  show "bisect_left key xs x \<le> length xs" by (simp add: b length_takeWhile_le)
  have "drop (bisect_left key xs x) xs = dropWhile ?P xs"
    by (simp add: b dropWhile_eq_drop)
  moreover have "dropWhile ?P xs = filter (\<lambda>e. \<not> ?P e) xs"
    using assms
  proof (induction xs)
    case (Cons y ys)
    show ?case
    proof (cases "key y < x")
      case True
      with Cons show ?thesis by simp
    next
      case False
      with Cons.prems have "\<forall>e \<in> set ys. \<not> key e < x" by auto
      then have "filter (\<lambda>e. \<not> key e < x) ys = ys" by (simp add: filter_id_conv)
      with False show ?thesis by simp
    qed
  qed simp
  ultimately show "drop (bisect_left key xs x) xs = filter (\<lambda>e. x \<le> key e) xs"
    by (simp add: comp_def not_less)
qed

lemma bisect_right_left: "bisect_right key xs x = bisect_left key xs (x + 1)"
  unfolding bisect_right_def bisect_left_def by (simp only: not_less zless_add1_eq [symmetric] zle_add1_eq_le)

section \<open>Dynamic values\<close>

type_synonym py_items = "(pyval \<times> pyval) list"

definition arg_of :: "py_items \<Rightarrow> string \<Rightarrow> pyval" where
  "arg_of d k = (case map_of d (PStr k) of None \<Rightarrow> PNone | Some v \<Rightarrow> v)"

text \<open>\<open>int(v)\<close>: a number, an error the code catches, or an \<open>OverflowError\<close> it does not.\<close>

datatype int_conv = IntOk int | Refused | Overflow

definition to_int :: "pyval \<Rightarrow> int_conv" where
  "to_int v =
     (case v of
        PInt i \<Rightarrow> IntOk i
      | PBool b \<Rightarrow> IntOk (if b then 1 else 0)
      | PFloat f \<Rightarrow>
          (case f of
             Finite r \<Rightarrow> IntOk (if r < 0 then - \<lfloor>- r\<rfloor> else \<lfloor>r\<rfloor>)
           | NotANumber \<Rightarrow> Refused
           | _ \<Rightarrow> Overflow)
      | PStr s \<Rightarrow> (case py_int s of None \<Rightarrow> Refused | Some i \<Rightarrow> IntOk i)
      | _ \<Rightarrow> Refused)"

definition truthy :: "pyval \<Rightarrow> bool" where
  "truthy v = (case v of PNone \<Rightarrow> False | PBool b \<Rightarrow> b | PInt i \<Rightarrow> i \<noteq> 0 | PFloat f \<Rightarrow> f \<noteq> Finite 0
     | PStr s \<Rightarrow> s \<noteq> '''' | PList xs \<Rightarrow> xs \<noteq> [] | PDict d \<Rightarrow> d \<noteq> [] | POther _ \<Rightarrow> True)"

text \<open>\<open>sep.join(texts)\<close>.\<close>

fun join_with :: "string \<Rightarrow> string list \<Rightarrow> string" where
  "join_with sep [] = ''''"
| "join_with sep [x] = x"
| "join_with sep (x # xs) = x @ sep @ join_with sep xs"

section \<open>Text search and case\<close>

text \<open>\<open>str.lower\<close> on code points below 256, and the \<open>in\<close> test of two texts.\<close>

definition char_lower :: "char \<Rightarrow> char" where
  "char_lower c = (let n = (of_char c :: nat)
     in if (65 \<le> n \<and> n \<le> 90) \<or> (192 \<le> n \<and> n \<le> 222 \<and> n \<noteq> 215) then char_of (n + 32) else c)"

definition str_lower :: "string \<Rightarrow> string" where
  "str_lower s = map char_lower s"

fun contains_text :: "string \<Rightarrow> string \<Rightarrow> bool" where
  "contains_text p [] = (p = [])"
| "contains_text p (c # s) = (take (length p) (c # s) = p \<or> contains_text p s)"

lemma contains_text_iff: "contains_text p s = (\<exists>a b. s = a @ p @ b)"
proof (induction s)
  case step: (Cons c s)
  show ?case
  proof
    assume "contains_text p (c # s)"
    then consider "take (length p) (c # s) = p" | "contains_text p s" by auto
    then show "\<exists>a b. c # s = a @ p @ b"
    proof cases
      case 1
      then have "c # s = [] @ p @ drop (length p) (c # s)" by (metis append_Nil append_take_drop_id)
      then show ?thesis by blast
    next
      case 2
      with step show ?thesis by (metis append_Cons)
    qed
  next
    assume "\<exists>a b. c # s = a @ p @ b"
    then obtain a b where ab: "c # s = a @ p @ b" by blast
    show "contains_text p (c # s)"
    proof (cases a)
      case Nil
      then have "take (length p) (c # s) = p" using ab by simp
      then show ?thesis by (simp only: contains_text.simps simp_thms)
    next
      case (Cons x a')
      then show ?thesis using ab step by auto
    qed
  qed
qed auto

section \<open>Words and lines\<close>

text \<open>The characters \<open>\w\<close> matches, below 256.\<close>

definition is_word :: "char \<Rightarrow> bool" where
  "is_word c \<longleftrightarrow> (let n = (of_char c :: nat)
     in (48 \<le> n \<and> n \<le> 57) \<or> (65 \<le> n \<and> n \<le> 90) \<or> n = 95 \<or> (97 \<le> n \<and> n \<le> 122) \<or> n = 170 \<or> n = 178
        \<or> n = 179 \<or> n = 181 \<or> n = 185 \<or> n = 186 \<or> (188 \<le> n \<and> n \<le> 190) \<or> (192 \<le> n \<and> n \<noteq> 215 \<and> n \<noteq> 247))"

definition LF :: char where "LF = CHR 0x0A"
definition CR :: char where "CR = CHR 0x0D"

text \<open>Reading in text mode turns every line end into \<open>LF\<close>; \<open>str.splitlines\<close> also cuts at the other
  line boundaries below 256.\<close>

fun universal_newlines :: "string \<Rightarrow> string" where
  "universal_newlines [] = []"
| "universal_newlines [c] = (if c = CR then [LF] else [c])"
| "universal_newlines (c # d # s) =
     (if c = CR then (if d = LF then LF # universal_newlines s else LF # universal_newlines (d # s))
      else c # universal_newlines (d # s))"

definition is_line_end :: "char \<Rightarrow> bool" where
  "is_line_end c \<longleftrightarrow> (of_char c :: nat) \<in> {10, 11, 12, 13, 28, 29, 30, 133}"

fun split_lines :: "string \<Rightarrow> string \<Rightarrow> string list" where
  "split_lines acc [] = (if acc = [] then [] else [rev acc])"
| "split_lines acc (c # s) = (if is_line_end c then rev acc # split_lines [] s else split_lines (c # acc) s)"

lemma universal_newlines_id: "CR \<notin> set s \<Longrightarrow> universal_newlines s = s"
  by (induction s rule: universal_newlines.induct) auto

end
