(* ===== verification/StreamBridge.thy ===== *)
theory StreamBridge
  imports PyText
begin

text \<open>
  \<open>MemoryStreamBridge\<close> (\<open>runtime/stream_bridge/memory.py\<close>): the per-run in-memory event
  log between a worker that publishes and the SSE endpoints that subscribe.  A run's stream
  keeps at most \<open>queue_maxsize\<close> events and the absolute offset of the first one; event ids
  embed a per-run sequence number.  The wall clock is an argument of \<open>sb_publish\<close>.
  A publish holds the stream's lock for its whole effect and waiting releases it, so each
  publish and each pass through the subscriber's loop is one step.
\<close>

section \<open>Data\<close>

record stream_event =
  ev_id :: string
  ev_event :: string
  ev_data :: pyval

definition heartbeat_sentinel :: stream_event where
  "heartbeat_sentinel = \<lparr>ev_id = '''', ev_event = ''__heartbeat__'', ev_data = PNone\<rparr>"

definition end_sentinel :: stream_event where
  "end_sentinel = \<lparr>ev_id = '''', ev_event = ''__end__'', ev_data = PNone\<rparr>"

record run_stream =
  rs_events :: "stream_event list"
  rs_ended :: bool
  rs_start :: int

definition new_stream :: run_stream where
  "new_stream = \<lparr>rs_events = [], rs_ended = False, rs_start = 0\<rparr>"

record stream_bridge =
  sb_maxsize :: int
  sb_streams :: "(string \<times> run_stream) list"
  sb_counters :: "(string \<times> int) list"

definition sb_init :: "int \<Rightarrow> stream_bridge" where
  "sb_init n = \<lparr>sb_maxsize = n, sb_streams = [], sb_counters = []\<rparr>"

section \<open>Operations\<close>

definition get_or_create_stream :: "string \<Rightarrow> stream_bridge \<Rightarrow> run_stream \<times> stream_bridge" where
  "get_or_create_stream rid b =
     (case map_of (sb_streams b) rid of
        Some st \<Rightarrow> (st, b)
      | None \<Rightarrow> (new_stream, b\<lparr>sb_streams := od_set rid new_stream (sb_streams b),
                              sb_counters := od_set rid 0 (sb_counters b)\<rparr>))"

definition event_id :: "int \<Rightarrow> int \<Rightarrow> string" where
  "event_id ts seq = int_str ts @ CHR ''-'' # int_str seq"

definition next_id :: "int \<Rightarrow> string \<Rightarrow> stream_bridge \<Rightarrow> string \<times> stream_bridge" where
  "next_id ts rid b =
     (let b' = b\<lparr>sb_counters := od_set rid (od_get_default (sb_counters b) rid 0 + 1) (sb_counters b)\<rparr>;
          seq = od_get_default (sb_counters b') rid 0 - 1
      in (event_id ts seq, b'))"

definition parse_event_seq :: "string \<Rightarrow> int option" where
  "parse_event_seq eid =
     (case rpartition CHR ''-'' eid of None \<Rightarrow> None | Some (_, seq_text) \<Rightarrow> py_int seq_text)"

definition resolve_start_offset :: "run_stream \<Rightarrow> string option \<Rightarrow> int" where
  "resolve_start_offset st last_event_id =
     (case last_event_id of
        None \<Rightarrow> rs_start st
      | Some eid \<Rightarrow>
          (case parse_event_seq eid of
             None \<Rightarrow> rs_start st
           | Some seq \<Rightarrow>
               (let local_index = seq - rs_start st
                in if 0 \<le> local_index \<and> local_index < int (length (rs_events st))
                      \<and> ev_id (rs_events st ! nat local_index) = eid
                   then rs_start st + local_index + 1 else rs_start st)))"

definition append_event :: "int \<Rightarrow> stream_event \<Rightarrow> run_stream \<Rightarrow> run_stream" where
  "append_event maxsize entry st =
     (let events = rs_events st @ [entry]
      in if int (length events) > maxsize
         then (let overflow = int (length events) - maxsize
               in st\<lparr>rs_events := drop (nat overflow) events, rs_start := rs_start st + overflow\<rparr>)
         else st\<lparr>rs_events := events\<rparr>)"

definition sb_publish :: "int \<Rightarrow> string \<Rightarrow> string \<Rightarrow> pyval \<Rightarrow> stream_bridge \<Rightarrow> stream_bridge" where
  "sb_publish ts rid event data b =
     (let (st, b1) = get_or_create_stream rid b;
          (eid, b2) = next_id ts rid b1;
          entry = \<lparr>ev_id = eid, ev_event = event, ev_data = data\<rparr>
      in b2\<lparr>sb_streams := od_set rid (append_event (sb_maxsize b2) entry st) (sb_streams b2)\<rparr>)"

definition sb_publish_end :: "string \<Rightarrow> stream_bridge \<Rightarrow> stream_bridge" where
  "sb_publish_end rid b =
     (let (st, b1) = get_or_create_stream rid b
      in b1\<lparr>sb_streams := od_set rid (st\<lparr>rs_ended := True\<rparr>) (sb_streams b1)\<rparr>)"

text \<open>Opening a subscription creates the stream if needed and fixes the first offset.\<close>

definition sb_subscribe :: "string \<Rightarrow> string option \<Rightarrow> stream_bridge \<Rightarrow> int \<times> stream_bridge" where
  "sb_subscribe rid last_event_id b =
     (let (st, b1) = get_or_create_stream rid b in (resolve_start_offset st last_event_id, b1))"

text \<open>
  One pass through the subscriber's loop on the stream object it holds.  \<open>timed_out\<close> says
  how the wait ended, if the pass waits: the heartbeat interval ran out, or it was notified.
\<close>

datatype sub_result = Yield stream_event int | Heartbeat stream_event int | Finish stream_event | Again int

definition subscribe_pass :: "run_stream \<Rightarrow> int \<Rightarrow> bool \<Rightarrow> sub_result" where
  "subscribe_pass st next_offset timed_out =
     (let next_offset = (if next_offset < rs_start st then rs_start st else next_offset);
          local_index = next_offset - rs_start st
      in if 0 \<le> local_index \<and> local_index < int (length (rs_events st))
         then Yield (rs_events st ! nat local_index) (next_offset + 1)
         else if rs_ended st then Finish end_sentinel
         else if timed_out then Heartbeat heartbeat_sentinel next_offset
         else Again next_offset)"

definition sb_cleanup :: "string \<Rightarrow> stream_bridge \<Rightarrow> stream_bridge" where
  "sb_cleanup rid b = b\<lparr>sb_streams := od_pop rid (sb_streams b), sb_counters := od_pop rid (sb_counters b)\<rparr>"

definition sb_close :: "stream_bridge \<Rightarrow> stream_bridge" where
  "sb_close b = b\<lparr>sb_streams := [], sb_counters := []\<rparr>"

section \<open>Histories and the invariant\<close>

datatype bridge_op =
    Publish int string string pyval
  | PublishEnd string
  | Subscribe string "string option"
  | Cleanup string
  | Close

fun bridge_apply :: "bridge_op \<Rightarrow> stream_bridge \<Rightarrow> stream_bridge" where
  "bridge_apply (Publish ts rid event data) b = sb_publish ts rid event data b"
| "bridge_apply (PublishEnd rid) b = sb_publish_end rid b"
| "bridge_apply (Subscribe rid cursor) b = snd (sb_subscribe rid cursor b)"
| "bridge_apply (Cleanup rid) b = sb_cleanup rid b"
| "bridge_apply Close b = sb_close b"

definition bridge_run :: "bridge_op list \<Rightarrow> stream_bridge \<Rightarrow> stream_bridge" where
  "bridge_run ops b = fold bridge_apply ops b"

text \<open>Every retained event's id carries its absolute offset, and the buffer is bounded.\<close>

definition stream_ok :: "int \<Rightarrow> int \<Rightarrow> run_stream \<Rightarrow> bool" where
  "stream_ok maxsize counter st \<longleftrightarrow>
     int (length (rs_events st)) \<le> maxsize \<and> 0 \<le> rs_start st
     \<and> counter = rs_start st + int (length (rs_events st))
     \<and> (\<forall>i < length (rs_events st). \<exists>ts. ev_id (rs_events st ! i) = event_id ts (rs_start st + int i))"

definition bridge_ok :: "stream_bridge \<Rightarrow> bool" where
  "bridge_ok b \<longleftrightarrow>
     fst ` set (sb_counters b) = fst ` set (sb_streams b)
     \<and> (\<forall>rid st. map_of (sb_streams b) rid = Some st \<longrightarrow>
           stream_ok (sb_maxsize b) (od_get_default (sb_counters b) rid 0) st)"

lemma int_str_nonneg: "0 \<le> n \<Longrightarrow> int_str n = dec (nat n)"
  by (simp add: int_str_def)

lemma dec_no_dash: "CHR ''-'' \<notin> set (dec n)"
  using dec_digits [of n] by (auto simp: list_all_iff is_digit_def)

lemma parse_event_id [simp]: "0 \<le> seq \<Longrightarrow> parse_event_seq (event_id ts seq) = Some seq"
  by (simp add: parse_event_seq_def event_id_def int_str_nonneg rpartition_append dec_no_dash)

lemma event_id_seq: "event_id t m = event_id u n \<Longrightarrow> 0 \<le> m \<Longrightarrow> 0 \<le> n \<Longrightarrow> m = n"
  by (metis option.inject parse_event_id)

lemma stream_ok_new: "0 \<le> m \<Longrightarrow> stream_ok m 0 new_stream"
  by (simp add: stream_ok_def new_stream_def)

lemma stream_ok_end: "stream_ok m c st \<Longrightarrow> stream_ok m c (st\<lparr>rs_ended := x\<rparr>)"
  by (simp add: stream_ok_def)

lemma stream_ok_append:
  assumes ok: "stream_ok m c st" and e: "ev_id e = event_id ts c"
  shows "stream_ok m (c + 1) (append_event m e st)"
proof -
  define es where "es = rs_events st @ [e]"
  have len: "length es = Suc (length (rs_events st))" by (simp add: es_def)
  have c: "c = rs_start st + int (length (rs_events st))" using ok by (simp add: stream_ok_def)
  have ids: "\<exists>ts. ev_id (es ! i) = event_id ts (rs_start st + int i)" if "i < length es" for i
  proof (cases "i < length (rs_events st)")
    case True
    with ok have "\<exists>ts. ev_id (rs_events st ! i) = event_id ts (rs_start st + int i)"
      unfolding stream_ok_def by blast
    with True show ?thesis by (simp add: es_def nth_append)
  next
    case False
    with that have "i = length (rs_events st)" by (simp add: len)
    with e c show ?thesis by (auto simp: es_def)
  qed
  show ?thesis
  proof (cases "int (length es) > m")
    case True
    have m: "m = int (length (rs_events st))" using ok True by (simp add: stream_ok_def len)
    have "\<exists>ts. ev_id (drop 1 es ! i) = event_id ts (rs_start st + 1 + int i)" if "i < length (drop 1 es)" for i
      using ids [of "1 + i"] that by (simp add: algebra_simps)
    with ok m len True show ?thesis
      by (simp add: stream_ok_def append_event_def Let_def flip: es_def)
  next
    case False
    with ok ids len c show ?thesis
      by (simp add: stream_ok_def append_event_def Let_def flip: es_def)
  qed
qed

lemma bridge_ok_stream:
  "bridge_ok b \<Longrightarrow> map_of (sb_streams b) rid = Some st \<Longrightarrow>
    stream_ok (sb_maxsize b) (od_get_default (sb_counters b) rid 0) st"
  by (simp add: bridge_ok_def)

lemma bridge_ok_set:
  assumes "bridge_ok b" and "sb_streams b' = od_set rid st (sb_streams b)"
    and "sb_maxsize b' = sb_maxsize b" and "stream_ok (sb_maxsize b) c st"
    and "sb_counters b' = od_set rid c (sb_counters b)"
  shows "bridge_ok b'"
  unfolding bridge_ok_def
proof (intro conjI allI impI)
  show "fst ` set (sb_counters b') = fst ` set (sb_streams b')"
    using assms(1,2,5) by (simp add: bridge_ok_def)
next
  fix r t
  assume "map_of (sb_streams b') r = Some t"
  with assms show "stream_ok (sb_maxsize b') (od_get_default (sb_counters b') r 0) t"
    by (simp add: bridge_ok_def od_get_default_set split: if_splits)
qed

lemma get_or_create_ok:
  assumes "bridge_ok b" and "0 \<le> sb_maxsize b" and "get_or_create_stream rid b = (st, b1)"
  shows "bridge_ok b1" and "map_of (sb_streams b1) rid = Some st" and "sb_maxsize b1 = sb_maxsize b"
proof -
  show "bridge_ok b1"
  proof (cases "map_of (sb_streams b) rid")
    case None
    with assms(3) have "b1 = b\<lparr>sb_streams := od_set rid new_stream (sb_streams b),
        sb_counters := od_set rid 0 (sb_counters b)\<rparr>"
      by (simp add: get_or_create_stream_def)
    then show ?thesis
      by (intro bridge_ok_set [OF assms(1) _ _ stream_ok_new [OF assms(2)]]) simp_all
  next
    case (Some st')
    with assms show ?thesis by (simp add: get_or_create_stream_def)
  qed
  show "map_of (sb_streams b1) rid = Some st" "sb_maxsize b1 = sb_maxsize b"
    using assms(3) by (auto simp: get_or_create_stream_def split: option.splits)
qed

lemma sb_publish_ok:
  assumes "bridge_ok b" and "0 \<le> sb_maxsize b"
  shows "bridge_ok (sb_publish ts rid event data b)"
proof -
  obtain st b1 where g: "get_or_create_stream rid b = (st, b1)" by force
  note ok = get_or_create_ok [OF assms g]
  let ?c = "od_get_default (sb_counters b1) rid 0"
  have "stream_ok (sb_maxsize b1) (?c + 1)
      (append_event (sb_maxsize b1) \<lparr>ev_id = event_id ts ?c, ev_event = event, ev_data = data\<rparr> st)"
    by (rule stream_ok_append [OF bridge_ok_stream [OF ok(1,2)]]) simp
  with ok(1) show ?thesis
    by (elim bridge_ok_set [rotated 3])
      (simp_all add: sb_publish_def g next_id_def Let_def od_get_default_set)
qed

lemma sb_publish_end_ok:
  assumes "bridge_ok b" and "0 \<le> sb_maxsize b"
  shows "bridge_ok (sb_publish_end rid b)"
proof -
  obtain st b1 where g: "get_or_create_stream rid b = (st, b1)" by force
  note ok = get_or_create_ok [OF assms g]
  have in_dom: "rid \<in> fst ` set (sb_streams b1)" using ok(2) by (rule map_of_Some_dom)
  with ok(1) stream_ok_end [OF bridge_ok_stream [OF ok(1,2)]] show ?thesis
    by (simp add: sb_publish_end_def g Let_def bridge_ok_def insert_absorb)
qed

lemma bridge_apply_ok:
  assumes "bridge_ok b" and "0 \<le> sb_maxsize b"
  shows "bridge_ok (bridge_apply op b) \<and> sb_maxsize (bridge_apply op b) = sb_maxsize b"
proof (cases op)
  case (Publish ts rid event data)
  then show ?thesis
    using sb_publish_ok [OF assms]
    by (auto simp: sb_publish_def next_id_def get_or_create_stream_def Let_def split: option.split)
next
  case (PublishEnd rid)
  then show ?thesis
    using sb_publish_end_ok [OF assms]
    by (auto simp: sb_publish_end_def get_or_create_stream_def Let_def split: option.split)
next
  case (Subscribe rid cursor)
  obtain st b1 where g: "get_or_create_stream rid b = (st, b1)" by force
  with Subscribe get_or_create_ok [OF assms g] show ?thesis by (simp add: sb_subscribe_def)
next
  case (Cleanup rid)
  with assms show ?thesis by (auto simp: sb_cleanup_def bridge_ok_def od_get_default_pop)
next
  case Close
  then show ?thesis by (simp add: sb_close_def bridge_ok_def)
qed

lemma bridge_run_ok:
  assumes "bridge_ok b" and "0 \<le> sb_maxsize b"
  shows "bridge_ok (bridge_run ops b) \<and> sb_maxsize (bridge_run ops b) = sb_maxsize b"
  using assms unfolding bridge_run_def
  by (induction ops arbitrary: b) (use bridge_apply_ok in auto)

lemma sb_init_ok [simp]: "bridge_ok (sb_init m)"
  by (simp add: sb_init_def bridge_ok_def)

lemma reached_stream:
  assumes "0 \<le> m" and "map_of (sb_streams (bridge_run ops (sb_init m))) rid = Some st"
  shows "stream_ok m (od_get_default (sb_counters (bridge_run ops (sb_init m))) rid 0) st"
  using bridge_run_ok [OF sb_init_ok, of m ops] bridge_ok_stream assms
  by (metis sb_init_def stream_bridge.select_convs(1))

lemma stream_ok_seq:
  assumes "stream_ok m c st" and "i < length (rs_events st)"
  shows "parse_event_seq (ev_id (rs_events st ! i)) = Some (rs_start st + int i)"
  using assms by (auto simp: stream_ok_def)

section \<open>A subscriber beside the producer\<close>

text \<open>
  A session interleaves the subscriber's passes with any bridge operations; it holds the
  run's stream object, so operations that drop the run's stream are excluded.
\<close>

datatype session_event = Sys bridge_op | Pass bool

fun keeps_run :: "string \<Rightarrow> session_event \<Rightarrow> bool" where
  "keeps_run rid (Sys (Cleanup r)) = (r \<noteq> rid)"
| "keeps_run rid (Sys Close) = False"
| "keeps_run rid _ = True"

fun session_step :: "string \<Rightarrow> session_event \<Rightarrow> stream_bridge \<times> int \<times> stream_event list
    \<Rightarrow> stream_bridge \<times> int \<times> stream_event list" where
  "session_step rid (Sys op) (b, off, out) = (bridge_apply op b, off, out)"
| "session_step rid (Pass timed_out) (b, off, out) =
     (case map_of (sb_streams b) rid of
        None \<Rightarrow> (b, off, out)
      | Some st \<Rightarrow>
          (case subscribe_pass st off timed_out of
             Yield e off' \<Rightarrow> (b, off', out @ [e])
           | Heartbeat _ off' \<Rightarrow> (b, off', out)
           | Again off' \<Rightarrow> (b, off', out)
           | Finish _ \<Rightarrow> (b, off, out)))"

definition session_run :: "string \<Rightarrow> session_event list \<Rightarrow> stream_bridge \<times> int \<Rightarrow>
    stream_bridge \<times> int \<times> stream_event list" where
  "session_run rid evs start = fold (session_step rid) evs (fst start, snd start, [])"

definition event_seq :: "stream_event \<Rightarrow> int" where
  "event_seq e = (case parse_event_seq (ev_id e) of None \<Rightarrow> - 1 | Some n \<Rightarrow> n)"

definition pending :: "run_stream \<Rightarrow> int \<Rightarrow> stream_event list" where
  "pending st off = drop (nat (off - rs_start st)) (rs_events st)"

definition stream_end :: "run_stream \<Rightarrow> int" where
  "stream_end st = rs_start st + int (length (rs_events st))"

lemma pending_append:
  assumes "int (length (rs_events st)) \<le> m" and "rs_start (append_event m e st) \<le> k"
    and "k \<le> stream_end st"
  shows "pending (append_event m e st) k = pending st k @ [e]"
proof (cases "int (length (rs_events st @ [e])) > m")
  case True
  with assms(1) have m: "m = int (length (rs_events st))" by simp
  with assms(2) have k: "rs_start st + 1 \<le> k" by (simp add: append_event_def)
  then have n: "Suc (nat (k - (rs_start st + 1))) = nat (k - rs_start st)" by simp
  have "nat (k - rs_start st) \<le> length (rs_events st)"
    using assms(3) by (simp add: stream_end_def)
  with m n show ?thesis by (simp add: append_event_def pending_def)
next
  case False
  then show ?thesis
    using assms(3) by (simp add: append_event_def pending_def stream_end_def Let_def)
qed

lemma append_start_mono: "rs_start st \<le> rs_start (append_event m e st)"
  by (simp add: append_event_def Let_def)

lemma append_end: "int (length (rs_events st)) \<le> m \<Longrightarrow> stream_end (append_event m e st) = stream_end st + 1"
  by (auto simp: append_event_def stream_end_def Let_def)

text \<open>What one step of the bridge does to the stream of a run it keeps.\<close>

lemma bridge_apply_stream:
  assumes "map_of (sb_streams b) rid = Some st" and "keeps_run rid (Sys op)"
  obtains "map_of (sb_streams (bridge_apply op b)) rid = Some st"
  | "map_of (sb_streams (bridge_apply op b)) rid = Some (st\<lparr>rs_ended := True\<rparr>)"
  | e where "map_of (sb_streams (bridge_apply op b)) rid = Some (append_event (sb_maxsize b) e st)"
proof (cases op)
  case (Publish ts r event data)
  with assms(1) that show ?thesis
    by (cases "r = rid") (auto simp: sb_publish_def get_or_create_stream_def next_id_def Let_def
        split: option.splits)
next
  case (PublishEnd r)
  with assms(1) that show ?thesis
    by (cases "r = rid") (auto simp: sb_publish_end_def get_or_create_stream_def Let_def split: option.splits)
next
  case (Subscribe r cursor)
  with assms(1) that(1) show ?thesis
    by (cases "r = rid") (auto simp: sb_subscribe_def get_or_create_stream_def split: option.splits)
next
  case (Cleanup r)
  with assms that(1) show ?thesis by (simp add: sb_cleanup_def)
next
  case Close
  with assms(2) show ?thesis by simp
qed

text \<open>What an append leaves pending: what was pending and the new event, less evicted ones at the front.\<close>

lemma pending_append_sub:
  assumes "int (length (rs_events st)) \<le> m" and "0 \<le> m" and "off0 \<le> off" and "off \<le> stream_end st"
    and "\<exists>lost. out @ pending st off = lost @ pending st off0"
  shows "\<exists>lost. out @ pending (append_event m e st) off = lost @ pending (append_event m e st) off0"
proof (cases "rs_start (append_event m e st) \<le> off0")
  case True
  with assms show ?thesis
    using pending_append [OF assms(1), of e] by auto
next
  case below: False
  let ?st = "append_event m e st"
  have all0: "pending ?st off0 = rs_events ?st"
    using below by (simp add: pending_def)
  show ?thesis
  proof (cases "rs_start ?st \<le> off")
    case False
    then show ?thesis using all0 by (simp add: pending_def)
  next
    case True
    obtain lost where lost: "out @ pending st off = lost @ pending st off0"
      using assms(5) by blast
    have "pending ?st off = pending st off @ [e]"
      using pending_append [OF assms(1) True assms(4)] .
    moreover have "\<exists>xs. pending st off0 @ [e] = xs @ rs_events ?st"
    proof (cases "int (length (rs_events st @ [e])) > m")
      case True
      then have m: "m = int (length (rs_events st))"
        using assms(1) by simp
      then have s: "rs_start ?st = rs_start st + 1" "rs_events ?st = drop 1 (rs_events st @ [e])"
        by (simp_all add: append_event_def)
      then have "pending st off0 = rs_events st"
        using below by (simp add: pending_def)
      then show ?thesis using s(2) by (metis append_take_drop_id)
    next
      case False
      then have "rs_events ?st = rs_events st @ [e]" "rs_start ?st = rs_start st"
        by (simp_all add: append_event_def)
      then show ?thesis using below by (simp add: pending_def)
    qed
    ultimately show ?thesis
      using lost all0 by (metis append.assoc)
  qed
qed

text \<open>The session invariant, from a subscription opened at offset \<open>off0\<close>.\<close>

definition session_inv :: "int \<Rightarrow> int \<Rightarrow> string \<Rightarrow> stream_bridge \<times> int \<times> stream_event list \<Rightarrow> bool" where
  "session_inv m off0 rid s \<longleftrightarrow>
     (case s of (b, off, out) \<Rightarrow>
        bridge_ok b \<and> sb_maxsize b = m
        \<and> (\<exists>st. map_of (sb_streams b) rid = Some st
             \<and> 0 \<le> off0 \<and> off0 \<le> off \<and> off \<le> stream_end st
             \<and> sorted_wrt (<) (map event_seq out) \<and> (\<forall>e \<in> set out. off0 \<le> event_seq e \<and> event_seq e < off)
             \<and> (\<exists>lost. out @ pending st off = lost @ pending st off0)
             \<and> (rs_start st \<le> off0 \<longrightarrow> out @ pending st off = pending st off0)))"

lemma session_inv_pass:
  assumes inv: "session_inv m off0 rid (b, off, out)"
  shows "session_inv m off0 rid (session_step rid (Pass t) (b, off, out))"
proof -
  obtain st where st: "map_of (sb_streams b) rid = Some st" "0 \<le> off0" "off0 \<le> off" "off \<le> stream_end st"
      "sorted_wrt (<) (map event_seq out)" "\<forall>e \<in> set out. off0 \<le> event_seq e \<and> event_seq e < off"
      "rs_start st \<le> off0 \<Longrightarrow> out @ pending st off = pending st off0"
      "\<exists>lost. out @ pending st off = lost @ pending st off0"
    and ok: "bridge_ok b" "sb_maxsize b = m"
    using inv by (auto simp: session_inv_def)
  have sok: "stream_ok m (od_get_default (sb_counters b) rid 0) st"
    using bridge_ok_stream [OF ok(1) st(1)] ok(2) by simp
  define o' where "o' = max off (rs_start st)"
  have cur: "(if off < rs_start st then rs_start st else off) = o'" by (simp add: o'_def max_def)
  have same: "pending st off = pending st o'" by (simp add: pending_def o'_def max_def)
  obtain lost where lost: "out @ pending st o' = lost @ pending st off0"
    using st(8) same by auto
  show ?thesis
  proof (cases "o' - rs_start st < int (length (rs_events st))")
    case True
    let ?e = "rs_events st ! nat (o' - rs_start st)"
    have ge: "rs_start st \<le> o'" and off: "off \<le> o'" by (simp_all add: o'_def)
    have seq: "event_seq ?e = o'"
      using stream_ok_seq [OF sok, of "nat (o' - rs_start st)"] True ge by (simp add: event_seq_def)
    have cons: "pending st o' = ?e # pending st (o' + 1)"
    proof -
      have "nat (o' + 1 - rs_start st) = Suc (nat (o' - rs_start st))" using ge by simp
      moreover have "nat (o' - rs_start st) < length (rs_events st)" using True ge by simp
      ultimately show ?thesis by (simp add: pending_def Cons_nth_drop_Suc)
    qed
    have "out @ [?e] @ pending st (o' + 1) = pending st off0" if "rs_start st \<le> off0"
    proof -
      have "o' = off" using that st(3) by (simp add: o'_def)
      with cons st(7) [OF that] show ?thesis by simp
    qed
    moreover have "out @ [?e] @ pending st (o' + 1) = lost @ pending st off0"
      using lost cons by simp
    ultimately show ?thesis
      using st(1-6) ok True seq ge off
      by (auto simp: session_inv_def subscribe_pass_def Let_def cur sorted_wrt_append stream_end_def
          intro: le_less_trans dual_order.strict_trans1)
  next
    case False
    have "off0 \<le> o'" "o' \<le> stream_end st" "off \<le> o'"
      using st(3,4) by (auto simp: o'_def stream_end_def)
    moreover have "rs_start st \<le> off0 \<Longrightarrow> o' = off" using st(3) by (simp add: o'_def)
    ultimately have "session_inv m off0 rid (b, o', out)"
      using st(1-7) ok lost by (auto simp: session_inv_def)
    with False inv st(1) show ?thesis
      by (auto simp: subscribe_pass_def Let_def cur)
  qed
qed

lemma session_inv_sys:
  assumes inv: "session_inv m off0 rid (b, off, out)" and "keeps_run rid (Sys op)" and "0 \<le> m"
  shows "session_inv m off0 rid (session_step rid (Sys op) (b, off, out))"
proof -
  obtain st where st: "map_of (sb_streams b) rid = Some st" "0 \<le> off0" "off0 \<le> off" "off \<le> stream_end st"
      "sorted_wrt (<) (map event_seq out)" "\<forall>e \<in> set out. off0 \<le> event_seq e \<and> event_seq e < off"
      "rs_start st \<le> off0 \<Longrightarrow> out @ pending st off = pending st off0"
      "\<exists>lost. out @ pending st off = lost @ pending st off0"
    and ok: "bridge_ok b" "sb_maxsize b = m"
    using inv by (auto simp: session_inv_def)
  have ok': "bridge_ok (bridge_apply op b)" "sb_maxsize (bridge_apply op b) = m"
    using bridge_apply_ok [of b op] ok assms(3) by auto
  have len: "int (length (rs_events st)) \<le> m"
    using bridge_ok_stream [OF ok(1) st(1)] ok(2) by (simp add: stream_ok_def)
  consider (same) "map_of (sb_streams (bridge_apply op b)) rid = Some st"
    | (ended) "map_of (sb_streams (bridge_apply op b)) rid = Some (st\<lparr>rs_ended := True\<rparr>)"
    | (app) e where "map_of (sb_streams (bridge_apply op b)) rid = Some (append_event m e st)"
    using bridge_apply_stream [OF st(1) assms(2)] ok(2) by metis
  then show ?thesis
  proof cases
    case same
    with st ok' show ?thesis by (simp add: session_inv_def)
  next
    case ended
    with st ok' show ?thesis by (simp add: session_inv_def stream_end_def pending_def)
  next
    case app
    let ?st = "append_event m e st"
    have "out @ pending ?st off = pending ?st off0" if "rs_start ?st \<le> off0"
    proof -
      have "rs_start st \<le> off0" using that append_start_mono [of st m e] by linarith
      moreover have "pending ?st off = pending st off @ [e]" "pending ?st off0 = pending st off0 @ [e]"
        using pending_append(1) [OF len] that st(3,4) by auto
      ultimately show ?thesis using st(7) by simp
    qed
    then show ?thesis
      using app st(1-6) ok' append_end [OF len, of e] pending_append_sub [OF len assms(3) st(3,4,8), of e]
      by (simp add: session_inv_def)
  qed
qed

lemma session_inv_run:
  assumes "session_inv m off0 rid s" and "\<forall>ev \<in> set evs. keeps_run rid ev" and "0 \<le> m"
  shows "session_inv m off0 rid (fold (session_step rid) evs s)"
  using assms
proof (induction evs arbitrary: s)
  case Nil
  then show ?case by simp
next
  case (Cons ev evs)
  obtain b off out where s: "s = (b, off, out)" by (cases s) auto
  have "session_inv m off0 rid (session_step rid ev s)"
    using Cons.prems session_inv_sys session_inv_pass by (cases ev) (auto simp: s)
  with Cons show ?case by simp
qed

lemma resolve_bounds:
  assumes "stream_ok m c st"
  shows "rs_start st \<le> resolve_start_offset st cursor" and "resolve_start_offset st cursor \<le> stream_end st"
  using assms by (auto simp: resolve_start_offset_def stream_ok_def stream_end_def Let_def split: option.splits)

lemma session_inv_open:
  assumes "bridge_ok b" and "sb_maxsize b = m" and "0 \<le> m" and "sb_subscribe rid cursor b = (off, b0)"
  shows "session_inv m off rid (b0, off, [])"
proof -
  obtain st b1 where g: "get_or_create_stream rid b = (st, b1)" by force
  with assms(4) have off: "off = resolve_start_offset st cursor" and b1: "b1 = b0"
    by (simp_all add: sb_subscribe_def)
  note ok = get_or_create_ok [OF assms(1) _ g]
  have sok: "stream_ok m (od_get_default (sb_counters b0) rid 0) st"
    using bridge_ok_stream [of b1 rid st] ok assms(2,3) b1 by simp
  then have "0 \<le> rs_start st" by (simp add: stream_ok_def)
  with ok assms(2,3) b1 off resolve_bounds [OF sok, of cursor] show ?thesis
    by (auto simp: session_inv_def)
qed

section \<open>Properties\<close>

text \<open>After any history of publishes, ends, subscriptions, cleanups and a close, every
  live stream retains at most \<open>queue_maxsize\<close> events, its counter is its absolute end, and
  the sequence number in the id of each retained event is that event's absolute offset.\<close>

lemma stream_ids_are_offsets:
  assumes "0 \<le> m"
    and "map_of (sb_streams (bridge_run ops (sb_init m))) rid = Some st"
  shows "int (length (rs_events st)) \<le> m
    \<and> od_get_default (sb_counters (bridge_run ops (sb_init m))) rid 0 = stream_end st
    \<and> map (parse_event_seq \<circ> ev_id) (rs_events st) = map (\<lambda>i. Some (rs_start st + int i)) [0..<length (rs_events st)]"
proof -
  have ok: "stream_ok m (od_get_default (sb_counters (bridge_run ops (sb_init m))) rid 0) st"
    using assms by (rule reached_stream)
  have "map (parse_event_seq \<circ> ev_id) (rs_events st) =
      map (\<lambda>i. Some (rs_start st + int i)) [0..<length (rs_events st)]"
    by (rule nth_equalityI) (simp_all add: stream_ok_seq [OF ok])
  with ok show ?thesis by (simp add: stream_ok_def stream_end_def)
qed

definition demo_history :: "bridge_op list" where
  "demo_history = [Publish 1700 ''r1'' ''metadata'' PNone, Publish 1701 ''r1'' ''values'' (PInt 7),
     Publish 1701 ''r2'' ''values'' PNone, Publish 1702 ''r1'' ''updates'' (PBool True), PublishEnd ''r1'']"

definition demo_stream :: run_stream where
  "demo_stream = \<lparr>rs_events = [\<lparr>ev_id = ''1701-1'', ev_event = ''values'', ev_data = PInt 7\<rparr>,
       \<lparr>ev_id = ''1702-2'', ev_event = ''updates'', ev_data = PBool True\<rparr>], rs_ended = True, rs_start = 1\<rparr>"

lemmas bridge_eval = bridge_run_def sb_init_def sb_publish_def sb_publish_end_def sb_subscribe_def
  get_or_create_stream_def next_id_def append_event_def new_stream_def event_id_def int_str_def
  od_get_default_def dec.simps digit_char_def Let_def

lemma demo_history_stream:
  "map_of (sb_streams (bridge_run demo_history (sb_init 2))) ''r1'' = Some demo_stream"
  by (simp add: demo_history_def demo_stream_def bridge_eval)

text \<open>The constant-time lookup of \<open>Last-Event-ID\<close> finds what a scan of the retained
  buffer would: a reconnecting subscriber resumes right after the retained event with that id,
  and from the earliest retained event when no retained event has it (evicted, foreign or
  malformed ids alike).\<close>

lemma resolve_equals_scan:
  assumes "0 \<le> m"
    and "map_of (sb_streams (bridge_run ops (sb_init m))) rid = Some st"
  shows "resolve_start_offset st (Some eid) =
    rs_start st + (case find (\<lambda>i. ev_id (rs_events st ! i) = eid) [0..<length (rs_events st)] of
      None \<Rightarrow> 0 | Some i \<Rightarrow> int i + 1)"
proof -
  have ok: "stream_ok m (od_get_default (sb_counters (bridge_run ops (sb_init m))) rid 0) st"
    using assms by (rule reached_stream)
  show ?thesis
  proof (cases "find (\<lambda>i. ev_id (rs_events st ! i) = eid) [0..<length (rs_events st)]")
    case None
    then have none: "\<And>i. i < length (rs_events st) \<Longrightarrow> ev_id (rs_events st ! i) \<noteq> eid"
      by (auto simp: find_None_iff)
    have "\<not> (0 \<le> k \<and> k < int (length (rs_events st)) \<and> ev_id (rs_events st ! nat k) = eid)" for k
      using none [of "nat k"] by auto
    then have "resolve_start_offset st (Some eid) = rs_start st"
      unfolding resolve_start_offset_def Let_def by (simp only: if_False option.case split: option.split) simp
    with None show ?thesis by simp
  next
    case (Some i)
    then have i: "i < length (rs_events st)" "ev_id (rs_events st ! i) = eid"
      by (auto simp: find_Some_iff)
    with stream_ok_seq [OF ok i(1)] Some show ?thesis by (simp add: resolve_start_offset_def)
  qed
qed

text \<open>C4. A subscriber that polls while the bridge keeps working receives events in strictly increasing sequence order,
  without duplicates, all from its resume offset on.  At every moment the events the buffer retains from the resume
  offset on have been received or are still pending, also after the subscriber fell behind and was moved to the
  earliest retained event; and as long as the buffer has evicted nothing past the resume offset, what was received
  followed by what is pending is exactly the log from that offset.\<close>

theorem session_delivery:
  assumes "0 \<le> m" and "sb_subscribe rid cursor (bridge_run ops (sb_init m)) = (off0, b0)"
    and "\<forall>ev \<in> set evs. keeps_run rid ev"
    and "session_run rid evs (b0, off0) = (b, off, out)"
  shows "sorted_wrt (<) (map event_seq out) \<and> (\<forall>e \<in> set out. off0 \<le> event_seq e \<and> event_seq e < off)
    \<and> (\<exists>st. map_of (sb_streams b) rid = Some st
         \<and> (\<exists>lost. out @ pending st off = lost @ pending st off0)
         \<and> (rs_start st \<le> off0 \<longrightarrow> out @ pending st off = pending st off0))"
proof -
  have "bridge_ok (bridge_run ops (sb_init m)) \<and> sb_maxsize (bridge_run ops (sb_init m)) = m"
    using bridge_run_ok [OF sb_init_ok, of m ops] assms(1) by (simp add: sb_init_def)
  then have "session_inv m off0 rid (b0, off0, [])"
    using session_inv_open assms(1,2) by blast
  then have "session_inv m off0 rid (b, off, out)"
    using session_inv_run [of m off0 rid "(b0, off0, [])", OF _ assms(3,1)] assms(4)
    by (simp add: session_run_def)
  then show ?thesis by (auto simp: session_inv_def)
qed

definition demo_session :: "session_event list" where
  "demo_session = [Pass False, Sys (Publish 1 ''r1'' ''a'' PNone), Sys (Publish 1 ''r1'' ''b'' PNone),
     Sys (Publish 1 ''r1'' ''c'' PNone), Pass False, Pass False, Sys (PublishEnd ''r1''), Pass True]"

text \<open>A buffer of two events: the subscriber falls behind, loses the first event and receives the other two.\<close>

theorem session_delivery_witness:
  "map event_seq (snd (snd (session_run ''r1'' demo_session (snd (sb_subscribe ''r1'' None (bridge_run [] (sb_init 2))), 0)))) = [1, 2]
   \<and> sorted_wrt (<) (map event_seq (snd (snd (session_run ''r1'' demo_session
      (snd (sb_subscribe ''r1'' None (bridge_run [] (sb_init 2))), 0)))))"
proof -
  let ?b = "bridge_run [] (sb_init 2)"
  have open0: "sb_subscribe ''r1'' None ?b = (0, snd (sb_subscribe ''r1'' None ?b))"
    by (simp add: bridge_eval resolve_start_offset_def)
  have keeps: "\<forall>ev \<in> set demo_session. keeps_run ''r1'' ev"
    by (simp add: demo_session_def)
  obtain b off out where run: "session_run ''r1'' demo_session (snd (sb_subscribe ''r1'' None ?b), 0) = (b, off, out)"
    by (metis prod_cases3)
  have "map event_seq out = [1, 2]"
    using run by (auto simp: demo_session_def session_run_def bridge_eval subscribe_pass_def event_seq_def
        parse_event_seq_def rpartition_def py_int_def str_strip_def is_space_def py_nat_def
        digits_val_def digit_val_def is_digit_def)
  with session_delivery [OF _ open0 keeps run] run show ?thesis by simp
qed

end
