(* ===== verification/EventStore.thy ===== *)
theory EventStore
  imports PyText
begin

text \<open>
  \<open>MemoryRunEventStore\<close> (\<open>runtime/events/store/memory.py\<close>): the append-only event log of
  each thread, with three projections kept beside it (the messages of the thread, and the
  events and messages of each run), per-thread sequence counters, cursor pagination by
  bisection, and deletion of a thread or of a run.  The records the lists share in Python are
  never written after they are appended, so they are values here.
\<close>

section \<open>Data\<close>

record run_event =
  re_thread_id :: string
  re_run_id :: string
  re_event_type :: string
  re_category :: string
  re_content :: pyval
  re_metadata :: pydict
  re_seq :: int
  re_created_at :: string

record put_args =
  pa_thread_id :: string
  pa_run_id :: string
  pa_event_type :: string
  pa_category :: string
  pa_content :: pyval
  pa_metadata :: "pydict option"
  pa_created_at :: "string option"

type_synonym event_lists = "(string \<times> run_event list) list"

record event_store =
  es_events :: event_lists
  es_messages :: event_lists
  es_events_by_run :: "(string \<times> event_lists) list"
  es_messages_by_run :: "(string \<times> event_lists) list"
  es_seq_counters :: "(string \<times> int) list"

definition es_init :: event_store where
  "es_init = \<lparr>es_events = [], es_messages = [], es_events_by_run = [], es_messages_by_run = [],
     es_seq_counters = []\<rparr>"

section \<open>Operations\<close>

definition next_seq :: "string \<Rightarrow> event_store \<Rightarrow> int \<times> event_store" where
  "next_seq tid s =
     (let next_val = od_get_default (es_seq_counters s) tid 0 + 1
      in (next_val, s\<lparr>es_seq_counters := od_set tid next_val (es_seq_counters s)\<rparr>))"

text \<open>\<open>d.setdefault(k, []).append(x)\<close>, and the same one dictionary deeper.\<close>

definition append_at :: "string \<Rightarrow> 'e \<Rightarrow> (string \<times> 'e list) list \<Rightarrow> (string \<times> 'e list) list" where
  "append_at k x d = od_set k (od_get_default d k [] @ [x]) d"

definition append_at2 :: "string \<Rightarrow> string \<Rightarrow> 'e \<Rightarrow> (string \<times> (string \<times> 'e list) list) list \<Rightarrow>
    (string \<times> (string \<times> 'e list) list) list" where
  "append_at2 k r x d = od_set k (append_at r x (od_get_default d k [])) d"

definition put_one :: "string \<Rightarrow> put_args \<Rightarrow> event_store \<Rightarrow> run_event \<times> event_store" where
  "put_one now_iso a s =
     (let tid = pa_thread_id a;
          rid = pa_run_id a;
          (seq, s1) = next_seq tid s;
          rec = \<lparr>re_thread_id = tid, re_run_id = rid, re_event_type = pa_event_type a,
                 re_category = pa_category a, re_content = pa_content a,
                 re_metadata = (case pa_metadata a of None \<Rightarrow> [] | Some m \<Rightarrow> m),
                 re_seq = seq,
                 re_created_at = (case pa_created_at a of None \<Rightarrow> now_iso
                                  | Some c \<Rightarrow> if c = '''' then now_iso else c)\<rparr>;
          s2 = s1\<lparr>es_events := append_at tid rec (es_events s1),
                  es_events_by_run := append_at2 tid rid rec (es_events_by_run s1)\<rparr>;
          s3 = (if pa_category a = ''message''
                then s2\<lparr>es_messages := append_at tid rec (es_messages s2),
                        es_messages_by_run := append_at2 tid rid rec (es_messages_by_run s2)\<rparr>
                else s2)
      in (rec, s3))"

definition es_put :: "string \<Rightarrow> put_args \<Rightarrow> event_store \<Rightarrow> run_event \<times> event_store" where
  "es_put now_iso a s = put_one now_iso a s"

text \<open>A batch reads the clock once per event that carries no timestamp.\<close>

fun es_put_batch :: "(string \<times> put_args) list \<Rightarrow> event_store \<Rightarrow> run_event list \<times> event_store" where
  "es_put_batch [] s = ([], s)"
| "es_put_batch ((now_iso, a) # evs) s =
     (let (r, s1) = put_one now_iso a s; (rs, s2) = es_put_batch evs s1 in (r # rs, s2))"

definition list_messages :: "string \<Rightarrow> int \<Rightarrow> int option \<Rightarrow> int option \<Rightarrow> event_store \<Rightarrow> run_event list" where
  "list_messages tid limit before_seq after_seq s =
     (let messages = od_get_default (es_messages s) tid []
      in case before_seq of
           Some b \<Rightarrow> (let hi = int (bisect_left re_seq messages b)
                      in py_slice (Some (max 0 (hi - limit))) (Some hi) messages)
         | None \<Rightarrow>
             (case after_seq of
                Some a \<Rightarrow> (let lo = int (bisect_right re_seq messages a)
                           in py_slice (Some lo) (Some (lo + limit)) messages)
              | None \<Rightarrow> py_slice (Some (- limit)) None messages))"

definition list_events :: "string \<Rightarrow> string \<Rightarrow> string list option \<Rightarrow> int \<Rightarrow> event_store \<Rightarrow> run_event list" where
  "list_events tid rid event_types limit s =
     (let run_events = od_get_default (od_get_default (es_events_by_run s) tid []) rid [];
          chosen = (case event_types of
                      None \<Rightarrow> run_events
                    | Some types \<Rightarrow> filter (\<lambda>e. re_event_type e \<in> set types) run_events)
      in py_slice None (Some limit) chosen)"

definition list_messages_by_run ::
    "string \<Rightarrow> string \<Rightarrow> int \<Rightarrow> int option \<Rightarrow> int option \<Rightarrow> event_store \<Rightarrow> run_event list" where
  "list_messages_by_run tid rid limit before_seq after_seq s =
     (let messages = od_get_default (od_get_default (es_messages_by_run s) tid []) rid [];
          lo = (case after_seq of None \<Rightarrow> 0 | Some a \<Rightarrow> int (bisect_right re_seq messages a));
          hi = (case before_seq of None \<Rightarrow> int (length messages)
                | Some b \<Rightarrow> int (bisect_left re_seq messages b));
          window = py_slice (Some lo) (Some hi) messages
      in if after_seq \<noteq> None then py_slice None (Some limit) window
         else py_slice (Some (- limit)) None window)"

definition count_messages :: "string \<Rightarrow> event_store \<Rightarrow> nat" where
  "count_messages tid s = length (od_get_default (es_messages s) tid [])"

definition delete_by_thread :: "string \<Rightarrow> event_store \<Rightarrow> nat \<times> event_store" where
  "delete_by_thread tid s =
     (length (od_get_default (es_events s) tid []),
      s\<lparr>es_events := od_pop tid (es_events s),
        es_messages := od_pop tid (es_messages s),
        es_events_by_run := od_pop tid (es_events_by_run s),
        es_messages_by_run := od_pop tid (es_messages_by_run s),
        es_seq_counters := od_pop tid (es_seq_counters s)\<rparr>)"

text \<open>\<open>d.get(k, {}).pop(r, None)\<close> changes the inner dictionary only when there is one.\<close>

definition pop_at2 :: "string \<Rightarrow> string \<Rightarrow> (string \<times> (string \<times> 'e list) list) list \<Rightarrow>
    (string \<times> (string \<times> 'e list) list) list" where
  "pop_at2 k r d = (case map_of d k of None \<Rightarrow> d | Some inner \<Rightarrow> od_set k (od_pop r inner) d)"

definition delete_by_run :: "string \<Rightarrow> string \<Rightarrow> event_store \<Rightarrow> nat \<times> event_store" where
  "delete_by_run tid rid s =
     (let all_events = od_get_default (es_events s) tid []
      in if all_events = [] then (0, s)
         else (let remaining = filter (\<lambda>e. re_run_id e \<noteq> rid) all_events
               in (length all_events - length remaining,
                   s\<lparr>es_events := od_set tid remaining (es_events s),
                     es_messages := od_set tid (filter (\<lambda>e. re_category e = ''message'') remaining) (es_messages s),
                     es_events_by_run := pop_at2 tid rid (es_events_by_run s),
                     es_messages_by_run := pop_at2 tid rid (es_messages_by_run s)\<rparr>)))"

section \<open>Abstract view: one log per thread\<close>

definition thread_log :: "event_store \<Rightarrow> string \<Rightarrow> run_event list" where
  "thread_log s tid = od_get_default (es_events s) tid []"

definition last_seq :: "event_store \<Rightarrow> string \<Rightarrow> int" where
  "last_seq s tid = od_get_default (es_seq_counters s) tid 0"

definition is_message :: "run_event \<Rightarrow> bool" where
  "is_message e \<longleftrightarrow> re_category e = ''message''"

definition messages_of :: "event_store \<Rightarrow> string \<Rightarrow> run_event list" where
  "messages_of s tid = od_get_default (es_messages s) tid []"

definition run_events_of :: "event_store \<Rightarrow> string \<Rightarrow> string \<Rightarrow> run_event list" where
  "run_events_of s tid rid = od_get_default (od_get_default (es_events_by_run s) tid []) rid []"

definition run_messages_of :: "event_store \<Rightarrow> string \<Rightarrow> string \<Rightarrow> run_event list" where
  "run_messages_of s tid rid = od_get_default (od_get_default (es_messages_by_run s) tid []) rid []"

definition log_ok :: "int \<Rightarrow> run_event list \<Rightarrow> bool" where
  "log_ok c lg \<longleftrightarrow> sorted_wrt (<) (map re_seq lg) \<and> (\<forall>e \<in> set lg. 1 \<le> re_seq e \<and> re_seq e \<le> c)"

definition projections_ok :: "event_store \<Rightarrow> string \<Rightarrow> bool" where
  "projections_ok s tid \<longleftrightarrow>
     messages_of s tid = filter is_message (thread_log s tid)
     \<and> (\<forall>rid. run_events_of s tid rid = filter (\<lambda>e. re_run_id e = rid) (thread_log s tid))
     \<and> (\<forall>rid. run_messages_of s tid rid = filter (\<lambda>e. re_run_id e = rid \<and> is_message e) (thread_log s tid))"

definition es_ok :: "event_store \<Rightarrow> bool" where
  "es_ok s \<longleftrightarrow> (\<forall>tid. log_ok (last_seq s tid) (thread_log s tid) \<and> 0 \<le> last_seq s tid
     \<and> (\<forall>e \<in> set (thread_log s tid). re_thread_id e = tid) \<and> projections_ok s tid)"

lemmas es_views = thread_log_def last_seq_def messages_of_def run_events_of_def run_messages_of_def

lemma get_append_at: "od_get_default (append_at k x d) k' [] =
    (if k = k' then od_get_default d k [] @ [x] else od_get_default d k' [])"
  by (simp add: append_at_def od_get_default_set)

lemma get_append_at2: "od_get_default (od_get_default (append_at2 k r x d) k' []) r' [] =
    (if k = k' \<and> r = r' then od_get_default (od_get_default d k []) r [] @ [x]
     else od_get_default (od_get_default d k' []) r' [])"
  by (simp add: append_at2_def od_get_default_set get_append_at)

lemma get_pop_at2: "od_get_default (od_get_default (pop_at2 k r d) k' []) r' [] =
    (if k = k' \<and> r = r' then [] else od_get_default (od_get_default d k' []) r' [])"
  by (cases "map_of d k") (auto simp: pop_at2_def od_get_default_set od_get_default_pop, simp_all add: od_get_default_def)

text \<open>Each writer's effect on the views.\<close>

lemma put_one_views:
  assumes "put_one now_iso a s = (r, s')"
  shows "re_thread_id r = pa_thread_id a" "re_run_id r = pa_run_id a"
    "re_category r = pa_category a" "re_event_type r = pa_event_type a" "re_content r = pa_content a"
    "re_seq r = last_seq s (pa_thread_id a) + 1"
    "thread_log s' t = (if t = pa_thread_id a then thread_log s t @ [r] else thread_log s t)"
    "last_seq s' t = (if t = pa_thread_id a then last_seq s t + 1 else last_seq s t)"
    "messages_of s' t = (if t = pa_thread_id a \<and> is_message r then messages_of s t @ [r] else messages_of s t)"
    "run_events_of s' t rid = (if t = pa_thread_id a \<and> rid = pa_run_id a then run_events_of s t rid @ [r]
       else run_events_of s t rid)"
    "run_messages_of s' t rid = (if t = pa_thread_id a \<and> rid = pa_run_id a \<and> is_message r
       then run_messages_of s t rid @ [r] else run_messages_of s t rid)"
proof -
  have e: "r = fst (put_one now_iso a s)" "s' = snd (put_one now_iso a s)"
    using assms by simp_all
  note defs = put_one_def next_seq_def Let_def es_views is_message_def od_get_default_set
  show "re_thread_id r = pa_thread_id a" "re_run_id r = pa_run_id a"
    "re_category r = pa_category a" "re_event_type r = pa_event_type a" "re_content r = pa_content a"
    "re_seq r = last_seq s (pa_thread_id a) + 1"
    by (simp_all add: e defs)
  show "thread_log s' t = (if t = pa_thread_id a then thread_log s t @ [r] else thread_log s t)"
    "last_seq s' t = (if t = pa_thread_id a then last_seq s t + 1 else last_seq s t)"
    "messages_of s' t = (if t = pa_thread_id a \<and> is_message r then messages_of s t @ [r] else messages_of s t)"
    by (simp_all add: e defs get_append_at)
  show "run_events_of s' t rid = (if t = pa_thread_id a \<and> rid = pa_run_id a then run_events_of s t rid @ [r]
       else run_events_of s t rid)"
    by (simp add: e defs get_append_at2)
  show "run_messages_of s' t rid = (if t = pa_thread_id a \<and> rid = pa_run_id a \<and> is_message r
       then run_messages_of s t rid @ [r] else run_messages_of s t rid)"
    by (simp add: e defs get_append_at2)
qed

lemma log_ok_append:
  "log_ok c lg \<Longrightarrow> 0 \<le> c \<Longrightarrow> re_seq e = c + 1 \<Longrightarrow> log_ok (c + 1) (lg @ [e])"
  by (auto simp: log_ok_def sorted_wrt_append le_less_trans)

lemma put_one_ok:
  assumes "es_ok s" and "put_one now_iso a s = (r, s')"
  shows "es_ok s'"
  unfolding es_ok_def
proof (intro allI)
  fix t
  note v = put_one_views [OF assms(2)]
  have s: "log_ok (last_seq s t) (thread_log s t)" "0 \<le> last_seq s t"
      "\<forall>e \<in> set (thread_log s t). re_thread_id e = t" "projections_ok s t"
    using assms(1) by (simp_all add: es_ok_def)
  show "log_ok (last_seq s' t) (thread_log s' t) \<and> 0 \<le> last_seq s' t
     \<and> (\<forall>e \<in> set (thread_log s' t). re_thread_id e = t) \<and> projections_ok s' t"
  proof (cases "t = pa_thread_id a")
    case True
    with s v(1-6) show ?thesis
      by (auto simp: v(7-11) projections_ok_def intro: log_ok_append)
  next
    case False
    with s show ?thesis by (simp add: v(7-11) projections_ok_def)
  qed
qed

lemma put_batch_ok: "es_ok s \<Longrightarrow> es_ok (snd (es_put_batch evs s))"
proof (induction evs arbitrary: s)
  case Nil
  then show ?case by simp
next
  case (Cons ev evs)
  obtain now_iso a where ev: "ev = (now_iso, a)" by force
  obtain r s1 where p: "put_one now_iso a s = (r, s1)" by force
  obtain rs s2 where b: "es_put_batch evs s1 = (rs, s2)" by force
  have "es_ok s1" using Cons.prems p by (rule put_one_ok)
  with Cons.IH [of s1] show ?case by (simp add: ev p b)
qed

lemma delete_by_thread_ok: "es_ok s \<Longrightarrow> es_ok (snd (delete_by_thread tid s))"
  by (simp add: es_ok_def delete_by_thread_def projections_ok_def es_views od_get_default_pop log_ok_def)

lemma log_ok_filter: "log_ok c lg \<Longrightarrow> log_ok c (filter P lg)"
  by (auto simp: log_ok_def sorted_wrt_map intro: sorted_wrt_filter)

lemma delete_by_run_views:
  assumes "es_ok s"
  shows "thread_log (snd (delete_by_run tid rid s)) t =
      (if t = tid then filter (\<lambda>e. re_run_id e \<noteq> rid) (thread_log s t) else thread_log s t)"
    and "last_seq (snd (delete_by_run tid rid s)) t = last_seq s t"
    and "projections_ok (snd (delete_by_run tid rid s)) t"
proof -
  have p: "projections_ok s t" using assms by (simp add: es_ok_def)
  show "thread_log (snd (delete_by_run tid rid s)) t =
      (if t = tid then filter (\<lambda>e. re_run_id e \<noteq> rid) (thread_log s t) else thread_log s t)"
    and "last_seq (snd (delete_by_run tid rid s)) t = last_seq s t"
    by (auto simp: delete_by_run_def Let_def es_views od_get_default_set)
  show "projections_ok (snd (delete_by_run tid rid s)) t"
  proof (cases "t = tid \<and> thread_log s tid \<noteq> []")
    case True
    with p show ?thesis
      by (auto simp: delete_by_run_def Let_def projections_ok_def es_views od_get_default_set get_pop_at2
          is_message_def conj_commute intro!: filter_cong)
  next
    case False
    with p show ?thesis
      by (auto simp: delete_by_run_def Let_def projections_ok_def es_views od_get_default_set get_pop_at2)
  qed
qed

lemma delete_by_run_ok: "es_ok s \<Longrightarrow> es_ok (snd (delete_by_run tid rid s))"
  by (auto simp: es_ok_def delete_by_run_views intro: log_ok_filter)

section \<open>Histories\<close>

datatype es_op =
    OpPut string put_args
  | OpPutBatch "(string \<times> put_args) list"
  | OpDeleteThread string
  | OpDeleteRun string string

fun es_apply :: "es_op \<Rightarrow> event_store \<Rightarrow> event_store" where
  "es_apply (OpPut now_iso a) s = snd (es_put now_iso a s)"
| "es_apply (OpPutBatch evs) s = snd (es_put_batch evs s)"
| "es_apply (OpDeleteThread tid) s = snd (delete_by_thread tid s)"
| "es_apply (OpDeleteRun tid rid) s = snd (delete_by_run tid rid s)"

definition es_run :: "es_op list \<Rightarrow> event_store" where
  "es_run ops = fold es_apply ops es_init"

lemma es_apply_ok:
  assumes "es_ok s"
  shows "es_ok (es_apply op s)"
proof (cases op)
  case (OpPut now_iso a)
  obtain r s' where "put_one now_iso a s = (r, s')" by force
  with OpPut put_one_ok [OF assms] show ?thesis by (simp add: es_put_def)
qed (use assms put_batch_ok delete_by_thread_ok delete_by_run_ok in auto)

lemma es_init_ok: "es_ok es_init"
  by (simp add: es_ok_def es_init_def projections_ok_def es_views log_ok_def)

lemma es_run_ok: "es_ok (es_run ops)"
proof -
  have "es_ok s \<Longrightarrow> es_ok (fold es_apply ops s)" for s
    by (induction ops arbitrary: s) (simp_all add: es_apply_ok)
  then show ?thesis using es_init_ok by (simp add: es_run_def)
qed

section \<open>Cursor pagination\<close>

definition last_page :: "nat \<Rightarrow> 'e list \<Rightarrow> 'e list" where
  "last_page n xs = drop (length xs - n) xs"

lemma py_slice_last_page: "0 < n \<Longrightarrow> py_slice (Some (- int n)) None xs = last_page n xs"
  by (simp add: py_slice_last last_page_def)

text \<open>The contract of a log read backwards by \<open>before_seq\<close> cursors, and its client, which
  asks for the latest page and then for the page before the first event it holds.\<close>

fun walk_back :: "('c option \<Rightarrow> 'e list) \<Rightarrow> ('e \<Rightarrow> 'c) \<Rightarrow> nat \<Rightarrow> 'c option \<Rightarrow> 'e list" where
  "walk_back page seq 0 cursor = []"
| "walk_back page seq (Suc k) cursor =
     (case page cursor of
        [] \<Rightarrow> []
      | e # es \<Rightarrow> walk_back page seq k (Some (seq e)) @ e # es)"

locale paged_log =
  fixes ok :: "'s \<Rightarrow> bool"
    and whole :: "'s \<Rightarrow> 'e list"
    and seq :: "'e \<Rightarrow> int"
    and page :: "'s \<Rightarrow> nat \<Rightarrow> int option \<Rightarrow> 'e list"
  assumes increasing: "ok s \<Longrightarrow> sorted_wrt (\<lambda>x y. seq x < seq y) (whole s)"
    and page_before: "ok s \<Longrightarrow> 0 < n \<Longrightarrow>
      page s n (Some b) = last_page n (filter (\<lambda>e. seq e < b) (whole s))"
    and page_latest: "ok s \<Longrightarrow> 0 < n \<Longrightarrow> page s n None = last_page n (whole s)"
begin

definition below :: "'s \<Rightarrow> int option \<Rightarrow> 'e list" where
  "below s c = (case c of None \<Rightarrow> whole s | Some b \<Rightarrow> filter (\<lambda>e. seq e < b) (whole s))"

lemma page_below: "ok s \<Longrightarrow> 0 < n \<Longrightarrow> page s n c = last_page n (below s c)"
  by (cases c) (simp_all add: below_def page_before page_latest)

lemma below_increasing: "ok s \<Longrightarrow> sorted_wrt (\<lambda>x y. seq x < seq y) (below s c)"
  using increasing [of s] by (auto simp: below_def sorted_wrt_filter split: option.split)

lemma below_step:
  assumes "ok s" and split: "below s c = us @ e # vs"
  shows "below s (Some (seq e)) = us"
proof -
  have inc: "sorted_wrt (\<lambda>x y. seq x < seq y) (us @ e # vs)"
    using below_increasing [OF assms(1), of c] split by simp
  have "filter (\<lambda>x. seq x < seq e) (below s c) = us"
    using inc by (auto simp: split sorted_wrt_append filter_id_conv filter_empty_conv)
  moreover have "filter (\<lambda>x. seq x < seq e) (below s c) = below s (Some (seq e))"
  proof (cases c)
    case None
    then show ?thesis by (simp add: below_def)
  next
    case (Some b)
    have "e \<in> set (below s c)" by (simp add: split)
    with Some have "seq e < b" by (simp add: below_def)
    with Some show ?thesis by (auto simp: below_def intro!: filter_cong)
  qed
  ultimately show ?thesis by simp
qed

lemma walk_back_complete:
  assumes "ok s" and "0 < n" and "length (below s c) < fuel"
  shows "walk_back (page s n) seq fuel c = below s c"
  using assms(3)
proof (induction fuel arbitrary: c)
  case 0
  then show ?case by simp
next
  case (Suc k)
  show ?case
  proof (cases "page s n c")
    case Nil
    with page_below [OF assms(1,2), of c] assms(2) have "below s c = []"
      by (cases "below s c") (auto simp: last_page_def)
    with Nil show ?thesis by simp
  next
    case (Cons e es)
    let ?us = "take (length (below s c) - n) (below s c)"
    have split: "below s c = ?us @ e # es"
      using Cons page_below [OF assms(1,2)] by (metis append_take_drop_id last_page_def)
    then have us: "below s (Some (seq e)) = ?us" by (rule below_step [OF assms(1)])
    have "length ?us < length (below s c)" using split by (metis length_append length_Cons less_add_Suc1 add_Suc_right)
    with Suc.prems us have "walk_back (page s n) seq k (Some (seq e)) = ?us"
      using Suc.IH [of "Some (seq e)"] by simp
    with Cons split show ?thesis by simp
  qed
qed

lemma walk_back_whole:
  "ok s \<Longrightarrow> 0 < n \<Longrightarrow> length (whole s) < fuel \<Longrightarrow> walk_back (page s n) seq fuel None = whole s"
  using walk_back_complete [of s n None fuel] by (simp add: below_def)

end

definition seq_sorted :: "run_event list \<Rightarrow> bool" where
  "seq_sorted es \<longleftrightarrow> sorted_wrt (\<lambda>x y. re_seq x < re_seq y) es"

lemma seq_sorted_le: "seq_sorted es \<Longrightarrow> sorted_wrt (\<lambda>x y. re_seq x \<le> re_seq y) es"
  unfolding seq_sorted_def by (erule sorted_wrt_mono_rel [rotated]) simp

lemma log_seq_sorted: "log_ok c lg \<Longrightarrow> seq_sorted (filter P lg)"
  by (simp add: log_ok_def seq_sorted_def sorted_wrt_map sorted_wrt_filter)

lemma messages_sorted: "es_ok s \<Longrightarrow> seq_sorted (messages_of s tid)"
  by (auto simp: es_ok_def projections_ok_def intro: log_seq_sorted)

lemma run_messages_sorted: "es_ok s \<Longrightarrow> seq_sorted (run_messages_of s tid rid)"
  by (auto simp: es_ok_def projections_ok_def intro: log_seq_sorted)

lemma page_before_slice:
  assumes "seq_sorted es" and "b = int (bisect_left re_seq es x)"
  shows "py_slice (Some (max 0 (b - int n))) (Some b) es = last_page n (filter (\<lambda>e. re_seq e < x) es)"
proof -
  let ?k = "bisect_left re_seq es x"
  note bis = bisect_left_take [OF seq_sorted_le [OF assms(1)], of x]
  have "max 0 (b - int n) = int (?k - n)" using assms(2) by simp
  then have "py_slice (Some (max 0 (b - int n))) (Some b) es = drop (?k - n) (take ?k es)"
    by (simp only: assms(2) py_slice_range)
  also have "\<dots> = last_page n (take ?k es)" using bis(3) by (simp add: last_page_def min_absorb2)
  finally show ?thesis by (simp only: bis(1))
qed

lemma page_after_slice:
  assumes "seq_sorted es" and "a = int (bisect_right re_seq es x)"
  shows "py_slice (Some a) (Some (a + int n)) es = take n (filter (\<lambda>e. x < re_seq e) es)"
proof -
  let ?k = "bisect_left re_seq es (x + 1)"
  note bis = bisect_left_take [OF seq_sorted_le [OF assms(1)], of "x + 1"]
  have "py_slice (Some a) (Some (a + int n)) es = drop ?k (take (?k + n) es)"
    using py_slice_range [of ?k "?k + n" es] by (simp add: assms(2) bisect_right_left)
  also have "\<dots> = take n (drop ?k es)" by (simp add: take_drop add.commute)
  finally show ?thesis by (simp only: bis(2) add1_zle_eq)
qed

lemma window_slice:
  assumes "seq_sorted es"
  shows "py_slice (Some (case after_seq of None \<Rightarrow> 0 | Some a \<Rightarrow> int (bisect_right re_seq es a)))
      (Some (case before_seq of None \<Rightarrow> int (length es) | Some b \<Rightarrow> int (bisect_left re_seq es b))) es =
    filter (\<lambda>e. (case after_seq of None \<Rightarrow> True | Some a \<Rightarrow> a < re_seq e)
      \<and> (case before_seq of None \<Rightarrow> True | Some b \<Rightarrow> re_seq e < b)) es"
proof -
  let ?l = "case after_seq of None \<Rightarrow> 0 | Some a \<Rightarrow> bisect_right re_seq es a"
  let ?h = "case before_seq of None \<Rightarrow> length es | Some b \<Rightarrow> bisect_left re_seq es b"
  note le = seq_sorted_le [OF assms]
  have low: "drop ?l xs = filter (\<lambda>e. case after_seq of None \<Rightarrow> True | Some a \<Rightarrow> a < re_seq e) xs"
    if "xs = take ?h es" for xs
  proof (cases after_seq)
    case None
    then show ?thesis by simp
  next
    case (Some a)
    have bis: "drop (bisect_right re_seq es a) es = filter (\<lambda>e. a < re_seq e) es"
        "take (bisect_right re_seq es a) es = filter (\<lambda>e. \<not> a < re_seq e) es"
      using bisect_left_take [OF le, of "a + 1"] by (simp_all add: bisect_right_left add1_zle_eq not_less)
    have split: "es = filter (\<lambda>e. \<not> a < re_seq e) es @ filter (\<lambda>e. a < re_seq e) es"
      using bis by (metis append_take_drop_id)
    define k where "k = bisect_right re_seq es a"
    have "drop k (take ?h es) = filter (\<lambda>e. a < re_seq e) (take ?h es)"
    proof (cases "?h \<le> k")
      case True
      then have "set (take ?h es) \<subseteq> set (take k es)" by (simp add: set_take_subset_set_take)
      then have "filter (\<lambda>e. a < re_seq e) (take ?h es) = []"
        using bis(2) by (auto simp: filter_empty_conv k_def)
      with True show ?thesis by simp
    next
      case False
      then have "take ?h es = take k es @ take (?h - k) (drop k es)"
        by (metis le_add_diff_inverse nat_le_linear take_add)
      moreover have "filter (\<lambda>e. a < re_seq e) (take k es) = []"
        using bis(2) by (simp add: k_def)
      moreover have "filter (\<lambda>e. a < re_seq e) (take (?h - k) (drop k es)) = take (?h - k) (drop k es)"
        using bis(1) by (auto simp: k_def filter_id_conv dest: in_set_takeD)
      moreover have "length (take k es) = k"
        using bisect_left_take(3) [OF le, of "a + 1"] by (simp add: k_def bisect_right_left)
      ultimately show ?thesis by simp
    qed
    then show ?thesis by (simp add: Some that k_def)
  qed
  have bounds: "(case after_seq of None \<Rightarrow> 0 | Some a \<Rightarrow> int (bisect_right re_seq es a)) = int ?l"
      "(case before_seq of None \<Rightarrow> int (length es) | Some b \<Rightarrow> int (bisect_left re_seq es b)) = int ?h"
    by (simp_all split: option.split)
  have "take ?h es = filter (\<lambda>e. case before_seq of None \<Rightarrow> True | Some b \<Rightarrow> re_seq e < b) es"
    using bisect_left_take(1) [OF le] by (simp split: option.split)
  with low [OF refl] show ?thesis by (simp only: bounds py_slice_range filter_filter)
    (rule filter_cong [OF refl], blast)
qed

lemma list_messages_before:
  "es_ok s \<Longrightarrow> list_messages tid (int n) (Some b) after_seq s =
    last_page n (filter (\<lambda>e. re_seq e < b) (messages_of s tid))"
  using page_before_slice [OF messages_sorted refl]
  by (simp add: list_messages_def messages_of_def Let_def)

lemma list_messages_after:
  "es_ok s \<Longrightarrow> list_messages tid (int n) None (Some a) s = take n (filter (\<lambda>e. a < re_seq e) (messages_of s tid))"
  using page_after_slice [OF messages_sorted refl]
  by (simp add: list_messages_def messages_of_def Let_def)

lemma list_messages_latest:
  "0 < n \<Longrightarrow> list_messages tid (int n) None None s = last_page n (messages_of s tid)"
  by (simp add: list_messages_def messages_of_def py_slice_last_page)

lemma list_messages_by_run_window:
  assumes "es_ok s" and "0 < n"
  shows "list_messages_by_run tid rid (int n) before_seq after_seq s =
    (let window = filter (\<lambda>e. (case after_seq of None \<Rightarrow> True | Some a \<Rightarrow> a < re_seq e)
        \<and> (case before_seq of None \<Rightarrow> True | Some b \<Rightarrow> re_seq e < b)) (run_messages_of s tid rid)
     in if after_seq \<noteq> None then take n window else last_page n window)"
  by (simp only: list_messages_by_run_def Let_def run_messages_of_def [symmetric]
      window_slice [OF run_messages_sorted [OF assms(1)]] py_slice_last_page [OF assms(2)] py_slice_first)

interpretation tm: paged_log es_ok "\<lambda>s. messages_of s tid" re_seq
    "\<lambda>s n c. list_messages tid (int n) c None s" for tid
  by unfold_locales
    (simp_all add: messages_sorted [unfolded seq_sorted_def] list_messages_before list_messages_latest)

interpretation rm_log: paged_log es_ok "\<lambda>s. run_messages_of s tid rid" re_seq
    "\<lambda>s n c. list_messages_by_run tid rid (int n) c None s" for tid rid
  by unfold_locales
    (simp_all add: run_messages_sorted [unfolded seq_sorted_def] list_messages_by_run_window Let_def)

section \<open>Properties\<close>

text \<open>C5. After any history of puts, batches and deletions, each thread's log is strictly
  increasing in \<open>seq\<close> and bounded by the thread's counter, and the three projections are
  exactly the log filtered: messages, events of a run, and messages of a run.\<close>

theorem event_projections_in_step:
  "let s = es_run ops; lg = thread_log s tid
   in sorted_wrt (<) (map re_seq lg) \<and> (\<forall>e \<in> set lg. 1 \<le> re_seq e \<and> re_seq e \<le> last_seq s tid \<and> re_thread_id e = tid)
    \<and> messages_of s tid = filter is_message lg
    \<and> run_events_of s tid rid = filter (\<lambda>e. re_run_id e = rid) lg
    \<and> run_messages_of s tid rid = filter (\<lambda>e. re_run_id e = rid \<and> is_message e) lg"
  using es_run_ok [of ops] by (simp add: Let_def es_ok_def projections_ok_def log_ok_def)

definition demo_put :: "string \<Rightarrow> string \<Rightarrow> put_args" where
  "demo_put rid cat = \<lparr>pa_thread_id = ''t'', pa_run_id = rid, pa_event_type = ''llm.ai.response'',
     pa_category = cat, pa_content = PStr ''x'', pa_metadata = None, pa_created_at = None\<rparr>"

definition demo_event_history :: "es_op list" where
  "demo_event_history = [OpPut ''2026-01-01'' (demo_put ''r1'' ''message''),
     OpPutBatch [(''2026-01-01'', demo_put ''r1'' ''trace''), (''2026-01-02'', demo_put ''r2'' ''message'')],
     OpPut ''2026-01-03'' (demo_put ''r3'' ''message''), OpDeleteRun ''t'' ''r2'']"

text \<open>The log of the demonstration history, by sequence number.\<close>

lemma demo_event_history_log:
  "map re_seq (thread_log (es_run demo_event_history) ''t'') = [1, 2, 4]"
  "map re_seq (messages_of (es_run demo_event_history) ''t'') = [1, 4]"
  "map re_seq (run_messages_of (es_run demo_event_history) ''t'' ''r1'') = [1]"
  by (simp_all add: demo_event_history_def demo_put_def es_run_def es_init_def es_put_def put_one_def
      next_seq_def append_at_def append_at2_def delete_by_run_def pop_at2_def es_views od_pop_def
      od_get_default_def Let_def)

theorem event_projections_in_step_witness:
  "sorted_wrt (<) (map re_seq (thread_log (es_run demo_event_history) ''t''))
   \<and> map re_seq (filter is_message (thread_log (es_run demo_event_history) ''t'')) = [1, 4]"
  using event_projections_in_step [of demo_event_history "''t''"] demo_event_history_log
  by (simp add: Let_def)

text \<open>C6. The bisected message reads return what filtering the log by the cursor would: with a
  positive limit, \<open>before_seq\<close> yields the last page below the cursor, \<open>after_seq\<close> the first page
  above it and no cursor the latest page, for a thread (where \<open>before_seq\<close> wins over
  \<open>after_seq\<close>) and for a run (where both bound the window).\<close>

theorem message_pages_are_filters:
  assumes "0 < n"
  shows "let s = es_run ops; ms = filter is_message (thread_log s tid);
             rs = filter (\<lambda>e. re_run_id e = rid) ms
         in list_messages tid (int n) before_seq after_seq s =
              (case before_seq of
                 Some b \<Rightarrow> last_page n (filter (\<lambda>e. re_seq e < b) ms)
               | None \<Rightarrow> (case after_seq of Some a \<Rightarrow> take n (filter (\<lambda>e. a < re_seq e) ms)
                          | None \<Rightarrow> last_page n ms))
            \<and> list_messages_by_run tid rid (int n) before_seq after_seq s =
              (let window = filter (\<lambda>e. (case after_seq of None \<Rightarrow> True | Some a \<Rightarrow> a < re_seq e)
                  \<and> (case before_seq of None \<Rightarrow> True | Some b \<Rightarrow> re_seq e < b)) rs
               in if after_seq \<noteq> None then take n window else last_page n window)"
proof -
  let ?s = "es_run ops"
  have ok: "es_ok ?s" by (rule es_run_ok)
  have ms: "messages_of ?s tid = filter is_message (thread_log ?s tid)"
    and rs: "run_messages_of ?s tid rid = filter (\<lambda>e. re_run_id e = rid) (messages_of ?s tid)"
    using ok by (simp_all add: es_ok_def projections_ok_def conj_commute)
  have "list_messages tid (int n) before_seq after_seq ?s =
      (case before_seq of
         Some b \<Rightarrow> last_page n (filter (\<lambda>e. re_seq e < b) (messages_of ?s tid))
       | None \<Rightarrow> (case after_seq of Some a \<Rightarrow> take n (filter (\<lambda>e. a < re_seq e) (messages_of ?s tid))
                  | None \<Rightarrow> last_page n (messages_of ?s tid)))"
    using list_messages_before [OF ok] list_messages_after [OF ok] list_messages_latest [OF assms]
    by (simp split: option.split)
  then show ?thesis
    unfolding Let_def ms [symmetric] rs [symmetric]
    by (rule conjI) (rule list_messages_by_run_window [OF ok assms, unfolded Let_def])
qed

theorem message_pages_are_filters_witness:
  "map re_seq (list_messages ''t'' 1 (Some 4) None (es_run demo_event_history)) = [1]"
proof -
  let ?ms = "messages_of (es_run demo_event_history) ''t''"
  have "map re_seq (filter (\<lambda>e. re_seq e < 4) ?ms) = filter (\<lambda>k. k < 4) (map re_seq ?ms)"
    by (simp add: filter_map comp_def)
  then have one: "map re_seq (filter (\<lambda>e. re_seq e < 4) ?ms) = [1]"
    by (simp add: demo_event_history_log)
  then have "length (filter (\<lambda>e. re_seq e < 4) ?ms) = 1" by (metis length_map length_Cons list.size(3) One_nat_def)
  moreover have "?ms = filter is_message (thread_log (es_run demo_event_history) ''t'')"
    using es_run_ok by (simp add: es_ok_def projections_ok_def)
  ultimately show ?thesis
    using message_pages_are_filters [where n = 1 and tid = "''t''" and before_seq = "Some 4" and after_seq = None
        and ops = demo_event_history] one
    by (simp add: Let_def last_page_def)
qed

text \<open>A client that reads the latest page of a thread or of a run and keeps asking for the
  page before the first event it holds collects every message, once and in order.\<close>

lemma backward_walk_collects_all:
  assumes "0 < n" and "length (thread_log (es_run ops) tid) < fuel"
  shows "walk_back (\<lambda>c. list_messages tid (int n) c None (es_run ops)) re_seq fuel None =
      filter is_message (thread_log (es_run ops) tid)
    \<and> walk_back (\<lambda>c. list_messages_by_run tid rid (int n) c None (es_run ops)) re_seq fuel None =
      filter (\<lambda>e. re_run_id e = rid \<and> is_message e) (thread_log (es_run ops) tid)"
proof -
  have ok: "es_ok (es_run ops)" by (rule es_run_ok)
  then have views: "messages_of (es_run ops) tid = filter is_message (thread_log (es_run ops) tid)"
      "run_messages_of (es_run ops) tid rid = filter (\<lambda>e. re_run_id e = rid \<and> is_message e) (thread_log (es_run ops) tid)"
    by (simp_all add: es_ok_def projections_ok_def)
  have "length (filter P (thread_log (es_run ops) tid)) < fuel" for P
    using assms(2) length_filter_le le_less_trans by blast
  then show ?thesis
    using tm.walk_back_whole [OF ok assms(1)] rm_log.walk_back_whole [OF ok assms(1)]
    by (simp add: views)
qed

end
