(* ===== verification/ActionDocs.thy ===== *)
theory ActionDocs
  imports PyText
begin

text \<open>
  The documents of the action journal (\<open>actions/models.py\<close> and the first half of
  \<open>actions/store.py\<close>): normalisation of caller input, validation of what is read back from
  disk, and the projection of a start record and an outcome to the public action.

  A file holds the Python value its JSON text denotes; \<open>PDict\<close> keeps the order of the keys,
  which nothing below depends on.  Three library functions are parameters, the fields of
  \<open>doc_env\<close>: the length of the JSON text of a value, and the ISO 8601 text of a UTC instant
  with its parser, which says whether a text carries a time zone.
\<close>

section \<open>Parameters, errors and constants\<close>

datatype stamp = Aware int | Naive int

record doc_env =
  json_len :: "pyval \<Rightarrow> nat"
  iso_text :: "int \<Rightarrow> string"
  iso_parse :: "string \<Rightarrow> stamp option"

datatype action_error =
    StoreError string
  | NotFound string
  | Conflict string
  | Integrity string
  | PyTypeError

definition max_document_bytes :: nat where "max_document_bytes = 128 * 1024"
definition max_metadata_bytes :: nat where "max_metadata_bytes = 32 * 1024"
definition max_references :: nat where "max_references = 100"
definition max_reference_value_length :: nat where "max_reference_value_length = 512"
definition max_error_message_length :: nat where "max_error_message_length = 2000"

definition action_schema :: string where "action_schema = ''vassilflow.action.v1''"
definition start_schema :: string where "start_schema = ''vassilflow.action.start.v1''"
definition outcome_schema :: string where "outcome_schema = ''vassilflow.action.outcome.v1''"
definition lease_schema :: string where "lease_schema = ''vassilflow.action.lease.v1''"
definition claim_schema :: string where "claim_schema = ''vassilflow.action.repair_claim.v1''"

definition action_statuses :: "string list" where
  "action_statuses = [''running'', ''succeeded'', ''rejected'', ''failed'', ''partial'']"

definition terminal_statuses :: "string list" where
  "terminal_statuses = filter (\<lambda>s. s \<noteq> ''running'') action_statuses"

definition action_sources :: "string list" where
  "action_sources = [''agent_run'', ''user_api'']"

definition unsuccessful :: "string list" where
  "unsuccessful = [''failed'', ''rejected'', ''partial'']"

section \<open>Patterns\<close>

definition is_lower :: "char \<Rightarrow> bool" where
  "is_lower c \<longleftrightarrow> 97 \<le> (of_char c :: nat) \<and> (of_char c :: nat) \<le> 122"

definition is_upper :: "char \<Rightarrow> bool" where
  "is_upper c \<longleftrightarrow> 65 \<le> (of_char c :: nat) \<and> (of_char c :: nat) \<le> 90"

definition is_hex :: "char \<Rightarrow> bool" where
  "is_hex c \<longleftrightarrow> is_digit c \<or> 97 \<le> (of_char c :: nat) \<and> (of_char c :: nat) \<le> 102"

definition is_name_char :: "char \<Rightarrow> bool" where
  "is_name_char c \<longleftrightarrow> is_lower c \<or> is_digit c \<or> c \<in> set ''_.-''"

definition tagged_hex :: "string \<Rightarrow> string \<Rightarrow> bool" where
  "tagged_hex tag s \<longleftrightarrow>
     take 4 s = tag \<and> length s = 36 \<and> list_all is_hex (drop 4 s)"

definition action_id_re :: "string \<Rightarrow> bool" where "action_id_re = tagged_hex ''act_''"
definition lease_id_re :: "string \<Rightarrow> bool" where "lease_id_re = tagged_hex ''acl_''"
definition claim_id_re :: "string \<Rightarrow> bool" where "claim_id_re = tagged_hex ''arc_''"

definition dotted_name :: "nat \<Rightarrow> string \<Rightarrow> bool" where
  "dotted_name extra s \<longleftrightarrow>
     (case s of [] \<Rightarrow> False | c # t \<Rightarrow> is_lower c \<and> length t \<le> extra \<and> list_all is_name_char t)"

definition operation_re :: "string \<Rightarrow> bool" where "operation_re = dotted_name 127"
definition reference_kind_re :: "string \<Rightarrow> bool" where "reference_kind_re = dotted_name 63"

definition owner_id_re :: "string \<Rightarrow> bool" where
  "owner_id_re s \<longleftrightarrow> 1 \<le> length s \<and> length s \<le> 256
     \<and> list_all (\<lambda>c. is_lower c \<or> is_upper c \<or> is_digit c \<or> c \<in> set ''_-'') s"

definition sha256_re :: "string \<Rightarrow> bool" where
  "sha256_re s \<longleftrightarrow> length s = 64 \<and> list_all is_hex s"

section \<open>Normalisation\<close>

definition validate_id :: "(string \<Rightarrow> bool) \<Rightarrow> string \<Rightarrow> pyval \<Rightarrow> action_error + string" where
  "validate_id re msg v =
     (case v of PStr s \<Rightarrow> if re s then Inr s else Inl (StoreError msg) | _ \<Rightarrow> Inl (StoreError msg))"

definition validate_action_id :: "pyval \<Rightarrow> action_error + string" where
  "validate_action_id = validate_id action_id_re ''Action ID is invalid''"

definition validate_lease_id :: "pyval \<Rightarrow> action_error + string" where
  "validate_lease_id = validate_id lease_id_re ''Action lease ID is invalid''"

definition validate_repair_claim_id :: "pyval \<Rightarrow> action_error + string" where
  "validate_repair_claim_id = validate_id claim_id_re ''Action repair claim ID is invalid''"

definition normalize_owner_id :: "pyval \<Rightarrow> action_error + string" where
  "normalize_owner_id = validate_id owner_id_re ''Action owner ID is invalid''"

definition normalize_operation :: "pyval \<Rightarrow> action_error + string" where
  "normalize_operation = validate_id operation_re ''Action operation is invalid''"

definition bounded_text :: "string \<Rightarrow> nat \<Rightarrow> pyval \<Rightarrow> action_error + string option" where
  "bounded_text field_name maximum v =
     (case v of
        PNone \<Rightarrow> Inr None
      | PStr s \<Rightarrow>
          (let normalized = str_strip s
           in if normalized = '''' \<or> length normalized > maximum \<or> CHR 0x00 \<in> set normalized
              then Inl (StoreError (field_name @ '' is invalid'')) else Inr (Some normalized))
      | _ \<Rightarrow> Inl (StoreError (field_name @ '' must be a string'')))"

text \<open>Dictionary access: \<open>d.get(k)\<close>, and the comparison of \<open>set(d)\<close> with a set of names.\<close>

definition get_key :: "(pyval \<times> pyval) list \<Rightarrow> string \<Rightarrow> pyval" where
  "get_key d k = (case map_of d (PStr k) of None \<Rightarrow> PNone | Some v \<Rightarrow> v)"

definition keys_are :: "(pyval \<times> pyval) list \<Rightarrow> string list \<Rightarrow> bool" where
  "keys_are d ks \<longleftrightarrow> set (map fst d) = PStr ` set ks"

record reference =
  rf_kind :: string
  rf_id :: string
  rf_role :: "string option"

definition normalize_reference :: "pyval \<Rightarrow> action_error + reference" where
  "normalize_reference v =
     (case v of
        PDict d \<Rightarrow>
          rbind (check (\<forall>k \<in> set (map fst d). k \<in> PStr ` {''kind'', ''id'', ''role''})
                   (StoreError ''Action reference contains unsupported fields'')) (\<lambda>_.
          rbind (validate_id reference_kind_re ''Action reference kind is invalid'' (get_key d ''kind'')) (\<lambda>kind.
          rbind (bounded_text ''Action reference ID'' max_reference_value_length (get_key d ''id'')) (\<lambda>rid.
            (case rid of
               None \<Rightarrow> Inl (StoreError ''Action reference ID is required'')
             | Some i \<Rightarrow>
                 rbind (bounded_text ''Action reference role'' 64 (get_key d ''role'')) (\<lambda>role.
                   Inr \<lparr>rf_kind = kind, rf_id = i, rf_role = role\<rparr>)))))
      | _ \<Rightarrow> Inl (StoreError ''Action reference must be an object''))"

text \<open>The identity \<open>(kind, id, role)\<close> is all of a reference, so \<open>seen\<close> is a list of references.\<close>

definition add_reference :: "reference \<Rightarrow> reference list \<Rightarrow> reference list" where
  "add_reference r acc = (if r \<in> set acc then acc else acc @ [r])"

fun collect_references :: "reference list \<Rightarrow> pyval list \<Rightarrow> action_error + reference list" where
  "collect_references acc [] = Inr acc"
| "collect_references acc (v # vs) =
     rbind (normalize_reference v) (\<lambda>r.
       collect_references (add_reference r acc) vs)"

definition normalize_references :: "pyval \<Rightarrow> action_error + reference list" where
  "normalize_references v =
     (case v of
        PNone \<Rightarrow> Inr []
      | PList vs \<Rightarrow>
          if length vs > max_references then Inl (StoreError ''Action references exceed the storage limit'')
          else collect_references [] vs
      | _ \<Rightarrow> Inl (StoreError ''Action references must be a list''))"

record artifact =
  ar_sha256 :: string
  ar_size :: int

definition normalize_artifact :: "string \<Rightarrow> pyval \<Rightarrow> action_error + artifact option" where
  "normalize_artifact field_name v =
     (case v of
        PNone \<Rightarrow> Inr None
      | PDict d \<Rightarrow>
          if \<not> keys_are d [''sha256'', ''size_bytes'']
          then Inl (StoreError (field_name @ '' must contain sha256 and size_bytes''))
          else (case (get_key d ''sha256'', get_key d ''size_bytes'') of
                  (PStr h, PInt n) \<Rightarrow>
                    if sha256_re h \<and> 0 \<le> n then Inr (Some \<lparr>ar_sha256 = h, ar_size = n\<rparr>)
                    else Inl (StoreError (field_name @ '' is invalid''))
                | _ \<Rightarrow> Inl (StoreError (field_name @ '' is invalid'')))
      | _ \<Rightarrow> Inl (StoreError (field_name @ '' must contain sha256 and size_bytes'')))"

record error_info =
  ei_type :: string
  ei_message :: string

definition normalize_error :: "pyval \<Rightarrow> action_error + error_info option" where
  "normalize_error v =
     (case v of
        PNone \<Rightarrow> Inr None
      | PDict d \<Rightarrow>
          if \<not> keys_are d [''type'', ''message'']
          then Inl (StoreError ''Action error must contain type and message'')
          else rbind (bounded_text ''Action error type'' 128 (get_key d ''type'')) (\<lambda>t.
               rbind (bounded_text ''Action error message'' max_error_message_length (get_key d ''message'')) (\<lambda>m.
                 (case (t, m) of
                    (Some t', Some m') \<Rightarrow> Inr (Some \<lparr>ei_type = t', ei_message = m'\<rparr>)
                  | _ \<Rightarrow> Inl (StoreError ''Action error is invalid''))))
      | _ \<Rightarrow> Inl (StoreError ''Action error must contain type and message''))"

definition metadata_key :: "pyval \<Rightarrow> bool" where
  "metadata_key k = (case k of PStr s \<Rightarrow> s \<noteq> '''' \<and> length s \<le> 128 \<and> CHR 0x00 \<notin> set s | _ \<Rightarrow> False)"

fun normalize_json_value :: "nat \<Rightarrow> pyval \<Rightarrow> action_error + pyval"
  and normalize_items :: "nat \<Rightarrow> (pyval \<times> pyval) list \<Rightarrow> action_error + (pyval \<times> pyval) list"
  and normalize_elems :: "nat \<Rightarrow> pyval list \<Rightarrow> action_error + pyval list" where
  "normalize_json_value depth v =
     (if depth > 8 then Inl (StoreError ''Action metadata nesting exceeds the storage limit'')
      else case v of
        PNone \<Rightarrow> Inr v
      | PStr _ \<Rightarrow> Inr v
      | PBool _ \<Rightarrow> Inr v
      | PInt _ \<Rightarrow> Inr v
      | PFloat f \<Rightarrow> (case f of Finite _ \<Rightarrow> Inr v
                     | _ \<Rightarrow> Inl (StoreError ''Action metadata contains a non-finite number''))
      | PList xs \<Rightarrow> if length xs > 500 then Inl (StoreError ''Action metadata list exceeds the storage limit'')
                    else rbind (normalize_elems (depth + 1) xs) (\<lambda>ys. Inr (PList ys))
      | PDict d \<Rightarrow> if length d > 200 then Inl (StoreError ''Action metadata object exceeds the storage limit'')
                    else rbind (normalize_items (depth + 1) d) (\<lambda>e. Inr (PDict e))
      | POther _ \<Rightarrow> Inl (StoreError ''Action metadata must be JSON-compatible''))"
| "normalize_items depth [] = Inr []"
| "normalize_items depth ((k, v) # d) =
     rbind (check (metadata_key k) (StoreError ''Action metadata key is invalid'')) (\<lambda>_.
     rbind (normalize_json_value depth v) (\<lambda>w.
     rbind (normalize_items depth d) (\<lambda>e. Inr ((k, w) # e))))"
| "normalize_elems depth [] = Inr []"
| "normalize_elems depth (x # xs) =
     rbind (normalize_json_value depth x) (\<lambda>y.
     rbind (normalize_elems depth xs) (\<lambda>ys. Inr (y # ys)))"

definition normalize_metadata :: "doc_env \<Rightarrow> pyval \<Rightarrow> action_error + (pyval \<times> pyval) list" where
  "normalize_metadata env v =
     (case v of
        PNone \<Rightarrow> Inr []
      | PDict _ \<Rightarrow>
          rbind (normalize_json_value 0 v) (\<lambda>w.
            if json_len env w > max_metadata_bytes
            then Inl (StoreError ''Action metadata exceeds the storage limit'')
            else (case w of PDict e \<Rightarrow> Inr e | _ \<Rightarrow> Inr []))
      | _ \<Rightarrow> Inl (StoreError ''Action metadata must be an object''))"

text \<open>\<open>_json_bytes\<close> on a document of JSON values: only its size can be refused.\<close>

definition json_bytes :: "doc_env \<Rightarrow> pyval \<Rightarrow> action_error + pyval" where
  "json_bytes env v =
     (if json_len env v > max_document_bytes
      then Inl (StoreError ''Action metadata exceeds the storage limit'') else Inr v)"

section \<open>Documents\<close>

record action_start =
  as_action_id :: string
  as_owner :: string
  as_operation :: string
  as_source :: string
  as_assistant :: "string option"
  as_thread :: "string option"
  as_run :: "string option"
  as_references :: "reference list"
  as_started_at :: string
  as_metadata :: "(pyval \<times> pyval) list"

record action_outcome =
  ao_action_id :: string
  ao_status :: string
  ao_completed_at :: string
  ao_references :: "reference list"
  ao_before :: "artifact option"
  ao_after :: "artifact option"
  ao_evidence :: "reference list"
  ao_error :: "error_info option"
  ao_metadata :: "(pyval \<times> pyval) list"

text \<open>A lease and a repair claim: an owner token with the texts of its two instants.\<close>

record hold =
  hd_action_id :: string
  hd_token :: string
  hd_since :: string
  hd_expires_at :: string

definition opt_str :: "string option \<Rightarrow> pyval" where
  "opt_str v = (case v of None \<Rightarrow> PNone | Some s \<Rightarrow> PStr s)"

definition reference_json :: "reference \<Rightarrow> pyval" where
  "reference_json r = PDict ([(PStr ''kind'', PStr (rf_kind r)), (PStr ''id'', PStr (rf_id r))]
     @ (case rf_role r of None \<Rightarrow> [] | Some x \<Rightarrow> [(PStr ''role'', PStr x)]))"

definition references_json :: "reference list \<Rightarrow> pyval" where
  "references_json rs = PList (map reference_json rs)"

definition artifact_json :: "artifact option \<Rightarrow> pyval" where
  "artifact_json v = (case v of None \<Rightarrow> PNone
     | Some a \<Rightarrow> PDict [(PStr ''sha256'', PStr (ar_sha256 a)), (PStr ''size_bytes'', PInt (ar_size a))])"

definition error_json :: "error_info option \<Rightarrow> pyval" where
  "error_json v = (case v of None \<Rightarrow> PNone
     | Some e \<Rightarrow> PDict [(PStr ''type'', PStr (ei_type e)), (PStr ''message'', PStr (ei_message e))])"

definition start_json :: "action_start \<Rightarrow> pyval" where
  "start_json s = PDict
     [(PStr ''schema'', PStr start_schema), (PStr ''action_id'', PStr (as_action_id s)),
      (PStr ''owner_user_id'', PStr (as_owner s)), (PStr ''operation'', PStr (as_operation s)),
      (PStr ''source'', PStr (as_source s)), (PStr ''assistant_id'', opt_str (as_assistant s)),
      (PStr ''thread_id'', opt_str (as_thread s)), (PStr ''run_id'', opt_str (as_run s)),
      (PStr ''references'', references_json (as_references s)),
      (PStr ''started_at'', PStr (as_started_at s)), (PStr ''metadata'', PDict (as_metadata s))]"

definition outcome_json :: "action_outcome \<Rightarrow> pyval" where
  "outcome_json u = PDict
     [(PStr ''schema'', PStr outcome_schema), (PStr ''action_id'', PStr (ao_action_id u)),
      (PStr ''status'', PStr (ao_status u)), (PStr ''completed_at'', PStr (ao_completed_at u)),
      (PStr ''references'', references_json (ao_references u)),
      (PStr ''before_artifact'', artifact_json (ao_before u)),
      (PStr ''after_artifact'', artifact_json (ao_after u)),
      (PStr ''evidence'', references_json (ao_evidence u)), (PStr ''error'', error_json (ao_error u)),
      (PStr ''metadata'', PDict (ao_metadata u))]"

definition lease_json :: "hold \<Rightarrow> pyval" where
  "lease_json h = PDict
     [(PStr ''schema'', PStr lease_schema), (PStr ''action_id'', PStr (hd_action_id h)),
      (PStr ''lease_id'', PStr (hd_token h)), (PStr ''renewed_at'', PStr (hd_since h)),
      (PStr ''expires_at'', PStr (hd_expires_at h))]"

definition claim_json :: "hold \<Rightarrow> pyval" where
  "claim_json h = PDict
     [(PStr ''schema'', PStr claim_schema), (PStr ''action_id'', PStr (hd_action_id h)),
      (PStr ''claim_id'', PStr (hd_token h)), (PStr ''claimed_at'', PStr (hd_since h)),
      (PStr ''expires_at'', PStr (hd_expires_at h))]"

section \<open>Validation of what was read\<close>

text \<open>
  \<open>except ActionStoreError\<close>: every store error inside becomes an integrity error. The test
  \<open>x not in FROZENSET\<close> raises \<open>TypeError\<close>, which is not caught, when \<open>x\<close> is not hashable.
\<close>

definition reraise :: "string \<Rightarrow> action_error + 'a \<Rightarrow> action_error + 'a" where
  "reraise msg r = (case r of Inl PyTypeError \<Rightarrow> r | Inl _ \<Rightarrow> Inl (Integrity msg) | Inr _ \<Rightarrow> r)"

definition member_of :: "string list \<Rightarrow> string \<Rightarrow> pyval \<Rightarrow> action_error + string" where
  "member_of names msg v =
     (case v of
        PStr s \<Rightarrow> if s \<in> set names then Inr s else Inl (StoreError msg)
      | PList _ \<Rightarrow> Inl PyTypeError
      | PDict _ \<Rightarrow> Inl PyTypeError
      | _ \<Rightarrow> Inl (StoreError msg))"

definition start_keys :: "string list" where
  "start_keys = [''schema'', ''action_id'', ''owner_user_id'', ''operation'', ''source'', ''assistant_id'',
     ''thread_id'', ''run_id'', ''references'', ''started_at'', ''metadata'']"

definition start_fields :: "doc_env \<Rightarrow> (pyval \<times> pyval) list \<Rightarrow>
    action_error + (action_start \<times> string option)" where
  "start_fields env d =
     rbind (validate_action_id (get_key d ''action_id'')) (\<lambda>aid.
     rbind (normalize_owner_id (get_key d ''owner_user_id'')) (\<lambda>own.
     rbind (normalize_operation (get_key d ''operation'')) (\<lambda>opn.
     rbind (member_of action_sources ''Action source is invalid'' (get_key d ''source'')) (\<lambda>src.
     rbind (bounded_text ''Action assistant ID'' 128 (get_key d ''assistant_id'')) (\<lambda>asst.
     rbind (bounded_text ''Action thread ID'' max_reference_value_length (get_key d ''thread_id'')) (\<lambda>thr.
     rbind (bounded_text ''Action run ID'' max_reference_value_length (get_key d ''run_id'')) (\<lambda>rn.
     rbind (normalize_references (get_key d ''references'')) (\<lambda>refs.
     rbind (bounded_text ''Action start timestamp'' 64 (get_key d ''started_at'')) (\<lambda>st.
     rbind (normalize_metadata env (get_key d ''metadata'')) (\<lambda>meta.
       Inr (\<lparr>as_action_id = aid, as_owner = own, as_operation = opn, as_source = src, as_assistant = asst,
              as_thread = thr, as_run = rn, as_references = refs,
              as_started_at = (case st of None \<Rightarrow> '''' | Some t \<Rightarrow> t), as_metadata = meta\<rparr>, st)))))))))))"

definition check_start :: "doc_env \<Rightarrow> string \<Rightarrow> action_start \<Rightarrow> string option \<Rightarrow> action_error + action_start" where
  "check_start env owner s started_at =
     (if as_owner s \<noteq> owner then Inl (Integrity ''Action owner does not match its user-scoped store'')
      else case started_at of
        None \<Rightarrow> Inl (Integrity ''Action start timestamp is missing'')
      | Some t \<Rightarrow>
          if iso_parse env t = None then Inl (Integrity ''Action start timestamp is invalid'')
          else if as_source s = ''agent_run''
          then (if as_assistant s = None \<or> as_thread s = None \<or> as_run s = None
                then Inl (Integrity ''Agent action identity is incomplete'') else Inr s)
          else (if as_assistant s \<noteq> None \<or> as_thread s \<noteq> None \<or> as_run s \<noteq> None
                then Inl (Integrity ''Direct user action cannot claim Agent run identity'') else Inr s))"

definition validate_start :: "doc_env \<Rightarrow> string \<Rightarrow> (pyval \<times> pyval) list \<Rightarrow> action_error + action_start" where
  "validate_start env owner d =
     (if \<not> keys_are d start_keys \<or> get_key d ''schema'' \<noteq> PStr start_schema
      then Inl (Integrity ''Action start record has an invalid schema'')
      else rbind (reraise ''Action start record failed validation'' (start_fields env d))
             (\<lambda>(s, started_at). check_start env owner s started_at))"

definition outcome_keys :: "string list" where
  "outcome_keys = [''schema'', ''action_id'', ''status'', ''completed_at'', ''references'', ''before_artifact'',
     ''after_artifact'', ''evidence'', ''error'', ''metadata'']"

definition outcome_fields :: "doc_env \<Rightarrow> (pyval \<times> pyval) list \<Rightarrow>
    action_error + (action_outcome \<times> string option)" where
  "outcome_fields env d =
     rbind (validate_action_id (get_key d ''action_id'')) (\<lambda>aid.
     rbind (member_of terminal_statuses ''Action outcome status is invalid'' (get_key d ''status'')) (\<lambda>status.
     rbind (bounded_text ''Action completion timestamp'' 64 (get_key d ''completed_at'')) (\<lambda>ct.
     rbind (normalize_references (get_key d ''references'')) (\<lambda>refs.
     rbind (normalize_artifact ''Action before artifact'' (get_key d ''before_artifact'')) (\<lambda>before.
     rbind (normalize_artifact ''Action after artifact'' (get_key d ''after_artifact'')) (\<lambda>after.
     rbind (normalize_references (get_key d ''evidence'')) (\<lambda>evidence.
     rbind (normalize_error (get_key d ''error'')) (\<lambda>err.
     rbind (normalize_metadata env (get_key d ''metadata'')) (\<lambda>meta.
       Inr (\<lparr>ao_action_id = aid, ao_status = status,
              ao_completed_at = (case ct of None \<Rightarrow> '''' | Some t \<Rightarrow> t), ao_references = refs,
              ao_before = before, ao_after = after, ao_evidence = evidence, ao_error = err,
              ao_metadata = meta\<rparr>, ct))))))))))"

definition check_outcome :: "doc_env \<Rightarrow> string \<Rightarrow> action_outcome \<Rightarrow> string option \<Rightarrow> action_error + action_outcome" where
  "check_outcome env aid u completed_at =
     (if ao_action_id u \<noteq> aid then Inl (Integrity ''Action outcome identity is invalid'')
      else case completed_at of
        None \<Rightarrow> Inl (Integrity ''Action outcome identity is invalid'')
      | Some t \<Rightarrow>
          if iso_parse env t = None then Inl (Integrity ''Action completion timestamp is invalid'')
          else if ao_status u \<in> set unsuccessful \<and> ao_error u = None
          then Inl (Integrity ''Unsuccessful action outcome requires an error'')
          else if ao_status u = ''succeeded'' \<and> ao_error u \<noteq> None
          then Inl (Integrity ''Successful action outcome cannot contain an error'')
          else Inr u)"

definition validate_outcome :: "doc_env \<Rightarrow> string \<Rightarrow> (pyval \<times> pyval) list \<Rightarrow> action_error + action_outcome" where
  "validate_outcome env aid d =
     (if \<not> keys_are d outcome_keys \<or> get_key d ''schema'' \<noteq> PStr outcome_schema
      then Inl (Integrity ''Action outcome record has an invalid schema'')
      else rbind (reraise ''Action outcome record failed validation'' (outcome_fields env d))
             (\<lambda>(u, completed_at). check_outcome env aid u completed_at))"

definition parse_aware_timestamp :: "doc_env \<Rightarrow> string \<Rightarrow> pyval \<Rightarrow> action_error + int" where
  "parse_aware_timestamp env field_name v =
     (case v of
        PStr s \<Rightarrow>
          if s = '''' \<or> length s > 64 then Inl (Integrity (field_name @ '' is invalid''))
          else (case iso_parse env s of
                  None \<Rightarrow> Inl (Integrity (field_name @ '' is invalid''))
                | Some (Naive _) \<Rightarrow> Inl (Integrity (field_name @ '' must include a timezone''))
                | Some (Aware t) \<Rightarrow> Inr t)
      | _ \<Rightarrow> Inl (Integrity (field_name @ '' is invalid'')))"

definition str_of :: "pyval \<Rightarrow> string" where
  "str_of v = (case v of PStr s \<Rightarrow> s | _ \<Rightarrow> '''')"

definition is_token :: "(string \<Rightarrow> bool) \<Rightarrow> pyval \<Rightarrow> bool" where
  "is_token re v = (case v of PStr s \<Rightarrow> re s | _ \<Rightarrow> False)"

definition validate_lease :: "doc_env \<Rightarrow> string \<Rightarrow> (pyval \<times> pyval) list \<Rightarrow> action_error + hold" where
  "validate_lease env aid d =
     (if \<not> keys_are d [''schema'', ''action_id'', ''lease_id'', ''renewed_at'', ''expires_at'']
         \<or> get_key d ''schema'' \<noteq> PStr lease_schema \<or> get_key d ''action_id'' \<noteq> PStr aid
         \<or> \<not> is_token lease_id_re (get_key d ''lease_id'')
      then Inl (Integrity ''Action lease record is invalid'')
      else rbind (parse_aware_timestamp env ''Action lease renewal timestamp'' (get_key d ''renewed_at'')) (\<lambda>renewed.
           rbind (parse_aware_timestamp env ''Action lease expiry timestamp'' (get_key d ''expires_at'')) (\<lambda>expires.
             if expires \<le> renewed then Inl (Integrity ''Action lease expiry is invalid'')
             else Inr \<lparr>hd_action_id = aid, hd_token = str_of (get_key d ''lease_id''),
                       hd_since = str_of (get_key d ''renewed_at''),
                       hd_expires_at = str_of (get_key d ''expires_at'')\<rparr>)))"

definition validate_repair_claim :: "doc_env \<Rightarrow> string \<Rightarrow> (pyval \<times> pyval) list \<Rightarrow> action_error + hold" where
  "validate_repair_claim env aid d =
     (if \<not> keys_are d [''schema'', ''action_id'', ''claim_id'', ''claimed_at'', ''expires_at'']
         \<or> get_key d ''schema'' \<noteq> PStr claim_schema \<or> get_key d ''action_id'' \<noteq> PStr aid
         \<or> \<not> is_token claim_id_re (get_key d ''claim_id'')
      then Inl (Integrity ''Action repair claim is invalid'')
      else rbind (parse_aware_timestamp env ''Action repair claim timestamp'' (get_key d ''claimed_at'')) (\<lambda>claimed.
           rbind (parse_aware_timestamp env ''Action repair claim expiry timestamp'' (get_key d ''expires_at'')) (\<lambda>expires.
             if expires \<le> claimed then Inl (Integrity ''Action repair claim expiry is invalid'')
             else Inr \<lparr>hd_action_id = aid, hd_token = str_of (get_key d ''claim_id''),
                       hd_since = str_of (get_key d ''claimed_at''),
                       hd_expires_at = str_of (get_key d ''expires_at'')\<rparr>)))"

section \<open>Projection\<close>

record action_view =
  av_action_id :: string
  av_owner :: string
  av_operation :: string
  av_source :: string
  av_assistant :: "string option"
  av_thread :: "string option"
  av_run :: "string option"
  av_started_at :: string
  av_completed_at :: "string option"
  av_status :: string
  av_references :: "reference list"
  av_before :: "artifact option"
  av_after :: "artifact option"
  av_evidence :: "reference list"
  av_error :: "error_info option"
  av_metadata :: "(pyval \<times> pyval) list"

definition project_action :: "action_start \<Rightarrow> action_outcome option \<Rightarrow> action_view" where
  "project_action s out =
     \<lparr>av_action_id = as_action_id s, av_owner = as_owner s, av_operation = as_operation s,
      av_source = as_source s, av_assistant = as_assistant s, av_thread = as_thread s, av_run = as_run s,
      av_started_at = as_started_at s, av_completed_at = map_option ao_completed_at out,
      av_status = (case out of None \<Rightarrow> ''running'' | Some u \<Rightarrow> ao_status u),
      av_references = (case out of None \<Rightarrow> as_references s
        | Some u \<Rightarrow> fold add_reference (ao_references u) (as_references s)),
      av_before = (case out of None \<Rightarrow> None | Some u \<Rightarrow> ao_before u),
      av_after = (case out of None \<Rightarrow> None | Some u \<Rightarrow> ao_after u),
      av_evidence = (case out of None \<Rightarrow> [] | Some u \<Rightarrow> ao_evidence u),
      av_error = (case out of None \<Rightarrow> None | Some u \<Rightarrow> ao_error u),
      av_metadata = od_update (as_metadata s) (case out of None \<Rightarrow> [] | Some u \<Rightarrow> ao_metadata u)\<rparr>"

section \<open>Normal forms and reading back what was written\<close>

definition text_ok :: "nat \<Rightarrow> string \<Rightarrow> bool" where
  "text_ok m s \<longleftrightarrow> str_strip s = s \<and> s \<noteq> '''' \<and> length s \<le> m \<and> CHR 0x00 \<notin> set s"

definition opt_text_ok :: "nat \<Rightarrow> string option \<Rightarrow> bool" where
  "opt_text_ok m v = (case v of None \<Rightarrow> True | Some s \<Rightarrow> text_ok m s)"

lemma opt_text_simps [simp]: "opt_text_ok m None" "opt_text_ok m (Some s) = text_ok m s"
  by (simp_all add: opt_text_ok_def)

lemma bounded_text_ok: "bounded_text f m v = Inr r \<Longrightarrow> opt_text_ok m r"
  by (auto simp: bounded_text_def text_ok_def Let_def split: pyval.splits if_splits)

lemma bounded_text_str: "text_ok m s \<Longrightarrow> bounded_text f m (PStr s) = Inr (Some s)"
  by (auto simp: bounded_text_def text_ok_def Let_def)

lemma bounded_text_opt: "opt_text_ok m v \<Longrightarrow> bounded_text f m (opt_str v) = Inr v"
  by (cases v) (simp_all add: opt_str_def bounded_text_str, simp add: bounded_text_def)

definition ref_ok :: "reference \<Rightarrow> bool" where
  "ref_ok r \<longleftrightarrow> reference_kind_re (rf_kind r) \<and> text_ok max_reference_value_length (rf_id r)
     \<and> opt_text_ok 64 (rf_role r)"

lemma validate_id_iff [res_simps]: "validate_id re msg v = Inr s \<longleftrightarrow> v = PStr s \<and> re s"
  by (auto simp: validate_id_def split: pyval.splits if_splits)

lemma normalize_reference_ok: "normalize_reference v = Inr r \<Longrightarrow> ref_ok r"
  by (auto simp: normalize_reference_def ref_ok_def res_simps split: pyval.splits option.splits
      dest!: bounded_text_ok)

lemma normalize_reference_json:
  assumes "ref_ok r"
  shows "normalize_reference (reference_json r) = Inr r"
proof -
  have "get_key (case reference_json r of PDict d \<Rightarrow> d | _ \<Rightarrow> []) ''role'' = opt_str (rf_role r)"
    by (simp add: reference_json_def get_key_def opt_str_def split: option.split)
  with assms show ?thesis
    by (simp add: ref_ok_def normalize_reference_def reference_json_def get_key_def bounded_text_str
        validate_id_def bounded_text_opt split: option.split)
qed

definition refs_ok :: "reference list \<Rightarrow> bool" where
  "refs_ok rs \<longleftrightarrow> length rs \<le> max_references \<and> distinct rs \<and> (\<forall>r \<in> set rs. ref_ok r)"

lemma collect_references_ok:
  assumes "collect_references acc vs = Inr rs" and "distinct acc" and "\<forall>r \<in> set acc. ref_ok r"
  shows "distinct rs \<and> (\<forall>r \<in> set rs. ref_ok r) \<and> length rs \<le> length acc + length vs"
  using assms
proof (induction vs arbitrary: acc)
  case Nil
  then show ?case by simp
next
  case (Cons v vs)
  then obtain r where r: "normalize_reference v = Inr r"
      and rest: "collect_references (add_reference r acc) vs = Inr rs"
    by (auto simp: res_simps)
  have "distinct (add_reference r acc)" "\<forall>x \<in> set (add_reference r acc). ref_ok x"
    using Cons.prems normalize_reference_ok [OF r] by (auto simp: add_reference_def)
  from Cons.IH [OF rest this] show ?case by (auto simp: add_reference_def split: if_splits)
qed

lemma normalize_references_ok: "normalize_references v = Inr rs \<Longrightarrow> refs_ok rs"
  by (auto simp: normalize_references_def refs_ok_def split: pyval.splits if_splits
      dest: collect_references_ok)

lemma collect_references_json:
  assumes "distinct (acc @ rs)" and "\<forall>r \<in> set rs. ref_ok r"
  shows "collect_references acc (map reference_json rs) = Inr (acc @ rs)"
  using assms
  by (induction rs arbitrary: acc) (auto simp: normalize_reference_json add_reference_def)

lemma normalize_references_json: "refs_ok rs \<Longrightarrow> normalize_references (references_json rs) = Inr rs"
  using collect_references_json [of "[]" rs]
  by (simp add: normalize_references_def references_json_def refs_ok_def)

definition artifact_ok :: "artifact option \<Rightarrow> bool" where
  "artifact_ok v = (case v of None \<Rightarrow> True | Some a \<Rightarrow> sha256_re (ar_sha256 a) \<and> 0 \<le> ar_size a)"

lemma normalize_artifact_ok: "normalize_artifact f v = Inr a \<Longrightarrow> artifact_ok a"
  by (auto simp: normalize_artifact_def artifact_ok_def split: pyval.splits if_splits)

lemma normalize_artifact_json: "artifact_ok a \<Longrightarrow> normalize_artifact f (artifact_json a) = Inr a"
  by (cases a) (auto simp: normalize_artifact_def artifact_json_def artifact_ok_def keys_are_def get_key_def)

definition error_ok :: "error_info option \<Rightarrow> bool" where
  "error_ok v = (case v of None \<Rightarrow> True
     | Some e \<Rightarrow> text_ok 128 (ei_type e) \<and> text_ok max_error_message_length (ei_message e))"

lemma normalize_error_ok:
  assumes "normalize_error v = Inr e"
  shows "error_ok e"
proof (cases e)
  case None
  then show ?thesis by (simp add: error_ok_def)
next
  case (Some info)
  with assms obtain d t m where
      "bounded_text ''Action error type'' 128 (get_key d ''type'') = Inr (Some t)"
      "bounded_text ''Action error message'' max_error_message_length (get_key d ''message'') = Inr (Some m)"
      "info = \<lparr>ei_type = t, ei_message = m\<rparr>"
    by (cases v) (auto simp: normalize_error_def res_simps split: if_splits option.splits)
  with Some show ?thesis by (auto simp: error_ok_def dest: bounded_text_ok)
qed

lemma normalize_error_json: "error_ok e \<Longrightarrow> normalize_error (error_json e) = Inr e"
  by (cases e) (auto simp: normalize_error_def error_json_def error_ok_def keys_are_def get_key_def
      bounded_text_str)

text \<open>Metadata is returned as it came: normalisation only refuses.\<close>

lemma normalize_json_id:
  "normalize_json_value n v = Inr w \<Longrightarrow> w = v"
  "normalize_items n d = Inr e \<Longrightarrow> e = d"
  "normalize_elems n xs = Inr ys \<Longrightarrow> ys = xs"
proof (induction n v and n d and n xs arbitrary: w and e and ys
    rule: normalize_json_value_normalize_items_normalize_elems.induct)
  case (1 depth v)
  then show ?case
    by (cases v) (auto simp: res_simps simp del: normalize_json_value.simps normalize_items.simps normalize_elems.simps
        simp: normalize_json_value.simps [of depth] split: if_splits pyfloat.splits)
qed (auto simp: res_simps simp del: normalize_json_value.simps)

definition metadata_ok :: "doc_env \<Rightarrow> (pyval \<times> pyval) list \<Rightarrow> bool" where
  "metadata_ok env e \<longleftrightarrow> normalize_metadata env (PDict e) = Inr e"

definition identity_ok :: "string \<Rightarrow> string option \<Rightarrow> string option \<Rightarrow> string option \<Rightarrow> bool" where
  "identity_ok source a t r =
     (if source = ''agent_run'' then a \<noteq> None \<and> t \<noteq> None \<and> r \<noteq> None else a = None \<and> t = None \<and> r = None)"

definition start_wf :: "doc_env \<Rightarrow> string \<Rightarrow> action_start \<Rightarrow> bool" where
  "start_wf env owner s \<longleftrightarrow>
     action_id_re (as_action_id s) \<and> as_owner s = owner \<and> owner_id_re owner \<and> operation_re (as_operation s)
     \<and> as_source s \<in> set action_sources \<and> opt_text_ok 128 (as_assistant s)
     \<and> opt_text_ok max_reference_value_length (as_thread s) \<and> opt_text_ok max_reference_value_length (as_run s)
     \<and> refs_ok (as_references s) \<and> text_ok 64 (as_started_at s) \<and> iso_parse env (as_started_at s) \<noteq> None
     \<and> metadata_ok env (as_metadata s)
     \<and> identity_ok (as_source s) (as_assistant s) (as_thread s) (as_run s)"

lemma start_keys_json: "start_json s = PDict d \<Longrightarrow> keys_are d start_keys \<and> get_key d ''schema'' = PStr start_schema"
  by (auto simp: start_json_def keys_are_def start_keys_def get_key_def)

lemma validate_start_json:
  assumes "start_wf env owner s"
  shows "\<exists>d. start_json s = PDict d \<and> validate_start env owner d = Inr s"
proof -
  obtain d where d: "start_json s = PDict d" by (simp add: start_json_def)
  then have keys: "get_key d ''action_id'' = PStr (as_action_id s)" "get_key d ''owner_user_id'' = PStr (as_owner s)"
    "get_key d ''operation'' = PStr (as_operation s)" "get_key d ''source'' = PStr (as_source s)"
    "get_key d ''assistant_id'' = opt_str (as_assistant s)" "get_key d ''thread_id'' = opt_str (as_thread s)"
    "get_key d ''run_id'' = opt_str (as_run s)" "get_key d ''references'' = references_json (as_references s)"
    "get_key d ''started_at'' = PStr (as_started_at s)" "get_key d ''metadata'' = PDict (as_metadata s)"
    by (auto simp: start_json_def get_key_def)
  have "start_fields env d = Inr (s, Some (as_started_at s))"
    using assms
    by (simp add: start_fields_def keys start_wf_def validate_action_id_def normalize_owner_id_def
        normalize_operation_def validate_id_def member_of_def bounded_text_opt bounded_text_str
        normalize_references_json metadata_ok_def)
  then have "validate_start env owner d = Inr s"
    using assms start_keys_json [OF d]
    by (simp add: validate_start_def check_start_def reraise_def start_wf_def identity_ok_def split: if_splits)
  with d show ?thesis by blast
qed

lemma reraise_Inr [res_simps]: "reraise msg r = Inr x \<longleftrightarrow> r = Inr x"
  by (auto simp: reraise_def split: sum.splits action_error.splits)

lemma validate_start_fields:
  assumes "validate_start env owner d = Inr s"
  obtains st where "start_fields env d = Inr (s, st)" and "check_start env owner s st = Inr s"
proof -
  obtain s0 st where f: "start_fields env d = Inr (s0, st)" and c: "check_start env owner s0 st = Inr s"
    using assms by (auto simp: validate_start_def res_simps split: if_splits)
  then have "s0 = s" by (auto simp: check_start_def split: if_splits option.splits)
  with f c show thesis by (blast intro: that)
qed

lemma validate_start_wf:
  assumes "validate_start env owner d = Inr s"
  shows "as_owner s = owner \<and> action_id_re (as_action_id s) \<and> refs_ok (as_references s)
    \<and> identity_ok (as_source s) (as_assistant s) (as_thread s) (as_run s)"
proof -
  obtain st where f: "start_fields env d = Inr (s, st)" and c: "check_start env owner s st = Inr s"
    using assms by (rule validate_start_fields)
  from f have "action_id_re (as_action_id s) \<and> refs_ok (as_references s)"
    by (auto simp: start_fields_def res_simps validate_action_id_def dest: normalize_references_ok)
  with c show ?thesis
    by (auto simp: check_start_def identity_ok_def split: if_splits option.splits)
qed

definition outcome_error_ok :: "string \<Rightarrow> error_info option \<Rightarrow> bool" where
  "outcome_error_ok status e \<longleftrightarrow> (status \<in> set unsuccessful \<longrightarrow> e \<noteq> None) \<and> (status = ''succeeded'' \<longrightarrow> e = None)"

definition outcome_wf :: "doc_env \<Rightarrow> string \<Rightarrow> action_outcome \<Rightarrow> bool" where
  "outcome_wf env aid u \<longleftrightarrow>
     action_id_re aid \<and> ao_action_id u = aid \<and> ao_status u \<in> set terminal_statuses
     \<and> text_ok 64 (ao_completed_at u) \<and> iso_parse env (ao_completed_at u) \<noteq> None
     \<and> refs_ok (ao_references u) \<and> artifact_ok (ao_before u) \<and> artifact_ok (ao_after u)
     \<and> refs_ok (ao_evidence u) \<and> error_ok (ao_error u) \<and> metadata_ok env (ao_metadata u)
     \<and> outcome_error_ok (ao_status u) (ao_error u)"

lemma outcome_keys_json:
  "outcome_json u = PDict d \<Longrightarrow> keys_are d outcome_keys \<and> get_key d ''schema'' = PStr outcome_schema"
  by (auto simp: outcome_json_def keys_are_def outcome_keys_def get_key_def)

lemma validate_outcome_json:
  assumes "outcome_wf env aid u"
  shows "\<exists>d. outcome_json u = PDict d \<and> validate_outcome env aid d = Inr u"
proof -
  obtain d where d: "outcome_json u = PDict d" by (simp add: outcome_json_def)
  then have keys: "get_key d ''action_id'' = PStr (ao_action_id u)" "get_key d ''status'' = PStr (ao_status u)"
    "get_key d ''completed_at'' = PStr (ao_completed_at u)"
    "get_key d ''references'' = references_json (ao_references u)"
    "get_key d ''before_artifact'' = artifact_json (ao_before u)"
    "get_key d ''after_artifact'' = artifact_json (ao_after u)"
    "get_key d ''evidence'' = references_json (ao_evidence u)" "get_key d ''error'' = error_json (ao_error u)"
    "get_key d ''metadata'' = PDict (ao_metadata u)"
    by (auto simp: outcome_json_def get_key_def)
  have "outcome_fields env d = Inr (u, Some (ao_completed_at u))"
    using assms
    by (simp add: outcome_fields_def keys outcome_wf_def validate_action_id_def validate_id_def member_of_def
        bounded_text_str normalize_references_json normalize_artifact_json normalize_error_json metadata_ok_def)
  then have "validate_outcome env aid d = Inr u"
    using assms outcome_keys_json [OF d]
    by (auto simp: validate_outcome_def check_outcome_def reraise_def outcome_wf_def outcome_error_ok_def)
  with d show ?thesis by blast
qed

lemma validate_outcome_fields:
  assumes "validate_outcome env aid d = Inr u"
  obtains st where "outcome_fields env d = Inr (u, st)" and "check_outcome env aid u st = Inr u"
proof -
  obtain u0 st where f: "outcome_fields env d = Inr (u0, st)" and c: "check_outcome env aid u0 st = Inr u"
    using assms by (auto simp: validate_outcome_def res_simps split: if_splits)
  then have "u0 = u" by (auto simp: check_outcome_def split: if_splits option.splits)
  with f c show thesis by (blast intro: that)
qed

lemma member_of_Inr [res_simps]: "member_of names msg v = Inr s \<longleftrightarrow> v = PStr s \<and> s \<in> set names"
  by (auto simp: member_of_def split: pyval.splits if_splits)

lemma validate_outcome_status:
  assumes "validate_outcome env aid d = Inr u"
  shows "ao_status u \<in> set terminal_statuses \<and> ao_action_id u = aid"
proof -
  obtain st where f: "outcome_fields env d = Inr (u, st)" and c: "check_outcome env aid u st = Inr u"
    using assms by (rule validate_outcome_fields)
  from f have "ao_status u \<in> set terminal_statuses"
    by (auto simp: outcome_fields_def res_simps)
  with c show ?thesis by (auto simp: check_outcome_def split: if_splits)
qed

text \<open>What the two timestamp functions promise: the text of an instant within \<open>datetime\<close>'s range
  (years 1 to 9999, in microseconds from 1970) is bounded, trimmed and parses to that instant,
  with its zone.\<close>

definition in_range :: "int \<Rightarrow> bool" where
  "in_range t \<longleftrightarrow> - 62135596800000000 \<le> t \<and> t \<le> 253402300799999999"

definition iso_ok :: "doc_env \<Rightarrow> bool" where
  "iso_ok env \<longleftrightarrow> (\<forall>t. in_range t \<longrightarrow>
     iso_parse env (iso_text env t) = Some (Aware t) \<and> text_ok 64 (iso_text env t))"

lemma iso_parse_text: "iso_ok env \<Longrightarrow> in_range t \<Longrightarrow> iso_parse env (iso_text env t) = Some (Aware t)"
  and iso_text_ok: "iso_ok env \<Longrightarrow> in_range t \<Longrightarrow> text_ok 64 (iso_text env t)"
  by (simp_all add: iso_ok_def)

lemma parse_aware_iso:
  "iso_ok env \<Longrightarrow> in_range t \<Longrightarrow> parse_aware_timestamp env f (PStr (iso_text env t)) = Inr t"
  using iso_text_ok [of env t] by (simp add: iso_parse_text parse_aware_timestamp_def text_ok_def not_less)

definition hold_at :: "doc_env \<Rightarrow> string \<Rightarrow> string \<Rightarrow> int \<Rightarrow> int \<Rightarrow> hold" where
  "hold_at env aid token since expires =
     \<lparr>hd_action_id = aid, hd_token = token, hd_since = iso_text env since, hd_expires_at = iso_text env expires\<rparr>"

lemma validate_lease_json:
  assumes "iso_ok env" and "lease_id_re token" and "since < expires" and "in_range since" and "in_range expires"
  shows "\<exists>d. lease_json (hold_at env aid token since expires) = PDict d
    \<and> validate_lease env aid d = Inr (hold_at env aid token since expires)"
proof -
  have "is_token lease_id_re (PStr token)" using assms(2) by (simp add: is_token_def)
  with assms(1,3-) show ?thesis
    by (auto simp: lease_json_def hold_at_def validate_lease_def keys_are_def get_key_def
        parse_aware_iso str_of_def)
qed

lemma validate_claim_json:
  assumes "iso_ok env" and "claim_id_re token" and "since < expires" and "in_range since" and "in_range expires"
  shows "\<exists>d. claim_json (hold_at env aid token since expires) = PDict d
    \<and> validate_repair_claim env aid d = Inr (hold_at env aid token since expires)"
proof -
  have "is_token claim_id_re (PStr token)" using assms(2) by (simp add: is_token_def)
  with assms(1,3-) show ?thesis
    by (auto simp: claim_json_def hold_at_def validate_repair_claim_def keys_are_def get_key_def
        parse_aware_iso str_of_def)
qed

end
