(* ===== verification/ActionStore.thy ===== *)
theory ActionStore
  imports ActionDocs "HOL-Library.Product_Lexorder"
begin

text \<open>
  \<open>FileActionStore\<close> (\<open>actions/store.py\<close>): append-only action records with worker leases and
  repair claims.  The state is the user's action directory: each entry is an action directory
  with its four files, or something else.  A file is absent, a symbolic link, unreadable as
  JSON, or a JSON document.  An operation runs under the store lock and is one step; the clock
  readings and the outputs of the id factories are arguments, in the order the code takes
  them.  Writes are atomic replacements and do not fail here.
\<close>

section \<open>State\<close>

datatype doc_file = Absent | Symlink | Garbage | Doc pyval

record action_dir =
  ad_started :: doc_file
  ad_outcome :: doc_file
  ad_lease :: doc_file
  ad_claim :: doc_file

datatype fs_entry = ActionDir action_dir | UnsafeEntry

datatype root_state = RootMissing | RootUnsafe | RootDir

record action_fs =
  fs_root :: root_state
  fs_entries :: "(string \<times> fs_entry) list"

record store_cfg =
  sc_owner :: string
  sc_lease_duration :: int

definition max_scan_entries :: nat where "max_scan_entries = 10000"
definition max_list_limit :: int where "max_list_limit = 10000"

definition new_store :: "string \<Rightarrow> int \<Rightarrow> action_error + store_cfg" where
  "new_store owner lease_duration =
     (if lease_duration \<le> 0 then Inl (StoreError ''Action lease duration is invalid'')
      else rbind (normalize_owner_id (PStr owner)) (\<lambda>o'.
        Inr \<lparr>sc_owner = o', sc_lease_duration = lease_duration\<rparr>))"

section \<open>Directory and file helpers\<close>

definition prepare_root :: "action_fs \<Rightarrow> action_error + action_fs" where
  "prepare_root fs =
     (case fs_root fs of
        RootMissing \<Rightarrow> Inr (fs\<lparr>fs_root := RootDir\<rparr>)
      | RootUnsafe \<Rightarrow> Inl (Integrity ''Action store root is missing or unsafe'')
      | RootDir \<Rightarrow> Inr fs)"

definition lock_name :: string where "lock_name = ''.actions.lock''"

text \<open>Taking the lock creates the root and the lock file when they are missing.\<close>

definition take_lock :: "action_fs \<Rightarrow> action_fs" where
  "take_lock fs = fs\<lparr>fs_root := (if fs_root fs = RootMissing then RootDir else fs_root fs),
     fs_entries := (if lock_name \<in> fst ` set (fs_entries fs) then fs_entries fs
                    else fs_entries fs @ [(lock_name, UnsafeEntry)])\<rparr>"

definition read_json_object :: "doc_file \<Rightarrow> action_error + (pyval \<times> pyval) list" where
  "read_json_object f =
     (case f of
        Absent \<Rightarrow> Inl (Integrity ''Action metadata is missing or unsafe'')
      | Symlink \<Rightarrow> Inl (Integrity ''Action metadata is missing or unsafe'')
      | Garbage \<Rightarrow> Inl (Integrity ''Action metadata is not valid JSON'')
      | Doc v \<Rightarrow> (case v of PDict d \<Rightarrow> Inr d | _ \<Rightarrow> Inl (Integrity ''Action metadata must be a JSON object'')))"

definition load_start :: "doc_env \<Rightarrow> store_cfg \<Rightarrow> string \<Rightarrow> action_dir \<Rightarrow> action_error + action_start" where
  "load_start env cfg aid d =
     rbind (read_json_object (ad_started d)) (\<lambda>p.
     rbind (validate_start env (sc_owner cfg) p) (\<lambda>s.
       if as_action_id s \<noteq> aid then Inl (Integrity ''Action directory and record identities differ'')
       else Inr s))"

definition load_lease :: "doc_env \<Rightarrow> string \<Rightarrow> action_dir \<Rightarrow> action_error + hold option" where
  "load_lease env aid d =
     (if ad_lease d = Absent then Inr None
      else rbind (read_json_object (ad_lease d)) (\<lambda>p. rbind (validate_lease env aid p) (\<lambda>h. Inr (Some h))))"

definition load_claim :: "doc_env \<Rightarrow> string \<Rightarrow> action_dir \<Rightarrow> action_error + hold option" where
  "load_claim env aid d =
     (if ad_claim d = Absent then Inr None
      else rbind (read_json_object (ad_claim d)) (\<lambda>p.
             rbind (validate_repair_claim env aid p) (\<lambda>h. Inr (Some h))))"

text \<open>Whether a lease or a claim is still held at \<open>now\<close>; its expiry text is parsed again.\<close>

definition held_at :: "doc_env \<Rightarrow> string \<Rightarrow> int \<Rightarrow> hold option \<Rightarrow> action_error + bool" where
  "held_at env field_name now_t h =
     (case h of
        None \<Rightarrow> Inr False
      | Some c \<Rightarrow> rbind (parse_aware_timestamp env field_name (PStr (hd_expires_at c))) (\<lambda>e. Inr (e > now_t)))"

definition lease_field :: string where "lease_field = ''Action lease expiry timestamp''"
definition claim_field :: string where "claim_field = ''Action repair claim expiry timestamp''"

text \<open>An operation on one action directory, lifted to the store; a missing or unsafe directory
  is what the first lines of \<open>_load_start\<close> report.\<close>

definition on_action :: "string \<Rightarrow> (action_dir \<Rightarrow> (action_error + 'a) \<times> action_dir) \<Rightarrow> action_fs \<Rightarrow>
    (action_error + 'a) \<times> action_fs" where
  "on_action aid f fs =
     (case map_of (fs_entries fs) aid of
        None \<Rightarrow> (Inl (NotFound ''Action was not found''), fs)
      | Some UnsafeEntry \<Rightarrow> (Inl (Integrity ''Action directory is unsafe''), fs)
      | Some (ActionDir d) \<Rightarrow>
          (let (r, d') = f d in (r, fs\<lparr>fs_entries := od_set aid (ActionDir d') (fs_entries fs)\<rparr>)))"

definition locked_action :: "string \<Rightarrow> (action_dir \<Rightarrow> (action_error + 'a) \<times> action_dir) \<Rightarrow> action_fs \<Rightarrow>
    (action_error + 'a) \<times> action_fs" where
  "locked_action aid f fs =
     (case prepare_root fs of
        Inl e \<Rightarrow> (Inl e, fs)
      | Inr fs1 \<Rightarrow> on_action aid f (take_lock fs1))"

text \<open>A step on a directory that may raise after having changed it.\<close>

definition dbind :: "action_error + 'a \<Rightarrow> action_dir \<Rightarrow> ('a \<Rightarrow> (action_error + 'b) \<times> action_dir) \<Rightarrow>
    (action_error + 'b) \<times> action_dir" where
  "dbind m d f = (case m of Inl e \<Rightarrow> (Inl e, d) | Inr x \<Rightarrow> f x)"

lemma dbind_simps [simp]: "dbind (Inl e) d f = (Inl e, d)" "dbind (Inr x) d f = f x"
  by (simp_all add: dbind_def)

section \<open>start\<close>

record start_args =
  sa_operation :: pyval
  sa_source :: pyval
  sa_assistant :: pyval
  sa_thread :: pyval
  sa_run :: pyval
  sa_references :: pyval
  sa_metadata :: pyval

definition normalize_start :: "doc_env \<Rightarrow> store_cfg \<Rightarrow> start_args \<Rightarrow> action_error + action_start" where
  "normalize_start env cfg a =
     rbind (normalize_operation (sa_operation a)) (\<lambda>opn.
     rbind (member_of action_sources ''Action source is invalid'' (sa_source a)) (\<lambda>src.
     rbind (bounded_text ''Action assistant ID'' 128 (sa_assistant a)) (\<lambda>asst.
     rbind (bounded_text ''Action thread ID'' max_reference_value_length (sa_thread a)) (\<lambda>thr.
     rbind (bounded_text ''Action run ID'' max_reference_value_length (sa_run a)) (\<lambda>rn.
     rbind (if src = ''agent_run''
            then check (asst \<noteq> None \<and> thr \<noteq> None \<and> rn \<noteq> None) (StoreError ''Agent action identity is incomplete'')
            else check (asst = None \<and> thr = None \<and> rn = None)
                   (StoreError ''Direct user action cannot claim Agent run identity'')) (\<lambda>_.
     rbind (normalize_references (sa_references a)) (\<lambda>refs.
     rbind (normalize_metadata env (sa_metadata a)) (\<lambda>meta.
       Inr \<lparr>as_action_id = '''', as_owner = sc_owner cfg, as_operation = opn, as_source = src,
            as_assistant = asst, as_thread = thr, as_run = rn, as_references = refs,
            as_started_at = '''', as_metadata = meta\<rparr>))))))))"

text \<open>The loop over at most ten generated ids; each iteration that gets past the existence test
  reads the clock and the lease id factory.\<close>

fun allocate :: "doc_env \<Rightarrow> store_cfg \<Rightarrow> action_start \<Rightarrow> pyval list \<Rightarrow> int \<Rightarrow> pyval \<Rightarrow> action_fs \<Rightarrow>
    (action_error + action_view) \<times> action_fs" where
  "allocate env cfg s [] now_t lease_id fs = (Inl (Conflict ''Could not allocate a unique action ID''), fs)"
| "allocate env cfg s (v # vs) now_t lease_id fs =
     (case validate_action_id v of
        Inl e \<Rightarrow> (Inl e, fs)
      | Inr aid \<Rightarrow>
          if aid \<in> fst ` set (fs_entries fs) then allocate env cfg s vs now_t lease_id fs
          else (let payload = s\<lparr>as_action_id := aid, as_started_at := iso_text env now_t\<rparr>
                in case validate_lease_id lease_id of
                     Inl e \<Rightarrow> (Inl e, fs)
                   | Inr lid \<Rightarrow>
                       (let lease = hold_at env aid lid now_t (now_t + sc_lease_duration cfg)
                        in case rbind (json_bytes env (start_json payload)) (\<lambda>p.
                                rbind (json_bytes env (lease_json lease)) (\<lambda>l. Inr (p, l))) of
                             Inl e \<Rightarrow> (Inl e, fs)
                           | Inr (p, l) \<Rightarrow>
                               (Inr (project_action payload None),
                                fs\<lparr>fs_entries := fs_entries fs @ [(aid, ActionDir
                                  \<lparr>ad_started = Doc p, ad_outcome = Absent, ad_lease = Doc l, ad_claim = Absent\<rparr>)]\<rparr>))))"

definition act_start :: "doc_env \<Rightarrow> store_cfg \<Rightarrow> start_args \<Rightarrow> pyval list \<Rightarrow> int \<Rightarrow> pyval \<Rightarrow> action_fs \<Rightarrow>
    (action_error + action_view) \<times> action_fs" where
  "act_start env cfg a ids now_t lease_id fs =
     (case normalize_start env cfg a of
        Inl e \<Rightarrow> (Inl e, fs)
      | Inr s \<Rightarrow>
          (case prepare_root fs of
             Inl e \<Rightarrow> (Inl e, fs)
           | Inr fs1 \<Rightarrow> allocate env cfg s (take 10 ids) now_t lease_id (take_lock fs1)))"

section \<open>Outcomes\<close>

record finish_args =
  fa_status :: pyval
  fa_references :: pyval
  fa_before :: pyval
  fa_after :: pyval
  fa_evidence :: pyval
  fa_error :: pyval
  fa_metadata :: pyval

definition outcome_candidate :: "doc_env \<Rightarrow> string \<Rightarrow> finish_args \<Rightarrow> int \<Rightarrow> action_error + action_outcome" where
  "outcome_candidate env aid a now_t =
     rbind (member_of terminal_statuses ''Action outcome status is invalid'' (fa_status a)) (\<lambda>status.
     rbind (normalize_error (fa_error a)) (\<lambda>err.
     rbind (check (\<not> (status \<in> set unsuccessful \<and> err = None))
              (StoreError ''Unsuccessful action outcome requires an error'')) (\<lambda>_.
     rbind (check (\<not> (status = ''succeeded'' \<and> err \<noteq> None))
              (StoreError ''Successful action outcome cannot contain an error'')) (\<lambda>_.
     rbind (normalize_references (fa_references a)) (\<lambda>refs.
     rbind (normalize_artifact ''Action before artifact'' (fa_before a)) (\<lambda>before.
     rbind (normalize_artifact ''Action after artifact'' (fa_after a)) (\<lambda>after.
     rbind (normalize_references (fa_evidence a)) (\<lambda>evidence.
     rbind (normalize_metadata env (fa_metadata a)) (\<lambda>meta.
       Inr \<lparr>ao_action_id = aid, ao_status = status, ao_completed_at = iso_text env now_t,
            ao_references = refs, ao_before = before, ao_after = after, ao_evidence = evidence,
            ao_error = err, ao_metadata = meta\<rparr>)))))))))"

text \<open>Python's \<open>==\<close> on JSON values: numbers of different types may be equal, and dictionaries
  compare without regard to order.\<close>

fun num_val :: "pyval \<Rightarrow> rat option" where
  "num_val (PBool b) = Some (if b then 1 else 0)"
| "num_val (PInt i) = Some (of_int i)"
| "num_val (PFloat (Finite r)) = Some r"
| "num_val _ = None"

fun py_eq :: "pyval \<Rightarrow> pyval \<Rightarrow> bool"
  and py_eq_items :: "(pyval \<times> pyval) list \<Rightarrow> (pyval \<times> pyval) list \<Rightarrow> bool"
  and py_eq_elems :: "pyval list \<Rightarrow> pyval list \<Rightarrow> bool" where
  "py_eq (PStr s) w = (w = PStr s)"
| "py_eq (PList xs) w = (case w of PList ys \<Rightarrow> py_eq_elems xs ys | _ \<Rightarrow> False)"
| "py_eq (PDict d) w = (case w of PDict e \<Rightarrow> length d = length e \<and> py_eq_items d e | _ \<Rightarrow> False)"
| "py_eq PNone w = (w = PNone)"
| "py_eq (POther n) w = (w = POther n)"
| "py_eq (PFloat PosInf) w = (w = PFloat PosInf)"
| "py_eq (PFloat NegInf) w = (w = PFloat NegInf)"
| "py_eq (PFloat NotANumber) w = False"
| "py_eq v w = (num_val w \<noteq> None \<and> num_val v = num_val w)"
| "py_eq_items [] e = True"
| "py_eq_items ((k, v) # d) e = ((case map_of e k of None \<Rightarrow> False | Some w \<Rightarrow> py_eq v w) \<and> py_eq_items d e)"
| "py_eq_elems [] ys = (ys = [])"
| "py_eq_elems (x # xs) ys = (case ys of [] \<Rightarrow> False | y # ys' \<Rightarrow> py_eq x y \<and> py_eq_elems xs ys')"

text \<open>Every key but \<open>completed_at\<close> is compared.\<close>

definition same_outcome :: "action_outcome \<Rightarrow> action_outcome \<Rightarrow> bool" where
  "same_outcome u v \<longleftrightarrow>
     ao_action_id u = ao_action_id v \<and> ao_status u = ao_status v \<and> ao_references u = ao_references v
     \<and> ao_before u = ao_before v \<and> ao_after u = ao_after v \<and> ao_evidence u = ao_evidence v
     \<and> ao_error u = ao_error v \<and> py_eq (PDict (ao_metadata u)) (PDict (ao_metadata v))"

definition existing_outcome :: "doc_env \<Rightarrow> string \<Rightarrow> action_start \<Rightarrow> action_outcome \<Rightarrow> action_dir \<Rightarrow>
    action_error + action_view option" where
  "existing_outcome env aid s candidate d =
     (if ad_outcome d = Absent then Inr None
      else rbind (read_json_object (ad_outcome d)) (\<lambda>p.
           rbind (validate_outcome env aid p) (\<lambda>u.
             if same_outcome u candidate then Inr (Some (project_action s (Some u)))
             else Inl (Conflict ''Action already has a different terminal outcome''))))"

definition append_outcome :: "doc_env \<Rightarrow> action_start \<Rightarrow> action_outcome \<Rightarrow> action_dir \<Rightarrow>
    (action_error + action_view) \<times> action_dir" where
  "append_outcome env s candidate d =
     dbind (json_bytes env (outcome_json candidate)) d (\<lambda>p.
       (Inr (project_action s (Some candidate)),
        d\<lparr>ad_outcome := Doc p, ad_lease := Absent, ad_claim := Absent\<rparr>))"

definition finish_in :: "doc_env \<Rightarrow> store_cfg \<Rightarrow> string \<Rightarrow> action_outcome \<Rightarrow> int \<Rightarrow> action_dir \<Rightarrow>
    (action_error + action_view) \<times> action_dir" where
  "finish_in env cfg aid candidate now_t d =
     dbind (load_start env cfg aid d) d (\<lambda>s.
     dbind (existing_outcome env aid s candidate d) d (\<lambda>existing.
       case existing of
         Some view \<Rightarrow> (Inr view, d)
       | None \<Rightarrow>
           dbind (load_claim env aid d) d (\<lambda>claim.
             if claim = None then append_outcome env s candidate d
             else dbind (held_at env claim_field now_t claim) d (\<lambda>held.
                    if held then (Inl (Conflict ''Action outcome is owned by repair''), d)
                    else append_outcome env s candidate (d\<lparr>ad_claim := Absent\<rparr>)))))"

definition act_finish :: "doc_env \<Rightarrow> store_cfg \<Rightarrow> pyval \<Rightarrow> finish_args \<Rightarrow> int \<Rightarrow> int \<Rightarrow> action_fs \<Rightarrow>
    (action_error + action_view) \<times> action_fs" where
  "act_finish env cfg aid a completed_t now_t fs =
     (case rbind (validate_action_id aid) (\<lambda>i. rbind (outcome_candidate env i a completed_t) (\<lambda>u. Inr (i, u))) of
        Inl e \<Rightarrow> (Inl e, fs)
      | Inr (i, u) \<Rightarrow> locked_action i (finish_in env cfg i u now_t) fs)"

section \<open>Leases and repair claims\<close>

text \<open>\<open>get\<close> takes no lock; within \<open>renew\<close> it runs under the lock already held.\<close>

definition get_in :: "doc_env \<Rightarrow> store_cfg \<Rightarrow> string \<Rightarrow> action_dir \<Rightarrow> action_error + action_view" where
  "get_in env cfg aid d =
     rbind (load_start env cfg aid d) (\<lambda>s.
       if ad_outcome d = Absent then Inr (project_action s None)
       else rbind (read_json_object (ad_outcome d)) (\<lambda>p.
            rbind (validate_outcome env aid p) (\<lambda>u. Inr (project_action s (Some u)))))"

definition act_get :: "doc_env \<Rightarrow> store_cfg \<Rightarrow> pyval \<Rightarrow> action_fs \<Rightarrow> action_error + action_view" where
  "act_get env cfg aid fs =
     rbind (validate_action_id aid) (\<lambda>i. fst (on_action i (\<lambda>d. (get_in env cfg i d, d)) fs))"

datatype renewed = Settled action_view | Renewed hold

definition renew_in :: "doc_env \<Rightarrow> store_cfg \<Rightarrow> string \<Rightarrow> int \<Rightarrow> pyval \<Rightarrow> int \<Rightarrow> int \<Rightarrow> action_dir \<Rightarrow>
    (action_error + renewed) \<times> action_dir" where
  "renew_in env cfg aid duration lease_id claim_t now_t d =
     dbind (load_start env cfg aid d) d (\<lambda>_.
       if ad_outcome d \<noteq> Absent
       then dbind (get_in env cfg aid d) d (\<lambda>v. (Inr (Settled v), d))
       else dbind (load_claim env aid d) d (\<lambda>claim.
            dbind (held_at env claim_field claim_t claim) d (\<lambda>held.
              if held then (Inl (Conflict ''Action lease cannot be renewed while repair owns it''), d)
              else dbind (load_lease env aid d) d (\<lambda>current.
                   dbind (case current of Some h \<Rightarrow> Inr (hd_token h) | None \<Rightarrow> validate_lease_id lease_id) d (\<lambda>lid.
                     let lease = hold_at env aid lid now_t (now_t + duration)
                     in dbind (json_bytes env (lease_json lease)) d (\<lambda>l.
                          (Inr (Renewed lease), d\<lparr>ad_lease := Doc l\<rparr>)))))))"

definition act_renew :: "doc_env \<Rightarrow> store_cfg \<Rightarrow> pyval \<Rightarrow> int option \<Rightarrow> pyval \<Rightarrow> int \<Rightarrow> int \<Rightarrow> action_fs \<Rightarrow>
    (action_error + renewed) \<times> action_fs" where
  "act_renew env cfg aid lease_duration lease_id claim_t now_t fs =
     (case validate_action_id aid of
        Inl e \<Rightarrow> (Inl e, fs)
      | Inr i \<Rightarrow>
          (let duration = (case lease_duration of Some t \<Rightarrow> if t = 0 then sc_lease_duration cfg else t
                           | None \<Rightarrow> sc_lease_duration cfg)
           in if duration \<le> 0 then (Inl (StoreError ''Action lease duration is invalid''), fs)
              else locked_action i (renew_in env cfg i duration lease_id claim_t now_t) fs))"

definition reconciliation_state_in :: "doc_env \<Rightarrow> store_cfg \<Rightarrow> string \<Rightarrow> int \<Rightarrow> action_dir \<Rightarrow>
    action_error + string" where
  "reconciliation_state_in env cfg aid now_t d =
     rbind (load_start env cfg aid d) (\<lambda>_.
       if ad_outcome d \<noteq> Absent then Inr ''terminal''
       else rbind (load_lease env aid d) (\<lambda>lease.
            rbind (held_at env lease_field now_t lease) (\<lambda>leased.
              if leased then Inr ''active''
              else rbind (load_claim env aid d) (\<lambda>claim.
                   rbind (held_at env claim_field now_t claim) (\<lambda>claimed.
                     Inr (if claimed then ''claimed'' else ''eligible''))))))"

definition inspect_reconciliation_state :: "doc_env \<Rightarrow> store_cfg \<Rightarrow> pyval \<Rightarrow> int \<Rightarrow> action_fs \<Rightarrow>
    action_error + string" where
  "inspect_reconciliation_state env cfg aid now_t fs =
     rbind (validate_action_id aid) (\<lambda>i.
       fst (on_action i (\<lambda>d. (reconciliation_state_in env cfg i now_t d, d)) fs))"

definition reconciliation_state :: "doc_env \<Rightarrow> store_cfg \<Rightarrow> pyval \<Rightarrow> int \<Rightarrow> action_fs \<Rightarrow>
    (action_error + string) \<times> action_fs" where
  "reconciliation_state env cfg aid now_t fs =
     (case validate_action_id aid of
        Inl e \<Rightarrow> (Inl e, fs)
      | Inr i \<Rightarrow> locked_action i (\<lambda>d. (reconciliation_state_in env cfg i now_t d, d)) fs)"

definition claim_in :: "doc_env \<Rightarrow> store_cfg \<Rightarrow> string \<Rightarrow> int \<Rightarrow> pyval \<Rightarrow> int \<Rightarrow> action_dir \<Rightarrow>
    (action_error + string option) \<times> action_dir" where
  "claim_in env cfg aid claim_duration claim_id now_t d =
     dbind (load_start env cfg aid d) d (\<lambda>_.
       if ad_outcome d \<noteq> Absent then (Inr None, d)
       else dbind (load_lease env aid d) d (\<lambda>lease.
            dbind (held_at env lease_field now_t lease) d (\<lambda>leased.
              if leased then (Inr None, d)
              else dbind (load_claim env aid d) d (\<lambda>existing.
                   dbind (held_at env claim_field now_t existing) d (\<lambda>claimed.
                     if claimed then (Inr None, d)
                     else dbind (validate_repair_claim_id claim_id) d (\<lambda>cid.
                       let claim = hold_at env aid cid now_t (now_t + claim_duration)
                       in dbind (json_bytes env (claim_json claim)) d (\<lambda>c.
                            (Inr (Some cid), d\<lparr>ad_claim := Doc c\<rparr>))))))))"

definition claim_reconciliation :: "doc_env \<Rightarrow> store_cfg \<Rightarrow> pyval \<Rightarrow> int \<Rightarrow> pyval \<Rightarrow> int \<Rightarrow> action_fs \<Rightarrow>
    (action_error + string option) \<times> action_fs" where
  "claim_reconciliation env cfg aid claim_duration claim_id now_t fs =
     (case validate_action_id aid of
        Inl e \<Rightarrow> (Inl e, fs)
      | Inr i \<Rightarrow>
          if claim_duration \<le> 0 then (Inl (StoreError ''Action repair claim duration is invalid''), fs)
          else locked_action i (claim_in env cfg i claim_duration claim_id now_t) fs)"

definition release_in :: "doc_env \<Rightarrow> string \<Rightarrow> string \<Rightarrow> action_dir \<Rightarrow> (action_error + unit) \<times> action_dir" where
  "release_in env aid cid d =
     dbind (load_claim env aid d) d (\<lambda>claim.
       case claim of
         None \<Rightarrow> (Inr (), d)
       | Some h \<Rightarrow>
           if hd_token h \<noteq> cid then (Inl (Conflict ''Action repair claim is owned by another worker''), d)
           else (Inr (), d\<lparr>ad_claim := Absent\<rparr>))"

text \<open>Release does not load the start record: without a directory there is no claim to find.\<close>

definition release_reconciliation :: "doc_env \<Rightarrow> pyval \<Rightarrow> pyval \<Rightarrow> action_fs \<Rightarrow>
    (action_error + unit) \<times> action_fs" where
  "release_reconciliation env aid claim_id fs =
     (case rbind (validate_action_id aid) (\<lambda>i. rbind (validate_repair_claim_id claim_id) (\<lambda>c. Inr (i, c))) of
        Inl e \<Rightarrow> (Inl e, fs)
      | Inr (i, c) \<Rightarrow>
          (let fs1 = take_lock fs
           in case map_of (fs_entries fs1) i of
                Some (ActionDir _) \<Rightarrow> on_action i (release_in env i c) fs1
              | _ \<Rightarrow> (Inr (), fs1)))"

definition finish_claimed_in :: "doc_env \<Rightarrow> store_cfg \<Rightarrow> string \<Rightarrow> string \<Rightarrow> action_outcome \<Rightarrow> action_dir \<Rightarrow>
    (action_error + action_view) \<times> action_dir" where
  "finish_claimed_in env cfg aid cid candidate d =
     dbind (load_start env cfg aid d) d (\<lambda>s.
     dbind (existing_outcome env aid s candidate d) d (\<lambda>existing.
       case existing of
         Some view \<Rightarrow> (Inr view, d)
       | None \<Rightarrow>
           dbind (load_claim env aid d) d (\<lambda>claim.
             if map_option hd_token claim \<noteq> Some cid
             then (Inl (Conflict ''Action repair claim is no longer owned''), d)
             else append_outcome env s candidate d)))"

definition finish_reconciliation :: "doc_env \<Rightarrow> store_cfg \<Rightarrow> pyval \<Rightarrow> pyval \<Rightarrow> finish_args \<Rightarrow> int \<Rightarrow> action_fs \<Rightarrow>
    (action_error + action_view) \<times> action_fs" where
  "finish_reconciliation env cfg aid claim_id a completed_t fs =
     (case rbind (validate_action_id aid) (\<lambda>i.
           rbind (validate_repair_claim_id claim_id) (\<lambda>c.
           rbind (outcome_candidate env i a completed_t) (\<lambda>u. Inr (i, c, u)))) of
        Inl e \<Rightarrow> (Inl e, fs)
      | Inr (i, c, u) \<Rightarrow> locked_action i (finish_claimed_in env cfg i c u) fs)"

section \<open>list\<close>

record list_args =
  la_limit :: int
  la_operation :: "pyval option"
  la_resource_kind :: "string option"
  la_resource_id :: pyval
  la_status :: "string option"
  la_started_before :: "int option"
  la_oldest_first :: bool

definition stamp_instant :: "stamp \<Rightarrow> int" where
  "stamp_instant st = (case st of Aware t \<Rightarrow> t | Naive t \<Rightarrow> t)"

definition started_instant :: "doc_env \<Rightarrow> action_view \<Rightarrow> int" where
  "started_instant env v = (case iso_parse env (av_started_at v) of None \<Rightarrow> 0 | Some st \<Rightarrow> stamp_instant st)"

definition list_key :: "action_view \<Rightarrow> string \<times> string" where
  "list_key v = (av_started_at v, av_action_id v)"

definition list_match :: "doc_env \<Rightarrow> list_args \<Rightarrow> string option \<Rightarrow> string option \<Rightarrow> action_view \<Rightarrow> bool" where
  "list_match env a opn rid v \<longleftrightarrow>
     (case opn of None \<Rightarrow> True | Some x \<Rightarrow> av_operation v = x)
     \<and> (case la_status a of None \<Rightarrow> True | Some x \<Rightarrow> av_status v = x)
     \<and> (case la_started_before a of None \<Rightarrow> True | Some t \<Rightarrow> \<not> started_instant env v > t)
     \<and> (case la_resource_kind a of None \<Rightarrow> True
        | Some k \<Rightarrow> (\<exists>r \<in> set (av_references v). rf_kind r = k \<and> Some (rf_id r) = rid))"

definition scan_actions :: "doc_env \<Rightarrow> store_cfg \<Rightarrow> action_fs \<Rightarrow> action_error + action_view list" where
  "scan_actions env cfg fs =
     (if length (fs_entries fs) > max_scan_entries
      then Inl (StoreError ''Action store scan exceeds the safety limit'')
      else map_res (\<lambda>aid. act_get env cfg (PStr aid) fs) (filter action_id_re (od_keys (fs_entries fs))))"

text \<open>The loop over the sorted actions: skip what does not match, stop at the limit.\<close>

fun collect_matching :: "(action_view \<Rightarrow> bool) \<Rightarrow> nat \<Rightarrow> action_view list \<Rightarrow> action_view list \<Rightarrow> action_view list" where
  "collect_matching P limit acc [] = acc"
| "collect_matching P limit acc (v # vs) =
     (if \<not> P v then collect_matching P limit acc vs
      else if length (acc @ [v]) \<ge> limit then acc @ [v]
      else collect_matching P limit (acc @ [v]) vs)"

definition list_filters :: "list_args \<Rightarrow> action_error + (string option \<times> string option)" where
  "list_filters a =
     rbind (check (1 \<le> la_limit a \<and> la_limit a \<le> max_list_limit) (StoreError ''Action list limit is invalid'')) (\<lambda>_.
     rbind (case la_operation a of None \<Rightarrow> Inr None
            | Some v \<Rightarrow> rbind (normalize_operation v) (\<lambda>x. Inr (Some x))) (\<lambda>opn.
     rbind (check (la_resource_kind a = None \<or> reference_kind_re (the (la_resource_kind a)))
              (StoreError ''Action resource kind is invalid'')) (\<lambda>_.
     rbind (bounded_text ''Action resource ID'' max_reference_value_length (la_resource_id a)) (\<lambda>rid.
     rbind (check ((la_resource_kind a = None) = (rid = None))
              (StoreError ''Action resource filters require kind and ID'')) (\<lambda>_.
     rbind (check (la_status a = None \<or> the (la_status a) \<in> set action_statuses)
              (StoreError ''Action status filter is invalid'')) (\<lambda>_. Inr (opn, rid)))))))"

definition act_list :: "doc_env \<Rightarrow> store_cfg \<Rightarrow> list_args \<Rightarrow> action_fs \<Rightarrow> action_error + action_view list" where
  "act_list env cfg a fs =
     rbind (list_filters a) (\<lambda>(opn, rid).
       case fs_root fs of
         RootMissing \<Rightarrow> Inr []
       | RootUnsafe \<Rightarrow> Inl (Integrity ''Action store root is unsafe'')
       | RootDir \<Rightarrow>
           rbind (scan_actions env cfg fs) (\<lambda>actions.
             Inr (collect_matching (list_match env a opn rid) (nat (la_limit a)) []
               (if la_oldest_first a then sort_key list_key actions else sorted_desc list_key actions))))"

end
