(* ===== verification/ActionLifecycle.thy ===== *)
theory ActionLifecycle
  imports ActionStore
begin

text \<open>
  The lifecycle of an action over any sequence of store operations: recorded facts never
  change, what was written is read back, the first outcome wins, and leases and repair claims
  exclude each other.
\<close>

section \<open>Histories\<close>

datatype act_op =
    OStart start_args "pyval list" int pyval
  | OFinish pyval finish_args int int
  | ORenew pyval "int option" pyval int int
  | OState pyval int
  | OClaim pyval int pyval int
  | ORelease pyval pyval
  | OFinishClaimed pyval pyval finish_args int

fun act_apply :: "doc_env \<Rightarrow> store_cfg \<Rightarrow> act_op \<Rightarrow> action_fs \<Rightarrow> action_fs" where
  "act_apply env cfg (OStart a ids t lid) fs = snd (act_start env cfg a ids t lid fs)"
| "act_apply env cfg (OFinish aid a t u) fs = snd (act_finish env cfg aid a t u fs)"
| "act_apply env cfg (ORenew aid dur lid t u) fs = snd (act_renew env cfg aid dur lid t u fs)"
| "act_apply env cfg (OState aid t) fs = snd (reconciliation_state env cfg aid t fs)"
| "act_apply env cfg (OClaim aid dur cid t) fs = snd (claim_reconciliation env cfg aid dur cid t fs)"
| "act_apply env cfg (ORelease aid cid) fs = snd (release_reconciliation env aid cid fs)"
| "act_apply env cfg (OFinishClaimed aid cid a t) fs = snd (finish_reconciliation env cfg aid cid a t fs)"

definition act_run :: "doc_env \<Rightarrow> store_cfg \<Rightarrow> act_op list \<Rightarrow> action_fs \<Rightarrow> action_fs" where
  "act_run env cfg ops fs = fold (act_apply env cfg) ops fs"

section \<open>Recorded facts\<close>

text \<open>The start record stays, and an outcome stays once it is there.\<close>

definition keeps_facts :: "action_dir \<Rightarrow> action_dir \<Rightarrow> bool" where
  "keeps_facts d d' \<longleftrightarrow> ad_started d' = ad_started d \<and> (ad_outcome d \<noteq> Absent \<longrightarrow> ad_outcome d' = ad_outcome d)"

definition fs_keeps :: "action_fs \<Rightarrow> action_fs \<Rightarrow> bool" where
  "fs_keeps fs fs' \<longleftrightarrow> (\<forall>aid d. map_of (fs_entries fs) aid = Some (ActionDir d) \<longrightarrow>
     (\<exists>d'. map_of (fs_entries fs') aid = Some (ActionDir d') \<and> keeps_facts d d'))"

lemma keeps_refl [simp]: "keeps_facts d d" "fs_keeps fs fs"
  by (simp_all add: keeps_facts_def fs_keeps_def)

lemma fs_keeps_trans: "fs_keeps a b \<Longrightarrow> fs_keeps b c \<Longrightarrow> fs_keeps a c"
  unfolding fs_keeps_def keeps_facts_def by metis

lemma fs_keeps_lock [simp]: "fs_keeps fs (take_lock fs)"
  by (auto simp: fs_keeps_def take_lock_def map_add_def dest: map_of_SomeD intro: keeps_refl split: option.split)

lemma prepare_root_entries: "prepare_root fs = Inr fs' \<Longrightarrow> fs_entries fs' = fs_entries fs"
  by (auto simp: prepare_root_def split: root_state.splits)

lemma fs_keeps_prepare: "prepare_root fs = Inr fs' \<Longrightarrow> fs_keeps fs fs'"
  by (simp add: fs_keeps_def prepare_root_entries keeps_facts_def)

lemma fs_keeps_on_action:
  assumes "\<And>d. keeps_facts d (snd (f d))"
  shows "fs_keeps fs (snd (on_action aid f fs))"
  using assms
  by (auto simp: fs_keeps_def on_action_def Let_def split: option.splits fs_entry.splits prod.splits)
    (metis snd_conv)

lemma fs_keeps_locked:
  assumes "\<And>d. keeps_facts d (snd (f d))"
  shows "fs_keeps fs (snd (locked_action aid f fs))"
proof (cases "prepare_root fs")
  case (Inl e)
  then show ?thesis by (simp add: locked_action_def)
next
  case (Inr fs1)
  then have "fs_keeps fs (take_lock fs1)"
    using fs_keeps_prepare fs_keeps_lock fs_keeps_trans by blast
  then show ?thesis
    using fs_keeps_on_action [of f "take_lock fs1" aid] assms Inr fs_keeps_trans
    by (simp add: locked_action_def)
qed

lemma keeps_dbind: "(\<And>x. m = Inr x \<Longrightarrow> keeps_facts d (snd (f x))) \<Longrightarrow> keeps_facts d (snd (dbind m d f))"
  by (cases m) auto

lemma keeps_append:
  "ad_outcome d = Absent \<Longrightarrow> ad_outcome d' = Absent \<Longrightarrow> ad_started d' = ad_started d \<Longrightarrow>
    keeps_facts d (snd (append_outcome env s u d'))"
  by (cases "json_bytes env (outcome_json u)") (simp_all add: append_outcome_def keeps_facts_def)

lemma existing_None: "existing_outcome env aid s u d = Inr None \<Longrightarrow> ad_outcome d = Absent"
  by (auto simp: existing_outcome_def res_simps split: if_splits)

lemma keeps_finish_in: "keeps_facts d (snd (finish_in env cfg aid u t d))"
  unfolding finish_in_def
  by (intro keeps_dbind)
    (auto split: option.split intro!: keeps_dbind keeps_append dest!: existing_None)

lemma keeps_finish_claimed_in: "keeps_facts d (snd (finish_claimed_in env cfg aid c u d))"
  unfolding finish_claimed_in_def
  by (intro keeps_dbind)
    (auto split: option.split intro!: keeps_dbind keeps_append dest!: existing_None)

lemma keeps_holds [simp]:
  "keeps_facts d (d\<lparr>ad_lease := x\<rparr>)" "keeps_facts d (d\<lparr>ad_claim := x\<rparr>)"
  by (simp_all add: keeps_facts_def)

lemma keeps_renew_in: "keeps_facts d (snd (renew_in env cfg aid dur lid t u d))"
  unfolding renew_in_def Let_def by (intro keeps_dbind) (auto intro!: keeps_dbind)

lemma keeps_claim_in: "keeps_facts d (snd (claim_in env cfg aid dur cid t d))"
  unfolding claim_in_def Let_def by (intro keeps_dbind) (auto intro!: keeps_dbind)

lemma keeps_release_in: "keeps_facts d (snd (release_in env aid cid d))"
  unfolding release_in_def by (intro keeps_dbind) (auto split: option.split)

lemma keeps_allocate: "fs_keeps fs (snd (allocate env cfg s vs t lid fs))"
proof (induction vs)
  case Nil
  then show ?case by simp
next
  case (Cons v vs)
  have app: "fs_keeps fs (fs\<lparr>fs_entries := fs_entries fs @ xs\<rparr>)" for xs
    by (auto simp: fs_keeps_def map_add_def intro: keeps_refl split: option.split)
  show ?case
    using Cons app by (auto simp: Let_def split: sum.split prod.split)
qed

lemma keeps_apply: "fs_keeps fs (act_apply env cfg op fs)"
proof (cases op)
  case (OStart a ids t lid)
  have "fs_keeps fs (snd (allocate env cfg s vs t lid (take_lock fs1)))" if "prepare_root fs = Inr fs1" for s vs fs1
    by (rule fs_keeps_trans [OF fs_keeps_trans [OF fs_keeps_prepare [OF that] fs_keeps_lock] keeps_allocate])
  then show ?thesis by (auto simp: OStart act_start_def split: sum.split)
next
  case (ORelease aid cid)
  have "fs_keeps fs (snd (on_action i (release_in env i c) (take_lock fs)))" for i c
    by (rule fs_keeps_trans [OF fs_keeps_lock fs_keeps_on_action]) (rule keeps_release_in)
  then show ?thesis
    by (auto simp: ORelease release_reconciliation_def Let_def split: sum.split option.split fs_entry.split)
qed (auto simp: act_finish_def act_renew_def reconciliation_state_def claim_reconciliation_def
      finish_reconciliation_def Let_def
      intro: fs_keeps_locked keeps_finish_in keeps_finish_claimed_in keeps_renew_in keeps_claim_in
      split: sum.split prod.split option.split)

lemma keeps_run: "fs_keeps fs (act_run env cfg ops fs)"
proof (induction ops arbitrary: fs)
  case Nil
  then show ?case by (simp add: act_run_def)
next
  case (Cons op ops)
  then show ?case
    using keeps_apply fs_keeps_trans by (simp add: act_run_def) blast
qed

section \<open>Reading back\<close>

text \<open>What the store relies on from its library functions, and a well-formed configuration.\<close>

definition env_ok :: "doc_env \<Rightarrow> bool" where
  "env_ok env \<longleftrightarrow> iso_ok env \<and> json_len env (PDict []) = 2"

definition cfg_ok :: "store_cfg \<Rightarrow> bool" where
  "cfg_ok cfg \<longleftrightarrow> owner_id_re (sc_owner cfg) \<and> 0 < sc_lease_duration cfg"

lemma new_store_ok: "new_store owner dur = Inr cfg \<Longrightarrow> cfg_ok cfg"
  by (auto simp: new_store_def cfg_ok_def normalize_owner_id_def res_simps split: if_splits)

lemma metadata_ok_normal:
  assumes "env_ok env" and "normalize_metadata env v = Inr e"
  shows "metadata_ok env e"
proof (cases v)
  case PNone
  with assms have "e = []" by (simp add: normalize_metadata_def)
  with assms(1) show ?thesis
    by (simp add: metadata_ok_def normalize_metadata_def env_ok_def max_metadata_bytes_def)
next
  case (PDict d)
  with assms(2) have "normalize_json_value 0 v = Inr (PDict d)" "json_len env (PDict d) \<le> max_metadata_bytes" "e = d"
    by (auto simp: normalize_metadata_def res_simps dest: normalize_json_id simp del: normalize_json_value.simps
        split: if_splits)
  with PDict show ?thesis
    by (simp add: metadata_ok_def normalize_metadata_def del: normalize_json_value.simps)
qed (use assms in \<open>simp_all add: normalize_metadata_def\<close>)

lemma candidate_wf:
  assumes "env_ok env" and "in_range t" and "action_id_re aid" and "outcome_candidate env aid a t = Inr u"
  shows "outcome_wf env aid u"
  using assms iso_text_ok [of env t] iso_parse_text [of env t]
  by (auto simp: outcome_candidate_def outcome_wf_def outcome_error_ok_def res_simps env_ok_def
      dest: normalize_error_ok normalize_references_ok normalize_artifact_ok
      intro: metadata_ok_normal [unfolded env_ok_def])

lemma load_start_json:
  assumes "start_wf env (sc_owner cfg) s" and "ad_started d = Doc (start_json s)" and "as_action_id s = aid"
  shows "load_start env cfg aid d = Inr s"
  using validate_start_json [OF assms(1)] assms(2,3)
  by (auto simp: load_start_def read_json_object_def)

lemma load_start_agree: "ad_started d' = ad_started d \<Longrightarrow> load_start env cfg aid d' = load_start env cfg aid d"
  by (simp add: load_start_def)

lemma get_after_append:
  assumes "outcome_wf env aid u" and "load_start env cfg aid d = Inr s"
    and "append_outcome env s u d' = (Inr v, d'')" and "ad_started d' = ad_started d"
  shows "get_in env cfg aid d'' = Inr v \<and> ad_outcome d'' \<noteq> Absent"
proof -
  obtain p where "outcome_json u = PDict p" "validate_outcome env aid p = Inr u"
    using validate_outcome_json [OF assms(1)] by blast
  moreover have "v = project_action s (Some u)"
      "d'' = d'\<lparr>ad_outcome := Doc (outcome_json u), ad_lease := Absent, ad_claim := Absent\<rparr>"
    using assms(3) by (auto simp: append_outcome_def dbind_def json_bytes_def split: if_splits)
  ultimately show ?thesis
    using assms(2,4) load_start_agree [of d'' d env cfg aid] by (simp add: get_in_def read_json_object_def)
qed

lemma get_existing:
  assumes "load_start env cfg aid d = Inr s" and "existing_outcome env aid s u d = Inr (Some v)"
  shows "get_in env cfg aid d = Inr v \<and> ad_outcome d \<noteq> Absent"
  using assms by (auto simp: existing_outcome_def get_in_def res_simps split: if_splits)

lemma dbind_Inr: "dbind m d f = (Inr y, d') \<longleftrightarrow> (\<exists>x. m = Inr x \<and> f x = (Inr y, d'))"
  by (cases m) auto

lemma finish_in_get:
  assumes "outcome_wf env aid u" and "finish_in env cfg aid u t d = (Inr v, d')"
  shows "get_in env cfg aid d' = Inr v \<and> ad_outcome d' \<noteq> Absent"
proof -
  obtain s ex where s: "load_start env cfg aid d = Inr s" and ex: "existing_outcome env aid s u d = Inr ex"
      and rest: "(case ex of Some view \<Rightarrow> (Inr view, d)
       | None \<Rightarrow>
           dbind (load_claim env aid d) d (\<lambda>claim.
             if claim = None then append_outcome env s u d
             else dbind (held_at env claim_field t claim) d (\<lambda>held.
                    if held then (Inl (Conflict ''Action outcome is owned by repair''), d)
                    else append_outcome env s u (d\<lparr>ad_claim := Absent\<rparr>)))) = (Inr v, d')"
    using assms(2) by (auto simp: finish_in_def dbind_Inr)
  show ?thesis
  proof (cases ex)
    case None
    with rest have "append_outcome env s u d = (Inr v, d') \<or>
        append_outcome env s u (d\<lparr>ad_claim := Absent\<rparr>) = (Inr v, d')"
      by (auto simp: dbind_Inr split: if_splits)
    then show ?thesis
      using get_after_append [OF assms(1) s, of d] get_after_append [OF assms(1) s, of "d\<lparr>ad_claim := Absent\<rparr>"]
      by auto
  next
    case (Some view)
    with rest ex get_existing [OF s] show ?thesis by auto
  qed
qed

lemma finish_claimed_in_get:
  assumes "outcome_wf env aid u" and "finish_claimed_in env cfg aid c u d = (Inr v, d')"
  shows "get_in env cfg aid d' = Inr v \<and> ad_outcome d' \<noteq> Absent"
proof -
  obtain s ex where s: "load_start env cfg aid d = Inr s" and ex: "existing_outcome env aid s u d = Inr ex"
      and rest: "(case ex of Some view \<Rightarrow> (Inr view, d)
       | None \<Rightarrow>
           dbind (load_claim env aid d) d (\<lambda>claim.
             if map_option hd_token claim \<noteq> Some c
             then (Inl (Conflict ''Action repair claim is no longer owned''), d)
             else append_outcome env s u d)) = (Inr v, d')"
    using assms(2) unfolding finish_claimed_in_def dbind_Inr by blast
  show ?thesis
  proof (cases ex)
    case None
    with rest have "append_outcome env s u d = (Inr v, d')" by (auto simp: dbind_Inr split: if_splits)
    then show ?thesis using get_after_append [OF assms(1) s, of d] by auto
  next
    case (Some view)
    with rest ex get_existing [OF s] show ?thesis by auto
  qed
qed

text \<open>Once there is an outcome, a finish that succeeds only returns it.\<close>

lemma existing_is_get:
  assumes "ad_outcome d \<noteq> Absent" and "load_start env cfg aid d = Inr s"
    and "existing_outcome env aid s u d = Inr ex"
  shows "\<exists>v. ex = Some v \<and> get_in env cfg aid d = Inr v"
  using assms by (auto simp: existing_outcome_def get_in_def res_simps split: if_splits)

lemma finish_in_settled:
  assumes "ad_outcome d \<noteq> Absent" and "finish_in env cfg aid u t d = (Inr v, d')"
  shows "d' = d \<and> get_in env cfg aid d = Inr v"
  using assms existing_is_get [OF assms(1)]
  by (fastforce simp: finish_in_def dbind_Inr split: option.splits)

lemma finish_claimed_in_settled:
  assumes "ad_outcome d \<noteq> Absent" and "finish_claimed_in env cfg aid c u d = (Inr v, d')"
  shows "d' = d \<and> get_in env cfg aid d = Inr v"
  using assms existing_is_get [OF assms(1)]
  by (fastforce simp: finish_claimed_in_def dbind_Inr split: option.splits)

section \<open>From directories to the store\<close>

lemma on_action_Inr:
  assumes "on_action i f fs = (Inr v, fs')"
  obtains d d' where "map_of (fs_entries fs) i = Some (ActionDir d)" and "f d = (Inr v, d')"
    and "map_of (fs_entries fs') i = Some (ActionDir d')" and "fs_root fs' = fs_root fs"
  using assms by (auto simp: on_action_def Let_def split: option.splits fs_entry.splits prod.splits)

lemma take_lock_action:
  "map_of (fs_entries (take_lock fs)) i = Some (ActionDir d) \<longleftrightarrow> map_of (fs_entries fs) i = Some (ActionDir d)"
  by (cases "map_of (fs_entries fs) i") (simp_all add: take_lock_def map_add_def)

lemma locked_Inr:
  assumes "locked_action i f fs = (Inr v, fs')"
  obtains d d' where "map_of (fs_entries fs) i = Some (ActionDir d)" and "f d = (Inr v, d')"
    and "map_of (fs_entries fs') i = Some (ActionDir d')" and "fs_root fs \<noteq> RootUnsafe"
proof -
  obtain fs1 where p: "prepare_root fs = Inr fs1" and o: "on_action i f (take_lock fs1) = (Inr v, fs')"
    using assms by (cases "prepare_root fs") (auto simp: locked_action_def)
  from o obtain d d' where d: "map_of (fs_entries (take_lock fs1)) i = Some (ActionDir d)" "f d = (Inr v, d')"
      "map_of (fs_entries fs') i = Some (ActionDir d')"
    by (rule on_action_Inr)
  have "map_of (fs_entries fs) i = Some (ActionDir d)"
    using d(1) by (simp add: take_lock_action prepare_root_entries [OF p])
  moreover have "fs_root fs \<noteq> RootUnsafe" using p by (auto simp: prepare_root_def)
  ultimately show thesis using d(2,3) that by blast
qed

lemma act_get_dir:
  assumes "action_id_re i" and "map_of (fs_entries fs) i = Some (ActionDir d)"
  shows "act_get env cfg (PStr i) fs = get_in env cfg i d"
  using assms by (simp add: act_get_def validate_action_id_def validate_id_def on_action_def Let_def)

lemma validate_action_id_iff [res_simps]: "validate_action_id v = Inr i \<longleftrightarrow> v = PStr i \<and> action_id_re i"
  by (simp add: validate_action_id_def res_simps)

lemma act_finish_Inr:
  assumes "act_finish env cfg aid a t1 t2 fs = (Inr v, fs')"
  obtains i u where "aid = PStr i" and "action_id_re i" and "outcome_candidate env i a t1 = Inr u"
    and "locked_action i (finish_in env cfg i u t2) fs = (Inr v, fs')"
proof -
  obtain i u where "rbind (validate_action_id aid) (\<lambda>i. rbind (outcome_candidate env i a t1) (\<lambda>u. Inr (i, u))) = Inr (i, u)"
      and l: "locked_action i (finish_in env cfg i u t2) fs = (Inr v, fs')"
    using assms by (auto simp: act_finish_def split: sum.splits)
  then show thesis using that by (auto simp: res_simps)
qed

lemma finish_reconciliation_Inr:
  assumes "finish_reconciliation env cfg aid cid a t fs = (Inr v, fs')"
  obtains i c u where "aid = PStr i" and "action_id_re i" and "cid = PStr c" and "outcome_candidate env i a t = Inr u"
    and "locked_action i (finish_claimed_in env cfg i c u) fs = (Inr v, fs')"
proof -
  obtain i c u where "rbind (validate_action_id aid) (\<lambda>i. rbind (validate_repair_claim_id cid) (\<lambda>c.
        rbind (outcome_candidate env i a t) (\<lambda>u. Inr (i, c, u)))) = Inr (i, c, u)"
      and "locked_action i (finish_claimed_in env cfg i c u) fs = (Inr v, fs')"
    using assms by (auto simp: finish_reconciliation_def split: sum.splits)
  then show thesis using that by (auto simp: res_simps validate_repair_claim_id_def)
qed

text \<open>An attempt to record an outcome, by the worker or by the owner of a repair claim.\<close>

datatype attempt = ByWorker finish_args int int | ByRepair pyval finish_args int

fun try_outcome :: "doc_env \<Rightarrow> store_cfg \<Rightarrow> string \<Rightarrow> attempt \<Rightarrow> action_fs \<Rightarrow>
    (action_error + action_view) \<times> action_fs" where
  "try_outcome env cfg i (ByWorker a t1 t2) fs = act_finish env cfg (PStr i) a t1 t2 fs"
| "try_outcome env cfg i (ByRepair c a t) fs = finish_reconciliation env cfg (PStr i) c a t fs"

fun attempt_time :: "attempt \<Rightarrow> int" where
  "attempt_time (ByWorker a t1 t2) = t1"
| "attempt_time (ByRepair c a t) = t"

lemma try_outcome_get:
  assumes "env_ok env" and "in_range (attempt_time x)" and "try_outcome env cfg i x fs = (Inr v, fs')"
  shows "action_id_re i \<and> (\<exists>d'. map_of (fs_entries fs') i = Some (ActionDir d') \<and> ad_outcome d' \<noteq> Absent
    \<and> get_in env cfg i d' = Inr v)"
proof (cases x)
  case (ByWorker a t1 t2)
  with assms(3) have "act_finish env cfg (PStr i) a t1 t2 fs = (Inr v, fs')" by simp
  then obtain u where i: "action_id_re i" and u: "outcome_candidate env i a t1 = Inr u"
      and l: "locked_action i (finish_in env cfg i u t2) fs = (Inr v, fs')"
    by (rule act_finish_Inr) simp
  from l obtain d d' where "finish_in env cfg i u t2 d = (Inr v, d')" "map_of (fs_entries fs') i = Some (ActionDir d')"
    by (rule locked_Inr)
  with finish_in_get candidate_wf [OF assms(1) _ i u] assms(2) i ByWorker show ?thesis by auto
next
  case (ByRepair c0 a t)
  with assms(3) have "finish_reconciliation env cfg (PStr i) c0 a t fs = (Inr v, fs')" by simp
  then obtain c u where i: "action_id_re i" and u: "outcome_candidate env i a t = Inr u"
      and l: "locked_action i (finish_claimed_in env cfg i c u) fs = (Inr v, fs')"
    by (rule finish_reconciliation_Inr) simp
  from l obtain d d' where "finish_claimed_in env cfg i c u d = (Inr v, d')"
      "map_of (fs_entries fs') i = Some (ActionDir d')"
    by (rule locked_Inr)
  with finish_claimed_in_get candidate_wf [OF assms(1) _ i u] assms(2) i ByRepair show ?thesis by auto
qed

lemma try_outcome_settled:
  assumes "map_of (fs_entries fs) i = Some (ActionDir d)" and "ad_outcome d \<noteq> Absent"
    and "try_outcome env cfg i x fs = (Inr v, fs')"
  shows "get_in env cfg i d = Inr v"
proof (cases x)
  case (ByWorker a t1 t2)
  with assms(3) have "act_finish env cfg (PStr i) a t1 t2 fs = (Inr v, fs')" by simp
  then obtain u where l: "locked_action i (finish_in env cfg i u t2) fs = (Inr v, fs')"
    by (rule act_finish_Inr) simp
  from l obtain d0 d' where "map_of (fs_entries fs) i = Some (ActionDir d0)" "finish_in env cfg i u t2 d0 = (Inr v, d')"
    by (rule locked_Inr)
  with assms(1) have "finish_in env cfg i u t2 d = (Inr v, d')" by simp
  with finish_in_settled [OF assms(2)] show ?thesis by blast
next
  case (ByRepair c0 a t)
  with assms(3) have "finish_reconciliation env cfg (PStr i) c0 a t fs = (Inr v, fs')" by simp
  then obtain c u where l: "locked_action i (finish_claimed_in env cfg i c u) fs = (Inr v, fs')"
    by (rule finish_reconciliation_Inr) simp
  from l obtain d0 d' where "map_of (fs_entries fs) i = Some (ActionDir d0)"
      "finish_claimed_in env cfg i c u d0 = (Inr v, d')"
    by (rule locked_Inr)
  with assms(1) have "finish_claimed_in env cfg i c u d = (Inr v, d')" by simp
  with finish_claimed_in_settled [OF assms(2)] show ?thesis by blast
qed

section \<open>Retrying the same outcome\<close>

text \<open>A Python dictionary has no key twice, at any depth.\<close>

fun py_wf :: "pyval \<Rightarrow> bool"
  and py_wf_items :: "(pyval \<times> pyval) list \<Rightarrow> bool"
  and py_wf_elems :: "pyval list \<Rightarrow> bool" where
  "py_wf (PDict d) = (distinct (map fst d) \<and> py_wf_items d)"
| "py_wf (PList xs) = py_wf_elems xs"
| "py_wf _ = True"
| "py_wf_items [] = True"
| "py_wf_items ((k, v) # d) = (py_wf v \<and> py_wf_items d)"
| "py_wf_elems [] = True"
| "py_wf_elems (x # xs) = (py_wf x \<and> py_wf_elems xs)"

lemma py_eq_refl:
  "normalize_json_value n v = Inr w \<Longrightarrow> py_wf v \<Longrightarrow> py_eq v v"
  "normalize_items n d = Inr e' \<Longrightarrow> py_wf_items d \<Longrightarrow> (\<And>k v. (k, v) \<in> set d \<Longrightarrow> map_of e k = Some v) \<Longrightarrow>
    py_eq_items d e"
  "normalize_elems n xs = Inr ys \<Longrightarrow> py_wf_elems xs \<Longrightarrow> py_eq_elems xs xs"
proof (induction n v and n d and n xs arbitrary: w and e e' and ys
    rule: normalize_json_value_normalize_items_normalize_elems.induct)
  case (1 depth v)
  show ?case
  proof (cases v)
    case (PFloat f)
    with 1 show ?thesis by (cases f) (auto split: if_splits)
  next
    case (PList xs)
    with 1 show ?thesis by (auto simp: res_simps split: if_splits)
  next
    case (PDict d)
    with 1(1) obtain e' where "normalize_items (depth + 1) d = Inr e'"
      using 1(3) by (auto simp: res_simps split: if_splits)
    moreover have "\<And>k v. (k, v) \<in> set d \<Longrightarrow> map_of d k = Some v"
      using 1(4) PDict by simp
    ultimately have "py_eq_items d d"
      using 1 PDict by (auto split: if_splits)
    with PDict show ?thesis by simp
  qed (use 1 in auto)
next
  case (3 depth k v d)
  obtain x y where c: "metadata_key k" and x: "normalize_json_value depth v = Inr x"
      and y: "normalize_items depth d = Inr y"
    using 3(3) by (auto simp: res_simps simp del: normalize_json_value.simps)
  have "map_of e k = Some v" using 3(5) by simp
  moreover have "py_eq v v" using 3(1) [OF _ x] 3(4) c by (simp add: check_def)
  moreover have "py_eq_items d e" using 3(2) [OF _ x y] 3(4,5) c by (simp add: check_def)
  ultimately show ?case by simp
qed (auto simp: res_simps simp del: normalize_json_value.simps)

lemma metadata_refl:
  assumes "normalize_metadata env v = Inr e" and "py_wf v"
  shows "py_eq (PDict e) (PDict e)"
proof (cases v)
  case (PDict d)
  with assms(1) have "normalize_json_value 0 (PDict d) = Inr (PDict d)" and e: "e = d"
    by (auto simp: normalize_metadata_def res_simps dest: normalize_json_id simp del: normalize_json_value.simps
        split: if_splits)
  with assms(2) PDict have "py_eq (PDict d) (PDict d)"
    by (intro py_eq_refl(1)) auto
  with e show ?thesis by simp
qed (use assms in \<open>simp_all add: normalize_metadata_def\<close>)

lemma candidate_retime:
  assumes "outcome_candidate env aid a t = Inr u"
  shows "outcome_candidate env aid a t' = Inr (u\<lparr>ao_completed_at := iso_text env t'\<rparr>)"
  using assms by (auto simp: outcome_candidate_def res_simps)

lemma candidate_metadata:
  "outcome_candidate env aid a t = Inr u \<Longrightarrow> normalize_metadata env (fa_metadata a) = Inr (ao_metadata u)"
  by (auto simp: outcome_candidate_def res_simps)

lemma same_outcome_retime [simp]: "same_outcome u (v\<lparr>ao_completed_at := x\<rparr>) = same_outcome u v"
  by (simp add: same_outcome_def)

text \<open>The recorded outcome after a successful finish counts as the same as its candidate.\<close>

lemma finish_in_records:
  assumes "outcome_wf env aid u" and "py_eq (PDict (ao_metadata u)) (PDict (ao_metadata u))"
    and "finish_in env cfg aid u t d = (Inr v, d')"
  shows "\<exists>s p u'. load_start env cfg aid d' = Inr s \<and> ad_outcome d' \<noteq> Absent
    \<and> read_json_object (ad_outcome d') = Inr p \<and> validate_outcome env aid p = Inr u'
    \<and> same_outcome u' u \<and> v = project_action s (Some u')"
proof -
  obtain s ex where s: "load_start env cfg aid d = Inr s" and ex: "existing_outcome env aid s u d = Inr ex"
    using assms(3) by (auto simp: finish_in_def dbind_Inr)
  show ?thesis
  proof (cases ex)
    case None
    have "append_outcome env s u d = (Inr v, d') \<or> append_outcome env s u (d\<lparr>ad_claim := Absent\<rparr>) = (Inr v, d')"
      using assms(3) s ex None by (auto simp: finish_in_def dbind_Inr split: if_splits)
    then have "v = project_action s (Some u)" "ad_outcome d' = Doc (outcome_json u)" "ad_started d' = ad_started d"
      by (auto simp: append_outcome_def dbind_Inr json_bytes_def split: if_splits)
    moreover obtain p where "outcome_json u = PDict p" "validate_outcome env aid p = Inr u"
      using validate_outcome_json [OF assms(1)] by blast
    ultimately show ?thesis
      using s load_start_agree [of d' d env cfg aid] assms(2)
      by (auto simp: read_json_object_def same_outcome_def)
  next
    case (Some view)
    then have "d' = d" "v = view" using assms(3) s ex by (auto simp: finish_in_def dbind_Inr)
    with Some s ex show ?thesis by (auto simp: existing_outcome_def res_simps split: if_splits)
  qed
qed

lemma finish_in_again:
  assumes "load_start env cfg aid d = Inr s" and "ad_outcome d \<noteq> Absent"
    and "read_json_object (ad_outcome d) = Inr p" and "validate_outcome env aid p = Inr u'" and "same_outcome u' u"
  shows "finish_in env cfg aid u t d = (Inr (project_action s (Some u')), d)"
  using assms by (simp add: finish_in_def existing_outcome_def)

section \<open>Properties\<close>

text \<open>C7. Recorded facts are immutable: whatever operations follow, on this or any other action,
  the start record of an action stays as it is, and once it has an outcome file that file and
  everything \<open>get\<close> returns stay as they are.\<close>

theorem recorded_facts_are_immutable:
  assumes "action_id_re i" and "map_of (fs_entries fs) i = Some (ActionDir d)"
  shows "\<exists>d'. map_of (fs_entries (act_run env cfg ops fs)) i = Some (ActionDir d')
    \<and> ad_started d' = ad_started d
    \<and> (ad_outcome d \<noteq> Absent \<longrightarrow> ad_outcome d' = ad_outcome d
         \<and> act_get env cfg (PStr i) (act_run env cfg ops fs) = act_get env cfg (PStr i) fs)"
proof -
  obtain d' where d': "map_of (fs_entries (act_run env cfg ops fs)) i = Some (ActionDir d')" and k: "keeps_facts d d'"
    using keeps_run [of fs env cfg ops] assms(2) unfolding fs_keeps_def by blast
  have "get_in env cfg i d' = get_in env cfg i d" if "ad_outcome d \<noteq> Absent"
    using k that load_start_agree [of d' d env cfg i] by (simp add: get_in_def keeps_facts_def)
  with d' k assms show ?thesis by (auto simp: keeps_facts_def act_get_dir)
qed

text \<open>C8. The first outcome wins: once a worker's finish or a repair's finish has succeeded, then
  after any further operations \<open>get\<close> returns the same action, every later attempt that succeeds
  returns it too, and repeating a worker's finish with the same arguments does succeed.\<close>

theorem first_outcome_wins:
  assumes "env_ok env" and "in_range (attempt_time x)" and "try_outcome env cfg i x fs = (Inr v, fs1)"
    and "later = act_run env cfg ops fs1"
  shows "act_get env cfg (PStr i) later = Inr v
    \<and> (\<forall>y w fs2. try_outcome env cfg i y later = (Inr w, fs2) \<longrightarrow> w = v)
    \<and> (\<forall>a t1 t2 t3 t4. x = ByWorker a t1 t2 \<and> py_wf (fa_metadata a) \<and> fs_root later \<noteq> RootUnsafe \<longrightarrow>
         fst (act_finish env cfg (PStr i) a t3 t4 later) = Inr v)"
proof (intro conjI allI impI)
  obtain d1 where i: "action_id_re i" and d1: "map_of (fs_entries fs1) i = Some (ActionDir d1)"
      "ad_outcome d1 \<noteq> Absent" "get_in env cfg i d1 = Inr v"
    using try_outcome_get [OF assms(1-3)] by blast
  obtain d2 where d2: "map_of (fs_entries later) i = Some (ActionDir d2)" and k: "keeps_facts d1 d2"
    using keeps_run [of fs1 env cfg ops] d1(1) unfolding fs_keeps_def assms(4) by blast
  have out: "ad_outcome d2 = ad_outcome d1" and ls: "load_start env cfg i d2 = load_start env cfg i d1"
    using k d1(2) by (simp_all add: keeps_facts_def load_start_def)
  have g2: "get_in env cfg i d2 = Inr v"
    unfolding get_in_def out ls by (rule d1(3) [unfolded get_in_def])
  show "act_get env cfg (PStr i) later = Inr v"
    using act_get_dir [OF i d2] g2 by simp
  show "w = v" if "try_outcome env cfg i y later = (Inr w, fs2)" for y w fs2
    using try_outcome_settled [OF d2 _ that] out d1(2) g2 by simp
  show "fst (act_finish env cfg (PStr i) a t3 t4 later) = Inr v"
    if asm: "x = ByWorker a t1 t2 \<and> py_wf (fa_metadata a) \<and> fs_root later \<noteq> RootUnsafe" for a t1 t2 t3 t4
  proof -
    have "act_finish env cfg (PStr i) a t1 t2 fs = (Inr v, fs1)" using assms(3) asm by simp
    then obtain u where u: "outcome_candidate env i a t1 = Inr u"
        and l: "locked_action i (finish_in env cfg i u t2) fs = (Inr v, fs1)"
      by (rule act_finish_Inr) simp
    from l obtain d d' where "finish_in env cfg i u t2 d = (Inr v, d')" "map_of (fs_entries fs1) i = Some (ActionDir d')"
      by (rule locked_Inr)
    with d1(1) have f: "finish_in env cfg i u t2 d = (Inr v, d1)" by simp
    have wf: "outcome_wf env i u" using candidate_wf [OF assms(1) _ i u] assms(2) asm by simp
    have refl: "py_eq (PDict (ao_metadata u)) (PDict (ao_metadata u))"
      using metadata_refl [OF candidate_metadata [OF u]] asm by blast
    from finish_in_records [OF wf refl f] obtain s p u' where r: "load_start env cfg i d1 = Inr s"
        "read_json_object (ad_outcome d1) = Inr p" "validate_outcome env i p = Inr u'" "same_outcome u' u"
        "v = project_action s (Some u')" by blast
    let ?u = "u\<lparr>ao_completed_at := iso_text env t3\<rparr>"
    have again: "finish_in env cfg i ?u t4 d2 = (Inr v, d2)"
      using finish_in_again [of env cfg i d2 s p u' ?u t4] r out ls d1(2) by simp
    obtain fsp where fsp: "prepare_root later = Inr fsp"
      using asm by (cases "fs_root later") (auto simp: prepare_root_def)
    have "map_of (fs_entries (take_lock fsp)) i = Some (ActionDir d2)"
      using d2 by (simp add: take_lock_action prepare_root_entries [OF fsp])
    with again show ?thesis
      using i by (simp add: act_finish_def validate_action_id_def validate_id_def candidate_retime [OF u]
          locked_action_def fsp on_action_def)
  qed
qed

text \<open>A concrete timestamp format for the witnesses: the instant in decimal behind an at sign.\<close>

definition demo_env :: doc_env where
  "demo_env = \<lparr>json_len = (\<lambda>v. case v of PDict [] \<Rightarrow> 2 | _ \<Rightarrow> 200), iso_text = (\<lambda>t. CHR ''@'' # int_str t),
     iso_parse = (\<lambda>s. case s of [] \<Rightarrow> None | c # r \<Rightarrow> if c = CHR ''@'' then map_option Aware (py_int r) else None)\<rparr>"

definition demo_cfg :: store_cfg where
  "demo_cfg = \<lparr>sc_owner = ''u1'', sc_lease_duration = 10\<rparr>"

lemma length_dec: "n < 10 ^ k \<Longrightarrow> 0 < k \<Longrightarrow> length (dec n) \<le> k"
proof (induction k arbitrary: n)
  case 0
  then show ?case by simp
next
  case (Suc k)
  show ?case
  proof (cases "n < 10")
    case True
    then show ?thesis by (subst dec.simps) simp
  next
    case False
    then have k: "0 < k" using Suc.prems by (cases k) auto
    have "n div 10 < 10 ^ k" using Suc.prems by (simp add: less_mult_imp_div_less mult.commute)
    with Suc.IH k False show ?thesis by (subst dec.simps) simp
  qed
qed

lemma str_strip_ends:
  assumes "s \<noteq> []" and "\<not> is_space (hd s)" and "\<not> is_space (last s)"
  shows "str_strip s = s"
proof -
  have "dropWhile is_space s = s" using assms(1,2) by (cases s) auto
  moreover have "dropWhile is_space (rev s) = rev s"
    using assms(1,3) by (cases s rule: rev_cases) auto
  ultimately show ?thesis by (simp add: str_strip_def)
qed

lemma last_dec: "is_digit (last (dec n))"
  using dec_digits [of n] by (simp add: list_all_iff)

lemma py_int_str: "py_int (int_str t) = Some t"
proof (cases "t < 0")
  case True
  have "str_strip (CHR ''-'' # dec (nat (- t))) = CHR ''-'' # dec (nat (- t))"
    by (rule str_strip_ends) (use last_dec digit_not_special(1) in \<open>auto simp: is_space_def\<close>)
  with True show ?thesis by (simp add: int_str_def py_int_def)
qed (simp add: int_str_def)

lemma demo_env_ok: "env_ok demo_env"
proof -
  have "text_ok 64 (CHR ''@'' # int_str t)" if "in_range t" for t
  proof -
    have "nat (- t) < 10 ^ 18" "nat t < 10 ^ 18" using that by (auto simp: in_range_def)
    then have "length (dec (nat (- t))) \<le> 18" "length (dec (nat t)) \<le> 18"
      using length_dec [of "nat (- t)" 18] length_dec [of "nat t" 18] by auto
    moreover have "is_digit (last (int_str t))" using last_dec by (simp add: int_str_def)
    then have "str_strip (CHR ''@'' # int_str t) = CHR ''@'' # int_str t"
      by (intro str_strip_ends) (auto simp: is_space_def int_str_def dest: digit_not_special(1))
    moreover have "CHR 0x00 \<notin> set (dec n)" for n
      using dec_digits [of n] by (auto simp: list_all_iff is_digit_def)
    ultimately show ?thesis by (auto simp: text_ok_def int_str_def)
  qed
  then show ?thesis by (simp add: env_ok_def iso_ok_def demo_env_def py_int_str)
qed

definition demo_id :: string where "demo_id = ''act_00000000000000000000000000000000''"

definition demo_start :: start_args where
  "demo_start = \<lparr>sa_operation = PStr ''note.update'', sa_source = PStr ''user_api'', sa_assistant = PNone,
     sa_thread = PNone, sa_run = PNone,
     sa_references = PList [PDict [(PStr ''kind'', PStr ''note''), (PStr ''id'', PStr ''n1'')]], sa_metadata = PNone\<rparr>"

definition demo_finish :: finish_args where
  "demo_finish = \<lparr>fa_status = PStr ''succeeded'', fa_references = PNone, fa_before = PNone, fa_after = PNone,
     fa_evidence = PNone, fa_error = PNone, fa_metadata = PDict [(PStr ''n'', PInt 1)]\<rparr>"

definition empty_fs :: action_fs where
  "empty_fs = \<lparr>fs_root = RootMissing, fs_entries = []\<rparr>"

definition demo_started_fs :: action_fs where
  "demo_started_fs = snd (act_start demo_env demo_cfg demo_start [PStr demo_id] 0
     (PStr ''acl_00000000000000000000000000000000'') empty_fs)"

lemmas pattern_eval = action_id_re_def lease_id_re_def claim_id_re_def tagged_hex_def is_hex_def is_digit_def
  is_lower_def is_upper_def is_name_char_def operation_re_def reference_kind_re_def dotted_name_def owner_id_re_def

lemmas text_eval = bounded_text_def str_strip_def is_space_def max_reference_value_length_def Let_def

lemma demo_ids: "action_id_re demo_id" "lease_id_re ''acl_00000000000000000000000000000000''"
  "claim_id_re ''arc_00000000000000000000000000000000''" "operation_re ''note.update''"
  "owner_id_re ''u1''" "reference_kind_re ''note''"
  by (simp_all add: pattern_eval demo_id_def)

definition demo_record :: action_start where
  "demo_record = \<lparr>as_action_id = demo_id, as_owner = ''u1'', as_operation = ''note.update'', as_source = ''user_api'',
     as_assistant = None, as_thread = None, as_run = None,
     as_references = [\<lparr>rf_kind = ''note'', rf_id = ''n1'', rf_role = None\<rparr>],
     as_started_at = iso_text demo_env 0, as_metadata = []\<rparr>"

lemma demo_normalize: "normalize_start demo_env demo_cfg demo_start =
    Inr (demo_record\<lparr>as_action_id := '''', as_started_at := ''''\<rparr>)"
  using demo_ids
  by (simp add: normalize_start_def demo_start_def demo_cfg_def demo_record_def normalize_operation_def validate_id_def
      member_of_def action_sources_def text_eval normalize_references_def max_references_def normalize_reference_def
      get_key_def add_reference_def normalize_metadata_def)

definition demo_dir :: action_dir where
  "demo_dir = \<lparr>ad_started = Doc (start_json demo_record), ad_outcome = Absent,
     ad_lease = Doc (lease_json (hold_at demo_env demo_id ''acl_00000000000000000000000000000000'' 0 10)),
     ad_claim = Absent\<rparr>"

definition demo_fs :: action_fs where
  "demo_fs = \<lparr>fs_root = RootDir, fs_entries = [(lock_name, UnsafeEntry), (demo_id, ActionDir demo_dir)]\<rparr>"

lemma demo_json_len: "json_len demo_env (start_json s) = 200" "json_len demo_env (lease_json h) = 200"
  "json_len demo_env (claim_json h) = 200" "json_len demo_env (outcome_json u) = 200"
  by (simp_all add: demo_env_def start_json_def lease_json_def claim_json_def outcome_json_def)

lemma demo_json_bytes: "json_bytes demo_env (start_json s) = Inr (start_json s)"
  "json_bytes demo_env (lease_json h) = Inr (lease_json h)" "json_bytes demo_env (claim_json h) = Inr (claim_json h)"
  "json_bytes demo_env (outcome_json u) = Inr (outcome_json u)"
  by (simp_all add: json_bytes_def demo_json_len max_document_bytes_def)

lemma demo_cfg_fields: "sc_lease_duration demo_cfg = 10" "sc_owner demo_cfg = ''u1''"
  by (simp_all add: demo_cfg_def)

lemma demo_start_run: "act_start demo_env demo_cfg demo_start [PStr demo_id] 0
     (PStr ''acl_00000000000000000000000000000000'') empty_fs = (Inr (project_action demo_record None), demo_fs)"
proof -
  have ne: "demo_id \<noteq> lock_name" by (simp add: demo_id_def lock_name_def)
  have lid: "validate_lease_id (PStr ''acl_00000000000000000000000000000000'') =
      Inr ''acl_00000000000000000000000000000000''"
    unfolding validate_lease_id_def validate_id_def using demo_ids(2) by simp
  show ?thesis
    using demo_ids(1) ne
    by (simp add: act_start_def demo_normalize empty_fs_def prepare_root_def take_lock_def validate_action_id_def
        validate_id_def lid demo_json_bytes demo_fs_def demo_dir_def demo_cfg_fields Let_def)
      (simp add: demo_record_def)
qed

lemma demo_in_range: "in_range 0" "in_range 5" "in_range 10" "in_range 20" "in_range 25" "in_range 30" "in_range 40"
  by (simp_all add: in_range_def)

lemma demo_iso: "iso_ok demo_env"
  using demo_env_ok by (simp add: env_ok_def)

lemma demo_record_wf: "start_wf demo_env (sc_owner demo_cfg) demo_record"
proof -
  have "text_ok 512 ''n1''" by (simp add: text_ok_def str_strip_def is_space_def)
  moreover have "metadata_ok demo_env []"
    by (rule metadata_ok_normal [OF demo_env_ok, of PNone]) (simp add: normalize_metadata_def)
  ultimately show ?thesis
    using demo_ids iso_text_ok [OF demo_iso demo_in_range(1)] iso_parse_text [OF demo_iso demo_in_range(1)]
    by (simp add: start_wf_def demo_record_def demo_cfg_def action_sources_def refs_ok_def max_references_def
        ref_ok_def max_reference_value_length_def identity_ok_def)
qed

lemma demo_load: "ad_started d = ad_started demo_dir \<Longrightarrow> load_start demo_env demo_cfg demo_id d = Inr demo_record"
  by (rule load_start_json [OF demo_record_wf]) (simp_all add: demo_dir_def demo_record_def)

definition demo_outcome :: "int \<Rightarrow> action_outcome" where
  "demo_outcome t = \<lparr>ao_action_id = demo_id, ao_status = ''succeeded'', ao_completed_at = iso_text demo_env t,
     ao_references = [], ao_before = None, ao_after = None, ao_evidence = [], ao_error = None,
     ao_metadata = [(PStr ''n'', PInt 1)]\<rparr>"

lemma demo_candidate: "outcome_candidate demo_env demo_id demo_finish t = Inr (demo_outcome t)"
proof -
  have "normalize_metadata demo_env (PDict [(PStr ''n'', PInt 1)]) = Inr [(PStr ''n'', PInt 1)]"
    by (simp add: normalize_metadata_def metadata_key_def demo_env_def max_metadata_bytes_def)
  then show ?thesis
    by (simp add: outcome_candidate_def demo_finish_def demo_outcome_def member_of_def terminal_statuses_def
        action_statuses_def unsuccessful_def normalize_error_def normalize_references_def normalize_artifact_def)
qed

definition demo_finished_dir :: "int \<Rightarrow> action_dir" where
  "demo_finished_dir t = demo_dir\<lparr>ad_outcome := Doc (outcome_json (demo_outcome t)), ad_lease := Absent,
     ad_claim := Absent\<rparr>"

lemma demo_append:
  "ad_started d = ad_started demo_dir \<Longrightarrow> append_outcome demo_env demo_record (demo_outcome t) d =
    (Inr (project_action demo_record (Some (demo_outcome t))), demo_finished_dir t)"
  by (simp add: append_outcome_def demo_json_bytes demo_finished_dir_def demo_dir_def)

definition demo_fs_with :: "action_dir \<Rightarrow> action_fs" where
  "demo_fs_with d = \<lparr>fs_root = RootDir, fs_entries = [(lock_name, UnsafeEntry), (demo_id, ActionDir d)]\<rparr>"

lemma demo_locked: "f d = (r, d') \<Longrightarrow> locked_action demo_id f (demo_fs_with d) = (r, demo_fs_with d')"
  using demo_ids(1)
  by (simp add: demo_fs_with_def locked_action_def prepare_root_def take_lock_def on_action_def demo_id_def lock_name_def)

lemma demo_finish_run:
  "act_finish demo_env demo_cfg (PStr demo_id) demo_finish t u (demo_fs_with demo_dir) =
    (Inr (project_action demo_record (Some (demo_outcome t))), demo_fs_with (demo_finished_dir t))"
proof -
  have "finish_in demo_env demo_cfg demo_id (demo_outcome t) u demo_dir =
      (Inr (project_action demo_record (Some (demo_outcome t))), demo_finished_dir t)"
    by (simp add: finish_in_def demo_load demo_append existing_outcome_def load_claim_def)
      (simp add: demo_dir_def)
  then show ?thesis
    using demo_ids(1) demo_locked
    by (simp add: act_finish_def validate_action_id_def validate_id_def demo_candidate)
qed

lemma demo_fs_lookup [simp]: "map_of (fs_entries (demo_fs_with d)) demo_id = Some (ActionDir d)"
    "fs_root (demo_fs_with d) = RootDir" "ad_outcome (demo_finished_dir t) \<noteq> Absent"
  by (simp_all add: demo_fs_with_def demo_id_def lock_name_def demo_finished_dir_def)

theorem recorded_facts_are_immutable_witness:
  "act_get demo_env demo_cfg (PStr demo_id)
     (act_run demo_env demo_cfg [OFinish (PStr demo_id) demo_finish 20 25, ORelease (PStr demo_id) PNone]
       (demo_fs_with (demo_finished_dir 5))) =
   act_get demo_env demo_cfg (PStr demo_id) (demo_fs_with (demo_finished_dir 5))"
  using recorded_facts_are_immutable [OF demo_ids(1), of "demo_fs_with (demo_finished_dir 5)" "demo_finished_dir 5"
      demo_env demo_cfg "[OFinish (PStr demo_id) demo_finish 20 25, ORelease (PStr demo_id) PNone]"]
  by auto

theorem first_outcome_wins_witness:
  "act_get demo_env demo_cfg (PStr demo_id) (demo_fs_with (demo_finished_dir 5)) =
     Inr (project_action demo_record (Some (demo_outcome 5)))
   \<and> fst (act_finish demo_env demo_cfg (PStr demo_id) demo_finish 30 40 (demo_fs_with (demo_finished_dir 5))) =
     Inr (project_action demo_record (Some (demo_outcome 5)))"
  using first_outcome_wins [where x = "ByWorker demo_finish 5 10" and ops = "[]" and env = demo_env and cfg = demo_cfg
      and i = demo_id and fs = "demo_fs_with demo_dir" and ?fs1.0 = "demo_fs_with (demo_finished_dir 5)"
      and later = "demo_fs_with (demo_finished_dir 5)", OF demo_env_ok] demo_finish_run [of 5 10] demo_in_range(2)
  by (simp add: act_run_def demo_finish_def)

section \<open>Leases and repair claims\<close>

lemma held_mono: "held_at env f t h = Inr False \<Longrightarrow> t \<le> t' \<Longrightarrow> held_at env f t' h = Inr False"
  by (auto simp: held_at_def res_simps split: option.splits)

lemma state_cases:
  assumes "reconciliation_state_in env cfg i t d = Inr x" and "x \<noteq> ''terminal''"
  obtains s lease where "load_start env cfg i d = Inr s" and "ad_outcome d = Absent"
    and "load_lease env i d = Inr lease"
    and "x = ''active'' \<and> held_at env lease_field t lease = Inr True
       \<or> held_at env lease_field t lease = Inr False \<and> (\<exists>claim. load_claim env i d = Inr claim
            \<and> (x = ''claimed'' \<and> held_at env claim_field t claim = Inr True
               \<or> x = ''eligible'' \<and> held_at env claim_field t claim = Inr False))"
proof -
  obtain s where s: "load_start env cfg i d = Inr s" and o: "ad_outcome d = Absent"
    using assms by (cases "load_start env cfg i d"; cases "ad_outcome d = Absent")
      (simp_all add: reconciliation_state_in_def)
  then obtain lease b where l: "load_lease env i d = Inr lease" "held_at env lease_field t lease = Inr b"
      and rest: "(if b then Inr ''active''
        else rbind (load_claim env i d) (\<lambda>claim. rbind (held_at env claim_field t claim) (\<lambda>claimed.
               Inr (if claimed then ''claimed'' else ''eligible'')))) = Inr x"
    using assms(1) by (auto simp: reconciliation_state_in_def rbind_Inr_iff [of "load_lease env i d"]
        rbind_Inr_iff [of "held_at env lease_field t l" for l])
  show thesis
  proof (cases b)
    case True
    with s o l rest that show ?thesis by auto
  next
    case False
    with rest obtain claim c where "load_claim env i d = Inr claim" "held_at env claim_field t claim = Inr c"
        "x = (if c then ''claimed'' else ''eligible'')"
      by (auto simp: res_simps)
    with s o l False that show ?thesis by (cases c) auto
  qed
qed

text \<open>C9. Worker and repair exclude each other while they hold an action: under an active lease
  no claim is granted; under a live claim neither the worker's finish nor a renewal is accepted
  and no second claim is granted, and the action is untouched; and a claim granted on an
  eligible action is live from then on for its duration, whatever the lease file still holds.\<close>

theorem lease_claim_protocol:
  assumes "iso_ok env"
  shows "(reconciliation_state_in env cfg i t d = Inr ''active'' \<longrightarrow>
           claim_in env cfg i dur cid t d = (Inr None, d))
    \<and> (reconciliation_state_in env cfg i t d = Inr ''claimed'' \<longrightarrow>
         claim_in env cfg i dur cid t d = (Inr None, d)
         \<and> (\<exists>m. finish_in env cfg i u t d = (Inl (Conflict m), d))
         \<and> (\<exists>m. renew_in env cfg i dur lid t t2 d = (Inl (Conflict m), d)))
    \<and> (reconciliation_state_in env cfg i t d = Inr ''eligible'' \<and> claim_id_re c \<and> 0 < dur
         \<and> in_range t \<and> in_range (t + dur)
         \<and> json_len env (claim_json (hold_at env i c t (t + dur))) \<le> max_document_bytes \<longrightarrow>
         (\<exists>d'. claim_in env cfg i dur (PStr c) t d = (Inr (Some c), d')
           \<and> (\<forall>t'. t \<le> t' \<longrightarrow> reconciliation_state_in env cfg i t' d' =
                Inr (if t' < t + dur then ''claimed'' else ''eligible''))))"
proof (intro conjI impI)
  assume "reconciliation_state_in env cfg i t d = Inr ''active''"
  then obtain s lease where "load_start env cfg i d = Inr s" "ad_outcome d = Absent"
      "load_lease env i d = Inr lease" "held_at env lease_field t lease = Inr True"
    by (rule state_cases) auto
  then show "claim_in env cfg i dur cid t d = (Inr None, d)" by (simp add: claim_in_def)
next
  assume "reconciliation_state_in env cfg i t d = Inr ''claimed''"
  then obtain s lease claim where st: "load_start env cfg i d = Inr s" "ad_outcome d = Absent"
      "load_lease env i d = Inr lease" "held_at env lease_field t lease = Inr False"
      "load_claim env i d = Inr claim" "held_at env claim_field t claim = Inr True"
    by (rule state_cases) auto
  moreover from st(6) obtain h where "claim = Some h" by (cases claim) (simp_all add: held_at_def)
  ultimately show "claim_in env cfg i dur cid t d = (Inr None, d)"
    and "\<exists>m. finish_in env cfg i u t d = (Inl (Conflict m), d)"
    and "\<exists>m. renew_in env cfg i dur lid t t2 d = (Inl (Conflict m), d)"
    by (simp_all add: claim_in_def finish_in_def renew_in_def existing_outcome_def)
next
  assume asm: "reconciliation_state_in env cfg i t d = Inr ''eligible'' \<and> claim_id_re c \<and> 0 < dur
         \<and> in_range t \<and> in_range (t + dur)
         \<and> json_len env (claim_json (hold_at env i c t (t + dur))) \<le> max_document_bytes"
  then have "reconciliation_state_in env cfg i t d = Inr ''eligible''" by simp
  then obtain s lease claim where st: "load_start env cfg i d = Inr s" "ad_outcome d = Absent"
      "load_lease env i d = Inr lease" "held_at env lease_field t lease = Inr False"
      "load_claim env i d = Inr claim" "held_at env claim_field t claim = Inr False"
    by (rule state_cases) auto
  let ?h = "hold_at env i c t (t + dur)" and ?d = "d\<lparr>ad_claim := Doc (claim_json (hold_at env i c t (t + dur)))\<rparr>"
  have cl: "load_claim env i ?d = Inr (Some ?h)"
    using validate_claim_json [OF assms, of c t "t + dur" i] asm
    by (auto simp: load_claim_def read_json_object_def)
  have "held_at env claim_field t' (Some ?h) = Inr (t' < t + dur)" for t'
    using asm by (simp add: held_at_def hold_at_def parse_aware_iso [OF assms])
  moreover have "load_start env cfg i ?d = Inr s" "load_lease env i ?d = Inr lease" "ad_outcome ?d = Absent"
    using st load_start_agree [of ?d d env cfg i] by (auto simp: load_lease_def)
  moreover have "t \<le> t' \<Longrightarrow> held_at env lease_field t' lease = Inr False" for t'
    using held_mono st(4) by blast
  ultimately have "\<forall>t'. t \<le> t' \<longrightarrow> reconciliation_state_in env cfg i t' ?d =
      Inr (if t' < t + dur then ''claimed'' else ''eligible'')"
    by (simp add: reconciliation_state_in_def cl)
  moreover have "claim_in env cfg i dur (PStr c) t d = (Inr (Some c), ?d)"
    using st asm by (simp add: claim_in_def validate_repair_claim_id_def validate_id_def Let_def json_bytes_def)
  ultimately show "\<exists>d'. claim_in env cfg i dur (PStr c) t d = (Inr (Some c), d')
           \<and> (\<forall>t'. t \<le> t' \<longrightarrow> reconciliation_state_in env cfg i t' d' =
                Inr (if t' < t + dur then ''claimed'' else ''eligible''))"
    by blast
qed

theorem lease_claim_protocol_witness:
  "claim_in demo_env demo_cfg demo_id 5 PNone 9 demo_dir = (Inr None, demo_dir)"
proof -
  obtain p where p: "lease_json (hold_at demo_env demo_id ''acl_00000000000000000000000000000000'' 0 10) = PDict p"
      "validate_lease demo_env demo_id p = Inr (hold_at demo_env demo_id ''acl_00000000000000000000000000000000'' 0 10)"
    using validate_lease_json [OF demo_iso demo_ids(2), of 0 10 demo_id] demo_in_range by auto
  have "held_at demo_env lease_field 9 (Some (hold_at demo_env demo_id ''acl_00000000000000000000000000000000'' 0 10)) = Inr True"
    using demo_in_range by (simp add: held_at_def hold_at_def parse_aware_iso [OF demo_iso])
  with p have "reconciliation_state_in demo_env demo_cfg demo_id 9 demo_dir = Inr ''active''"
    by (simp add: reconciliation_state_in_def demo_load load_lease_def read_json_object_def)
      (simp add: demo_dir_def read_json_object_def)
  with lease_claim_protocol [OF demo_iso] show ?thesis by blast
qed

section \<open>Starting\<close>

lemma normalize_start_wf:
  assumes "env_ok env" and "cfg_ok cfg" and "normalize_start env cfg a = Inr s" and "action_id_re i" and "in_range t"
  shows "start_wf env (sc_owner cfg) (s\<lparr>as_action_id := i, as_started_at := iso_text env t\<rparr>)"
proof -
  have e: "iso_ok env" using assms(1) by (simp add: env_ok_def)
  show ?thesis
    using assms iso_text_ok [OF e assms(5)] iso_parse_text [OF e assms(5)]
    by (auto simp: normalize_start_def start_wf_def cfg_ok_def res_simps normalize_operation_def identity_ok_def
        split: if_splits dest: bounded_text_ok normalize_references_ok intro: metadata_ok_normal)
qed

lemma allocate_Inr:
  assumes "allocate env cfg s vs t lid fs = (Inr v, fs')"
  obtains i l where "action_id_re i" and "i \<notin> fst ` set (fs_entries fs)" and "lease_id_re l"
    and "v = project_action (s\<lparr>as_action_id := i, as_started_at := iso_text env t\<rparr>) None"
    and "fs' = fs\<lparr>fs_entries := fs_entries fs @ [(i, ActionDir
        \<lparr>ad_started = Doc (start_json (s\<lparr>as_action_id := i, as_started_at := iso_text env t\<rparr>)), ad_outcome = Absent,
         ad_lease = Doc (lease_json (hold_at env i l t (t + sc_lease_duration cfg))), ad_claim = Absent\<rparr>)]\<rparr>"
  using assms
proof (induction vs)
  case Nil
  then show ?case by simp
next
  case (Cons x xs)
  then obtain i where i: "validate_action_id x = Inr i" by (auto split: sum.splits)
  show ?case
  proof (cases "i \<in> fst ` set (fs_entries fs)")
    case True
    with Cons i show ?thesis by simp
  next
    case False
    let ?s = "s\<lparr>as_action_id := i, as_started_at := iso_text env t\<rparr>"
    obtain l where l: "validate_lease_id lid = Inr l"
      using Cons.prems(2) i False by (auto simp: Let_def split: sum.splits)
    let ?h = "hold_at env i l t (t + sc_lease_duration cfg)"
    obtain p q where pq: "json_bytes env (start_json ?s) = Inr p" "json_bytes env (lease_json ?h) = Inr q"
      using Cons.prems(2) i False l
      by (cases "json_bytes env (start_json ?s)"; cases "json_bytes env (lease_json ?h)") (auto simp: Let_def)
    then have "p = start_json ?s" "q = lease_json ?h" by (auto simp: json_bytes_def split: if_splits)
    moreover have "lease_id_re l" using l by (simp add: validate_lease_id_def res_simps)
    ultimately show ?thesis
      using Cons.prems i False l pq by (auto simp: Let_def res_simps)
  qed
qed

text \<open>A start that succeeds returns a running action under a fresh id, which \<open>get\<close> reads back
  unchanged and whose worker lease is active until the lease duration has passed; every other
  action keeps its recorded facts.\<close>

lemma started_action_is_leased:
  assumes "env_ok env" and "cfg_ok cfg" and "in_range t" and "in_range (t + sc_lease_duration cfg)"
    and "act_start env cfg a ids t lid fs = (Inr v, fs')"
  shows "map_of (fs_entries fs) (av_action_id v) = None \<and> av_status v = ''running''
    \<and> act_get env cfg (PStr (av_action_id v)) fs' = Inr v
    \<and> (\<forall>t'. inspect_reconciliation_state env cfg (PStr (av_action_id v)) t' fs' =
          Inr (if t' < t + sc_lease_duration cfg then ''active'' else ''eligible''))
    \<and> fs_keeps fs fs'"
proof -
  obtain s fs1 where n: "normalize_start env cfg a = Inr s" and p: "prepare_root fs = Inr fs1"
      and al: "allocate env cfg s (take 10 ids) t lid (take_lock fs1) = (Inr v, fs')"
    using assms(5) by (auto simp: act_start_def split: sum.splits)
  let ?s = "\<lambda>i. s\<lparr>as_action_id := i, as_started_at := iso_text env t\<rparr>"
  let ?d = "\<lambda>i l. \<lparr>ad_started = Doc (start_json (?s i)), ad_outcome = Absent,
         ad_lease = Doc (lease_json (hold_at env i l t (t + sc_lease_duration cfg))), ad_claim = Absent\<rparr>"
  obtain i l where i: "action_id_re i" "i \<notin> fst ` set (fs_entries (take_lock fs1))" "lease_id_re l"
      and v: "v = project_action (?s i) None"
      and fs': "fs' = (take_lock fs1)\<lparr>fs_entries := fs_entries (take_lock fs1) @ [(i, ActionDir (?d i l))]\<rparr>"
    using al by (rule allocate_Inr)
  have iso: "iso_ok env" using assms(1) by (simp add: env_ok_def)
  have "fst ` set (fs_entries fs) \<subseteq> fst ` set (fs_entries (take_lock fs1))"
    by (auto simp: take_lock_def prepare_root_entries [OF p])
  with i(2) have fresh: "map_of (fs_entries fs) i = None" by (auto simp: map_of_None_iff)
  have id: "av_action_id v = i" by (simp add: v project_action_def)
  have found: "map_of (fs_entries fs') i = Some (ActionDir (?d i l))"
  proof -
    have "map_of (fs_entries (take_lock fs1)) i = None" using i(2) by (simp only: map_of_None_iff not_False_eq_True)
    then show ?thesis by (simp add: fs' map_add_def)
  qed
  have ls: "load_start env cfg i (?d i l) = Inr (?s i)"
    by (rule load_start_json [OF normalize_start_wf [OF assms(1,2) n i(1) assms(3)]]) simp_all
  have "0 < sc_lease_duration cfg" using assms(2) by (simp add: cfg_ok_def)
  then have "load_lease env i (?d i l) = Inr (Some (hold_at env i l t (t + sc_lease_duration cfg)))"
    using validate_lease_json [OF iso i(3), of t "t + sc_lease_duration cfg" i] assms(3,4)
    by (auto simp: load_lease_def read_json_object_def)
  moreover have "held_at env lease_field t' (Some (hold_at env i l t (t + sc_lease_duration cfg))) =
      Inr (t' < t + sc_lease_duration cfg)" for t'
    using assms(4) by (simp add: held_at_def hold_at_def parse_aware_iso [OF iso])
  ultimately have "reconciliation_state_in env cfg i t' (?d i l) =
      Inr (if t' < t + sc_lease_duration cfg then ''active'' else ''eligible'')" for t'
    using ls by (simp add: reconciliation_state_in_def load_claim_def held_at_def)
  then have "inspect_reconciliation_state env cfg (PStr i) t' fs' =
      Inr (if t' < t + sc_lease_duration cfg then ''active'' else ''eligible'')" for t'
    using i(1) found by (simp add: inspect_reconciliation_state_def validate_action_id_def validate_id_def
        on_action_def Let_def)
  moreover have "act_get env cfg (PStr i) fs' = Inr v"
    using act_get_dir [OF i(1) found] ls v by (simp add: get_in_def)
  moreover have "av_status v = ''running''" by (simp add: v project_action_def)
  moreover have "fs_keeps fs fs'"
    using fs_keeps_trans [OF fs_keeps_trans [OF fs_keeps_prepare [OF p] fs_keeps_lock] keeps_allocate] al
    by (metis snd_conv)
  ultimately show ?thesis using fresh id by simp
qed

lemma demo_cfg_ok: "cfg_ok demo_cfg"
  using demo_ids by (simp add: cfg_ok_def demo_cfg_def)

section \<open>An expired claim after a renewal\<close>

lemma renew_in_Renewed:
  assumes "renew_in env cfg i dur lid t1 t2 d = (Inr (Renewed h), d')"
  obtains s tok where "load_start env cfg i d = Inr s" and "ad_outcome d = Absent" and "lease_id_re tok"
    and "h = hold_at env i tok t2 (t2 + dur)" and "d' = d\<lparr>ad_lease := Doc (lease_json h)\<rparr>"
proof -
  obtain s where s: "load_start env cfg i d = Inr s" and o: "ad_outcome d = Absent"
    using assms by (cases "ad_outcome d = Absent") (auto simp: renew_in_def dbind_Inr)
  then obtain current where cur: "load_lease env i d = Inr current"
      and rest: "dbind (case current of Some h \<Rightarrow> Inr (hd_token h) | None \<Rightarrow> validate_lease_id lid) d (\<lambda>tok.
         let lease = hold_at env i tok t2 (t2 + dur)
         in dbind (json_bytes env (lease_json lease)) d (\<lambda>l. (Inr (Renewed lease), d\<lparr>ad_lease := Doc l\<rparr>))) =
         (Inr (Renewed h), d')"
    using assms by (auto simp: renew_in_def dbind_Inr split: if_splits)
  obtain tok where tok: "(case current of Some h \<Rightarrow> Inr (hd_token h) | None \<Rightarrow> validate_lease_id lid) = Inr tok"
      and wr: "dbind (json_bytes env (lease_json (hold_at env i tok t2 (t2 + dur)))) d
         (\<lambda>l. (Inr (Renewed (hold_at env i tok t2 (t2 + dur))), d\<lparr>ad_lease := Doc l\<rparr>)) = (Inr (Renewed h), d')"
    using rest unfolding dbind_Inr [of "case current of Some h \<Rightarrow> Inr (hd_token h) | None \<Rightarrow> validate_lease_id lid"] Let_def
    by blast
  have h: "h = hold_at env i tok t2 (t2 + dur)" and d': "d' = d\<lparr>ad_lease := Doc (lease_json h)\<rparr>"
    using wr by (auto simp: dbind_def json_bytes_def split: if_splits)
  have "lease_id_re tok"
  proof (cases current)
    case None
    with tok show ?thesis by (simp add: validate_lease_id_def res_simps)
  next
    case (Some g)
    then obtain p where "validate_lease env i p = Inr g"
      using cur by (auto simp: load_lease_def res_simps split: if_splits)
    then have "lease_id_re (hd_token g)"
      by (auto simp: validate_lease_def res_simps is_token_def str_of_def split: if_splits pyval.splits)
    with Some tok show ?thesis by simp
  qed
  then show thesis by (rule that [OF s o _ h d'])
qed

text \<open>C10. \<open>finish_reconciliation\<close> looks at who owns the claim file, not at its expiry, and
  \<open>renew\<close> leaves an expired claim file in place.  So after a claim has expired and the worker
  has renewed its lease, the action is active, and the former claim owner's outcome is still
  accepted over the running worker.\<close>

theorem expired_claim_overrides_active_worker:
  assumes "iso_ok env" and "0 < dur" and "in_range t" and "in_range (t + dur)"
    and "load_claim env i d = Inr (Some g)" and "held_at env claim_field t (Some g) = Inr False"
    and "renew_in env cfg i dur lid t t d = (Inr (Renewed h), d')"
    and "json_len env (outcome_json u) \<le> max_document_bytes"
  shows "reconciliation_state_in env cfg i t d' = Inr ''active''
    \<and> (\<exists>v d''. finish_claimed_in env cfg i (hd_token g) u d' = (Inr v, d'') \<and> ad_outcome d'' = Doc (outcome_json u))"
proof -
  obtain s tok where s: "load_start env cfg i d = Inr s" "ad_outcome d = Absent" "lease_id_re tok"
      and h: "h = hold_at env i tok t (t + dur)" and d': "d' = d\<lparr>ad_lease := Doc (lease_json h)\<rparr>"
    using assms(7) by (rule renew_in_Renewed)
  have ls: "load_start env cfg i d' = Inr s" using s(1) load_start_agree [of d' d] d' by simp
  have "load_lease env i d' = Inr (Some h)"
    using validate_lease_json [OF assms(1) s(3), of t "t + dur" i] assms(2-4)
    by (auto simp: d' h load_lease_def read_json_object_def)
  moreover have "held_at env lease_field t (Some h) = Inr True"
    using assms(2) by (simp add: held_at_def h hold_at_def parse_aware_iso [OF assms(1,4)])
  ultimately have "reconciliation_state_in env cfg i t d' = Inr ''active''"
    using ls s(2) by (simp add: reconciliation_state_in_def d')
  moreover have "load_claim env i d' = Inr (Some g)" "ad_outcome d' = Absent"
    using assms(5) s(2) by (auto simp: load_claim_def d')
  then have "finish_claimed_in env cfg i (hd_token g) u d' =
      (Inr (project_action s (Some u)), d'\<lparr>ad_outcome := Doc (outcome_json u), ad_lease := Absent, ad_claim := Absent\<rparr>)"
    using ls assms(8)
    by (simp add: finish_claimed_in_def existing_outcome_def append_outcome_def json_bytes_def)
  ultimately show ?thesis by simp
qed

definition demo_claimed_dir :: action_dir where
  "demo_claimed_dir = demo_dir\<lparr>ad_claim := Doc (claim_json
     (hold_at demo_env demo_id ''arc_00000000000000000000000000000000'' 20 25))\<rparr>"

theorem expired_claim_overrides_active_worker_witness:
  "\<exists>d'. reconciliation_state_in demo_env demo_cfg demo_id 30 d' = Inr ''active''
    \<and> (\<exists>v d''. finish_claimed_in demo_env demo_cfg demo_id ''arc_00000000000000000000000000000000''
        (demo_outcome 30) d' = (Inr v, d''))"
proof -
  let ?g = "hold_at demo_env demo_id ''arc_00000000000000000000000000000000'' 20 25"
  obtain p where "claim_json ?g = PDict p" "validate_repair_claim demo_env demo_id p = Inr ?g"
    using validate_claim_json [OF demo_iso demo_ids(3), of 20 25 demo_id] demo_in_range by auto
  then have claim: "load_claim demo_env demo_id demo_claimed_dir = Inr (Some ?g)"
    by (simp add: load_claim_def demo_claimed_dir_def read_json_object_def)
  have past: "held_at demo_env claim_field 30 (Some ?g) = Inr False"
    using demo_in_range by (simp add: held_at_def hold_at_def parse_aware_iso [OF demo_iso])
  let ?l = "hold_at demo_env demo_id ''acl_00000000000000000000000000000000'' 0 10"
  obtain q where "lease_json ?l = PDict q" "validate_lease demo_env demo_id q = Inr ?l"
    using validate_lease_json [OF demo_iso demo_ids(2), of 0 10 demo_id] demo_in_range by auto
  then have lease: "load_lease demo_env demo_id demo_claimed_dir = Inr (Some ?l)"
    by (simp add: load_lease_def demo_claimed_dir_def demo_dir_def read_json_object_def)
  have "ad_started demo_claimed_dir = ad_started demo_dir" "ad_outcome demo_claimed_dir = Absent"
    by (simp_all add: demo_claimed_dir_def demo_dir_def)
  then obtain h d' where ren: "renew_in demo_env demo_cfg demo_id 10 PNone 30 30 demo_claimed_dir = (Inr (Renewed h), d')"
    using claim past lease by (simp add: renew_in_def demo_load demo_json_bytes Let_def)
  have "hd_token ?g = ''arc_00000000000000000000000000000000''" by (simp add: hold_at_def)
  with expired_claim_overrides_active_worker [OF demo_iso _ _ _ claim past ren, of "demo_outcome 30"] demo_in_range
  show ?thesis by (auto simp: demo_json_len max_document_bytes_def)
qed

section \<open>Listing\<close>

lemma collect_matching_take:
  "length acc < n \<Longrightarrow> collect_matching P n acc vs = acc @ take (n - length acc) (filter P vs)"
proof (induction vs arbitrary: acc)
  case Nil
  then show ?case by simp
next
  case (Cons v vs)
  show ?case
  proof (cases "P v \<and> \<not> length (acc @ [v]) \<ge> n")
    case True
    then have "length (acc @ [v]) < n" by simp
    then show ?thesis using Cons.IH [of "acc @ [v]"] True
      by (simp add: Suc_diff_Suc take_Cons' )
  next
    case False
    show ?thesis
    proof (cases "P v")
      case True
      with False Cons.prems have "n - length acc = 1" by simp
      with True False show ?thesis by simp
    next
      case False
      then show ?thesis using Cons by simp
    qed
  qed
qed

text \<open>A listing is the first \<open>limit\<close> matching actions of the whole store in start order,
  newest or oldest first: nothing that matches is skipped, and one unreadable action record
  fails the listing.\<close>

lemma listing_is_sorted_filter:
  assumes "fs_root fs = RootDir" and "act_list env cfg a fs = Inr vs"
  shows "\<exists>all opn rid. scan_actions env cfg fs = Inr all \<and> list_filters a = Inr (opn, rid)
    \<and> list_all2 (\<lambda>i v. act_get env cfg (PStr i) fs = Inr v) (filter action_id_re (od_keys (fs_entries fs))) all
    \<and> vs = take (nat (la_limit a)) (filter (list_match env a opn rid)
          (if la_oldest_first a then sort_key list_key all else sorted_desc list_key all))
    \<and> length vs \<le> 10000
    \<and> sorted_wrt (\<lambda>v w. if la_oldest_first a then list_key v \<le> list_key w else list_key w \<le> list_key v) vs"
proof -
  obtain opn rid where f: "list_filters a = Inr (opn, rid)"
    using assms by (cases "list_filters a") (auto simp: act_list_def)
  then have lim: "1 \<le> la_limit a" "la_limit a \<le> max_list_limit"
    by (auto simp: list_filters_def res_simps)
  obtain all where sc: "scan_actions env cfg fs = Inr all"
      and vs: "vs = collect_matching (list_match env a opn rid) (nat (la_limit a)) []
          (if la_oldest_first a then sort_key list_key all else sorted_desc list_key all)"
    using assms f by (cases "scan_actions env cfg fs") (simp_all add: act_list_def)
  let ?o = "if la_oldest_first a then sort_key list_key all else sorted_desc list_key all"
  have vs': "vs = take (nat (la_limit a)) (filter (list_match env a opn rid) ?o)"
    using lim collect_matching_take [of "[]" "nat (la_limit a)"] by (simp add: vs)
  have "sorted_wrt (\<lambda>v w. list_key v \<le> list_key w) (sort_key list_key all)"
    using sorted_sort_key [of list_key all] by (simp only: sorted_map)
  then have "sorted_wrt (\<lambda>v w. if la_oldest_first a then list_key v \<le> list_key w else list_key w \<le> list_key v) ?o"
    using sorted_desc_sorted [of list_key all] by simp
  then have "sorted_wrt (\<lambda>v w. if la_oldest_first a then list_key v \<le> list_key w else list_key w \<le> list_key v) vs"
    unfolding vs' by (intro sorted_wrt_take sorted_wrt_filter)
  moreover have "list_all2 (\<lambda>i v. act_get env cfg (PStr i) fs = Inr v) (filter action_id_re (od_keys (fs_entries fs))) all"
    using sc by (simp add: scan_actions_def map_res_Inr_iff split: if_splits)
  moreover have "length vs \<le> 10000"
    using lim(2) by (simp add: vs' max_list_limit_def)
  ultimately show ?thesis
    using sc f vs' by (intro exI [of _ all] exI [of _ opn] exI [of _ rid] conjI)
qed

definition demo_list :: list_args where
  "demo_list = \<lparr>la_limit = 5, la_operation = None, la_resource_kind = None, la_resource_id = PNone,
     la_status = Some ''running'', la_started_before = None, la_oldest_first = True\<rparr>"

lemma demo_get: "act_get demo_env demo_cfg (PStr demo_id) demo_fs = Inr (project_action demo_record None)"
proof -
  have "map_of (fs_entries demo_fs) demo_id = Some (ActionDir demo_dir)"
    by (simp add: demo_fs_def demo_id_def lock_name_def)
  moreover have "ad_outcome demo_dir = Absent" by (simp add: demo_dir_def)
  ultimately show ?thesis by (simp add: act_get_dir [OF demo_ids(1)] get_in_def demo_load)
qed

lemma demo_scan: "scan_actions demo_env demo_cfg demo_fs = Inr [project_action demo_record None]"
proof -
  have "length (fs_entries demo_fs) = 2" by (simp add: demo_fs_def)
  moreover have "filter action_id_re (od_keys (fs_entries demo_fs)) = [demo_id]"
    using demo_ids(1) by (simp add: demo_fs_def lock_name_def pattern_eval)
  ultimately show ?thesis by (simp add: scan_actions_def max_scan_entries_def demo_get)
qed

lemma demo_root: "fs_root demo_fs = RootDir"
  by (simp add: demo_fs_def)

end
