(* ===== verification/ActionRepair.thy ===== *)
theory ActionRepair
  imports ActionLifecycle "HOL-Library.Code_Target_Nat"
begin

text \<open>
  \<open>ActionRepairService\<close> (\<open>actions/reconciliation.py\<close>): a bounded pass over stale running
  actions that asks the domain adapter of each operation for a verdict and, when applying,
  settles the action under a repair claim.  The adapters are parameters: each is a function from
  an action to a decision, \<open>None\<close> when it raises.  A \<open>world\<close> gives, for the k-th action of the
  pass and the j-th store call on it, the clock reading and what other processes did to the
  store before that call.
\<close>

section \<open>Decisions and reconcilers\<close>

datatype verdict = Committed | NotCommitted | Indeterminate

fun verdict_text :: "verdict \<Rightarrow> string" where
  "verdict_text Committed = ''committed''"
| "verdict_text NotCommitted = ''not_committed''"
| "verdict_text Indeterminate = ''indeterminate''"

record decision =
  dc_verdict :: verdict
  dc_detail :: string
  dc_status :: "string option"
  dc_references :: "pyval list"
  dc_before :: pyval
  dc_after :: pyval
  dc_evidence :: "pyval list"
  dc_error :: pyval
  dc_metadata :: "(pyval \<times> pyval) list option"

definition detail_code_re :: "string \<Rightarrow> bool" where "detail_code_re = dotted_name 95"
definition reconciler_key_re :: "string \<Rightarrow> bool" where "reconciler_key_re = dotted_name 95"

text \<open>\<open>__post_init__\<close>: \<open>None\<close> is a decision that can be built, \<open>Some\<close> the message of the error.\<close>

definition decision_fault :: "decision \<Rightarrow> string option" where
  "decision_fault d =
     (if \<not> detail_code_re (dc_detail d) then Some ''Action reconciliation detail code is invalid''
      else if dc_verdict d = Indeterminate
      then (if dc_status d \<noteq> None then Some ''Indeterminate Action reconciliation cannot have an outcome'' else None)
      else (case dc_status d of
              None \<Rightarrow> Some ''Resolved Action reconciliation requires a terminal outcome''
            | Some s \<Rightarrow>
                if s \<notin> set terminal_statuses then Some ''Resolved Action reconciliation requires a terminal outcome''
                else if s \<in> set unsuccessful \<and> dc_error d = PNone
                then Some ''Unsuccessful Action reconciliation requires an error''
                else if s = ''succeeded'' \<and> dc_error d \<noteq> PNone
                then Some ''Successful Action reconciliation cannot have an error'' else None))"

record reconciler =
  rc_key :: string
  rc_operations :: "string list"
  rc_reconcile :: "action_view \<Rightarrow> decision option"

type_synonym registry = "(string \<times> reconciler) list"

fun own_operations :: "reconciler \<Rightarrow> string list \<Rightarrow> registry \<Rightarrow> string + registry" where
  "own_operations r [] by_op = Inr by_op"
| "own_operations r (x # xs) by_op =
     (if \<not> operation_re x then Inl ''Action reconciler operation is invalid''
      else if x \<in> fst ` set by_op then Inl ''Action operation has multiple reconcilers''
      else own_operations r xs (od_set x r by_op))"

fun register_all :: "reconciler list \<Rightarrow> string list \<Rightarrow> registry \<Rightarrow> string + registry" where
  "register_all [] seen by_op = Inr by_op"
| "register_all (r # rs) seen by_op =
     (if \<not> reconciler_key_re (rc_key r) then Inl ''Action reconciler key is invalid''
      else if rc_key r \<in> set seen then Inl ''Action reconciler key is duplicated''
      else if rc_operations r = [] then Inl ''Action reconciler must own at least one operation''
      else rbind (own_operations r (rc_operations r) by_op) (\<lambda>by_op'. register_all rs (rc_key r # seen) by_op'))"

definition new_service :: "reconciler list \<Rightarrow> string + registry" where
  "new_service rs = register_all rs [] []"

section \<open>A repair pass\<close>

record world =
  w_clock :: "nat \<Rightarrow> nat \<Rightarrow> int"
  w_claim_id :: "nat \<Rightarrow> pyval"
  w_others :: "nat \<Rightarrow> nat \<Rightarrow> action_fs \<Rightarrow> action_fs"

record report =
  rp_scanned :: nat
  rp_stale_running :: nat
  rp_supported :: nat
  rp_repairable :: nat
  rp_reconciled :: nat
  rp_indeterminate :: nat
  rp_deferred_active :: nat
  rp_failed :: nat
  rp_limit_reached :: bool

definition empty_report :: report where
  "empty_report = \<lparr>rp_scanned = 0, rp_stale_running = 0, rp_supported = 0, rp_repairable = 0, rp_reconciled = 0,
     rp_indeterminate = 0, rp_deferred_active = 0, rp_failed = 0, rp_limit_reached = False\<rparr>"

definition default_claim_duration :: int where "default_claim_duration = 15 * 60 * 1000000"

definition decision_args :: "decision \<Rightarrow> finish_args" where
  "decision_args d =
     \<lparr>fa_status = opt_str (dc_status d), fa_references = PList (dc_references d), fa_before = dc_before d,
      fa_after = dc_after d, fa_evidence = PList (dc_evidence d), fa_error = dc_error d,
      fa_metadata = PDict (od_set (PStr ''reconciliation_detail'') (PStr (dc_detail d))
        (od_set (PStr ''reconciliation_verdict'') (PStr (verdict_text (dc_verdict d)))
        (od_set (PStr ''reconciled'') (PBool True)
          (case dc_metadata d of None \<Rightarrow> [] | Some m \<Rightarrow> m))))\<rparr>"

text \<open>The body of the \<open>try\<close>: whether it raised, the claim it holds by then, the report and the store.\<close>

type_synonym attempt_result = "bool \<times> string option \<times> report \<times> action_fs"

definition settle_claimed :: "doc_env \<Rightarrow> store_cfg \<Rightarrow> world \<Rightarrow> nat \<Rightarrow> bool \<Rightarrow> string \<Rightarrow> string option \<Rightarrow>
    decision option \<Rightarrow> report \<Rightarrow> action_fs \<Rightarrow> attempt_result" where
  "settle_claimed env cfg w k apply i claim dcn rp fs =
     (case dcn of
        None \<Rightarrow> (True, claim, rp, fs)
      | Some d \<Rightarrow>
          if dc_verdict d = Indeterminate
          then (let rp1 = rp\<lparr>rp_indeterminate := rp_indeterminate rp + 1\<rparr>
                in case claim of
                     None \<Rightarrow> (False, claim, rp1, fs)
                   | Some c \<Rightarrow>
                       (case release_reconciliation env (PStr i) (PStr c) (w_others w k 4 fs) of
                          (Inl _, fs1) \<Rightarrow> (True, claim, rp1, fs1)
                        | (Inr _, fs1) \<Rightarrow> (False, claim, rp1, fs1)))
          else (let rp1 = rp\<lparr>rp_repairable := rp_repairable rp + 1\<rparr>
                in if \<not> apply then (False, claim, rp1, fs)
                   else (case claim of
                           None \<Rightarrow> (True, claim, rp1, fs)
                         | Some c \<Rightarrow>
                             (case finish_reconciliation env cfg (PStr i) (PStr c) (decision_args d) (w_clock w k 4)
                                     (w_others w k 4 fs) of
                                (Inl _, fs1) \<Rightarrow> (True, claim, rp1, fs1)
                              | (Inr _, fs1) \<Rightarrow> (False, claim, rp1\<lparr>rp_reconciled := rp_reconciled rp1 + 1\<rparr>, fs1)))))"

definition claim_and_settle :: "doc_env \<Rightarrow> store_cfg \<Rightarrow> world \<Rightarrow> nat \<Rightarrow> reconciler \<Rightarrow> string \<Rightarrow>
    report \<Rightarrow> action_fs \<Rightarrow> attempt_result" where
  "claim_and_settle env cfg w k rc i rp fs =
     (case claim_reconciliation env cfg (PStr i) default_claim_duration (w_claim_id w k) (w_clock w k 2) (w_others w k 2 fs) of
        (Inl _, fs1) \<Rightarrow> (True, None, rp, fs1)
      | (Inr None, fs1) \<Rightarrow> (False, None, rp\<lparr>rp_deferred_active := rp_deferred_active rp + 1\<rparr>, fs1)
      | (Inr (Some c), fs1) \<Rightarrow>
          (let fs2 = w_others w k 3 fs1
           in case act_get env cfg (PStr i) fs2 of
                Inl _ \<Rightarrow> (True, Some c, rp, fs2)
              | Inr current \<Rightarrow>
                  if av_status current \<noteq> ''running''
                  then (case release_reconciliation env (PStr i) (PStr c) (w_others w k 4 fs2) of
                          (Inl _, fs3) \<Rightarrow> (True, Some c, rp, fs3)
                        | (Inr _, fs3) \<Rightarrow> (False, Some c, rp, fs3))
                  else settle_claimed env cfg w k True i (Some c) (rc_reconcile rc current) rp fs2))"

definition repair_body :: "doc_env \<Rightarrow> store_cfg \<Rightarrow> world \<Rightarrow> nat \<Rightarrow> bool \<Rightarrow> reconciler \<Rightarrow> string \<Rightarrow>
    report \<Rightarrow> action_fs \<Rightarrow> attempt_result" where
  "repair_body env cfg w k apply rc i rp fs =
     (let fs0 = w_others w k 0 fs
      in case act_get env cfg (PStr i) fs0 of
        Inl _ \<Rightarrow> (True, None, rp, fs0)
      | Inr current \<Rightarrow>
          if av_status current \<noteq> ''running'' then (False, None, rp, fs0)
          else (case reconciliation_state env cfg (PStr i) (w_clock w k 1) (w_others w k 1 fs0) of
                  (Inl _, fs1) \<Rightarrow> (True, None, rp, fs1)
                | (Inr state, fs1) \<Rightarrow>
                    if state = ''active'' \<or> state = ''claimed''
                    then (False, None, rp\<lparr>rp_deferred_active := rp_deferred_active rp + 1\<rparr>, fs1)
                    else if state = ''terminal'' then (False, None, rp, fs1)
                    else if apply then claim_and_settle env cfg w k rc i rp fs1
                    else settle_claimed env cfg w k False i None (rc_reconcile rc current) rp fs1))"

text \<open>The \<open>except\<close> branch releases the claim, if that still works, and counts the failure.\<close>

definition repair_one :: "doc_env \<Rightarrow> store_cfg \<Rightarrow> registry \<Rightarrow> world \<Rightarrow> bool \<Rightarrow> nat \<times> action_view \<Rightarrow>
    report \<times> action_fs \<Rightarrow> report \<times> action_fs" where
  "repair_one env cfg by_op w apply ka s =
     (case map_of by_op (av_operation (snd ka)) of
        None \<Rightarrow> ((fst s)\<lparr>rp_indeterminate := rp_indeterminate (fst s) + 1\<rparr>, snd s)
      | Some rc \<Rightarrow>
          (let i = av_action_id (snd ka);
               (raised, claim, rp, fs) = repair_body env cfg w (fst ka) apply rc i
                 ((fst s)\<lparr>rp_supported := rp_supported (fst s) + 1\<rparr>) (snd s)
           in if \<not> raised then (rp, fs)
              else (rp\<lparr>rp_failed := rp_failed rp + 1\<rparr>,
                    (case claim of
                       None \<Rightarrow> fs
                     | Some c \<Rightarrow> snd (release_reconciliation env (PStr i) (PStr c) (w_others w (fst ka) 5 fs))))))"

definition repair_pass :: "doc_env \<Rightarrow> store_cfg \<Rightarrow> registry \<Rightarrow> world \<Rightarrow> bool \<Rightarrow> action_view list \<Rightarrow>
    action_fs \<Rightarrow> report \<times> action_fs" where
  "repair_pass env cfg by_op w apply actions fs =
     fold (repair_one env cfg by_op w apply) (enumerate 0 actions) (empty_report, fs)"

datatype repair_error = BadThreshold | BadLimit | ListFailed action_error

definition repair_query :: "int \<Rightarrow> list_args" where
  "repair_query cutoff = \<lparr>la_limit = 10000, la_operation = None, la_resource_kind = None, la_resource_id = PNone,
     la_status = Some ''running'', la_started_before = Some cutoff, la_oldest_first = True\<rparr>"

text \<open>Supported operations come first; the sort is stable, so both groups stay in start order.\<close>

definition repair_targets :: "registry \<Rightarrow> nat \<Rightarrow> action_view list \<Rightarrow> action_view list" where
  "repair_targets by_op limit discovered =
     take limit (sort_key (\<lambda>v. av_operation v \<notin> fst ` set by_op) discovered)"

definition repair :: "doc_env \<Rightarrow> store_cfg \<Rightarrow> registry \<Rightarrow> world \<Rightarrow> int \<Rightarrow> int \<Rightarrow> int \<Rightarrow> bool \<Rightarrow> action_fs \<Rightarrow>
    (repair_error + report) \<times> action_fs" where
  "repair env cfg by_op w now_t stale_after limit apply fs =
     (if stale_after < 0 then (Inl BadThreshold, fs)
      else if \<not> (1 \<le> limit \<and> limit \<le> 500) then (Inl BadLimit, fs)
      else case act_list env cfg (repair_query (now_t - stale_after)) fs of
             Inl e \<Rightarrow> (Inl (ListFailed e), fs)
           | Inr discovered \<Rightarrow>
               (let actions = repair_targets by_op (nat limit) discovered;
                    (rp, fs') = repair_pass env cfg by_op w apply actions fs
                in (Inr (rp\<lparr>rp_scanned := length actions, rp_stale_running := length actions,
                            rp_limit_reached := (int (length discovered) > limit)\<rparr>), fs')))"

section \<open>A pass that only plans\<close>

definition alone :: "world \<Rightarrow> bool" where
  "alone w \<longleftrightarrow> (\<forall>k j fs. w_others w k j fs = fs)"

definition same_dirs :: "action_fs \<Rightarrow> action_fs \<Rightarrow> bool" where
  "same_dirs fs fs' \<longleftrightarrow> (\<forall>i d. map_of (fs_entries fs') i = Some (ActionDir d) \<longleftrightarrow> map_of (fs_entries fs) i = Some (ActionDir d))"

lemma same_dirs_refl [simp]: "same_dirs fs fs"
  by (simp add: same_dirs_def)

lemma same_dirs_trans: "same_dirs a b \<Longrightarrow> same_dirs b c \<Longrightarrow> same_dirs a c"
  by (simp add: same_dirs_def)

lemma same_dirs_lock: "prepare_root fs = Inr fs1 \<Longrightarrow> same_dirs fs (take_lock fs1)"
  by (simp add: same_dirs_def take_lock_action prepare_root_entries)

lemma same_dirs_read: "same_dirs fs (snd (on_action i (\<lambda>d. (f d, d)) fs))"
  by (auto simp: same_dirs_def on_action_def Let_def split: option.splits fs_entry.splits)

lemma same_dirs_state: "same_dirs fs (snd (reconciliation_state env cfg v t fs))"
proof (cases "validate_action_id v")
  case (Inl e)
  then show ?thesis by (simp add: reconciliation_state_def)
next
  case (Inr i)
  show ?thesis
  proof (cases "prepare_root fs")
    case (Inl e)
    with Inr show ?thesis by (simp add: reconciliation_state_def locked_action_def)
  next
    case (Inr fs1)
    with \<open>validate_action_id v = Inr i\<close> show ?thesis
      using same_dirs_trans [OF same_dirs_lock [OF Inr] same_dirs_read]
      by (simp add: reconciliation_state_def locked_action_def)
  qed
qed

lemma settle_planning:
  "settle_claimed env cfg w k False i None dcn rp fs = (raised, claim, rp', fs') \<Longrightarrow>
    fs' = fs \<and> claim = None \<and> rp_reconciled rp' = rp_reconciled rp"
  by (auto simp: settle_claimed_def Let_def split: option.splits if_splits)

lemma repair_body_planning:
  assumes "alone w" and "repair_body env cfg w k False rc i rp fs = (raised, claim, rp', fs')"
  shows "same_dirs fs fs' \<and> claim = None \<and> rp_reconciled rp' = rp_reconciled rp"
proof -
  have o: "w_others w k j x = x" for j x using assms(1) by (simp add: alone_def)
  show ?thesis
  proof (cases "act_get env cfg (PStr i) fs")
    case (Inl e)
    with assms(2) o show ?thesis by (simp add: repair_body_def)
  next
    case (Inr v)
    obtain r fs1 where st: "reconciliation_state env cfg (PStr i) (w_clock w k 1) fs = (r, fs1)" by force
    then have same: "same_dirs fs fs1" using same_dirs_state [of fs env cfg] by (metis snd_conv)
    show ?thesis
    proof (cases "av_status v = ''running''")
      case False
      with Inr assms(2) o show ?thesis by (simp add: repair_body_def)
    next
      case True
      show ?thesis
      proof (cases r)
        case (Inl e)
        with True \<open>act_get env cfg (PStr i) fs = Inr v\<close> assms(2) o st same show ?thesis
          by (simp add: repair_body_def)
      next
        case (Inr state)
        with True \<open>act_get env cfg (PStr i) fs = Inr v\<close> assms(2) o st show ?thesis
          using same settle_planning [of env cfg w k i "rc_reconcile rc v" rp fs1]
          by (auto simp: repair_body_def Let_def split: if_splits)
      qed
    qed
  qed
qed

lemma repair_one_planning:
  assumes "alone w"
  shows "same_dirs (snd s) (snd (repair_one env cfg by_op w False ka s))
    \<and> rp_reconciled (fst (repair_one env cfg by_op w False ka s)) = rp_reconciled (fst s)"
proof (cases "map_of by_op (av_operation (snd ka))")
  case None
  then show ?thesis by (simp add: repair_one_def)
next
  case (Some rc)
  obtain raised claim rp fs where b: "repair_body env cfg w (fst ka) False rc (av_action_id (snd ka))
      ((fst s)\<lparr>rp_supported := rp_supported (fst s) + 1\<rparr>) (snd s) = (raised, claim, rp, fs)"
    by (metis prod_cases4)
  from repair_body_planning [OF assms b] b show ?thesis by (simp add: repair_one_def Some)
qed

lemma repair_pass_planning:
  assumes "alone w"
  shows "same_dirs fs (snd (repair_pass env cfg by_op w False actions fs))
    \<and> rp_reconciled (fst (repair_pass env cfg by_op w False actions fs)) = 0"
proof -
  have "same_dirs (snd s) (snd (fold (repair_one env cfg by_op w False) kas s))
      \<and> rp_reconciled (fst (fold (repair_one env cfg by_op w False) kas s)) = rp_reconciled (fst s)" for kas s
  proof (induction kas arbitrary: s)
    case Nil
    then show ?case by simp
  next
    case (Cons ka kas)
    note one = repair_one_planning [OF assms, of s env cfg by_op ka]
    note rest = Cons.IH [of "repair_one env cfg by_op w False ka s"]
    show ?case using same_dirs_trans [OF conjunct1 [OF one] conjunct1 [OF rest]] one rest by simp
  qed
  from this [of "(empty_report, fs)"] show ?thesis
    by (simp add: repair_pass_def empty_report_def)
qed

section \<open>Claims of a pass\<close>

text \<open>The id a claim file carries, and whether it is one of the ids \<open>C\<close>.\<close>

definition claim_id_of :: "action_dir \<Rightarrow> pyval option" where
  "claim_id_of d = (case ad_claim d of Doc (PDict p) \<Rightarrow> map_of p (PStr ''claim_id'') | _ \<Rightarrow> None)"

definition owned_by :: "pyval set \<Rightarrow> action_dir \<Rightarrow> bool" where
  "owned_by C d \<longleftrightarrow> claim_id_of d \<in> Some ` C"



text \<open>A step that makes no claim with an id of \<open>C\<close> and gives no outcome to an action it leaves such a claim on.\<close>

definition quiet_dir :: "pyval set \<Rightarrow> action_dir \<Rightarrow> action_dir \<Rightarrow> bool" where
  "quiet_dir C d d' \<longleftrightarrow>
     (owned_by C d' \<longrightarrow> ad_claim d' = ad_claim d \<and> (ad_outcome d = Absent \<longrightarrow> ad_outcome d' = Absent))"

definition quiet :: "pyval set \<Rightarrow> action_fs \<Rightarrow> action_fs \<Rightarrow> bool" where
  "quiet C fs fs' \<longleftrightarrow> (\<forall>i d'. map_of (fs_entries fs') i = Some (ActionDir d') \<and> owned_by C d' \<longrightarrow>
     (\<exists>d. map_of (fs_entries fs) i = Some (ActionDir d) \<and> quiet_dir C d d'))"

lemma quiet_dir_refl [simp]: "quiet_dir C d d"
  by (simp add: quiet_dir_def)

lemma quiet_refl [simp]: "quiet C fs fs"
  unfolding quiet_def using quiet_dir_refl by blast


lemma not_owned_Absent [simp]: "ad_claim d = Absent \<Longrightarrow> \<not> owned_by C d"
  by (auto simp: owned_by_def claim_id_of_def)









subsection \<open>Every operation of the store is quiet, claims with other ids included\<close>


lemma append_claim: "ad_claim d = Absent \<or> json_bytes env (outcome_json u) = Inr p \<Longrightarrow> ad_claim (snd (append_outcome env s u d)) = Absent"
  by (cases "json_bytes env (outcome_json u)") (auto simp: append_outcome_def)















subsection \<open>The pass\<close>


lemma take_lock_entries:
  "map_of (fs_entries (take_lock fs)) i = Some (ActionDir d) \<longleftrightarrow> map_of (fs_entries fs) i = Some (ActionDir d)"
  by (rule take_lock_action)















section \<open>Properties\<close>

text \<open>A planning pass changes nothing: with \<open>apply\<close> off and nobody else at work, every action
  directory is exactly as it was, and the report claims no reconciliation.\<close>

lemma planning_pass_is_readonly:
  assumes "alone w" and "repair env cfg by_op w now_t stale_after limit False fs = (Inr rp, fs')"
  shows "(\<forall>i d. map_of (fs_entries fs') i = Some (ActionDir d) \<longleftrightarrow> map_of (fs_entries fs) i = Some (ActionDir d))
    \<and> rp_reconciled rp = 0 \<and> int (rp_scanned rp) \<le> limit"
proof -
  obtain discovered where li: "1 \<le> limit" "limit \<le> 500" "0 \<le> stale_after"
      and l: "act_list env cfg (repair_query (now_t - stale_after)) fs = Inr discovered"
    using assms(2) by (cases "act_list env cfg (repair_query (now_t - stale_after)) fs")
      (auto simp: repair_def split: if_splits)
  let ?a = "repair_targets by_op (nat limit) discovered"
  have "rp_reconciled rp = rp_reconciled (fst (repair_pass env cfg by_op w False ?a fs))" "rp_scanned rp = length ?a"
      "fs' = snd (repair_pass env cfg by_op w False ?a fs)"
    using assms(2) li l by (auto simp: repair_def Let_def split: prod.splits)
  moreover have "int (length ?a) \<le> limit" using li by (simp add: repair_targets_def)
  ultimately show ?thesis
    using repair_pass_planning [OF assms(1), of fs env cfg by_op ?a] by (simp add: same_dirs_def)
qed






end
