(* ===== verification/LoopDetection.thy ===== *)
theory LoopDetection
  imports PyText "HOL-Library.Multiset" "HOL-Library.Sublist"
begin

text \<open>
  \<open>LoopDetectionMiddleware\<close> (\<open>agents/middlewares/loop_detection_middleware.py\<close>): per-thread
  sliding windows of tool-call hashes, per-tool call counters, warnings queued per thread and
  run until the next model call, and the forced stop that strips tool calls.  Each hook holds
  the middleware's lock for its effect and is one step.  The text functions of the standard
  library the hash uses (\<open>json.dumps\<close>, \<open>json.loads\<close>, \<open>str\<close>, MD5) are the fields of \<open>text_env\<close>.
\<close>

section \<open>Hashing tool calls\<close>

record text_env =
  json_text :: "pyval \<Rightarrow> string"
  json_parse :: "string \<Rightarrow> pyval option"
  str_text :: "pyval \<Rightarrow> string"
  md5_hex :: "string \<Rightarrow> string"

record tool_call =
  tc_name :: string
  tc_args :: pyval

definition normalize_tool_call_args :: "text_env \<Rightarrow> pyval \<Rightarrow> py_items \<times> string option" where
  "normalize_tool_call_args env raw =
     (case raw of
        PDict d \<Rightarrow> (d, None)
      | PStr s \<Rightarrow>
          (case json_parse env s of
             None \<Rightarrow> ([], Some s)
           | Some (PDict d) \<Rightarrow> (d, None)
           | Some v \<Rightarrow> ([], Some (json_text env v)))
      | PNone \<Rightarrow> ([], None)
      | v \<Rightarrow> ([], Some (json_text env v)))"

definition line_arg :: "pyval \<Rightarrow> int \<Rightarrow> int option" where
  "line_arg v dflt =
     (if v = PNone then Some dflt
      else case to_int v of IntOk i \<Rightarrow> Some i | Refused \<Rightarrow> Some dflt | Overflow \<Rightarrow> None)"

definition bucket_size :: int where "bucket_size = 200"

definition salient_fields :: "string list" where
  "salient_fields = [''path'', ''url'', ''query'', ''command'', ''pattern'', ''glob'', ''cmd'']"

definition stable_tool_key :: "text_env \<Rightarrow> string \<Rightarrow> py_items \<Rightarrow> string option \<Rightarrow> string option" where
  "stable_tool_key env name args fallback_key =
     (if name = ''read_file'' \<and> fallback_key = None
      then (let path = (if truthy (arg_of args ''path'') then arg_of args ''path'' else PStr '''')
            in case line_arg (arg_of args ''start_line'') 1 of
                 None \<Rightarrow> None
               | Some s0 \<Rightarrow>
                   (case line_arg (arg_of args ''end_line'') s0 of
                      None \<Rightarrow> None
                    | Some e0 \<Rightarrow>
                        (let bucket_start = (max (min s0 e0) 1 - 1) div bucket_size;
                             bucket_end = (max (max s0 e0) 1 - 1) div bucket_size
                         in Some (str_text env path @ '':'' @ int_str bucket_start @ ''-'' @ int_str bucket_end))))
      else if name = ''write_file'' \<or> name = ''str_replace''
      then Some (case fallback_key of Some k \<Rightarrow> k | None \<Rightarrow> json_text env (PDict args))
      else (let stable_args = map (\<lambda>f. (PStr f, arg_of args f)) (filter (\<lambda>f. arg_of args f \<noteq> PNone) salient_fields)
            in if stable_args \<noteq> [] then Some (json_text env (PDict stable_args))
               else Some (case fallback_key of Some k \<Rightarrow> k | None \<Rightarrow> json_text env (PDict args))))"

definition call_key :: "text_env \<Rightarrow> tool_call \<Rightarrow> string option" where
  "call_key env tc =
     (let (args, fallback_key) = normalize_tool_call_args env (tc_args tc)
      in map_option (\<lambda>key. tc_name tc @ '':'' @ key) (stable_tool_key env (tc_name tc) args fallback_key))"

text \<open>A list of options as an option: the first \<open>None\<close> is the exception that ends the loop.\<close>

definition all_some :: "'a option list \<Rightarrow> 'a list option" where
  "all_some xs = (if None \<in> set xs then None else Some (map the xs))"

definition hash_tool_calls :: "text_env \<Rightarrow> tool_call list \<Rightarrow> string option" where
  "hash_tool_calls env tcs =
     map_option (\<lambda>keys. take 12 (md5_hex env (json_text env (PList (map PStr (sort keys))))))
       (all_some (map (call_key env) tcs))"

section \<open>State\<close>

record loop_cfg =
  lc_warn :: nat
  lc_hard :: nat
  lc_window :: nat
  lc_max_threads :: nat
  lc_freq_warn :: nat
  lc_freq_hard :: nat
  lc_overrides :: "(string \<times> (nat \<times> nat)) list"

text \<open>What \<open>LoopDetectionConfig\<close> admits.\<close>

definition cfg_valid :: "loop_cfg \<Rightarrow> bool" where
  "cfg_valid c \<longleftrightarrow> 1 \<le> lc_warn c \<and> lc_warn c \<le> lc_hard c \<and> 1 \<le> lc_window c \<and> 1 \<le> lc_max_threads c
     \<and> 1 \<le> lc_freq_warn c \<and> lc_freq_warn c \<le> lc_freq_hard c
     \<and> (\<forall>(n, w, h) \<in> set (lc_overrides c). 1 \<le> w \<and> w \<le> h)"

type_synonym run_key = "string \<times> string"

record loop_state =
  ls_history :: "(string \<times> string list) list"
  ls_warned :: "(string \<times> string set) list"
  ls_freq :: "(string \<times> (string \<times> nat) list) list"
  ls_freq_warned :: "(string \<times> string set) list"
  ls_pending :: "(run_key \<times> string list) list"
  ls_touch :: "run_key list"

definition loop_init :: loop_state where
  "loop_init = \<lparr>ls_history = [], ls_warned = [], ls_freq = [], ls_freq_warned = [], ls_pending = [], ls_touch = []\<rparr>"

definition max_pending_warnings :: nat where "max_pending_warnings = 4"

definition max_pending_keys :: "loop_cfg \<Rightarrow> nat" where
  "max_pending_keys c = max 1 (lc_max_threads c * 2)"

text \<open>The runtime context: thread and run ids, with \<open>"default"\<close> for missing or empty ones.\<close>

definition ctx_id :: "string option \<Rightarrow> string" where
  "ctx_id v = (case v of None \<Rightarrow> ''default'' | Some s \<Rightarrow> if s = '''' then ''default'' else s)"

section \<open>Pending warnings\<close>

definition drop_pending :: "run_key \<Rightarrow> loop_state \<Rightarrow> loop_state" where
  "drop_pending k s = s\<lparr>ls_pending := od_pop k (ls_pending s), ls_touch := filter (\<lambda>x. x \<noteq> k) (ls_touch s)\<rparr>"

definition touch_pending :: "run_key \<Rightarrow> loop_state \<Rightarrow> loop_state" where
  "touch_pending k s = s\<lparr>ls_touch := filter (\<lambda>x. x \<noteq> k) (ls_touch s) @ [k]\<rparr>"

definition prune_pending :: "loop_cfg \<Rightarrow> run_key \<Rightarrow> loop_state \<Rightarrow> loop_state" where
  "prune_pending c protected s =
     (let overflow = length (ls_touch s) - max_pending_keys c;
          candidates = filter (\<lambda>k. k \<noteq> protected) (ls_touch s)
      in fold drop_pending (take overflow candidates) s)"

definition queue_pending :: "loop_cfg \<Rightarrow> run_key \<Rightarrow> string \<Rightarrow> loop_state \<Rightarrow> loop_state" where
  "queue_pending c k warning s =
     (let ws = od_get_default (ls_pending s) k [];
          ws1 = (if warning \<in> set ws then ws else ws @ [warning]);
          ws2 = drop (length ws1 - max_pending_warnings) ws1
      in prune_pending c k (touch_pending k (s\<lparr>ls_pending := od_set k ws2 (ls_pending s)\<rparr>)))"

definition drop_pending_where :: "(run_key \<Rightarrow> bool) \<Rightarrow> loop_state \<Rightarrow> loop_state" where
  "drop_pending_where P s = fold drop_pending (filter P (od_keys (ls_pending s))) s"

section \<open>Tracking\<close>

definition forget_thread :: "string \<Rightarrow> loop_state \<Rightarrow> loop_state" where
  "forget_thread tid s = drop_pending_where (\<lambda>k. fst k = tid)
     (s\<lparr>ls_history := od_pop tid (ls_history s), ls_warned := od_pop tid (ls_warned s),
        ls_freq := od_pop tid (ls_freq s), ls_freq_warned := od_pop tid (ls_freq_warned s)\<rparr>)"

text \<open>\<open>while len(history) > max: popitem(last=False)\<close>; each round drops at least the oldest thread.\<close>

fun evict_rounds :: "nat \<Rightarrow> loop_cfg \<Rightarrow> loop_state \<Rightarrow> loop_state" where
  "evict_rounds 0 c s = s"
| "evict_rounds (Suc n) c s =
     (case ls_history s of
        [] \<Rightarrow> s
      | (tid, _) # _ \<Rightarrow>
          if length (ls_history s) > lc_max_threads c then evict_rounds n c (forget_thread tid s) else s)"

definition evict_if_needed :: "loop_cfg \<Rightarrow> loop_state \<Rightarrow> loop_state" where
  "evict_if_needed c s = evict_rounds (length (ls_history s)) c s"

definition touch_thread :: "loop_cfg \<Rightarrow> string \<Rightarrow> loop_state \<Rightarrow> loop_state" where
  "touch_thread c tid s =
     (if tid \<in> fst ` set (ls_history s) then s\<lparr>ls_history := od_move_to_end tid (ls_history s)\<rparr>
      else evict_if_needed c (s\<lparr>ls_history := ls_history s @ [(tid, [])]\<rparr>))"

definition push_hash :: "loop_cfg \<Rightarrow> string \<Rightarrow> string \<Rightarrow> loop_state \<Rightarrow> string list \<times> loop_state" where
  "push_hash c tid h s =
     (let hist = od_get_default (ls_history s) tid [] @ [h];
          hist' = (if length hist > lc_window c then last_slice (lc_window c) hist else hist);
          s1 = s\<lparr>ls_history := od_set tid hist' (ls_history s)\<rparr>
      in (hist',
          case map_of (ls_warned s1) tid of
            None \<Rightarrow> s1
          | Some w \<Rightarrow> (let w' = w \<inter> set hist'
                       in s1\<lparr>ls_warned := (if w' = {} then od_pop tid (ls_warned s1) else od_set tid w' (ls_warned s1))\<rparr>)))"

definition warning_msg :: string where
  "warning_msg = ''[LOOP DETECTED] You are repeating the same tool calls. Stop calling tools and produce your final answer now. If you cannot complete the task, summarize what you accomplished so far.''"

definition hard_stop_msg :: string where
  "hard_stop_msg = ''[FORCED STOP] Repeated tool calls exceeded the safety limit. Producing final answer with results collected so far.''"

definition freq_warning_msg :: "string \<Rightarrow> nat \<Rightarrow> string" where
  "freq_warning_msg name n = ''[LOOP DETECTED] You have called '' @ name @ '' '' @ dec n @ '' times without producing a final answer. Stop calling tools and produce your final answer now. If you cannot complete the task, summarize what you accomplished so far.''"

definition freq_hard_stop_msg :: "string \<Rightarrow> nat \<Rightarrow> string" where
  "freq_hard_stop_msg name n = ''[FORCED STOP] Tool '' @ name @ '' called '' @ dec n @ '' times - exceeded the per-tool safety limit. Producing final answer with results collected so far.''"

text \<open>The frequency layer: the first call that crosses a threshold ends the loop.\<close>

definition freq_limits :: "loop_cfg \<Rightarrow> string \<Rightarrow> nat \<times> nat" where
  "freq_limits c name = (case map_of (lc_overrides c) name of Some l \<Rightarrow> l | None \<Rightarrow> (lc_freq_warn c, lc_freq_hard c))"

fun check_freq :: "loop_cfg \<Rightarrow> string \<Rightarrow> tool_call list \<Rightarrow> loop_state \<Rightarrow> (string option \<times> bool) \<times> loop_state" where
  "check_freq c tid [] s = ((None, False), s)"
| "check_freq c tid (tc # tcs) s =
     (let name = tc_name tc
      in if name = '''' then check_freq c tid tcs s
         else (let freq = od_get_default (ls_freq s) tid [];
                   n = od_get_default freq name 0 + 1;
                   s1 = s\<lparr>ls_freq := od_set tid (od_set name n freq) (ls_freq s)\<rparr>;
                   (eff_warn, eff_hard) = freq_limits c name
               in if n \<ge> eff_hard then ((Some (freq_hard_stop_msg name n), True), s1)
                  else if n \<ge> eff_warn
                  then (let warned = od_get_default (ls_freq_warned s1) tid {};
                            s2 = s1\<lparr>ls_freq_warned := od_set tid (insert name warned) (ls_freq_warned s1)\<rparr>
                        in if name \<in> warned then check_freq c tid tcs s2
                           else ((Some (freq_warning_msg name n), False), s2))
                  else check_freq c tid tcs s1))"

definition ensure_freq :: "string \<Rightarrow> loop_state \<Rightarrow> loop_state" where
  "ensure_freq tid s = (if tid \<in> fst ` set (ls_freq s) then s else s\<lparr>ls_freq := ls_freq s @ [(tid, [])]\<rparr>)"

text \<open>\<open>_track_and_check\<close> on the tool calls of the last message, once it is known to be an AI message
  that has some; the caller has computed their hash.\<close>

definition track_and_check :: "loop_cfg \<Rightarrow> string \<Rightarrow> string \<Rightarrow> tool_call list \<Rightarrow> loop_state \<Rightarrow>
    (string option \<times> bool) \<times> loop_state" where
  "track_and_check c tid h tcs s =
     (let (hist, s1) = push_hash c tid h (touch_thread c tid s);
          n = count_list hist h
      in if n \<ge> lc_hard c then ((Some hard_stop_msg, True), s1)
         else if n \<ge> lc_warn c
         then (let warned = od_get_default (ls_warned s1) tid {};
                   s2 = s1\<lparr>ls_warned := od_set tid (insert h warned) (ls_warned s1)\<rparr>
               in if h \<in> warned then check_freq c tid tcs (ensure_freq tid s2)
                  else ((Some warning_msg, False), s2))
         else check_freq c tid tcs (ensure_freq tid s1))"

section \<open>Hooks\<close>

record ai_message =
  am_is_ai :: bool
  am_tool_calls :: "tool_call list"
  am_content :: pyval
  am_additional_kwargs :: pydict
  am_response_metadata :: pydict

definition append_text :: "text_env \<Rightarrow> pyval \<Rightarrow> string \<Rightarrow> pyval" where
  "append_text env content text_s =
     (case content of
        PNone \<Rightarrow> PStr text_s
      | PList xs \<Rightarrow> PList (xs @ [PDict [(PStr ''type'', PStr ''text''),
                                      (PStr ''text'', PStr (CHR 0x0A # CHR 0x0A # text_s))]])
      | PStr s \<Rightarrow> PStr (s @ CHR 0x0A # CHR 0x0A # text_s)
      | v \<Rightarrow> PStr (str_text env v @ CHR 0x0A # CHR 0x0A # text_s))"

definition build_hard_stop_update :: "ai_message \<Rightarrow> pyval \<Rightarrow> ai_message" where
  "build_hard_stop_update m content =
     m\<lparr>am_tool_calls := [], am_content := content,
       am_additional_kwargs := od_pop ''function_call'' (od_pop ''tool_calls'' (am_additional_kwargs m)),
       am_response_metadata := (if map_of (am_response_metadata m) ''finish_reason'' = Some (PStr ''tool_calls'')
          then od_set ''finish_reason'' (PStr ''stop'') (am_response_metadata m) else am_response_metadata m)\<rparr>"

text \<open>\<open>after_model\<close> on the last message of the state, if there is one: the replacement message, if
  any. The whole result is \<open>None\<close> when hashing raised \<open>OverflowError\<close>.\<close>

definition after_model :: "text_env \<Rightarrow> loop_cfg \<Rightarrow> run_key \<Rightarrow> ai_message option \<Rightarrow> loop_state \<Rightarrow>
    (ai_message option \<times> loop_state) option" where
  "after_model env c k last_msg s =
     (case last_msg of
        None \<Rightarrow> Some (None, s)
      | Some m \<Rightarrow>
          if \<not> am_is_ai m \<or> am_tool_calls m = [] then Some (None, s)
          else (case hash_tool_calls env (am_tool_calls m) of
                  None \<Rightarrow> None
                | Some h \<Rightarrow>
                    (case track_and_check c (fst k) h (am_tool_calls m) s of
                       ((warning, True), s1) \<Rightarrow>
                         Some (Some (build_hard_stop_update m (append_text env (am_content m)
                           (case warning of Some w \<Rightarrow> w | None \<Rightarrow> hard_stop_msg))), s1)
                     | ((Some w, False), s1) \<Rightarrow> Some (None, queue_pending c k w s1)
                     | ((None, False), s1) \<Rightarrow> Some (None, s1))))"

definition before_agent :: "run_key \<Rightarrow> loop_state \<Rightarrow> loop_state" where
  "before_agent k s = drop_pending_where (\<lambda>x. fst x = fst k \<and> snd x \<noteq> snd k) s"

definition after_agent :: "run_key \<Rightarrow> loop_state \<Rightarrow> loop_state" where
  "after_agent k s = drop_pending k s"

definition drain_pending :: "run_key \<Rightarrow> loop_state \<Rightarrow> string list \<times> loop_state" where
  "drain_pending k s = (od_get_default (ls_pending s) k [], drop_pending k s)"

definition format_warning_message :: "string list \<Rightarrow> string" where
  "format_warning_message ws = join_with [CHR 0x0A, CHR 0x0A] (fromkeys ws)"

datatype 'm request_message = Prior 'm | LoopWarning string

definition augment_request :: "run_key \<Rightarrow> 'm request_message list \<Rightarrow> loop_state \<Rightarrow>
    'm request_message list \<times> loop_state" where
  "augment_request k msgs s =
     (let (ws, s1) = drain_pending k s
      in if ws = [] then (msgs, s1) else (msgs @ [LoopWarning (format_warning_message ws)], s1))"

definition loop_reset :: "string option \<Rightarrow> loop_state \<Rightarrow> loop_state" where
  "loop_reset tid s =
     (case tid of
        None \<Rightarrow> loop_init
      | Some t \<Rightarrow> if t = '''' then loop_init else forget_thread t s)"

section \<open>Invariant\<close>

definition pending_ok :: "loop_state \<Rightarrow> bool" where
  "pending_ok s \<longleftrightarrow> od_ok (ls_pending s) \<and> distinct (ls_touch s) \<and> set (ls_touch s) = fst ` set (ls_pending s)
     \<and> (\<forall>(k, ws) \<in> set (ls_pending s). length ws \<le> max_pending_warnings)
     \<and> (\<forall>k \<in> fst ` set (ls_pending s). fst k \<in> fst ` set (ls_history s))"

definition tracking_ok :: "loop_cfg \<Rightarrow> loop_state \<Rightarrow> bool" where
  "tracking_ok c s \<longleftrightarrow> od_ok (ls_history s)
     \<and> (\<forall>(t, hs) \<in> set (ls_history s). length hs \<le> lc_window c)
     \<and> fst ` set (ls_warned s) \<subseteq> fst ` set (ls_history s)
     \<and> fst ` set (ls_freq s) \<subseteq> fst ` set (ls_history s)
     \<and> fst ` set (ls_freq_warned s) \<subseteq> fst ` set (ls_history s)"

definition loop_ok :: "loop_cfg \<Rightarrow> loop_state \<Rightarrow> bool" where
  "loop_ok c s \<longleftrightarrow> tracking_ok c s \<and> pending_ok s \<and> length (ls_history s) \<le> lc_max_threads c
     \<and> length (ls_pending s) \<le> max_pending_keys c"

lemma pending_length: "pending_ok s \<Longrightarrow> length (ls_pending s) = length (ls_touch s)"
proof -
  assume ok: "pending_ok s"
  then have "length (ls_pending s) = card (fst ` set (ls_pending s))"
    by (metis distinct_card length_map list.set_map pending_ok_def)
  also have "\<dots> = card (set (ls_touch s))" using ok by (simp add: pending_ok_def)
  also have "\<dots> = length (ls_touch s)" using ok by (intro distinct_card) (simp add: pending_ok_def)
  finally show ?thesis .
qed

lemma fold_drop_pending:
  "fold drop_pending ks s = s\<lparr>ls_pending := filter (\<lambda>e. fst e \<notin> set ks) (ls_pending s),
     ls_touch := filter (\<lambda>k. k \<notin> set ks) (ls_touch s)\<rparr>"
  by (induction ks arbitrary: s) (simp_all add: drop_pending_def od_pop_def conj_commute)

lemma pending_ok_filter:
  assumes "pending_ok s" and "ls_history s' = ls_history s"
    and "ls_pending s' = filter (\<lambda>e. P (fst e)) (ls_pending s)" and "ls_touch s' = filter P (ls_touch s)"
  shows "pending_ok s'"
  using assms by (auto simp: pending_ok_def distinct_map_filter image_iff)

lemma drop_where_state:
  assumes "pending_ok s"
  shows "drop_pending_where P s = s\<lparr>ls_pending := filter (\<lambda>e. \<not> P (fst e)) (ls_pending s),
     ls_touch := filter (\<lambda>k. \<not> P k) (ls_touch s)\<rparr>"
proof -
  have "e \<in> set (ls_pending s) \<Longrightarrow> (fst e \<notin> set (filter P (od_keys (ls_pending s)))) = (\<not> P (fst e))" for e by auto
  moreover have "k \<in> set (ls_touch s) \<Longrightarrow> (k \<notin> set (filter P (od_keys (ls_pending s)))) = (\<not> P k)" for k
    using assms by (auto simp: pending_ok_def)
  ultimately show ?thesis
    by (simp add: drop_pending_where_def fold_drop_pending cong: filter_cong)
qed

lemma tracking_ok_same:
  "ls_history s' = ls_history s \<Longrightarrow> ls_warned s' = ls_warned s \<Longrightarrow> ls_freq s' = ls_freq s \<Longrightarrow>
    ls_freq_warned s' = ls_freq_warned s \<Longrightarrow> tracking_ok c s' = tracking_ok c s"
  by (simp add: tracking_ok_def)

lemma filter_bound: "length xs \<le> n \<Longrightarrow> length (filter P xs) \<le> (n :: nat)"
  using length_filter_le [of P xs] by (rule le_trans)

lemma loop_ok_drop_where: "loop_ok c s \<Longrightarrow> loop_ok c (drop_pending_where P s)"
  using pending_ok_filter [of s "drop_pending_where P s" "\<lambda>k. \<not> P k"]
  by (auto simp: loop_ok_def drop_where_state tracking_ok_def filter_bound)

lemma loop_ok_drop: "loop_ok c s \<Longrightarrow> loop_ok c (drop_pending k s)"
  using pending_ok_filter [of s "drop_pending k s" "\<lambda>x. x \<noteq> k"]
  by (auto simp: loop_ok_def drop_pending_def od_pop_def tracking_ok_def filter_bound)

lemma forget_ok:
  assumes "tracking_ok c s" and "pending_ok s"
  shows "tracking_ok c (forget_thread t s)" and "pending_ok (forget_thread t s)"
    and "ls_history (forget_thread t s) = od_pop t (ls_history s)"
    and "length (ls_pending (forget_thread t s)) \<le> length (ls_pending s)"
proof -
  let ?s = "s\<lparr>ls_pending := filter (\<lambda>e. fst (fst e) \<noteq> t) (ls_pending s), ls_touch := filter (\<lambda>k. fst k \<noteq> t) (ls_touch s)\<rparr>"
  let ?f = "?s\<lparr>ls_history := od_pop t (ls_history s), ls_warned := od_pop t (ls_warned s),
        ls_freq := od_pop t (ls_freq s), ls_freq_warned := od_pop t (ls_freq_warned s)\<rparr>"
  have "e \<in> set (ls_pending s) \<Longrightarrow>
      (fst e \<notin> set (filter (\<lambda>k. fst k = t) (od_keys (ls_pending s)))) = (fst (fst e) \<noteq> t)" for e by auto
  moreover have "k \<in> set (ls_touch s) \<Longrightarrow>
      (k \<notin> set (filter (\<lambda>k. fst k = t) (od_keys (ls_pending s)))) = (fst k \<noteq> t)" for k
    using assms(2) by (auto simp: pending_ok_def)
  ultimately have f: "forget_thread t s = ?f"
    by (simp add: forget_thread_def drop_pending_where_def fold_drop_pending cong: filter_cong)
  show "tracking_ok c (forget_thread t s)"
    using assms(1) by (auto simp: f tracking_ok_def) (auto simp: od_pop_def)
  have "pending_ok ?s" by (rule pending_ok_filter [OF assms(2)]) simp_all
  then show "pending_ok (forget_thread t s)"
    by (auto simp: f pending_ok_def)
  show "ls_history (forget_thread t s) = od_pop t (ls_history s)" by (simp add: f)
  show "length (ls_pending (forget_thread t s)) \<le> length (ls_pending s)" by (simp add: f)
qed

lemma loop_ok_forget: "loop_ok c s \<Longrightarrow> loop_ok c (forget_thread t s)"
  using forget_ok [of c s t] length_od_pop_le [of t "ls_history s"]
  by (auto simp: loop_ok_def intro: le_trans)

lemma evict_rounds_fits: "length (ls_history s) \<le> lc_max_threads c \<Longrightarrow> evict_rounds n c s = s"
  by (cases n) (auto split: list.split)

lemma touch_thread_ok:
  assumes "loop_ok c s" and "cfg_valid c"
  shows "loop_ok c (touch_thread c t s)" and "t \<in> fst ` set (ls_history (touch_thread c t s))"
    and "od_get_default (ls_history (touch_thread c t s)) t [] = od_get_default (ls_history s) t []"
proof -
  have tr: "tracking_ok c s" and p: "pending_ok s" and len: "length (ls_history s) \<le> lc_max_threads c"
    using assms(1) by (simp_all add: loop_ok_def)
  have od: "od_ok (ls_history s)" using tr by (simp add: tracking_ok_def)
  have "loop_ok c (touch_thread c t s) \<and> t \<in> fst ` set (ls_history (touch_thread c t s))
      \<and> od_get_default (ls_history (touch_thread c t s)) t [] = od_get_default (ls_history s) t []"
  proof (cases "t \<in> fst ` set (ls_history s)")
    case True
    obtain hs where hs: "map_of (ls_history s) t = Some hs"
      using True map_of_None_iff by (metis not_None_eq)
    then have "set (od_move_to_end t (ls_history s)) \<subseteq> set (ls_history s)"
      by (auto simp: od_move_to_end_def od_pop_def dest: map_of_SomeD)
    then have "tracking_ok c (s\<lparr>ls_history := od_move_to_end t (ls_history s)\<rparr>)"
      using tr od by (auto simp: tracking_ok_def)
    moreover have "pending_ok (s\<lparr>ls_history := od_move_to_end t (ls_history s)\<rparr>)"
      using p by (simp add: pending_ok_def)
    ultimately show ?thesis
      using assms(1) True length_move_to_end [OF od, of t]
      by (simp add: touch_thread_def loop_ok_def od_get_default_def)
  next
    case False
    let ?s = "s\<lparr>ls_history := ls_history s @ [(t, [])]\<rparr>"
    have tr': "tracking_ok c ?s" using tr False by (auto simp: tracking_ok_def)
    have p': "pending_ok ?s" using p by (auto simp: pending_ok_def)
    have none: "map_of (ls_history s) t = None" using False by (simp only: map_of_None_iff not_False_eq_True)
    show ?thesis
    proof (cases "length (ls_history s) < lc_max_threads c")
      case True
      then have "touch_thread c t s = ?s"
        using False evict_rounds_fits [of ?s c]
        by (simp add: touch_thread_def evict_if_needed_def del: evict_rounds.simps)
      with tr' p' True assms(1) none show ?thesis
        by (simp add: loop_ok_def od_get_default_def map_add_def)
    next
      case full: False
      have max: "1 \<le> lc_max_threads c" using assms(2) by (simp add: cfg_valid_def)
      with full obtain t0 h0 rest where hist: "ls_history s = (t0, h0) # rest"
        by (cases "ls_history s") auto
      have len_eq: "length (ls_history s) = lc_max_threads c" using full len by simp
      have "t0 \<noteq> t" using False hist by auto
      have pop: "od_pop t0 (ls_history ?s) = rest @ [(t, [])]"
      proof -
        have "t0 \<notin> fst ` set rest" using od hist by auto
        then have "od_pop t0 rest = rest" by (rule od_pop_absent)
        with hist \<open>t0 \<noteq> t\<close> show ?thesis by (simp add: od_pop_def)
      qed
      let ?f = "forget_thread t0 ?s"
      note fo = forget_ok [OF tr' p', of t0]
      have hf: "ls_history ?f = rest @ [(t, [])]" using fo(3) pop by simp
      have "touch_thread c t s = ?f"
      proof -
        have "evict_if_needed c ?s = evict_rounds (length (ls_history s)) c ?f"
          using len_eq by (simp add: evict_if_needed_def hist)
        also have "\<dots> = ?f" using hf len_eq hist by (intro evict_rounds_fits) simp
        finally show ?thesis using False by (simp add: touch_thread_def)
      qed
      moreover have "map_of rest t = None" using none hist \<open>t0 \<noteq> t\<close> by simp
      ultimately show ?thesis
        using fo hf len_eq hist assms(1) none
        by (auto simp: loop_ok_def od_get_default_def map_add_def)
    qed
  qed
  then show "loop_ok c (touch_thread c t s)" and "t \<in> fst ` set (ls_history (touch_thread c t s))"
    and "od_get_default (ls_history (touch_thread c t s)) t [] = od_get_default (ls_history s) t []"
    by simp_all
qed

lemma last_window: "length (if length xs > w then last_slice w xs else xs) \<le> w" if "1 \<le> w"
  using that length_last_slice [of w xs] by auto

lemma push_hash_ok:
  assumes "loop_ok c s" and "cfg_valid c" and "t \<in> fst ` set (ls_history s)" and "push_hash c t h s = (hist, s')"
  shows "loop_ok c s'" and "fst ` set (ls_history s') = fst ` set (ls_history s)"
    and "map_of (ls_history s') t = Some hist" and "length hist \<le> lc_window c"
    and "hist = (if Suc (length (od_get_default (ls_history s) t [])) > lc_window c
           then last_slice (lc_window c) (od_get_default (ls_history s) t [] @ [h])
           else od_get_default (ls_history s) t [] @ [h])"
proof -
  let ?raw = "od_get_default (ls_history s) t [] @ [h]"
  let ?hist = "if length ?raw > lc_window c then last_slice (lc_window c) ?raw else ?raw"
  let ?s1 = "s\<lparr>ls_history := od_set t ?hist (ls_history s)\<rparr>"
  have w: "1 \<le> lc_window c" using assms(2) by (simp add: cfg_valid_def)
  have hist: "hist = ?hist" using assms(4) by (simp add: push_hash_def Let_def)
  then show "hist = (if Suc (length (od_get_default (ls_history s) t [])) > lc_window c
           then last_slice (lc_window c) (od_get_default (ls_history s) t [] @ [h])
           else od_get_default (ls_history s) t [] @ [h])" by simp
  show hl: "length hist \<le> lc_window c" unfolding hist by (rule last_window [OF w])
  have s': "s' = ?s1\<lparr>ls_warned := (case map_of (ls_warned s) t of None \<Rightarrow> ls_warned s
      | Some wn \<Rightarrow> if wn \<inter> set ?hist = {} then od_pop t (ls_warned s) else od_set t (wn \<inter> set ?hist) (ls_warned s))\<rparr>"
    using assms(4) by (auto simp: push_hash_def Let_def split: option.splits)
  have keys: "fst ` set (ls_history s') = fst ` set (ls_history s)" using assms(3) by (auto simp: s')
  then show "fst ` set (ls_history s') = fst ` set (ls_history s)" .
  show "map_of (ls_history s') t = Some hist" by (simp add: s' hist)
  have items: "set (od_set t ?hist (ls_history s)) \<subseteq> insert (t, ?hist) (set (ls_history s))"
    using assms(1) by (auto simp: loop_ok_def tracking_ok_def od_set_ok_items)
  have warned: "fst ` set (ls_warned s') \<subseteq> fst ` set (ls_history s)"
    using assms(1,3) by (auto simp: s' loop_ok_def tracking_ok_def od_pop_def split: option.splits)
      (simp add: dom_od_set image_iff, blast)?
  have "tracking_ok c s'"
    using assms(1) items hl warned keys
    by (auto simp: tracking_ok_def loop_ok_def s' hist)
  moreover have "pending_ok s'"
    using assms(1,3) by (simp add: loop_ok_def pending_ok_def s' insert_absorb)
  moreover have "length (ls_history s') = length (ls_history s)"
    using assms(3) by (simp add: s' length_od_set)
  ultimately show "loop_ok c s'" using assms(1) by (simp add: loop_ok_def s')
qed

text \<open>The warning and frequency tables only gain entries for the tracked thread.\<close>

lemma loop_ok_tables:
  assumes "loop_ok c s" and "t \<in> fst ` set (ls_history s)"
    and "ls_history s' = ls_history s" and "ls_pending s' = ls_pending s" and "ls_touch s' = ls_touch s"
    and "fst ` set (ls_warned s') \<subseteq> insert t (fst ` set (ls_warned s))"
    and "fst ` set (ls_freq s') \<subseteq> insert t (fst ` set (ls_freq s))"
    and "fst ` set (ls_freq_warned s') \<subseteq> insert t (fst ` set (ls_freq_warned s))"
  shows "loop_ok c s'"
proof -
  let ?h = "fst ` set (ls_history s)"
  have grow: "A \<subseteq> insert t B \<Longrightarrow> B \<subseteq> ?h \<Longrightarrow> A \<subseteq> ?h" for A B :: "string set"
    using assms(2) by blast
  have "fst ` set (ls_warned s) \<subseteq> ?h" "fst ` set (ls_freq s) \<subseteq> ?h" "fst ` set (ls_freq_warned s) \<subseteq> ?h"
    using assms(1) by (simp_all add: loop_ok_def tracking_ok_def)
  then have "fst ` set (ls_warned s') \<subseteq> ?h" "fst ` set (ls_freq s') \<subseteq> ?h" "fst ` set (ls_freq_warned s') \<subseteq> ?h"
    using grow [OF assms(6)] grow [OF assms(7)] grow [OF assms(8)] by simp_all
  with assms(1,3-5) show ?thesis by (simp add: loop_ok_def tracking_ok_def pending_ok_def)
qed

lemma check_freq_tables:
  assumes "check_freq c t tcs s = (r, s')"
  shows "ls_history s' = ls_history s \<and> ls_pending s' = ls_pending s \<and> ls_touch s' = ls_touch s
    \<and> ls_warned s' = ls_warned s \<and> fst ` set (ls_freq s') \<subseteq> insert t (fst ` set (ls_freq s))
    \<and> fst ` set (ls_freq_warned s') \<subseteq> insert t (fst ` set (ls_freq_warned s))"
  using assms
proof (induction tcs arbitrary: s)
  case Nil
  then show ?case by auto
next
  case (Cons tc tcs)
  let ?name = "tc_name tc"
  let ?n = "od_get_default (od_get_default (ls_freq s) t []) ?name 0 + 1"
  let ?s1 = "s\<lparr>ls_freq := od_set t (od_set ?name ?n (od_get_default (ls_freq s) t [])) (ls_freq s)\<rparr>"
  let ?w = "od_get_default (ls_freq_warned s) t {}"
  let ?s2 = "?s1\<lparr>ls_freq_warned := od_set t (insert ?name ?w) (ls_freq_warned s)\<rparr>"
  obtain ew eh where lim: "freq_limits c ?name = (ew, eh)" by force
  consider "?name = ''''" "check_freq c t tcs s = (r, s')" | "s' = ?s1" | "s' = ?s2"
    | "check_freq c t tcs ?s1 = (r, s')" | "check_freq c t tcs ?s2 = (r, s')"
    using Cons.prems lim by (auto simp: Let_def split: if_splits)
  then show ?case
  proof cases
    case 1
    from Cons.IH [OF 1(2)] show ?thesis by simp
  next
    case 4
    from Cons.IH [OF 4] show ?thesis by auto
  next
    case 5
    from Cons.IH [OF 5] show ?thesis by auto
  qed auto
qed

lemma track_and_check_ok:
  assumes "loop_ok c s" and "cfg_valid c" and "track_and_check c t h tcs s = (r, s')"
  shows "loop_ok c s' \<and> t \<in> fst ` set (ls_history s')"
proof -
  let ?s0 = "touch_thread c t s"
  note t = touch_thread_ok [OF assms(1,2), of t]
  obtain hist s1 where p: "push_hash c t h ?s0 = (hist, s1)" by force
  note ph = push_hash_ok [OF t(1) assms(2) t(2) p]
  have in1: "t \<in> fst ` set (ls_history s1)" using t(2) ph(2) by simp
  let ?s2 = "s1\<lparr>ls_warned := od_set t (insert h (od_get_default (ls_warned s1) t {})) (ls_warned s1)\<rparr>"
  have ok2: "loop_ok c ?s2" by (rule loop_ok_tables [OF ph(1) in1]) auto
  have freq: "loop_ok c s' \<and> t \<in> fst ` set (ls_history s')"
    if "check_freq c t tcs (ensure_freq t x) = (r, s')" "loop_ok c x" "t \<in> fst ` set (ls_history x)" for x
    using check_freq_tables [OF that(1)] that(2,3)
    by (intro conjI loop_ok_tables [OF that(2,3)]) (auto simp: ensure_freq_def split: if_splits)
  consider "s' = s1" | "s' = ?s2" | "check_freq c t tcs (ensure_freq t ?s2) = (r, s')"
    | "check_freq c t tcs (ensure_freq t s1) = (r, s')"
    using assms(3) p by (auto simp: track_and_check_def Let_def split: if_splits)
  then show ?thesis
  proof cases
    case 3
    then show ?thesis using freq ok2 in1 by simp
  next
    case 4
    then show ?thesis using freq ph(1) in1 by simp
  qed (use ph(1) in1 ok2 in auto)
qed

lemma drop_one_touch: "ls_touch (fold drop_pending [x] s) = filter (\<lambda>y. y \<noteq> x) (ls_touch s)"
  by (simp add: drop_pending_def)

lemma queue_pending_ok:
  assumes "loop_ok c s" and "fst k \<in> fst ` set (ls_history s)"
  shows "loop_ok c (queue_pending c k w s)"
proof -
  let ?ws = "od_get_default (ls_pending s) k []"
  let ?ws1 = "if w \<in> set ?ws then ?ws else ?ws @ [w]"
  let ?ws2 = "drop (length ?ws1 - max_pending_warnings) ?ws1"
  let ?s = "touch_pending k (s\<lparr>ls_pending := od_set k ?ws2 (ls_pending s)\<rparr>)"
  have p: "pending_ok s" using assms(1) by (simp add: loop_ok_def)
  have ok: "pending_ok ?s"
    using p assms(2) od_set_ok_items [of "ls_pending s" k ?ws2]
    by (auto simp: pending_ok_def touch_pending_def)
  have "length (ls_touch ?s) \<le> Suc (length (ls_touch s))"
    by (simp add: touch_pending_def le_SucI)
  then have len: "length (ls_touch ?s) \<le> Suc (max_pending_keys c)"
    using assms(1) pending_length [OF p] by (simp add: loop_ok_def)
  let ?over = "length (ls_touch ?s) - max_pending_keys c"
  let ?cand = "filter (\<lambda>x. x \<noteq> k) (ls_touch ?s)"
  let ?gone = "take ?over ?cand"
  have q: "queue_pending c k w s = fold drop_pending ?gone ?s"
    by (simp add: queue_pending_def prune_pending_def Let_def)
  have ok': "pending_ok (fold drop_pending ?gone ?s)"
    by (rule pending_ok_filter [OF ok, where P = "\<lambda>x. x \<notin> set ?gone"]) (simp_all add: fold_drop_pending)
  have "length (ls_touch (fold drop_pending ?gone ?s)) \<le> max_pending_keys c"
  proof (cases "?over = 0")
    case True
    then show ?thesis by (simp add: fold_drop_pending)
  next
    case False
    with len have over: "?over = 1" by simp
    have "1 \<le> max_pending_keys c" by (simp add: max_pending_keys_def)
    have touch: "ls_touch ?s = filter (\<lambda>x. x \<noteq> k) (ls_touch s) @ [k]" by (simp add: touch_pending_def)
    have "filter (\<lambda>x. x \<noteq> k) (ls_touch s) \<noteq> []" using over \<open>1 \<le> max_pending_keys c\<close> touch by auto
    then obtain x xs where x: "filter (\<lambda>x. x \<noteq> k) (ls_touch s) = x # xs" by (cases "filter (\<lambda>x. x \<noteq> k) (ls_touch s)") auto
    have "?cand = filter (\<lambda>x. x \<noteq> k) (ls_touch s)" by (simp add: touch_pending_def)
    then have "?gone = take 1 (x # xs)" by (simp only: over x)
    then have "?gone = [x]" by simp
    moreover have "length (filter (\<lambda>y. y \<noteq> x) (ls_touch ?s)) < length (ls_touch ?s)"
      using touch x by (intro length_filter_less [of x]) auto
    moreover have "ls_touch (fold drop_pending [x] ?s) = filter (\<lambda>y. y \<noteq> x) (ls_touch ?s)"
      by (rule drop_one_touch)
    ultimately have "length (ls_touch (fold drop_pending ?gone ?s)) < length (ls_touch ?s)"
      by (simp only:)
    then show ?thesis using len by linarith
  qed
  then have "length (ls_pending (fold drop_pending ?gone ?s)) \<le> max_pending_keys c"
    using pending_length [OF ok'] by simp
  moreover have "tracking_ok c (fold drop_pending ?gone ?s) = tracking_ok c s"
    by (simp add: fold_drop_pending touch_pending_def tracking_ok_def)
  moreover have "ls_history (fold drop_pending ?gone ?s) = ls_history s"
    by (simp add: fold_drop_pending touch_pending_def)
  ultimately show ?thesis using ok' assms(1) q by (simp add: loop_ok_def)
qed

lemma after_model_ok:
  assumes "loop_ok c s" and "cfg_valid c" and "after_model env c k m s = Some (r, s')"
  shows "loop_ok c s'"
proof (cases "case m of None \<Rightarrow> False | Some x \<Rightarrow> am_is_ai x \<and> am_tool_calls x \<noteq> []")
  case False
  with assms show ?thesis by (auto simp: after_model_def split: option.splits if_splits)
next
  case True
  then obtain x where x: "m = Some x" "am_is_ai x" "am_tool_calls x \<noteq> []" by (auto split: option.splits)
  then obtain h where h: "hash_tool_calls env (am_tool_calls x) = Some h"
    using assms(3) by (auto simp: after_model_def split: option.splits)
  obtain w stop s1 where tr: "track_and_check c (fst k) h (am_tool_calls x) s = ((w, stop), s1)" by (metis surj_pair)
  note ok = track_and_check_ok [OF assms(1,2) tr]
  have "s' = s1 \<or> (\<exists>msg. s' = queue_pending c k msg s1)"
    using assms(3) x h tr by (cases stop; cases w) (simp_all add: after_model_def, blast+)
  with ok queue_pending_ok show ?thesis by blast
qed

section \<open>Histories of hooks\<close>

datatype loop_op =
    AfterModel run_key "ai_message option"
  | BeforeAgent run_key
  | AfterAgent run_key
  | ModelCall run_key
  | LoopReset "string option"

text \<open>A hash that raises has changed nothing: it is computed before the state is touched.\<close>

fun loop_step :: "text_env \<Rightarrow> loop_cfg \<Rightarrow> loop_op \<Rightarrow> loop_state \<Rightarrow> loop_state" where
  "loop_step env c (AfterModel k m) s = (case after_model env c k m s of None \<Rightarrow> s | Some (_, s') \<Rightarrow> s')"
| "loop_step env c (BeforeAgent k) s = before_agent k s"
| "loop_step env c (AfterAgent k) s = after_agent k s"
| "loop_step env c (ModelCall k) s = snd (drain_pending k s)"
| "loop_step env c (LoopReset t) s = loop_reset t s"

definition loop_run :: "text_env \<Rightarrow> loop_cfg \<Rightarrow> loop_op list \<Rightarrow> loop_state \<Rightarrow> loop_state" where
  "loop_run env c ops s = fold (loop_step env c) ops s"

lemma loop_init_ok: "loop_ok c loop_init"
  by (simp add: loop_ok_def tracking_ok_def pending_ok_def loop_init_def)

lemma loop_step_ok:
  assumes "loop_ok c s" and "cfg_valid c"
  shows "loop_ok c (loop_step env c op s)"
proof (cases op)
  case (AfterModel k m)
  with assms after_model_ok [OF assms] show ?thesis by (auto split: option.split)
next
  case (LoopReset t)
  with assms show ?thesis by (auto simp: loop_reset_def loop_init_ok loop_ok_forget split: option.split)
qed (use assms in \<open>simp_all add: before_agent_def after_agent_def drain_pending_def loop_ok_drop loop_ok_drop_where\<close>)

lemma loop_run_ok: "loop_ok c s \<Longrightarrow> cfg_valid c \<Longrightarrow> loop_ok c (loop_run env c ops s)"
  unfolding loop_run_def by (induction ops arbitrary: s) (simp_all add: loop_step_ok)

lemmas loop_reachable_ok = loop_run_ok [OF loop_init_ok]

section \<open>The windows hold the last calls of a thread\<close>

lemma check_freq_not_hard: "fst (check_freq c t tcs s) \<noteq> (Some hard_stop_msg, True)"
proof (induction tcs arbitrary: s)
  case (Cons tc tcs)
  have "freq_hard_stop_msg name n \<noteq> hard_stop_msg" for name n
    by (simp add: freq_hard_stop_msg_def hard_stop_msg_def)
  with Cons show ?case by (auto simp: Let_def split: prod.split)
qed simp

lemma track_and_check_window:
  assumes "loop_ok c s" and "cfg_valid c" and "track_and_check c t h tcs s = (r, s')"
  obtains hist where "map_of (ls_history s') t = Some hist"
    and "hist = (let ys = od_get_default (ls_history s) t [] @ [h]
           in if length ys > lc_window c then last_slice (lc_window c) ys else ys)"
    and "length hist \<le> lc_window c"
    and "(r = (Some hard_stop_msg, True)) = (count_list hist h \<ge> lc_hard c)"
proof -
  let ?s0 = "touch_thread c t s"
  note t = touch_thread_ok [OF assms(1,2), of t]
  obtain hist s1 where p: "push_hash c t h ?s0 = (hist, s1)" by force
  note ph = push_hash_ok [OF t(1) assms(2) t(2) p]
  have hist: "hist = (let ys = od_get_default (ls_history s) t [] @ [h]
           in if length ys > lc_window c then last_slice (lc_window c) ys else ys)"
    using ph(5) t(3) by (simp add: Let_def)
  have freq: "ls_history s' = ls_history x \<and> r \<noteq> (Some hard_stop_msg, True)"
    if "check_freq c t tcs (ensure_freq t x) = (r, s')" for x
    using check_freq_tables [OF that] check_freq_not_hard [of c t tcs "ensure_freq t x"] that
    by (auto simp: ensure_freq_def split: if_splits)
  have warn: "warning_msg \<noteq> hard_stop_msg" by (simp add: warning_msg_def hard_stop_msg_def)
  let ?s2 = "s1\<lparr>ls_warned := od_set t (insert h (od_get_default (ls_warned s1) t {})) (ls_warned s1)\<rparr>"
  have eq: "(r, s') = (if count_list hist h \<ge> lc_hard c then ((Some hard_stop_msg, True), s1)
      else if count_list hist h \<ge> lc_warn c
      then (if h \<in> od_get_default (ls_warned s1) t {} then check_freq c t tcs (ensure_freq t ?s2)
            else ((Some warning_msg, False), ?s2))
      else check_freq c t tcs (ensure_freq t s1))"
    unfolding assms(3) [symmetric] by (simp add: track_and_check_def p Let_def)
  have "ls_history s' = ls_history s1 \<and> (r = (Some hard_stop_msg, True)) = (count_list hist h \<ge> lc_hard c)"
  proof (cases "count_list hist h \<ge> lc_hard c")
    case True
    with eq show ?thesis by simp
  next
    case False
    then consider "r = (Some warning_msg, False)" "s' = ?s2"
      | "check_freq c t tcs (ensure_freq t ?s2) = (r, s')" | "check_freq c t tcs (ensure_freq t s1) = (r, s')"
      using eq by (metis prod.inject)
    then show ?thesis
    proof cases
      case 1
      with False warn show ?thesis by simp
    next
      case 2
      from freq [OF 2] False show ?thesis by simp
    next
      case 3
      from freq [OF 3] False show ?thesis by simp
    qed
  qed
  with that [of hist] ph(3,4) hist show ?thesis by simp
qed

text \<open>The thread and the hash of the tool calls an operation brings, and the hashes of one thread in order.\<close>

definition op_call :: "text_env \<Rightarrow> loop_op \<Rightarrow> (string \<times> string) option" where
  "op_call env op =
     (case op of
        AfterModel k (Some m) \<Rightarrow>
          (if am_is_ai m \<and> am_tool_calls m \<noteq> [] then map_option (Pair (fst k)) (hash_tool_calls env (am_tool_calls m)) else None)
      | _ \<Rightarrow> None)"

definition calls_made :: "text_env \<Rightarrow> loop_op list \<Rightarrow> (string \<times> string) list" where
  "calls_made env ops = List.map_filter (op_call env) ops"

definition recorded :: "text_env \<Rightarrow> string \<Rightarrow> loop_op list \<Rightarrow> string list" where
  "recorded env t ops = map snd (filter (\<lambda>p. fst p = t) (calls_made env ops))"

definition other_callers :: "text_env \<Rightarrow> string \<Rightarrow> loop_op list \<Rightarrow> string set" where
  "other_callers env t ops = fst ` set (calls_made env ops) - {t}"

definition keeps_thread :: "string \<Rightarrow> loop_op \<Rightarrow> bool" where
  "keeps_thread t op =
     (case op of LoopReset None \<Rightarrow> False | LoopReset (Some u) \<Rightarrow> u \<noteq> '''' \<and> u \<noteq> t | _ \<Rightarrow> True)"

lemma history_kept:
  "ls_history (drop_pending k s) = ls_history s"
  "ls_history (drop_pending_where P s) = ls_history s"
  "ls_history (queue_pending c k w s) = ls_history s"
  by (simp_all add: drop_pending_def drop_pending_where_def fold_drop_pending queue_pending_def
      prune_pending_def touch_pending_def Let_def)

lemma forget_history: "ls_history (forget_thread t s) = od_pop t (ls_history s)"
  by (simp add: forget_thread_def history_kept)

text \<open>Touching a thread moves it to the end; a new one pushes out the oldest when the table is full.\<close>

lemma touch_history:
  assumes "loop_ok c s" and "cfg_valid c"
  shows "ls_history (touch_thread c t s) =
    (if t \<in> fst ` set (ls_history s) then od_move_to_end t (ls_history s)
     else (if length (ls_history s) < lc_max_threads c then ls_history s else tl (ls_history s)) @ [(t, [])])"
proof (cases "t \<in> fst ` set (ls_history s)")
  case True
  then show ?thesis by (simp add: touch_thread_def)
next
  case False
  let ?s = "s\<lparr>ls_history := ls_history s @ [(t, [])]\<rparr>"
  have od: "od_ok (ls_history s)" and len: "length (ls_history s) \<le> lc_max_threads c" and max: "1 \<le> lc_max_threads c"
    using assms by (simp_all add: loop_ok_def tracking_ok_def cfg_valid_def)
  show ?thesis
  proof (cases "length (ls_history s) < lc_max_threads c")
    case True
    with False show ?thesis
      using evict_rounds_fits [of ?s c] by (simp add: touch_thread_def evict_if_needed_def del: evict_rounds.simps)
  next
    case full: False
    with max obtain t0 h0 rest where hist: "ls_history s = (t0, h0) # rest"
      by (cases "ls_history s") auto
    let ?f = "forget_thread t0 ?s"
    have "t0 \<notin> fst ` set rest" "t0 \<noteq> t" using od hist False by auto
    then have hf: "ls_history ?f = rest @ [(t, [])]"
      using od_pop_absent [of t0 rest] by (simp add: forget_history hist od_pop_def)
    have "evict_if_needed c ?s = evict_rounds (length (ls_history s)) c ?f"
      using full len by (simp add: evict_if_needed_def hist)
    also have "\<dots> = ?f" using hf full len hist by (intro evict_rounds_fits) simp
    finally show ?thesis using False full hf hist by (simp add: touch_thread_def)
  qed
qed

lemma track_history:
  assumes "track_and_check c t h tcs s = (r, s')"
  shows "ls_history s' = (let hist = od_get_default (ls_history (touch_thread c t s)) t [] @ [h]
    in od_set t (if length hist > lc_window c then last_slice (lc_window c) hist else hist) (ls_history (touch_thread c t s)))"
proof -
  obtain hist s1 where p: "push_hash c t h (touch_thread c t s) = (hist, s1)" by force
  then have "ls_history s1 = (let hist = od_get_default (ls_history (touch_thread c t s)) t [] @ [h]
    in od_set t (if length hist > lc_window c then last_slice (lc_window c) hist else hist) (ls_history (touch_thread c t s)))"
    by (auto simp: push_hash_def Let_def split: option.splits)
  moreover have "ls_history s' = ls_history x" if "check_freq c t tcs (ensure_freq t x) = (r, s')" for x
    using check_freq_tables [OF that] by (auto simp: ensure_freq_def split: if_splits)
  then have "ls_history s' = ls_history s1"
    using assms p by (fastforce simp: track_and_check_def Let_def split: if_splits)
  ultimately show ?thesis by simp
qed

lemma step_history_call:
  assumes "op_call env op = Some (t, h)" and "loop_ok c s" and "cfg_valid c"
  shows "ls_history (loop_step env c op s) =
    od_set t (last_slice (lc_window c) (od_get_default (ls_history s) t [] @ [h])) (ls_history (touch_thread c t s))"
proof -
  obtain k m where op: "op = AfterModel k (Some m)" "am_is_ai m" "am_tool_calls m \<noteq> []"
      and k: "fst k = t" "hash_tool_calls env (am_tool_calls m) = Some h"
    using assms(1) by (auto simp: op_call_def split: loop_op.splits option.splits if_splits)
  obtain r s1 where tr: "track_and_check c t h (am_tool_calls m) s = (r, s1)" by (metis surj_pair)
  then have "ls_history (loop_step env c op s) = ls_history s1"
    using op k by (cases r; cases "snd r"; cases "fst r") (simp_all add: after_model_def history_kept)
  moreover have "(if length xs > w then last_slice w xs else xs) = last_slice w xs" for w and xs :: "string list"
    by (simp add: last_slice_def)
  ultimately show ?thesis
    using track_history [OF tr] touch_thread_ok(3) [OF assms(2,3), of t] by (simp add: Let_def)
qed

lemma step_history_other:
  assumes "op_call env op = None"
  shows "ls_history (loop_step env c op s) =
    (case op of LoopReset None \<Rightarrow> [] | LoopReset (Some u) \<Rightarrow> (if u = '''' then [] else od_pop u (ls_history s))
     | _ \<Rightarrow> ls_history s)"
proof (cases op)
  case (AfterModel k m)
  with assms show ?thesis
    by (auto simp: op_call_def after_model_def split: option.splits if_splits)
qed (simp_all add: before_agent_def after_agent_def drain_pending_def history_kept loop_reset_def loop_init_def
  forget_history split: option.split)

lemma last_slice_suffix: "suffix (last_slice n xs) xs"
  by (simp add: last_slice_def suffix_drop)

text \<open>A suffix that is no longer than \<open>n\<close> is a suffix of the last \<open>n\<close> elements.\<close>

lemma suffix_last_slice: "suffix ys xs \<Longrightarrow> length ys \<le> n \<Longrightarrow> 1 \<le> n \<Longrightarrow> suffix ys (last_slice n xs)"
  by (rule suffix_length_suffix [OF _ last_slice_suffix]) (auto simp: length_last_slice dest: suffix_length_le)

lemma suffix_count: "suffix xs ys \<Longrightarrow> count_list xs x \<le> count_list ys x"
  by (auto simp: suffix_def)

lemma calls_made_snoc:
  "calls_made env (ops @ [op]) = calls_made env ops @ (case op_call env op of None \<Rightarrow> [] | Some p \<Rightarrow> [p])"
  by (simp add: calls_made_def List.map_filter_def split: option.split)

lemma recorded_snoc:
  "recorded env t (ops @ [op]) = recorded env t ops @ (case op_call env op of Some (u, h) \<Rightarrow> if u = t then [h] else [] | None \<Rightarrow> [])"
  by (simp add: recorded_def calls_made_snoc split: option.split)

lemma map_of_history_tl:
  assumes "od_ok d" and "map_of (tl d) t = Some v"
  shows "map_of d t = Some v"
proof -
  have "(t, v) \<in> set d"
    using map_of_SomeD [OF assms(2)] by (cases d) auto
  then show ?thesis by (simp add: map_of_eq_Some_iff [OF assms(1)])
qed

lemma touch_history_lookup:
  assumes "loop_ok c s" and "cfg_valid c" and "u \<noteq> t"
  shows "od_get_default (ls_history (touch_thread c u s)) t [] \<in> {[], od_get_default (ls_history s) t []}"
proof -
  have "od_ok (ls_history s)" using assms(1) by (simp add: loop_ok_def tracking_ok_def)
  then have "map_of (tl (ls_history s)) t = None \<or> map_of (tl (ls_history s)) t = map_of (ls_history s) t"
    using map_of_history_tl [of "ls_history s" t] by (cases "map_of (tl (ls_history s)) t") simp_all
  then show ?thesis
    using assms(3) by (auto simp: touch_history [OF assms(1,2)] od_get_default_def map_add_def split: option.split)
qed

text \<open>A window never holds more than the last hashes of its thread.\<close>

lemma window_within_record:
  assumes "cfg_valid c"
  shows "suffix (od_get_default (ls_history (loop_run env c ops loop_init)) t []) (recorded env t ops)"
proof (induction ops rule: rev_induct)
  case Nil
  then show ?case by (simp add: loop_run_def loop_init_def od_get_default_def)
next
  case (snoc op ops)
  let ?s = "loop_run env c ops loop_init"
  have ok: "loop_ok c ?s" by (rule loop_reachable_ok [OF assms])
  have run: "loop_run env c (ops @ [op]) loop_init = loop_step env c op ?s" by (simp add: loop_run_def)
  show ?case
  proof (cases "op_call env op")
    case None
    then show ?thesis
      unfolding run recorded_snoc using snoc
      by (auto simp: step_history_other od_get_default_pop od_get_default_def [of "[]"] split: loop_op.split option.split)
  next
    case (Some p)
    obtain u h where p: "p = (u, h)" by force
    note step = step_history_call [OF Some [unfolded p] ok assms]
    show ?thesis
    proof (cases "u = t")
      case True
      have "suffix (od_get_default (ls_history ?s) t [] @ [h]) (recorded env t ops @ [h])"
        using snoc by (simp add: suffix_def)
      then have "suffix (last_slice (lc_window c) (od_get_default (ls_history ?s) t [] @ [h])) (recorded env t ops @ [h])"
        using last_slice_suffix suffix_order.trans by blast
      then show ?thesis
        unfolding run recorded_snoc step True by (simp add: Some p True od_get_default_set)
    next
      case False
      with touch_history_lookup [OF ok assms False] show ?thesis
        unfolding run recorded_snoc using Some p snoc by (auto simp: step od_get_default_set)
    qed
  qed
qed

text \<open>A thread stays tracked while fewer than \<open>max_tracked_threads\<close> others call after it.\<close>

definition recent :: "string \<Rightarrow> string set \<Rightarrow> string list \<Rightarrow> bool" where
  "recent t U ks \<longleftrightarrow> (\<exists>a b. ks = a @ t # b \<and> set b \<subseteq> U)"

lemma recent_touch:
  assumes ok: "loop_ok c s" "cfg_valid c" and u: "u \<in> U" "t \<notin> U" and U: "finite U" "card U < lc_max_threads c"
    and rec: "recent t U (od_keys (ls_history s))"
  shows "recent t U (od_keys (ls_history (touch_thread c u s)))"
    and "od_get_default (ls_history (touch_thread c u s)) t [] = od_get_default (ls_history s) t []"
proof -
  obtain a b where ab: "od_keys (ls_history s) = a @ t # b" "set b \<subseteq> U"
    using rec by (auto simp: recent_def)
  have od: "od_ok (ls_history s)" using ok(1) by (simp add: loop_ok_def tracking_ok_def)
  have ut: "u \<noteq> t" using u by auto
  have "recent t U (od_keys (ls_history (touch_thread c u s)))
      \<and> od_get_default (ls_history (touch_thread c u s)) t [] = od_get_default (ls_history s) t []"
  proof (cases "u \<in> fst ` set (ls_history s)")
    case True
    then obtain v where "map_of (ls_history s) u = Some v"
      by (metis map_of_None_iff not_None_eq)
    then have "od_keys (ls_history (touch_thread c u s)) = filter (\<lambda>k. k \<noteq> u) a @ t # (filter (\<lambda>k. k \<noteq> u) b @ [u])"
      using True ut ab(1) by (simp add: touch_history [OF ok] od_move_to_end_def od_keys_pop)
    moreover have "set (filter (\<lambda>k. k \<noteq> u) b @ [u]) \<subseteq> U" using ab(2) u(1) by auto
    ultimately have "recent t U (od_keys (ls_history (touch_thread c u s)))"
      unfolding recent_def by blast
    then show ?thesis using True by (simp add: touch_history [OF ok] od_get_default_def)
  next
    case False
    show ?thesis
    proof (cases "length (ls_history s) < lc_max_threads c")
      case True
      have "od_keys (ls_history s) @ [u] = a @ t # (b @ [u])" "set (b @ [u]) \<subseteq> U"
        using ab u(1) by simp_all
      then have "recent t U (od_keys (ls_history s) @ [u])" unfolding recent_def by blast
      then show ?thesis
        using True False ut by (simp add: touch_history [OF ok] od_get_default_def map_add_def split: option.split)
    next
      case full: False
      have "a \<noteq> []"
      proof
        assume "a = []"
        then have "distinct (u # b)" "length (ls_history s) = Suc (length b)"
          using od ab(1) False by (auto simp flip: length_map [of fst] set_map)
        then have "lc_max_threads c \<le> card (set (u # b))"
          using full by (simp add: distinct_card)
        also have "\<dots> \<le> card U" using ab(2) u(1) U(1) by (intro card_mono) auto
        finally show False using U(2) by simp
      qed
      then obtain x a' where a: "a = x # a'" by (cases a) auto
      then obtain v rest where hist: "ls_history s = (x, v) # rest" "od_keys rest = a' @ t # b"
        using ab(1) by (cases "ls_history s") auto
      have "t \<noteq> x" using od hist by auto
      moreover have "od_keys (rest @ [(u, [])]) = a' @ t # (b @ [u])" "set (b @ [u]) \<subseteq> U"
        using hist(2) ab(2) u(1) by simp_all
      then have "recent t U (od_keys (rest @ [(u, [])]))" unfolding recent_def by blast
      ultimately show ?thesis
        using full False ut hist(1) by (simp add: touch_history [OF ok] od_get_default_def map_add_def split: option.split)
    qed
  qed
  then show "recent t U (od_keys (ls_history (touch_thread c u s)))"
    and "od_get_default (ls_history (touch_thread c u s)) t [] = od_get_default (ls_history s) t []" by simp_all
qed

lemma recent_self:
  assumes "loop_ok c s" and "cfg_valid c"
  shows "recent t U (od_keys (ls_history (touch_thread c t s)))"
proof -
  have "\<exists>a. od_keys (ls_history (touch_thread c t s)) = a @ [t]"
    using map_of_None_iff [of "ls_history s" t]
    by (auto simp: touch_history [OF assms] od_move_to_end_def od_keys_pop split: option.split)
  then obtain a where "od_keys (ls_history (touch_thread c t s)) = a @ t # []" by blast
  then show ?thesis unfolding recent_def by (metis empty_set empty_subsetI)
qed

lemma recent_pop: "recent t U ks \<Longrightarrow> u \<noteq> t \<Longrightarrow> recent t U (filter (\<lambda>k. k \<noteq> u) ks)"
proof -
  assume "recent t U ks" "u \<noteq> t"
  then obtain a b where "ks = a @ t # b" "set b \<subseteq> U" by (auto simp: recent_def)
  then have "filter (\<lambda>k. k \<noteq> u) ks = filter (\<lambda>k. k \<noteq> u) a @ t # filter (\<lambda>k. k \<noteq> u) b" "set (filter (\<lambda>k. k \<noteq> u) b) \<subseteq> U"
    using \<open>u \<noteq> t\<close> by auto
  then show ?thesis unfolding recent_def by blast
qed

lemma check_freq_stop_text: "check_freq c t tcs s = ((w, True), s') \<Longrightarrow> w \<noteq> None"
proof (induction tcs arbitrary: s)
  case (Cons tc tcs)
  then show ?case by (auto simp: Let_def split: prod.splits if_splits)
qed simp

lemma track_stop_text: "track_and_check c t h tcs s = ((w, stop), s') \<Longrightarrow> stop \<Longrightarrow> w \<noteq> None"
  using check_freq_stop_text [of c t tcs _ w s']
  by (cases w) (auto simp: track_and_check_def Let_def split: prod.splits if_splits)

text \<open>What the window of a thread holds at least: its last hashes since the beginning of \<open>ops\<close>.\<close>

lemma window_mono:
  assumes "cfg_valid c" and "suffix xs ys"
  shows "suffix (last_slice (lc_window c) (xs @ [h])) (last_slice (lc_window c) (ys @ [h]))"
proof -
  have w: "1 \<le> lc_window c" using assms(1) by (simp add: cfg_valid_def)
  have "suffix (xs @ [h]) (ys @ [h])" using assms(2) by (auto simp: suffix_def)
  then have "suffix (last_slice (lc_window c) (xs @ [h])) (ys @ [h])"
    using last_slice_suffix suffix_order.trans by blast
  with w show ?thesis by (intro suffix_last_slice) (simp_all add: length_last_slice)
qed

lemma last_slice_snoc:
  assumes "1 \<le> n" and "suffix (last_slice n xs) ys"
  shows "suffix (last_slice n (xs @ [h])) (last_slice n (ys @ [h]))"
proof -
  have "suffix (last_slice n (xs @ [h])) (last_slice n xs @ [h])"
  proof (rule suffix_length_suffix)
    show "suffix (last_slice n (xs @ [h])) (xs @ [h])" by (rule last_slice_suffix)
    show "suffix (last_slice n xs @ [h]) (xs @ [h])"
      using last_slice_suffix [of n xs] by (auto simp: suffix_def)
    show "length (last_slice n (xs @ [h])) \<le> length (last_slice n xs @ [h])"
      using assms(1) by (simp add: length_last_slice)
  qed
  also have "suffix (last_slice n xs @ [h]) (ys @ [h])" using assms(2) by (auto simp: suffix_def)
  finally show ?thesis using assms(1) by (intro suffix_last_slice) (simp_all add: length_last_slice)
qed

lemma window_holds_record:
  assumes "cfg_valid c" and "loop_ok c s0" and U: "finite U" "t \<notin> U" "card U < lc_max_threads c"
    and "\<forall>op \<in> set ops. keeps_thread t op" and "fst ` set (calls_made env ops) \<subseteq> insert t U"
  shows "suffix (last_slice (lc_window c) (recorded env t ops)) (od_get_default (ls_history (loop_run env c ops s0)) t [])
    \<and> (recorded env t ops \<noteq> [] \<longrightarrow> recent t U (od_keys (ls_history (loop_run env c ops s0))))"
  using assms(6,7)
proof (induction ops rule: rev_induct)
  case Nil
  then show ?case by (simp add: recorded_def calls_made_def List.map_filter_simps last_slice_def)
next
  case (snoc op ops)
  let ?s = "loop_run env c ops s0"
  have ok: "loop_ok c ?s" by (rule loop_run_ok [OF assms(2,1)])
  have w: "1 \<le> lc_window c" using assms(1) by (simp add: cfg_valid_def)
  have run: "loop_run env c (ops @ [op]) s0 = loop_step env c op ?s" by (simp add: loop_run_def)
  have IH: "suffix (last_slice (lc_window c) (recorded env t ops)) (od_get_default (ls_history ?s) t [])"
      "recorded env t ops \<noteq> [] \<Longrightarrow> recent t U (od_keys (ls_history ?s))"
    using snoc by (auto simp: calls_made_snoc)
  show ?case
  proof (cases "op_call env op")
    case None
    have "od_get_default (ls_history (loop_step env c op ?s)) t [] = od_get_default (ls_history ?s) t []
        \<and> (recent t U (od_keys (ls_history ?s)) \<longrightarrow> recent t U (od_keys (ls_history (loop_step env c op ?s))))"
      using snoc.prems(1) recent_pop
      by (auto simp: step_history_other [OF None] keeps_thread_def od_get_default_pop od_keys_pop split: loop_op.split option.split)
    with IH None show ?thesis unfolding run recorded_snoc by auto
  next
    case (Some p)
    obtain u h where p: "p = (u, h)" by force
    note step = step_history_call [OF Some [unfolded p] ok assms(1)]
    have keys: "od_keys (ls_history (loop_step env c op ?s)) = od_keys (ls_history (touch_thread c u ?s))"
      using touch_thread_ok(2) [OF ok assms(1), of u] by (simp add: step od_keys_set)
    show ?thesis
    proof (cases "u = t")
      case True
      have "recent t U (od_keys (ls_history (touch_thread c t ?s)))"
        by (rule recent_self [OF ok assms(1)])
      then show ?thesis
        unfolding run recorded_snoc using Some p True keys last_slice_snoc [OF w IH(1), of h]
        by (simp add: step od_get_default_set)
    next
      case False
      have u: "u \<in> U"
        using snoc.prems(2) Some p False by (auto simp: calls_made_snoc)
      show ?thesis
      proof (cases "recorded env t ops = []")
        case True
        then show ?thesis unfolding recorded_snoc using Some p False by (simp add: last_slice_def)
      next
        case nonempty: False
        note touch = recent_touch [OF ok assms(1) u U(2,1,3) IH(2) [OF nonempty]]
        show ?thesis
          unfolding run recorded_snoc using Some p False keys touch IH(1) by (simp add: step od_get_default_set)
      qed
    qed
  qed
qed

lemma window_covers_record:
  assumes "cfg_valid c" and "\<forall>op \<in> set ops. keeps_thread t op" and "card (other_callers env t ops) < lc_max_threads c"
  shows "suffix (last_slice (lc_window c) (recorded env t ops @ [h]))
    (last_slice (lc_window c) (od_get_default (ls_history (loop_run env c (before @ ops) loop_init)) t [] @ [h]))"
proof -
  have w: "1 \<le> lc_window c" using assms(1) by (simp add: cfg_valid_def)
  have "loop_run env c (before @ ops) loop_init = loop_run env c ops (loop_run env c before loop_init)"
    by (simp add: loop_run_def)
  then show ?thesis
    using window_holds_record [OF assms(1) loop_reachable_ok [OF assms(1)] _ _ assms(3,2)]
    by (intro last_slice_snoc [OF w]) (auto simp: other_callers_def)
qed

text \<open>The stop text is given exactly when the window says so.\<close>

lemma append_text_inject: "append_text env v a = append_text env v b \<Longrightarrow> a = b"
  by (cases v) (simp_all add: append_text_def)

lemma stop_iff:
  assumes "loop_ok c s" and "cfg_valid c"
    and "am_is_ai m" and "am_tool_calls m \<noteq> []" and "hash_tool_calls env (am_tool_calls m) = Some h"
  shows "lc_hard c \<le> count_list (last_slice (lc_window c) (od_get_default (ls_history s) t [] @ [h])) h
    \<Longrightarrow> \<exists>m' s'. after_model env c (t, r) (Some m) s = Some (Some m', s')
      \<and> am_tool_calls m' = [] \<and> am_content m' = append_text env (am_content m) hard_stop_msg"
    and "after_model env c (t, r) (Some m) s = Some (Some m', s')
      \<Longrightarrow> am_content m' = append_text env (am_content m) hard_stop_msg
      \<Longrightarrow> lc_hard c \<le> count_list (last_slice (lc_window c) (od_get_default (ls_history s) t [] @ [h])) h"
proof -
  obtain w stop s1 where tr: "track_and_check c t h (am_tool_calls m) s = ((w, stop), s1)" by (metis surj_pair)
  obtain hist where hist: "hist = (let ys = od_get_default (ls_history s) t [] @ [h]
       in if length ys > lc_window c then last_slice (lc_window c) ys else ys)"
      "((w, stop) = (Some hard_stop_msg, True)) = (count_list hist h \<ge> lc_hard c)"
    using track_and_check_window [OF assms(1,2) tr] by blast
  have "hist = last_slice (lc_window c) (od_get_default (ls_history s) t [] @ [h])"
    using hist(1) by (simp add: last_slice_def Let_def)
  then have iff: "(lc_hard c \<le> count_list (last_slice (lc_window c) (od_get_default (ls_history s) t [] @ [h])) h)
      = (w = Some hard_stop_msg \<and> stop)"
    using hist(2) by simp
  show "\<exists>m' s'. after_model env c (t, r) (Some m) s = Some (Some m', s')
      \<and> am_tool_calls m' = [] \<and> am_content m' = append_text env (am_content m) hard_stop_msg"
    if "lc_hard c \<le> count_list (last_slice (lc_window c) (od_get_default (ls_history s) t [] @ [h])) h"
    using that [unfolded iff] tr assms(3-5) by (simp add: after_model_def build_hard_stop_update_def)
  show "lc_hard c \<le> count_list (last_slice (lc_window c) (od_get_default (ls_history s) t [] @ [h])) h"
    if a: "after_model env c (t, r) (Some m) s = Some (Some m', s')"
      and b: "am_content m' = append_text env (am_content m) hard_stop_msg"
  proof -
    have "stop" using a tr assms(3-5) by (cases stop; cases w) (simp_all add: after_model_def)
    then obtain x where w: "w = Some x" using track_stop_text [OF tr] by auto
    have "append_text env (am_content m) x = append_text env (am_content m) hard_stop_msg"
      using a b tr assms(3-5) w \<open>stop\<close> by (auto simp: after_model_def build_hard_stop_update_def)
    then show ?thesis using iff w \<open>stop\<close> append_text_inject by blast
  qed
qed

lemma map_the_mset: "None \<notin> set xs \<Longrightarrow> mset xs = mset ys \<Longrightarrow> mset (map the xs) = mset (map the ys)"
  by simp

section \<open>Properties\<close>

text \<open>After any sequence of hook calls, by any threads and runs, from a fresh middleware under an
  admitted configuration: at most \<open>max_tracked_threads\<close> threads are tracked, no window is longer
  than \<open>window_size\<close>, at most twice as many runs as threads have queued warnings and none more than
  four, and every table entry belongs to a tracked thread.\<close>

lemma loop_state_bounded:
  assumes "cfg_valid c" and "s = loop_run env c ops loop_init"
  shows "length (ls_history s) \<le> lc_max_threads c
    \<and> (\<forall>(t, hs) \<in> set (ls_history s). length hs \<le> lc_window c)
    \<and> length (ls_pending s) \<le> max 1 (2 * lc_max_threads c)
    \<and> (\<forall>(k, ws) \<in> set (ls_pending s). length ws \<le> 4)
    \<and> fst ` set (ls_warned s) \<union> fst ` set (ls_freq s) \<union> fst ` set (ls_freq_warned s)
        \<union> fst ` fst ` set (ls_pending s) \<subseteq> fst ` set (ls_history s)"
proof -
  have "loop_ok c s" unfolding assms(2) by (rule loop_reachable_ok [OF assms(1)])
  then have tr: "tracking_ok c s" and p: "pending_ok s" and len: "length (ls_history s) \<le> lc_max_threads c"
      "length (ls_pending s) \<le> max_pending_keys c"
    by (simp_all add: loop_ok_def)
  have "fst ` fst ` set (ls_pending s) \<subseteq> fst ` set (ls_history s)"
    using p unfolding pending_ok_def by blast
  with tr p len show ?thesis
    by (simp add: tracking_ok_def pending_ok_def max_pending_keys_def max_pending_warnings_def mult.commute)
qed

definition demo_text_env :: text_env where
  "demo_text_env = \<lparr>json_text = (\<lambda>v. case v of PStr t \<Rightarrow> t | PDict ((PStr k, PStr v) # _) \<Rightarrow> k @ v
       | PList (PStr t # _) \<Rightarrow> t | _ \<Rightarrow> ''{}''),
     json_parse = (\<lambda>_. None), str_text = (\<lambda>v. case v of PStr t \<Rightarrow> t | _ \<Rightarrow> ''''), md5_hex = id\<rparr>"

definition demo_loop_cfg :: loop_cfg where
  "demo_loop_cfg = \<lparr>lc_warn = 2, lc_hard = 3, lc_window = 4, lc_max_threads = 1, lc_freq_warn = 30, lc_freq_hard = 50,
     lc_overrides = []\<rparr>"

definition demo_ai_msg :: "string \<Rightarrow> ai_message" where
  "demo_ai_msg cmd = \<lparr>am_is_ai = True, am_tool_calls = [\<lparr>tc_name = ''bash'', tc_args = PDict [(PStr ''cmd'', PStr cmd)]\<rparr>],
     am_content = PNone, am_additional_kwargs = [], am_response_metadata = []\<rparr>"

lemmas demo_loop_defs = demo_text_env_def demo_loop_cfg_def demo_ai_msg_def hash_tool_calls_def call_key_def
  normalize_tool_call_args_def stable_tool_key_def salient_fields_def arg_of_def all_some_def

lemma demo_loop_cfg_ok: "cfg_valid demo_loop_cfg"
  by (simp add: cfg_valid_def demo_loop_cfg_def)

lemma demo_call_hash: "hash_tool_calls demo_text_env (am_tool_calls (demo_ai_msg ''ls'')) = Some ''bash:cmdls''"
  by (simp add: demo_loop_defs)

text \<open>C12. A thread cannot repeat itself past the limit.  Let a thread have made tool calls, among other hooks and
  the calls of other threads, without a reset of the thread and with fewer than \<open>max_tracked_threads\<close> other threads
  calling; when a hash occurs \<open>hard_limit\<close> times among the last \<open>window_size\<close> hashes of the thread, the
  new one included, the message loses its tool calls and carries the stop text, whatever happened before.
  Conversely a message carries that text only when its hash occurs so often among the last hashes of the thread.\<close>

theorem repeated_calls_are_stopped:
  assumes "cfg_valid c"
    and "am_is_ai m" and "am_tool_calls m \<noteq> []" and "hash_tool_calls env (am_tool_calls m) = Some h"
  shows "((\<forall>op \<in> set ops. keeps_thread t op) \<and> card (other_callers env t ops) < lc_max_threads c
      \<and> lc_hard c \<le> count_list (last_slice (lc_window c) (recorded env t ops @ [h])) h
      \<longrightarrow> (\<exists>m' s'. after_model env c (t, r) (Some m) (loop_run env c (before @ ops) loop_init) = Some (Some m', s')
        \<and> am_tool_calls m' = [] \<and> am_content m' = append_text env (am_content m) hard_stop_msg))
    \<and> (\<forall>m' s'. after_model env c (t, r) (Some m) (loop_run env c (before @ ops) loop_init) = Some (Some m', s')
        \<and> am_content m' = append_text env (am_content m) hard_stop_msg
      \<longrightarrow> lc_hard c \<le> count_list (last_slice (lc_window c) (recorded env t (before @ ops) @ [h])) h)"
proof (intro conjI impI allI; elim conjE)
  let ?s = "loop_run env c (before @ ops) loop_init"
  let ?win = "last_slice (lc_window c) (od_get_default (ls_history ?s) t [] @ [h])"
  note stop = stop_iff [OF loop_reachable_ok [OF assms(1), of env "before @ ops"] assms]
  show "\<exists>m' s'. after_model env c (t, r) (Some m) ?s = Some (Some m', s')
      \<and> am_tool_calls m' = [] \<and> am_content m' = append_text env (am_content m) hard_stop_msg"
    if "\<forall>op \<in> set ops. keeps_thread t op" "card (other_callers env t ops) < lc_max_threads c"
      and enough: "lc_hard c \<le> count_list (last_slice (lc_window c) (recorded env t ops @ [h])) h"
  proof -
    have "count_list (last_slice (lc_window c) (recorded env t ops @ [h])) h \<le> count_list ?win h"
      by (rule suffix_count [OF window_covers_record [OF assms(1) that(1,2)]])
    then show ?thesis using stop(1) enough by fastforce
  qed
  show "lc_hard c \<le> count_list (last_slice (lc_window c) (recorded env t (before @ ops) @ [h])) h"
    if "after_model env c (t, r) (Some m) ?s = Some (Some m', s')"
      "am_content m' = append_text env (am_content m) hard_stop_msg" for m' s'
  proof -
    have "lc_hard c \<le> count_list ?win h" by (rule stop(2) [OF that])
    also have "\<dots> \<le> count_list (last_slice (lc_window c) (recorded env t (before @ ops) @ [h])) h"
      by (rule suffix_count [OF window_mono [OF assms(1) window_within_record [OF assms(1)]]])
    finally show ?thesis .
  qed
qed

text \<open>The limit is three of the last four; another call set comes in between.\<close>

definition demo_loop_ops :: "loop_op list" where
  "demo_loop_ops = map (\<lambda>cmd. AfterModel (''a'', ''r'') (Some (demo_ai_msg cmd))) [''ls'', ''ls'', ''pwd'']"

theorem repeated_calls_are_stopped_witness:
  "\<exists>m' s'. after_model demo_text_env demo_loop_cfg (''a'', ''r'') (Some (demo_ai_msg ''ls''))
       (loop_run demo_text_env demo_loop_cfg ([AfterModel (''b'', ''r'') (Some (demo_ai_msg ''ls''))] @ demo_loop_ops) loop_init) = Some (Some m', s')
     \<and> am_tool_calls m' = [] \<and> am_content m' = append_text demo_text_env PNone hard_stop_msg"
proof -
  have m: "am_is_ai (demo_ai_msg x)" "am_tool_calls (demo_ai_msg x) \<noteq> []" "am_content (demo_ai_msg x) = PNone" for x
    by (simp_all add: demo_ai_msg_def)
  have h: "hash_tool_calls demo_text_env (am_tool_calls (demo_ai_msg ''pwd'')) = Some ''bash:cmdpwd''"
    by (simp add: demo_loop_defs)
  have calls: "calls_made demo_text_env demo_loop_ops = [(''a'', ''bash:cmdls''), (''a'', ''bash:cmdls''), (''a'', ''bash:cmdpwd'')]"
    by (simp add: calls_made_def demo_loop_ops_def List.map_filter_simps op_call_def m demo_call_hash h)
  have rec: "recorded demo_text_env ''a'' demo_loop_ops = [''bash:cmdls'', ''bash:cmdls'', ''bash:cmdpwd'']"
    "other_callers demo_text_env ''a'' demo_loop_ops = {}"
    by (simp_all add: recorded_def other_callers_def calls)
  have "\<forall>op \<in> set demo_loop_ops. keeps_thread ''a'' op"
    by (simp add: demo_loop_ops_def keeps_thread_def)
  then show ?thesis
    using conjunct1 [OF repeated_calls_are_stopped [OF demo_loop_cfg_ok m(1,2) demo_call_hash, of demo_loop_ops "''a''" "''r''"
        "[AfterModel (''b'', ''r'') (Some (demo_ai_msg ''ls''))]"]]
    by (simp add: rec m demo_loop_cfg_def last_slice_def)
qed

lemma sort_eq_mset: "(sort xs = sort ys) = (mset xs = mset (ys :: 'a :: linorder list))"
proof
  assume "sort xs = sort ys"
  then have "mset (sort xs) = mset (sort ys)" by simp
  then show "mset xs = mset ys" by simp
next
  assume "mset xs = mset ys"
  then show "sort xs = sort ys" by (intro properties_for_sort) simp_all
qed

definition read_call :: "pyval \<Rightarrow> int \<Rightarrow> int \<Rightarrow> tool_call" where
  "read_call path s e = \<lparr>tc_name = ''read_file'',
     tc_args = PDict [(PStr ''path'', path), (PStr ''start_line'', PInt s), (PStr ''end_line'', PInt e)]\<rparr>"

definition line_bucket :: "int \<Rightarrow> int" where
  "line_bucket l = (max l 1 - 1) div 200"

text \<open>Two reads of a file whose line ranges, with their ends in either order, lie in the same buckets.\<close>

definition same_call :: "tool_call \<Rightarrow> tool_call \<Rightarrow> bool" where
  "same_call a b \<longleftrightarrow> a = b \<or> (\<exists>path s e s' e'. a = read_call path s e \<and> b = read_call path s' e'
     \<and> line_bucket (min s e) = line_bucket (min s' e') \<and> line_bucket (max s e) = line_bucket (max s' e'))"

lemma read_call_key: "call_key env (read_call path s e) = Some (''read_file:''
    @ str_text env (if truthy path then path else PStr '''') @ '':'' @ int_str (line_bucket (min s e))
    @ ''-'' @ int_str (line_bucket (max s e)))"
  by (simp add: call_key_def read_call_def normalize_tool_call_args_def stable_tool_key_def arg_of_def
      line_arg_def to_int_def line_bucket_def bucket_size_def Let_def)

lemma same_call_key: "same_call a b \<Longrightarrow> call_key env a = call_key env b"
  by (auto simp: same_call_def read_call_key)

text \<open>The hash of a message's calls depends neither on their order nor on where in its 200-line
  buckets a read of a file starts and ends, nor on which end is given first: a model that permutes
  its calls or shifts its reads inside the buckets is still seen to repeat itself.\<close>

lemma hash_ignores_order_and_small_shifts:
  assumes "mset calls = mset tcs" and "list_all2 same_call calls tcs'"
  shows "hash_tool_calls env tcs = hash_tool_calls env tcs'"
proof -
  have keys: "map (call_key env) calls = map (call_key env) tcs'"
    using assms(2) by induction (simp_all add: same_call_key)
  let ?k = "map (call_key env) tcs" and ?k' = "map (call_key env) tcs'"
  have ms: "mset ?k = mset ?k'" using assms(1) by (metis keys mset_map)
  show ?thesis
  proof (cases "None \<in> set ?k")
    case True
    then have "None \<in> set ?k'" using ms mset_eq_setD by blast
    with True show ?thesis by (simp only: hash_tool_calls_def all_some_def if_True)
  next
    case False
    then have "None \<notin> set ?k'" using ms mset_eq_setD by blast
    moreover have "mset (map the ?k) = mset (map the ?k')" using ms by (simp only: mset_map)
    then have "sort (map the ?k) = sort (map the ?k')" by (simp only: sort_eq_mset)
    ultimately show ?thesis using False by (simp only: hash_tool_calls_def all_some_def if_False option.map)
  qed
qed

text \<open>A hard limit larger than the window disables the first layer: the stop of repeated calls is
  then never taken, however often the calls repeat, because a window never holds enough hashes. The
  configuration admits such values.\<close>

lemma hard_limit_beyond_window_never_fires:
  assumes "cfg_valid c" and "lc_window c < lc_hard c"
  shows "fst (track_and_check c t h tcs (loop_run env c ops loop_init)) \<noteq> (Some hard_stop_msg, True)"
proof -
  let ?s = "loop_run env c ops loop_init"
  obtain res s' where tr: "track_and_check c t h tcs ?s = (res, s')"
    by (cases "track_and_check c t h tcs ?s") blast
  obtain hist where "length hist \<le> lc_window c" "(res = (Some hard_stop_msg, True)) = (count_list hist h \<ge> lc_hard c)"
    using track_and_check_window [OF loop_reachable_ok [OF assms(1)] assms(1) tr] by metis
  with count_le_length [of hist h] assms(2) tr show ?thesis by auto
qed

end
