(* ===== verification/LlmRetry.thy ===== *)
theory LlmRetry
  imports PyText
begin

text \<open>
  \<open>LLMErrorHandlingMiddleware\<close> (\<open>agents/middlewares/llm_error_handling_middleware.py\<close>): the
  classification of a failed model call, the retry loop with its delays, the fallback messages,
  and the circuit breaker shared by all calls.  Each access to the breaker holds its lock and is
  one step; calls in flight interleave between them.  The patterns with code points above 255
  occur in no modelled text and are left out, and the dash of the messages is written \<open>-\<close>.
\<close>

section \<open>Errors\<close>

text \<open>Functions of the standard library on text: \<open>float(text)\<close>, \<open>str(value)\<close> and the time stamp of
  \<open>parsedate_to_datetime(text)\<close>, \<open>None\<close> where they raise.\<close>

record llm_env =
  float_text :: "string \<Rightarrow> pyfloat option"
  value_text :: "pyval \<Rightarrow> string"
  http_date :: "string \<Rightarrow> rat option"

text \<open>What the code reads of an exception: its class name, \<open>str(exc)\<close>, its attributes, and the
  status code and headers of its response, where there are any.\<close>

record llm_exc =
  le_class :: string
  le_text :: string
  le_attrs :: pydict
  le_status :: pyval
  le_headers :: "(string \<Rightarrow> pyval) option"

definition exc_attr :: "llm_exc \<Rightarrow> string \<Rightarrow> pyval" where
  "exc_attr e k = od_get_default (le_attrs e) k PNone"

definition extract_error_detail :: "llm_exc \<Rightarrow> string" where
  "extract_error_detail e =
     (let detail = str_strip (le_text e)
      in if detail \<noteq> '''' then detail
         else case exc_attr e ''message'' of
                PStr t \<Rightarrow> if str_strip t \<noteq> '''' then str_strip t else le_class e
              | _ \<Rightarrow> le_class e)"

definition error_fields :: "llm_exc \<Rightarrow> pyval list" where
  "error_fields e =
     (case exc_attr e ''body'' of
        PDict b \<Rightarrow> (case arg_of b ''error'' of
                      PDict er \<Rightarrow> [arg_of er ''code'', arg_of er ''type'']
                    | _ \<Rightarrow> [])
      | _ \<Rightarrow> [])"

definition extract_error_code :: "llm_exc \<Rightarrow> pyval" where
  "extract_error_code e =
     (case filter (\<lambda>v. v \<noteq> PNone \<and> v \<noteq> PStr '''')
             ([exc_attr e ''code'', exc_attr e ''error_code''] @ error_fields e) of
        [] \<Rightarrow> PNone
      | v # _ \<Rightarrow> v)"

definition int_value :: "pyval \<Rightarrow> int option" where
  "int_value v = (case v of PInt i \<Rightarrow> Some i | PBool b \<Rightarrow> Some (if b then 1 else 0) | _ \<Rightarrow> None)"

definition extract_status_code :: "llm_exc \<Rightarrow> int option" where
  "extract_status_code e =
     (case filter (\<lambda>v. int_value v \<noteq> None) [exc_attr e ''status_code'', exc_attr e ''status'', le_status e] of
        [] \<Rightarrow> None
      | v # _ \<Rightarrow> int_value v)"

definition matches_any :: "string \<Rightarrow> string list \<Rightarrow> bool" where
  "matches_any detail patterns = list_ex (\<lambda>p. contains_text p detail) patterns"

definition retriable_status_codes :: "int list" where
  "retriable_status_codes = [408, 409, 425, 429, 500, 502, 503, 504]"

definition busy_patterns :: "string list" where
  "busy_patterns = [''server busy'', ''temporarily unavailable'', ''try again later'', ''please retry'',
     ''please try again'', ''overloaded'', ''high demand'', ''rate limit'']"

definition quota_patterns :: "string list" where
  "quota_patterns = [''insufficient_quota'', ''quota'', ''billing'', ''credit'', ''payment'']"

definition auth_patterns :: "string list" where
  "auth_patterns = [''authentication'', ''unauthorized'', ''invalid api key'', ''invalid_api_key'', ''permission'',
     ''forbidden'', ''access denied'']"

definition transient_classes :: "string list" where
  "transient_classes = [''APITimeoutError'', ''APIConnectionError'', ''InternalServerError'', ''ReadError'',
     ''RemoteProtocolError'', ''StreamChunkTimeoutError'']"

definition classify_error :: "llm_env \<Rightarrow> llm_exc \<Rightarrow> bool \<times> string" where
  "classify_error env e =
     (let lowered = str_lower (extract_error_detail e)
      in if matches_any lowered quota_patterns
             \<or> matches_any (str_lower (value_text env (extract_error_code e))) quota_patterns then (False, ''quota'')
         else if matches_any lowered auth_patterns then (False, ''auth'')
         else if le_class e \<in> set transient_classes then (True, ''transient'')
         else if (case extract_status_code e of None \<Rightarrow> False | Some c \<Rightarrow> c \<in> set retriable_status_codes)
              then (True, ''transient'')
         else if matches_any lowered busy_patterns then (True, ''busy'')
         else (False, ''generic''))"

section \<open>Delays\<close>

text \<open>Numbers whose float is infinite or refused by \<open>float\<close>; rounding is not modelled.\<close>

definition float_limit :: rat where "float_limit = 2 ^ 1024 - 2 ^ 970"

datatype float_conv = FloatOk pyfloat | FloatRefused | FloatOverflow

definition to_float :: "llm_env \<Rightarrow> pyval \<Rightarrow> float_conv" where
  "to_float env v =
     (case v of
        PFloat f \<Rightarrow> FloatOk f
      | PInt i \<Rightarrow> if \<bar>of_int i\<bar> < float_limit then FloatOk (Finite (of_int i)) else FloatOverflow
      | PBool b \<Rightarrow> FloatOk (Finite (if b then 1 else 0))
      | PStr s \<Rightarrow> (case float_text env s of None \<Rightarrow> FloatRefused | Some f \<Rightarrow> FloatOk f)
      | _ \<Rightarrow> FloatRefused)"

definition float_scale :: "pyfloat \<Rightarrow> rat \<Rightarrow> pyfloat" where
  "float_scale f k =
     (case f of
        Finite r \<Rightarrow> if \<bar>r * k\<bar> < float_limit then Finite (r * k) else if r > 0 then PosInf else NegInf
      | _ \<Rightarrow> f)"

datatype retry_hint = NoHint | Hint nat | HintRaises

definition header_names :: "string list" where
  "header_names = [''retry-after-ms'', ''Retry-After-Ms'', ''retry-after'', ''Retry-After'']"

definition date_hint :: "llm_env \<Rightarrow> rat \<Rightarrow> pyval \<Rightarrow> retry_hint" where
  "date_hint env now raw =
     (case http_date env (value_text env raw) of
        None \<Rightarrow> NoHint
      | Some target \<Rightarrow> Hint (nat \<lfloor>(target - now) * 1000\<rfloor>))"

definition extract_retry_after_ms :: "llm_env \<Rightarrow> rat \<Rightarrow> llm_exc \<Rightarrow> retry_hint" where
  "extract_retry_after_ms env now e =
     (case le_headers e of
        None \<Rightarrow> NoHint
      | Some get \<Rightarrow>
          (case filter (\<lambda>k. truthy (get k)) header_names of
             [] \<Rightarrow> NoHint
           | k # _ \<Rightarrow>
               (case to_float env (get k) of
                  FloatRefused \<Rightarrow> date_hint env now (get k)
                | FloatOverflow \<Rightarrow> HintRaises
                | FloatOk f \<Rightarrow>
                    (case to_int (PFloat (float_scale f (if contains_text ''ms'' (str_lower k) then 1 else 1000))) of
                       IntOk i \<Rightarrow> Hint (nat i)
                     | Refused \<Rightarrow> date_hint env now (get k)
                     | Overflow \<Rightarrow> HintRaises))))"

section \<open>Configuration and messages\<close>

record llm_cfg =
  lm_attempts :: nat
  lm_base_ms :: nat
  lm_cap_ms :: nat
  lm_threshold :: int
  lm_recovery :: int

definition retry_budget_overrides :: "(string \<times> nat) list" where
  "retry_budget_overrides = [(''StreamChunkTimeoutError'', 2)]"

definition stream_drop_exceptions :: "string list" where
  "stream_drop_exceptions = [''StreamChunkTimeoutError'']"

definition max_attempts_for :: "llm_cfg \<Rightarrow> llm_exc \<Rightarrow> nat" where
  "max_attempts_for cfg e =
     (case map_of retry_budget_overrides (le_class e) of
        None \<Rightarrow> lm_attempts cfg
      | Some n \<Rightarrow> min n (lm_attempts cfg))"

definition build_retry_delay_ms :: "llm_env \<Rightarrow> llm_cfg \<Rightarrow> rat \<Rightarrow> nat \<Rightarrow> llm_exc \<Rightarrow> retry_hint" where
  "build_retry_delay_ms env cfg now attempt e =
     (case extract_retry_after_ms env now e of
        NoHint \<Rightarrow> Hint (min (lm_base_ms cfg * 2 ^ (attempt - 1)) (lm_cap_ms cfg))
      | h \<Rightarrow> h)"

text \<open>\<open>round(ms / 1000)\<close>: halves go to the even second.\<close>

definition round_seconds :: "nat \<Rightarrow> nat" where
  "round_seconds ms =
     (let q = ms div 1000; r = ms mod 1000
      in if r < 500 then q else if r > 500 then q + 1 else if even q then q else q + 1)"

definition build_retry_message :: "llm_cfg \<Rightarrow> nat \<Rightarrow> nat \<Rightarrow> string \<Rightarrow> string" where
  "build_retry_message cfg attempt wait_ms reason =
     ''LLM request retry '' @ dec attempt @ ''/'' @ dec (lm_attempts cfg) @ '': ''
       @ (if reason = ''busy'' then ''provider is busy'' else ''provider request failed temporarily'')
       @ ''. Retrying in '' @ dec (max 1 (round_seconds wait_ms)) @ ''s.''"

definition retry_event :: "llm_cfg \<Rightarrow> nat \<Rightarrow> nat \<Rightarrow> string \<Rightarrow> pydict" where
  "retry_event cfg attempt wait_ms reason =
     [(''type'', PStr ''llm_retry''), (''attempt'', PInt (int attempt)), (''max_attempts'', PInt (int (lm_attempts cfg))),
      (''wait_ms'', PInt (int wait_ms)), (''reason'', PStr reason),
      (''message'', PStr (build_retry_message cfg attempt wait_ms reason))]"

record fallback_message =
  fb_content :: string
  fb_error_type :: string
  fb_reason :: string
  fb_detail :: string

definition circuit_breaker_message :: string where
  "circuit_breaker_message = ''The configured LLM provider is currently unavailable due to continuous failures. Circuit breaker is engaged to protect the system. Please wait a moment before trying again.''"

definition build_user_message :: "llm_exc \<Rightarrow> string \<Rightarrow> string" where
  "build_user_message e reason =
     (if reason = ''quota'' then ''The configured LLM provider rejected the request because the account is out of quota, billing is unavailable, or usage is restricted. Please fix the provider account and try again.''
      else if reason = ''auth'' then ''The configured LLM provider rejected the request because authentication or access is invalid. Please check the provider credentials and try again.''
      else if reason = ''busy'' \<or> reason = ''transient''
      then (if le_class e \<in> set stream_drop_exceptions
            then ''The model's streaming response was interrupted before it could finish. This usually happens when a single response or tool call is very large - please ask the assistant to split the work into smaller steps, or shorten the requested output, and try again.''
            else ''The configured LLM provider is temporarily unavailable after multiple retries. Please wait a moment and continue the conversation.'')
      else ''LLM request failed: '' @ extract_error_detail e)"

definition user_fallback :: "llm_exc \<Rightarrow> string \<Rightarrow> fallback_message" where
  "user_fallback e reason =
     \<lparr>fb_content = build_user_message e reason, fb_error_type = le_class e, fb_reason = reason,
      fb_detail = extract_error_detail e\<rparr>"

definition circuit_open_fallback :: fallback_message where
  "circuit_open_fallback =
     \<lparr>fb_content = circuit_breaker_message, fb_error_type = ''CircuitBreakerOpen'', fb_reason = ''circuit_open'',
      fb_detail = ''LLM circuit breaker is open''\<rparr>"

section \<open>The circuit breaker\<close>

datatype circuit_mode = Closed | Open | HalfOpen

record circuit =
  cb_count :: nat
  cb_until :: rat
  cb_mode :: circuit_mode
  cb_probe :: bool

definition circuit_init :: circuit where
  "circuit_init = \<lparr>cb_count = 0, cb_until = 0, cb_mode = Closed, cb_probe = False\<rparr>"

text \<open>\<open>True\<close>: the call is refused.\<close>

definition check_circuit :: "rat \<Rightarrow> circuit \<Rightarrow> bool \<times> circuit" where
  "check_circuit now c =
     (if cb_mode c = Open \<and> now < cb_until c then (True, c)
      else (let c1 = (if cb_mode c = Open then c\<lparr>cb_mode := HalfOpen, cb_probe := False\<rparr> else c)
            in if cb_mode c1 = HalfOpen
               then (if cb_probe c1 then (True, c1) else (False, c1\<lparr>cb_probe := True\<rparr>))
               else (False, c1)))"

definition record_success :: "circuit \<Rightarrow> circuit" where
  "record_success c = \<lparr>cb_count = 0, cb_until = 0, cb_mode = Closed, cb_probe = False\<rparr>"

definition record_failure :: "llm_cfg \<Rightarrow> rat \<Rightarrow> circuit \<Rightarrow> circuit" where
  "record_failure cfg now c =
     (if cb_mode c = HalfOpen
      then c\<lparr>cb_until := now + of_int (lm_recovery cfg), cb_mode := Open, cb_probe := False\<rparr>
      else (let c1 = c\<lparr>cb_count := cb_count c + 1\<rparr>
            in if int (cb_count c1) \<ge> lm_threshold cfg
               then (let c2 = c1\<lparr>cb_until := now + of_int (lm_recovery cfg)\<rparr>
                     in if cb_mode c2 \<noteq> Open then c2\<lparr>cb_mode := Open, cb_probe := False\<rparr> else c2)
               else c1))"

definition release_probe :: "circuit \<Rightarrow> circuit" where
  "release_probe c = (if cb_mode c = HalfOpen then c\<lparr>cb_probe := False\<rparr> else c)"

section \<open>One attempt\<close>

text \<open>
  What the handler does: it responds, raises a control-flow signal (\<open>GraphBubbleUp\<close>), raises an
  \<open>Exception\<close>, or is ended by a \<open>BaseException\<close> that neither handler catches (a cancellation).
  \<open>HintError\<close> is the \<open>OverflowError\<close> of an infinite retry hint, raised in the exception handler.
\<close>

datatype 'r attempt_outcome = Responds 'r | Bubbles | Fails llm_exc | Dies

datatype 'r call_result = Answer 'r | Fallback fallback_message | Reraised | Killed | HintError

datatype 'r attempt_next = Retry nat pydict | Finished "'r call_result"

definition attempt_step :: "llm_env \<Rightarrow> llm_cfg \<Rightarrow> rat \<Rightarrow> nat \<Rightarrow> 'r attempt_outcome \<Rightarrow> circuit \<Rightarrow>
    'r attempt_next \<times> circuit" where
  "attempt_step env cfg now attempt out c =
     (case out of
        Responds r \<Rightarrow> (Finished (Answer r), record_success c)
      | Bubbles \<Rightarrow> (Finished Reraised, release_probe c)
      | Dies \<Rightarrow> (Finished Killed, c)
      | Fails e \<Rightarrow>
          (let (retriable, reason) = classify_error env e
           in if retriable \<and> attempt < max_attempts_for cfg e
              then (case build_retry_delay_ms env cfg now attempt e of
                      Hint w \<Rightarrow> (Retry w (retry_event cfg attempt w reason), c)
                    | _ \<Rightarrow> (Finished HintError, c))
              else (Finished (Fallback (user_fallback e reason)),
                    if retriable then record_failure cfg now c else c)))"

lemma max_attempts_for_le: "max_attempts_for cfg e \<le> lm_attempts cfg"
  by (simp add: max_attempts_for_def split: option.split)

lemma attempt_retry_below:
  "attempt_step env cfg now a out c = (Retry w ev, c') \<Longrightarrow> a < lm_attempts cfg \<and> c' = c"
  using max_attempts_for_le [of cfg]
  by (auto simp: attempt_step_def split: attempt_outcome.splits prod.splits if_splits retry_hint.splits
      dest: less_le_trans)

section \<open>A whole call\<close>

text \<open>\<open>handler k\<close> is the time at which the \<open>k\<close>-th attempt ends and what it does; no other call uses the
  breaker meanwhile.  The waits and retry events are returned with the result.\<close>

function attempt_loop :: "llm_env \<Rightarrow> llm_cfg \<Rightarrow> (nat \<Rightarrow> rat \<times> 'r attempt_outcome) \<Rightarrow> nat \<Rightarrow> circuit \<Rightarrow>
    'r call_result \<times> (nat \<times> pydict) list \<times> circuit" where
  "attempt_loop env cfg handler attempt c =
     (let (now, out) = handler attempt
      in case attempt_step env cfg now attempt out c of
           (Finished r, c1) \<Rightarrow> (r, [], c1)
         | (Retry w ev, c1) \<Rightarrow>
             (let (r, waits, c2) = attempt_loop env cfg handler (attempt + 1) c1 in (r, (w, ev) # waits, c2)))"
  by pat_completeness auto
termination
  by (relation "measure (\<lambda>(env, cfg, handler, attempt, c). lm_attempts cfg - attempt)")
     (auto dest!: attempt_retry_below [OF sym])

declare attempt_loop.simps [simp del]

definition wrap_model_call :: "llm_env \<Rightarrow> llm_cfg \<Rightarrow> rat \<Rightarrow> (nat \<Rightarrow> rat \<times> 'r attempt_outcome) \<Rightarrow> circuit \<Rightarrow>
    'r call_result \<times> (nat \<times> pydict) list \<times> circuit" where
  "wrap_model_call env cfg now handler c =
     (let (refused, c1) = check_circuit now c
      in if refused then (Fallback circuit_open_fallback, [], c1) else attempt_loop env cfg handler 1 c1)"

section \<open>Calls in flight\<close>

text \<open>
  Any number of calls share the breaker (\<open>awrap_model_call\<close>: a call suspends between its check,
  its attempts and its waits).  A call is known by a number; \<open>ll_calls\<close> holds the attempt each call
  in flight is at.  \<open>Begin\<close> is the check of a new call, \<open>Ends\<close> the end of the current attempt.
\<close>

record llm_state =
  ll_circuit :: circuit
  ll_calls :: "(nat \<times> nat) list"

datatype 'r llm_event = Begin nat rat | Ends nat rat "'r attempt_outcome"

datatype 'r llm_reply = Admitted | Refuses | Continues nat | Returned "'r call_result" | Idle

definition llm_init :: llm_state where
  "llm_init = \<lparr>ll_circuit = circuit_init, ll_calls = []\<rparr>"

definition llm_step :: "llm_env \<Rightarrow> llm_cfg \<Rightarrow> 'r llm_event \<Rightarrow> llm_state \<Rightarrow> 'r llm_reply \<times> llm_state" where
  "llm_step env cfg ev s =
     (case ev of
        Begin i now \<Rightarrow>
          if i \<in> fst ` set (ll_calls s) then (Idle, s)
          else (case check_circuit now (ll_circuit s) of
                  (True, c) \<Rightarrow> (Refuses, s\<lparr>ll_circuit := c\<rparr>)
                | (False, c) \<Rightarrow> (Admitted, s\<lparr>ll_circuit := c, ll_calls := od_set i 1 (ll_calls s)\<rparr>))
      | Ends i now out \<Rightarrow>
          (case map_of (ll_calls s) i of
             None \<Rightarrow> (Idle, s)
           | Some a \<Rightarrow>
               (case attempt_step env cfg now a out (ll_circuit s) of
                  (Retry w _, c) \<Rightarrow> (Continues w, s\<lparr>ll_circuit := c, ll_calls := od_set i (a + 1) (ll_calls s)\<rparr>)
                | (Finished r, c) \<Rightarrow> (Returned r, s\<lparr>ll_circuit := c, ll_calls := od_pop i (ll_calls s)\<rparr>))))"

fun llm_run :: "llm_env \<Rightarrow> llm_cfg \<Rightarrow> 'r llm_event list \<Rightarrow> llm_state \<Rightarrow> 'r llm_reply list \<times> llm_state" where
  "llm_run env cfg [] s = ([], s)"
| "llm_run env cfg (ev # evs) s =
     (let (r, s1) = llm_step env cfg ev s; (rs, s2) = llm_run env cfg evs s1 in (r # rs, s2))"

text \<open>The abstract view of the breaker: the calls that exhausted their retries since the last response,
  over the replies in order.\<close>

fun exhausted_since :: "nat \<Rightarrow> 'r llm_reply list \<Rightarrow> nat" where
  "exhausted_since n [] = n"
| "exhausted_since n (Returned (Answer r) # rs) = exhausted_since 0 rs"
| "exhausted_since n (Returned (Fallback m) # rs) =
     exhausted_since (if fb_reason m = ''transient'' \<or> fb_reason m = ''busy'' then n + 1 else n) rs"
| "exhausted_since n (_ # rs) = exhausted_since n rs"

lemma classify_reason:
  "classify_error env e = (retriable, reason) \<Longrightarrow> retriable = (reason = ''transient'' \<or> reason = ''busy'')"
  by (auto simp: classify_error_def Let_def split: if_splits)

definition breaker_agrees :: "llm_cfg \<Rightarrow> nat \<Rightarrow> circuit \<Rightarrow> bool" where
  "breaker_agrees cfg n c \<longleftrightarrow>
     (cb_mode c = Closed \<longleftrightarrow> int n < max 1 (lm_threshold cfg)) \<and> (cb_mode c = Closed \<longrightarrow> cb_count c = n)
     \<and> (cb_mode c \<noteq> Closed \<longrightarrow> max 1 (lm_threshold cfg) \<le> int (cb_count c))"

lemma agrees_check:
  "breaker_agrees cfg n c \<Longrightarrow> check_circuit now c = (b, c') \<Longrightarrow> breaker_agrees cfg n c'"
  by (auto simp: check_circuit_def breaker_agrees_def Let_def split: if_splits)

lemma agrees_success: "breaker_agrees cfg 0 (record_success c)"
  by (simp add: record_success_def breaker_agrees_def)

lemma agrees_failure: "breaker_agrees cfg n c \<Longrightarrow> breaker_agrees cfg (Suc n) (record_failure cfg now c)"
  by (cases "cb_mode c") (auto simp: breaker_agrees_def record_failure_def Let_def)

lemma agrees_release: "breaker_agrees cfg n c \<Longrightarrow> breaker_agrees cfg n (release_probe c)"
  by (auto simp: release_probe_def breaker_agrees_def)

lemma agrees_step:
  assumes "breaker_agrees cfg n (ll_circuit s)" and "llm_step env cfg ev s = (r, s')"
  shows "breaker_agrees cfg (exhausted_since n [r]) (ll_circuit s')"
proof (cases ev)
  case (Begin i now)
  then show ?thesis
    using assms agrees_check [OF assms(1)]
    by (auto simp: llm_step_def split: if_splits prod.splits bool.splits)
next
  case (Ends i now out)
  show ?thesis
  proof (cases "map_of (ll_calls s) i")
    case None
    with Ends assms show ?thesis by (simp add: llm_step_def)
  next
    case (Some a)
    note step = assms(2) [unfolded Ends llm_step_def llm_event.case Some option.case]
    show ?thesis
    proof (cases out)
      case (Responds x)
      with step show ?thesis by (auto simp: attempt_step_def agrees_success)
    next
      case Bubbles
      with step assms(1) show ?thesis by (auto simp: attempt_step_def agrees_release)
    next
      case Dies
      with step assms(1) show ?thesis by (auto simp: attempt_step_def)
    next
      case (Fails e)
      obtain retriable reason where cl: "classify_error env e = (retriable, reason)" by force
      with step Fails assms(1) agrees_failure [OF assms(1)] classify_reason [OF cl] show ?thesis
        by (auto simp: attempt_step_def user_fallback_def split: if_splits retry_hint.splits)
    qed
  qed
qed

lemma exhausted_append: "exhausted_since n (rs @ rs') = exhausted_since (exhausted_since n rs) rs'"
  by (induction n rs rule: exhausted_since.induct) simp_all

lemma agrees_run:
  "breaker_agrees cfg n (ll_circuit s) \<Longrightarrow> llm_run env cfg evs s = (rs, s') \<Longrightarrow>
    breaker_agrees cfg (exhausted_since n rs) (ll_circuit s')"
proof (induction evs arbitrary: n s rs)
  case (Cons ev evs)
  obtain r s1 where step: "llm_step env cfg ev s = (r, s1)" by force
  obtain rs1 where run: "llm_run env cfg evs s1 = (rs1, s')" "rs = r # rs1"
    using Cons.prems(2) step by (auto split: prod.splits)
  from Cons.IH [OF agrees_step [OF Cons.prems(1) step] run(1)] run(2)
  show ?case using exhausted_append [of n "[r]" rs1] by simp
qed simp

section \<open>Properties\<close>

definition demo_llm_env :: llm_env where
  "demo_llm_env = \<lparr>float_text = (\<lambda>_. None), value_text = (\<lambda>_. ''None''), http_date = (\<lambda>_. None)\<rparr>"

definition demo_llm_cfg :: llm_cfg where
  "demo_llm_cfg = \<lparr>lm_attempts = 3, lm_base_ms = 1000, lm_cap_ms = 8000, lm_threshold = 1, lm_recovery = 60\<rparr>"

definition demo_exc :: "string \<Rightarrow> llm_exc" where
  "demo_exc cls = \<lparr>le_class = cls, le_text = ''x'', le_attrs = [], le_status = PNone, le_headers = None\<rparr>"

text \<open>C14. The breaker counts what it should: whatever calls interleave from a fresh middleware, it is
  closed exactly while fewer calls than the threshold (at least one) have exhausted their retries
  since the last response, and its counter is then that number. Refusals, control-flow signals,
  cancellations, and failures that are not retried never count.\<close>

theorem breaker_closed_iff_below_threshold:
  assumes "llm_run env cfg evs llm_init = (rs, s)"
  shows "(cb_mode (ll_circuit s) = Closed) = (int (exhausted_since 0 rs) < max 1 (lm_threshold cfg))
    \<and> (cb_mode (ll_circuit s) = Closed \<longrightarrow> cb_count (ll_circuit s) = exhausted_since 0 rs)"
proof -
  have "breaker_agrees cfg 0 (ll_circuit llm_init)"
    by (simp add: breaker_agrees_def llm_init_def circuit_init_def)
  from agrees_run [OF this assms] show ?thesis by (simp add: breaker_agrees_def)
qed

theorem breaker_closed_iff_below_threshold_witness:
  "cb_mode (ll_circuit (snd (llm_run demo_llm_env demo_llm_cfg
     [Begin 1 0, Ends 1 5 (Bubbles :: unit attempt_outcome), Begin 2 6] llm_init))) = Closed"
  by (subst breaker_closed_iff_below_threshold [THEN conjunct1, OF prod.collapse [symmetric]])
     (simp add: llm_step_def llm_init_def circuit_init_def check_circuit_def attempt_step_def demo_llm_cfg_def
       release_probe_def)

text \<open>Attempt \<open>k\<close> is followed by another one.\<close>

definition retried :: "llm_env \<Rightarrow> llm_cfg \<Rightarrow> (nat \<Rightarrow> rat \<times> 'r attempt_outcome) \<Rightarrow> nat \<Rightarrow> bool" where
  "retried env cfg handler k =
     (case handler k of
        (now, Fails e) \<Rightarrow> fst (classify_error env e) \<and> k < max_attempts_for cfg e
          \<and> build_retry_delay_ms env cfg now k e \<noteq> HintRaises
      | _ \<Rightarrow> False)"

definition wait_after :: "llm_env \<Rightarrow> llm_cfg \<Rightarrow> (nat \<Rightarrow> rat \<times> 'r attempt_outcome) \<Rightarrow> nat \<Rightarrow> retry_hint" where
  "wait_after env cfg handler k =
     (case handler k of (now, Fails e) \<Rightarrow> build_retry_delay_ms env cfg now k e | _ \<Rightarrow> NoHint)"

lemma delay_not_NoHint: "build_retry_delay_ms env cfg now k e \<noteq> NoHint"
  by (simp add: build_retry_delay_ms_def split: retry_hint.split)

lemma attempt_step_retried:
  assumes "handler k = (now, out)"
  shows "retried env cfg handler k \<Longrightarrow>
      \<exists>w ev. attempt_step env cfg now k out c = (Retry w ev, c) \<and> wait_after env cfg handler k = Hint w"
    and "\<not> retried env cfg handler k \<Longrightarrow> \<exists>r c'. attempt_step env cfg now k out c = (Finished r, c')"
proof -
  show "\<exists>w ev. attempt_step env cfg now k out c = (Retry w ev, c) \<and> wait_after env cfg handler k = Hint w"
    if "retried env cfg handler k"
  proof -
    have "\<exists>e. out = Fails e" using that assms by (cases out) (auto simp: retried_def)
    then obtain e where e: "out = Fails e" ..
    have "\<exists>w. build_retry_delay_ms env cfg now k e = Hint w"
      using that assms e delay_not_NoHint [of env cfg now k e]
      by (cases "build_retry_delay_ms env cfg now k e") (auto simp: retried_def)
    then obtain w where "build_retry_delay_ms env cfg now k e = Hint w" ..
    with that assms e show ?thesis
      by (auto simp: retried_def attempt_step_def wait_after_def split: prod.split)
  qed
  show "\<exists>r c'. attempt_step env cfg now k out c = (Finished r, c')" if "\<not> retried env cfg handler k"
    using that assms delay_not_NoHint
    by (cases out) (auto simp: retried_def attempt_step_def split: prod.split retry_hint.split)
qed

lemma attempt_loop_course:
  "attempt_loop env cfg handler a c = (r, waits, c') \<Longrightarrow>
    \<exists>n \<ge> a. n \<le> max a (lm_attempts cfg) \<and> (\<forall>k. a \<le> k \<and> k < n \<longrightarrow> retried env cfg handler k)
      \<and> \<not> retried env cfg handler n
      \<and> attempt_step env cfg (fst (handler n)) n (snd (handler n)) c = (Finished r, c')
      \<and> map (Hint \<circ> fst) waits = map (wait_after env cfg handler) [a..<n]"
proof (induction env cfg handler a c arbitrary: r waits rule: attempt_loop.induct)
  case (1 env cfg handler a c)
  obtain now out where h: "handler a = (now, out)" by force
  show ?case
  proof (cases "retried env cfg handler a")
    case False
    then have "attempt_step env cfg now a out c = (Finished r, c') \<and> waits = []"
      using attempt_step_retried(2) [OF h False, of c] "1.prems" h by (subst (asm) attempt_loop.simps) auto
    with False h show ?thesis by (intro exI [of _ a]) auto
  next
    case True
    then obtain w ev where st: "attempt_step env cfg now a out c = (Retry w ev, c)"
      "wait_after env cfg handler a = Hint w"
      using attempt_step_retried(1) [OF h True] by blast
    obtain waits1 where rec: "attempt_loop env cfg handler (a + 1) c = (r, waits1, c')" "waits = (w, ev) # waits1"
      using "1.prems" h st by (subst (asm) attempt_loop.simps) (auto split: prod.splits)
    from "1.IH" [OF refl h [symmetric] st(1) [symmetric] refl rec(1)]
    obtain n where n: "n \<ge> a + 1" "n \<le> max (a + 1) (lm_attempts cfg)"
      "\<forall>k. a + 1 \<le> k \<and> k < n \<longrightarrow> retried env cfg handler k" "\<not> retried env cfg handler n"
      "attempt_step env cfg (fst (handler n)) n (snd (handler n)) c = (Finished r, c')"
      "map (Hint \<circ> fst) waits1 = map (wait_after env cfg handler) [a + 1..<n]" by blast
    have "a < lm_attempts cfg" using attempt_retry_below [OF st(1)] by simp
    moreover have "retried env cfg handler k" if "a \<le> k" "k < n" for k
      using that True n(3) by (cases "k = a") auto
    moreover have "[a..<n] = a # [a + 1..<n]" using n(1) by (simp add: upt_conv_Cons)
    ultimately show ?thesis using n rec(2) st(2) by (intro exI [of _ n]) (auto simp: comp_def)
  qed
qed

text \<open>C13. A model call that the breaker admits always returns: it makes at most the configured number
  of attempts (at least one), each but the last a retriable failure inside its own budget and
  followed by exactly its computed wait, and its result and effect on the breaker are those of the
  last attempt.\<close>

theorem model_call_attempts:
  assumes "check_circuit now c = (False, c1)" and "wrap_model_call env cfg now handler c = (r, waits, c')"
  shows "\<exists>n \<ge> 1. n \<le> max 1 (lm_attempts cfg) \<and> (\<forall>k. 1 \<le> k \<and> k < n \<longrightarrow> retried env cfg handler k)
      \<and> \<not> retried env cfg handler n
      \<and> attempt_step env cfg (fst (handler n)) n (snd (handler n)) c1 = (Finished r, c')
      \<and> map (Hint \<circ> fst) waits = map (wait_after env cfg handler) [1..<n]"
  using assms attempt_loop_course [of env cfg handler 1 c1] by (simp add: wrap_model_call_def)

theorem model_call_attempts_witness:
  "\<exists>n \<ge> 1. n \<le> max 1 (lm_attempts demo_llm_cfg)
     \<and> (\<forall>k. 1 \<le> k \<and> k < n \<longrightarrow> retried demo_llm_env demo_llm_cfg (\<lambda>_. (0, Fails (demo_exc ''ReadError'') :: unit attempt_outcome)) k)"
proof -
  let ?h = "\<lambda>_ :: nat. (0 :: rat, Fails (demo_exc ''ReadError'') :: unit attempt_outcome)"
  have "check_circuit 0 circuit_init = (False, circuit_init)"
    by (simp add: check_circuit_def circuit_init_def)
  from model_call_attempts [OF this, of demo_llm_env demo_llm_cfg ?h] show ?thesis
    by (cases "wrap_model_call demo_llm_env demo_llm_cfg 0 ?h circuit_init") blast
qed

lemma attempt_step_Answer: "attempt_step env cfg now a out c = (Finished (Answer x), c') \<Longrightarrow> c' = circuit_init"
  by (cases out) (auto simp: attempt_step_def record_success_def circuit_init_def
      split: prod.splits if_splits retry_hint.splits)

lemma attempt_step_exhausted:
  "attempt_step env cfg now a out c = (Finished (Fallback m), c') \<Longrightarrow>
    fb_reason m = ''transient'' \<or> fb_reason m = ''busy'' \<Longrightarrow> c' = record_failure cfg now c"
  by (cases out) (auto simp: attempt_step_def user_fallback_def dest: classify_reason
      split: prod.splits if_splits retry_hint.splits)

text \<open>The open breaker: before its deadline a call is refused without calling the model; from the
  deadline on one call is admitted as the probe and, until it ends, no other. A response of the
  probe closes the breaker and clears the count; exhausted retries open it again for the recovery
  time after the last attempt.\<close>

lemma open_breaker_protocol:
  assumes "cb_mode c = Open"
  shows "(now < cb_until c \<longrightarrow> wrap_model_call env cfg now handler c = (Fallback circuit_open_fallback, [], c))
    \<and> (cb_until c \<le> now \<longrightarrow>
         (\<exists>c1. check_circuit now c = (False, c1) \<and> (\<forall>t. check_circuit t c1 = (True, c1)))
         \<and> (\<forall>x waits c'. wrap_model_call env cfg now handler c = (Answer x, waits, c') \<longrightarrow> c' = circuit_init)
         \<and> (\<forall>m waits c'. wrap_model_call env cfg now handler c = (Fallback m, waits, c')
              \<and> (fb_reason m = ''transient'' \<or> fb_reason m = ''busy'') \<longrightarrow>
              cb_mode c' = Open \<and> cb_until c' = fst (handler (Suc (length waits))) + of_int (lm_recovery cfg)))"
proof (intro conjI impI allI)
  assume "now < cb_until c"
  with assms show "wrap_model_call env cfg now handler c = (Fallback circuit_open_fallback, [], c)"
    by (simp add: wrap_model_call_def check_circuit_def)
next
  assume late: "cb_until c \<le> now"
  let ?c1 = "c\<lparr>cb_mode := HalfOpen, cb_probe := True\<rparr>"
  have chk: "check_circuit now c = (False, ?c1)" using assms late by (simp add: check_circuit_def)
  then show "\<exists>c1. check_circuit now c = (False, c1) \<and> (\<forall>t. check_circuit t c1 = (True, c1))"
    by (simp add: check_circuit_def)
  fix x waits c' assume "wrap_model_call env cfg now handler c = (Answer x, waits, c')"
  from model_call_attempts [OF chk this] show "c' = circuit_init"
    by (elim exE conjE) (rule attempt_step_Answer)
next
  assume late: "cb_until c \<le> now"
  let ?c1 = "c\<lparr>cb_mode := HalfOpen, cb_probe := True\<rparr>"
  have chk: "check_circuit now c = (False, ?c1)" using assms late by (simp add: check_circuit_def)
  fix m waits c'
  assume a: "wrap_model_call env cfg now handler c = (Fallback m, waits, c')
    \<and> (fb_reason m = ''transient'' \<or> fb_reason m = ''busy'')"
  from model_call_attempts [OF chk conjunct1 [OF a]] obtain n where n: "n \<ge> 1"
    "attempt_step env cfg (fst (handler n)) n (snd (handler n)) ?c1 = (Finished (Fallback m), c')"
    "map (Hint \<circ> fst) waits = map (wait_after env cfg handler) [1..<n]" by blast
  have "length waits = n - 1" using arg_cong [OF n(3), of length] by simp
  then have "n = Suc (length waits)" using n(1) by simp
  moreover have "c' = record_failure cfg (fst (handler n)) ?c1"
    by (rule attempt_step_exhausted [OF n(2) conjunct2 [OF a]])
  ultimately show "cb_mode c' = Open"
    and "cb_until c' = fst (handler (Suc (length waits))) + of_int (lm_recovery cfg)"
    by (simp_all add: record_failure_def)
qed

lemma length_llm_run: "llm_run env cfg evs s = (rs, s') \<Longrightarrow> length rs = length evs"
  by (induction evs arbitrary: s rs) (auto split: prod.splits)

lemma stuck_run:
  "cb_mode (ll_circuit s) = HalfOpen \<Longrightarrow> cb_probe (ll_circuit s) \<Longrightarrow> ll_calls s = [] \<Longrightarrow>
    llm_run env cfg evs s = (rs, s') \<Longrightarrow> s' = s \<and> set rs \<subseteq> {Refuses, Idle}"
proof (induction evs arbitrary: rs)
  case (Cons ev evs)
  have "llm_step env cfg ev s = (case ev of Begin _ _ \<Rightarrow> Refuses | _ \<Rightarrow> Idle, s)"
    using Cons.prems by (cases ev) (simp_all add: llm_step_def check_circuit_def)
  with Cons show ?case by (auto split: prod.splits llm_event.splits)
qed auto

text \<open>C15. A probe lost forever: when the probe of a breaker past its deadline ends with an error that
  is not retried (a rejected key, an exhausted quota, a generic error) or is cancelled, and no older
  call is still in flight, the breaker stays half-open with its probe marked in flight: every later
  call, at any time, is refused.\<close>

theorem failed_probe_blocks_forever:
  assumes "cb_mode (ll_circuit s) = Open" and "cb_until (ll_circuit s) \<le> t" and "ll_calls s = []"
    and "out = Dies \<or> (\<exists>e. out = Fails e \<and> \<not> fst (classify_error env e))"
    and "llm_run env cfg (Begin i t # Ends i t' out # evs) s = (r1 # r2 # rs, s')"
  shows "r1 = Admitted \<and> set rs \<subseteq> {Refuses, Idle} \<and> cb_mode (ll_circuit s') = HalfOpen"
proof -
  let ?c = "(ll_circuit s)\<lparr>cb_mode := HalfOpen, cb_probe := True\<rparr>"
  have chk: "check_circuit t (ll_circuit s) = (False, ?c)" using assms(1,2) by (simp add: check_circuit_def)
  have b: "llm_step env cfg (Begin i t) s = (Admitted, s\<lparr>ll_circuit := ?c, ll_calls := [(i, 1)]\<rparr>)"
    using chk assms(3) by (simp add: llm_step_def)
  have "\<exists>r. attempt_step env cfg t' 1 out ?c = (Finished r, ?c)"
    using assms(4) by (auto simp: attempt_step_def split: prod.splits)
  then obtain r where att: "attempt_step env cfg t' 1 out ?c = (Finished r, ?c)" ..
  have e: "llm_step env cfg (Ends i t' out) (s\<lparr>ll_circuit := ?c, ll_calls := [(i, 1)]\<rparr>)
      = (Returned r, s\<lparr>ll_circuit := ?c, ll_calls := []\<rparr>)"
    using att by (simp add: llm_step_def od_pop_def)
  have "r1 = Admitted" and run: "llm_run env cfg evs (s\<lparr>ll_circuit := ?c, ll_calls := []\<rparr>) = (rs, s')"
    using assms(5) by (simp_all add: b e del: One_nat_def split: prod.splits)
  with stuck_run [OF _ _ _ run] show ?thesis by simp
qed

theorem failed_probe_blocks_forever_witness:
  "let (rs, s') = llm_run demo_llm_env demo_llm_cfg
     [Begin 1 60, Ends 1 61 (Fails (demo_exc ''AuthenticationError'') :: unit attempt_outcome), Begin 2 1000000]
     (llm_init\<lparr>ll_circuit := circuit_init\<lparr>cb_mode := Open, cb_until := 60\<rparr>\<rparr>)
   in rs ! 2 = Refuses \<and> cb_mode (ll_circuit s') = HalfOpen"
proof -
  let ?s = "llm_init\<lparr>ll_circuit := circuit_init\<lparr>cb_mode := Open, cb_until := 60\<rparr>\<rparr>"
  have not: "\<not> fst (classify_error demo_llm_env (demo_exc ''AuthenticationError''))"
    by code_simp
  obtain rs s' where run0: "llm_run demo_llm_env demo_llm_cfg
     [Begin 1 60, Ends 1 61 (Fails (demo_exc ''AuthenticationError'') :: unit attempt_outcome), Begin 2 1000000] ?s
     = (rs, s')"
    by (metis surj_pair)
  obtain r1 r2 r3 where rs: "rs = [r1, r2, r3]"
    using length_llm_run [OF run0] by (auto simp: length_Suc_conv)
  note run = run0 [unfolded rs]
  have r3: "r3 \<noteq> Idle"
    using run not
    by (auto simp: llm_step_def llm_init_def circuit_init_def check_circuit_def attempt_step_def od_pop_def
        split: prod.splits)
  show ?thesis
    using failed_probe_blocks_forever [OF _ _ _ _ run] not r3 run by (simp add: llm_init_def)
qed

end
