(* ===== verification/DanglingCalls.thy ===== *)
theory DanglingCalls
  imports PyText
begin

text \<open>
  \<open>DanglingToolCallMiddleware\<close> (\<open>vassilflow_core/middleware/dangling_tool_calls.py\<close>): before each
  model call the transcript is rewritten so that the results of an AI message's tool calls follow
  it directly, in the order of the calls, with placeholder errors for the missing ones.
  \<open>json.loads\<close> is the parameter \<open>parse\<close>.  A result \<open>None\<close> is a \<open>TypeError\<close> (an iteration over a
  number, or an unhashable id).  Ids keep the type they have in the call.
\<close>

section \<open>Messages\<close>

record tool_message =
  tm_call_id :: pyval
  tm_name :: pyval
  tm_content :: pyval
  tm_status :: string

record ai_turn =
  at_tool_calls :: "pyval list"
  at_invalid_calls :: "pyval list"
  at_kwargs :: pydict
  at_content :: pyval

text \<open>Messages of any other type are passed through and known by a number.\<close>

datatype chat_message = AiMsg ai_turn | ToolMsg tool_message | OtherMsg nat

section \<open>Names\<close>

definition valid_tool_name :: "pyval \<Rightarrow> bool" where
  "valid_tool_name v = (case v of PStr s \<Rightarrow> str_strip s \<noteq> '''' | _ \<Rightarrow> False)"

definition normalize_tool_name :: "pyval \<Rightarrow> pyval" where
  "normalize_tool_name v =
     (case v of PStr s \<Rightarrow> if str_strip s \<noteq> '''' then PStr (str_strip s) else PStr ''unknown_tool''
      | _ \<Rightarrow> PStr ''unknown_tool'')"

definition mark_invalid_name :: "pyval \<Rightarrow> py_items \<Rightarrow> py_items" where
  "mark_invalid_name name call =
     (if valid_tool_name name then call else od_set (PStr ''invalid_tool_name'') (PBool True) call)"

section \<open>The calls of a message\<close>

definition structured_calls :: "pyval list \<Rightarrow> py_items list" where
  "structured_calls calls =
     concat (map (\<lambda>v. case v of
         PDict d \<Rightarrow> [mark_invalid_name (arg_of d ''name'')
                        (od_set (PStr ''name'') (normalize_tool_name (arg_of d ''name'')) d)]
       | _ \<Rightarrow> []) calls)"

definition raw_call_name :: "py_items \<Rightarrow> pyval" where
  "raw_call_name d =
     (case arg_of d ''function'' of
        PDict f \<Rightarrow> if truthy (arg_of d ''name'') then arg_of d ''name'' else arg_of f ''name''
      | _ \<Rightarrow> arg_of d ''name'')"

definition raw_call_args :: "(string \<Rightarrow> pyval option) \<Rightarrow> py_items \<Rightarrow> pyval" where
  "raw_call_args parse d =
     (let args = od_get_default d (PStr ''args'') (PDict []);
          args1 = (if truthy args then args
                   else case arg_of d ''function'' of
                          PDict f \<Rightarrow> (case arg_of f ''arguments'' of
                                        PStr t \<Rightarrow> (case parse t of Some (PDict a) \<Rightarrow> PDict a | _ \<Rightarrow> PDict [])
                                      | _ \<Rightarrow> args)
                        | _ \<Rightarrow> args)
      in case args1 of PDict a \<Rightarrow> PDict a | _ \<Rightarrow> PDict [])"

definition raw_calls :: "(string \<Rightarrow> pyval option) \<Rightarrow> pyval list \<Rightarrow> py_items list" where
  "raw_calls parse raws =
     concat (map (\<lambda>v. case v of
         PDict d \<Rightarrow> [mark_invalid_name (raw_call_name d)
            [(PStr ''id'', arg_of d ''id''), (PStr ''name'', normalize_tool_name (raw_call_name d)),
             (PStr ''args'', raw_call_args parse d)]]
       | _ \<Rightarrow> []) raws)"

definition invalid_calls :: "pyval list \<Rightarrow> py_items list" where
  "invalid_calls calls =
     concat (map (\<lambda>v. case v of
         PDict d \<Rightarrow> [mark_invalid_name (arg_of d ''name'')
            [(PStr ''id'', arg_of d ''id''), (PStr ''name'', normalize_tool_name (arg_of d ''name'')),
             (PStr ''args'', PDict []), (PStr ''invalid'', PBool True), (PStr ''error'', arg_of d ''error'')]]
       | _ \<Rightarrow> []) calls)"

text \<open>The items of \<open>value or []\<close> that can be dictionaries: those of a list; the characters of a text and
  the keys of a dictionary are none. A truthy number is not iterable.\<close>

definition iter_items :: "pyval \<Rightarrow> pyval list option" where
  "iter_items v =
     (case v of
        PList xs \<Rightarrow> Some xs
      | PStr _ \<Rightarrow> Some []
      | PDict _ \<Rightarrow> Some []
      | _ \<Rightarrow> if truthy v then None else Some [])"

definition kwarg :: "ai_turn \<Rightarrow> string \<Rightarrow> pyval" where
  "kwarg t k = od_get_default (at_kwargs t) k PNone"

definition message_tool_calls :: "(string \<Rightarrow> pyval option) \<Rightarrow> ai_turn \<Rightarrow> py_items list option" where
  "message_tool_calls parse t =
     map_option (\<lambda>first. first @ invalid_calls (at_invalid_calls t))
       (if at_tool_calls t \<noteq> [] then Some (structured_calls (at_tool_calls t))
        else map_option (raw_calls parse) (iter_items (kwarg t ''tool_calls'')))"

section \<open>Placeholders\<close>

definition recovery_detail :: "py_items \<Rightarrow> string" where
  "recovery_detail call = (case arg_of call ''error'' of PStr t \<Rightarrow> take 500 t | _ \<Rightarrow> '''')"

definition synthetic_content :: "py_items \<Rightarrow> string" where
  "synthetic_content call =
     (if truthy (arg_of call ''invalid_tool_name'')
      then ''[Tool call could not be executed because its name was missing or empty. Use one of the available tool names when retrying.]''
      else if truthy (arg_of call ''invalid'')
      then (let error_text = recovery_detail call
            in if arg_of call ''name'' = PStr ''write_file''
               then ''[write_file failed before execution: the tool-call arguments were not valid JSON, so no file was written. This often happens when the model tries to write a very large Markdown file in a single tool call, especially when `content` contains unescaped quotes, inline JSON, backslashes, or code fences. Do not retry the same large `write_file` payload for this artifact; provide the report/content directly as normal assistant text in your next response. If a file write is still needed later, split the file into smaller sections instead of one large payload.''
                 @ (if error_text \<noteq> '''' then '' Parser error: '' @ error_text else '''') @ '']''
               else if error_text \<noteq> ''''
               then ''[Tool call could not be executed because its arguments were invalid: '' @ error_text @ '']''
               else ''[Tool call could not be executed because its arguments were invalid.]'')
      else ''[Tool call was interrupted and did not return a result.]'')"

definition placeholder :: "py_items \<Rightarrow> tool_message" where
  "placeholder call =
     \<lparr>tm_call_id = arg_of call ''id'', tm_name = od_get_default call (PStr ''name'') (PStr ''unknown_tool''),
      tm_content = PStr (synthetic_content call), tm_status = ''error''\<rparr>"

section \<open>Names in the message itself\<close>

definition sanitize_call :: "pyval \<Rightarrow> pyval" where
  "sanitize_call v =
     (case v of
        PDict d \<Rightarrow> (if arg_of d ''name'' \<noteq> normalize_tool_name (arg_of d ''name'')
                     then PDict (od_set (PStr ''name'') (normalize_tool_name (arg_of d ''name'')) d) else PDict d)
      | _ \<Rightarrow> v)"

definition sanitize_raw_call :: "pyval \<Rightarrow> pyval" where
  "sanitize_raw_call v =
     (case v of
        PDict d \<Rightarrow>
          (case arg_of d ''function'' of
             PDict f \<Rightarrow>
               (if arg_of f ''name'' \<noteq> normalize_tool_name (arg_of f ''name'')
                then PDict (od_set (PStr ''function'')
                       (PDict (od_set (PStr ''name'') (normalize_tool_name (arg_of f ''name'')) f)) d)
                else PDict d)
           | _ \<Rightarrow> sanitize_call (PDict d))
      | _ \<Rightarrow> v)"

definition sanitize_message :: "ai_turn \<Rightarrow> ai_turn" where
  "sanitize_message t =
     (let t1 = t\<lparr>at_tool_calls := map sanitize_call (at_tool_calls t)\<rparr>
      in case kwarg t ''tool_calls'' of
           PList raws \<Rightarrow>
             (if map sanitize_raw_call raws \<noteq> raws
              then t1\<lparr>at_kwargs := od_set ''tool_calls'' (PList (map sanitize_raw_call raws)) (at_kwargs t)\<rparr>
              else t1)
         | _ \<Rightarrow> t1)"

section \<open>Rewriting the transcript\<close>

definition hashable :: "pyval \<Rightarrow> bool" where
  "hashable v = (case v of PList _ \<Rightarrow> False | PDict _ \<Rightarrow> False | _ \<Rightarrow> True)"

text \<open>The calls of a message that have an id, with their ids.\<close>

definition identified_calls :: "(string \<Rightarrow> pyval option) \<Rightarrow> ai_turn \<Rightarrow> py_items list option" where
  "identified_calls parse t =
     (case message_tool_calls parse t of
        None \<Rightarrow> None
      | Some calls \<Rightarrow>
          (let ided = filter (\<lambda>c. truthy (arg_of c ''id'')) calls
           in if list_all (\<lambda>c. hashable (arg_of c ''id'')) ided then Some ided else None))"

fun collect_call_ids :: "(string \<Rightarrow> pyval option) \<Rightarrow> chat_message list \<Rightarrow> pyval list option" where
  "collect_call_ids parse [] = Some []"
| "collect_call_ids parse (AiMsg t # ms) =
     (case identified_calls parse t of
        None \<Rightarrow> None
      | Some calls \<Rightarrow> map_option (\<lambda>ids. map (\<lambda>c. arg_of c ''id'') calls @ ids) (collect_call_ids parse ms))"
| "collect_call_ids parse (_ # ms) = collect_call_ids parse ms"

type_synonym result_queue = "(pyval \<times> tool_message list) list"

fun queue_results :: "chat_message list \<Rightarrow> result_queue \<Rightarrow> result_queue" where
  "queue_results [] q = q"
| "queue_results (ToolMsg r # ms) q =
     queue_results ms (od_set (tm_call_id r) (od_get_default q (tm_call_id r) [] @ [r]) q)"
| "queue_results (_ # ms) q = queue_results ms q"

text \<open>A result whose call has no usable name takes the replacement name, if its own is not usable.\<close>

definition adopt_name :: "py_items \<Rightarrow> tool_message \<Rightarrow> tool_message" where
  "adopt_name call r =
     (if truthy (arg_of call ''invalid_tool_name'') \<and> \<not> valid_tool_name (tm_name r)
      then r\<lparr>tm_name := arg_of call ''name''\<rparr> else r)"

fun answer_calls :: "py_items list \<Rightarrow> result_queue \<Rightarrow> tool_message list \<times> result_queue" where
  "answer_calls [] q = ([], q)"
| "answer_calls (c # cs) q =
     (let i = arg_of c ''id''
      in case od_get_default q i [] of
           [] \<Rightarrow> (let (rs, q1) = answer_calls cs q in (placeholder c # rs, q1))
         | r # rest \<Rightarrow> (let (rs, q1) = answer_calls cs (od_set i rest q) in (adopt_name c r # rs, q1)))"

fun patch_loop :: "(string \<Rightarrow> pyval option) \<Rightarrow> pyval list \<Rightarrow> chat_message list \<Rightarrow> result_queue \<Rightarrow> chat_message list" where
  "patch_loop parse ids [] q = []"
| "patch_loop parse ids (ToolMsg r # ms) q =
     (if tm_call_id r \<in> set ids then patch_loop parse ids ms q else ToolMsg r # patch_loop parse ids ms q)"
| "patch_loop parse ids (AiMsg t # ms) q =
     (let (rs, q1) = answer_calls (case identified_calls parse t of None \<Rightarrow> [] | Some cs \<Rightarrow> cs) q
      in AiMsg (sanitize_message t) # map ToolMsg rs @ patch_loop parse ids ms q1)"
| "patch_loop parse ids (m # ms) q = m # patch_loop parse ids ms q"

text \<open>\<open>Some None\<close>: the transcript needs no change.\<close>

definition build_patched_messages :: "(string \<Rightarrow> pyval option) \<Rightarrow> chat_message list \<Rightarrow> chat_message list option option" where
  "build_patched_messages parse ms =
     (case collect_call_ids parse ms of
        None \<Rightarrow> None
      | Some ids \<Rightarrow>
          (let patched = patch_loop parse ids ms (queue_results ms [])
           in Some (if patched = ms then None else Some patched)))"

text \<open>\<open>wrap_model_call\<close>: the messages the model sees.\<close>

definition request_messages :: "(string \<Rightarrow> pyval option) \<Rightarrow> chat_message list \<Rightarrow> chat_message list option" where
  "request_messages parse ms =
     (case build_patched_messages parse ms of
        None \<Rightarrow> None
      | Some None \<Rightarrow> Some ms
      | Some (Some patched) \<Rightarrow> Some patched)"

section \<open>Facts about calls and their sanitised form\<close>

lemma arg_of_set [simp]: "arg_of (od_set (PStr k) v d) k' = (if k = k' then v else arg_of d k')"
  by (simp add: arg_of_def)

lemma arg_of_mark [simp]:
  "k \<noteq> ''invalid_tool_name'' \<Longrightarrow> arg_of (mark_invalid_name n d) k = arg_of d k"
  by (simp add: mark_invalid_name_def)

lemma mark_flag:
  "truthy (arg_of (mark_invalid_name n d) ''invalid_tool_name'') \<longleftrightarrow>
     \<not> valid_tool_name n \<or> truthy (arg_of d ''invalid_tool_name'')"
  by (auto simp: mark_invalid_name_def truthy_def)

lemma strip_unknown [simp]: "str_strip ''unknown_tool'' = ''unknown_tool''"
  by (simp add: str_strip_def is_space_def)

lemma normalize_valid [simp]: "valid_tool_name (normalize_tool_name v)"
  by (simp add: valid_tool_name_def normalize_tool_name_def split: pyval.split)

lemma normalize_idem [simp]: "normalize_tool_name (normalize_tool_name v) = normalize_tool_name v"
  by (simp add: normalize_tool_name_def split: pyval.split)

lemma sanitize_call_idem [simp]: "sanitize_call (sanitize_call v) = sanitize_call v"
  by (simp add: sanitize_call_def split: pyval.split)

lemma sanitize_raw_call_idem [simp]: "sanitize_raw_call (sanitize_raw_call v) = sanitize_raw_call v"
proof (cases v)
  case (PDict d)
  show ?thesis
  proof (cases "arg_of d ''function''")
    case f: (PDict f)
    then show ?thesis using PDict by (simp add: sanitize_raw_call_def)
  qed (use PDict in \<open>auto simp: sanitize_raw_call_def sanitize_call_def\<close>)
qed (simp_all add: sanitize_raw_call_def)

lemma kwarg_sanitize:
  "kwarg (sanitize_message t) ''tool_calls'' =
     (case kwarg t ''tool_calls'' of PList raws \<Rightarrow> PList (map sanitize_raw_call raws) | v \<Rightarrow> v)"
  by (auto simp: sanitize_message_def Let_def kwarg_def od_get_default_set od_get_default_def
      split: pyval.splits option.splits)

lemma sanitize_fields [simp]:
  "at_tool_calls (sanitize_message t) = map sanitize_call (at_tool_calls t)"
  "at_invalid_calls (sanitize_message t) = at_invalid_calls t"
  by (auto simp: sanitize_message_def Let_def split: pyval.splits)

lemma sanitize_idem [simp]: "sanitize_message (sanitize_message t) = sanitize_message t"
proof -
  let ?s = "sanitize_message t"
  have calls: "map sanitize_call (at_tool_calls ?s) = at_tool_calls ?s" by simp
  have "map sanitize_raw_call raws = raws" if "kwarg ?s ''tool_calls'' = PList raws" for raws
    using that by (auto simp: kwarg_sanitize split: pyval.splits)
  then show ?thesis
    using calls by (simp add: sanitize_message_def [of ?s] Let_def split: pyval.split)
qed

text \<open>A call of the sanitised message against the call it comes from.\<close>

definition call_agrees :: "py_items \<Rightarrow> py_items \<Rightarrow> bool" where
  "call_agrees c c' \<longleftrightarrow> arg_of c' ''id'' = arg_of c ''id''
     \<and> (truthy (arg_of c' ''invalid_tool_name'') \<longrightarrow> truthy (arg_of c ''invalid_tool_name''))"

lemma concat_agrees:
  "(\<And>x. x \<in> set xs \<Longrightarrow> list_all2 P (f x) (g (h x))) \<Longrightarrow> list_all2 P (concat (map f xs)) (concat (map g (map h xs)))"
  by (induction xs) (simp_all add: list_all2_appendI)

lemma structured_agree: "list_all2 call_agrees (structured_calls calls) (structured_calls (map sanitize_call calls))"
  unfolding structured_calls_def
  by (rule concat_agrees) (auto simp: sanitize_call_def call_agrees_def mark_flag split: pyval.split)

lemma raw_agree: "list_all2 call_agrees (raw_calls parse raws) (raw_calls parse (map sanitize_raw_call raws))"
  unfolding raw_calls_def
proof (rule concat_agrees)
  fix v
  let ?f = "\<lambda>v. case v of
         PDict d \<Rightarrow> [mark_invalid_name (raw_call_name d)
            [(PStr ''id'', arg_of d ''id''), (PStr ''name'', normalize_tool_name (raw_call_name d)),
             (PStr ''args'', raw_call_args parse d)]]
       | _ \<Rightarrow> []"
  have agree: "call_agrees
      (mark_invalid_name n [(PStr ''id'', i), (PStr ''name'', a), (PStr ''args'', x)])
      (mark_invalid_name n' [(PStr ''id'', i), (PStr ''name'', b), (PStr ''args'', y)])"
    if "\<not> valid_tool_name n' \<Longrightarrow> \<not> valid_tool_name n" for n n' i a b x y
    using that by (auto simp: call_agrees_def mark_flag) (simp_all add: arg_of_def truthy_def)
  show "list_all2 call_agrees (?f v) (?f (sanitize_raw_call v))"
  proof (cases v)
    case (PDict d)
    show ?thesis
    proof (cases "arg_of d ''function''")
      case f: (PDict f)
      then show ?thesis using PDict
        by (auto simp: sanitize_raw_call_def raw_call_name_def intro!: agree)
    qed (use PDict in \<open>auto simp: sanitize_raw_call_def sanitize_call_def raw_call_name_def intro!: agree\<close>)
  qed (simp_all add: sanitize_raw_call_def)
qed

lemma agree_refl: "list_all2 call_agrees cs cs"
  by (induction cs) (simp_all add: call_agrees_def)

lemma message_calls_agree:
  assumes "message_tool_calls parse t = Some calls"
  obtains calls' where "message_tool_calls parse (sanitize_message t) = Some calls'"
    and "list_all2 call_agrees calls calls'"
proof (cases "at_tool_calls t = []")
  case False
  then show ?thesis using assms that structured_agree
    by (auto simp: message_tool_calls_def intro: list_all2_appendI agree_refl)
next
  case True
  then obtain raws where raws: "iter_items (kwarg t ''tool_calls'') = Some raws"
    "calls = raw_calls parse raws @ invalid_calls (at_invalid_calls t)"
    using assms by (auto simp: message_tool_calls_def)
  have "iter_items (kwarg (sanitize_message t) ''tool_calls'') = Some (map sanitize_raw_call raws) \<or> raws = []
      \<and> iter_items (kwarg (sanitize_message t) ''tool_calls'') = Some raws"
    using raws(1) by (auto simp: kwarg_sanitize iter_items_def split: pyval.splits if_splits)
  then show ?thesis using True raws(2) that raw_agree
    by (auto simp: message_tool_calls_def intro: list_all2_appendI agree_refl)
qed

lemma identified_agree:
  assumes "identified_calls parse t = Some calls"
  obtains calls' where "identified_calls parse (sanitize_message t) = Some calls'"
    and "list_all2 call_agrees calls calls'"
proof -
  have filt: "list_all2 call_agrees (filter (\<lambda>c. truthy (arg_of c ''id'')) cs) (filter (\<lambda>c. truthy (arg_of c ''id'')) cs')
      \<and> (list_all (\<lambda>c. hashable (arg_of c ''id'')) (filter (\<lambda>c. truthy (arg_of c ''id'')) cs') =
         list_all (\<lambda>c. hashable (arg_of c ''id'')) (filter (\<lambda>c. truthy (arg_of c ''id'')) cs))"
    if "list_all2 call_agrees cs cs'" for cs cs'
    using that by induction (auto simp: call_agrees_def)
  obtain cs where cs: "message_tool_calls parse t = Some cs" "calls = filter (\<lambda>c. truthy (arg_of c ''id'')) cs"
    "list_all (\<lambda>c. hashable (arg_of c ''id'')) calls"
    using assms by (auto simp: identified_calls_def Let_def split: option.splits if_splits)
  obtain cs' where cs': "message_tool_calls parse (sanitize_message t) = Some cs'" "list_all2 call_agrees cs cs'"
    using message_calls_agree [OF cs(1)] by blast
  from filt [OF cs'(2)] cs cs'(1) that show ?thesis by (auto simp: identified_calls_def Let_def)
qed

section \<open>The shape of a patched transcript\<close>

definition answers_of :: "pyval \<Rightarrow> tool_message list \<Rightarrow> tool_message list" where
  "answers_of i rs = filter (\<lambda>r. tm_call_id r = i) rs"

definition results_in :: "chat_message list \<Rightarrow> tool_message list" where
  "results_in ms = concat (map (\<lambda>m. case m of ToolMsg r \<Rightarrow> [r] | _ \<Rightarrow> []) ms)"

definition queue_ok :: "result_queue \<Rightarrow> bool" where
  "queue_ok q \<longleftrightarrow> (\<forall>i r. r \<in> set (od_get_default q i []) \<longrightarrow> tm_call_id r = i)"

lemma answers_of_simps [simp]:
  "answers_of i [] = []"
  "answers_of i (r # rs) = (if tm_call_id r = i then r # answers_of i rs else answers_of i rs)"
  "answers_of i (xs @ ys) = answers_of i xs @ answers_of i ys"
  by (simp_all add: answers_of_def)

lemma queue_results_get:
  "od_get_default (queue_results ms q) i [] = od_get_default q i [] @ answers_of i (results_in ms)"
  by (induction ms q rule: queue_results.induct) (auto simp: results_in_def od_get_default_set)

lemma queue_results_ok: "queue_ok (queue_results ms [])"
  by (auto simp: queue_ok_def queue_results_get answers_of_def)

lemma adopt_fields [simp]:
  "tm_call_id (adopt_name c r) = tm_call_id r" "tm_content (adopt_name c r) = tm_content r"
  "tm_status (adopt_name c r) = tm_status r"
  by (simp_all add: adopt_name_def)

text \<open>Which results the answers to some calls use: those of the queue in order, then placeholders.\<close>

definition uses_in_order :: "tool_message list \<Rightarrow> tool_message list \<Rightarrow> bool" where
  "uses_in_order got asked \<longleftrightarrow>
     map tm_content (take (length got) asked) = map tm_content (take (length asked) got)
     \<and> (\<forall>r \<in> set (drop (length got) asked). tm_status r = ''error'')"

lemma uses_in_order_simps [simp]:
  "uses_in_order got []"
  "uses_in_order [] (a # as) = (tm_status a = ''error'' \<and> uses_in_order [] as)"
  "uses_in_order (g # gs) (a # as) = (tm_content a = tm_content g \<and> uses_in_order gs as)"
  by (auto simp: uses_in_order_def)

lemma answer_calls_course:
  assumes "queue_ok q" and "answer_calls cs q = (rs, q1)"
  shows "map tm_call_id rs = map (\<lambda>c. arg_of c ''id'') cs \<and> queue_ok q1
    \<and> (\<forall>i. uses_in_order (od_get_default q i []) (answers_of i rs)
         \<and> od_get_default q1 i [] = drop (length (answers_of i rs)) (od_get_default q i []))"
  using assms
proof (induction cs arbitrary: q rs)
  case (Cons c cs)
  let ?i = "arg_of c ''id''"
  show ?case
  proof (cases "od_get_default q ?i []")
    case Nil
    obtain rs1 where rs1: "answer_calls cs q = (rs1, q1)" "rs = placeholder c # rs1"
      using Cons.prems(2) Nil by (auto simp: Let_def split: prod.splits)
    note ih = Cons.IH [OF Cons.prems(1) rs1(1)]
    then have "uses_in_order (od_get_default q ?i []) (answers_of ?i rs1)" by blast
    then have "uses_in_order [] (answers_of ?i rs1)" unfolding Nil .
    with ih rs1(2) Nil show ?thesis
      by (simp add: placeholder_def)
  next
    case (Cons r rest)
    let ?q = "od_set ?i rest q"
    obtain rs1 where rs1: "answer_calls cs ?q = (rs1, q1)" "rs = adopt_name c r # rs1"
      using Cons.prems(2) Cons by (auto simp: Let_def split: prod.splits)
    have r: "tm_call_id r = ?i" using Cons.prems(1) Cons by (simp add: queue_ok_def)
    have "queue_ok ?q" using Cons.prems(1) Cons by (auto simp: queue_ok_def od_get_default_set)
    note ih = Cons.IH [OF this rs1(1)]
    have u: "uses_in_order (if ?i = i then rest else od_get_default q i []) (answers_of i rs1)
        \<and> od_get_default q1 i [] = drop (length (answers_of i rs1)) (if ?i = i then rest else od_get_default q i [])" for i
      using ih by (simp add: od_get_default_set)
    have "uses_in_order (od_get_default q i []) (answers_of i rs)
        \<and> od_get_default q1 i [] = drop (length (answers_of i rs)) (od_get_default q i [])" for i
      using u [of i] rs1(2) r Cons by (cases "?i = i") auto
    with ih rs1(2) r show ?thesis by simp
  qed
qed simp

text \<open>
  The transcript as blocks: each message that is not a result of a known call, followed by the
  answers to its calls.
\<close>

definition kept_messages :: "pyval list \<Rightarrow> chat_message list \<Rightarrow> chat_message list" where
  "kept_messages ids ms = filter (\<lambda>m. case m of ToolMsg r \<Rightarrow> tm_call_id r \<notin> set ids | _ \<Rightarrow> True) ms"

definition block_of :: "chat_message \<Rightarrow> tool_message list \<Rightarrow> chat_message list" where
  "block_of m rs = (case m of AiMsg t \<Rightarrow> AiMsg (sanitize_message t) | _ \<Rightarrow> m) # map ToolMsg rs"

definition ids_asked :: "(string \<Rightarrow> pyval option) \<Rightarrow> chat_message \<Rightarrow> pyval list" where
  "ids_asked parse m =
     (case m of
        AiMsg t \<Rightarrow> (case identified_calls parse t of None \<Rightarrow> [] | Some cs \<Rightarrow> map (\<lambda>c. arg_of c ''id'') cs)
      | _ \<Rightarrow> [])"

lemma patch_loop_blocks:
  assumes "queue_ok q"
  shows "\<exists>answers. length answers = length (kept_messages ids ms)
    \<and> patch_loop parse ids ms q = concat (map2 block_of (kept_messages ids ms) answers)
    \<and> map (map tm_call_id) answers = map (ids_asked parse) (kept_messages ids ms)
    \<and> (\<forall>i. uses_in_order (od_get_default q i []) (answers_of i (concat answers)))"
  using assms
proof (induction parse ids ms q rule: patch_loop.induct)
  case (1 parse ids q)
  then show ?case by (simp add: kept_messages_def)
next
  case (2 parse ids r ms q)
  show ?case
  proof (cases "tm_call_id r \<in> set ids")
    case True
    with 2 show ?thesis by (simp add: kept_messages_def)
  next
    case False
    from 2(2) [OF False 2(3)] obtain answers where a: "length answers = length (kept_messages ids ms)"
      "patch_loop parse ids ms q = concat (map2 block_of (kept_messages ids ms) answers)"
      "map (map tm_call_id) answers = map (ids_asked parse) (kept_messages ids ms)"
      "\<forall>i. uses_in_order (od_get_default q i []) (answers_of i (concat answers))" by blast
    with False show ?thesis
      by (intro exI [of _ "[] # answers"]) (simp add: kept_messages_def block_of_def ids_asked_def)
  qed
next
  case (3 parse ids t ms q)
  define cs where "cs = (case identified_calls parse t of None \<Rightarrow> [] | Some cs \<Rightarrow> cs)"
  obtain rs q1 where rs: "answer_calls cs q = (rs, q1)" by force
  note course = answer_calls_course [OF "3.prems" rs]
  then have "queue_ok q1" by blast
  from "3.IH" [OF rs [unfolded cs_def, symmetric] refl this] obtain answers where a:
    "length answers = length (kept_messages ids ms)"
    "patch_loop parse ids ms q1 = concat (map2 block_of (kept_messages ids ms) answers)"
    "map (map tm_call_id) answers = map (ids_asked parse) (kept_messages ids ms)"
    "\<forall>i. uses_in_order (od_get_default q1 i []) (answers_of i (concat answers))" by blast
  have ids: "map tm_call_id rs = ids_asked parse (AiMsg t)"
    using course by (auto simp: ids_asked_def cs_def split: option.split)
  have use: "uses_in_order (od_get_default q i []) (answers_of i rs @ answers_of i (concat answers))" for i
  proof -
    have join: "uses_in_order g (x @ y)" if "uses_in_order g x" "uses_in_order (drop (length x) g) y" for g x y
      using that
    proof (induction x arbitrary: g)
      case (Cons a x)
      then show ?case by (cases g) auto
    qed simp
    show ?thesis using course a(4) by (intro join) auto
  qed
  have "patch_loop parse ids (AiMsg t # ms) q
      = block_of (AiMsg t) rs @ concat (map2 block_of (kept_messages ids ms) answers)"
    using rs a(2) by (simp add: cs_def block_of_def)
  with a(1,3) ids use show ?case
    by (intro exI [of _ "rs # answers"]) (simp add: kept_messages_def)
next
  case (4 parse ids k ms q)
  then obtain answers where a: "length answers = length (kept_messages ids ms)"
      "patch_loop parse ids ms q = concat (map2 block_of (kept_messages ids ms) answers)"
      "map (map tm_call_id) answers = map (ids_asked parse) (kept_messages ids ms)"
      "\<forall>i. uses_in_order (od_get_default q i []) (answers_of i (concat answers))" by blast
  then show ?case
    by (intro exI [of _ "[] # answers"]) (simp add: kept_messages_def block_of_def ids_asked_def)
qed

lemma request_is_patched:
  "request_messages parse ms = Some p \<longleftrightarrow>
    (\<exists>ids. collect_call_ids parse ms = Some ids \<and> p = patch_loop parse ids ms (queue_results ms []))"
  by (auto simp: request_messages_def build_patched_messages_def Let_def split: option.splits if_splits)

section \<open>Patching a patched transcript\<close>

lemma adopt_settled:
  "call_agrees c c' \<Longrightarrow> arg_of c ''name'' = normalize_tool_name n \<Longrightarrow> adopt_name c' (adopt_name c r) = adopt_name c r"
  by (auto simp: adopt_name_def call_agrees_def)

lemma placeholder_named: "arg_of c ''name'' = normalize_tool_name n \<Longrightarrow> valid_tool_name (tm_name (placeholder c))"
  using normalize_valid [of n]
  by (auto simp: placeholder_def arg_of_def od_get_default_def valid_tool_name_def split: option.splits)

lemma adopt_placeholder:
  "arg_of c ''name'' = normalize_tool_name n \<Longrightarrow> adopt_name c' (placeholder c) = placeholder c"
  by (simp add: adopt_name_def placeholder_named)

definition named_call :: "py_items \<Rightarrow> bool" where
  "named_call c \<longleftrightarrow> (\<exists>n. arg_of c ''name'' = normalize_tool_name n)"

lemma identified_named: "identified_calls parse t = Some cs \<Longrightarrow> \<forall>c \<in> set cs. named_call c"
proof -
  have "\<forall>c \<in> set (structured_calls v). named_call c" for v
    by (auto simp: structured_calls_def named_call_def split: pyval.splits)
  moreover have "\<forall>c \<in> set (raw_calls parse v). named_call c" for v
    by (auto simp: raw_calls_def named_call_def split: pyval.splits) (auto simp: arg_of_def)
  moreover have "\<forall>c \<in> set (invalid_calls v). named_call c" for v
    by (auto simp: invalid_calls_def named_call_def split: pyval.splits) (auto simp: arg_of_def)
  ultimately show "\<forall>c \<in> set cs. named_call c" if "identified_calls parse t = Some cs"
    using that by (fastforce simp: identified_calls_def message_tool_calls_def Let_def
        split: option.splits if_splits)
qed

lemma answer_again:
  assumes "list_all2 call_agrees cs cs'" and "\<forall>c \<in> set cs. named_call c" and "queue_ok q"
    and "answer_calls cs q = (rs, q1)" and "\<forall>c \<in> set cs. arg_of c ''id'' \<in> S"
    and "\<forall>i \<in> S. od_get_default q' i [] = answers_of i rs @ X i"
  shows "\<exists>q2. answer_calls cs' q' = (rs, q2) \<and> (\<forall>i \<in> S. od_get_default q2 i [] = X i)"
  using assms
proof (induction cs cs' arbitrary: q q' rs rule: list_all2_induct)
  case (Cons c cs c' cs')
  let ?i = "arg_of c ''id''"
  obtain n where n: "arg_of c ''name'' = normalize_tool_name n"
    using Cons.prems(1) by (auto simp: named_call_def)
  have id: "arg_of c' ''id'' = ?i" using Cons.hyps(1) by (simp add: call_agrees_def)
  obtain a rs1 q0 where a: "rs = a # rs1" "tm_call_id a = ?i" "adopt_name c' a = a" "queue_ok q0"
    "answer_calls cs q0 = (rs1, q1)"
  proof (cases "od_get_default q ?i []")
    case Nil
    then show ?thesis
      using Cons.prems(2,3) that [of "placeholder c"] adopt_placeholder [OF n]
      by (auto simp: Let_def placeholder_def split: prod.splits)
  next
    case r: (Cons r rest)
    have "tm_call_id r = ?i" using Cons.prems(2) r by (simp add: queue_ok_def)
    moreover have "queue_ok (od_set ?i rest q)"
      using Cons.prems(2) r by (auto simp: queue_ok_def od_get_default_set)
    ultimately show ?thesis
      using Cons.prems(3) r that [of "adopt_name c r"] adopt_settled [OF Cons.hyps(1) n]
      by (auto simp: Let_def split: prod.splits)
  qed
  have i: "?i \<in> S" using Cons.prems(4) by simp
  let ?rest = "answers_of ?i rs1 @ X ?i"
  have head: "od_get_default q' ?i [] = a # ?rest" using Cons.prems(5) i a(1,2) by simp
  have "\<forall>i \<in> S. od_get_default (od_set ?i ?rest q') i [] = answers_of i rs1 @ X i"
    using Cons.prems(5) a(1,2) by (auto simp: od_get_default_set)
  from Cons.IH [OF _ a(4,5) _ this] Cons.prems(1,4)
  obtain q2 where "answer_calls cs' (od_set ?i ?rest q') = (rs1, q2)" "\<forall>i \<in> S. od_get_default q2 i [] = X i" by auto
  with head a(1,3) id show ?case by (intro exI [of _ q2]) simp
qed simp

lemma results_in_simps [simp]:
  "results_in [] = []"
  "results_in (ToolMsg r # ms) = r # results_in ms"
  "results_in (AiMsg t # ms) = results_in ms"
  "results_in (OtherMsg k # ms) = results_in ms"
  "results_in (map ToolMsg rs @ ms) = rs @ results_in ms"
  by (induction rs) (simp_all add: results_in_def)

lemma collect_results: "collect_call_ids parse (map ToolMsg rs @ ms) = collect_call_ids parse ms"
  by (induction rs) simp_all

lemma patch_skips_results:
  "\<forall>r \<in> set rs. tm_call_id r \<in> set ids \<Longrightarrow> patch_loop parse ids (map ToolMsg rs @ ms) q = patch_loop parse ids ms q"
  by (induction rs) simp_all

lemma agree_ids: "list_all2 call_agrees cs cs' \<Longrightarrow> map (\<lambda>c. arg_of c ''id'') cs' = map (\<lambda>c. arg_of c ''id'') cs"
  by (induction rule: list_all2_induct) (simp_all add: call_agrees_def)

lemma collect_patched:
  "collect_call_ids parse ms = Some found \<Longrightarrow> collect_call_ids parse (patch_loop parse ids ms q) = Some found"
proof (induction parse ids ms q arbitrary: found rule: patch_loop.induct)
  case (3 parse ids t ms q)
  obtain cs rest where cs: "identified_calls parse t = Some cs" "collect_call_ids parse ms = Some rest"
    "found = map (\<lambda>c. arg_of c ''id'') cs @ rest"
    using "3.prems" by (auto split: option.splits)
  obtain rs q1 where rs: "answer_calls cs q = (rs, q1)" by force
  obtain cs' where cs': "identified_calls parse (sanitize_message t) = Some cs'" "list_all2 call_agrees cs cs'"
    using identified_agree [OF cs(1)] by blast
  have "collect_call_ids parse (patch_loop parse ids ms q1) = Some rest"
    using "3.IH" [OF _ refl cs(2)] rs cs(1) by simp
  with cs cs' rs agree_ids [OF cs'(2)] show ?case by (simp add: collect_results)
qed auto

lemma patch_again:
  assumes "queue_ok q" and "collect_call_ids parse ms = Some found" and "set found \<subseteq> set ids"
    and "\<forall>i \<in> set ids. od_get_default q' i [] = answers_of i (results_in (patch_loop parse ids ms q))"
  shows "patch_loop parse ids (patch_loop parse ids ms q) q' = patch_loop parse ids ms q"
  using assms
proof (induction parse ids ms q arbitrary: found q' rule: patch_loop.induct)
  case (2 parse ids r ms q)
  show ?case
  proof (cases "tm_call_id r \<in> set ids")
    case False
    then have "\<forall>i \<in> set ids. od_get_default q' i [] = answers_of i (results_in (patch_loop parse ids ms q))"
      using "2.prems"(4) by auto
    from "2.IH"(2) [OF False "2.prems"(1) _ "2.prems"(3) this] "2.prems"(2) False show ?thesis by simp
  qed (use 2 in simp)
next
  case (3 parse ids t ms q)
  obtain cs rest where cs: "identified_calls parse t = Some cs" "collect_call_ids parse ms = Some rest"
    "found = map (\<lambda>c. arg_of c ''id'') cs @ rest"
    using "3.prems"(2) by (auto split: option.splits)
  obtain rs q1 where rs: "answer_calls cs q = (rs, q1)" by force
  note course = answer_calls_course [OF "3.prems"(1) rs]
  obtain cs' where cs': "identified_calls parse (sanitize_message t) = Some cs'" "list_all2 call_agrees cs cs'"
    using identified_agree [OF cs(1)] by blast
  let ?out = "patch_loop parse ids ms q1"
  have out: "patch_loop parse ids (AiMsg t # ms) q = AiMsg (sanitize_message t) # map ToolMsg rs @ ?out"
    using cs(1) rs by simp
  have sub: "\<forall>c \<in> set cs. arg_of c ''id'' \<in> set ids" using "3.prems"(3) cs(3) by auto
  have "\<forall>i \<in> set ids. od_get_default q' i [] = answers_of i rs @ answers_of i (results_in ?out)"
    using "3.prems"(4) unfolding out by simp
  from answer_again [OF cs'(2) identified_named [OF cs(1)] "3.prems"(1) rs sub this]
  obtain q2 where q2: "answer_calls cs' q' = (rs, q2)"
    "\<forall>i \<in> set ids. od_get_default q2 i [] = answers_of i (results_in ?out)"
    by blast
  have "patch_loop parse ids ?out q2 = ?out"
  proof (rule "3.IH" [OF _ refl _ cs(2) _ q2(2)])
    show "(rs, q1) = answer_calls (case identified_calls parse t of None \<Rightarrow> [] | Some cs \<Rightarrow> cs) q"
      using rs cs(1) by simp
    show "queue_ok q1" using course by blast
    show "set rest \<subseteq> set ids" using "3.prems"(3) cs(3) by simp
  qed
  moreover have "set (map tm_call_id rs) \<subseteq> set ids" using course sub by auto
  then have "\<forall>r \<in> set rs. tm_call_id r \<in> set ids" by auto
  ultimately show ?case using cs' q2(1) unfolding out by (simp add: patch_skips_results)
next
  case (4 parse ids k ms q)
  then show ?case by auto
qed simp

section \<open>Properties\<close>

text \<open>C16. The transcript the model sees is well-formed: it consists of the messages that are not results
  of known calls, in order, each AI message followed directly by one result for each of its calls
  with an id, in the order of the calls; the results of an id are used in their order, and only
  once they are exhausted do error placeholders stand in.\<close>

theorem patched_calls_are_answered:
  assumes "request_messages parse ms = Some p"
  shows "\<exists>ids answers. collect_call_ids parse ms = Some ids
    \<and> length answers = length (kept_messages ids ms)
    \<and> p = concat (map2 block_of (kept_messages ids ms) answers)
    \<and> map (map tm_call_id) answers = map (ids_asked parse) (kept_messages ids ms)
    \<and> (\<forall>i. uses_in_order (answers_of i (results_in ms)) (answers_of i (concat answers)))"
proof -
  obtain ids where ids: "collect_call_ids parse ms = Some ids" "p = patch_loop parse ids ms (queue_results ms [])"
    using assms by (auto simp: request_is_patched)
  from patch_loop_blocks [OF queue_results_ok [of ms], of ids ms parse] ids show ?thesis
    by (auto simp: queue_results_get)
qed

definition demo_turn :: ai_turn where
  "demo_turn = \<lparr>at_tool_calls = [PDict [(PStr ''id'', PStr ''a''), (PStr ''name'', PStr '' '')],
       PDict [(PStr ''id'', PStr ''b''), (PStr ''name'', PStr ''bash'')]],
     at_invalid_calls = [], at_kwargs = [], at_content = PNone\<rparr>"

definition demo_result :: "string \<Rightarrow> tool_message" where
  "demo_result i = \<lparr>tm_call_id = PStr i, tm_name = PStr '''', tm_content = PStr ''ok'', tm_status = ''success''\<rparr>"

definition demo_transcript :: "chat_message list" where
  "demo_transcript = [ToolMsg (demo_result ''b''), AiMsg demo_turn, OtherMsg 1]"

lemma demo_request: "\<exists>p. request_messages (\<lambda>_. None) demo_transcript = Some p"
  by (simp add: request_is_patched demo_transcript_def identified_calls_def message_tool_calls_def demo_turn_def
      structured_calls_def invalid_calls_def mark_invalid_name_def arg_of_def hashable_def truthy_def Let_def)

theorem patched_calls_are_answered_witness:
  "\<exists>p ids answers. request_messages (\<lambda>_. None) demo_transcript = Some p
     \<and> p = concat (map2 block_of (kept_messages ids demo_transcript) answers)"
  using demo_request patched_calls_are_answered by blast

text \<open>Rewriting is idempotent: a transcript that has been patched needs no further change.\<close>

lemma patching_is_idempotent:
  assumes "request_messages parse ms = Some p"
  shows "build_patched_messages parse p = Some None"
proof -
  obtain ids where ids: "collect_call_ids parse ms = Some ids" "p = patch_loop parse ids ms (queue_results ms [])"
    using assms by (auto simp: request_is_patched)
  have "collect_call_ids parse p = Some ids" unfolding ids(2) by (rule collect_patched [OF ids(1)])
  moreover have "patch_loop parse ids p (queue_results p []) = p"
    unfolding ids(2)
    by (rule patch_again [OF queue_results_ok ids(1) order_refl]) (simp add: queue_results_get)
  ultimately show ?thesis by (simp add: build_patched_messages_def)
qed

end
