(* ===== verification/ToolMeta.thy ===== *)
theory ToolMeta
  imports PyText
begin

text \<open>
  The metadata attached to every tool result (\<open>agents/middlewares/tool_result_meta.py\<close>): the
  keyword rules that classify an error text, errors wrapped in JSON, partial results.
  \<open>json.loads\<close> and \<open>json.dumps\<close> are the fields of \<open>json_env\<close>.
\<close>

record json_env =
  je_parse :: "string \<Rightarrow> pyval option"
  je_dumps :: "pyval \<Rightarrow> string"

record tool_reply =
  tp_content :: pyval
  tp_status :: string
  tp_kwargs :: pydict
  tp_name :: string
  tp_call_id :: string

text \<open>What a tool returns: a message, or a command of the graph, which is passed through.\<close>

datatype tool_outcome = Reply tool_reply | Command nat

section \<open>Keyword rules\<close>

record error_attrs =
  ea_type :: string
  ea_recoverable :: bool
  ea_action :: string

definition error_rules :: "(string list \<times> error_attrs) list" where
  "error_rules =
    [([''401'', ''403'', ''unauthorized'', ''authentication'', ''invalid api key''],
      \<lparr>ea_type = ''auth'', ea_recoverable = False, ea_action = ''stop''\<rparr>),
     ([''rate limit'', ''rate limited'', ''rate_limit''],
      \<lparr>ea_type = ''rate_limited'', ea_recoverable = False, ea_action = ''summarize''\<rparr>),
     ([''timeout'', ''timed out'', ''connection'', ''network error'', ''temporarily unavailable''],
      \<lparr>ea_type = ''transient'', ea_recoverable = False, ea_action = ''try_alternative''\<rparr>),
     ([''not configured'', ''not installed'', ''missing required'', ''disabled'', ''no api key''],
      \<lparr>ea_type = ''config'', ea_recoverable = False, ea_action = ''stop''\<rparr>),
     ([''permission denied'', ''access denied'', ''path traversal'', ''forbidden''],
      \<lparr>ea_type = ''permission'', ea_recoverable = True, ea_action = ''try_alternative''\<rparr>),
     ([''no results found'', ''no content found'', ''no images found'', ''no results''],
      \<lparr>ea_type = ''no_results'', ea_recoverable = True, ea_action = ''rewrite_query''\<rparr>),
     ([''not found'', ''no such file'', ''does not exist'', ''404''],
      \<lparr>ea_type = ''not_found'', ea_recoverable = True, ea_action = ''rewrite_query''\<rparr>),
     ([''unexpected error'', ''internal error'', ''500''],
      \<lparr>ea_type = ''internal'', ea_recoverable = False, ea_action = ''stop''\<rparr>)]"

definition unknown_error :: error_attrs where
  "unknown_error = \<lparr>ea_type = ''unknown'', ea_recoverable = True, ea_action = ''try_alternative''\<rparr>"

text \<open>The search for a word \<open>\bkw\b\<close>.\<close>

definition word_ends :: "string \<Rightarrow> bool" where
  "word_ends s = (case s of [] \<Rightarrow> True | c # _ \<Rightarrow> \<not> is_word c)"

fun find_word :: "bool \<Rightarrow> string \<Rightarrow> string \<Rightarrow> bool" where
  "find_word inside kw [] = (\<not> inside \<and> kw = [])"
| "find_word inside kw (c # s) =
     ((\<not> inside \<and> take (length kw) (c # s) = kw \<and> word_ends (drop (length kw) (c # s)))
      \<or> find_word (is_word c) kw s)"

definition match_keyword :: "string \<Rightarrow> string \<Rightarrow> bool" where
  "match_keyword kw lower = (if kw \<noteq> '''' \<and> list_all is_digit kw then find_word False kw lower else contains_text kw lower)"

definition classify_error_text :: "string \<Rightarrow> error_attrs" where
  "classify_error_text t =
     (case find (\<lambda>(keywords, attrs). list_ex (\<lambda>kw. match_keyword kw (str_lower t)) keywords) error_rules of
        Some (_, attrs) \<Rightarrow> attrs
      | None \<Rightarrow> unknown_error)"

section \<open>Errors wrapped in JSON\<close>

definition semantic_zero_errors :: "string list" where
  "semantic_zero_errors = [''none'', ''null'', ''false'', ''no'', ''ok'', ''success'', ''n/a'', '''']"

definition extract_json_error_text :: "json_env \<Rightarrow> string \<Rightarrow> string option" where
  "extract_json_error_text env content =
     (case je_parse env content of
        Some (PDict d) \<Rightarrow>
          (let error = arg_of d ''error''
           in if \<not> truthy error then None
              else case error of
                     PStr t \<Rightarrow> if str_strip (str_lower t) \<in> set semantic_zero_errors then None else Some t
                   | v \<Rightarrow> Some (je_dumps env v))
      | _ \<Rightarrow> None)"

section \<open>Stamping a message\<close>

definition tool_meta_key :: string where "tool_meta_key = ''vassilflow_tool_meta''"

definition make_meta :: "string \<Rightarrow> string \<Rightarrow> pyval \<Rightarrow> bool \<Rightarrow> string \<Rightarrow> pyval" where
  "make_meta status source error_type recoverable action =
     PDict [(PStr ''status'', PStr status), (PStr ''error_type'', error_type),
       (PStr ''recoverable_by_model'', PBool recoverable), (PStr ''recommended_next_action'', PStr action),
       (PStr ''source'', PStr source)]"

definition error_meta :: "string \<Rightarrow> error_attrs \<Rightarrow> pyval" where
  "error_meta source a = make_meta ''error'' source (PStr (ea_type a)) (ea_recoverable a) (ea_action a)"

definition stamp_exception_meta :: "tool_reply \<Rightarrow> string \<Rightarrow> tool_reply" where
  "stamp_exception_meta m exc_info =
     m\<lparr>tp_kwargs := od_set tool_meta_key (error_meta ''exception'' (classify_error_text exc_info)) (tp_kwargs m)\<rparr>"

definition error_prefix :: string where "error_prefix = ''Error:''"

definition partial_markers :: "string list" where
  "partial_markers = [''partial results'', ''limited results'', ''truncated'', ''results may be incomplete'',
     ''no results found'', ''no content found'', ''no images found'']"

definition content_text :: "pyval \<Rightarrow> string" where
  "content_text v = (case v of PStr s \<Rightarrow> s | _ \<Rightarrow> '''')"

definition has_prefix :: "string \<Rightarrow> string \<Rightarrow> bool" where
  "has_prefix p s \<longleftrightarrow> take (length p) s = p"

definition assess_content :: "json_env \<Rightarrow> string \<Rightarrow> string \<Rightarrow> pyval" where
  "assess_content env status content =
     (if status = ''error'' \<and> \<not> has_prefix error_prefix content
      then error_meta ''tool_return''
             (case extract_json_error_text env content of
                Some t \<Rightarrow> classify_error_text t
              | None \<Rightarrow> (case je_parse env content of
                           Some (PDict _) \<Rightarrow> unknown_error
                         | _ \<Rightarrow> classify_error_text content))
      else if has_prefix error_prefix content
      then error_meta ''tool_return'' (classify_error_text (drop (length error_prefix) content))
      else case extract_json_error_text env content of
             Some t \<Rightarrow> error_meta ''tool_return'' (classify_error_text t)
           | None \<Rightarrow>
               if list_ex (\<lambda>p. contains_text p (str_lower content)) partial_markers
               then make_meta ''partial_success'' ''content_analysis'' PNone True ''rewrite_query''
               else make_meta ''success'' ''content_analysis'' PNone True ''continue'')"

definition normalize_tool_message :: "json_env \<Rightarrow> tool_reply \<Rightarrow> tool_reply" where
  "normalize_tool_message env m =
     (if od_get_default (tp_kwargs m) tool_meta_key PNone \<noteq> PNone then m
      else m\<lparr>tp_kwargs := od_set tool_meta_key (assess_content env (tp_status m) (content_text (tp_content m))) (tp_kwargs m)\<rparr>)"

definition normalize_tool_result :: "json_env \<Rightarrow> tool_outcome \<Rightarrow> tool_outcome" where
  "normalize_tool_result env r = (case r of Reply m \<Rightarrow> Reply (normalize_tool_message env m) | Command k \<Rightarrow> Command k)"

section \<open>Reading the metadata back\<close>

record tool_meta =
  mt_status :: pyval
  mt_error :: pyval
  mt_recoverable :: pyval
  mt_action :: pyval
  mt_source :: pyval

definition meta_fields :: "string list" where
  "meta_fields = [''status'', ''error_type'', ''recoverable_by_model'', ''recommended_next_action'', ''source'']"

text \<open>\<open>ToolResultMeta(**d)\<close> raises \<open>TypeError\<close> unless the keys are exactly its fields.\<close>

definition parse_tool_meta :: "pyval \<Rightarrow> tool_meta option" where
  "parse_tool_meta v =
     (case v of
        PDict d \<Rightarrow>
          if fst ` set d = PStr ` set meta_fields
          then Some \<lparr>mt_status = arg_of d ''status'', mt_error = arg_of d ''error_type'',
                 mt_recoverable = arg_of d ''recoverable_by_model'', mt_action = arg_of d ''recommended_next_action'',
                 mt_source = arg_of d ''source''\<rparr>
          else None
      | _ \<Rightarrow> None)"

lemma parse_make_meta:
  "parse_tool_meta (make_meta st src e r a) =
     Some \<lparr>mt_status = PStr st, mt_error = e, mt_recoverable = PBool r, mt_action = PStr a, mt_source = PStr src\<rparr>"
  by (simp add: parse_tool_meta_def make_meta_def meta_fields_def arg_of_def) 

text \<open>What the metadata of a message that had none says.\<close>

definition meta_of :: "tool_outcome \<Rightarrow> tool_meta option" where
  "meta_of r = (case r of Reply m \<Rightarrow> parse_tool_meta (od_get_default (tp_kwargs m) tool_meta_key PNone) | Command _ \<Rightarrow> None)"

lemma assess_content_parses: "\<exists>mt. parse_tool_meta (assess_content env st content) = Some mt"
  by (auto simp: assess_content_def error_meta_def parse_make_meta split: option.split pyval.split)

lemma rule_attrs: "classify_error_text t \<in> insert unknown_error (snd ` set error_rules)"
  by (auto simp: classify_error_text_def find_Some_iff image_iff split: option.split) (metis nth_mem snd_conv)

text \<open>Only errors that the rules call unrecoverable are: an unrecoverable classification names its kind.\<close>

lemma unrecoverable_kinds:
  "\<not> ea_recoverable (classify_error_text t) \<Longrightarrow>
    ea_type (classify_error_text t) \<in> {''auth'', ''rate_limited'', ''transient'', ''config'', ''internal''}"
  using rule_attrs [of t] by (auto simp: error_rules_def unknown_error_def)

end
