(* ===== verification/ToolProgress.thy ===== *)
theory ToolProgress
  imports ToolMeta
begin

text \<open>
  \<open>ToolProgressMiddleware\<close> (\<open>agents/middlewares/tool_progress_middleware.py\<close>): a state machine per
  thread and tool that counts results without progress, queues hints for the next model call and
  blocks a tool.  The number of tracked threads is at least one (\<open>ToolProgressConfig\<close>).
\<close>

section \<open>Similarity of results\<close>

fun word_runs :: "string \<Rightarrow> string \<Rightarrow> string list" where
  "word_runs acc [] = (if acc = [] then [] else [rev acc])"
| "word_runs acc (c # s) =
     (if is_word c then word_runs (c # acc) s
      else (if acc = [] then word_runs [] s else rev acc # word_runs [] s))"

definition word_set :: "string \<Rightarrow> string set" where
  "word_set content = set (filter (\<lambda>w. 3 \<le> length w) (word_runs [] (str_lower (take 8192 content))))"

definition is_near_duplicate :: "string set \<Rightarrow> string set list \<Rightarrow> rat \<Rightarrow> int \<Rightarrow> bool" where
  "is_near_duplicate current recent threshold min_words =
     (int (card current) \<ge> min_words
      \<and> list_ex (\<lambda>prev. int (card prev) \<ge> min_words \<and> card (current \<union> prev) \<noteq> 0
            \<and> of_nat (card (current \<inter> prev)) / of_nat (card (current \<union> prev)) \<ge> threshold)
          (last_slice 3 recent))"

section \<open>The state machine\<close>

datatype tool_phase = ActivePhase | WarnedPhase | BlockedPhase

record tool_state =
  ts_phase :: tool_phase
  ts_problems :: nat
  ts_reason :: "string option"
  ts_recent :: "string set list"

definition fresh_tool :: tool_state where
  "fresh_tool = \<lparr>ts_phase = ActivePhase, ts_problems = 0, ts_reason = None, ts_recent = []\<rparr>"

record progress_cfg =
  pg_threshold :: nat
  pg_escalation :: nat
  pg_inject :: bool
  pg_jaccard :: rat
  pg_min_words :: int
  pg_exempt :: "string list"
  pg_max_threads :: nat

text \<open>\<open>d.get(value)\<close> on a table of texts.\<close>

definition table_get :: "(string \<times> string) list \<Rightarrow> pyval \<Rightarrow> string \<Rightarrow> string" where
  "table_get d v z = (case v of PStr k \<Rightarrow> od_get_default d k z | _ \<Rightarrow> z)"

definition action_hints :: "(string \<times> string) list" where
  "action_hints =
    [(''rewrite_query'', ''Try rephrasing your search query with different keywords or approach.''),
     (''try_alternative'', ''Consider using a different tool or strategy.''),
     (''summarize'', ''Consider summarizing your current findings and moving forward.''),
     (''stop'', ''Do not retry this operation; it is not recoverable.''),
     (''continue'', ''Try rephrasing your query or using a different search term.'')]"

definition kind_hints :: "(string \<times> string) list" where
  "kind_hints =
    [(''no_results'', ''[PROGRESS HINT] Your search returned no results.''),
     (''not_found'', ''[PROGRESS HINT] The resource was not found repeatedly.''),
     (''rate_limited'', ''[PROGRESS HINT] The tool is being rate-limited.''),
     (''transient'', ''[PROGRESS HINT] The tool encountered repeated transient failures.''),
     (''partial_success'', ''[PROGRESS HINT] The tool has returned incomplete results multiple times.''),
     (''success'', ''[PROGRESS HINT] The tool is returning duplicate results.'')]"

definition format_hint :: "tool_meta \<Rightarrow> string" where
  "format_hint mt =
     (let base = table_get kind_hints (if truthy (mt_error mt) then mt_error mt else mt_status mt)
            ''[PROGRESS HINT] The tool is not producing new information.'';
          suffix = table_get action_hints (mt_action mt) ''''
      in str_strip (base @ '' '' @ suffix))"

definition block_reasons :: "(string \<times> string) list" where
  "block_reasons =
    [(''no_results'', ''Repeated no-results; rewrite your query or try a different tool.''),
     (''not_found'', ''Repeated not-found; rewrite your query or try a different resource.''),
     (''rate_limited'', ''Repeated rate-limiting; summarize current findings and proceed.''),
     (''transient'', ''Repeated transient failures; try a different approach.''),
     (''auth'', ''Authentication failure; this tool cannot be used.''),
     (''config'', ''Tool is not configured; this tool cannot be used.''),
     (''internal'', ''Repeated internal errors; this tool is unavailable.'')]"

definition block_reason :: "tool_meta \<Rightarrow> string" where
  "block_reason mt = table_get block_reasons (mt_error mt)
     ''Tool has not produced new information after multiple attempts; summarize and move on.''"

definition is_problem :: "progress_cfg \<Rightarrow> tool_state \<Rightarrow> tool_meta \<Rightarrow> string \<Rightarrow> bool" where
  "is_problem c st mt content \<longleftrightarrow>
     mt_status mt = PStr ''error'' \<or> mt_status mt = PStr ''partial_success''
     \<or> (mt_status mt = PStr ''success''
        \<and> is_near_duplicate (word_set content) (ts_recent st) (pg_jaccard c) (pg_min_words c))"

definition assess_and_transition :: "progress_cfg \<Rightarrow> tool_state \<Rightarrow> tool_meta \<Rightarrow> string \<Rightarrow> tool_state \<times> string option" where
  "assess_and_transition c st mt content =
     (if ts_phase st = BlockedPhase then (st, None)
      else (let n = ts_problems st + 1
            in if \<not> truthy (mt_recoverable mt) \<and> mt_action mt = PStr ''stop''
               then (st\<lparr>ts_phase := BlockedPhase, ts_problems := n, ts_reason := Some (block_reason mt)\<rparr>, None)
               else if \<not> is_problem c st mt content
               then (st\<lparr>ts_problems := 0, ts_phase := ActivePhase,
                        ts_recent := last_slice 3 (ts_recent st
                          @ [if mt_status mt = PStr ''success'' then word_set content else {}])\<rparr>, None)
               else if n \<ge> pg_threshold c + pg_escalation c
               then (if truthy (mt_recoverable mt)
                     then (st\<lparr>ts_problems := n, ts_phase := WarnedPhase\<rparr>, Some (format_hint mt))
                     else (st\<lparr>ts_problems := n, ts_phase := BlockedPhase, ts_reason := Some (block_reason mt)\<rparr>, None))
               else if n \<ge> pg_threshold c
               then (st\<lparr>ts_problems := n, ts_phase := WarnedPhase\<rparr>, Some (format_hint mt))
               else (st\<lparr>ts_problems := n\<rparr>, None)))"

section \<open>Threads, tools and hints\<close>

type_synonym run_key = "string \<times> string"

record progress_state =
  pr_phases :: "(string \<times> (string \<times> tool_state) list) list"
  pr_pending :: "(run_key \<times> string list) list"

definition progress_init :: progress_state where
  "progress_init = \<lparr>pr_phases = [], pr_pending = []\<rparr>"

definition max_pending_hints :: nat where "max_pending_hints = 3"

fun evict_threads :: "nat \<Rightarrow> progress_cfg \<Rightarrow> progress_state \<Rightarrow> progress_state" where
  "evict_threads 0 c s = s"
| "evict_threads (Suc n) c s =
     (case pr_phases s of
        [] \<Rightarrow> s
      | (tid, _) # rest \<Rightarrow>
          if length (pr_phases s) > pg_max_threads c
          then evict_threads n c (s\<lparr>pr_phases := rest, pr_pending := filter (\<lambda>e. fst (fst e) \<noteq> tid) (pr_pending s)\<rparr>)
          else s)"

definition get_tool_state :: "progress_cfg \<Rightarrow> string \<Rightarrow> string \<Rightarrow> progress_state \<Rightarrow> tool_state \<times> progress_state" where
  "get_tool_state c tid tool s =
     (let s1 = (if tid \<in> fst ` set (pr_phases s) then s
                else evict_threads (Suc (length (pr_phases s))) c (s\<lparr>pr_phases := pr_phases s @ [(tid, [])]\<rparr>));
          s2 = s1\<lparr>pr_phases := od_move_to_end tid (pr_phases s1)\<rparr>
      in (od_get_default (od_get_default (pr_phases s2) tid []) tool fresh_tool, s2))"

definition set_tool_state :: "string \<Rightarrow> string \<Rightarrow> tool_state \<Rightarrow> progress_state \<Rightarrow> progress_state" where
  "set_tool_state tid tool st s =
     s\<lparr>pr_phases := od_set tid (od_set tool st (od_get_default (pr_phases s) tid [])) (pr_phases s)\<rparr>"

definition get_block_reason :: "string \<Rightarrow> string \<Rightarrow> progress_state \<Rightarrow> string option" where
  "get_block_reason tid tool s =
     (case map_of (pr_phases s) tid of
        None \<Rightarrow> None
      | Some tools \<Rightarrow>
          (case map_of tools tool of
             None \<Rightarrow> None
           | Some st \<Rightarrow> if ts_phase st = BlockedPhase then ts_reason st else None))"

definition make_blocked_message :: "string \<Rightarrow> string \<Rightarrow> string \<Rightarrow> tool_reply" where
  "make_blocked_message call_id tool reason =
     \<lparr>tp_content = PStr (''[TOOL_BLOCKED] '' @ reason), tp_status = ''error'',
      tp_kwargs = [(tool_meta_key, make_meta ''error'' ''progress_middleware'' (PStr ''blocked_by_progress_guard'') True ''summarize'')],
      tp_name = tool, tp_call_id = call_id\<rparr>"

definition queue_assessment :: "run_key \<Rightarrow> string \<Rightarrow> progress_state \<Rightarrow> progress_state" where
  "queue_assessment k t s =
     (if fst k \<notin> fst ` set (pr_phases s) then s
      else (let q = od_get_default (pr_pending s) k []
            in s\<lparr>pr_pending := od_set k (if length q < max_pending_hints then q @ [t] else q) (pr_pending s)\<rparr>))"

definition update_from_result :: "progress_cfg \<Rightarrow> run_key \<Rightarrow> string \<Rightarrow> tool_outcome \<Rightarrow> progress_state \<Rightarrow> progress_state" where
  "update_from_result c k tool result s =
     (case result of
        Command _ \<Rightarrow> s
      | Reply m \<Rightarrow>
          (case meta_of result of
             None \<Rightarrow> s
           | Some mt \<Rightarrow>
               (let (st, s1) = get_tool_state c (fst k) tool s;
                    (st', hint) = assess_and_transition c st mt (content_text (tp_content m));
                    s2 = set_tool_state (fst k) tool st' s1
                in case hint of
                     None \<Rightarrow> s2
                   | Some h \<Rightarrow> if h \<noteq> '''' \<and> pg_inject c then queue_assessment k h s2 else s2)))"

definition drain_hints :: "run_key \<Rightarrow> progress_state \<Rightarrow> string list \<times> progress_state" where
  "drain_hints k s = (od_get_default (pr_pending s) k [], s\<lparr>pr_pending := od_pop k (pr_pending s)\<rparr>)"

definition clear_stale_pending :: "run_key \<Rightarrow> progress_state \<Rightarrow> progress_state" where
  "clear_stale_pending k s =
     s\<lparr>pr_pending := filter (\<lambda>e. \<not> (fst (fst e) = fst k \<and> snd (fst e) \<noteq> snd k)) (pr_pending s)\<rparr>"

definition reset_run_states :: "string \<Rightarrow> progress_state \<Rightarrow> progress_state" where
  "reset_run_states tid s =
     (case map_of (pr_phases s) tid of
        None \<Rightarrow> s
      | Some tools \<Rightarrow> s\<lparr>pr_phases := od_set tid (map (\<lambda>(n, st). (n, fresh_tool)) tools) (pr_phases s)\<rparr>)"

section \<open>Hooks\<close>

text \<open>The tool call seen by \<open>wrap_tool_call\<close>: \<open>str(name)\<close>, \<open>str(id)\<close> and the keys of its runtime, if it has one.\<close>

record tool_request =
  tq_name :: string
  tq_call_id :: string
  tq_key :: "run_key option"

definition intercepted :: "progress_cfg \<Rightarrow> tool_request \<Rightarrow> progress_state \<Rightarrow> tool_outcome option" where
  "intercepted c rq s =
     (if tq_name rq = '''' \<or> tq_name rq \<in> set (pg_exempt c) then None
      else case tq_key rq of
             None \<Rightarrow> None
           | Some k \<Rightarrow>
               (case get_block_reason (fst k) (tq_name rq) s of
                  None \<Rightarrow> None
                | Some reason \<Rightarrow> if reason = '''' then None
                                 else Some (Reply (make_blocked_message (tq_call_id rq) (tq_name rq) reason))))"

text \<open>\<open>result\<close> is what the handler returns if it is called; the flag says whether it was.\<close>

definition wrap_tool_call :: "progress_cfg \<Rightarrow> tool_request \<Rightarrow> tool_outcome \<Rightarrow> progress_state \<Rightarrow>
    bool \<times> tool_outcome \<times> progress_state" where
  "wrap_tool_call c rq result s =
     (case intercepted c rq s of
        Some blocked \<Rightarrow> (False, blocked, s)
      | None \<Rightarrow>
          (if tq_name rq = '''' \<or> tq_name rq \<in> set (pg_exempt c) then (True, result, s)
           else case tq_key rq of
                  None \<Rightarrow> (True, result, s)
                | Some k \<Rightarrow> (True, result, update_from_result c k (tq_name rq) result s)))"

definition hint_request :: "run_key \<Rightarrow> progress_state \<Rightarrow> string option \<times> progress_state" where
  "hint_request k s =
     (let (hints, s1) = drain_hints k s
      in (if hints = [] then None
          else Some (join_with [CHR 0x0A, CHR 0x0A] (fromkeys hints)), s1))"

definition progress_before_agent :: "run_key \<Rightarrow> progress_state \<Rightarrow> progress_state" where
  "progress_before_agent k s = reset_run_states (fst k) (clear_stale_pending k s)"

section \<open>Invariant\<close>

definition tool_at :: "string \<Rightarrow> string \<Rightarrow> progress_state \<Rightarrow> tool_state" where
  "tool_at tid tool s = od_get_default (od_get_default (pr_phases s) tid []) tool fresh_tool"

definition tool_ok :: "tool_state \<Rightarrow> bool" where
  "tool_ok st \<longleftrightarrow> (ts_phase st = BlockedPhase \<longrightarrow> ts_reason st \<noteq> None \<and> ts_reason st \<noteq> Some '''')
     \<and> length (ts_recent st) \<le> 3"

definition tools_ok :: "(string \<times> tool_state) list \<Rightarrow> bool" where
  "tools_ok tools \<longleftrightarrow> (\<forall>e \<in> set tools. tool_ok (snd e))"

definition phases_ok :: "(string \<times> (string \<times> tool_state) list) list \<Rightarrow> bool" where
  "phases_ok ps \<longleftrightarrow> (\<forall>e \<in> set ps. tools_ok (snd e))"

definition progress_ok :: "progress_cfg \<Rightarrow> progress_state \<Rightarrow> bool" where
  "progress_ok c s \<longleftrightarrow> od_ok (pr_phases s) \<and> length (pr_phases s) \<le> pg_max_threads c \<and> od_ok (pr_pending s)
     \<and> (\<forall>(k, q) \<in> set (pr_pending s). fst k \<in> fst ` set (pr_phases s) \<and> length q \<le> max_pending_hints)
     \<and> phases_ok (pr_phases s)"

lemma tools_ok_insert: "set xs \<subseteq> insert (n, st) (set ys) \<Longrightarrow> tools_ok ys \<Longrightarrow> tool_ok st \<Longrightarrow> tools_ok xs"
  by (fastforce simp: tools_ok_def)

lemma phases_ok_insert: "set xs \<subseteq> insert (t, ts) (set ys) \<Longrightarrow> phases_ok ys \<Longrightarrow> tools_ok ts \<Longrightarrow> phases_ok xs"
  by (fastforce simp: phases_ok_def)

lemma phases_ok_subset: "set xs \<subseteq> set ys \<Longrightarrow> phases_ok ys \<Longrightarrow> phases_ok xs"
  by (auto simp: phases_ok_def)

lemma phases_ok_lookup: "phases_ok ps \<Longrightarrow> tools_ok (od_get_default ps tid [])"
  by (cases "map_of ps tid") (force simp: phases_ok_def od_get_default_def tools_ok_def dest: map_of_SomeD)+

lemma fresh_ok: "tool_ok fresh_tool"
  by (simp add: tool_ok_def fresh_tool_def)

lemma block_reason_nonempty: "block_reason mt \<noteq> ''''"
  by (auto simp: block_reason_def table_get_def block_reasons_def od_get_default_def split: pyval.split if_splits)

lemma assess_ok:
  assumes "tool_ok st" and "assess_and_transition c st mt content = (st', hint)"
  shows "tool_ok st'"
  using assms length_last_slice [of 3 "ts_recent st @ [x]" for x]
  by (auto simp: assess_and_transition_def Let_def tool_ok_def block_reason_nonempty split: if_splits)

lemma evict_threads_fits: "length (pr_phases s) \<le> pg_max_threads c \<Longrightarrow> evict_threads n c s = s"
  by (cases n) (auto split: list.split)

lemma get_tool_state_ok:
  assumes "progress_ok c s" and "1 \<le> pg_max_threads c" and "get_tool_state c tid tool s = (st, s')"
  shows "progress_ok c s' \<and> tid \<in> fst ` set (pr_phases s') \<and> st = tool_at tid tool s
    \<and> (\<forall>x. tool_at tid x s' = tool_at tid x s)"
proof (cases "tid \<in> fst ` set (pr_phases s)")
  case True
  then obtain tools where tools: "map_of (pr_phases s) tid = Some tools"
    using map_of_None_iff by (metis not_None_eq)
  have od: "od_ok (pr_phases s)" using assms(1) by (simp add: progress_ok_def)
  have s': "s' = s\<lparr>pr_phases := od_move_to_end tid (pr_phases s)\<rparr>"
    "st = od_get_default (od_get_default (pr_phases s') tid []) tool fresh_tool"
    using assms(3) True by (auto simp: get_tool_state_def Let_def)
  have "set (od_move_to_end tid (pr_phases s)) \<subseteq> set (pr_phases s)"
    using tools by (auto simp: od_move_to_end_def od_pop_def dest: map_of_SomeD)
  with assms(1) have "phases_ok (od_move_to_end tid (pr_phases s))"
    using phases_ok_subset by (auto simp: progress_ok_def)
  then show ?thesis
    using assms(1) s' od tools True
    by (auto simp: progress_ok_def tool_at_def od_get_default_def length_move_to_end)
next
  case False
  have none: "map_of (pr_phases s) tid = None" using False by (simp only: map_of_None_iff not_False_eq_True)
  let ?s = "s\<lparr>pr_phases := pr_phases s @ [(tid, [])]\<rparr>"
  obtain s1 where s1: "evict_threads (Suc (length (pr_phases s))) c ?s = s1" by blast
  have "progress_ok c s1 \<and> map_of (pr_phases s1) tid = Some []"
  proof (cases "length (pr_phases s) < pg_max_threads c")
    case True
    then have "s1 = ?s" using evict_threads_fits [of ?s c] s1 by simp
    with True assms(1) False none show ?thesis
      by (auto simp: progress_ok_def phases_ok_def tools_ok_def map_add_def)
  next
    case full: False
    then have len: "length (pr_phases s) = pg_max_threads c" using assms(1) by (simp add: progress_ok_def)
    then obtain t0 x0 rest where ph: "pr_phases s = (t0, x0) # rest" using assms(2) by (cases "pr_phases s") auto
    let ?s1 = "?s\<lparr>pr_phases := rest @ [(tid, [])], pr_pending := filter (\<lambda>e. fst (fst e) \<noteq> t0) (pr_pending s)\<rparr>"
    have fits: "evict_threads n c ?s1 = ?s1" for n
      using len ph by (intro evict_threads_fits) simp
    have "s1 = evict_threads (Suc (length (pr_phases s))) c ?s" using s1 by (rule sym)
    also have "\<dots> = evict_threads (length (pr_phases s)) c ?s1"
      by (subst evict_threads.simps(2)) (use len ph in \<open>simp del: evict_threads.simps\<close>)
    also have "\<dots> = ?s1" by (rule fits)
    finally have s1': "s1 = ?s1" .
    have "\<forall>(k, q) \<in> set (pr_pending s1). fst k \<in> fst ` set (pr_phases s1)"
    proof clarify
      fix k q assume e: "(k, q) \<in> set (pr_pending s1)"
      then have "fst k \<noteq> t0" and "(k, q) \<in> set (pr_pending s)" by (simp_all add: s1')
      moreover from this(2) have "fst k \<in> fst ` set (pr_phases s)" using assms(1) by (auto simp: progress_ok_def)
      ultimately show "fst k \<in> fst ` set (pr_phases s1)" by (simp add: s1' ph)
    qed
    with assms(1) ph len False s1' none show ?thesis
      by (auto simp: progress_ok_def distinct_map_filter phases_ok_def tools_ok_def map_add_def)
  qed
  moreover have s': "s' = s1\<lparr>pr_phases := od_move_to_end tid (pr_phases s1)\<rparr>"
    "st = od_get_default (od_get_default (pr_phases s') tid []) tool fresh_tool"
    using assms(3) False s1 by (auto simp: get_tool_state_def Let_def)
  moreover have "set (od_move_to_end tid (pr_phases s1)) \<subseteq> set (pr_phases s1)"
    using calculation(1) by (auto simp: od_move_to_end_def od_pop_def dest: map_of_SomeD)
  moreover from this have "phases_ok (od_move_to_end tid (pr_phases s1))"
    using calculation(1) phases_ok_subset by (auto simp: progress_ok_def)
  moreover have "tid \<in> fst ` set (pr_phases s1)"
    using calculation(1) by (force dest: map_of_SomeD)
  ultimately show ?thesis
    using none by (auto simp: progress_ok_def tool_at_def od_get_default_def length_move_to_end)
qed

lemma set_tool_state_ok:
  assumes "progress_ok c s" and "tid \<in> fst ` set (pr_phases s)" and "tool_ok st"
  shows "progress_ok c (set_tool_state tid tool st s)" and "tool_at tid tool (set_tool_state tid tool st s) = st"
proof -
  let ?tools = "od_get_default (pr_phases s) tid []"
  have p: "phases_ok (pr_phases s)" using assms(1) by (simp add: progress_ok_def)
  have "tools_ok (od_set tool st ?tools)"
    by (rule tools_ok_insert [OF od_set_items phases_ok_lookup [OF p] assms(3)])
  then have "phases_ok (od_set tid (od_set tool st ?tools) (pr_phases s))"
    by (rule phases_ok_insert [OF od_set_items p])
  with assms show "progress_ok c (set_tool_state tid tool st s)"
    by (auto simp: progress_ok_def set_tool_state_def length_od_set)
  show "tool_at tid tool (set_tool_state tid tool st s) = st"
    by (simp add: tool_at_def set_tool_state_def od_get_default_set)
qed

section \<open>Every hook keeps the invariant\<close>

lemma queue_assessment_ok:
  assumes "progress_ok c s"
  shows "progress_ok c (queue_assessment k t s)" and "pr_phases (queue_assessment k t s) = pr_phases s"
proof -
  show "progress_ok c (queue_assessment k t s)"
  proof (cases "fst k \<in> fst ` set (pr_phases s)")
    case True
    let ?q = "od_get_default (pr_pending s) k []"
    have "length ?q \<le> max_pending_hints"
      using assms by (cases "map_of (pr_pending s) k")
        (auto simp: progress_ok_def od_get_default_def dest: map_of_SomeD)
    then have "length (if length ?q < max_pending_hints then ?q @ [t] else ?q) \<le> max_pending_hints" by simp
    moreover note od_set_items [of k "if length ?q < max_pending_hints then ?q @ [t] else ?q" "pr_pending s"]
    ultimately have "\<forall>(x, q) \<in> set (od_set k (if length ?q < max_pending_hints then ?q @ [t] else ?q) (pr_pending s)).
        fst x \<in> fst ` set (pr_phases s) \<and> length q \<le> max_pending_hints"
      using assms True unfolding progress_ok_def by blast
    with assms True show ?thesis by (simp add: progress_ok_def queue_assessment_def Let_def)
  qed (use assms in \<open>simp add: queue_assessment_def\<close>)
qed (simp add: queue_assessment_def Let_def)

lemma update_from_result_effect:
  assumes "progress_ok c s" and "1 \<le> pg_max_threads c"
  shows "progress_ok c (update_from_result c k tool r s)"
    and "r = Reply m \<Longrightarrow> meta_of r = Some mt \<Longrightarrow> tool_at (fst k) tool (update_from_result c k tool r s)
      = fst (assess_and_transition c (tool_at (fst k) tool s) mt (content_text (tp_content m)))"
proof -
  obtain st s1 where g: "get_tool_state c (fst k) tool s = (st, s1)" by force
  note get = get_tool_state_ok [OF assms g]
  have st_ok: "tool_ok st"
    using get phases_ok_lookup [of "pr_phases s" "fst k"] assms(1) fresh_ok
    by (auto simp: tool_at_def progress_ok_def od_get_default_def [of _ tool] tools_ok_def
        split: option.split dest!: map_of_SomeD)
  have step: "progress_ok c (update_from_result c k tool r s)
      \<and> tool_at (fst k) tool (update_from_result c k tool r s)
        = fst (assess_and_transition c (tool_at (fst k) tool s) mt (content_text (tp_content m)))"
    if "r = Reply m" "meta_of r = Some mt" for m mt
  proof -
    obtain st' hint where a: "assess_and_transition c st mt (content_text (tp_content m)) = (st', hint)" by force
    let ?s2 = "set_tool_state (fst k) tool st' s1"
    have s1: "progress_ok c s1" and here: "fst k \<in> fst ` set (pr_phases s1)" using get by blast+
    note set_ok = set_tool_state_ok [OF s1 here assess_ok [OF st_ok a], of tool]
    have same: "tool_at t n (queue_assessment k h x) = tool_at t n x" for t n h x
      by (simp add: tool_at_def queue_assessment_def Let_def)
    from that g a get set_ok queue_assessment_ok(1) [OF set_ok(1)] same show ?thesis
      by (cases hint) (auto simp: update_from_result_def Let_def)
  qed
  then show "r = Reply m \<Longrightarrow> meta_of r = Some mt \<Longrightarrow> tool_at (fst k) tool (update_from_result c k tool r s)
      = fst (assess_and_transition c (tool_at (fst k) tool s) mt (content_text (tp_content m)))" by blast
  show "progress_ok c (update_from_result c k tool r s)"
  proof (cases r)
    case (Reply m)
    then show ?thesis using step [OF Reply] assms(1)
      by (cases "meta_of r") (auto simp: update_from_result_def)
  qed (use assms(1) in \<open>simp add: update_from_result_def\<close>)
qed

datatype progress_op = ToolResult run_key string tool_outcome | HintRequest run_key | RunStart run_key

fun progress_step :: "progress_cfg \<Rightarrow> progress_op \<Rightarrow> progress_state \<Rightarrow> progress_state" where
  "progress_step c (ToolResult k tool r) s = update_from_result c k tool r s"
| "progress_step c (HintRequest k) s = snd (hint_request k s)"
| "progress_step c (RunStart k) s = progress_before_agent k s"

definition progress_run :: "progress_cfg \<Rightarrow> progress_op list \<Rightarrow> progress_state \<Rightarrow> progress_state" where
  "progress_run c ops s = fold (progress_step c) ops s"

lemma pending_subset_ok:
  "progress_ok c s \<Longrightarrow> progress_ok c (s\<lparr>pr_pending := filter P (pr_pending s)\<rparr>)"
  by (auto simp: progress_ok_def distinct_map_filter)

lemma reset_ok: "progress_ok c s \<Longrightarrow> progress_ok c (reset_run_states t s)"
proof (cases "map_of (pr_phases s) t")
  case (Some tools)
  assume ok: "progress_ok c s"
  have t: "t \<in> fst ` set (pr_phases s)" using map_of_SomeD [OF Some] by force
  have "tools_ok (map (\<lambda>(n, st). (n, fresh_tool)) tools)" by (auto simp: tools_ok_def fresh_ok)
  then have "phases_ok (od_set t (map (\<lambda>(n, st). (n, fresh_tool)) tools) (pr_phases s))"
    using ok phases_ok_insert [OF od_set_items] by (auto simp: progress_ok_def)
  with ok t Some show ?thesis by (auto simp: progress_ok_def reset_run_states_def length_od_set)
qed (simp add: reset_run_states_def)

lemma progress_step_ok: "progress_ok c s \<Longrightarrow> 1 \<le> pg_max_threads c \<Longrightarrow> progress_ok c (progress_step c op s)"
proof (cases op)
  case (HintRequest k)
  then show "progress_ok c s \<Longrightarrow> ?thesis"
    by (simp add: hint_request_def drain_hints_def od_pop_def pending_subset_ok)
next
  case (RunStart k)
  then show "progress_ok c s \<Longrightarrow> ?thesis"
    by (simp add: progress_before_agent_def clear_stale_pending_def pending_subset_ok reset_ok)
qed (simp add: update_from_result_effect)

lemma progress_init_ok: "progress_ok c progress_init"
  by (simp add: progress_ok_def progress_init_def phases_ok_def)

lemma progress_run_ok: "1 \<le> pg_max_threads c \<Longrightarrow> progress_ok c s \<Longrightarrow> progress_ok c (progress_run c ops s)"
  unfolding progress_run_def by (induction ops arbitrary: s) (simp_all add: progress_step_ok)

section \<open>A tool that keeps failing\<close>

definition unrecoverable_error :: "tool_outcome \<Rightarrow> bool" where
  "unrecoverable_error r =
     (case meta_of r of
        None \<Rightarrow> False
      | Some mt \<Rightarrow> mt_status mt = PStr ''error'' \<and> \<not> truthy (mt_recoverable mt))"

text \<open>Calls of one tool in a row: which of them reach the tool, and what the model is answered.\<close>

fun tool_calls :: "progress_cfg \<Rightarrow> tool_request \<Rightarrow> tool_outcome list \<Rightarrow> progress_state \<Rightarrow>
    (bool \<times> tool_outcome) list \<times> progress_state" where
  "tool_calls c rq [] s = ([], s)"
| "tool_calls c rq (r # rs) s =
     (let (called, out, s1) = wrap_tool_call c rq r s; (outs, s2) = tool_calls c rq rs s1
      in ((called, out) # outs, s2))"

definition calls_left :: "progress_cfg \<Rightarrow> tool_state \<Rightarrow> nat" where
  "calls_left c st =
     (if ts_phase st = BlockedPhase then 0 else max 1 (pg_threshold c + pg_escalation c - ts_problems st))"

lemma unrecoverable_progress:
  assumes "mt_status mt = PStr ''error''" and "\<not> truthy (mt_recoverable mt)" and "ts_phase st \<noteq> BlockedPhase"
  shows "calls_left c (fst (assess_and_transition c st mt content)) < calls_left c st"
  using assms by (auto simp: assess_and_transition_def is_problem_def calls_left_def Let_def)

lemma blocked_reason_at:
  assumes "progress_ok c s"
  shows "ts_phase (tool_at t n s) = BlockedPhase \<Longrightarrow> \<exists>why. get_block_reason t n s = Some why \<and> why \<noteq> ''''"
    and "ts_phase (tool_at t n s) \<noteq> BlockedPhase \<Longrightarrow> get_block_reason t n s = None"
proof -
  have ok: "tool_ok (tool_at t n s)"
    using phases_ok_lookup [of "pr_phases s" t] assms fresh_ok
    by (auto simp: tool_at_def progress_ok_def od_get_default_def [of _ n] tools_ok_def
        split: option.split dest!: map_of_SomeD)
  have eq: "get_block_reason t n s
      = (if ts_phase (tool_at t n s) = BlockedPhase then ts_reason (tool_at t n s) else None)"
    by (auto simp: get_block_reason_def tool_at_def od_get_default_def fresh_tool_def split: option.split)
  show "ts_phase (tool_at t n s) = BlockedPhase \<Longrightarrow> \<exists>why. get_block_reason t n s = Some why \<and> why \<noteq> ''''"
    using ok eq by (auto simp: tool_ok_def)
  show "ts_phase (tool_at t n s) \<noteq> BlockedPhase \<Longrightarrow> get_block_reason t n s = None"
    using eq by simp
qed

definition guarded :: "progress_cfg \<Rightarrow> tool_request \<Rightarrow> bool" where
  "guarded c rq \<longleftrightarrow> tq_name rq \<noteq> '''' \<and> tq_name rq \<notin> set (pg_exempt c) \<and> tq_key rq \<noteq> None"

definition is_blocked_reply :: "tool_outcome \<Rightarrow> bool" where
  "is_blocked_reply r =
     (case r of
        Reply m \<Rightarrow> tp_status m = ''error'' \<and> (\<exists>why. tp_content m = PStr (''[TOOL_BLOCKED] '' @ why))
      | Command _ \<Rightarrow> False)"

lemma failing_calls:
  assumes "progress_ok c s" and "1 \<le> pg_max_threads c" and "guarded c rq" and "tq_key rq = Some k"
    and "\<forall>r \<in> set rs. unrecoverable_error r" and "tool_calls c rq rs s = (outs, s')"
  shows "\<exists>m \<le> min (calls_left c (tool_at (fst k) (tq_name rq) s)) (length rs).
      outs = map (Pair True) (take m rs) @ drop m outs
      \<and> (\<forall>(called, out) \<in> set (drop m outs). \<not> called \<and> is_blocked_reply out) \<and> length outs = length rs"
  using assms
proof (induction rs arbitrary: s outs)
  case (Cons r rs)
  let ?st = "tool_at (fst k) (tq_name rq) s"
  obtain called out s1 where w: "wrap_tool_call c rq r s = (called, out, s1)" by (metis surj_pair)
  obtain outs1 where t: "tool_calls c rq rs s1 = (outs1, s')" "outs = (called, out) # outs1"
    using Cons.prems(6) w by (auto split: prod.splits)
  show ?case
  proof (cases "ts_phase ?st = BlockedPhase")
    case True
    obtain why where why: "get_block_reason (fst k) (tq_name rq) s = Some why" "why \<noteq> ''''"
      using blocked_reason_at(1) [OF Cons.prems(1) True] by blast
    then have now: "\<not> called" "is_blocked_reply out" "s1 = s"
      using w Cons.prems(3,4)
      by (auto simp: wrap_tool_call_def intercepted_def guarded_def is_blocked_reply_def make_blocked_message_def)
    have left: "calls_left c ?st = 0" using True by (simp add: calls_left_def)
    from Cons.IH [OF Cons.prems(1-4) _ t(1) [unfolded now(3)]] Cons.prems(5) left
    have "(\<forall>(called, out) \<in> set outs1. \<not> called \<and> is_blocked_reply out) \<and> length outs1 = length rs" by simp
    with now t(2) show ?thesis by (intro exI [of _ 0]) auto
  next
    case False
    have now: "called" "out = r" "s1 = update_from_result c k (tq_name rq) r s"
      using w Cons.prems(3,4) blocked_reason_at(2) [OF Cons.prems(1) False]
      by (auto simp: wrap_tool_call_def intercepted_def guarded_def)
    obtain mt where mt: "meta_of r = Some mt" "mt_status mt = PStr ''error''" "\<not> truthy (mt_recoverable mt)"
      using Cons.prems(5) by (auto simp: unrecoverable_error_def split: option.splits)
    then obtain m where m: "r = Reply m" by (cases r) (simp_all add: meta_of_def)
    have less: "calls_left c (tool_at (fst k) (tq_name rq) s1) < calls_left c ?st"
      unfolding now(3) update_from_result_effect(2) [OF Cons.prems(1,2) m mt(1)]
      by (rule unrecoverable_progress [OF mt(2,3) False])
    have ok1: "progress_ok c s1" unfolding now(3) by (rule update_from_result_effect(1) [OF Cons.prems(1,2)])
    from Cons.IH [OF ok1 Cons.prems(2-4) _ t(1)] Cons.prems(5) obtain j where
      j: "j \<le> min (calls_left c (tool_at (fst k) (tq_name rq) s1)) (length rs)"
      "outs1 = map (Pair True) (take j rs) @ drop j outs1"
      "\<forall>(called, out) \<in> set (drop j outs1). \<not> called \<and> is_blocked_reply out" "length outs1 = length rs" by auto
    with less now t(2) show ?thesis by (intro exI [of _ "Suc j"]) auto
  qed
qed simp

section \<open>Properties\<close>

text \<open>After any results, hint requests and run starts of any threads and runs, at most
  \<open>max_tracked_threads\<close> threads are tracked, every run with queued hints belongs to a tracked thread
  and has at most three, and every blocked tool has a non-empty reason, so that its calls really are
  intercepted.\<close>

lemma progress_state_bounded:
  assumes "1 \<le> pg_max_threads c" and "s = progress_run c ops progress_init"
  shows "length (pr_phases s) \<le> pg_max_threads c
    \<and> (\<forall>(k, q) \<in> set (pr_pending s). fst k \<in> fst ` set (pr_phases s) \<and> length q \<le> 3)
    \<and> (\<forall>t n. ts_phase (tool_at t n s) = BlockedPhase \<longrightarrow>
         (\<exists>why. get_block_reason t n s = Some why \<and> why \<noteq> ''''))"
proof -
  have ok: "progress_ok c s" unfolding assms(2) by (rule progress_run_ok [OF assms(1) progress_init_ok])
  then show ?thesis
    using blocked_reason_at(1) [OF ok] by (auto simp: progress_ok_def max_pending_hints_def)
qed

definition demo_progress_cfg :: progress_cfg where
  "demo_progress_cfg = \<lparr>pg_threshold = 1, pg_escalation = 1, pg_inject = True, pg_jaccard = 4/5, pg_min_words = 10,
     pg_exempt = [''task''], pg_max_threads = 1\<rparr>"

definition demo_failure :: tool_outcome where
  "demo_failure = Reply \<lparr>tp_content = PStr ''Error: timed out'', tp_status = ''error'',
     tp_kwargs = [(tool_meta_key, make_meta ''error'' ''tool_return'' (PStr ''transient'') False ''try_alternative'')],
     tp_name = ''web'', tp_call_id = ''1''\<rparr>"

text \<open>C17. A tool that keeps failing is cut off: in any reachable state, of any number of calls in a row
  of a guarded tool that all fail with an unrecoverable error, at most \<open>stagnation_threshold +
  warn_escalation_count\<close> reach the tool; they are the first ones, their results are passed on, and
  all later calls are answered by a blocked-tool error.\<close>

theorem failing_tool_is_blocked:
  assumes "1 \<le> pg_max_threads c" and "1 \<le> pg_threshold c + pg_escalation c" and "guarded c rq"
    and "\<forall>r \<in> set rs. unrecoverable_error r"
    and "tool_calls c rq rs (progress_run c ops progress_init) = (outs, s')"
  shows "\<exists>m \<le> pg_threshold c + pg_escalation c. outs = map (Pair True) (take m rs) @ drop m outs
      \<and> (\<forall>(called, out) \<in> set (drop m outs). \<not> called \<and> is_blocked_reply out) \<and> length outs = length rs"
proof -
  let ?s = "progress_run c ops progress_init"
  obtain k where k: "tq_key rq = Some k" using assms(3) by (auto simp: guarded_def)
  have "calls_left c (tool_at (fst k) (tq_name rq) ?s) \<le> pg_threshold c + pg_escalation c"
    using assms(2) by (simp add: calls_left_def)
  with failing_calls [OF progress_run_ok [OF assms(1) progress_init_ok] assms(1,3) k assms(4,5)]
  show ?thesis by (meson le_trans min.cobounded1)
qed

definition demo_tool_request :: tool_request where
  "demo_tool_request = \<lparr>tq_name = ''web'', tq_call_id = ''1'', tq_key = Some (''a'', ''r'')\<rparr>"

lemma demo_unrecoverable: "unrecoverable_error demo_failure"
  by (simp add: unrecoverable_error_def demo_failure_def meta_of_def od_get_default_def parse_make_meta truthy_def)

theorem failing_tool_is_blocked_witness:
  "\<exists>m \<le> 2. \<forall>(called, out) \<in> set (drop m (fst (tool_calls demo_progress_cfg demo_tool_request
      (replicate 5 demo_failure) (progress_run demo_progress_cfg [] progress_init)))). \<not> called \<and> is_blocked_reply out"
proof -
  have "guarded demo_progress_cfg demo_tool_request"
    by (simp add: guarded_def demo_tool_request_def demo_progress_cfg_def)
  moreover have "\<forall>r \<in> set (replicate 5 demo_failure). unrecoverable_error r" by (simp add: demo_unrecoverable)
  moreover have "1 \<le> pg_max_threads demo_progress_cfg" "1 \<le> pg_threshold demo_progress_cfg + pg_escalation demo_progress_cfg"
    "pg_threshold demo_progress_cfg + pg_escalation demo_progress_cfg = 2"
    by (simp_all add: demo_progress_cfg_def)
  moreover obtain outs s' where run: "tool_calls demo_progress_cfg demo_tool_request (replicate 5 demo_failure)
      (progress_run demo_progress_cfg [] progress_init) = (outs, s')" by (metis surj_pair)
  ultimately have "\<exists>m \<le> 2. outs = map (Pair True) (take m (replicate 5 demo_failure)) @ drop m outs
      \<and> (\<forall>(called, out) \<in> set (drop m outs). \<not> called \<and> is_blocked_reply out)
      \<and> length outs = length (replicate 5 demo_failure)"
    using failing_tool_is_blocked [OF _ _ _ _ run] by (simp only:)
  then show ?thesis unfolding run fst_conv by blast
qed

end
