(* ===== verification/JsonlStore.thy ===== *)
theory JsonlStore
  imports EventStore "HOL-Library.Multiset"
begin

text \<open>
  \<open>JsonlRunEventStore\<close> (\<open>runtime/events/store/jsonl.py\<close>): one text file per run, one line per event,
  with the sequence counters in memory.  The file system is a dictionary of texts; file access does
  not fail, and the per-thread lock makes each operation one step.  The JSON writer and reader are
  the parameters \<open>dump\<close> and \<open>load\<close>.  On the same operations it refines the store in memory, as long
  as the written lines are read back.
\<close>

section \<open>Lines of a text\<close>

definition file_lines :: "string \<Rightarrow> string list" where
  "file_lines text_s = split_lines [] (str_strip (universal_newlines text_s))"

section \<open>State\<close>

record jsonl_store =
  js_files :: "(string \<times> (string \<times> string) list) list"
  js_counters :: "(string \<times> int) list"

definition js_init :: jsonl_store where
  "js_init = \<lparr>js_files = [], js_counters = []\<rparr>"

text \<open>A line may be malformed, an event, or JSON that is no object, on which \<open>.get\<close> raises.\<close>

datatype loaded = Malformed | Parsed run_event | Foreign

record json_codec =
  jc_dump :: "run_event \<Rightarrow> string"
  jc_load :: "string \<Rightarrow> loaded"

datatype jsonl_error = InvalidId | AttributeError

definition safe_char :: "char \<Rightarrow> bool" where
  "safe_char c \<longleftrightarrow> (let n = (of_char c :: nat) in (48 \<le> n \<and> n \<le> 57) \<or> (65 \<le> n \<and> n \<le> 90) \<or> (97 \<le> n \<and> n \<le> 122)
     \<or> n = 95 \<or> n = 45)"

text \<open>\<open>$\<close> also matches before a final line feed.\<close>

definition valid_id :: "string \<Rightarrow> bool" where
  "valid_id s \<longleftrightarrow> (let t = (if s \<noteq> [] \<and> last s = LF then butlast s else s) in t \<noteq> [] \<and> list_all safe_char t)"

definition thread_files :: "string \<Rightarrow> jsonl_store \<Rightarrow> (string \<times> string) list" where
  "thread_files tid js = od_get_default (js_files js) tid []"

definition run_text :: "string \<Rightarrow> string \<Rightarrow> jsonl_store \<Rightarrow> string" where
  "run_text tid rid js = od_get_default (thread_files tid js) rid ''''"

section \<open>Reading\<close>

text \<open>The parsed lines; \<open>None\<close> when one is JSON but no object.\<close>

fun parse_lines :: "json_codec \<Rightarrow> string list \<Rightarrow> run_event list option" where
  "parse_lines jc [] = Some []"
| "parse_lines jc (l # ls) =
     (if l = '''' then parse_lines jc ls
      else case jc_load jc l of
             Malformed \<Rightarrow> parse_lines jc ls
           | Foreign \<Rightarrow> None
           | Parsed e \<Rightarrow> map_option ((#) e) (parse_lines jc ls))"

definition read_texts :: "json_codec \<Rightarrow> string list \<Rightarrow> run_event list option" where
  "read_texts jc texts = map_option (sort_key re_seq) (parse_lines jc (concat (map file_lines texts)))"

definition compute_max_seq :: "json_codec \<Rightarrow> string \<Rightarrow> jsonl_store \<Rightarrow> int option" where
  "compute_max_seq jc tid js =
     map_option (\<lambda>es. fold (\<lambda>e m. max m (re_seq e)) es 0)
       (parse_lines jc (concat (map (\<lambda>f. file_lines (snd f)) (thread_files tid js))))"

definition read_thread_events :: "json_codec \<Rightarrow> string \<Rightarrow> jsonl_store \<Rightarrow> jsonl_error + run_event list" where
  "read_thread_events jc tid js =
     (if \<not> valid_id tid then Inl InvalidId
      else case read_texts jc (map snd (sort_key (\<lambda>f. fst f @ ''.jsonl'') (thread_files tid js))) of
             None \<Rightarrow> Inl AttributeError
           | Some es \<Rightarrow> Inr es)"

definition read_run_events :: "json_codec \<Rightarrow> string \<Rightarrow> string \<Rightarrow> jsonl_store \<Rightarrow> jsonl_error + run_event list" where
  "read_run_events jc tid rid js =
     (if \<not> valid_id rid \<or> \<not> valid_id tid then Inl InvalidId
      else case read_texts jc [run_text tid rid js] of
             None \<Rightarrow> Inl AttributeError
           | Some es \<Rightarrow> Inr es)"

definition js_list_messages :: "json_codec \<Rightarrow> string \<Rightarrow> int \<Rightarrow> int option \<Rightarrow> int option \<Rightarrow> jsonl_store \<Rightarrow>
    jsonl_error + run_event list" where
  "js_list_messages jc tid limit before_seq after_seq js =
     rbind (read_thread_events jc tid js) (\<lambda>all_events.
       let messages = filter (\<lambda>e. re_category e = ''message'') all_events
       in case before_seq of
            Some b \<Rightarrow> Inr (py_slice (Some (- limit)) None (filter (\<lambda>e. re_seq e < b) messages))
          | None \<Rightarrow>
              (case after_seq of
                 Some a \<Rightarrow> Inr (py_slice None (Some limit) (filter (\<lambda>e. re_seq e > a) messages))
               | None \<Rightarrow> Inr (py_slice (Some (- limit)) None messages)))"

definition js_list_events :: "json_codec \<Rightarrow> string \<Rightarrow> string \<Rightarrow> string list option \<Rightarrow> int \<Rightarrow> jsonl_store \<Rightarrow>
    jsonl_error + run_event list" where
  "js_list_events jc tid rid event_types limit js =
     rbind (read_run_events jc tid rid js) (\<lambda>events.
       Inr (py_slice None (Some limit)
         (case event_types of None \<Rightarrow> events | Some types \<Rightarrow> filter (\<lambda>e. re_event_type e \<in> set types) events)))"

definition js_list_messages_by_run :: "json_codec \<Rightarrow> string \<Rightarrow> string \<Rightarrow> int \<Rightarrow> int option \<Rightarrow> int option \<Rightarrow>
    jsonl_store \<Rightarrow> jsonl_error + run_event list" where
  "js_list_messages_by_run jc tid rid limit before_seq after_seq js =
     rbind (read_run_events jc tid rid js) (\<lambda>events.
       let f0 = filter (\<lambda>e. re_category e = ''message'') events;
           f1 = (case before_seq of None \<Rightarrow> f0 | Some b \<Rightarrow> filter (\<lambda>e. re_seq e < b) f0);
           f2 = (case after_seq of None \<Rightarrow> f1 | Some a \<Rightarrow> filter (\<lambda>e. re_seq e > a) f1)
       in Inr (if after_seq \<noteq> None then py_slice None (Some limit) f2
               else if int (length f2) > limit then py_slice (Some (- limit)) None f2 else f2))"

definition js_count_messages :: "json_codec \<Rightarrow> string \<Rightarrow> jsonl_store \<Rightarrow> jsonl_error + nat" where
  "js_count_messages jc tid js =
     rbind (read_thread_events jc tid js) (\<lambda>es. Inr (length (filter (\<lambda>e. re_category e = ''message'') es)))"

section \<open>Writing\<close>

definition ensure_seq_loaded :: "json_codec \<Rightarrow> string \<Rightarrow> jsonl_store \<Rightarrow> jsonl_error + jsonl_store" where
  "ensure_seq_loaded jc tid js =
     (if tid \<in> fst ` set (js_counters js) then Inr js
      else if \<not> valid_id tid then Inl InvalidId
      else case compute_max_seq jc tid js of
             None \<Rightarrow> Inl AttributeError
           | Some m \<Rightarrow> Inr (js\<lparr>js_counters := od_set tid m (js_counters js)\<rparr>))"

definition write_record :: "json_codec \<Rightarrow> run_event \<Rightarrow> jsonl_store \<Rightarrow> jsonl_store" where
  "write_record jc e js =
     (let tid = re_thread_id e; rid = re_run_id e
      in js\<lparr>js_files := od_set tid (od_set rid (run_text tid rid js @ jc_dump jc e @ [LF]) (thread_files tid js))
             (js_files js)\<rparr>)"

text \<open>The sequence number is taken before the run id is checked.\<close>

definition js_put :: "json_codec \<Rightarrow> string \<Rightarrow> put_args \<Rightarrow> jsonl_store \<Rightarrow> (jsonl_error + run_event) \<times> jsonl_store" where
  "js_put jc now_iso a js =
     (let tid = pa_thread_id a; rid = pa_run_id a
      in case ensure_seq_loaded jc tid js of
           Inl e \<Rightarrow> (Inl e, js)
         | Inr js1 \<Rightarrow>
             (let seq = od_get_default (js_counters js1) tid 0 + 1;
                  js2 = js1\<lparr>js_counters := od_set tid seq (js_counters js1)\<rparr>;
                  rec = \<lparr>re_thread_id = tid, re_run_id = rid, re_event_type = pa_event_type a,
                         re_category = pa_category a, re_content = pa_content a,
                         re_metadata = (case pa_metadata a of None \<Rightarrow> [] | Some m \<Rightarrow> m),
                         re_seq = seq,
                         re_created_at = (case pa_created_at a of None \<Rightarrow> now_iso
                                          | Some c \<Rightarrow> if c = '''' then now_iso else c)\<rparr>
              in if valid_id rid \<and> valid_id tid then (Inr rec, write_record jc rec js2) else (Inl InvalidId, js2)))"

fun js_put_batch :: "json_codec \<Rightarrow> (string \<times> put_args) list \<Rightarrow> jsonl_store \<Rightarrow>
    (jsonl_error + run_event list) \<times> jsonl_store" where
  "js_put_batch jc [] js = (Inr [], js)"
| "js_put_batch jc ((now_iso, a) # evs) js =
     (case js_put jc now_iso a js of
        (Inl e, js1) \<Rightarrow> (Inl e, js1)
      | (Inr r, js1) \<Rightarrow>
          (case js_put_batch jc evs js1 of
             (Inl e, js2) \<Rightarrow> (Inl e, js2)
           | (Inr rs, js2) \<Rightarrow> (Inr (r # rs), js2)))"

definition js_delete_by_thread :: "json_codec \<Rightarrow> string \<Rightarrow> jsonl_store \<Rightarrow> (jsonl_error + nat) \<times> jsonl_store" where
  "js_delete_by_thread jc tid js =
     (case read_thread_events jc tid js of
        Inl e \<Rightarrow> (Inl e, js)
      | Inr es \<Rightarrow> (Inr (length es), js\<lparr>js_files := od_pop tid (js_files js), js_counters := od_pop tid (js_counters js)\<rparr>))"

definition js_delete_by_run :: "json_codec \<Rightarrow> string \<Rightarrow> string \<Rightarrow> jsonl_store \<Rightarrow> (jsonl_error + nat) \<times> jsonl_store" where
  "js_delete_by_run jc tid rid js =
     (case read_run_events jc tid rid js of
        Inl e \<Rightarrow> (Inl e, js)
      | Inr es \<Rightarrow> (Inr (length es), js\<lparr>js_files := od_set tid (od_pop rid (thread_files tid js)) (js_files js)\<rparr>))"

text \<open>A new process on the same directory.\<close>

definition js_restart :: "jsonl_store \<Rightarrow> jsonl_store" where
  "js_restart js = js\<lparr>js_counters := []\<rparr>"

section \<open>Written lines are read back\<close>

definition line_safe :: "json_codec \<Rightarrow> run_event \<Rightarrow> bool" where
  "line_safe jc e \<longleftrightarrow> jc_load jc (jc_dump jc e) = Parsed e \<and> jc_dump jc e \<noteq> ''''
     \<and> \<not> is_space (hd (jc_dump jc e)) \<and> \<not> is_space (last (jc_dump jc e))
     \<and> list_all (\<lambda>c. \<not> is_line_end c) (jc_dump jc e)"

definition line_of :: "json_codec \<Rightarrow> run_event \<Rightarrow> string" where
  "line_of jc e = jc_dump jc e @ [LF]"

definition clean_line :: "string \<Rightarrow> bool" where
  "clean_line l \<longleftrightarrow> l \<noteq> '''' \<and> \<not> is_space (hd l) \<and> \<not> is_space (last l) \<and> list_all (\<lambda>c. \<not> is_line_end c) l"

lemma split_lines_clean: "list_all (\<lambda>c. \<not> is_line_end c) l \<Longrightarrow> split_lines acc (l @ s) = split_lines (rev l @ acc) s"
  by (induction l arbitrary: acc) auto

lemma LF_ends: "is_line_end LF" "is_space LF" "LF \<noteq> CR" "is_line_end CR"
  by (simp_all add: is_line_end_def LF_def CR_def is_space_def)

lemma split_lines_join:
  "\<forall>l \<in> set ls. clean_line l \<Longrightarrow> split_lines [] (join_with [LF] ls) = ls"
  by (induction "[LF]" ls rule: join_with.induct)
    (auto simp: clean_line_def split_lines_clean split_lines_clean [where s = "[]", simplified] LF_ends)

lemma join_ends:
  "\<forall>l \<in> set ls. clean_line l \<Longrightarrow> ls \<noteq> [] \<Longrightarrow> join_with [LF] ls \<noteq> [] \<and> \<not> is_space (hd (join_with [LF] ls))
     \<and> \<not> is_space (last (join_with [LF] ls))"
  by (induction "[LF]" ls rule: join_with.induct) (auto simp: clean_line_def)

lemma concat_lines: "ls \<noteq> [] \<Longrightarrow> concat (map (\<lambda>l. l @ [LF]) ls) = join_with [LF] ls @ [LF]"
  by (induction "[LF]" ls rule: join_with.induct) auto

lemma strip_trailing_LF:
  assumes "u \<noteq> []" and "\<not> is_space (hd u)" and "\<not> is_space (last u)"
  shows "str_strip (u @ [LF]) = u"
proof -
  have "dropWhile is_space (u @ [LF]) = u @ [LF]" using assms(1,2) by (cases u) simp_all
  moreover have "dropWhile is_space (rev u) = rev u" using assms(1,3) by (cases u rule: rev_cases) simp_all
  ultimately show ?thesis by (simp add: str_strip_def LF_ends)
qed

lemma file_lines_lines:
  assumes "\<forall>l \<in> set ls. clean_line l"
  shows "file_lines (concat (map (\<lambda>l. l @ [LF]) ls)) = ls"
proof (cases "ls = []")
  case True
  then show ?thesis by (simp add: file_lines_def str_strip_def)
next
  case False
  have "CR \<notin> set (concat (map (\<lambda>l. l @ [LF]) ls))"
    using assms LF_ends by (auto simp: clean_line_def list_all_iff)
  then have "universal_newlines (concat (map (\<lambda>l. l @ [LF]) ls)) = join_with [LF] ls @ [LF]"
    by (simp add: universal_newlines_id concat_lines [OF False])
  then show ?thesis
    using join_ends [OF assms False] split_lines_join [OF assms]
    by (simp add: file_lines_def strip_trailing_LF)
qed

lemma line_safe_clean: "line_safe jc e \<Longrightarrow> clean_line (jc_dump jc e)"
  by (simp add: line_safe_def clean_line_def)

lemma file_lines_events:
  assumes "\<forall>e \<in> set es. line_safe jc e"
  shows "file_lines (concat (map (line_of jc) es)) = map (jc_dump jc) es"
  using file_lines_lines [of "map (jc_dump jc) es"] assms line_safe_clean
  by (simp add: line_of_def [abs_def] comp_def)

lemma parse_lines_events: "\<forall>e \<in> set es. line_safe jc e \<Longrightarrow> parse_lines jc (map (jc_dump jc) es) = Some es"
  by (induction es) (simp_all add: line_safe_def)

section \<open>Refinement\<close>

definition run_part :: "event_store \<Rightarrow> string \<Rightarrow> string \<Rightarrow> run_event list" where
  "run_part ms t r = filter (\<lambda>e. re_run_id e = r) (thread_log ms t)"

definition js_refines :: "json_codec \<Rightarrow> jsonl_store \<Rightarrow> event_store \<Rightarrow> bool" where
  "js_refines jc js ms \<longleftrightarrow> es_ok ms \<and> (\<forall>t. od_ok (thread_files t js))
     \<and> (\<forall>t r. run_text t r js = concat (map (line_of jc) (run_part ms t r)))
     \<and> (\<forall>t. \<forall>e \<in> set (thread_log ms t). line_safe jc e)
     \<and> (\<forall>t. od_get_default (js_counters js) t 0 = last_seq ms t)"

lemma mset_run_parts:
  "distinct rs \<Longrightarrow> mset (concat (map (\<lambda>r. filter (\<lambda>e. re_run_id e = r) lg) rs)) = mset (filter (\<lambda>e. re_run_id e \<in> set rs) lg)"
proof (induction rs)
  case (Cons r rs)
  have "mset (filter (\<lambda>e. re_run_id e \<in> set (r # rs)) lg)
      = mset (filter (\<lambda>e. re_run_id e = r) lg) + mset (filter (\<lambda>e. re_run_id e \<in> set rs) lg)"
    using Cons.prems by (induction lg) auto
  with Cons show ?case by simp
qed simp

lemma parse_lines_append:
  "parse_lines jc (xs @ ys) = Option.bind (parse_lines jc xs) (\<lambda>a. map_option (\<lambda>b. a @ b) (parse_lines jc ys))"
proof (induction xs)
  case Nil
  then show ?case by (cases "parse_lines jc ys") simp_all
next
  case (Cons x xs)
  then show ?case
    by (cases "parse_lines jc xs"; cases "parse_lines jc ys") (auto split: loaded.split)
qed

lemma concat_parse:
  assumes "\<forall>(r, x) \<in> set fs. parse_lines jc (file_lines x) = Some (f r)"
  shows "parse_lines jc (concat (map (\<lambda>x. file_lines (snd x)) fs)) = Some (concat (map (\<lambda>x. f (fst x)) fs))"
  using assms by (induction fs) (auto simp: parse_lines_append)

lemma refined_files:
  assumes "js_refines jc js ms"
  shows "\<forall>(r, x) \<in> set (thread_files t js). x = concat (map (line_of jc) (run_part ms t r))"
    and "\<forall>r. \<forall>e \<in> set (run_part ms t r). line_safe jc e"
    and "\<forall>e \<in> set (thread_log ms t). re_run_id e \<in> fst ` set (thread_files t js)"
proof -
  have od: "od_ok (thread_files t js)"
    and texts: "\<And>r. run_text t r js = concat (map (line_of jc) (run_part ms t r))"
    using assms by (simp_all add: js_refines_def)
  show "\<forall>(r, x) \<in> set (thread_files t js). x = concat (map (line_of jc) (run_part ms t r))"
    using od texts by (auto simp: run_text_def od_get_default_def map_of_eq_Some_iff [OF od] split: option.splits)
      (metis map_of_eq_Some_iff od option.simps(5))
  show "\<forall>r. \<forall>e \<in> set (run_part ms t r). line_safe jc e"
    using assms by (auto simp: js_refines_def run_part_def)
  show "\<forall>e \<in> set (thread_log ms t). re_run_id e \<in> fst ` set (thread_files t js)"
  proof
    fix e assume "e \<in> set (thread_log ms t)"
    then have "e \<in> set (run_part ms t (re_run_id e))" by (simp add: run_part_def)
    then have "run_text t (re_run_id e) js \<noteq> ''''"
      unfolding texts by (auto simp: line_of_def)
    then show "re_run_id e \<in> fst ` set (thread_files t js)"
      by (auto simp: run_text_def od_get_default_def split: option.splits dest!: map_of_SomeD) force
  qed
qed

lemma refined_parse:
  assumes "js_refines jc js ms"
  shows "\<forall>(r, x) \<in> set (thread_files t js). parse_lines jc (file_lines x) = Some (run_part ms t r)"
  using refined_files(1) [OF assms, of t] refined_files(2) [OF assms, of t]
  by (auto simp: file_lines_events parse_lines_events)

text \<open>A thread whose files parse to the parts of its log reads as its log.\<close>

lemma parsed_thread_read:
  assumes ok: "es_ok ms" and od: "od_ok (thread_files t js)" and id: "valid_id t"
    and parts: "\<forall>(r, x) \<in> set (thread_files t js). parse_lines jc (file_lines x) = Some (run_part ms t r)"
    and runs: "\<forall>e \<in> set (thread_log ms t). re_run_id e \<in> fst ` set (thread_files t js)"
  shows "read_thread_events jc t js = Inr (thread_log ms t)"
proof -
  let ?fs = "sort_key (\<lambda>f. fst f @ ''.jsonl'') (thread_files t js)"
  have keys: "mset (map fst ?fs) = mset (map fst (thread_files t js))" by simp
  then have dist: "distinct (map fst ?fs)" using od by (metis distinct_count_atmost_1 mset_eq_imp_distinct_iff)
  have parse: "parse_lines jc (concat (map file_lines (map snd ?fs)))
      = Some (concat (map (\<lambda>r. run_part ms t r) (map fst ?fs)))"
    using concat_parse [of ?fs jc "run_part ms t"] parts by (simp add: comp_def)
  have "mset (concat (map (\<lambda>r. run_part ms t r) (map fst ?fs))) = mset (thread_log ms t)"
  proof -
    have "filter (\<lambda>e. re_run_id e \<in> set (map fst ?fs)) (thread_log ms t) = thread_log ms t"
      using runs by (intro filter_True) simp
    with mset_run_parts [OF dist, of "thread_log ms t"] show ?thesis by (simp add: run_part_def del: mset_filter)
  qed
  moreover have "sorted_wrt (<) (map re_seq (thread_log ms t))"
    using ok by (simp add: es_ok_def log_ok_def)
  then have "sorted (map re_seq (thread_log ms t))" "inj_on re_seq (set (thread_log ms t))"
    using strict_sorted_iff [of "map re_seq (thread_log ms t)"] by (simp_all add: distinct_map)
  ultimately have "sort_key re_seq (concat (map (\<lambda>r. run_part ms t r) (map fst ?fs))) = thread_log ms t"
    by (metis set_mset_mset sort_key_inj_key_eq)
  with parse id show ?thesis by (simp add: read_thread_events_def read_texts_def)
qed

lemma refined_thread_read:
  assumes "js_refines jc js ms" and "valid_id t"
  shows "read_thread_events jc t js = Inr (thread_log ms t)"
  using assms refined_parse [OF assms(1)] refined_files(3) [OF assms(1)]
  by (intro parsed_thread_read) (simp_all add: js_refines_def)

lemma refined_run_read:
  assumes "js_refines jc js ms" and "valid_id t" and "valid_id r"
  shows "read_run_events jc t r js = Inr (run_part ms t r)"
proof -
  have safe: "\<forall>e \<in> set (run_part ms t r). line_safe jc e" using refined_files(2) [OF assms(1)] by blast
  have "sorted_wrt (<) (map re_seq (run_part ms t r))"
    using assms(1) by (simp add: js_refines_def es_ok_def log_ok_def run_part_def sorted_wrt_map sorted_wrt_filter)
  then have "sort_key re_seq (run_part ms t r) = run_part ms t r"
    by (simp add: strict_sorted_iff sort_key_id_if_sorted)
  with assms safe show ?thesis
    by (simp add: read_run_events_def read_texts_def js_refines_def file_lines_events parse_lines_events)
qed

section \<open>Histories\<close>

datatype store_reply = Events "run_event list" | Count nat

fun reply_events :: "store_reply \<Rightarrow> run_event list" where
  "reply_events (Events es) = es"
| "reply_events (Count n) = []"

fun es_reply :: "es_op \<Rightarrow> event_store \<Rightarrow> store_reply" where
  "es_reply (OpPut now_iso a) s = Events [fst (es_put now_iso a s)]"
| "es_reply (OpPutBatch evs) s = Events (fst (es_put_batch evs s))"
| "es_reply (OpDeleteThread tid) s = Count (fst (delete_by_thread tid s))"
| "es_reply (OpDeleteRun tid rid) s = Count (fst (delete_by_run tid rid s))"

fun js_apply :: "json_codec \<Rightarrow> es_op \<Rightarrow> jsonl_store \<Rightarrow> (jsonl_error + store_reply) \<times> jsonl_store" where
  "js_apply jc (OpPut now_iso a) js = (case js_put jc now_iso a js of (r, js') \<Rightarrow> (rbind r (\<lambda>e. Inr (Events [e])), js'))"
| "js_apply jc (OpPutBatch evs) js = (case js_put_batch jc evs js of (r, js') \<Rightarrow> (rbind r (\<lambda>es. Inr (Events es)), js'))"
| "js_apply jc (OpDeleteThread tid) js = (case js_delete_by_thread jc tid js of (r, js') \<Rightarrow> (rbind r (\<lambda>n. Inr (Count n)), js'))"
| "js_apply jc (OpDeleteRun tid rid) js = (case js_delete_by_run jc tid rid js of (r, js') \<Rightarrow> (rbind r (\<lambda>n. Inr (Count n)), js'))"

fun es_replies :: "es_op list \<Rightarrow> event_store \<Rightarrow> store_reply list \<times> event_store" where
  "es_replies [] s = ([], s)"
| "es_replies (op # ops) s = (let (rs, s') = es_replies ops (es_apply op s) in (es_reply op s # rs, s'))"

fun js_replies :: "json_codec \<Rightarrow> es_op list \<Rightarrow> jsonl_store \<Rightarrow> (jsonl_error + store_reply) list \<times> jsonl_store" where
  "js_replies jc [] js = ([], js)"
| "js_replies jc (op # ops) js =
     (let (r, js1) = js_apply jc op js; (rs, js2) = js_replies jc ops js1 in (r # rs, js2))"

fun op_ids :: "es_op \<Rightarrow> string list" where
  "op_ids (OpPut now_iso a) = [pa_thread_id a, pa_run_id a]"
| "op_ids (OpPutBatch evs) = concat (map (\<lambda>(_, a). [pa_thread_id a, pa_run_id a]) evs)"
| "op_ids (OpDeleteThread tid) = [tid]"
| "op_ids (OpDeleteRun tid rid) = [tid, rid]"

lemma refined_ensure:
  assumes "js_refines jc js ms" and "valid_id t"
  shows "\<exists>js1. ensure_seq_loaded jc t js = Inr js1 \<and> js_refines jc js1 ms
    \<and> od_get_default (js_counters js1) t 0 = last_seq ms t \<and> js_files js1 = js_files js"
proof (cases "map_of (js_counters js) t")
  case (Some c)
  then have "t \<in> fst ` set (js_counters js)" by (force dest: map_of_SomeD)
  then show ?thesis
    using assms(1) by (intro exI [of _ js]) (simp add: ensure_seq_loaded_def js_refines_def)
next
  case None
  then have zero: "last_seq ms t = 0"
    using assms(1) unfolding js_refines_def by (metis od_get_default_def option.simps(4))
  have "thread_log ms t = []"
  proof -
    have "log_ok (last_seq ms t) (thread_log ms t)" using assms(1) by (simp add: js_refines_def es_ok_def)
    with zero show ?thesis by (cases "thread_log ms t") (auto simp: log_ok_def)
  qed
  then have part: "run_part ms t r = []" for r by (simp add: run_part_def)
  have "parse_lines jc (concat (map (\<lambda>x. file_lines (snd x)) (thread_files t js))) = Some []"
    using concat_parse [OF refined_parse [OF assms(1), of t]] by (simp add: part)
  then have m: "compute_max_seq jc t js = Some 0" by (simp add: compute_max_seq_def)
  let ?js = "js\<lparr>js_counters := od_set t 0 (js_counters js)\<rparr>"
  have "js_refines jc ?js ms"
    using assms(1) zero by (simp add: js_refines_def thread_files_def run_text_def od_get_default_set)
  moreover have "t \<notin> fst ` set (js_counters js)" using None by (simp only: map_of_None_iff) simp
  ultimately show ?thesis using m assms(2) zero
    by (intro exI [of _ ?js]) (simp add: ensure_seq_loaded_def od_get_default_set)
qed

lemma refined_put:
  assumes "js_refines jc js ms" and "valid_id (pa_thread_id a)" and "valid_id (pa_run_id a)"
    and "put_one now_iso a ms = (e, ms')" and "line_safe jc e"
  shows "\<exists>js'. js_put jc now_iso a js = (Inr e, js') \<and> js_refines jc js' ms'"
proof -
  let ?t = "pa_thread_id a" and ?r = "pa_run_id a"
  obtain js1 where js1: "ensure_seq_loaded jc ?t js = Inr js1" "js_refines jc js1 ms"
    "od_get_default (js_counters js1) ?t 0 = last_seq ms ?t" "js_files js1 = js_files js"
    using refined_ensure [OF assms(1,2)] by blast
  note v = put_one_views [OF assms(4)]
  let ?js2 = "js1\<lparr>js_counters := od_set ?t (last_seq ms ?t + 1) (js_counters js1)\<rparr>"
  have e: "e = \<lparr>re_thread_id = ?t, re_run_id = ?r, re_event_type = pa_event_type a,
      re_category = pa_category a, re_content = pa_content a,
      re_metadata = (case pa_metadata a of None \<Rightarrow> [] | Some m \<Rightarrow> m), re_seq = last_seq ms ?t + 1,
      re_created_at = (case pa_created_at a of None \<Rightarrow> now_iso | Some c \<Rightarrow> if c = '''' then now_iso else c)\<rparr>"
    using assms(4) by (auto simp: put_one_def next_seq_def Let_def last_seq_def)
  have put: "js_put jc now_iso a js = (Inr e, write_record jc e ?js2)"
    using js1(1,3) assms(2,3) by (simp add: js_put_def Let_def e)
  have files: "thread_files t (write_record jc e ?js2)
      = (if t = ?t then od_set ?r (run_text ?t ?r js1 @ line_of jc e) (thread_files t js1) else thread_files t js1)" for t
    using v(1,2) by (simp add: write_record_def Let_def thread_files_def run_text_def od_get_default_set line_of_def)
  have texts: "run_text t r (write_record jc e ?js2) = concat (map (line_of jc) (run_part ms' t r))" for t r
  proof -
    have "run_text t r js1 = concat (map (line_of jc) (run_part ms t r))"
      using js1(2) by (simp add: js_refines_def)
    moreover have "run_text t r (write_record jc e ?js2)
        = (if t = ?t \<and> r = ?r then run_text t r js1 @ line_of jc e else run_text t r js1)"
      by (simp add: run_text_def files od_get_default_set)
    moreover have "run_part ms' t r = (if t = ?t \<and> r = ?r then run_part ms t r @ [e] else run_part ms t r)"
      using v(2) by (simp add: run_part_def v(7))
    ultimately show ?thesis by (cases "t = ?t \<and> r = ?r") simp_all
  qed
  have "js_refines jc (write_record jc e ?js2) ms'"
    unfolding js_refines_def
  proof (intro conjI allI)
    show "es_ok ms'" using put_one_ok [OF _ assms(4)] assms(1) by (simp add: js_refines_def)
    fix t
    show "od_ok (thread_files t (write_record jc e ?js2))"
      using js1(2) by (simp add: files js_refines_def)
    show "\<forall>e \<in> set (thread_log ms' t). line_safe jc e"
      using js1(2) assms(5) by (auto simp: v(7) js_refines_def)
    show "od_get_default (js_counters (write_record jc e ?js2)) t 0 = last_seq ms' t"
      using js1(2) by (simp add: js_refines_def write_record_def Let_def v(8) od_get_default_set)
    fix r
    show "run_text t r (write_record jc e ?js2) = concat (map (line_of jc) (run_part ms' t r))" by (rule texts)
  qed
  with put show ?thesis by blast
qed

lemma refined_put_batch:
  assumes "js_refines jc js ms" and "\<forall>i \<in> set (op_ids (OpPutBatch evs)). valid_id i"
    and "es_put_batch evs ms = (es, ms')" and "\<forall>e \<in> set es. line_safe jc e"
  shows "\<exists>js'. js_put_batch jc evs js = (Inr es, js') \<and> js_refines jc js' ms'"
  using assms
proof (induction evs arbitrary: js ms es)
  case (Cons ev evs)
  obtain now_iso a where ev: "ev = (now_iso, a)" by force
  obtain e ms1 where p: "put_one now_iso a ms = (e, ms1)" by force
  obtain es1 where b: "es_put_batch evs ms1 = (es1, ms')" "es = e # es1"
    using Cons.prems(3) ev p by (auto split: prod.splits)
  obtain js1 where js1: "js_put jc now_iso a js = (Inr e, js1)" "js_refines jc js1 ms1"
    using refined_put [OF Cons.prems(1) _ _ p] Cons.prems(2,4) ev b(2) by auto
  obtain js2 where "js_put_batch jc evs js1 = (Inr es1, js2)" "js_refines jc js2 ms'"
    using Cons.IH [OF js1(2) _ b(1)] Cons.prems(2,4) b(2) by auto
  with js1(1) b(2) show ?case by (simp add: ev)
qed simp

lemma refined_delete_thread:
  assumes "js_refines jc js ms" and "valid_id t"
  shows "\<exists>js'. js_delete_by_thread jc t js = (Inr (fst (delete_by_thread t ms)), js')
    \<and> js_refines jc js' (snd (delete_by_thread t ms))"
proof -
  let ?js = "js\<lparr>js_files := od_pop t (js_files js), js_counters := od_pop t (js_counters js)\<rparr>"
  let ?ms = "snd (delete_by_thread t ms)"
  have log: "thread_log ?ms u = (if u = t then [] else thread_log ms u)"
    "last_seq ?ms u = (if u = t then 0 else last_seq ms u)" for u
    by (simp_all add: delete_by_thread_def es_views od_get_default_pop)
  have files: "thread_files u ?js = (if u = t then [] else thread_files u js)" for u
    by (simp add: thread_files_def od_get_default_pop)
  have ref: "js_refines jc js ms" by (rule assms(1))
  have "js_refines jc ?js ?ms"
    using ref delete_by_thread_ok [of ms t]
    by (auto simp: js_refines_def log files run_text_def run_part_def od_get_default_pop)
  moreover have "js_delete_by_thread jc t js = (Inr (fst (delete_by_thread t ms)), ?js)"
    using refined_thread_read [OF assms]
    by (simp add: js_delete_by_thread_def delete_by_thread_def thread_log_def)
  ultimately show ?thesis by blast
qed

lemma refined_delete_run:
  assumes "js_refines jc js ms" and "valid_id t" and "valid_id r"
  shows "\<exists>js'. js_delete_by_run jc t r js = (Inr (fst (delete_by_run t r ms)), js')
    \<and> js_refines jc js' (snd (delete_by_run t r ms))"
proof -
  let ?js = "js\<lparr>js_files := od_set t (od_pop r (thread_files t js)) (js_files js)\<rparr>"
  let ?ms = "snd (delete_by_run t r ms)"
  have ok: "es_ok ms" using assms(1) by (simp add: js_refines_def)
  note v = delete_by_run_views [OF ok, of t r]
  have files: "thread_files u ?js = (if u = t then od_pop r (thread_files t js) else thread_files u js)" for u
    by (simp add: thread_files_def od_get_default_set)
  have texts: "run_text u x ?js = (if u = t \<and> x = r then '''' else run_text u x js)" for u x
    by (simp add: run_text_def files od_get_default_pop)
  have part: "run_part ?ms u x = (if u = t \<and> x = r then [] else run_part ms u x)" for u x
    by (auto simp: run_part_def v(1) intro!: filter_cong)
  have "js_refines jc ?js ?ms"
    using assms(1) delete_by_run_ok [OF ok, of t r]
    by (auto simp: js_refines_def v(1,2) files texts part)
  moreover have "length (run_part ms t r) = fst (delete_by_run t r ms)"
  proof -
    have "length (thread_log ms t) = length (run_part ms t r) + length (filter (\<lambda>e. re_run_id e \<noteq> r) (thread_log ms t))"
      by (simp add: run_part_def sum_length_filter_compl)
    then show ?thesis by (auto simp: delete_by_run_def Let_def thread_log_def run_part_def)
  qed
  then have "js_delete_by_run jc t r js = (Inr (fst (delete_by_run t r ms)), ?js)"
    using refined_run_read [OF assms] by (simp add: js_delete_by_run_def)
  ultimately show ?thesis by blast
qed

lemma refined_step:
  assumes "js_refines jc js ms" and "\<forall>i \<in> set (op_ids op). valid_id i"
    and "\<forall>e \<in> set (reply_events (es_reply op ms)). line_safe jc e"
  shows "\<exists>js'. js_apply jc op js = (Inr (es_reply op ms), js') \<and> js_refines jc js' (es_apply op ms)"
proof (cases op)
  case (OpPut now_iso a)
  obtain e ms' where p: "put_one now_iso a ms = (e, ms')" by force
  with refined_put [OF assms(1) _ _ p] assms(2,3) OpPut show ?thesis by (auto simp: es_put_def)
next
  case (OpPutBatch evs)
  obtain es ms' where p: "es_put_batch evs ms = (es, ms')" by force
  with refined_put_batch [OF assms(1) _ p] assms(2,3) OpPutBatch show ?thesis by auto
next
  case (OpDeleteThread t)
  with refined_delete_thread [OF assms(1), of t] assms(2) show ?thesis by auto
next
  case (OpDeleteRun t r)
  with refined_delete_run [OF assms(1), of t r] assms(2) show ?thesis by auto
qed

lemma refined_history:
  assumes "js_refines jc js ms" and "\<forall>op \<in> set ops. \<forall>i \<in> set (op_ids op). valid_id i"
    and "es_replies ops ms = (rs, ms')" and "\<forall>r \<in> set rs. \<forall>e \<in> set (reply_events r). line_safe jc e"
  shows "\<exists>js'. js_replies jc ops js = (map Inr rs, js') \<and> js_refines jc js' ms'"
  using assms
proof (induction ops arbitrary: js ms rs)
  case (Cons op ops)
  obtain rs1 where rs: "es_replies ops (es_apply op ms) = (rs1, ms')" "rs = es_reply op ms # rs1"
    using Cons.prems(3) by (auto split: prod.splits)
  obtain js1 where js1: "js_apply jc op js = (Inr (es_reply op ms), js1)" "js_refines jc js1 (es_apply op ms)"
    using refined_step [OF Cons.prems(1), of op] Cons.prems(2,4) rs(2) by auto
  obtain js2 where "js_replies jc ops js1 = (map Inr rs1, js2)" "js_refines jc js2 ms'"
    using Cons.IH [OF js1(2) _ rs(1)] Cons.prems(2,4) rs(2) by auto
  with js1(1) rs(2) show ?case by simp
qed simp

lemma js_init_refines: "js_refines jc js_init es_init"
  using es_init_ok
  by (simp add: js_refines_def js_init_def es_init_def thread_files_def run_text_def run_part_def thread_log_def last_seq_def)

lemma es_replies_state: "snd (es_replies ops s) = fold es_apply ops s"
proof (induction ops arbitrary: s)
  case (Cons op ops)
  show ?case using Cons.IH [of "es_apply op s"] by (cases "es_replies ops (es_apply op s)") simp
qed simp

lemma refined_messages:
  assumes "js_refines jc js ms" and "valid_id t" and "0 < n"
  shows "js_list_messages jc t (int n) b a js = Inr (list_messages t (int n) b a ms)"
proof -
  have ok: "es_ok ms" using assms(1) by (simp add: js_refines_def)
  then have m: "messages_of ms t = filter is_message (thread_log ms t)" by (simp add: es_ok_def projections_ok_def)
  have "filter (\<lambda>e. re_category e = ''message'') (thread_log ms t) = messages_of ms t"
    unfolding m by (simp add: is_message_def [abs_def])
  with refined_thread_read [OF assms(1,2)] assms(3) list_messages_before [OF ok] list_messages_after [OF ok]
    list_messages_latest [OF assms(3)] show ?thesis
    by (simp add: js_list_messages_def Let_def py_slice_last_page py_slice_first split: option.split)
qed

lemma refined_events:
  assumes "js_refines jc js ms" and "valid_id t" and "valid_id r"
  shows "js_list_events jc t r types l js = Inr (list_events t r types l ms)"
proof -
  have "run_events_of ms t r = run_part ms t r"
    using assms(1) by (simp add: js_refines_def es_ok_def projections_ok_def run_part_def)
  with refined_run_read [OF assms] show ?thesis
    by (simp add: js_list_events_def list_events_def run_events_of_def Let_def)
qed

lemma refined_run_messages:
  assumes "js_refines jc js ms" and "valid_id t" and "valid_id r" and "0 < n"
  shows "js_list_messages_by_run jc t r (int n) b a js = Inr (list_messages_by_run t r (int n) b a ms)"
proof -
  have ok: "es_ok ms" using assms(1) by (simp add: js_refines_def)
  then have "run_messages_of ms t r = filter (\<lambda>e. re_category e = ''message'') (run_part ms t r)"
    by (simp add: es_ok_def projections_ok_def run_part_def is_message_def conj_commute)
  moreover have "filter (\<lambda>e. x < re_seq e) (filter (\<lambda>e. re_seq e < y) es) = filter (\<lambda>e. x < re_seq e \<and> re_seq e < y) es"
    for x y es by (simp add: conj_commute)
  moreover have "int (length xs) \<le> int n \<Longrightarrow> last_page n xs = xs" for xs :: "run_event list"
    by (simp add: last_page_def)
  ultimately show ?thesis
    using refined_run_read [OF assms(1-3)]
    by (auto simp: js_list_messages_by_run_def list_messages_by_run_window [OF ok assms(4)] Let_def
        py_slice_last_page [OF assms(4)] py_slice_first conj_ac split: option.split)
qed

lemma refined_count:
  assumes "js_refines jc js ms" and "valid_id t"
  shows "js_count_messages jc t js = Inr (count_messages t ms)"
proof -
  have "messages_of ms t = filter is_message (thread_log ms t)"
    using assms(1) by (simp add: js_refines_def es_ok_def projections_ok_def)
  with refined_thread_read [OF assms] show ?thesis
    by (simp add: js_count_messages_def count_messages_def messages_of_def is_message_def [abs_def])
qed

lemma jsonl_reached:
  assumes "\<forall>op \<in> set ops. \<forall>i \<in> set (op_ids op). valid_id i"
    and "\<forall>r \<in> set (fst (es_replies ops es_init)). \<forall>e \<in> set (reply_events r). line_safe jc e"
    and "js_replies jc ops js_init = (replies, js)"
  shows "js_refines jc js (es_run ops)"
proof -
  obtain rs ms where rs: "es_replies ops es_init = (rs, ms)" by force
  then have ms: "ms = es_run ops" using es_replies_state [of ops es_init] by (simp add: es_run_def)
  show ?thesis
    using refined_history [OF js_init_refines [of jc] assms(1) rs] assms(2,3) unfolding rs fst_conv ms by auto
qed

section \<open>Records with a line boundary\<close>

lemma split_lines_lines:
  "\<forall>l \<in> set ls. clean_line l \<Longrightarrow> split_lines [] (concat (map (\<lambda>l. l @ [LF]) ls) @ s) = ls @ split_lines [] s"
  by (induction ls) (auto simp: clean_line_def split_lines_clean LF_ends)

lemma file_lines_boundary:
  assumes "\<forall>l \<in> set ls. clean_line l" and "clean_line u" and "clean_line v"
  shows "file_lines (concat (map (\<lambda>l. l @ [LF]) ls) @ u @ CHR 0x85 # v @ [LF]) = ls @ [u, v]"
proof -
  let ?w = "concat (map (\<lambda>l. l @ [LF]) ls) @ u @ CHR 0x85 # v"
  have nel: "is_line_end (CHR 0x85)" "CHR 0x85 \<noteq> CR" by (simp_all add: is_line_end_def CR_def)
  have "CR \<notin> set (?w @ [LF])"
    using assms LF_ends nel by (auto simp: clean_line_def list_all_iff)
  moreover have "?w \<noteq> []" "\<not> is_space (hd ?w)" "\<not> is_space (last ?w)"
    using assms by (cases ls; auto simp: clean_line_def)+
  then have "str_strip (?w @ [LF]) = ?w"
    by (rule strip_trailing_LF)
  moreover have "split_lines [] ?w = ls @ [u, v]"
    using assms nel split_lines_lines [OF assms(1)] split_lines_clean [of u "[]"] split_lines_clean [of v "[]" "[]"]
    by (simp add: clean_line_def)
  ultimately show ?thesis
    using universal_newlines_id [of "?w @ [LF]"] by (simp add: file_lines_def)
qed

lemma fold_max_le: "\<forall>e \<in> set es. re_seq e \<le> b \<Longrightarrow> a \<le> b \<Longrightarrow> fold (\<lambda>e m. max m (re_seq e)) es a \<le> b"
  by (induction es arbitrary: a) auto

text \<open>A record that the reader cuts in two leaves the files as if it had not been written, but for its number.\<close>

lemma cut_record_parts:
  assumes "js_refines jc js ms" and "js_put jc now_iso a js = (Inr e, js')"
    and "valid_id (pa_thread_id a)" and "valid_id (pa_run_id a)"
    and "jc_dump jc e = u @ CHR 0x85 # v" and "clean_line u" and "clean_line v"
    and "jc_load jc u = Malformed" and "jc_load jc v = Malformed"
  shows "re_seq e = last_seq ms (pa_thread_id a) + 1" "od_ok (thread_files (pa_thread_id a) js')"
    and "\<forall>(r, x) \<in> set (thread_files (pa_thread_id a) js'). parse_lines jc (file_lines x) = Some (run_part ms (pa_thread_id a) r)"
    and "fst ` set (thread_files (pa_thread_id a) js) \<subseteq> fst ` set (thread_files (pa_thread_id a) js')"
proof -
  let ?t = "pa_thread_id a" and ?r = "pa_run_id a"
  obtain js1 where js1: "ensure_seq_loaded jc ?t js = Inr js1" "js_refines jc js1 ms"
    "od_get_default (js_counters js1) ?t 0 = last_seq ms ?t" "js_files js1 = js_files js"
    using refined_ensure [OF assms(1,3)] by blast
  let ?js2 = "js1\<lparr>js_counters := od_set ?t (last_seq ms ?t + 1) (js_counters js1)\<rparr>"
  have put: "re_seq e = last_seq ms ?t + 1" "re_thread_id e = ?t" "re_run_id e = ?r" "js' = write_record jc e ?js2"
    using assms(2) js1(1,3) assms(3,4) by (auto simp: js_put_def Let_def)
  show "re_seq e = last_seq ms ?t + 1" by (rule put(1))
  have same: "thread_files ?t js1 = thread_files ?t js" by (simp add: thread_files_def js1(4))
  let ?x = "run_text ?t ?r js1 @ u @ CHR 0x85 # v @ [LF]"
  have files: "thread_files ?t js' = od_set ?r ?x (thread_files ?t js)"
    by (simp add: put write_record_def Let_def thread_files_def run_text_def od_get_default_set assms(5) js1(4))
  have od: "od_ok (thread_files ?t js)" using assms(1) by (simp add: js_refines_def)
  then show od': "od_ok (thread_files ?t js')" by (simp add: files)
  show "fst ` set (thread_files ?t js) \<subseteq> fst ` set (thread_files ?t js')"
    by (auto simp: files)
  let ?ls = "map (jc_dump jc) (run_part ms ?t ?r)"
  have safe: "\<forall>e \<in> set (run_part ms ?t ?r). line_safe jc e"
    using refined_files(2) [OF assms(1)] by blast
  have "run_text ?t ?r js1 = concat (map (\<lambda>l. l @ [LF]) ?ls)"
    using js1(2) by (simp add: js_refines_def line_of_def [abs_def] comp_def)
  moreover have "\<forall>l \<in> set ?ls. clean_line l"
    using safe line_safe_clean by auto
  ultimately have "file_lines ?x = ?ls @ [u, v]"
    using file_lines_boundary [OF _ assms(6,7), of ?ls] by simp
  moreover have "u \<noteq> ''''" "v \<noteq> ''''"
    using assms(6,7) by (simp_all add: clean_line_def)
  ultimately have new: "parse_lines jc (file_lines ?x) = Some (run_part ms ?t ?r)"
    using parse_lines_events [OF safe] assms(8,9) by (simp add: parse_lines_append)
  show "\<forall>(r, x) \<in> set (thread_files ?t js'). parse_lines jc (file_lines x) = Some (run_part ms ?t r)"
  proof clarify
    fix r x assume "(r, x) \<in> set (thread_files ?t js')"
    then have "map_of (thread_files ?t js') r = Some x"
      by (simp add: map_of_eq_Some_iff [OF od'])
    then have "if r = ?r then x = ?x else (r, x) \<in> set (thread_files ?t js)"
      by (auto simp: files split: if_splits dest: map_of_SomeD)
    then show "parse_lines jc (file_lines x) = Some (run_part ms ?t r)"
      using new refined_parse [OF assms(1), of ?t] by (auto split: if_splits)
  qed
qed

section \<open>Properties\<close>

text \<open>C18. The file store refines the store in memory: on any history of puts, batches and deletions with
  acceptable ids whose events survive the line format, it gives the same replies, and afterwards
  every read of a thread or of a run (pages with a positive limit) returns what the store in memory
  returns.\<close>

theorem jsonl_refines_memory:
  assumes "\<forall>op \<in> set ops. \<forall>i \<in> set (op_ids op). valid_id i"
    and "\<forall>r \<in> set (fst (es_replies ops es_init)). \<forall>e \<in> set (reply_events r). line_safe jc e"
  shows "\<exists>js. js_replies jc ops js_init = (map Inr (fst (es_replies ops es_init)), js)
    \<and> (\<forall>t n b a. valid_id t \<and> 0 < n \<longrightarrow>
         js_list_messages jc t (int n) b a js = Inr (list_messages t (int n) b a (es_run ops)))
    \<and> (\<forall>t r types l. valid_id t \<and> valid_id r \<longrightarrow>
         js_list_events jc t r types l js = Inr (list_events t r types l (es_run ops)))
    \<and> (\<forall>t r n b a. valid_id t \<and> valid_id r \<and> 0 < n \<longrightarrow>
         js_list_messages_by_run jc t r (int n) b a js = Inr (list_messages_by_run t r (int n) b a (es_run ops)))
    \<and> (\<forall>t. valid_id t \<longrightarrow> js_count_messages jc t js = Inr (count_messages t (es_run ops)))"
proof -
  obtain rs ms where rs: "es_replies ops es_init = (rs, ms)" by force
  then have ms: "ms = es_run ops" using es_replies_state [of ops es_init] by (simp add: es_run_def)
  obtain js where "js_replies jc ops js_init = (map Inr rs, js)" "js_refines jc js ms"
    using refined_history [OF js_init_refines assms(1) rs] assms(2) unfolding rs fst_conv by blast
  with rs refined_messages refined_events refined_run_messages refined_count show ?thesis
    unfolding ms by fastforce
qed

definition demo_codec :: json_codec where
  "demo_codec = \<lparr>jc_dump = (\<lambda>e. re_run_id e @ dec (nat (re_seq e))),
     jc_load = (\<lambda>l. if l = ''r11''
        then Parsed (fst (put_one ''2026'' (demo_put ''r1'' ''message'') es_init)) else Malformed)\<rparr>"

theorem jsonl_refines_memory_witness:
  "\<exists>js. js_replies demo_codec [OpPut ''2026'' (demo_put ''r1'' ''message'')] js_init
       = (map Inr (fst (es_replies [OpPut ''2026'' (demo_put ''r1'' ''message'')] es_init)), js)
     \<and> js_count_messages demo_codec ''t'' js = Inr 1"
proof -
  let ?ops = "[OpPut ''2026'' (demo_put ''r1'' ''message'')]"
  have seq: "re_seq (fst (put_one ''2026'' (demo_put ''r1'' ''message'') es_init)) = 1"
    "re_run_id (fst (put_one ''2026'' (demo_put ''r1'' ''message'') es_init)) = ''r1''"
    by (simp_all add: put_one_def next_seq_def es_init_def demo_put_def Let_def)
  have ids: "valid_id ''t''" "valid_id ''r1''" by (simp_all add: valid_id_def safe_char_def LF_def)
  have "dec 1 = ''1''" by (simp add: dec.simps digit_char_def)
  then have "line_safe demo_codec (fst (put_one ''2026'' (demo_put ''r1'' ''message'') es_init))"
    by (simp add: line_safe_def demo_codec_def seq is_space_def is_line_end_def)
  then have "\<forall>r \<in> set (fst (es_replies ?ops es_init)). \<forall>e \<in> set (reply_events r). line_safe demo_codec e"
    by (simp add: es_put_def)
  moreover have "\<forall>op \<in> set ?ops. \<forall>i \<in> set (op_ids op). valid_id i" using ids by (simp add: demo_put_def)
  moreover have "count_messages ''t'' (es_run ?ops) = 1"
    by (simp add: count_messages_def es_run_def es_put_def put_one_def next_seq_def es_init_def demo_put_def
        Let_def append_at_def od_get_default_def)
  ultimately show ?thesis using jsonl_refines_memory [of ?ops demo_codec] ids by metis
qed

text \<open>C19. An event whose JSON text contains a line boundary other than a line feed is lost. The writer
  escapes the control characters but leaves U+0085 (and U+2028, U+2029) as it is, and the reader cuts
  there.  After any history of operations whose events survive the line format, let the put of such an event succeed,
  where the two pieces are no JSON: the thread reads and counts as before, without the event, and after a
  restart the next event of the thread gets a number that is not above that of the lost one.\<close>

theorem line_boundary_loses_event:
  assumes "\<forall>op \<in> set ops. \<forall>i \<in> set (op_ids op). valid_id i"
    and "\<forall>r \<in> set (fst (es_replies ops es_init)). \<forall>e \<in> set (reply_events r). line_safe jc e"
    and "js_replies jc ops js_init = (replies, js)"
    and "valid_id (pa_thread_id a)" and "valid_id (pa_run_id a)" and "js_put jc now_iso a js = (Inr e, js')"
    and "jc_dump jc e = u @ CHR 0x85 # v" and "clean_line u" and "clean_line v"
    and "jc_load jc u = Malformed" and "jc_load jc v = Malformed"
    and "pa_thread_id a2 = pa_thread_id a" and "valid_id (pa_run_id a2)"
  shows "read_thread_events jc (pa_thread_id a) js' = read_thread_events jc (pa_thread_id a) js
    \<and> (\<exists>es. read_thread_events jc (pa_thread_id a) js = Inr es \<and> e \<notin> set es)
    \<and> js_count_messages jc (pa_thread_id a) js' = js_count_messages jc (pa_thread_id a) js
    \<and> (\<exists>e2 js2. js_put jc now2 a2 (js_restart js') = (Inr e2, js2) \<and> re_seq e2 \<le> re_seq e)"
proof -
  let ?t = "pa_thread_id a"
  let ?ms = "es_run ops"
  have ref: "js_refines jc js ?ms"
    by (rule jsonl_reached [OF assms(1-3)])
  then have ok: "es_ok ?ms" by (simp add: js_refines_def)
  note cut = cut_record_parts [OF ref assms(6,4,5,7-11)]
  have before: "read_thread_events jc ?t js = Inr (thread_log ?ms ?t)"
    by (rule refined_thread_read [OF ref assms(4)])
  have "\<forall>e \<in> set (thread_log ?ms ?t). re_run_id e \<in> fst ` set (thread_files ?t js')"
    using refined_files(3) [OF ref, of ?t] cut(4) by blast
  then have after: "read_thread_events jc ?t js' = Inr (thread_log ?ms ?t)"
    by (rule parsed_thread_read [OF ok cut(2) assms(4) cut(3)])
  have le: "\<forall>x \<in> set (thread_log ?ms ?t). re_seq x \<le> last_seq ?ms ?t" and nn: "0 \<le> last_seq ?ms ?t"
    using ok by (auto simp: es_ok_def log_ok_def)
  then have "e \<notin> set (thread_log ?ms ?t)" using cut(1) by fastforce
  moreover obtain m where m: "compute_max_seq jc ?t (js_restart js') = Some m" "m \<le> last_seq ?ms ?t"
  proof
    let ?es = "concat (map (\<lambda>x. run_part ?ms ?t (fst x)) (thread_files ?t js'))"
    show "compute_max_seq jc ?t (js_restart js') = Some (fold (\<lambda>e m. max m (re_seq e)) ?es 0)"
      using concat_parse [OF cut(3)] by (simp add: compute_max_seq_def js_restart_def thread_files_def)
    show "fold (\<lambda>e m. max m (re_seq e)) ?es 0 \<le> last_seq ?ms ?t"
      using le nn by (intro fold_max_le) (auto simp: run_part_def)
  qed
  have "\<exists>e2 js2. js_put jc now2 a2 (js_restart js') = (Inr e2, js2) \<and> re_seq e2 = m + 1"
    using m(1) assms(4,12,13)
    by (simp add: js_put_def js_restart_def ensure_seq_loaded_def Let_def od_get_default_def)
  ultimately show ?thesis
    using before after cut(1) m(2) by (fastforce simp: js_count_messages_def)
qed

text \<open>A codec on messages with string content: the loader accepts a text in brackets.\<close>

definition text_codec :: json_codec where
  "text_codec =
     \<lparr>jc_dump = (\<lambda>e. ''['' @ (case re_content e of PStr s \<Rightarrow> s | _ \<Rightarrow> ''null'') @ '']''),
      jc_load = (\<lambda>l. if l \<noteq> '''' \<and> hd l = CHR ''['' \<and> last l = CHR '']''
        then Parsed (fst (put_one ''2026'' (demo_put ''r1'' ''message'') es_init)) else Malformed)\<rparr>"

definition cut_put :: put_args where
  "cut_put = (demo_put ''r1'' ''message'')\<lparr>pa_content := PStr (''a'' @ CHR 0x85 # ''b'')\<rparr>"

text \<open>A first event is kept, the second is lost, and its number is handed out again.\<close>

theorem line_boundary_loses_event_witness:
  "\<exists>e js' e2 js2. js_put text_codec ''2026'' cut_put (snd (js_replies text_codec [OpPut ''2026'' (demo_put ''r1'' ''message'')] js_init))
       = (Inr e, js')
     \<and> js_count_messages text_codec ''t'' js' = Inr 1
     \<and> js_put text_codec ''2026'' (demo_put ''r1'' ''message'') (js_restart js') = (Inr e2, js2) \<and> re_seq e2 \<le> re_seq e"
proof -
  let ?ops = "[OpPut ''2026'' (demo_put ''r1'' ''message'')]"
  let ?e = "fst (put_one ''2026'' (demo_put ''r1'' ''message'') es_init)"
  have ids: "valid_id ''t''" "valid_id ''r1''" by (simp_all add: valid_id_def safe_char_def LF_def)
  have e: "re_content ?e = PStr ''x''"
    by (simp add: put_one_def next_seq_def es_init_def demo_put_def Let_def)
  have "line_safe text_codec ?e"
    by (simp add: line_safe_def text_codec_def e is_space_def is_line_end_def)
  then have safe: "\<forall>r \<in> set (fst (es_replies ?ops es_init)). \<forall>e \<in> set (reply_events r). line_safe text_codec e"
    by (simp add: es_put_def)
  have opids: "\<forall>op \<in> set ?ops. \<forall>i \<in> set (op_ids op). valid_id i" using ids by (simp add: demo_put_def)
  obtain replies js where js: "js_replies text_codec ?ops js_init = (replies, js)" by force
  have ref: "js_refines text_codec js (es_run ?ops)"
    by (rule jsonl_reached [OF opids safe js])
  have "js_count_messages text_codec ''t'' js = Inr (count_messages ''t'' (es_run ?ops))"
    by (rule refined_count [OF ref ids(1)])
  moreover have "count_messages ''t'' (es_run ?ops) = 1"
    by (simp add: count_messages_def es_run_def es_put_def put_one_def next_seq_def es_init_def demo_put_def
        Let_def append_at_def od_get_default_def)
  ultimately have count: "js_count_messages text_codec ''t'' js = Inr 1" by simp
  have p: "pa_thread_id cut_put = ''t''" "pa_run_id cut_put = ''r1''" "pa_thread_id (demo_put ''r1'' ''message'') = ''t''"
      "pa_run_id (demo_put ''r1'' ''message'') = ''r1''" "pa_content cut_put = PStr (''a'' @ CHR 0x85 # ''b'')"
    by (simp_all add: cut_put_def demo_put_def)
  obtain x js' where put: "js_put text_codec ''2026'' cut_put js = (x, js')" by force
  obtain js1 where "ensure_seq_loaded text_codec ''t'' js = Inr js1"
    using refined_ensure [OF ref ids(1)] by blast
  then obtain e where x: "x = Inr e" "re_content e = PStr (''a'' @ CHR 0x85 # ''b'')"
    using put ids by (auto simp: js_put_def p Let_def)
  have parts: "jc_dump text_codec e = (''[a'') @ CHR 0x85 # ''b]''" "clean_line ''[a''" "clean_line ''b]''"
      "jc_load text_codec ''[a'' = Malformed" "jc_load text_codec ''b]'' = Malformed"
    by (simp_all add: text_codec_def x clean_line_def is_space_def is_line_end_def)
  obtain e2 js2 where "js_count_messages text_codec ''t'' js' = Inr 1"
      "js_put text_codec ''2026'' (demo_put ''r1'' ''message'') (js_restart js') = (Inr e2, js2)" "re_seq e2 \<le> re_seq e"
    using line_boundary_loses_event [OF opids safe js _ _ put [unfolded x] parts, of "demo_put ''r1'' ''message''" "''2026''"]
    unfolding p count using ids by blast
  moreover have "snd (js_replies text_codec ?ops js_init) = js"
    by (simp only: js snd_conv)
  ultimately show ?thesis
    using put unfolding x(1) by metis
qed

end
