(* ===== verification/PosixPaths.thy ===== *)
theory PosixPaths
  imports PyText "HOL-Library.Sublist"
begin

text \<open>
  The parts of Python's text library and of \<open>pathlib\<close> and \<open>posixpath\<close> the sandbox uses, on a POSIX
  host: splitting at a character, stripping sets of characters, pure paths as a root and a list of
  parts, their text and their containment.  Resolving symbolic links depends on the disk and is a
  parameter of the theories that need it.
\<close>

section \<open>Texts\<close>

fun str_split :: "char \<Rightarrow> string \<Rightarrow> string list" where
  "str_split c [] = [[]]"
| "str_split c (x # s) =
     (if x = c then [] # str_split c s
      else (case str_split c s of [] \<Rightarrow> [[x]] | w # ws \<Rightarrow> (x # w) # ws))"

definition replace_char :: "char \<Rightarrow> char \<Rightarrow> string \<Rightarrow> string" where
  "replace_char a b s = map (\<lambda>c. if c = a then b else c) s"

definition lstrip_chars :: "string \<Rightarrow> string \<Rightarrow> string" where
  "lstrip_chars cs s = dropWhile (\<lambda>c. c \<in> set cs) s"

definition rstrip_chars :: "string \<Rightarrow> string \<Rightarrow> string" where
  "rstrip_chars cs s = rev (dropWhile (\<lambda>c. c \<in> set cs) (rev s))"

abbreviation slash :: char where "slash \<equiv> CHR ''/''"
abbreviation backslash :: char where "backslash \<equiv> CHR 0x5C"

lemma str_split_not_Nil [simp]: "str_split c s \<noteq> []"
  by (cases s) (auto split: list.splits)

lemma str_split_append_sep: "str_split c (s @ c # t) = str_split c s @ str_split c t"
  by (induction s) (auto split: list.splits)

lemma str_split_absent: "c \<notin> set s \<Longrightarrow> str_split c s = [s]"
  by (induction s) auto

lemma str_split_chars: "w \<in> set (str_split c s) \<Longrightarrow> c \<notin> set w \<and> set w \<subseteq> set s"
proof (induction s arbitrary: w)
  case Nil
  then show ?case by simp
next
  case (Cons x s)
  obtain v vs where v: "str_split c s = v # vs" by (cases "str_split c s") auto
  then show ?case using Cons.prems Cons.IH [of v] Cons.IH by (force split: if_splits)
qed

lemma join_split: "join_with [c] (str_split c s) = s"
proof (induction s)
  case Nil
  then show ?case by simp
next
  case (Cons x s)
  obtain v vs where v: "str_split c s = v # vs" by (cases "str_split c s") auto
  have cons: "join_with [c] ((x # v) # vs) = x # join_with [c] (v # vs)" by (cases vs) auto
  from Cons v cons show ?case by (auto simp: v)
qed

section \<open>Pure paths\<close>

record pure_path =
  pp_root :: string
  pp_parts :: "string list"

text \<open>Two leading slashes are a root of their own, three or more are one slash.\<close>

definition posix_root :: "string \<Rightarrow> string" where
  "posix_root s =
     (if prefix ''//'' s \<and> \<not> prefix ''///'' s then ''//'' else if prefix ''/'' s then ''/'' else '''')"

definition kept_part :: "string \<Rightarrow> bool" where
  "kept_part w \<longleftrightarrow> w \<noteq> '''' \<and> w \<noteq> ''.''"

definition path_parts :: "string \<Rightarrow> string list" where
  "path_parts s = filter kept_part (str_split slash s)"

definition pure_path_of :: "string \<Rightarrow> pure_path" where
  "pure_path_of s = \<lparr>pp_root = posix_root s, pp_parts = path_parts s\<rparr>"

definition path_text :: "pure_path \<Rightarrow> string" where
  "path_text p =
     (if pp_root p = '''' \<and> pp_parts p = [] then ''.'' else pp_root p @ join_with ''/'' (pp_parts p))"

definition path_parent :: "pure_path \<Rightarrow> pure_path" where
  "path_parent p = p\<lparr>pp_parts := butlast (pp_parts p)\<rparr>"

definition path_name :: "pure_path \<Rightarrow> string" where
  "path_name p = (if pp_parts p = [] then '''' else last (pp_parts p))"

text \<open>\<open>p / s\<close>.\<close>

definition path_join :: "pure_path \<Rightarrow> string \<Rightarrow> pure_path" where
  "path_join p s =
     (if posix_root s \<noteq> '''' then pure_path_of s else p\<lparr>pp_parts := pp_parts p @ path_parts s\<rparr>)"

text \<open>\<open>p.relative_to(base)\<close> does not raise.\<close>

definition path_below :: "pure_path \<Rightarrow> pure_path \<Rightarrow> bool" where
  "path_below p base \<longleftrightarrow> pp_root p = pp_root base \<and> prefix (pp_parts base) (pp_parts p)"

lemma path_below_refl [simp]: "path_below p p"
  by (simp add: path_below_def)

lemma path_below_trans: "path_below p q \<Longrightarrow> path_below q r \<Longrightarrow> path_below p r"
  by (auto simp: path_below_def intro: prefix_order.trans)

lemma path_parts_append: "path_parts (s @ slash # t) = path_parts s @ path_parts t"
  by (simp add: path_parts_def str_split_append_sep)

lemma path_parts_Nil [simp]: "path_parts [] = []"
  by (simp add: path_parts_def kept_part_def)

lemma path_parts_slash [simp]: "path_parts (slash # t) = path_parts t"
  using path_parts_append [of "[]" t] by simp

lemma path_parts_rstrip: "path_parts (s @ replicate n slash) = path_parts s"
proof (induction n)
  case 0
  then show ?case by simp
next
  case (Suc n)
  have "s @ replicate (Suc n) slash = (s @ replicate n slash) @ slash # []"
    by (simp add: replicate_append_same)
  then show ?case using Suc by (simp only: path_parts_append path_parts_Nil append_Nil2)
qed

lemma part_of_path:
  "w \<in> set (path_parts s) \<Longrightarrow> kept_part w \<and> slash \<notin> set w"
  by (auto simp: path_parts_def dest: str_split_chars)


section \<open>The text of a path reads back\<close>

definition path_ok :: "pure_path \<Rightarrow> bool" where
  "path_ok p \<longleftrightarrow> pp_root p \<in> {'''', ''/'', ''//''} \<and> (\<forall>w \<in> set (pp_parts p). kept_part w \<and> slash \<notin> set w)"

lemma path_ok_of [simp]: "path_ok (pure_path_of s)"
  by (auto simp: path_ok_def pure_path_of_def posix_root_def dest: part_of_path)

lemma split_join: "ws \<noteq> [] \<Longrightarrow> \<forall>w \<in> set ws. slash \<notin> set w \<Longrightarrow> str_split slash (join_with ''/'' ws) = ws"
  by (induction "''/''" ws rule: join_with.induct) (auto simp: str_split_absent str_split_append_sep)

lemma join_head:
  assumes "\<forall>w \<in> set ws. kept_part w \<and> slash \<notin> set w"
  shows "join_with ''/'' ws = [] \<or> hd (join_with ''/'' ws) \<noteq> slash"
proof (cases ws)
  case (Cons w vs)
  with assms obtain c v where "w = c # v" "c \<noteq> slash" by (cases w) (auto simp: kept_part_def)
  with Cons show ?thesis by (cases vs) auto
qed simp

lemma join_parts:
  assumes "\<forall>w \<in> set ws. kept_part w \<and> slash \<notin> set w"
  shows "path_parts (join_with ''/'' ws) = ws"
proof (cases "ws = []")
  case False
  with assms have "str_split slash (join_with ''/'' ws) = ws" by (intro split_join) auto
  with assms show ?thesis by (simp add: path_parts_def filter_id_conv)
qed simp

lemma dot_text: "pure_path_of ''.'' = \<lparr>pp_root = '''', pp_parts = []\<rparr>"
  by (simp add: pure_path_of_def posix_root_def path_parts_def kept_part_def)

lemma posix_root_join:
  assumes "r \<in> {'''', ''/'', ''//''}" and "t = [] \<or> hd t \<noteq> slash"
  shows "posix_root (r @ t) = r"
  using assms by (cases t) (auto simp: posix_root_def)

lemma path_reads_back: "path_ok p \<Longrightarrow> pure_path_of (path_text p) = p"
proof -
  assume ok: "path_ok p"
  show ?thesis
  proof (cases "pp_root p = '''' \<and> pp_parts p = []")
    case True
    then show ?thesis by (simp add: path_text_def dot_text)
  next
    case False
    let ?t = "join_with ''/'' (pp_parts p)"
    have parts: "\<forall>w \<in> set (pp_parts p). kept_part w \<and> slash \<notin> set w" and r: "pp_root p \<in> {'''', ''/'', ''//''}"
      using ok by (auto simp: path_ok_def)
    have "path_parts (pp_root p @ ?t) = path_parts ?t" using r by auto
    moreover have "path_text p = pp_root p @ ?t" using False by (auto simp: path_text_def)
    ultimately show ?thesis using posix_root_join [OF r join_head [OF parts]] join_parts [OF parts]
      by (simp add: pure_path_of_def)
  qed
qed

section \<open>Directory names and ancestors\<close>

text \<open>\<open>posixpath.dirname\<close>.\<close>

definition dir_name :: "string \<Rightarrow> string" where
  "dir_name s =
     (let head = rev (dropWhile (\<lambda>c. c \<noteq> slash) (rev s)); d = rstrip_chars ''/'' head
      in if d = '''' then head else d)"

text \<open>The path and the paths above it, the root excepted, from the top down.\<close>

definition ancestor_paths :: "pure_path \<Rightarrow> string list" where
  "ancestor_paths p = map (\<lambda>n. path_text (p\<lparr>pp_parts := take (Suc n) (pp_parts p)\<rparr>)) [0..<length (pp_parts p)]"

lemma ancestor_above:
  assumes "q \<in> set (ancestor_paths p)" and "path_ok p"
  shows "path_below p (pure_path_of q)"
proof -
  obtain n where n: "q = path_text (p\<lparr>pp_parts := take n (pp_parts p)\<rparr>)"
    using assms(1) by (auto simp: ancestor_paths_def)
  have "path_ok (p\<lparr>pp_parts := take n (pp_parts p)\<rparr>)"
    using assms(2) by (auto simp: path_ok_def dest: in_set_takeD)
  then show ?thesis by (simp add: n path_reads_back path_below_def take_is_prefix)
qed

lemma posix_root_keeps:
  assumes "d \<noteq> []" and "last d \<noteq> slash"
  shows "posix_root (d @ s) = posix_root d"
proof -
  consider c where "d = [c]" | a c where "d = [a, c]" | a b c e where "d = a # b # c # e"
    using assms(1) by (metis neq_Nil_conv)
  then show ?thesis
    using assms(2) by cases (auto simp: posix_root_def)
qed

lemma posix_root_slashes:
  assumes "slash \<notin> set t"
  shows "posix_root (replicate n slash @ t) = posix_root (replicate n slash)"
proof -
  have t: "t = [] \<or> hd t \<noteq> slash" using assms by (cases t) auto
  show ?thesis
  proof (cases "n < 3")
    case True
    then have "replicate n slash \<in> {'''', ''/'', ''//''}"
      by (auto simp: less_Suc_eq numeral_3_eq_3)
    then show ?thesis using posix_root_join [OF _ t] posix_root_join [of "replicate n slash" "[]"] by simp
  next
    case False
    then have "n = Suc (Suc (Suc (n - 3)))" by simp
    then obtain m where m: "n = Suc (Suc (Suc m))" ..
    show ?thesis unfolding m replicate_Suc by (simp add: posix_root_def)
  qed
qed

end
