(* ===== verification/DataPaths.thy ===== *)
theory DataPaths
  imports PosixPaths
begin

text \<open>
  The layout of the data directory (\<open>config/paths.py\<close>): user and thread ids that may become
  directory names, the directories of a user and of a thread, their creation, deletion and
  migration, and the resolution of virtual paths.  The disk is the list of existing paths below
  the data directory; digests and \<open>Path.resolve\<close> are parameters, and joining of Windows paths is
  the parameter \<open>win\<close>.
\<close>

section \<open>Ids\<close>

datatype data_path_error =
    InvalidThreadId string
  | InvalidUserId string
  | EmptyUserId
  | BadPrefix
  | DataTraversal
  | DataUnresolved

definition safe_id_char :: "char \<Rightarrow> bool" where
  "safe_id_char c \<longleftrightarrow> (let n = (of_char c :: nat)
     in (48 \<le> n \<and> n \<le> 57) \<or> (65 \<le> n \<and> n \<le> 90) \<or> (97 \<le> n \<and> n \<le> 122) \<or> n = 95 \<or> n = 45)"

text \<open>\<open>^[A-Za-z0-9_\-]+$\<close>: the dollar also matches before a final line feed.\<close>

definition safe_id :: "string \<Rightarrow> bool" where
  "safe_id s = (let t = (if suffix [LF] s then butlast s else s) in t \<noteq> '''' \<and> list_all safe_id_char t)"

definition validate_thread_id :: "string \<Rightarrow> data_path_error + string" where
  "validate_thread_id t = (if safe_id t then Inr t else Inl (InvalidThreadId t))"

definition validate_user_id :: "string \<Rightarrow> data_path_error + string" where
  "validate_user_id u = (if safe_id u then Inr u else Inl (InvalidUserId u))"

definition sanitize_user_id :: "string \<Rightarrow> string" where
  "sanitize_user_id raw = map (\<lambda>c. if safe_id_char c then c else CHR ''-'') raw"

text \<open>\<open>digest\<close> is the hexadecimal SHA-256 digest of the UTF-8 text.\<close>

definition make_safe_user_id :: "(string \<Rightarrow> string) \<Rightarrow> string \<Rightarrow> data_path_error + string" where
  "make_safe_user_id digest raw =
     (if raw = '''' then Inl EmptyUserId
      else if sanitize_user_id raw = raw then Inr raw
      else Inr (sanitize_user_id raw @ ''-'' @ take 16 (digest raw)))"

definition legacy_safe_user_id :: "(string \<Rightarrow> string) \<Rightarrow> string \<Rightarrow> string \<Rightarrow> string" where
  "legacy_safe_user_id digest1 raw sanitized = sanitized @ ''-'' @ take 16 (digest1 raw)"

section \<open>Directories\<close>

text \<open>The base directory: the argument of the constructor, the environment, or the default.\<close>

record data_paths =
  dp_base :: "pure_path option"
  dp_home_env :: "string option"
  dp_host_env :: "string option"
  dp_default :: pure_path
  dp_resolve :: "string \<Rightarrow> string option"

definition data_resolve :: "data_paths \<Rightarrow> pure_path \<Rightarrow> data_path_error + pure_path" where
  "data_resolve dp p =
     (case dp_resolve dp (path_text p) of None \<Rightarrow> Inl DataUnresolved | Some r \<Rightarrow> Inr (pure_path_of r))"

definition base_dir :: "data_paths \<Rightarrow> data_path_error + pure_path" where
  "base_dir dp =
     (case dp_base dp of
        Some b \<Rightarrow> Inr b
      | None \<Rightarrow>
          (case dp_home_env dp of
             Some h \<Rightarrow> (if h \<noteq> '''' then data_resolve dp (pure_path_of h) else Inr (dp_default dp))
           | None \<Rightarrow> Inr (dp_default dp)))"

definition host_base_dir :: "data_paths \<Rightarrow> data_path_error + pure_path" where
  "host_base_dir dp =
     (case dp_host_env dp of
        Some h \<Rightarrow> (if h \<noteq> '''' then Inr (pure_path_of h) else base_dir dp)
      | None \<Rightarrow> base_dir dp)"

definition host_base_dir_str :: "data_paths \<Rightarrow> data_path_error + string" where
  "host_base_dir_str dp =
     (case dp_host_env dp of
        Some h \<Rightarrow> (if h \<noteq> '''' then Inr h else map_sum id path_text (base_dir dp))
      | None \<Rightarrow> map_sum id path_text (base_dir dp))"

definition below_base :: "data_paths \<Rightarrow> string list \<Rightarrow> data_path_error + pure_path" where
  "below_base dp names = rbind (base_dir dp) (\<lambda>b. Inr (foldl path_join b names))"

definition memory_file :: "data_paths \<Rightarrow> data_path_error + pure_path" where
  "memory_file dp = below_base dp [''memory.json'']"

definition user_md_file :: "data_paths \<Rightarrow> data_path_error + pure_path" where
  "user_md_file dp = below_base dp [''USER.md'']"

definition agents_dir :: "data_paths \<Rightarrow> data_path_error + pure_path" where
  "agents_dir dp = below_base dp [''agents'']"

definition agent_dir :: "data_paths \<Rightarrow> string \<Rightarrow> data_path_error + pure_path" where
  "agent_dir dp name = rbind (agents_dir dp) (\<lambda>d. Inr (path_join d (str_lower name)))"

definition agent_memory_file :: "data_paths \<Rightarrow> string \<Rightarrow> data_path_error + pure_path" where
  "agent_memory_file dp name = rbind (agent_dir dp name) (\<lambda>d. Inr (path_join d ''memory.json''))"

definition user_dir :: "data_paths \<Rightarrow> string \<Rightarrow> data_path_error + pure_path" where
  "user_dir dp u =
     rbind (below_base dp [''users'']) (\<lambda>d. rbind (validate_user_id u) (\<lambda>u. Inr (path_join d u)))"

definition user_memory_file :: "data_paths \<Rightarrow> string \<Rightarrow> data_path_error + pure_path" where
  "user_memory_file dp u = rbind (user_dir dp u) (\<lambda>d. Inr (path_join d ''memory.json''))"

definition user_actions_dir :: "data_paths \<Rightarrow> string \<Rightarrow> data_path_error + pure_path" where
  "user_actions_dir dp u = rbind (user_dir dp u) (\<lambda>d. Inr (path_join d ''actions''))"

definition user_lifecycle_dir :: "data_paths \<Rightarrow> string \<Rightarrow> data_path_error + pure_path" where
  "user_lifecycle_dir dp u = rbind (user_dir dp u) (\<lambda>d. Inr (path_join d ''lifecycle''))"

definition user_agents_dir :: "data_paths \<Rightarrow> string \<Rightarrow> data_path_error + pure_path" where
  "user_agents_dir dp u = rbind (user_dir dp u) (\<lambda>d. Inr (path_join d ''agents''))"

definition user_agent_dir :: "data_paths \<Rightarrow> string \<Rightarrow> string \<Rightarrow> data_path_error + pure_path" where
  "user_agent_dir dp u name = rbind (user_agents_dir dp u) (\<lambda>d. Inr (path_join d (str_lower name)))"

definition user_agent_memory_file :: "data_paths \<Rightarrow> string \<Rightarrow> string \<Rightarrow> data_path_error + pure_path" where
  "user_agent_memory_file dp u name = rbind (user_agent_dir dp u name) (\<lambda>d. Inr (path_join d ''memory.json''))"

text \<open>Without a user the layout is the legacy one.\<close>

definition thread_dir :: "data_paths \<Rightarrow> string \<Rightarrow> string option \<Rightarrow> data_path_error + pure_path" where
  "thread_dir dp t user =
     (case user of
        Some u \<Rightarrow> rbind (user_dir dp u) (\<lambda>d. rbind (validate_thread_id t) (\<lambda>t. Inr (path_join (path_join d ''threads'') t)))
      | None \<Rightarrow> rbind (below_base dp [''threads'']) (\<lambda>d. rbind (validate_thread_id t) (\<lambda>t. Inr (path_join d t))))"

definition sandbox_user_data_dir :: "data_paths \<Rightarrow> string \<Rightarrow> string option \<Rightarrow> data_path_error + pure_path" where
  "sandbox_user_data_dir dp t user = rbind (thread_dir dp t user) (\<lambda>d. Inr (path_join d ''user-data''))"

definition sandbox_work_dir :: "data_paths \<Rightarrow> string \<Rightarrow> string option \<Rightarrow> data_path_error + pure_path" where
  "sandbox_work_dir dp t user =
     rbind (thread_dir dp t user) (\<lambda>d. Inr (path_join (path_join d ''user-data'') ''workspace''))"

definition sandbox_uploads_dir :: "data_paths \<Rightarrow> string \<Rightarrow> string option \<Rightarrow> data_path_error + pure_path" where
  "sandbox_uploads_dir dp t user =
     rbind (thread_dir dp t user) (\<lambda>d. Inr (path_join (path_join d ''user-data'') ''uploads''))"

definition sandbox_outputs_dir :: "data_paths \<Rightarrow> string \<Rightarrow> string option \<Rightarrow> data_path_error + pure_path" where
  "sandbox_outputs_dir dp t user =
     rbind (thread_dir dp t user) (\<lambda>d. Inr (path_join (path_join d ''user-data'') ''outputs''))"

definition acp_workspace_dir :: "data_paths \<Rightarrow> string \<Rightarrow> string option \<Rightarrow> data_path_error + pure_path" where
  "acp_workspace_dir dp t user = rbind (thread_dir dp t user) (\<lambda>d. Inr (path_join d ''acp-workspace''))"


section \<open>Host directories for mounts\<close>

definition ascii_letter :: "char \<Rightarrow> bool" where
  "ascii_letter c \<longleftrightarrow> (let n = (of_char c :: nat) in (65 \<le> n \<and> n \<le> 90) \<or> (97 \<le> n \<and> n \<le> 122))"

text \<open>A drive with a separator, a network share, or any backslash.\<close>

definition windows_style :: "string \<Rightarrow> bool" where
  "windows_style base \<longleftrightarrow>
     (case base of
        a # b # c # _ \<Rightarrow> ascii_letter a \<and> b = CHR '':'' \<and> (c = backslash \<or> c = slash)
      | _ \<Rightarrow> False)
     \<or> backslash \<in> set base"

definition join_host_path :: "(string \<Rightarrow> string list \<Rightarrow> string) \<Rightarrow> string \<Rightarrow> string list \<Rightarrow> string" where
  "join_host_path win base parts =
     (if parts = [] then base
      else if windows_style base then win base parts
      else path_text (foldl path_join (pure_path_of base) parts))"

definition host_thread_dir ::
    "(string \<Rightarrow> string list \<Rightarrow> string) \<Rightarrow> data_paths \<Rightarrow> string \<Rightarrow> string option \<Rightarrow> data_path_error + string" where
  "host_thread_dir win dp t user =
     rbind (host_base_dir_str dp) (\<lambda>b.
       case user of
         Some u \<Rightarrow> rbind (validate_user_id u) (\<lambda>u. rbind (validate_thread_id t) (\<lambda>t.
                     Inr (join_host_path win b [''users'', u, ''threads'', t])))
       | None \<Rightarrow> rbind (validate_thread_id t) (\<lambda>t. Inr (join_host_path win b [''threads'', t])))"

definition host_sandbox_user_data_dir ::
    "(string \<Rightarrow> string list \<Rightarrow> string) \<Rightarrow> data_paths \<Rightarrow> string \<Rightarrow> string option \<Rightarrow> data_path_error + string" where
  "host_sandbox_user_data_dir win dp t user =
     rbind (host_thread_dir win dp t user) (\<lambda>d. Inr (join_host_path win d [''user-data'']))"

definition host_sandbox_work_dir ::
    "(string \<Rightarrow> string list \<Rightarrow> string) \<Rightarrow> data_paths \<Rightarrow> string \<Rightarrow> string option \<Rightarrow> data_path_error + string" where
  "host_sandbox_work_dir win dp t user =
     rbind (host_sandbox_user_data_dir win dp t user) (\<lambda>d. Inr (join_host_path win d [''workspace'']))"

definition host_sandbox_uploads_dir ::
    "(string \<Rightarrow> string list \<Rightarrow> string) \<Rightarrow> data_paths \<Rightarrow> string \<Rightarrow> string option \<Rightarrow> data_path_error + string" where
  "host_sandbox_uploads_dir win dp t user =
     rbind (host_sandbox_user_data_dir win dp t user) (\<lambda>d. Inr (join_host_path win d [''uploads'']))"

definition host_sandbox_outputs_dir ::
    "(string \<Rightarrow> string list \<Rightarrow> string) \<Rightarrow> data_paths \<Rightarrow> string \<Rightarrow> string option \<Rightarrow> data_path_error + string" where
  "host_sandbox_outputs_dir win dp t user =
     rbind (host_sandbox_user_data_dir win dp t user) (\<lambda>d. Inr (join_host_path win d [''outputs'']))"

definition host_acp_workspace_dir ::
    "(string \<Rightarrow> string list \<Rightarrow> string) \<Rightarrow> data_paths \<Rightarrow> string \<Rightarrow> string option \<Rightarrow> data_path_error + string" where
  "host_acp_workspace_dir win dp t user =
     rbind (host_thread_dir win dp t user) (\<lambda>d. Inr (join_host_path win d [''acp-workspace'']))"

section \<open>Creation, deletion, migration\<close>

text \<open>Existing paths, each a directory or a file; a path exists only below existing directories.\<close>

type_synonym tree = "(pure_path \<times> bool) list"

definition make_dirs :: "pure_path \<Rightarrow> tree \<Rightarrow> tree" where
  "make_dirs d t = fold (\<lambda>ps. od_set (d\<lparr>pp_parts := ps\<rparr>) True) (prefixes (pp_parts d)) t"

definition standard_dirs :: "data_paths \<Rightarrow> string \<Rightarrow> string option \<Rightarrow> data_path_error + pure_path list" where
  "standard_dirs dp t user =
     map_res (\<lambda>f. f dp t user) [sandbox_work_dir, sandbox_uploads_dir, sandbox_outputs_dir, acp_workspace_dir]"

definition ensure_thread_dirs :: "data_paths \<Rightarrow> string \<Rightarrow> string option \<Rightarrow> tree \<Rightarrow> data_path_error + tree" where
  "ensure_thread_dirs dp t user tr = rbind (standard_dirs dp t user) (\<lambda>ds. Inr (fold make_dirs ds tr))"

definition delete_thread_dir :: "data_paths \<Rightarrow> string \<Rightarrow> string option \<Rightarrow> tree \<Rightarrow> data_path_error + tree" where
  "delete_thread_dir dp t user tr =
     rbind (thread_dir dp t user) (\<lambda>d.
       Inr (if d \<in> fst ` set tr then filter (\<lambda>e. \<not> path_below (fst e) d) tr else tr))"

definition rename_dir :: "pure_path \<Rightarrow> pure_path \<Rightarrow> tree \<Rightarrow> tree" where
  "rename_dir old new tr =
     map (\<lambda>(p, b). (if path_below p old
                     then new\<lparr>pp_parts := pp_parts new @ drop (length (pp_parts old)) (pp_parts p)\<rparr> else p, b)) tr"

text \<open>\<open>works\<close> says whether the rename succeeds; a failure is logged and changes nothing.\<close>

definition prepare_user_dir_for_raw_id ::
    "(string \<Rightarrow> string) \<Rightarrow> (string \<Rightarrow> string) \<Rightarrow> data_paths \<Rightarrow> bool \<Rightarrow> string \<Rightarrow> tree
      \<Rightarrow> (data_path_error + string) \<times> tree" where
  "prepare_user_dir_for_raw_id digest digest1 dp works raw tr =
     (case make_safe_user_id digest raw of
        Inl e \<Rightarrow> (Inl e, tr)
      | Inr safe \<Rightarrow>
          if safe = raw then (Inr safe, tr)
          else
            (case below_base dp [''users''] of
               Inl e \<Rightarrow> (Inl e, tr)
             | Inr users \<Rightarrow>
                 (let target = path_join users safe;
                      legacy = path_join users (legacy_safe_user_id digest1 raw (sanitize_user_id raw))
                  in if target \<in> fst ` set tr \<or> map_of tr legacy \<noteq> Some True \<or> \<not> works
                     then (Inr safe, tr) else (Inr safe, rename_dir legacy target tr))))"

section \<open>Virtual paths\<close>

definition virtual_path_prefix :: string where
  "virtual_path_prefix = ''/mnt/user-data''"

definition resolve_virtual_path :: "data_paths \<Rightarrow> string \<Rightarrow> string \<Rightarrow> string option \<Rightarrow> data_path_error + pure_path" where
  "resolve_virtual_path dp t virtual_path user =
     (let stripped = lstrip_chars ''/'' virtual_path; pre = lstrip_chars ''/'' virtual_path_prefix
      in rbind (check (stripped = pre \<or> prefix (pre @ ''/'') stripped) BadPrefix) (\<lambda>_.
         let relative = lstrip_chars ''/'' (drop (length pre) stripped)
         in rbind (check (''..'' \<notin> set (str_split slash (replace_char backslash slash relative))) DataTraversal) (\<lambda>_.
            rbind (sandbox_user_data_dir dp t user) (\<lambda>d.
            rbind (data_resolve dp d) (\<lambda>base.
            rbind (data_resolve dp (path_join base relative)) (\<lambda>actual.
            rbind (check (path_below actual base) DataTraversal) (\<lambda>_. Inr actual)))))))"

text \<open>\<open>resolve_path\<close> of the module.\<close>

definition resolve_data_path :: "data_paths \<Rightarrow> string \<Rightarrow> data_path_error + pure_path" where
  "resolve_data_path dp path =
     (if posix_root path \<noteq> '''' then data_resolve dp (pure_path_of path)
      else rbind (base_dir dp) (\<lambda>b. data_resolve dp (path_join b path)))"


section \<open>Ids become one part of a path\<close>

lemma safe_chars:
  assumes "list_all safe_id_char t"
  shows "slash \<notin> set t" and "CHR ''.'' \<notin> set t" and "LF \<notin> set t"
proof -
  have "\<not> safe_id_char slash" "\<not> safe_id_char (CHR ''.'')" "\<not> safe_id_char LF"
    by (simp_all add: safe_id_char_def LF_def)
  with assms show "slash \<notin> set t" "CHR ''.'' \<notin> set t" "LF \<notin> set t" by (auto simp: list_all_iff)
qed

lemma safe_id_cases:
  assumes "safe_id s"
  obtains "s \<noteq> ''''" "list_all safe_id_char s"
    | t where "s = t @ [LF]" "t \<noteq> ''''" "list_all safe_id_char t"
proof (cases "suffix [LF] s")
  case True
  then obtain t where "s = t @ [LF]" by (auto simp: suffix_def)
  with assms show ?thesis using that(2) [of t] by (auto simp: safe_id_def)
next
  case False
  with assms show ?thesis using that(1) by (auto simp: safe_id_def)
qed

lemma safe_id_no_slash: "safe_id s \<Longrightarrow> slash \<notin> set s" "safe_id s \<Longrightarrow> kept_part s"
  by (elim safe_id_cases; force simp: kept_part_def LF_def dest: safe_chars)+

lemma one_part: "slash \<notin> set s \<Longrightarrow> kept_part s \<Longrightarrow> path_parts s = [s]"
  by (simp add: path_parts_def str_split_absent)

lemma join_one_part: "slash \<notin> set s \<Longrightarrow> kept_part s \<Longrightarrow> path_join p s = p\<lparr>pp_parts := pp_parts p @ [s]\<rparr>"
  by (auto simp: path_join_def one_part posix_root_def prefix_def split: if_splits)

lemma join_safe_id: "safe_id s \<Longrightarrow> path_join p s = p\<lparr>pp_parts := pp_parts p @ [s]\<rparr>"
  by (simp add: join_one_part safe_id_no_slash)

lemma join_name:
  "path_join p ''users'' = p\<lparr>pp_parts := pp_parts p @ [''users'']\<rparr>"
  "path_join p ''threads'' = p\<lparr>pp_parts := pp_parts p @ [''threads'']\<rparr>"
  "path_join p ''user-data'' = p\<lparr>pp_parts := pp_parts p @ [''user-data'']\<rparr>"
  "path_join p ''acp-workspace'' = p\<lparr>pp_parts := pp_parts p @ [''acp-workspace'']\<rparr>"
  by (simp_all add: join_one_part kept_part_def)

definition thread_names :: "string \<Rightarrow> string option \<Rightarrow> string list" where
  "thread_names t user = (case user of None \<Rightarrow> [''threads'', t] | Some u \<Rightarrow> [''users'', u, ''threads'', t])"

lemma thread_dir_names:
  "thread_dir dp t user = Inr d \<longleftrightarrow>
     safe_id t \<and> (case user of None \<Rightarrow> True | Some u \<Rightarrow> safe_id u)
     \<and> (\<exists>b. base_dir dp = Inr b \<and> d = b\<lparr>pp_parts := pp_parts b @ thread_names t user\<rparr>)"
  by (cases user) (auto simp: thread_dir_def user_dir_def below_base_def thread_names_def validate_user_id_def
      validate_thread_id_def res_simps join_name join_safe_id split: if_splits)

lemma thread_names_prefix: "prefix (thread_names t user) (thread_names t' user') \<longleftrightarrow> t = t' \<and> user = user'"
  by (cases user; cases user') (auto simp: thread_names_def)

lemma thread_dirs_meet:
  assumes "thread_dir dp t user = Inr d" and "thread_dir dp t' user' = Inr d'"
    and "path_below p d" and "path_below p d'"
  shows "t = t' \<and> user = user'"
proof -
  obtain b where b: "d = b\<lparr>pp_parts := pp_parts b @ thread_names t user\<rparr>"
      "d' = b\<lparr>pp_parts := pp_parts b @ thread_names t' user'\<rparr>"
    using assms(1,2) by (auto simp: thread_dir_names)
  from assms(3,4) b have "prefix (pp_parts b @ thread_names t user) (pp_parts p)"
      "prefix (pp_parts b @ thread_names t' user') (pp_parts p)"
    by (auto simp: path_below_def)
  then have "prefix (thread_names t user) (thread_names t' user') \<or> prefix (thread_names t' user') (thread_names t user)"
    by (metis prefix_same_cases same_prefix_prefix)
  then show ?thesis by (auto simp: thread_names_prefix)
qed

section \<open>Properties\<close>

text \<open>C22. The directories of two different threads, of the same user, of different users or in the
  legacy layout, have no path in common: no path lies below both.\<close>

theorem thread_directories_are_disjoint:
  assumes "thread_dir dp t user = Inr d" and "thread_dir dp t' user' = Inr d'"
    and "(t, user) \<noteq> (t', user')"
  shows "\<not> (path_below p d \<and> path_below p d')"
  using thread_dirs_meet [OF assms(1,2)] assms(3) by auto

definition demo_data :: data_paths where
  "demo_data = \<lparr>dp_base = Some \<lparr>pp_root = ''/'', pp_parts = [''data'']\<rparr>, dp_home_env = None, dp_host_env = None,
     dp_default = \<lparr>pp_root = ''/'', pp_parts = []\<rparr>, dp_resolve = (\<lambda>s. Some s)\<rparr>"

lemma demo_thread_dirs:
  "thread_dir demo_data ''t1'' (Some ''u1'')
     = Inr \<lparr>pp_root = ''/'', pp_parts = [''data'', ''users'', ''u1'', ''threads'', ''t1'']\<rparr>"
  "thread_dir demo_data ''t1'' None = Inr \<lparr>pp_root = ''/'', pp_parts = [''data'', ''threads'', ''t1'']\<rparr>"
  by (code_simp, code_simp)

theorem thread_directories_are_disjoint_witness:
  "\<forall>p. \<not> (path_below p \<lparr>pp_root = ''/'', pp_parts = [''data'', ''users'', ''u1'', ''threads'', ''t1'']\<rparr>
      \<and> path_below p \<lparr>pp_root = ''/'', pp_parts = [''data'', ''threads'', ''t1'']\<rparr>)"
  using thread_directories_are_disjoint [OF demo_thread_dirs] by simp


text \<open>Every existing path has existing ancestors.\<close>

definition tree_closed :: "tree \<Rightarrow> bool" where
  "tree_closed tr \<longleftrightarrow> (\<forall>p \<in> fst ` set tr. \<forall>q. path_below p q \<longrightarrow> q \<in> fst ` set tr)"

lemma make_dirs_dom: "fst ` set (make_dirs d tr) = fst ` set tr \<union> {q. path_below d q}"
proof -
  have "fst ` set (fold (\<lambda>ps. od_set (d\<lparr>pp_parts := ps\<rparr>) True) pss tr)
      = fst ` set tr \<union> (\<lambda>ps. d\<lparr>pp_parts := ps\<rparr>) ` set pss" for pss
    by (induction pss arbitrary: tr) auto
  moreover have "(\<lambda>ps. d\<lparr>pp_parts := ps\<rparr>) ` {ps. prefix ps (pp_parts d)} = {q. path_below d q}"
  proof -
    have "q = d\<lparr>pp_parts := pp_parts q\<rparr>" if "path_below d q" for q
      using that by (cases q; cases d) (simp add: path_below_def)
    then show ?thesis by (force simp: path_below_def)
  qed
  moreover have "set (prefixes (pp_parts d)) = {ps. prefix ps (pp_parts d)}" by auto
  ultimately show ?thesis by (simp only: make_dirs_def)
qed

lemma make_dirs_closed: "tree_closed tr \<Longrightarrow> tree_closed (make_dirs d tr)"
  unfolding tree_closed_def make_dirs_dom using path_below_trans by blast

lemma fold_make_dirs_closed: "tree_closed tr \<Longrightarrow> tree_closed (fold make_dirs ds tr)"
  by (induction ds arbitrary: tr) (auto intro: make_dirs_closed)

lemma ensure_thread_dirs_closed:
  "ensure_thread_dirs dp t user tr = Inr tr' \<Longrightarrow> tree_closed tr \<Longrightarrow> tree_closed tr'"
  by (auto simp: ensure_thread_dirs_def res_simps intro: fold_make_dirs_closed)

lemma map_of_filter_keys: "map_of (filter (\<lambda>e. P (fst e)) xs) k = (if P k then map_of xs k else None)"
  by (induction xs) auto

text \<open>Deleting a thread removes everything below its directory and nothing else; in particular
  every path of any other thread stays as it was.\<close>

lemma thread_deletion_is_confined:
  assumes "delete_thread_dir dp t user tr = Inr tr'" and "tree_closed tr"
  shows "\<exists>d. thread_dir dp t user = Inr d
    \<and> (\<forall>p. map_of tr' p = (if path_below p d then None else map_of tr p))
    \<and> (\<forall>t' user' d' p. (t', user') \<noteq> (t, user) \<and> thread_dir dp t' user' = Inr d' \<and> path_below p d'
          \<longrightarrow> map_of tr' p = map_of tr p)"
proof -
  obtain d where d: "thread_dir dp t user = Inr d"
    and tr': "tr' = (if d \<in> fst ` set tr then filter (\<lambda>e. \<not> path_below (fst e) d) tr else tr)"
    using assms(1) by (auto simp: delete_thread_dir_def res_simps)
  have all: "map_of tr' p = (if path_below p d then None else map_of tr p)" for p
  proof (cases "d \<in> fst ` set tr")
    case True
    then show ?thesis using tr' map_of_filter_keys [of "\<lambda>p. \<not> path_below p d" tr p] by simp
  next
    case False
    then have "p \<notin> fst ` set tr" if "path_below p d" using assms(2) that by (auto simp: tree_closed_def)
    with False tr' show ?thesis by (simp add: map_of_None_iff)
  qed
  moreover have "map_of tr' p = map_of tr p"
    if "(t', user') \<noteq> (t, user)" "thread_dir dp t' user' = Inr d'" "path_below p d'" for t' user' d' p
    using all [of p] thread_dirs_meet [OF d that(2) _ that(3)] that(1) by auto
  ultimately show ?thesis using d by blast
qed

lemma sanitized_chars: "list_all safe_id_char (sanitize_user_id raw)"
  by (auto simp: sanitize_user_id_def list_all_iff safe_id_char_def)

lemma sanitize_id: "list_all safe_id_char s \<Longrightarrow> sanitize_user_id s = s"
  by (induction s) (auto simp: sanitize_user_id_def)

lemma safe_chars_id: "s \<noteq> '''' \<Longrightarrow> list_all safe_id_char s \<Longrightarrow> safe_id s"
  using safe_chars(3) [of s] by (auto simp: safe_id_def suffix_def)

text \<open>With hexadecimal digests, every nonempty external id becomes a valid user id, safe ids
  unchanged, and the id is its own normal form.  But the ids of two external users can be the same:
  for each unsafe one there is another that is given the same directory.\<close>

lemma safe_user_id_spec:
  assumes "raw \<noteq> ''''" and "\<forall>x. list_all safe_id_char (digest x)"
  shows "\<exists>s. make_safe_user_id digest raw = Inr s \<and> validate_user_id s = Inr s
    \<and> make_safe_user_id digest s = Inr s
    \<and> (list_all safe_id_char raw \<longrightarrow> s = raw)
    \<and> (\<not> list_all safe_id_char raw \<longrightarrow> (\<exists>raw'. raw' \<noteq> raw \<and> make_safe_user_id digest raw' = Inr s))"
proof -
  define s where "s = (if sanitize_user_id raw = raw then raw else sanitize_user_id raw @ ''-'' @ take 16 (digest raw))"
  have dash: "safe_id_char (CHR ''-'')" by (simp add: safe_id_char_def)
  have "list_all safe_id_char (take 16 (digest raw))"
    using assms(2) by (metis (no_types) list_all_append append_take_drop_id)
  with dash sanitized_chars [of raw] have chars: "list_all safe_id_char s"
    by (auto simp: s_def list_all_append)
  have ne: "s \<noteq> ''''" using assms(1) by (auto simp: s_def)
  have "make_safe_user_id digest raw = Inr s" using assms(1) by (simp add: make_safe_user_id_def s_def)
  moreover have "make_safe_user_id digest s = Inr s"
    using ne sanitize_id [OF chars] by (simp add: make_safe_user_id_def)
  moreover have "validate_user_id s = Inr s" using safe_chars_id [OF ne chars] by (simp add: validate_user_id_def)
  moreover have "list_all safe_id_char raw \<Longrightarrow> s = raw" using sanitize_id by (simp add: s_def)
  moreover have "\<not> list_all safe_id_char raw \<Longrightarrow> s \<noteq> raw" using chars by auto
  ultimately show ?thesis by metis
qed

end
