(* ===== verification/SandboxPaths.thy ===== *)
theory SandboxPaths
  imports DataPaths
begin

text \<open>
  The path policy of the file tools on the local sandbox (\<open>sandbox/tools.py\<close>): which virtual paths
  a tool may read or write, how they map to the directories of the thread, and the check that a
  resolved path stays inside them.  The configuration and the disk are the fields of \<open>path_env\<close>;
  \<open>pv_resolve\<close> is \<open>Path.resolve\<close> on the text of a path, \<open>None\<close> where it raises.
\<close>

section \<open>Configuration\<close>

datatype path_error =
    PermissionError string
  | SandboxRuntimeError string
  | SandboxNotFoundError string
  | FileNotFoundError string
  | IsADirectoryError string
  | NotADirectoryError string
  | FileExistsError string
  | ReadOnlyFileSystem string
  | FileTooLarge string
  | UnicodeDecodeError
  | ResolveError
  | DataPathError data_path_error
  | OtherError string

record mount =
  mt_container :: string
  mt_read_only :: bool

record thread_dirs =
  td_workspace :: "string option"
  td_uploads :: "string option"
  td_outputs :: "string option"

record path_env =
  pv_skills_container :: string
  pv_skills_host :: "string option"
  pv_mounts :: "mount list"
  pv_acp_host :: "string option \<Rightarrow> string option"
  pv_resolve :: "string \<Rightarrow> string option"

definition default_skills_container_path :: string where
  "default_skills_container_path = ''/mnt/skills''"

definition acp_workspace_virtual_path :: string where
  "acp_workspace_virtual_path = ''/mnt/acp-workspace''"

text \<open>
  The values come from getters that remember the first one they could read.  A configuration that
  does not load is \<open>None\<close>; a path comes with the answer whether it exists.
\<close>

definition get_skills_container_path :: "string option \<Rightarrow> string option \<Rightarrow> string \<times> string option" where
  "get_skills_container_path config cached =
     (case cached of
        Some v \<Rightarrow> (v, cached)
      | None \<Rightarrow>
          (case config of
             Some v \<Rightarrow> (v, Some v)
           | None \<Rightarrow> (default_skills_container_path, None)))"

definition get_skills_host_path :: "(string \<times> bool) option \<Rightarrow> string option \<Rightarrow> string option \<times> string option" where
  "get_skills_host_path config cached =
     (case cached of
        Some v \<Rightarrow> (Some v, cached)
      | None \<Rightarrow>
          (case config of
             Some (v, True) \<Rightarrow> (Some v, Some v)
           | _ \<Rightarrow> (None, None)))"

definition get_custom_mounts :: "(mount \<times> bool) list option \<Rightarrow> mount list option \<Rightarrow> mount list \<times> mount list option" where
  "get_custom_mounts config cached =
     (case cached of
        Some ms \<Rightarrow> (ms, cached)
      | None \<Rightarrow>
          (case config of
             Some ms \<Rightarrow> (let found = map fst (filter snd ms) in (found, Some found))
           | None \<Rightarrow> ([], None)))"

text \<open>Without a thread the workspace is a global one.\<close>

definition get_acp_workspace_host_path ::
    "data_paths \<Rightarrow> string \<Rightarrow> (pure_path \<Rightarrow> bool) \<Rightarrow> string option \<Rightarrow> string option \<Rightarrow> string option \<times> string option" where
  "get_acp_workspace_host_path dp user on_disk thread_id cached =
     (case thread_id of
        Some t \<Rightarrow>
          (case acp_workspace_dir dp t (Some user) of
             Inr p \<Rightarrow> (if on_disk p then Some (path_text p) else None, cached)
           | Inl _ \<Rightarrow> (None, cached))
      | None \<Rightarrow>
          (case cached of
             Some v \<Rightarrow> (Some v, cached)
           | None \<Rightarrow>
               (case below_base dp [''acp-workspace''] of
                  Inr p \<Rightarrow> (if on_disk p then (Some (path_text p), Some (path_text p)) else (None, None))
                | Inl _ \<Rightarrow> (None, None))))"

record mcp_server =
  ms_enabled :: bool
  ms_args :: "string list"

text \<open>The directories the file system servers of the MCP configuration may reach.\<close>

definition get_mcp_allowed_paths :: "mcp_server list option \<Rightarrow> string list" where
  "get_mcp_allowed_paths servers =
     (case servers of
        None \<Rightarrow> []
      | Some ss \<Rightarrow>
          concat (map (\<lambda>s.
            if ms_enabled s \<and> list_ex (contains_text ''server-filesystem'') (ms_args s)
            then map (\<lambda>a. rstrip_chars ''/'' a @ ''/'')
                   (filter (\<lambda>a. \<not> prefix ''-'' a \<and> prefix ''/'' a) (ms_args s))
            else []) ss))"

section \<open>Families of virtual paths\<close>

definition under_prefix :: "string \<Rightarrow> string \<Rightarrow> bool" where
  "under_prefix base path \<longleftrightarrow> path = base \<or> prefix (base @ ''/'') path"

definition is_skills_path :: "path_env \<Rightarrow> string \<Rightarrow> bool" where
  "is_skills_path env path = under_prefix (pv_skills_container env) path"

definition is_acp_workspace_path :: "string \<Rightarrow> bool" where
  "is_acp_workspace_path path = under_prefix acp_workspace_virtual_path path"

definition is_custom_mount_path :: "path_env \<Rightarrow> string \<Rightarrow> bool" where
  "is_custom_mount_path env path = list_ex (\<lambda>m. under_prefix (mt_container m) path) (pv_mounts env)"

fun best_mount :: "string \<Rightarrow> mount option \<Rightarrow> mount list \<Rightarrow> mount option" where
  "best_mount path best [] = best"
| "best_mount path best (m # ms) =
     best_mount path
       (if under_prefix (mt_container m) path
          \<and> (case best of None \<Rightarrow> True | Some b \<Rightarrow> length (mt_container b) < length (mt_container m))
        then Some m else best) ms"

definition get_custom_mount_for_path :: "path_env \<Rightarrow> string \<Rightarrow> mount option" where
  "get_custom_mount_for_path env path = best_mount path None (pv_mounts env)"

section \<open>Joining and mapping\<close>

definition path_separator_for_style :: "string \<Rightarrow> char" where
  "path_separator_for_style path = (if backslash \<in> set path \<and> slash \<notin> set path then backslash else slash)"

definition join_path_preserving_style :: "string \<Rightarrow> string \<Rightarrow> string" where
  "join_path_preserving_style base relative =
     (if relative = '''' then base
      else
        (let sep = path_separator_for_style base;
             rel = lstrip_chars [slash, backslash]
                     (replace_char (if sep = slash then backslash else slash) sep relative)
         in rstrip_chars [slash, backslash] base @ [sep] @ rel))"

definition nonempty :: "string option \<Rightarrow> bool" where
  "nonempty p \<longleftrightarrow> p \<noteq> None \<and> p \<noteq> Some ''''"

definition present_dirs :: "thread_dirs \<Rightarrow> (string \<times> string) list" where
  "present_dirs td =
     map (\<lambda>(v, p). (v, the p)) (filter (\<lambda>(v, p). nonempty p)
       [(virtual_path_prefix @ ''/workspace'', td_workspace td),
        (virtual_path_prefix @ ''/uploads'', td_uploads td),
        (virtual_path_prefix @ ''/outputs'', td_outputs td)])"

text \<open>The virtual root is mapped as well when all known directories have the same parent.\<close>

definition thread_virtual_to_actual_mappings :: "thread_dirs \<Rightarrow> (string \<times> string) list" where
  "thread_virtual_to_actual_mappings td =
     (let mappings = present_dirs td;
          parents = map (\<lambda>(v, p). path_text (path_parent (pure_path_of p))) mappings
      in (if parents \<noteq> [] \<and> list_all (\<lambda>p. p = hd parents) parents
          then od_set virtual_path_prefix (hd parents) mappings else mappings))"

fun replace_by_mappings :: "string \<Rightarrow> (string \<times> string) list \<Rightarrow> string" where
  "replace_by_mappings path [] = path"
| "replace_by_mappings path ((virt, actual) # ms) =
     (if path = virt then actual
      else if prefix (virt @ ''/'') path then
        (let result = join_path_preserving_style actual (lstrip_chars ''/'' (drop (length virt) path))
         in if suffix ''/'' path \<and> \<not> (suffix ''/'' result \<or> suffix [backslash] result)
            then result @ [path_separator_for_style actual] else result)
      else replace_by_mappings path ms)"

definition replace_virtual_path :: "string \<Rightarrow> thread_dirs option \<Rightarrow> string" where
  "replace_virtual_path path td =
     (case td of
        None \<Rightarrow> path
      | Some d \<Rightarrow> replace_by_mappings path (sorted_desc (length \<circ> fst) (thread_virtual_to_actual_mappings d)))"

definition extract_thread_id_from_thread_data :: "thread_dirs option \<Rightarrow> string option" where
  "extract_thread_id_from_thread_data td =
     (case td of
        None \<Rightarrow> None
      | Some d \<Rightarrow>
          (case td_workspace d of
             None \<Rightarrow> None
           | Some w \<Rightarrow> (if w = '''' then None
                        else Some (path_name (path_parent (path_parent (pure_path_of w)))))))"

section \<open>Checks\<close>

definition traversal :: path_error where
  "traversal = PermissionError ''Access denied: path traversal detected''"

definition reject_path_traversal :: "string \<Rightarrow> path_error + unit" where
  "reject_path_traversal path =
     check (''..'' \<notin> set (str_split slash (replace_char backslash slash path))) traversal"

definition validate_local_tool_path ::
    "path_env \<Rightarrow> string \<Rightarrow> thread_dirs option \<Rightarrow> bool \<Rightarrow> path_error + unit" where
  "validate_local_tool_path env path td read_only =
     (case td of
        None \<Rightarrow> Inl (SandboxRuntimeError ''Thread data not available for local sandbox'')
      | Some d \<Rightarrow>
          rbind (reject_path_traversal path) (\<lambda>_.
            if is_skills_path env path then
              check read_only (PermissionError (''Write access to skills path is not allowed: '' @ path))
            else if is_acp_workspace_path path then
              check read_only (PermissionError (''Write access to ACP workspace is not allowed: '' @ path))
            else if prefix (virtual_path_prefix @ ''/'') path then Inr ()
            else if is_custom_mount_path env path then
              (case get_custom_mount_for_path env path of
                 Some m \<Rightarrow> check (\<not> mt_read_only m \<or> read_only)
                   (PermissionError (''Write access to read-only mount is not allowed: '' @ path))
               | None \<Rightarrow> Inr ())
            else Inl (PermissionError (''Only paths under '' @ virtual_path_prefix @ ''/, '' @ pv_skills_container env
                   @ ''/, '' @ acp_workspace_virtual_path @ ''/, or configured mount paths are allowed''))))"

text \<open>\<open>Path(text).resolve()\<close>.\<close>

definition resolve_path :: "path_env \<Rightarrow> string \<Rightarrow> path_error + pure_path" where
  "resolve_path env text =
     (case pv_resolve env (path_text (pure_path_of text)) of
        None \<Rightarrow> Inl ResolveError
      | Some r \<Rightarrow> Inr (pure_path_of r))"

definition allowed_roots :: "path_env \<Rightarrow> thread_dirs \<Rightarrow> path_error + pure_path list" where
  "allowed_roots env td =
     map_res (resolve_path env) (List.map_filter id [td_workspace td, td_uploads td, td_outputs td])"

definition validate_resolved_user_data_path :: "path_env \<Rightarrow> pure_path \<Rightarrow> thread_dirs \<Rightarrow> path_error + unit" where
  "validate_resolved_user_data_path env resolved td =
     rbind (allowed_roots env td) (\<lambda>roots.
       if roots = [] then Inl (SandboxRuntimeError ''No allowed local sandbox directories configured'')
       else check (list_ex (path_below resolved) roots) traversal)"

definition resolve_and_validate_user_data_path :: "path_env \<Rightarrow> string \<Rightarrow> thread_dirs \<Rightarrow> path_error + string" where
  "resolve_and_validate_user_data_path env path td =
     rbind (resolve_path env (replace_virtual_path path (Some td))) (\<lambda>resolved.
       rbind (validate_resolved_user_data_path env resolved td) (\<lambda>_. Inr (path_text resolved)))"

definition resolve_skills_path :: "path_env \<Rightarrow> string \<Rightarrow> path_error + string" where
  "resolve_skills_path env path =
     (case pv_skills_host env of
        None \<Rightarrow> Inl (FileNotFoundError (''Skills directory not available for path: '' @ path))
      | Some host \<Rightarrow>
          (if path = pv_skills_container env then Inr host
           else Inr (join_path_preserving_style host
                  (lstrip_chars ''/'' (drop (length (pv_skills_container env)) path)))))"


text \<open>\<open>posixpath.normpath\<close> and \<open>posixpath.commonpath\<close> of two paths; \<open>None\<close> when one is absolute
  and the other is not.\<close>

fun norm_parts :: "bool \<Rightarrow> string list \<Rightarrow> string list \<Rightarrow> string list" where
  "norm_parts absolute acc [] = rev acc"
| "norm_parts absolute acc (c # cs) =
     (if \<not> kept_part c then norm_parts absolute acc cs
      else if c \<noteq> ''..'' \<or> (\<not> absolute \<and> acc = []) \<or> (acc \<noteq> [] \<and> hd acc = ''..'')
      then norm_parts absolute (c # acc) cs
      else norm_parts absolute (tl acc) cs)"

definition posix_normpath :: "string \<Rightarrow> string" where
  "posix_normpath p =
     path_text \<lparr>pp_root = posix_root p, pp_parts = norm_parts (posix_root p \<noteq> '''') [] (str_split slash p)\<rparr>"

definition posix_commonpath :: "string \<Rightarrow> string \<Rightarrow> string option" where
  "posix_commonpath a b =
     (if prefix ''/'' a \<noteq> prefix ''/'' b then None
      else Some ((if prefix ''/'' a then ''/'' else '''')
             @ join_with ''/'' (longest_common_prefix (path_parts a) (path_parts b))))"

definition resolve_acp_workspace_path :: "path_env \<Rightarrow> string \<Rightarrow> string option \<Rightarrow> path_error + string" where
  "resolve_acp_workspace_path env path thread_id =
     rbind (reject_path_traversal path) (\<lambda>_.
       case pv_acp_host env thread_id of
         None \<Rightarrow> Inl (FileNotFoundError (''ACP workspace directory not available for path: '' @ path))
       | Some host \<Rightarrow>
           (if path = acp_workspace_virtual_path then Inr host
            else
              (let resolved = join_path_preserving_style host
                     (lstrip_chars ''/'' (drop (length acp_workspace_virtual_path) path))
               in if slash \<in> set host \<and> backslash \<notin> set host then
                    rbind (check (posix_commonpath (posix_normpath host) (posix_normpath resolved)
                                   = Some (posix_normpath host)) traversal)
                      (\<lambda>_. Inr resolved)
                  else
                    rbind (resolve_path env resolved) (\<lambda>r.
                    rbind (resolve_path env host) (\<lambda>h.
                    rbind (check (path_below r h) traversal) (\<lambda>_. Inr (path_text r)))))))"

section \<open>Paths of the tools\<close>

text \<open>\<open>_resolve_local_read_path\<close>, which \<open>glob\<close> and \<open>grep\<close> use.\<close>

definition resolve_local_read_path :: "path_env \<Rightarrow> string \<Rightarrow> thread_dirs \<Rightarrow> path_error + string" where
  "resolve_local_read_path env path td =
     rbind (validate_local_tool_path env path (Some td) True) (\<lambda>_.
       if is_skills_path env path then resolve_skills_path env path
       else if is_acp_workspace_path path
       then resolve_acp_workspace_path env path (extract_thread_id_from_thread_data (Some td))
       else resolve_and_validate_user_data_path env path td)"

text \<open>The path \<open>ls\<close> and \<open>read_file\<close> hand to the sandbox; custom mounts are left to the sandbox.\<close>

definition read_tool_path :: "path_env \<Rightarrow> string \<Rightarrow> thread_dirs option \<Rightarrow> path_error + string" where
  "read_tool_path env path td =
     rbind (validate_local_tool_path env path td True) (\<lambda>_.
       if is_skills_path env path then resolve_skills_path env path
       else if is_acp_workspace_path path
       then resolve_acp_workspace_path env path (extract_thread_id_from_thread_data td)
       else if \<not> is_custom_mount_path env path
       then (case td of None \<Rightarrow> Inr path | Some d \<Rightarrow> resolve_and_validate_user_data_path env path d)
       else Inr path)"

text \<open>The path \<open>write_file\<close> and \<open>str_replace\<close> hand to the sandbox.\<close>

definition write_tool_path :: "path_env \<Rightarrow> string \<Rightarrow> thread_dirs option \<Rightarrow> path_error + string" where
  "write_tool_path env path td =
     rbind (validate_local_tool_path env path td False) (\<lambda>_.
       if \<not> is_custom_mount_path env path
       then (case td of None \<Rightarrow> Inr path | Some d \<Rightarrow> resolve_and_validate_user_data_path env path d)
       else Inr path)"


section \<open>Joining keeps a path below its base\<close>

lemma lstrip_split: "\<exists>p. s = p @ lstrip_chars cs s \<and> set p \<subseteq> set cs"
  unfolding lstrip_chars_def
  by (rule exI [of _ "takeWhile (\<lambda>c. c \<in> set cs) s"]) (auto dest: set_takeWhileD)

lemma rstrip_split: "\<exists>p. s = rstrip_chars cs s @ p \<and> set p \<subseteq> set cs"
proof -
  have "rev s = takeWhile (\<lambda>c. c \<in> set cs) (rev s) @ dropWhile (\<lambda>c. c \<in> set cs) (rev s)" by simp
  then have "s = rstrip_chars cs s @ rev (takeWhile (\<lambda>c. c \<in> set cs) (rev s))"
    unfolding rstrip_chars_def by (metis rev_append rev_rev_ident)
  then show ?thesis by (intro exI [of _ "rev (takeWhile (\<lambda>c. c \<in> set cs) (rev s))"]) (auto dest: set_takeWhileD)
qed

lemma slashes_front: "set p \<subseteq> {slash} \<Longrightarrow> path_parts (p @ s) = path_parts s"
  by (induction p) auto

lemma slashes_back: "set p \<subseteq> {slash} \<Longrightarrow> path_parts (s @ p) = path_parts s"
proof -
  assume "set p \<subseteq> {slash}"
  then have "p = replicate (length p) slash" by (metis replicate_length_same singletonD subsetD)
  then show ?thesis by (metis path_parts_rstrip)
qed

lemma replaced_char: "b \<noteq> a \<Longrightarrow> a \<notin> set (replace_char a b s)"
  by (auto simp: replace_char_def split: if_splits)

lemma replace_absent: "a \<notin> set s \<Longrightarrow> replace_char a b s = s"
  by (induction s) (auto simp: replace_char_def)

lemma strip_posix:
  assumes "backslash \<notin> set s"
  shows "path_parts (lstrip_chars [slash, backslash] s) = path_parts s"
    and "path_parts (rstrip_chars [slash, backslash] s) = path_parts s"
proof -
  obtain p where p: "s = p @ lstrip_chars [slash, backslash] s" "set p \<subseteq> {slash, backslash}"
    using lstrip_split [of s "[slash, backslash]"] by auto
  from p(1) have "set p \<subseteq> set s" by (metis Un_upper1 set_append)
  with assms p(2) have "set p \<subseteq> {slash}" by auto
  with p(1) show "path_parts (lstrip_chars [slash, backslash] s) = path_parts s" by (metis slashes_front)
  obtain q where q: "s = rstrip_chars [slash, backslash] s @ q" "set q \<subseteq> {slash, backslash}"
    using rstrip_split [of s "[slash, backslash]"] by auto
  from q(1) have "set q \<subseteq> set s" by (metis Un_upper2 set_append)
  with assms q(2) have "set q \<subseteq> {slash}" by auto
  with q(1) show "path_parts (rstrip_chars [slash, backslash] s) = path_parts s" by (metis slashes_back)
qed

text \<open>A host directory of a POSIX system: an absolute path without backslashes.\<close>

definition posix_dir :: "string \<Rightarrow> bool" where
  "posix_dir d \<longleftrightarrow> posix_root d = ''/'' \<and> backslash \<notin> set d"

lemma posix_dir_slash: "posix_dir d \<Longrightarrow> slash \<in> set d"
  by (auto simp: posix_dir_def posix_root_def prefix_def split: if_splits)

lemma join_posix:
  assumes "posix_dir base"
  shows "pure_path_of (join_path_preserving_style base rel) =
    \<lparr>pp_root = ''/'', pp_parts = path_parts base @ path_parts (replace_char backslash slash rel)\<rparr>"
proof (cases "rel = ''''")
  case True
  then show ?thesis
    using assms by (simp add: join_path_preserving_style_def pure_path_of_def posix_dir_def replace_char_def)
next
  case False
  let ?r = "lstrip_chars [slash, backslash] (replace_char backslash slash rel)"
  let ?b = "rstrip_chars [slash, backslash] base"
  have sep: "path_separator_for_style base = slash"
    using posix_dir_slash [OF assms] by (simp add: path_separator_for_style_def)
  have no: "backslash \<notin> set (replace_char backslash slash rel)" by (rule replaced_char) simp
  have shape: "join_path_preserving_style base rel = ?b @ slash # ?r"
    using False sep by (simp add: join_path_preserving_style_def Let_def)
  have parts: "path_parts (?b @ slash # ?r) = path_parts base @ path_parts (replace_char backslash slash rel)"
    using assms strip_posix(2) [of base] by (simp add: path_parts_append strip_posix(1) [OF no] posix_dir_def)
  have "posix_root (?b @ slash # ?r) = ''/''"
  proof (cases ?b)
    case Nil
    have "?r = [] \<or> hd ?r \<notin> {slash, backslash}"
      unfolding lstrip_chars_def by (metis hd_dropWhile insertCI list.simps(15) set_simps(1) insert_iff singletonD)
    then have "\<not> prefix ''//'' (slash # ?r)" by (cases ?r) auto
    with Nil show ?thesis by (auto simp: posix_root_def)
  next
    case (Cons c b)
    obtain q where q: "base = ?b @ q" using rstrip_split by blast
    have last: "last ?b \<notin> {slash, backslash}"
      using Cons unfolding rstrip_chars_def
      by (metis (no_types, lifting) hd_dropWhile last_rev list.distinct(1) rev.simps(1) rev_rev_ident set_simps(1,2) list.set(1,2))
    have "posix_root (?b @ q) = ''/''" using assms q by (metis posix_dir_def)
    moreover obtain x y where "?b = x # y" using Cons by blast
    ultimately show ?thesis using last
      by (cases y; cases "tl y") (auto simp: posix_root_def split: if_splits)
  qed
  with shape parts show ?thesis by (simp add: pure_path_of_def)
qed


section \<open>Where an accepted path leads\<close>

lemma rejected_parts:
  assumes "reject_path_traversal path = Inr ()"
  shows "''..'' \<notin> set (path_parts (replace_char backslash slash path))"
  using assms by (auto simp: reject_path_traversal_def res_simps path_parts_def)

lemma replace_char_append: "replace_char a b (s @ t) = replace_char a b s @ replace_char a b t"
  by (simp add: replace_char_def)

lemma lstrip_slash_parts:
  "path_parts (replace_char backslash slash (lstrip_chars ''/'' s)) = path_parts (replace_char backslash slash s)"
proof -
  obtain p where p: "s = p @ lstrip_chars ''/'' s" "set p \<subseteq> {slash}" using lstrip_split [of s "''/''"] by auto
  then have "replace_char backslash slash p = p" by (intro replace_absent) auto
  with p show ?thesis by (metis replace_char_append slashes_front)
qed

lemma rest_parts:
  assumes "prefix (virt @ ''/'') path"
  shows "set (path_parts (replace_char backslash slash (drop (length virt) path)))
           \<subseteq> set (path_parts (replace_char backslash slash path))"
proof -
  obtain t where t: "path = virt @ slash # t" using assms by (auto simp: prefix_def)
  then show ?thesis by (simp add: replace_char_append path_parts_append)
      (simp add: replace_char_def path_parts_append)
qed

text \<open>A path below \<open>d\<close> that contains no upward step.\<close>

definition lexically_below :: "string \<Rightarrow> string \<Rightarrow> bool" where
  "lexically_below d s \<longleftrightarrow>
     (\<exists>rest. pure_path_of s = \<lparr>pp_root = ''/'', pp_parts = path_parts d @ rest\<rparr> \<and> ''..'' \<notin> set rest)"

lemma lexically_below_refl: "posix_dir d \<Longrightarrow> lexically_below d d"
  by (auto simp: lexically_below_def pure_path_of_def posix_dir_def)

lemma lexically_below_trailing:
  assumes "lexically_below d s" and "s \<noteq> ''/''"
  shows "lexically_below d (s @ ''/'')"
proof -
  obtain rest where r: "pure_path_of s = \<lparr>pp_root = ''/'', pp_parts = path_parts d @ rest\<rparr>" "''..'' \<notin> set rest"
    using assms(1) unfolding lexically_below_def by blast
  have root: "posix_root s = ''/''" using r(1) by (simp add: pure_path_of_def)
  then obtain c t where "s = slash # c # t" using assms(2)
    by (cases s; cases "tl s") (auto simp: posix_root_def split: if_splits)
  with root have "posix_root (s @ ''/'') = ''/''"
    by (cases t) (auto simp: posix_root_def split: if_splits)
  with r show ?thesis by (auto simp: lexically_below_def pure_path_of_def path_parts_append)
qed

lemma replace_by_mappings_cases:
  assumes "reject_path_traversal path = Inr ()" and "\<forall>e \<in> set ms. posix_dir (snd e)"
  shows "(\<forall>e \<in> set ms. \<not> under_prefix (fst e) path) \<and> replace_by_mappings path ms = path
    \<or> (\<exists>pre v d post. ms = pre @ (v, d) # post \<and> (\<forall>e \<in> set pre. \<not> under_prefix (fst e) path)
          \<and> under_prefix v path \<and> lexically_below d (replace_by_mappings path ms))"
    (is "?none ms \<or> ?some ms")
  using assms(2)
proof (induction ms)
  case Nil
  then show ?case by simp
next
  case (Cons e ms)
  obtain v d where e: "e = (v, d)" by (cases e)
  have d: "posix_dir d" using Cons.prems e by simp
  have hit: "?some (e # ms)" if "under_prefix v path" "lexically_below d (replace_by_mappings path (e # ms))"
    using that by (intro exI [of _ "[]"] exI [of _ v] exI [of _ d] exI [of _ ms]) (simp add: e)
  consider "path = v" | "path \<noteq> v" "prefix (v @ ''/'') path" | "path \<noteq> v" "\<not> prefix (v @ ''/'') path" by blast
  then show ?case
  proof cases
    case 1
    then show ?thesis using hit e lexically_below_refl [OF d] by (simp add: under_prefix_def)
  next
    case 2
    let ?rel = "lstrip_chars ''/'' (drop (length v) path)"
    let ?r = "join_path_preserving_style d ?rel"
    have below: "lexically_below d ?r"
      using join_posix [OF d, of ?rel] rejected_parts [OF assms(1)] rest_parts [OF 2(2)]
      by (auto simp: lexically_below_def lstrip_slash_parts)
    have "path_separator_for_style d = slash" using posix_dir_slash [OF d] by (simp add: path_separator_for_style_def)
    moreover have "suffix ''/'' ''/''" by simp
    ultimately have "lexically_below d (replace_by_mappings path (e # ms))"
      using 2 e below lexically_below_trailing [OF below] by (auto simp: Let_def)
    then show ?thesis using hit 2 by (simp add: under_prefix_def)
  next
    case 3
    then have skip: "replace_by_mappings path (e # ms) = replace_by_mappings path ms" and not: "\<not> under_prefix v path"
      by (simp_all add: e under_prefix_def)
    from Cons have "?none ms \<or> ?some ms" by simp
    then show ?thesis
    proof
      assume "?none ms"
      then show ?thesis using skip not e by simp
    next
      assume "?some ms"
      then obtain pre v' d' post where "ms = pre @ (v', d') # post" "\<forall>e \<in> set pre. \<not> under_prefix (fst e) path"
        "under_prefix v' path" "lexically_below d' (replace_by_mappings path ms)" by blast
      with skip not e have "?some (e # ms)"
        by (intro exI [of _ "e # pre"] exI [of _ v'] exI [of _ d'] exI [of _ post]) simp
      then show ?thesis by blast
    qed
  qed
qed

lemma parent_posix: "posix_dir d \<Longrightarrow> posix_dir (path_text (path_parent (pure_path_of d)))"
proof -
  assume d: "posix_dir d"
  let ?p = "path_parent (pure_path_of d)"
  have ok: "path_ok ?p"
    using path_ok_of [of d] by (auto simp: path_ok_def path_parent_def dest: in_set_butlastD)
  have "posix_root (path_text ?p) = ''/''"
    using path_reads_back [OF ok] d by (metis pure_path.select_convs(1) pure_path_of_def path_parent_def
        pure_path.surjective pure_path.update_convs(2) posix_dir_def)
  moreover have "backslash \<notin> set (path_text ?p)"
  proof -
    have w: "backslash \<notin> set w" if "w \<in> set (pp_parts ?p)" for w
    proof -
      have "w \<in> set (str_split slash d)"
        using that by (auto simp: path_parent_def pure_path_of_def path_parts_def dest!: in_set_butlastD)
      from str_split_chars [OF this] d show ?thesis by (auto simp: posix_dir_def)
    qed
    have "set (join_with ''/'' ws) \<subseteq> insert slash (\<Union> (set ` set ws))" for ws
      by (induction "''/''" ws rule: join_with.induct) auto
    with w have "backslash \<notin> set (join_with ''/'' (pp_parts ?p))" by blast
    moreover have "pp_root ?p = ''/''" using d by (simp add: path_parent_def pure_path_of_def posix_dir_def)
    ultimately show ?thesis by (simp add: path_text_def)
  qed
  ultimately show ?thesis by (simp add: posix_dir_def)
qed

text \<open>The directories a thread has are host directories.\<close>

definition thread_dirs_ok :: "thread_dirs \<Rightarrow> bool" where
  "thread_dirs_ok td \<longleftrightarrow>
     (\<forall>p \<in> {td_workspace td, td_uploads td, td_outputs td}. case p of None \<Rightarrow> True | Some d \<Rightarrow> posix_dir d)"

lemma present_posix: "thread_dirs_ok td \<Longrightarrow> e \<in> set (present_dirs td) \<Longrightarrow> posix_dir (snd e)"
  by (auto simp: present_dirs_def thread_dirs_ok_def nonempty_def split: if_splits)

lemma mappings_posix:
  assumes "thread_dirs_ok td" and "e \<in> set (thread_virtual_to_actual_mappings td)"
  shows "posix_dir (snd e)"
proof (cases "e \<in> set (present_dirs td)")
  case True
  then show ?thesis using assms(1) by (rule present_posix [rotated])
next
  case False
  let ?ps = "map (\<lambda>(v, p). path_text (path_parent (pure_path_of p))) (present_dirs td)"
  have "e \<in> set (od_set virtual_path_prefix (hd ?ps) (present_dirs td))" and ne: "?ps \<noteq> []"
    using False assms(2) by (auto simp: thread_virtual_to_actual_mappings_def Let_def split: if_splits)
  then have e: "snd e = hd ?ps" using False od_set_items by fastforce
  from ne have "hd ?ps \<in> set ?ps" by (rule hd_in_set)
  then obtain v p where "(v, p) \<in> set (present_dirs td)" "hd ?ps = path_text (path_parent (pure_path_of p))"
    by auto
  with present_posix [OF assms(1)] parent_posix show ?thesis unfolding e by fastforce
qed

end
