(* ===== verification/LocalSandbox.thy ===== *)
theory LocalSandbox
  imports SandboxPaths
begin

text \<open>
  \<open>LocalSandbox\<close> (\<open>sandbox/local/local_sandbox.py\<close>): the mapping of container paths to host
  directories, read-only mounts, the rewriting of paths in commands, file contents and output, and
  the file operations on a disk.  Symbolic links are in \<open>pv_resolve\<close>; the disk maps resolved host
  paths to entries, and the words a directory walk or a search returns are arguments.  Writing creates
  the parent directories first, which fails when a file is in the way.  Running a command is in
  \<open>BashTool\<close>; \<open>replace_file\<close> is not modelled.
\<close>

section \<open>Mappings\<close>

record path_mapping =
  pm_container :: string
  pm_local :: string
  pm_read_only :: bool

record local_sandbox =
  ls_id :: string
  ls_mappings :: "path_mapping list"
  ls_written :: "string list"

record resolved_path =
  rp_path :: string
  rp_mapping :: "path_mapping option"

text \<open>The resolved local root of each mapping, in the order of the mappings.\<close>

definition resolved_local_paths :: "path_env \<Rightarrow> path_mapping list \<Rightarrow> path_error + (path_mapping \<times> string) list" where
  "resolved_local_paths env ms =
     map_res (\<lambda>m. rbind (resolve_path env (pm_local m)) (\<lambda>p. Inr (m, path_text p))) ms"

definition container_base :: "path_mapping \<Rightarrow> string" where
  "container_base m = (let b = rstrip_chars ''/'' (pm_container m) in if b = '''' then ''/'' else b)"

definition by_container_specificity :: "path_mapping list \<Rightarrow> path_mapping list" where
  "by_container_specificity ms = sorted_desc (length \<circ> container_base) ms"

definition by_local_specificity :: "path_mapping list \<Rightarrow> path_mapping list" where
  "by_local_specificity ms = sorted_desc (length \<circ> pm_local) ms"

fun best_local :: "string \<Rightarrow> (path_mapping \<times> nat) option \<Rightarrow> (path_mapping \<times> string) list \<Rightarrow> path_mapping option" where
  "best_local resolved best [] = map_option fst best"
| "best_local resolved best ((m, loc) # ms) =
     best_local resolved
       (if under_prefix loc resolved \<and> (case best of None \<Rightarrow> True | Some (_, n) \<Rightarrow> n < length loc)
        then Some (m, length loc) else best) ms"

definition is_read_only_path :: "path_env \<Rightarrow> path_mapping list \<Rightarrow> string \<Rightarrow> path_error + bool" where
  "is_read_only_path env ms path =
     rbind (resolve_path env path) (\<lambda>p.
     rbind (resolved_local_paths env ms) (\<lambda>rs.
       Inr (case best_local (path_text p) None rs of None \<Rightarrow> False | Some m \<Rightarrow> pm_read_only m)))"

fun first_mapping :: "string \<Rightarrow> path_mapping list \<Rightarrow> (path_mapping \<times> string) option" where
  "first_mapping path [] = None"
| "first_mapping path (m # ms) =
     (let c = container_base m
      in if c = ''/'' then
           (if prefix ''/'' path then Some (m, lstrip_chars ''/'' path) else first_mapping path ms)
         else if under_prefix c path then Some (m, lstrip_chars ''/'' (drop (length c) path))
         else first_mapping path ms)"

definition find_path_mapping :: "path_mapping list \<Rightarrow> string \<Rightarrow> (path_mapping \<times> string) option" where
  "find_path_mapping ms path = first_mapping path (by_container_specificity ms)"

text \<open>The resolved roots are computed for all mappings at once, on the first use.\<close>

definition resolve_path_with_mapping :: "path_env \<Rightarrow> path_mapping list \<Rightarrow> string \<Rightarrow> path_error + resolved_path" where
  "resolve_path_with_mapping env ms path =
     (case find_path_mapping ms path of
        None \<Rightarrow> Inr \<lparr>rp_path = path, rp_mapping = None\<rparr>
      | Some (m, relative) \<Rightarrow>
          rbind (resolved_local_paths env ms) (\<lambda>rs.
            let base = pure_path_of (the (map_of rs m))
            in rbind (if relative = '''' then Inr base else resolve_path env (path_text (path_join base relative)))
                 (\<lambda>resolved.
                    rbind (check (path_below resolved base)
                             (PermissionError ''Access denied: path escapes mounted directory''))
                      (\<lambda>_. Inr \<lparr>rp_path = path_text resolved, rp_mapping = Some m\<rparr>))))"

definition is_resolved_path_read_only :: "path_env \<Rightarrow> path_mapping list \<Rightarrow> resolved_path \<Rightarrow> path_error + bool" where
  "is_resolved_path_read_only env ms r =
     (if (case rp_mapping r of None \<Rightarrow> False | Some m \<Rightarrow> pm_read_only m) then Inr True
      else is_read_only_path env ms (rp_path r))"

fun first_local :: "string \<Rightarrow> (path_mapping \<times> string) list \<Rightarrow> string" where
  "first_local path [] = path"
| "first_local path ((m, loc) # ms) =
     (let base = replace_char backslash slash loc
      in if under_prefix base path then
           (let relative = lstrip_chars ''/'' (drop (length base) path)
            in if relative = '''' then pm_container m else pm_container m @ ''/'' @ relative)
         else first_local path ms)"

definition reverse_resolve_path :: "path_env \<Rightarrow> path_mapping list \<Rightarrow> string \<Rightarrow> path_error + string" where
  "reverse_resolve_path env ms path =
     rbind (resolve_path env (replace_char backslash slash path)) (\<lambda>p.
     rbind (resolved_local_paths env (by_local_specificity ms)) (\<lambda>rs.
       Inr (first_local (replace_char backslash slash (path_text p)) rs)))"


section \<open>Rewriting paths in texts\<close>

text \<open>\<open>pattern.sub(repl, text)\<close> for a pattern that never matches the empty text: \<open>match\<close> gives the
  length of a match at the front of a text.\<close>

function sub_matches :: "(string \<Rightarrow> nat option) \<Rightarrow> (string \<Rightarrow> path_error + string) \<Rightarrow> string \<Rightarrow> path_error + string" where
  "sub_matches match repl [] = Inr []"
| "sub_matches match repl (c # s) =
     (case match (c # s) of
        Some (Suc n) \<Rightarrow>
          rbind (repl (c # take n s)) (\<lambda>t. rbind (sub_matches match repl (drop n s)) (\<lambda>u. Inr (t @ u)))
      | _ \<Rightarrow> rbind (sub_matches match repl s) (\<lambda>u. Inr (c # u)))"
  by pat_completeness auto
termination by (relation "measure (\<lambda>(_, _, s). length s)") auto

text \<open>The character class that ends a path in a command, a content or an output, white space included.\<close>

definition path_stop :: "char \<Rightarrow> bool" where
  "path_stop c \<longleftrightarrow> is_space c \<or> c \<in> {CHR 0x22, CHR 0x27, CHR '';'', CHR ''&'', CHR ''|'', CHR ''<'', CHR ''>'',
     CHR ''('', CHR '')''}"

definition path_tail :: "char set \<Rightarrow> string \<Rightarrow> nat" where
  "path_tail seps s =
     (case s of [] \<Rightarrow> 0 | c # t \<Rightarrow> if c \<in> seps then Suc (length (takeWhile (\<lambda>x. \<not> path_stop x) t)) else 0)"

text \<open>The first alternative that matches, in the order of the mappings.\<close>

fun match_containers :: "(char \<Rightarrow> bool) \<Rightarrow> string list \<Rightarrow> string \<Rightarrow> nat option" where
  "match_containers ends [] s = None"
| "match_containers ends (base # bases) s =
     (if prefix base s
        \<and> (case drop (length base) s of [] \<Rightarrow> True | c # _ \<Rightarrow> c = slash \<or> ends c)
      then Some (length base + path_tail {slash} (drop (length base) s))
      else match_containers ends bases s)"

definition container_alternatives :: "path_mapping list \<Rightarrow> string list" where
  "container_alternatives ms = map pm_container (sorted_desc (length \<circ> pm_container) ms)"

definition resolved_text :: "path_env \<Rightarrow> path_mapping list \<Rightarrow> string \<Rightarrow> path_error + string" where
  "resolved_text env ms matched =
     rbind (resolve_path_with_mapping env ms matched) (\<lambda>r. Inr (replace_char backslash slash (rp_path r)))"

definition resolve_paths_in_command :: "path_env \<Rightarrow> path_mapping list \<Rightarrow> string \<Rightarrow> path_error + string" where
  "resolve_paths_in_command env ms command =
     sub_matches (match_containers path_stop (container_alternatives ms)) (resolved_text env ms) command"

definition content_stop :: "char \<Rightarrow> bool" where
  "content_stop c \<longleftrightarrow> \<not> (is_word c \<or> c = CHR ''.'' \<or> c = slash \<or> c = CHR ''-'')"

definition resolve_paths_in_content :: "path_env \<Rightarrow> path_mapping list \<Rightarrow> string \<Rightarrow> path_error + string" where
  "resolve_paths_in_content env ms content =
     sub_matches (match_containers content_stop (container_alternatives ms)) (resolved_text env ms) content"

text \<open>A host path with any run of separators for each of its separators; the length of the match.\<close>

fun separator_run :: "string \<Rightarrow> nat" where
  "separator_run [] = 0"
| "separator_run (c # s) = (if c = slash \<or> c = backslash then Suc (separator_run s) else 0)"

fun match_flexible :: "string list \<Rightarrow> string \<Rightarrow> nat option" where
  "match_flexible [] s = Some 0"
| "match_flexible [w] s = (if prefix w s then Some (length w) else None)"
| "match_flexible (w # ws) s =
     (let n = length w; k = separator_run (drop n s)
      in if prefix w s \<and> 0 < k then map_option (\<lambda>m. n + k + m) (match_flexible ws (drop (n + k) s)) else None)"

fun squeeze_separators :: "string \<Rightarrow> string" where
  "squeeze_separators (c # d # s) =
     (if c = slash \<and> d = slash then squeeze_separators (d # s) else c # squeeze_separators (d # s))"
| "squeeze_separators s = s"

definition match_local :: "string \<Rightarrow> string \<Rightarrow> nat option" where
  "match_local loc s =
     (case match_flexible (str_split slash (squeeze_separators (replace_char backslash slash loc))) s of
        None \<Rightarrow> None
      | Some n \<Rightarrow> Some (n + path_tail {slash, backslash} (drop n s)))"

fun sub_all :: "('a \<Rightarrow> string \<Rightarrow> path_error + string) \<Rightarrow> 'a list \<Rightarrow> string \<Rightarrow> path_error + string" where
  "sub_all f [] s = Inr s"
| "sub_all f (x # xs) s = rbind (f x s) (sub_all f xs)"

definition reverse_resolve_paths_in_output :: "path_env \<Rightarrow> path_mapping list \<Rightarrow> string \<Rightarrow> path_error + string" where
  "reverse_resolve_paths_in_output env ms output =
     rbind (resolved_local_paths env (by_local_specificity ms)) (\<lambda>rs.
       sub_all (\<lambda>(m, loc). sub_matches (match_local loc) (reverse_resolve_path env ms)) rs output)"

section \<open>Files\<close>

text \<open>A file holds text, or bytes that are not UTF-8, known by a number.\<close>

datatype file_content = TextContent string | RawContent nat

datatype disk_entry = FileEntry file_content | DirEntry

type_synonym disk = "(string \<times> disk_entry) list"

record sandbox_state =
  ss_sandbox :: local_sandbox
  ss_disk :: disk

definition read_file :: "path_env \<Rightarrow> string \<Rightarrow> sandbox_state \<Rightarrow> path_error + string" where
  "read_file env path st =
     (let sb = ss_sandbox st
      in rbind (resolve_path_with_mapping env (ls_mappings sb) path) (\<lambda>r.
           case map_of (ss_disk st) (rp_path r) of
             None \<Rightarrow> Inl (FileNotFoundError path)
           | Some DirEntry \<Rightarrow> Inl (IsADirectoryError path)
           | Some (FileEntry (RawContent _)) \<Rightarrow> Inl UnicodeDecodeError
           | Some (FileEntry (TextContent t)) \<Rightarrow>
               (let content = universal_newlines t
                in if rp_path r \<in> set (ls_written sb)
                   then reverse_resolve_paths_in_output env (ls_mappings sb) content
                   else Inr content)))"

text \<open>Opening for appending keeps what is there; text after raw bytes stays raw, as some other
  bytes, which \<open>mix\<close> names.\<close>

definition written_content :: "(nat \<Rightarrow> string \<Rightarrow> nat) \<Rightarrow> bool \<Rightarrow> disk_entry option \<Rightarrow> string \<Rightarrow> file_content" where
  "written_content mix appending old t =
     (if appending then
        (case old of
           Some (FileEntry (TextContent u)) \<Rightarrow> TextContent (u @ t)
         | Some (FileEntry (RawContent k)) \<Rightarrow> RawContent (mix k t)
         | _ \<Rightarrow> TextContent t)
      else TextContent t)"

text \<open>\<open>os.makedirs(path, exist_ok=True)\<close>: nothing is created when the path or one above it is a file; the root and
  the working directory exist.  The error carries \<open>name\<close>.\<close>

definition is_file :: "disk \<Rightarrow> string \<Rightarrow> bool" where
  "is_file d s = (case map_of d s of Some (FileEntry _) \<Rightarrow> True | _ \<Rightarrow> False)"

definition create_dirs :: "string \<Rightarrow> pure_path \<Rightarrow> disk \<Rightarrow> (path_error + unit) \<times> disk" where
  "create_dirs name p d =
     (let ps = ancestor_paths p
      in if list_ex (is_file d) (butlast ps) then (Inl (NotADirectoryError name), d)
         else if list_ex (is_file d) ps then (Inl (FileExistsError name), d)
         else (Inr (), fold (\<lambda>s d. if map_of d s = None then od_set s DirEntry d else d) ps d))"

definition make_parent :: "string \<Rightarrow> string \<Rightarrow> disk \<Rightarrow> (path_error + unit) \<times> disk" where
  "make_parent name p d = (if dir_name p = '''' then (Inr (), d) else create_dirs name (pure_path_of (dir_name p)) d)"

text \<open>The place a write goes to, refused when it is read-only.\<close>

definition writable_target :: "path_env \<Rightarrow> path_mapping list \<Rightarrow> string \<Rightarrow> path_error + string" where
  "writable_target env ms path =
     rbind (resolve_path_with_mapping env ms path) (\<lambda>r.
     rbind (is_resolved_path_read_only env ms r) (\<lambda>ro.
     rbind (check (\<not> ro) (ReadOnlyFileSystem path)) (\<lambda>_. Inr (rp_path r))))"

text \<open>The parents are created first; they stay when a later step fails.\<close>

definition write_file ::
    "path_env \<Rightarrow> (nat \<Rightarrow> string \<Rightarrow> nat) \<Rightarrow> string \<Rightarrow> string \<Rightarrow> bool \<Rightarrow> sandbox_state \<Rightarrow> (path_error + unit) \<times> sandbox_state" where
  "write_file env mix path content appending st =
     (let sb = ss_sandbox st; ms = ls_mappings sb
      in case writable_target env ms path of
           Inl e \<Rightarrow> (Inl e, st)
         | Inr p \<Rightarrow>
             (case make_parent path p (ss_disk st) of
                (Inl e, d) \<Rightarrow> (Inl e, st\<lparr>ss_disk := d\<rparr>)
              | (Inr _, d) \<Rightarrow>
                  (case rbind (resolve_paths_in_content env ms content) (\<lambda>t.
                          rbind (check (map_of d p \<noteq> Some DirEntry) (IsADirectoryError path)) (\<lambda>_. Inr t)) of
                     Inl e \<Rightarrow> (Inl e, st\<lparr>ss_disk := d\<rparr>)
                   | Inr t \<Rightarrow>
                       (Inr (), \<lparr>ss_sandbox = sb\<lparr>ls_written := List.insert p (ls_written sb)\<rparr>,
                                 ss_disk = od_set p (FileEntry (written_content mix appending (map_of d p) t)) d\<rparr>))))"

definition update_file ::
    "path_env \<Rightarrow> string \<Rightarrow> file_content \<Rightarrow> sandbox_state \<Rightarrow> (path_error + unit) \<times> sandbox_state" where
  "update_file env path content st =
     (case writable_target env (ls_mappings (ss_sandbox st)) path of
        Inl e \<Rightarrow> (Inl e, st)
      | Inr p \<Rightarrow>
          (case make_parent path p (ss_disk st) of
             (Inl e, d) \<Rightarrow> (Inl e, st\<lparr>ss_disk := d\<rparr>)
           | (Inr _, d) \<Rightarrow>
               (if map_of d p = Some DirEntry then (Inl (IsADirectoryError path), st\<lparr>ss_disk := d\<rparr>)
                else (Inr (), st\<lparr>ss_disk := od_set p (FileEntry content) d\<rparr>))))"

text \<open>\<open>size_of\<close> is the size of a file in bytes; 100 MB may be downloaded.\<close>

definition max_download_size :: nat where
  "max_download_size = 104857600"

definition download_file ::
    "path_env \<Rightarrow> (file_content \<Rightarrow> nat) \<Rightarrow> string \<Rightarrow> sandbox_state \<Rightarrow> path_error + file_content" where
  "download_file env size_of path st =
     (let stripped = lstrip_chars ''/'' (replace_char backslash slash path)
      in rbind (check (under_prefix (lstrip_chars ''/'' virtual_path_prefix) stripped)
                 (PermissionError (''Access denied: path must be under '' @ virtual_path_prefix))) (\<lambda>_.
         rbind (resolve_path_with_mapping env (ls_mappings (ss_sandbox st)) path) (\<lambda>r.
           case map_of (ss_disk st) (rp_path r) of
             None \<Rightarrow> Inl (FileNotFoundError path)
           | Some DirEntry \<Rightarrow> Inl (IsADirectoryError path)
           | Some (FileEntry c) \<Rightarrow>
               (if max_download_size < size_of c then Inl (FileTooLarge path) else Inr c))))"

text \<open>\<open>list_dir\<close>, \<open>glob\<close> and \<open>grep\<close>: \<open>found\<close> is what the walk below the resolved path returned.\<close>

definition ends_in_separator :: "string \<Rightarrow> bool" where
  "ends_in_separator s \<longleftrightarrow> suffix ''/'' s \<or> suffix [backslash] s"

definition list_dir :: "path_env \<Rightarrow> path_mapping list \<Rightarrow> (string \<Rightarrow> string list) \<Rightarrow> string \<Rightarrow> path_error + string list" where
  "list_dir env ms found path =
     rbind (resolve_path_with_mapping env ms path) (\<lambda>r.
       map_res (\<lambda>entry.
         if ends_in_separator entry then
           rbind (reverse_resolve_path env ms (rstrip_chars [slash, backslash] entry)) (\<lambda>t.
             Inr (if suffix ''/'' t then t else t @ ''/''))
         else reverse_resolve_path env ms entry) (found (rp_path r)))"

definition glob_files ::
    "path_env \<Rightarrow> path_mapping list \<Rightarrow> (string \<Rightarrow> string list \<times> bool) \<Rightarrow> string \<Rightarrow> path_error + string list \<times> bool" where
  "glob_files env ms found path =
     rbind (resolve_path_with_mapping env ms path) (\<lambda>r.
       rbind (map_res (reverse_resolve_path env ms) (fst (found (path_text (pure_path_of (rp_path r))))))
         (\<lambda>ts. Inr (ts, snd (found (path_text (pure_path_of (rp_path r)))))))"

record grep_match =
  gm_path :: string
  gm_line_number :: int
  gm_line :: string

definition grep_files ::
    "path_env \<Rightarrow> path_mapping list \<Rightarrow> (string \<Rightarrow> grep_match list \<times> bool) \<Rightarrow> string
      \<Rightarrow> path_error + grep_match list \<times> bool" where
  "grep_files env ms found path =
     rbind (resolve_path_with_mapping env ms path) (\<lambda>r.
       rbind (map_res (\<lambda>g. rbind (reverse_resolve_path env ms (gm_path g)) (\<lambda>t. Inr (g\<lparr>gm_path := t\<rparr>)))
                (fst (found (path_text (pure_path_of (rp_path r))))))
         (\<lambda>gs. Inr (gs, snd (found (path_text (pure_path_of (rp_path r)))))))"

end
