(* ===== verification/LocalProvider.thy ===== *)
theory LocalProvider
  imports LocalSandbox
begin

text \<open>
  \<open>LocalSandboxProvider\<close> (\<open>sandbox/local/local_sandbox_provider.py\<close>): the mappings every sandbox
  has, those of a thread, and the bounded cache of one sandbox per user and thread.  Each section
  under the provider's lock is one function; \<open>others\<close> is what other threads did to the provider
  while \<open>acquire\<close> created directories without the lock.  The disk is not part of the state.
\<close>

section \<open>Mappings from the configuration\<close>

record mount_config =
  mc_host :: string
  mc_container :: string
  mc_read_only :: bool
  mc_exists :: bool

record skills_config =
  sk_host :: string
  sk_exists :: bool
  sk_container :: string

definition mount_container :: "mount_config \<Rightarrow> string" where
  "mount_container mc = (let b = rstrip_chars ''/'' (mc_container mc) in if b = '''' then ''/'' else b)"

definition reserved_prefixes :: "skills_config \<Rightarrow> string list" where
  "reserved_prefixes sk = [sk_container sk, acp_workspace_virtual_path, virtual_path_prefix]"

definition mount_admitted :: "skills_config \<Rightarrow> mount_config \<Rightarrow> bool" where
  "mount_admitted sk mc \<longleftrightarrow>
     posix_root (mc_host mc) \<noteq> '''' \<and> prefix ''/'' (mount_container mc)
     \<and> \<not> list_ex (\<lambda>p. under_prefix p (mount_container mc)) (reserved_prefixes sk)
     \<and> mc_exists mc"

text \<open>An exception ends the setup; the mappings made so far are kept.\<close>

fun mount_mappings :: "path_env \<Rightarrow> skills_config \<Rightarrow> mount_config list \<Rightarrow> path_mapping list" where
  "mount_mappings env sk [] = []"
| "mount_mappings env sk (mc # mcs) =
     (if \<not> mount_admitted sk mc then mount_mappings env sk mcs
      else
        (case resolve_path env (mc_host mc) of
           Inl _ \<Rightarrow> []
         | Inr p \<Rightarrow>
             \<lparr>pm_container = mount_container mc, pm_local = path_text p, pm_read_only = mc_read_only mc\<rparr>
               # mount_mappings env sk mcs))"

definition setup_path_mappings :: "path_env \<Rightarrow> (skills_config \<times> mount_config list) option \<Rightarrow> path_mapping list" where
  "setup_path_mappings env config =
     (case config of
        None \<Rightarrow> []
      | Some (sk, mcs) \<Rightarrow>
          (if sk_exists sk
           then [\<lparr>pm_container = sk_container sk, pm_local = sk_host sk, pm_read_only = True\<rparr>] else [])
          @ mount_mappings env sk mcs)"

definition writable_mapping :: "string \<Rightarrow> pure_path \<Rightarrow> path_mapping" where
  "writable_mapping c p = \<lparr>pm_container = c, pm_local = path_text p, pm_read_only = False\<rparr>"

definition build_thread_path_mappings :: "data_paths \<Rightarrow> string \<Rightarrow> string \<Rightarrow> data_path_error + path_mapping list" where
  "build_thread_path_mappings dp t u =
     rbind (standard_dirs dp t (Some u)) (\<lambda>_.
     rbind (sandbox_user_data_dir dp t (Some u)) (\<lambda>d.
     rbind (sandbox_work_dir dp t (Some u)) (\<lambda>w.
     rbind (sandbox_uploads_dir dp t (Some u)) (\<lambda>up.
     rbind (sandbox_outputs_dir dp t (Some u)) (\<lambda>out.
     rbind (acp_workspace_dir dp t (Some u)) (\<lambda>acp.
       Inr [writable_mapping virtual_path_prefix d,
            writable_mapping (virtual_path_prefix @ ''/workspace'') w,
            writable_mapping (virtual_path_prefix @ ''/uploads'') up,
            writable_mapping (virtual_path_prefix @ ''/outputs'') out,
            writable_mapping acp_workspace_virtual_path acp]))))))"

section \<open>Sandbox ids\<close>

definition sandbox_id_for_thread :: "string \<Rightarrow> string \<Rightarrow> string" where
  "sandbox_id_for_thread t u = ''local:'' @ u @ '':'' @ t"

definition key_from_sandbox_id :: "string \<Rightarrow> (string \<times> string) option" where
  "key_from_sandbox_id sid =
     (if \<not> prefix ''local:'' sid then None
      else
        (let v = drop 6 sid; u = takeWhile (\<lambda>c. c \<noteq> CHR '':'') v; rest = dropWhile (\<lambda>c. c \<noteq> CHR '':'') v
         in if rest = [] \<or> u = '''' \<or> tl rest = '''' then None else Some (u, tl rest)))"

section \<open>The provider\<close>

record local_provider =
  lp_static :: "path_mapping list"
  lp_generic :: "local_sandbox option"
  lp_threads :: "((string \<times> string) \<times> local_sandbox) list"
  lp_cap :: nat

definition provider_init :: "path_mapping list \<Rightarrow> nat \<Rightarrow> local_provider" where
  "provider_init ms cap = \<lparr>lp_static = ms, lp_generic = None, lp_threads = [], lp_cap = cap\<rparr>"

definition fresh_sandbox :: "string \<Rightarrow> path_mapping list \<Rightarrow> local_sandbox" where
  "fresh_sandbox sid ms = \<lparr>ls_id = sid, ls_mappings = ms, ls_written = []\<rparr>"

text \<open>\<open>_evict_until_within_cap_locked\<close>: the least recently used sandboxes go first.\<close>

definition evict_until_within_cap :: "local_provider \<Rightarrow> local_provider" where
  "evict_until_within_cap lp = lp\<lparr>lp_threads := drop (length (lp_threads lp) - lp_cap lp) (lp_threads lp)\<rparr>"

definition acquire_generic :: "local_provider \<Rightarrow> string \<times> local_provider" where
  "acquire_generic lp =
     (case lp_generic lp of
        Some g \<Rightarrow> (ls_id g, lp)
      | None \<Rightarrow> (''local'', lp\<lparr>lp_generic := Some (fresh_sandbox ''local'' (lp_static lp))\<rparr>))"

definition acquire_cached :: "string \<times> string \<Rightarrow> local_provider \<Rightarrow> string option \<times> local_provider" where
  "acquire_cached key lp =
     (case map_of (lp_threads lp) key of
        Some sb \<Rightarrow> (Some (ls_id sb), lp\<lparr>lp_threads := od_move_to_end key (lp_threads lp)\<rparr>)
      | None \<Rightarrow> (None, lp))"

definition acquire_insert :: "string \<Rightarrow> string \<Rightarrow> path_mapping list \<Rightarrow> local_provider \<Rightarrow> string \<times> local_provider" where
  "acquire_insert t u ms lp =
     (case map_of (lp_threads lp) (u, t) of
        Some sb \<Rightarrow> (ls_id sb, lp\<lparr>lp_threads := od_move_to_end (u, t) (lp_threads lp)\<rparr>)
      | None \<Rightarrow>
          (let sid = sandbox_id_for_thread t u
           in (sid, evict_until_within_cap
                 (lp\<lparr>lp_threads := od_set (u, t) (fresh_sandbox sid ms) (lp_threads lp)\<rparr>))))"

text \<open>\<open>user\<close> is the given user id or, where that is empty, the effective one.\<close>

definition acquire ::
    "data_paths \<Rightarrow> (local_provider \<Rightarrow> local_provider) \<Rightarrow> string option \<Rightarrow> string
      \<Rightarrow> local_provider \<Rightarrow> (data_path_error + string) \<times> local_provider" where
  "acquire dp others thread_id user lp =
     (case thread_id of
        None \<Rightarrow> map_prod Inr id (acquire_generic lp)
      | Some t \<Rightarrow>
          (case acquire_cached (user, t) lp of
             (Some sid, lp1) \<Rightarrow> (Inr sid, lp1)
           | (None, lp1) \<Rightarrow>
               (case build_thread_path_mappings dp t user of
                  Inl e \<Rightarrow> (Inl e, others lp1)
                | Inr ms \<Rightarrow> map_prod Inr id (acquire_insert t user (lp_static lp1 @ ms) (others lp1)))))"

definition get_sandbox :: "string \<Rightarrow> local_provider \<Rightarrow> local_sandbox option \<times> local_provider" where
  "get_sandbox sid lp =
     (if sid = ''local'' then
        (let lp1 = snd (acquire_generic lp) in (lp_generic lp1, lp1))
      else
        (case key_from_sandbox_id sid of
           None \<Rightarrow> (None, lp)
         | Some key \<Rightarrow>
             (case map_of (lp_threads lp) key of
                None \<Rightarrow> (None, lp)
              | Some sb \<Rightarrow> (Some sb, lp\<lparr>lp_threads := od_move_to_end key (lp_threads lp)\<rparr>))))"

definition reset_provider :: "local_provider \<Rightarrow> local_provider" where
  "reset_provider lp = lp\<lparr>lp_generic := None, lp_threads := []\<rparr>"

text \<open>A file operation changes the sandbox object the cache refers to.\<close>

definition note_written :: "string \<times> string \<Rightarrow> string list \<Rightarrow> local_provider \<Rightarrow> local_provider" where
  "note_written key ps lp =
     (case map_of (lp_threads lp) key of
        None \<Rightarrow> lp
      | Some sb \<Rightarrow> lp\<lparr>lp_threads := od_set key (sb\<lparr>ls_written := ps\<rparr>) (lp_threads lp)\<rparr>)"


section \<open>Histories of a provider\<close>

inductive lp_reachable :: "data_paths \<Rightarrow> path_mapping list \<Rightarrow> nat \<Rightarrow> local_provider \<Rightarrow> bool"
  for dp static cap where
  reach_init: "lp_reachable dp static cap (provider_init static cap)"
| reach_generic: "lp_reachable dp static cap lp \<Longrightarrow> lp_reachable dp static cap (snd (acquire_generic lp))"
| reach_cached: "lp_reachable dp static cap lp \<Longrightarrow> lp_reachable dp static cap (snd (acquire_cached key lp))"
| reach_insert: "lp_reachable dp static cap lp \<Longrightarrow> build_thread_path_mappings dp t u = Inr ms
    \<Longrightarrow> lp_reachable dp static cap (snd (acquire_insert t u (static @ ms) lp))"
| reach_get: "lp_reachable dp static cap lp \<Longrightarrow> lp_reachable dp static cap (snd (get_sandbox sid lp))"
| reach_reset: "lp_reachable dp static cap lp \<Longrightarrow> lp_reachable dp static cap (reset_provider lp)"
| reach_note: "lp_reachable dp static cap lp \<Longrightarrow> lp_reachable dp static cap (note_written key ps lp)"

text \<open>A cached sandbox belongs to its key: it has the id, the static mappings and the directories of
  that user and thread.\<close>

definition scoped_sandbox :: "data_paths \<Rightarrow> path_mapping list \<Rightarrow> string \<times> string \<Rightarrow> local_sandbox \<Rightarrow> bool" where
  "scoped_sandbox dp static key sb \<longleftrightarrow>
     (\<exists>ms. build_thread_path_mappings dp (snd key) (fst key) = Inr ms \<and> ls_mappings sb = static @ ms
       \<and> ls_id sb = sandbox_id_for_thread (snd key) (fst key))"

definition provider_ok :: "data_paths \<Rightarrow> path_mapping list \<Rightarrow> nat \<Rightarrow> local_provider \<Rightarrow> bool" where
  "provider_ok dp static cap lp \<longleftrightarrow>
     lp_static lp = static \<and> lp_cap lp = cap \<and> od_ok (lp_threads lp) \<and> length (lp_threads lp) \<le> cap
     \<and> (\<forall>key sb. map_of (lp_threads lp) key = Some sb \<longrightarrow> scoped_sandbox dp static key sb)
     \<and> (case lp_generic lp of None \<Rightarrow> True | Some g \<Rightarrow> g = fresh_sandbox ''local'' static)"

lemma provider_ok_move:
  "provider_ok dp static cap lp \<Longrightarrow> provider_ok dp static cap (lp\<lparr>lp_threads := od_move_to_end key (lp_threads lp)\<rparr>)"
  by (simp add: provider_ok_def length_move_to_end)

lemma provider_ok_generic:
  "provider_ok dp static cap lp \<Longrightarrow> provider_ok dp static cap (snd (acquire_generic lp))"
  by (auto simp: provider_ok_def acquire_generic_def split: option.splits)

lemma drop_keeps: "od_ok d \<Longrightarrow> map_of (drop n d) k = Some v \<Longrightarrow> map_of d k = Some v"
  by (metis (no_types, lifting) append_take_drop_id distinct_append map_append map_of_SomeD map_of_is_SomeI
      in_set_dropD)

lemma provider_ok_evict:
  assumes "od_ok (lp_threads lp)" and "lp_static lp = static" and "lp_cap lp = cap"
    and "\<forall>key sb. map_of (lp_threads lp) key = Some sb \<longrightarrow> scoped_sandbox dp static key sb"
    and "case lp_generic lp of None \<Rightarrow> True | Some g \<Rightarrow> g = fresh_sandbox ''local'' static"
  shows "provider_ok dp static cap (evict_until_within_cap lp)"
  using assms drop_keeps [OF assms(1)]
  by (auto simp: provider_ok_def evict_until_within_cap_def drop_map [symmetric] distinct_drop)

lemma provider_ok_insert:
  assumes "provider_ok dp static cap lp" and "build_thread_path_mappings dp t u = Inr ms"
  shows "provider_ok dp static cap (snd (acquire_insert t u (static @ ms) lp))"
proof (cases "map_of (lp_threads lp) (u, t)")
  case None
  let ?sb = "fresh_sandbox (sandbox_id_for_thread t u) (static @ ms)"
  have scoped: "scoped_sandbox dp static (u, t) ?sb"
    using assms(2) by (simp add: scoped_sandbox_def fresh_sandbox_def)
  have "provider_ok dp static cap (evict_until_within_cap (lp\<lparr>lp_threads := od_set (u, t) ?sb (lp_threads lp)\<rparr>))"
    by (rule provider_ok_evict) (use assms(1) scoped in \<open>simp_all add: provider_ok_def\<close>)
  with None show ?thesis by (simp add: acquire_insert_def Let_def)
next
  case (Some sb)
  then show ?thesis using assms(1) by (simp add: acquire_insert_def provider_ok_move)
qed

lemma provider_ok_get: "provider_ok dp static cap lp \<Longrightarrow> provider_ok dp static cap (snd (get_sandbox sid lp))"
  by (auto simp: get_sandbox_def Let_def provider_ok_generic provider_ok_move split: option.splits)

lemma provider_ok_note: "provider_ok dp static cap lp \<Longrightarrow> provider_ok dp static cap (note_written key ps lp)"
proof (cases "map_of (lp_threads lp) key")
  case (Some sb)
  assume ok: "provider_ok dp static cap lp"
  with Some have "scoped_sandbox dp static key (sb\<lparr>ls_written := ps\<rparr>)"
    by (auto simp: provider_ok_def scoped_sandbox_def)
  moreover have "key \<in> fst ` set (lp_threads lp)" using Some by (rule map_of_Some_dom)
  ultimately show ?thesis using ok Some by (auto simp: note_written_def provider_ok_def length_od_set)
qed (simp add: note_written_def)

lemma reachable_provider_ok: "lp_reachable dp static cap lp \<Longrightarrow> provider_ok dp static cap lp"
proof (induction rule: lp_reachable.induct)
  case reach_init
  then show ?case by (simp add: provider_ok_def provider_init_def)
next
  case (reach_cached lp key)
  then show ?case by (auto simp: acquire_cached_def provider_ok_move split: option.splits)
next
  case (reach_reset lp)
  then show ?case by (simp add: provider_ok_def reset_provider_def)
qed (auto intro: provider_ok_generic provider_ok_insert provider_ok_get provider_ok_note)

lemma built_mappings_safe:
  "build_thread_path_mappings dp t u = Inr ms \<Longrightarrow> safe_id t \<and> safe_id u"
  by (auto simp: build_thread_path_mappings_def sandbox_user_data_dir_def thread_dir_names res_simps)

lemma key_of_id: "safe_id t \<Longrightarrow> safe_id u \<Longrightarrow> key_from_sandbox_id (sandbox_id_for_thread t u) = Some (u, t)"
proof -
  assume t: "safe_id t" and u: "safe_id u"
  have "\<not> safe_id_char (CHR '':'')" by (simp add: safe_id_char_def)
  then have "CHR '':'' \<notin> set u" using u by (elim safe_id_cases) (auto simp: LF_def list_all_iff)
  then have "takeWhile (\<lambda>c. c \<noteq> CHR '':'') (u @ CHR '':'' # t) = u"
    and "dropWhile (\<lambda>c. c \<noteq> CHR '':'') (u @ CHR '':'' # t) = CHR '':'' # t"
    by (simp_all add: takeWhile_append dropWhile_append)
  moreover have "t \<noteq> []" "u \<noteq> []" using t u by (auto simp: safe_id_def)
  ultimately show ?thesis by (simp add: key_from_sandbox_id_def sandbox_id_for_thread_def Let_def)
qed

section \<open>Properties\<close>

text \<open>C21. Whatever happened before and while it ran without the lock, a successful \<open>acquire\<close> for a
  thread returns an id under which \<open>get\<close> finds a sandbox with the static mappings and the directories of
  exactly that user and thread, and the cache stays within its bound.\<close>

theorem acquired_sandbox_is_scoped:
  assumes "lp_reachable dp static cap lp" and "0 < cap"
    and "\<And>x. lp_reachable dp static cap x \<Longrightarrow> lp_reachable dp static cap (others x)"
    and "acquire dp others (Some t) u lp = (Inr sid, lp')"
  shows "\<exists>sb ms. fst (get_sandbox sid lp') = Some sb \<and> build_thread_path_mappings dp t u = Inr ms
    \<and> ls_mappings sb = static @ ms \<and> ls_id sb = sid \<and> sid = sandbox_id_for_thread t u
    \<and> length (lp_threads lp') \<le> cap"
proof -
  have found: ?thesis if ok: "provider_ok dp static cap lp'" and sb: "map_of (lp_threads lp') (u, t) = Some sb"
    and sid: "sid = ls_id sb" for sb
  proof -
    have "scoped_sandbox dp static (u, t) sb" using ok sb unfolding provider_ok_def by blast
    then obtain ms where ms: "build_thread_path_mappings dp t u = Inr ms" "ls_mappings sb = static @ ms"
        "ls_id sb = sandbox_id_for_thread t u"
      by (auto simp: scoped_sandbox_def)
    have "sid \<noteq> ''local''" using sid ms(3) by (simp add: sandbox_id_for_thread_def)
    then have "fst (get_sandbox sid lp') = Some sb"
      using sid ms(3) sb key_of_id built_mappings_safe [OF ms(1)] by (simp add: get_sandbox_def)
    with ms sid ok show ?thesis by (auto simp: provider_ok_def)
  qed
  have ok: "provider_ok dp static cap lp" using assms(1) by (rule reachable_provider_ok)
  show ?thesis
  proof (cases "map_of (lp_threads lp) (u, t)")
    case (Some sb)
    then show ?thesis
      using assms(4) ok by (intro found [of sb]) (auto simp: acquire_def acquire_cached_def provider_ok_move)
  next
    case None
    let ?lp1 = "others lp"
    obtain ms where ms: "build_thread_path_mappings dp t u = Inr ms"
      and ins: "(sid, lp') = acquire_insert t u (lp_static lp @ ms) ?lp1"
      using None assms(4) by (auto simp: acquire_def acquire_cached_def map_prod_def split: sum.splits prod.splits)
    have ok1: "provider_ok dp static cap ?lp1" using assms(1,3) reachable_provider_ok by blast
    have "lp_static lp = static" using ok by (simp add: provider_ok_def)
    with provider_ok_insert [OF ok1 ms] ins have ok': "provider_ok dp static cap lp'" by (metis snd_conv)
    show ?thesis
    proof (cases "map_of (lp_threads ?lp1) (u, t)")
      case (Some sb)
      then show ?thesis using ins ok' by (intro found [of sb]) (auto simp: acquire_insert_def)
    next
      case new: None
      let ?sb = "fresh_sandbox (sandbox_id_for_thread t u) (static @ ms)"
      have threads: "lp_threads lp' = drop (Suc (length (lp_threads ?lp1)) - cap) (lp_threads ?lp1 @ [((u, t), ?sb)])"
        using ins new ok1 \<open>lp_static lp = static\<close>
        by (auto simp: acquire_insert_def Let_def evict_until_within_cap_def od_set_fresh map_of_None_iff provider_ok_def)
      have "Suc (length (lp_threads ?lp1)) - cap \<le> length (lp_threads ?lp1)" using assms(2) by simp
      then have "((u, t), ?sb) \<in> set (lp_threads lp')" unfolding threads by simp
      then have "map_of (lp_threads lp') (u, t) = Some ?sb" using ok' by (simp add: provider_ok_def)
      then show ?thesis
        using ins new ok' by (intro found [of ?sb]) (auto simp: acquire_insert_def Let_def fresh_sandbox_def)
    qed
  qed
qed

theorem acquired_sandbox_is_scoped_witness:
  "\<exists>sid lp' sb. acquire demo_data id (Some ''t1'') ''u1'' (provider_init [] 2) = (Inr sid, lp')
     \<and> fst (get_sandbox sid lp') = Some sb"
proof -
  obtain ms where "build_thread_path_mappings demo_data ''t1'' ''u1'' = Inr ms"
    by (simp add: build_thread_path_mappings_def standard_dirs_def sandbox_user_data_dir_def sandbox_work_dir_def
        sandbox_uploads_dir_def sandbox_outputs_dir_def acp_workspace_dir_def demo_thread_dirs)
  then obtain sid lp' where a: "acquire demo_data id (Some ''t1'') ''u1'' (provider_init [] 2) = (Inr sid, lp')"
    by (cases "acquire_insert ''t1'' ''u1'' ms (provider_init [] 2)")
      (auto simp: acquire_def acquire_cached_def provider_init_def)
  have "\<exists>sb ms. fst (get_sandbox sid lp') = Some sb \<and> build_thread_path_mappings demo_data ''t1'' ''u1'' = Inr ms
    \<and> ls_mappings sb = [] @ ms \<and> ls_id sb = sid \<and> sid = sandbox_id_for_thread ''t1'' ''u1''
    \<and> length (lp_threads lp') \<le> 2"
    by (rule acquired_sandbox_is_scoped [OF reach_init _ _ a]) simp_all
  with a show ?thesis by blast
qed

end
