(* ===== verification/SandboxText.thy ===== *)
theory SandboxText
  imports SandboxPaths
begin

text \<open>
  What the file tools (\<open>sandbox/tools.py\<close>) do to texts on the way to and from the sandbox: bounds
  of result counts, formatted search results, truncation of output and of error messages, and the
  redaction of injected secrets.
\<close>

section \<open>Replacing in a text\<close>

text \<open>\<open>s.replace(old, new)\<close>: occurrences from the left that do not overlap; an empty \<open>old\<close> occurs
  before each character and at the end.\<close>

function replace_occurrences :: "string \<Rightarrow> string \<Rightarrow> string \<Rightarrow> string" where
  "replace_occurrences old new [] = []"
| "replace_occurrences old new (c # s) =
     (if old \<noteq> [] \<and> prefix old (c # s) then new @ replace_occurrences old new (drop (length old - 1) s)
      else c # replace_occurrences old new s)"
  by pat_completeness auto
termination by (relation "measure (\<lambda>(_, _, s). length s)") auto

definition replace_text :: "string \<Rightarrow> string \<Rightarrow> string \<Rightarrow> string" where
  "replace_text old new s =
     (if old = [] then new @ concat (map (\<lambda>c. c # new) s) else replace_occurrences old new s)"

fun replace_first :: "string \<Rightarrow> string \<Rightarrow> string \<Rightarrow> string" where
  "replace_first old new s =
     (if prefix old s then new @ drop (length old) s
      else (case s of [] \<Rightarrow> [] | c # t \<Rightarrow> c # replace_first old new t))"

declare replace_first.simps [simp del]

section \<open>Numbers of results\<close>

definition get_tool_config_int :: "pydict option \<Rightarrow> string \<Rightarrow> int \<Rightarrow> int" where
  "get_tool_config_int config key dflt =
     (case config of
        None \<Rightarrow> dflt
      | Some d \<Rightarrow> (case map_of d key of Some (PInt i) \<Rightarrow> i | Some (PBool b) \<Rightarrow> of_bool b | _ \<Rightarrow> dflt))"

definition clamp_max_results :: "int \<Rightarrow> int \<Rightarrow> int \<Rightarrow> int" where
  "clamp_max_results v dflt upper = (if v \<le> 0 then dflt else min v upper)"

definition resolve_max_results :: "pydict option \<Rightarrow> int \<Rightarrow> int \<Rightarrow> int \<Rightarrow> int" where
  "resolve_max_results config requested dflt upper =
     min (clamp_max_results requested dflt upper)
         (clamp_max_results (get_tool_config_int config ''max_results'' dflt) dflt upper)"

definition default_glob_max_results :: int where "default_glob_max_results = 200"
definition max_glob_max_results :: int where "max_glob_max_results = 1000"
definition default_grep_max_results :: int where "default_grep_max_results = 100"
definition max_grep_max_results :: int where "max_grep_max_results = 500"

section \<open>Search results\<close>

fun numbered :: "nat \<Rightarrow> string list \<Rightarrow> string list" where
  "numbered n [] = []"
| "numbered n (p # ps) = (dec n @ ''. '' @ p) # numbered (Suc n) ps"

definition format_glob_results :: "string \<Rightarrow> string list \<Rightarrow> bool \<Rightarrow> string" where
  "format_glob_results base matches truncated =
     (if matches = [] then ''No files matched under '' @ base
      else
        join_with [LF]
          ([''Found '' @ dec (length matches) @ '' paths under '' @ base
              @ (if truncated then '' (showing first '' @ dec (length matches) @ '')'' else '''')]
           @ numbered 1 matches
           @ (if truncated then [''Results truncated. Narrow the path or pattern to see fewer matches.''] else [])))"

record search_match =
  sm_path :: string
  sm_line_number :: int
  sm_line :: string

definition format_grep_results :: "string \<Rightarrow> search_match list \<Rightarrow> bool \<Rightarrow> string" where
  "format_grep_results base matches truncated =
     (if matches = [] then ''No matches found under '' @ base
      else
        join_with [LF]
          ([''Found '' @ dec (length matches) @ '' matches under '' @ base
              @ (if truncated then '' (showing first '' @ dec (length matches) @ '')'' else '''')]
           @ map (\<lambda>m. sm_path m @ '':'' @ int_str (sm_line_number m) @ '': '' @ sm_line m) matches
           @ (if truncated then [''Results truncated. Narrow the path or add a glob filter.''] else [])))"

section \<open>Truncation\<close>

text \<open>The middle is cut out and its length noted in a marker; a limit too small for a marker keeps
  the head only.\<close>

definition middle_truncate :: "(nat \<Rightarrow> string) \<Rightarrow> string \<Rightarrow> nat \<Rightarrow> string" where
  "middle_truncate marker s limit =
     (if limit = 0 \<or> length s \<le> limit then s
      else
        (let total = length s; kept = limit - length (marker total)
         in if kept = 0 then take limit s
            else
              (let head_len = kept div 2; tail_len = kept - head_len
               in take head_len s @ marker (total - kept)
                  @ (if tail_len > 0 then drop (total - tail_len) s else ''''))))"

definition head_truncate :: "(nat \<Rightarrow> nat \<Rightarrow> string) \<Rightarrow> string \<Rightarrow> nat \<Rightarrow> string" where
  "head_truncate marker s limit =
     (if limit = 0 \<or> length s \<le> limit then s
      else
        (let total = length s; kept = limit - length (marker total total)
         in if kept = 0 then take limit s else take kept s @ marker kept total))"

definition truncate_write_file_error_detail :: "string \<Rightarrow> nat \<Rightarrow> string" where
  "truncate_write_file_error_detail detail max_chars =
     middle_truncate
       (\<lambda>n. [LF] @ ''... [write_file error truncated: '' @ dec n @ '' chars skipped] ...'' @ [LF]) detail max_chars"

definition truncate_bash_output :: "string \<Rightarrow> nat \<Rightarrow> string" where
  "truncate_bash_output output max_chars =
     middle_truncate
       (\<lambda>n. [LF] @ ''... [middle truncated: '' @ dec n @ '' chars skipped] ...'' @ [LF]) output max_chars"

definition truncate_read_file_output :: "string \<Rightarrow> nat \<Rightarrow> string" where
  "truncate_read_file_output output max_chars =
     head_truncate
       (\<lambda>k n. [LF] @ ''... [truncated: showing first '' @ dec k @ '' of '' @ dec n
                 @ '' chars. Use start_line/end_line to read a specific range] ...'') output max_chars"

definition truncate_ls_output :: "string \<Rightarrow> nat \<Rightarrow> string" where
  "truncate_ls_output output max_chars =
     head_truncate
       (\<lambda>k n. [LF] @ ''... [truncated: showing first '' @ dec k @ '' of '' @ dec n
                 @ '' chars. Use a more specific path to see fewer results] ...'') output max_chars"

text \<open>\<open>detail\<close> is the sanitised error.\<close>

definition format_write_file_error :: "string \<Rightarrow> string \<Rightarrow> nat \<Rightarrow> string" where
  "format_write_file_error requested_path detail max_chars =
     (let header = ''Error: Failed to write file '' @ [CHR 0x27] @ requested_path @ [CHR 0x27]
      in if max_chars = 0 then header @ '': '' @ detail
         else if max_chars \<le> length header + 2
         then truncate_write_file_error_detail (header @ '': '' @ detail) max_chars
         else header @ '': '' @ truncate_write_file_error_detail detail (max_chars - length header - 2))"

section \<open>Secrets\<close>

definition secret_redaction :: string where
  "secret_redaction = ''[redacted]''"

definition min_mask_length :: nat where
  "min_mask_length = 8"

definition mask_secret_values :: "string \<Rightarrow> (string \<times> string) list \<Rightarrow> string" where
  "mask_secret_values output injected_env =
     (if injected_env = [] \<or> output = '''' then output
      else fold (\<lambda>v out. replace_text v secret_redaction out)
             (sorted_desc length (filter (\<lambda>v. v \<noteq> '''' \<and> min_mask_length \<le> length v) (map snd injected_env)))
             output)"

section \<open>Size of a write\<close>

text \<open>\<open>raw\<close> is the environment variable; sizes are in bytes of UTF-8.\<close>

definition effective_write_file_max_bytes :: "string option \<Rightarrow> int" where
  "effective_write_file_max_bytes raw =
     (case raw of None \<Rightarrow> 81920 | Some s \<Rightarrow> (case py_int s of None \<Rightarrow> 81920 | Some i \<Rightarrow> i))"

definition utf8_size :: "string \<Rightarrow> nat" where
  "utf8_size s = sum_list (map (\<lambda>c. if (of_char c :: nat) < 128 then 1 else 2) s)"


section \<open>Truncated texts stay within their limit\<close>

lemma dec_length_mono: "a \<le> b \<Longrightarrow> length (dec a) \<le> length (dec b)"
proof (induction b arbitrary: a rule: dec.induct)
  case (1 b)
  show ?case
  proof (cases "a < 10")
    case True
    then show ?thesis by (subst dec.simps, subst (2) dec.simps) simp
  next
    case False
    then have "\<not> b < 10" and "a div 10 \<le> b div 10" using 1(2) by (auto intro: div_le_mono)
    then have "length (dec (a div 10)) \<le> length (dec (b div 10))" using 1(1) by blast
    with False \<open>\<not> b < 10\<close> show ?thesis by (subst dec.simps, subst (2) dec.simps) simp
  qed
qed

text \<open>A truncated text: at most \<open>limit\<close> characters, a head of the original, a marker, and a tail.\<close>

definition truncated_to :: "nat \<Rightarrow> string \<Rightarrow> string \<Rightarrow> bool" where
  "truncated_to limit s out \<longleftrightarrow>
     (if limit = 0 \<or> length s \<le> limit then out = s
      else length out \<le> limit
        \<and> (\<exists>h m t. out = h @ m @ t \<and> prefix h s \<and> suffix t s \<and> length h + length t < length s))"

lemma middle_truncate_ok:
  assumes "\<And>a b. a \<le> b \<Longrightarrow> length (marker a) \<le> length (marker b)"
  shows "truncated_to limit s (middle_truncate marker s limit)"
proof (cases "limit = 0 \<or> length s \<le> limit")
  case True
  then show ?thesis by (simp add: truncated_to_def middle_truncate_def)
next
  case False
  let ?n = "length s" and ?k = "limit - length (marker (length s))"
  show ?thesis
  proof (cases "?k = 0")
    case True
    have "\<exists>h m t. take limit s = h @ m @ t \<and> prefix h s \<and> suffix t s \<and> length h + length t < length s"
      by (rule exI [of _ "take limit s"], rule exI [of _ "[]"], rule exI [of _ "[]"])
        (use False in \<open>simp add: take_is_prefix\<close>)
    with True False show ?thesis by (simp add: truncated_to_def middle_truncate_def)
  next
    case k: False
    let ?h = "?k div 2" and ?t = "?k - ?k div 2"
    have "0 < ?t" using k by simp
    then have out: "middle_truncate marker s limit
        = take ?h s @ marker (?n - ?k) @ drop (?n - ?t) s"
      using False k by (simp add: middle_truncate_def Let_def)
    have m: "length (marker (?n - ?k)) \<le> length (marker ?n)" by (rule assms) simp
    have "?k \<le> limit" by simp
    then have kn: "?k < ?n" using False by linarith
    have lh: "length (take ?h s) = ?h" using kn by simp
    have lt: "length (drop (?n - ?t) s) = ?t" using kn by simp
    have "?h + ?t = ?k" by simp
    then have "length (middle_truncate marker s limit) \<le> limit"
      unfolding out length_append lh lt using m k by linarith
    moreover have "length (take ?h s) + length (drop (?n - ?t) s) < ?n"
      unfolding lh lt using \<open>?h + ?t = ?k\<close> kn by linarith
    ultimately show ?thesis using False out unfolding truncated_to_def
      by (metis take_is_prefix suffix_drop)
  qed
qed

lemma head_truncate_ok:
  assumes "\<And>a b. a \<le> b \<Longrightarrow> length (marker a b) \<le> length (marker b b)"
  shows "truncated_to limit s (head_truncate marker s limit)"
proof (cases "limit = 0 \<or> length s \<le> limit")
  case True
  then show ?thesis by (simp add: truncated_to_def head_truncate_def)
next
  case False
  let ?n = "length s" and ?k = "limit - length (marker (length s) (length s))"
  have short: "length (take j s) < ?n" if "j \<le> limit" for j using that False by simp
  show ?thesis
  proof (cases "?k = 0")
    case True
    have "\<exists>h m t. take limit s = h @ m @ t \<and> prefix h s \<and> suffix t s \<and> length h + length t < length s"
      by (rule exI [of _ "take limit s"], rule exI [of _ "[]"], rule exI [of _ "[]"])
        (use short [of limit] in \<open>simp add: take_is_prefix\<close>)
    with True False show ?thesis by (simp add: truncated_to_def head_truncate_def)
  next
    case k: False
    have out: "head_truncate marker s limit = take ?k s @ marker ?k ?n @ []"
      using False k by (simp add: head_truncate_def Let_def)
    have "?k \<le> ?n" using False by linarith
    then have "length (marker ?k ?n) \<le> length (marker ?n ?n)" by (rule assms)
    moreover have "length (take ?k s) \<le> ?k" by simp
    ultimately have "length (head_truncate marker s limit) \<le> limit"
      unfolding out length_append list.size using k by linarith
    moreover have "length (take ?k s) + length [] < ?n" using short [of ?k] by simp
    ultimately show ?thesis using False out unfolding truncated_to_def
      by (metis take_is_prefix suffix_bot.extremum)
  qed
qed

lemma write_detail_truncated: "truncated_to limit s (truncate_write_file_error_detail s limit)"
  unfolding truncate_write_file_error_detail_def by (rule middle_truncate_ok) (simp add: dec_length_mono)

text \<open>Truncated output never exceeds its limit: a short text is passed on as it is, a long one is a
  head, a marker and a tail of the original; and an error report of a failed write is bounded as well.\<close>

lemma truncation_is_bounded:
  assumes "0 < limit"
  shows "truncated_to limit s (truncate_bash_output s limit)
    \<and> truncated_to limit s (truncate_read_file_output s limit)
    \<and> truncated_to limit s (truncate_ls_output s limit)
    \<and> truncated_to limit s (truncate_write_file_error_detail s limit)
    \<and> length (format_write_file_error path s limit) \<le> limit"
proof -
  have "truncated_to limit s (truncate_bash_output s limit)"
    unfolding truncate_bash_output_def by (rule middle_truncate_ok) (simp add: dec_length_mono)
  moreover have "truncated_to limit s (truncate_read_file_output s limit)"
    unfolding truncate_read_file_output_def by (rule head_truncate_ok) (simp add: dec_length_mono)
  moreover have "truncated_to limit s (truncate_ls_output s limit)"
    unfolding truncate_ls_output_def by (rule head_truncate_ok) (simp add: dec_length_mono)
  moreover have short: "length (truncate_write_file_error_detail d n) \<le> n" if "0 < n" for d n
    using write_detail_truncated [of n d] that by (auto simp: truncated_to_def split: if_splits)
  have "length (format_write_file_error path s limit) \<le> limit"
  proof -
    let ?h = "''Error: Failed to write file '' @ [CHR 0x27] @ path @ [CHR 0x27]"
    show ?thesis
    proof (cases "limit \<le> length ?h + 2")
      case True
      with short [OF assms] assms show ?thesis unfolding format_write_file_error_def Let_def by simp
    next
      case False
      then have "0 < limit - length ?h - 2" by simp
      from short [OF this, of s] False have
        "length (?h @ '': '' @ truncate_write_file_error_detail s (limit - length ?h - 2)) \<le> limit"
        unfolding length_append by simp
      with False assms show ?thesis unfolding format_write_file_error_def Let_def by simp
    qed
  qed
  ultimately show ?thesis using write_detail_truncated by blast
qed

section \<open>Redacted secrets are gone\<close>

text \<open>A text without brackets that occurs in \<open>x @ c # y\<close> for a bracket \<open>c\<close> occurs on one side of it.\<close>

lemma contains_split:
  assumes "c \<notin> set v"
  shows "contains_text v (x @ c # y) \<longleftrightarrow> contains_text v x \<or> contains_text v y"
proof
  assume "contains_text v (x @ c # y)"
  then obtain a b where ab: "x @ c # y = a @ v @ b" by (auto simp: contains_text_iff)
  then consider us where "x = a @ us" "us @ c # y = v @ b" | us where "x @ us = a" "c # y = us @ v @ b"
    by (auto simp: append_eq_append_conv2)
  then show "contains_text v x \<or> contains_text v y"
  proof cases
    case 1
    then obtain ws where "us = v @ ws \<or> (us @ ws = v \<and> c # y = ws @ b)"
      by (auto simp: append_eq_append_conv2)
    then show ?thesis
    proof
      assume "us = v @ ws"
      with 1 have "x = a @ v @ ws" by simp
      then show ?thesis unfolding contains_text_iff by blast
    next
      assume split: "us @ ws = v \<and> c # y = ws @ b"
      then have "ws = []" using assms by (cases ws) auto
      with 1 split have "x = a @ v @ []" by simp
      then show ?thesis unfolding contains_text_iff by blast
    qed
  next
    case 2
    with assms show ?thesis
      by (cases us; cases v) (auto simp: contains_text_iff)
  qed
next
  assume "contains_text v x \<or> contains_text v y"
  then show "contains_text v (x @ c # y)"
  proof
    assume "contains_text v x"
    then show ?thesis by (metis append.assoc contains_text_iff)
  next
    assume "contains_text v y"
    then obtain a b where "y = a @ v @ b" by (auto simp: contains_text_iff)
    then have "x @ c # y = (x @ c # a) @ v @ b" by simp
    then show ?thesis unfolding contains_text_iff by blast
  qed
qed

lemma contains_append_right: "contains_text v s \<Longrightarrow> contains_text v (x @ s)"
  unfolding contains_text_iff by (metis append.assoc)

text \<open>A text that the redaction marker cannot create.\<close>

definition plain_secret :: "string \<Rightarrow> bool" where
  "plain_secret v \<longleftrightarrow> v \<noteq> '''' \<and> CHR ''['' \<notin> set v \<and> CHR '']'' \<notin> set v \<and> \<not> contains_text v ''redacted''"

lemma contains_marker:
  assumes "plain_secret v"
  shows "contains_text v (a @ secret_redaction @ t) \<longleftrightarrow> contains_text v a \<or> contains_text v t"
proof -
  have shape: "a @ secret_redaction @ t = a @ CHR ''['' # (''redacted'' @ CHR '']'' # t)"
    by (simp add: secret_redaction_def)
  show ?thesis
    using assms contains_split [of "CHR ''[''" v a "''redacted'' @ CHR '']'' # t"]
      contains_split [of "CHR '']''" v "''redacted''" t]
    unfolding shape plain_secret_def by blast
qed

lemma replace_creates_nothing:
  assumes "plain_secret v"
  shows "contains_text v (a @ replace_occurrences w secret_redaction s) \<Longrightarrow> contains_text v (a @ s)"
proof (induction w secret_redaction s arbitrary: a rule: replace_occurrences.induct)
  case (1 old)
  then show ?case by simp
next
  case (2 old c s)
  show ?case
  proof (cases "old \<noteq> [] \<and> prefix old (c # s)")
    case True
    let ?rest = "drop (length old - 1) s"
    from True 2(3) have "contains_text v (a @ secret_redaction @ replace_occurrences old secret_redaction ?rest)" by simp
    then have "contains_text v a \<or> contains_text v (replace_occurrences old secret_redaction ?rest)"
      by (simp add: contains_marker [OF assms])
    then show ?thesis
    proof
      assume "contains_text v a"
      then show ?thesis unfolding contains_text_iff by (metis append.assoc)
    next
      assume "contains_text v (replace_occurrences old secret_redaction ?rest)"
      with 2(1) [OF True, of "[]"] have "contains_text v ?rest" by simp
      moreover have "a @ c # s = (a @ c # take (length old - 1) s) @ ?rest" by simp
      ultimately show ?thesis by (metis contains_append_right)
    qed
  next
    case False
    then have "contains_text v ((a @ [c]) @ replace_occurrences old secret_redaction s)" using 2(3) by auto
    from 2(2) [OF False this] show ?thesis by simp
  qed
qed

lemma replace_removes:
  assumes "plain_secret v"
    and "\<And>i. i < length a \<Longrightarrow> \<not> prefix v (drop i (a @ s))"
  shows "\<not> contains_text v (a @ replace_occurrences v secret_redaction s)"
  using assms
proof (induction v secret_redaction s arbitrary: a rule: replace_occurrences.induct)
  case (1 v)
  have "\<not> contains_text v a"
  proof
    assume "contains_text v a"
    then obtain x b where a: "a = x @ v @ b" by (auto simp: contains_text_iff)
    moreover have "v \<noteq> []" using 1 by (simp add: plain_secret_def)
    ultimately have "length x < length a" by simp
    with 1(2) [of "length x"] a show False by simp
  qed
  then show ?case by simp
next
  case (2 v c s)
  have ne: "v \<noteq> []" using 2(3) by (simp add: plain_secret_def)
  show ?case
  proof (cases "prefix v (c # s)")
    case True
    have "\<not> contains_text v a"
    proof
      assume "contains_text v a"
      then obtain x b where a: "a = x @ v @ b" by (auto simp: contains_text_iff)
      with ne have "length x < length a" by simp
      with 2(4) [of "length x"] a show False by simp
    qed
    moreover have "\<not> contains_text v (replace_occurrences v secret_redaction (drop (length v - 1) s))"
      using 2(1) [OF _ 2(3), of "[]"] True ne by simp
    ultimately show ?thesis using True ne contains_marker [OF 2(3)] by simp
  next
    case False
    have "\<not> prefix v (drop i ((a @ [c]) @ s))" if "i < length (a @ [c])" for i
      using 2(4) [of i] False that by (cases "i = length a") auto
    then have "\<not> contains_text v ((a @ [c]) @ replace_occurrences v secret_redaction s)"
      using 2(2) [OF _ 2(3), of "a @ [c]"] False by blast
    with False show ?thesis by simp
  qed
qed

lemma replace_fold_keeps:
  assumes "plain_secret v" and "\<not> contains_text v s" and "[] \<notin> set ws"
  shows "\<not> contains_text v (fold (\<lambda>w out. replace_text w secret_redaction out) ws s)"
  using assms(2,3)
proof (induction ws arbitrary: s)
  case (Cons w ws)
  have "\<not> contains_text v (replace_occurrences w secret_redaction s)"
    using replace_creates_nothing [OF assms(1), of "[]" w s] Cons.prems by auto
  moreover have "w \<noteq> []" "[] \<notin> set ws" using Cons.prems(2) by auto
  ultimately show ?case using Cons.IH by (simp add: replace_text_def)
qed simp

lemma replace_fold_removes:
  assumes "plain_secret v" and "v \<in> set ws" and "[] \<notin> set ws"
  shows "\<not> contains_text v (fold (\<lambda>w out. replace_text w secret_redaction out) ws s)"
proof -
  obtain pre post where ws: "ws = pre @ v # post" using assms(2) by (meson split_list)
  let ?s = "fold (\<lambda>w out. replace_text w secret_redaction out) pre s"
  have "\<not> contains_text v (replace_occurrences v secret_redaction ?s)"
    using replace_removes [OF assms(1), of "[]" ?s] by simp
  then have "\<not> contains_text v (replace_text v secret_redaction ?s)"
    using assms(1) by (simp add: replace_text_def plain_secret_def)
  from replace_fold_keeps [OF assms(1) this, of post] assms(3) ws show ?thesis by simp
qed

lemma length_redacted: "length ''redacted'' = 8"
  by simp

text \<open>No injected secret of at least eight characters survives in masked output, unless it contains a
  square bracket or is part of the word the marker consists of.\<close>

lemma masked_secrets_are_gone:
  assumes "v \<in> snd ` set injected_env" and "8 \<le> length v"
    and "CHR ''['' \<notin> set v" and "CHR '']'' \<notin> set v" and "v \<noteq> ''redacted''"
  shows "\<not> contains_text v (mask_secret_values output injected_env)"
proof -
  have "\<not> contains_text v ''redacted''"
  proof
    assume "contains_text v ''redacted''"
    then obtain a b where ab: "''redacted'' = a @ v @ b" by (auto simp: contains_text_iff)
    then have "length (a @ v @ b) = 8" by (metis length_redacted)
    then have "length a + length v + length b = 8" by simp
    then have "length a = 0 \<and> length b = 0" using assms(2) by linarith
    then have "a = []" "b = []" by simp_all
    with ab assms(5) show False by simp
  qed
  then have plain: "plain_secret v" using assms(2-4) by (auto simp: plain_secret_def)
  show ?thesis
  proof (cases "output = ''''")
    case True
    then show ?thesis using plain by (auto simp: mask_secret_values_def plain_secret_def)
  next
    case False
    let ?ws = "sorted_desc length (filter (\<lambda>v. v \<noteq> '''' \<and> min_mask_length \<le> length v) (map snd injected_env))"
    have "v \<in> set ?ws" using assms(1,2) plain by (auto simp: min_mask_length_def plain_secret_def)
    moreover have "[] \<notin> set ?ws" by simp
    ultimately have "\<not> contains_text v (fold (\<lambda>w out. replace_text w secret_redaction out) ?ws output)"
      by (rule replace_fold_removes [OF plain])
    with False assms(1) show ?thesis by (auto simp: mask_secret_values_def)
  qed
qed

end
