(* ===== verification/SandboxTools.thy ===== *)
theory SandboxTools
  imports LocalProvider SandboxText
begin

text \<open>
  The file tools on the local sandbox (\<open>sandbox/tools.py\<close>): lazy acquisition of the sandbox of a
  thread, the thread's directories, masking of host paths, and \<open>ls\<close>, \<open>glob\<close>, \<open>grep\<close>,
  \<open>read_file\<close>, \<open>write_file\<close> and \<open>str_replace\<close> with every error branch.  The state holds the runtime
  of the call, the provider and the disk.  \<open>te_describe\<close> is the class and text of an exception; the
  limits come from the configuration.
\<close>

section \<open>Runtime\<close>

record runtime_state =
  rs_sandbox :: "pyval option"
  rs_thread_data :: "thread_dirs option"
  rs_dirs_created :: bool

record tool_runtime =
  rt_state :: "runtime_state option"
  rt_context :: "pydict option"
  rt_config_thread :: pyval

record tool_world =
  tw_runtime :: tool_runtime
  tw_provider :: local_provider
  tw_disk :: disk

record tool_env =
  te_paths :: path_env
  te_data :: data_paths
  te_current_user :: "string option"
  te_describe :: "path_error \<Rightarrow> string"
  te_mix :: "nat \<Rightarrow> string \<Rightarrow> nat"
  te_read_limit :: nat
  te_ls_limit :: nat
  te_write_bytes :: "string option"
  te_glob_config :: "pydict option"
  te_grep_config :: "pydict option"

definition get_thread_data :: "tool_runtime \<Rightarrow> thread_dirs option" where
  "get_thread_data rt = (case rt_state rt of None \<Rightarrow> None | Some s \<Rightarrow> rs_thread_data s)"

definition is_local_sandbox :: "tool_runtime \<Rightarrow> bool" where
  "is_local_sandbox rt =
     (case rt_state rt of
        None \<Rightarrow> False
      | Some s \<Rightarrow>
          (case rs_sandbox s of
             Some (PStr sid) \<Rightarrow> sid = ''local'' \<or> prefix ''local:'' sid
           | _ \<Rightarrow> False))"

text \<open>\<open>user_context.py\<close>.\<close>

definition get_effective_user_id :: "string option \<Rightarrow> string" where
  "get_effective_user_id current = (case current of None \<Rightarrow> ''default'' | Some u \<Rightarrow> u)"

definition resolve_runtime_user_id :: "string option \<Rightarrow> tool_runtime \<Rightarrow> string" where
  "resolve_runtime_user_id current rt =
     (case rt_context rt of
        None \<Rightarrow> get_effective_user_id current
      | Some ctx \<Rightarrow>
          (case map_of ctx ''user_id'' of
             Some (PStr u) \<Rightarrow> (if u \<noteq> '''' then u else get_effective_user_id current)
           | _ \<Rightarrow> get_effective_user_id current))"

text \<open>Thread ids are texts; the context counts only when it is not empty.\<close>

definition runtime_thread_id :: "tool_runtime \<Rightarrow> string option" where
  "runtime_thread_id rt =
     (let of_value = (\<lambda>v. case v of PStr t \<Rightarrow> Some t | _ \<Rightarrow> None);
          from_context = (case rt_context rt of
              Some (e # ctx) \<Rightarrow> (case map_of (e # ctx) ''thread_id'' of Some v \<Rightarrow> of_value v | None \<Rightarrow> None)
            | _ \<Rightarrow> None)
      in case from_context of Some t \<Rightarrow> Some t | None \<Rightarrow> of_value (rt_config_thread rt))"

definition note_sandbox :: "string \<Rightarrow> tool_runtime \<Rightarrow> tool_runtime" where
  "note_sandbox sid rt =
     rt\<lparr>rt_context := map_option (od_set ''sandbox_id'' (PStr sid)) (rt_context rt)\<rparr>"

text \<open>The sandbox the state names, if the provider still has it; an id that is no text finds none.\<close>

definition existing_sandbox :: "tool_world \<Rightarrow> (string \<times> local_sandbox) option \<times> tool_world" where
  "existing_sandbox w =
     (case rt_state (tw_runtime w) of
        None \<Rightarrow> (None, w)
      | Some s \<Rightarrow>
          (case rs_sandbox s of
             Some (PStr sid) \<Rightarrow>
               (case get_sandbox sid (tw_provider w) of
                  (None, lp) \<Rightarrow> (None, w\<lparr>tw_provider := lp\<rparr>)
                | (Some sb, lp) \<Rightarrow>
                    (Some (sid, sb), w\<lparr>tw_provider := lp, tw_runtime := note_sandbox sid (tw_runtime w)\<rparr>))
           | _ \<Rightarrow> (None, w)))"

definition ensure_sandbox_initialized ::
    "tool_env \<Rightarrow> (local_provider \<Rightarrow> local_provider) \<Rightarrow> tool_world
      \<Rightarrow> (path_error + string \<times> local_sandbox) \<times> tool_world" where
  "ensure_sandbox_initialized te others w =
     (case rt_state (tw_runtime w) of
        None \<Rightarrow> (Inl (SandboxRuntimeError ''Tool runtime state not available''), w)
      | Some _ \<Rightarrow>
          (case existing_sandbox w of
             (Some found, w1) \<Rightarrow> (Inr found, w1)
           | (None, w1) \<Rightarrow>
               (case runtime_thread_id (tw_runtime w1) of
                  None \<Rightarrow> (Inl (SandboxRuntimeError ''Thread ID not available in runtime context''), w1)
                | Some t \<Rightarrow>
                    (case acquire (te_data te) others (Some t)
                            (let u = resolve_runtime_user_id (te_current_user te) (tw_runtime w1)
                             in if u = '''' then get_effective_user_id (te_current_user te) else u)
                            (tw_provider w1) of
                       (Inl e, lp) \<Rightarrow> (Inl (DataPathError e), w1\<lparr>tw_provider := lp\<rparr>)
                     | (Inr sid, lp) \<Rightarrow>
                         (let rt = tw_runtime w1;
                              rt1 = rt\<lparr>rt_state := map_option (\<lambda>s. s\<lparr>rs_sandbox := Some (PStr sid)\<rparr>) (rt_state rt)\<rparr>
                          in case get_sandbox sid lp of
                               (None, lp1) \<Rightarrow>
                                 (Inl (SandboxNotFoundError sid), w1\<lparr>tw_provider := lp1, tw_runtime := rt1\<rparr>)
                             | (Some sb, lp1) \<Rightarrow>
                                 (Inr (sid, sb), w1\<lparr>tw_provider := lp1, tw_runtime := note_sandbox sid rt1\<rparr>))))))"

section \<open>Directories of the thread\<close>

fun add_dirs :: "path_env \<Rightarrow> string option list \<Rightarrow> disk \<Rightarrow> (path_error + unit) \<times> disk" where
  "add_dirs env [] d = (Inr (), d)"
| "add_dirs env (None # ps) d = add_dirs env ps d"
| "add_dirs env (Some s # ps) d =
     (if s = '''' then add_dirs env ps d
      else
        (case resolve_path env s of
           Inl e \<Rightarrow> (Inl e, d)
         | Inr q \<Rightarrow>
             (case create_dirs s q d of
                (Inl e, d1) \<Rightarrow> (Inl e, d1)
              | (Inr _, d1) \<Rightarrow> add_dirs env ps d1)))"

text \<open>The function with its exception, and the world it leaves.\<close>

definition create_thread_directories :: "path_env \<Rightarrow> tool_world \<Rightarrow> (path_error + unit) \<times> tool_world" where
  "create_thread_directories env w =
     (let rt = tw_runtime w
      in if \<not> is_local_sandbox rt then (Inr (), w)
         else
           (case get_thread_data rt of
              None \<Rightarrow> (Inr (), w)
            | Some td \<Rightarrow>
                (case rt_state rt of
                   None \<Rightarrow> (Inr (), w)
                 | Some s \<Rightarrow>
                     (if rs_dirs_created s then (Inr (), w)
                      else
                        (case add_dirs env [td_workspace td, td_uploads td, td_outputs td] (tw_disk w) of
                           (Inl e, d) \<Rightarrow> (Inl e, w\<lparr>tw_disk := d\<rparr>)
                         | (Inr _, d) \<Rightarrow>
                             (Inr (), w\<lparr>tw_disk := d,
                                tw_runtime := rt\<lparr>rt_state := Some (s\<lparr>rs_dirs_created := True\<rparr>)\<rparr>\<rparr>))))))"

definition ensure_thread_directories_exist :: "path_env \<Rightarrow> tool_world \<Rightarrow> tool_world" where
  "ensure_thread_directories_exist env w = snd (create_thread_directories env w)"

section \<open>Masking of host paths\<close>

text \<open>Each base as it is spelled and resolved, with either separator; a backslash in a variant matches
  both.\<close>

fun match_variant :: "string \<Rightarrow> string \<Rightarrow> bool" where
  "match_variant [] s = True"
| "match_variant (v # vs) [] = False"
| "match_variant (v # vs) (c # s) = ((c = v \<or> (v = backslash \<and> c = slash)) \<and> match_variant vs s)"

definition match_masked :: "string \<Rightarrow> string \<Rightarrow> nat option" where
  "match_masked variant s =
     (if match_variant variant s
      then Some (length variant + path_tail {slash, backslash} (drop (length variant) s)) else None)"

definition path_variants :: "string \<Rightarrow> string list" where
  "path_variants p = sort (fromkeys [p, replace_char backslash slash p, replace_char slash backslash p])"

definition mask_bases :: "path_env \<Rightarrow> string \<Rightarrow> path_error + string list" where
  "mask_bases env host =
     rbind (resolve_path env host) (\<lambda>r.
       Inr (fromkeys (path_variants (path_text (pure_path_of host)) @ path_variants (path_text r))))"

definition replace_masked :: "string \<Rightarrow> string \<Rightarrow> string \<Rightarrow> string" where
  "replace_masked base virt matched =
     (if matched = base then virt
      else
        (let relative = lstrip_chars [slash, backslash] (drop (length base) matched)
         in if relative = '''' then virt else virt @ ''/'' @ relative))"

definition mask_sources :: "path_env \<Rightarrow> thread_dirs option \<Rightarrow> (string \<times> string) list" where
  "mask_sources env td =
     (case pv_skills_host env of
        Some h \<Rightarrow> (if h = '''' then [] else [(h, pv_skills_container env)]) | None \<Rightarrow> [])
     @ (case pv_acp_host env (extract_thread_id_from_thread_data td) of
          Some h \<Rightarrow> (if h = '''' then [] else [(h, acp_workspace_virtual_path)]) | None \<Rightarrow> [])
     @ (case td of
          None \<Rightarrow> []
        | Some d \<Rightarrow>
            sorted_desc (length \<circ> fst)
              (fold (\<lambda>(virt, actual). od_set actual virt) (thread_virtual_to_actual_mappings d) []))"

definition mask_local_paths_in_output :: "path_env \<Rightarrow> thread_dirs option \<Rightarrow> string \<Rightarrow> path_error + string" where
  "mask_local_paths_in_output env td output =
     rbind (map_res (\<lambda>(h, virt). rbind (mask_bases env h) (\<lambda>bs. Inr (map (\<lambda>b. (b, virt)) bs))) (mask_sources env td))
       (\<lambda>bss. sub_all (\<lambda>(b, virt). sub_matches (match_masked b) (\<lambda>m. Inr (replace_masked b virt m)))
                (concat bss) output)"

text \<open>Masking an error message; should masking itself fail, the exception leaves the tool.\<close>

definition sanitize_error :: "tool_env \<Rightarrow> path_error \<Rightarrow> tool_runtime \<Rightarrow> path_error + string" where
  "sanitize_error te e rt =
     (if is_local_sandbox rt
      then mask_local_paths_in_output (te_paths te) (get_thread_data rt) (te_describe te e)
      else Inr (te_describe te e))"


section \<open>Tools\<close>

definition put_sandbox :: "string \<Rightarrow> local_sandbox \<Rightarrow> local_provider \<Rightarrow> local_provider" where
  "put_sandbox sid sb lp =
     (case key_from_sandbox_id sid of
        None \<Rightarrow> lp\<lparr>lp_generic := map_option (\<lambda>_. sb) (lp_generic lp)\<rparr>
      | Some key \<Rightarrow> note_written key (ls_written sb) lp)"

definition put_state :: "string \<Rightarrow> sandbox_state \<Rightarrow> tool_world \<Rightarrow> tool_world" where
  "put_state sid st w =
     w\<lparr>tw_provider := put_sandbox sid (ss_sandbox st) (tw_provider w), tw_disk := ss_disk st\<rparr>"

text \<open>Both steps every tool begins with.\<close>

definition open_sandbox ::
    "tool_env \<Rightarrow> (local_provider \<Rightarrow> local_provider) \<Rightarrow> tool_world
      \<Rightarrow> (path_error + string \<times> local_sandbox) \<times> tool_world" where
  "open_sandbox te others w =
     (case ensure_sandbox_initialized te others w of
        (Inl e, w1) \<Rightarrow> (Inl e, w1)
      | (Inr sb, w1) \<Rightarrow>
          (case create_thread_directories (te_paths te) w1 of
             (Inl e, w2) \<Rightarrow> (Inl e, w2)
           | (Inr _, w2) \<Rightarrow> (Inr sb, w2)))"

definition sandbox_path ::
    "(path_env \<Rightarrow> string \<Rightarrow> thread_dirs option \<Rightarrow> path_error + string) \<Rightarrow> tool_env \<Rightarrow> tool_world \<Rightarrow> string
      \<Rightarrow> path_error + string" where
  "sandbox_path policy te w path =
     (if is_local_sandbox (tw_runtime w) then policy (te_paths te) path (get_thread_data (tw_runtime w)) else Inr path)"

definition sandbox_error_text :: "path_error \<Rightarrow> string option" where
  "sandbox_error_text e =
     (case e of
        SandboxRuntimeError m \<Rightarrow> Some m
      | SandboxNotFoundError sid \<Rightarrow> Some (''Sandbox not found after acquisition (sandbox_id='' @ sid @ '')'')
      | _ \<Rightarrow> None)"

definition quoted :: "string \<Rightarrow> string" where
  "quoted s = [CHR 0x27] @ s @ [CHR 0x27]"

text \<open>The handlers of the tools: \<open>names\<close> gives the texts of the exceptions a tool names.\<close>

definition tool_failure ::
    "tool_env \<Rightarrow> (path_error \<Rightarrow> string option) \<Rightarrow> string \<Rightarrow> path_error \<Rightarrow> tool_world \<Rightarrow> path_error + string" where
  "tool_failure te names unexpected e w =
     (case sandbox_error_text e of
        Some m \<Rightarrow> Inr (''Error: '' @ m)
      | None \<Rightarrow>
          (case names e of
             Some m \<Rightarrow> Inr (''Error: '' @ m)
           | None \<Rightarrow>
               rbind (sanitize_error te e (tw_runtime w)) (\<lambda>d. Inr (''Error: Unexpected error '' @ unexpected @ '': '' @ d))))"

definition read_current_file_content ::
    "tool_env \<Rightarrow> (local_provider \<Rightarrow> local_provider) \<Rightarrow> string \<Rightarrow> tool_world \<Rightarrow> (path_error + string) \<times> tool_world" where
  "read_current_file_content te others path w =
     (case open_sandbox te others w of
        (Inl e, w1) \<Rightarrow> (Inl e, w1)
      | (Inr (sid, sb), w1) \<Rightarrow>
          (rbind (sandbox_path read_tool_path te w1 path) (\<lambda>p.
             read_file (te_paths te) p \<lparr>ss_sandbox = sb, ss_disk = tw_disk w1\<rparr>), w1))"

definition read_file_names :: "string \<Rightarrow> path_error \<Rightarrow> string option" where
  "read_file_names path e =
     (case e of
        FileNotFoundError _ \<Rightarrow> Some (''File not found: '' @ path)
      | PermissionError _ \<Rightarrow> Some (''Permission denied reading file: '' @ path)
      | IsADirectoryError _ \<Rightarrow> Some (''Path is a directory, not a file: '' @ path)
      | UnicodeDecodeError \<Rightarrow> Some (''cannot read '' @ quoted path @ '' as text - it appears to be a binary file ''
          @ ''(e.g. .xlsx, .pdf, or an image). read_file only supports UTF-8 text. Use bash with a ''
          @ ''suitable library instead (pandas/openpyxl for spreadsheets), or view_image for images.'')
      | _ \<Rightarrow> None)"

definition line_range :: "int option \<Rightarrow> int option \<Rightarrow> string \<Rightarrow> string" where
  "line_range start_line end_line content =
     (case (start_line, end_line) of
        (Some a, Some b) \<Rightarrow>
          join_with [LF] (py_slice (Some (a - 1)) (Some b) (split_lines [] (universal_newlines content)))
      | _ \<Rightarrow> content)"

definition read_file_tool ::
    "tool_env \<Rightarrow> (local_provider \<Rightarrow> local_provider) \<Rightarrow> string \<Rightarrow> int option \<Rightarrow> int option \<Rightarrow> tool_world
      \<Rightarrow> (path_error + string) \<times> tool_world" where
  "read_file_tool te others path start_line end_line w =
     (case read_current_file_content te others path w of
        (Inl e, w1) \<Rightarrow> (tool_failure te (read_file_names path) ''reading file'' e w1, w1)
      | (Inr content, w1) \<Rightarrow>
          (Inr (if content = '''' then ''(empty)''
                else truncate_read_file_output (line_range start_line end_line content) (te_read_limit te)), w1))"

definition directory_names :: "string \<Rightarrow> path_error \<Rightarrow> string option" where
  "directory_names path e =
     (case e of
        FileNotFoundError _ \<Rightarrow> Some (''Directory not found: '' @ path)
      | PermissionError _ \<Rightarrow> Some (''Permission denied: '' @ path)
      | _ \<Rightarrow> None)"

text \<open>\<open>found\<close> is what the walk below the resolved directory returned.\<close>

definition ls_tool ::
    "tool_env \<Rightarrow> (local_provider \<Rightarrow> local_provider) \<Rightarrow> (string \<Rightarrow> string list) \<Rightarrow> string \<Rightarrow> tool_world
      \<Rightarrow> (path_error + string) \<times> tool_world" where
  "ls_tool te others found path w =
     (case open_sandbox te others w of
        (Inl e, w1) \<Rightarrow> (tool_failure te (directory_names path) ''listing directory'' e w1, w1)
      | (Inr (sid, sb), w1) \<Rightarrow>
          (case rbind (sandbox_path read_tool_path te w1 path) (\<lambda>p.
                  rbind (list_dir (te_paths te) (ls_mappings sb) found p) (\<lambda>children.
                    if children = [] then Inr ''(empty)''
                    else
                      (let output = join_with [LF] children
                       in rbind (if is_local_sandbox (tw_runtime w1) \<and> get_thread_data (tw_runtime w1) \<noteq> None
                                 then mask_local_paths_in_output (te_paths te) (get_thread_data (tw_runtime w1)) output
                                 else Inr output)
                            (\<lambda>t. Inr (truncate_ls_output t (te_ls_limit te)))))) of
             Inl e \<Rightarrow> (tool_failure te (directory_names path) ''listing directory'' e w1, w1)
           | Inr t \<Rightarrow> (Inr t, w1)))"

definition search_names :: "string \<Rightarrow> path_error \<Rightarrow> string option" where
  "search_names path e =
     (case e of
        NotADirectoryError _ \<Rightarrow> Some (''Path is not a directory: '' @ path)
      | _ \<Rightarrow> directory_names path e)"

definition search_policy :: "path_env \<Rightarrow> string \<Rightarrow> thread_dirs option \<Rightarrow> path_error + string" where
  "search_policy env path td =
     (case td of
        None \<Rightarrow> Inl (SandboxRuntimeError ''Thread data not available for local sandbox'')
      | Some d \<Rightarrow> resolve_local_read_path env path d)"

definition mask_each :: "tool_env \<Rightarrow> tool_world \<Rightarrow> string \<Rightarrow> path_error + string" where
  "mask_each te w t =
     (if is_local_sandbox (tw_runtime w)
      then mask_local_paths_in_output (te_paths te) (get_thread_data (tw_runtime w)) t else Inr t)"

text \<open>\<open>found\<close> gets the number of results and the resolved directory.\<close>

definition glob_tool ::
    "tool_env \<Rightarrow> (local_provider \<Rightarrow> local_provider) \<Rightarrow> (int \<Rightarrow> string \<Rightarrow> string list \<times> bool) \<Rightarrow> string \<Rightarrow> int
      \<Rightarrow> tool_world \<Rightarrow> (path_error + string) \<times> tool_world" where
  "glob_tool te others found path max_results w =
     (case open_sandbox te others w of
        (Inl e, w1) \<Rightarrow> (tool_failure te (search_names path) ''searching paths'' e w1, w1)
      | (Inr (sid, sb), w1) \<Rightarrow>
          (let n = resolve_max_results (te_glob_config te) max_results default_glob_max_results max_glob_max_results
           in case rbind (sandbox_path search_policy te w1 path) (\<lambda>p.
                     rbind (glob_files (te_paths te) (ls_mappings sb) (found n) p) (\<lambda>(matches, truncated).
                       rbind (map_res (mask_each te w1) matches) (\<lambda>ms.
                         Inr (format_glob_results path ms truncated)))) of
                Inl e \<Rightarrow> (tool_failure te (search_names path) ''searching paths'' e w1, w1)
              | Inr t \<Rightarrow> (Inr t, w1)))"

definition grep_tool ::
    "tool_env \<Rightarrow> (local_provider \<Rightarrow> local_provider) \<Rightarrow> (int \<Rightarrow> string \<Rightarrow> grep_match list \<times> bool) \<Rightarrow> string \<Rightarrow> int
      \<Rightarrow> tool_world \<Rightarrow> (path_error + string) \<times> tool_world" where
  "grep_tool te others found path max_results w =
     (case open_sandbox te others w of
        (Inl e, w1) \<Rightarrow> (tool_failure te (search_names path) ''searching file contents'' e w1, w1)
      | (Inr (sid, sb), w1) \<Rightarrow>
          (let n = resolve_max_results (te_grep_config te) max_results default_grep_max_results max_grep_max_results
           in case rbind (sandbox_path search_policy te w1 path) (\<lambda>p.
                     rbind (grep_files (te_paths te) (ls_mappings sb) (found n) p) (\<lambda>(matches, truncated).
                       rbind (map_res (\<lambda>m. rbind (mask_each te w1 (gm_path m)) (\<lambda>q.
                                Inr \<lparr>sm_path = q, sm_line_number = gm_line_number m, sm_line = gm_line m\<rparr>)) matches)
                         (\<lambda>ms. Inr (format_grep_results path ms truncated)))) of
                Inl e \<Rightarrow> (tool_failure te (search_names path) ''searching file contents'' e w1, w1)
              | Inr t \<Rightarrow> (Inr t, w1)))"

section \<open>Writing tools\<close>

definition write_failure :: "tool_env \<Rightarrow> string \<Rightarrow> path_error \<Rightarrow> tool_world \<Rightarrow> path_error + string" where
  "write_failure te path e w =
     (case e of
        PermissionError _ \<Rightarrow>
          Inr (truncate_write_file_error_detail (''Error: Permission denied writing to file: '' @ path) 2000)
      | IsADirectoryError _ \<Rightarrow>
          Inr (truncate_write_file_error_detail (''Error: Path is a directory, not a file: '' @ path) 2000)
      | _ \<Rightarrow> rbind (sanitize_error te e (tw_runtime w)) (\<lambda>d. Inr (format_write_file_error path d 2000)))"

definition oversized_message :: "nat \<Rightarrow> int \<Rightarrow> string" where
  "oversized_message content_bytes max_bytes =
     ''Error: write_file content ('' @ dec content_bytes @ '' bytes) exceeds the '' @ int_str max_bytes
     @ ''-byte single-call limit. Split the content into smaller pieces: either (a) write the first section now, ''
     @ ''then use `str_replace` for further edits, or (b) call write_file again with append=True carrying the next ''
     @ ''section. See SIZE POLICY in the tool docstring or issue #3189 for the rationale.''"

definition write_file_tool ::
    "tool_env \<Rightarrow> (local_provider \<Rightarrow> local_provider) \<Rightarrow> string \<Rightarrow> string \<Rightarrow> bool \<Rightarrow> tool_world
      \<Rightarrow> (path_error + string) \<times> tool_world" where
  "write_file_tool te others path content appending w =
     (let max_bytes = effective_write_file_max_bytes (te_write_bytes te); content_bytes = utf8_size content
      in if \<not> appending \<and> 0 < max_bytes \<and> max_bytes < int content_bytes
         then (Inr (oversized_message content_bytes max_bytes), w)
         else
           (case open_sandbox te others w of
              (Inl e, w1) \<Rightarrow> (write_failure te path e w1, w1)
            | (Inr (sid, sb), w1) \<Rightarrow>
                (case sandbox_path write_tool_path te w1 path of
                   Inl e \<Rightarrow> (write_failure te path e w1, w1)
                 | Inr p \<Rightarrow>
                     (case write_file (te_paths te) (te_mix te) p content appending
                             \<lparr>ss_sandbox = sb, ss_disk = tw_disk w1\<rparr> of
                        (Inl e, st) \<Rightarrow> (write_failure te path e w1, w1\<lparr>tw_disk := ss_disk st\<rparr>)
                      | (Inr _, st) \<Rightarrow> (Inr ''OK'', put_state sid st w1)))))"

definition replace_names :: "string \<Rightarrow> path_error \<Rightarrow> string option" where
  "replace_names path e =
     (case e of
        FileNotFoundError _ \<Rightarrow> Some (''File not found: '' @ path)
      | PermissionError _ \<Rightarrow> Some (''Permission denied accessing file: '' @ path)
      | _ \<Rightarrow> None)"

definition str_replace_tool ::
    "tool_env \<Rightarrow> (local_provider \<Rightarrow> local_provider) \<Rightarrow> string \<Rightarrow> string \<Rightarrow> string \<Rightarrow> bool \<Rightarrow> tool_world
      \<Rightarrow> (path_error + string) \<times> tool_world" where
  "str_replace_tool te others path old_str new_str replace_all w =
     (case open_sandbox te others w of
        (Inl e, w1) \<Rightarrow> (tool_failure te (replace_names path) ''replacing string'' e w1, w1)
      | (Inr (sid, sb), w1) \<Rightarrow>
          (let st = \<lparr>ss_sandbox = sb, ss_disk = tw_disk w1\<rparr>; fail = (\<lambda>e. tool_failure te (replace_names path) ''replacing string'' e w1)
           in case sandbox_path write_tool_path te w1 path of
                Inl e \<Rightarrow> (fail e, w1)
              | Inr p \<Rightarrow>
                  (case read_file (te_paths te) p st of
                     Inl e \<Rightarrow> (fail e, w1)
                   | Inr content \<Rightarrow>
                       if content = '''' then (Inr ''OK'', w1)
                       else if \<not> contains_text old_str content
                       then (Inr (''Error: String to replace not found in file: '' @ path), w1)
                       else
                         (case write_file (te_paths te) (te_mix te) p
                                 (if replace_all then replace_text old_str new_str content
                                  else replace_first old_str new_str content) False st of
                            (Inl e, st1) \<Rightarrow> (fail e, w1\<lparr>tw_disk := ss_disk st1\<rparr>)
                          | (Inr _, st1) \<Rightarrow> (Inr ''OK'', put_state sid st1 w1)))))"


text \<open>The asynchronous twin of a tool acquires the sandbox first, and then runs the tool in a thread; other
  calls may use the provider in between.\<close>

definition run_sync_tool_after_async_sandbox_init ::
    "tool_env \<Rightarrow> (local_provider \<Rightarrow> local_provider)
      \<Rightarrow> (tool_world \<Rightarrow> (path_error + string) \<times> tool_world) option \<Rightarrow> tool_world \<Rightarrow> (path_error + string) \<times> tool_world" where
  "run_sync_tool_after_async_sandbox_init te others func w =
     (case ensure_sandbox_initialized te others w of
        (Inl e, w1) \<Rightarrow> (tool_failure te (\<lambda>_. None) ''initializing sandbox'' e w1, w1)
      | (Inr _, w1) \<Rightarrow>
          (case func of
             None \<Rightarrow> (Inr ''Error: Tool implementation not available'', w1)
           | Some tool \<Rightarrow> tool (w1\<lparr>tw_provider := others (tw_provider w1)\<rparr>)))"

end
