(* ===== verification/ShellWords.thy ===== *)
theory ShellWords
  imports PosixPaths
begin

text \<open>
  Shell words as Python's \<open>shlex\<close> sees them, with the settings the command guard chooses (POSIX rules,
  splitting at white space, no comments, the punctuation \<open>();<>|&\<close>), \<open>shlex.quote\<close>, and
  \<open>re.finditer\<close> for patterns that look at what stands before a match.
\<close>

section \<open>The lexer\<close>

abbreviation quote_mark :: char where "quote_mark \<equiv> CHR 0x27"
abbreviation double_quote :: char where "double_quote \<equiv> CHR 0x22"

datatype lex_state = Blank | InWord | Punct | Quoted char | Escaped lex_state

definition lex_space :: "char \<Rightarrow> bool" where
  "lex_space c \<longleftrightarrow> c = CHR '' '' \<or> c = CHR 0x09 \<or> c = CR \<or> c = LF"

definition lex_punct :: "char \<Rightarrow> bool" where
  "lex_punct c \<longleftrightarrow> c \<in> set ''();<>|&''"

definition lex_quote :: "char \<Rightarrow> bool" where
  "lex_quote c \<longleftrightarrow> c = quote_mark \<or> c = double_quote"

definition lex_start :: "char \<Rightarrow> lex_state \<times> string" where
  "lex_start c =
     (if c = backslash then (Escaped InWord, [])
      else if lex_punct c then (Punct, [c])
      else if lex_quote c then (Quoted c, [])
      else (InWord, [c]))"

definition emit :: "bool \<Rightarrow> string \<Rightarrow> string list option \<Rightarrow> string list option" where
  "emit quoted tok rest = (if tok \<noteq> [] \<or> quoted then map_option ((#) tok) rest else rest)"

text \<open>\<open>None\<close> is the \<open>ValueError\<close> for a quotation or an escape that does not end.  A character that ends
  a word without belonging to it is read again as the start of the next one.\<close>

fun shell_lex :: "lex_state \<Rightarrow> bool \<Rightarrow> string \<Rightarrow> string \<Rightarrow> string list option" where
  "shell_lex st quoted tok [] =
     (case st of
        Blank \<Rightarrow> Some []
      | Quoted _ \<Rightarrow> None
      | Escaped _ \<Rightarrow> None
      | _ \<Rightarrow> emit quoted tok (Some []))"
| "shell_lex st quoted tok (c # s) =
     (case st of
        Blank \<Rightarrow>
          if lex_space c then shell_lex Blank False [] s
          else shell_lex (fst (lex_start c)) False (snd (lex_start c)) s
      | Quoted q \<Rightarrow>
          if c = q then shell_lex InWord True tok s
          else if c = backslash \<and> q = double_quote then shell_lex (Escaped (Quoted q)) True tok s
          else shell_lex (Quoted q) True (tok @ [c]) s
      | Escaped r \<Rightarrow>
          shell_lex r quoted
            (tok @ (case r of Quoted q \<Rightarrow> if c \<noteq> backslash \<and> c \<noteq> q then [backslash, c] else [c] | _ \<Rightarrow> [c])) s
      | InWord \<Rightarrow>
          if lex_space c then emit quoted tok (shell_lex Blank False [] s)
          else if lex_quote c then shell_lex (Quoted c) quoted tok s
          else if c = backslash then shell_lex (Escaped InWord) quoted tok s
          else if lex_punct c then emit quoted tok (shell_lex Punct False [c] s)
          else shell_lex InWord quoted (tok @ [c]) s
      | Punct \<Rightarrow>
          if lex_space c then emit quoted tok (shell_lex Blank False [] s)
          else if lex_punct c then shell_lex Punct quoted (tok @ [c]) s
          else emit quoted tok (shell_lex (fst (lex_start c)) False (snd (lex_start c)) s))"

definition shell_tokens :: "string \<Rightarrow> string list option" where
  "shell_tokens s = shell_lex Blank False [] s"

section \<open>Quoting\<close>

definition quote_safe :: "char \<Rightarrow> bool" where
  "quote_safe c \<longleftrightarrow> (let n = (of_char c :: nat) in n < 128 \<and> is_word c) \<or> c \<in> set ''@%+=:,./-''"

definition escape_mark :: "char \<Rightarrow> string" where
  "escape_mark c = (if c = quote_mark then [quote_mark, double_quote, quote_mark, double_quote, quote_mark] else [c])"

definition shell_quote :: "string \<Rightarrow> string" where
  "shell_quote s =
     (if s = [] then [quote_mark, quote_mark]
      else if list_all quote_safe s then s
      else quote_mark # concat (map escape_mark s) @ [quote_mark])"

lemma quote_safe_plain:
  assumes "quote_safe c"
  shows "\<not> lex_space c" and "\<not> lex_punct c" and "\<not> lex_quote c" and "c \<noteq> backslash"
  using assms
  by (auto simp: quote_safe_def lex_space_def lex_punct_def lex_quote_def is_word_def Let_def LF_def CR_def)

lemma lex_safe: "list_all quote_safe s \<Longrightarrow> shell_lex InWord q tok (s @ rest) = shell_lex InWord q (tok @ s) rest"
proof (induction s arbitrary: tok)
  case Nil
  then show ?case by simp
next
  case (Cons c s)
  with quote_safe_plain [of c] show ?case by simp
qed

lemma lex_quoted_body:
  "shell_lex (Quoted quote_mark) q tok (concat (map escape_mark s) @ quote_mark # rest)
    = shell_lex InWord True (tok @ s) rest"
proof (induction s arbitrary: q tok)
  case Nil
  then show ?case by simp
next
  case (Cons c s)
  then show ?case
    by (cases "c = quote_mark") (auto simp: escape_mark_def lex_space_def lex_quote_def LF_def CR_def)
qed

text \<open>Inside a word, quoted text is read back as it was; the flag tells whether quotation marks were read.\<close>

lemma lex_quote_in_word: "\<exists>q'. shell_lex InWord q tok (shell_quote s @ rest) = shell_lex InWord q' (tok @ s) rest
    \<and> (q' \<or> s \<noteq> [])"
proof -
  have open_quote: "shell_lex InWord q tok (quote_mark # u) = shell_lex (Quoted quote_mark) q tok u" for u
    by (simp add: lex_space_def lex_quote_def LF_def CR_def)
  show ?thesis
  proof (cases "s \<noteq> [] \<and> list_all quote_safe s")
    case True
    then show ?thesis using lex_safe [of s q tok rest] by (auto simp: shell_quote_def)
  next
    case False
    then have "shell_quote s = quote_mark # concat (map escape_mark s) @ [quote_mark]"
      by (auto simp: shell_quote_def)
    then have "shell_lex InWord q tok (shell_quote s @ rest) = shell_lex InWord True (tok @ s) rest"
      using open_quote lex_quoted_body [of q tok s rest] by simp
    then show ?thesis by blast
  qed
qed

lemma lex_quote_starts: "shell_lex Blank q tok (shell_quote s @ rest) = shell_lex InWord False [] (shell_quote s @ rest)"
proof (cases "s \<noteq> [] \<and> list_all quote_safe s")
  case True
  then obtain c t where s: "s = c # t" and c: "quote_safe c" by (cases s) auto
  with True quote_safe_plain [OF c] show ?thesis by (simp add: shell_quote_def lex_start_def)
next
  case False
  then have "shell_quote s = quote_mark # concat (map escape_mark s) @ [quote_mark]"
    by (auto simp: shell_quote_def)
  then show ?thesis by (simp add: lex_start_def lex_punct_def lex_quote_def lex_space_def LF_def CR_def)
qed

section \<open>Searching\<close>

text \<open>\<open>finditer\<close>: \<open>match front s\<close> is the length of the match at the front of \<open>s\<close>, \<open>front\<close> the text in
  front of it, last character first.  The result holds positions and matched texts.  The patterns
  never match the empty text.\<close>

function find_matches :: "(string \<Rightarrow> string \<Rightarrow> nat option) \<Rightarrow> string \<Rightarrow> string \<Rightarrow> (nat \<times> string) list" where
  "find_matches match front [] = []"
| "find_matches match front (c # s) =
     (case match front (c # s) of
        Some (Suc n) \<Rightarrow>
          (length front, c # take n s) # find_matches match (rev (take n s) @ c # front) (drop n s)
      | _ \<Rightarrow> find_matches match (c # front) s)"
  by pat_completeness auto
termination by (relation "measure (\<lambda>(_, _, s). length s)") auto

text \<open>\<open>command.split()\<close>.\<close>

fun space_words :: "string \<Rightarrow> string \<Rightarrow> string list" where
  "space_words acc [] = (if acc = [] then [] else [rev acc])"
| "space_words acc (c # s) =
     (if is_space c then (if acc = [] then space_words [] s else rev acc # space_words [] s)
      else space_words (c # acc) s)"

definition split_space :: "string \<Rightarrow> string list" where
  "split_space s = space_words [] s"

text \<open>The text after the last slash.\<close>

definition last_segment :: "string \<Rightarrow> string" where
  "last_segment s = last (str_split slash s)"

end
