(* ===== verification/ShellGuard.thy ===== *)
theory ShellGuard
  imports SandboxTools ShellWords "HOL-Library.List_Lexorder"
begin

text \<open>
  The guard of the \<open>bash\<close> tool on the local sandbox (\<open>sandbox/tools.py\<close>, from
  \<open>_is_non_file_url_token\<close> to \<open>_apply_cwd_prefix\<close>): what a command may mention, and how it is
  rewritten before it runs.  A position of a token list is the list of the tokens from there on.
\<close>

section \<open>Characters and URLs\<close>

definition command_stop :: "char \<Rightarrow> bool" where
  "command_stop c \<longleftrightarrow> path_stop c \<or> c = CHR 0x60"

definition scheme_char :: "char \<Rightarrow> bool" where
  "scheme_char c \<longleftrightarrow> ascii_letter c \<or> is_digit c \<or> c \<in> set ''+.-''"

text \<open>The length of \<open>[a-z][a-z0-9+.-]*://\<close> at the front of a text.\<close>

definition scheme_length :: "string \<Rightarrow> nat option" where
  "scheme_length s =
     (case s of
        [] \<Rightarrow> None
      | c # t \<Rightarrow>
          (let n = length (takeWhile scheme_char t)
           in if ascii_letter c \<and> prefix ''://'' (drop n t) then Some (n + 4) else None))"

definition is_file_url :: "string \<Rightarrow> bool" where
  "is_file_url s \<longleftrightarrow> prefix ''file://'' (str_lower s)"

definition is_non_file_url_token :: "string \<Rightarrow> bool" where
  "is_non_file_url_token token \<longleftrightarrow>
     list_ex (\<lambda>v. scheme_length v \<noteq> None \<and> \<not> is_file_url v)
       (token # (if CHR ''='' \<in> set token then [tl (dropWhile (\<lambda>c. c \<noteq> CHR ''='') token)] else []))"

definition at_word_start :: "string \<Rightarrow> bool" where
  "at_word_start front \<longleftrightarrow> (case front of [] \<Rightarrow> True | c # _ \<Rightarrow> \<not> is_word c)"

definition url_match :: "string \<Rightarrow> string \<Rightarrow> nat option" where
  "url_match front s =
     (case scheme_length s of
        None \<Rightarrow> None
      | Some n \<Rightarrow>
          (let m = length (takeWhile (\<lambda>c. \<not> command_stop c) (drop n s))
           in if at_word_start front \<and> 0 < m then Some (n + m) else None))"

definition non_file_url_spans :: "string \<Rightarrow> (nat \<times> nat) list" where
  "non_file_url_spans command =
     map (\<lambda>(i, t). (i, i + length t)) (filter (\<lambda>(i, t). \<not> is_file_url t) (find_matches url_match [] command))"

definition is_in_spans :: "nat \<Rightarrow> (nat \<times> nat) list \<Rightarrow> bool" where
  "is_in_spans pos spans \<longleftrightarrow> list_ex (\<lambda>(a, b). a \<le> pos \<and> pos < b) spans"

section \<open>Tokens\<close>

text \<open>\<open>boundary\<close>: the text in front is empty or ends in a separator or an equals sign.\<close>

fun dotdot_at :: "bool \<Rightarrow> string \<Rightarrow> bool" where
  "dotdot_at boundary [] = False"
| "dotdot_at boundary (c # s) =
     ((boundary \<and> c = CHR ''.''
       \<and> (case s of [] \<Rightarrow> False | d # t \<Rightarrow> d = CHR ''.'' \<and> (t = [] \<or> t = [LF] \<or> hd t = slash \<or> hd t = backslash)))
      \<or> dotdot_at (c = slash \<or> c = backslash \<or> c = CHR ''='') s)"

definition has_dotdot_path_segment :: "string \<Rightarrow> bool" where
  "has_dotdot_path_segment token \<longleftrightarrow> \<not> is_non_file_url_token token \<and> dotdot_at True token"

definition split_shell_tokens :: "string \<Rightarrow> string list" where
  "split_shell_tokens command =
     (case shell_tokens (concat (map (\<lambda>c. if c = LF then '' ; '' else [c]) (universal_newlines command))) of
        Some ts \<Rightarrow> ts
      | None \<Rightarrow> split_space command)"

definition is_shell_command_separator :: "string \<Rightarrow> bool" where
  "is_shell_command_separator t \<longleftrightarrow> t \<in> set ['';'', ''&&'', ''||'', ''|'', ''|&'', ''&'', ''('', '')'']"

definition is_shell_redirection_operator :: "string \<Rightarrow> bool" where
  "is_shell_redirection_operator t \<longleftrightarrow>
     t \<in> set [''<'', ''>'', ''<<'', ''>>'', ''<<<'', ''<>'', ''>&'', ''<&'', ''&>'', ''&>>'', ''>|'']"

definition is_identifier :: "string \<Rightarrow> bool" where
  "is_identifier s \<longleftrightarrow>
     (case s of
        [] \<Rightarrow> False
      | c # t \<Rightarrow> (ascii_letter c \<or> c = CHR ''_'') \<and> list_all (\<lambda>d. ascii_letter d \<or> is_digit d \<or> d = CHR ''_'') t)"

definition is_shell_assignment :: "string \<Rightarrow> bool" where
  "is_shell_assignment t \<longleftrightarrow> CHR ''='' \<in> set t \<and> is_identifier (takeWhile (\<lambda>c. c \<noteq> CHR ''='') t)"

definition local_bash_cwd_commands :: "string list" where
  "local_bash_cwd_commands = [''cd'', ''pushd'']"

definition local_bash_command_wrappers :: "string list" where
  "local_bash_command_wrappers = [''command'', ''builtin'']"

definition local_bash_command_prefix_keywords :: "string list" where
  "local_bash_command_prefix_keywords =
     [''!'', ''{'', ''case'', ''do'', ''elif'', ''else'', ''for'', ''if'', ''select'', ''then'', ''time'', ''until'', ''while'']"

definition local_bash_command_end_keywords :: "string list" where
  "local_bash_command_end_keywords = [''}'', ''done'', ''esac'', ''fi'']"

definition local_bash_root_path_commands :: "string list" where
  "local_bash_root_path_commands =
     [''awk'', ''cat'', ''cp'', ''du'', ''find'', ''grep'', ''head'', ''less'', ''ln'', ''ls'', ''more'', ''mv'',
      ''rm'', ''sed'', ''tail'', ''tar'']"

definition local_bash_system_path_prefixes :: "string list" where
  "local_bash_system_path_prefixes =
     [''/bin/'', ''/usr/bin/'', ''/usr/sbin/'', ''/sbin/'', ''/opt/homebrew/bin/'', ''/dev/'']"

section \<open>What a command may mention\<close>

definition is_allowed_local_bash_absolute_path ::
    "path_env \<Rightarrow> string list \<Rightarrow> bool \<Rightarrow> string \<Rightarrow> path_error + bool" where
  "is_allowed_local_bash_absolute_path env allowed system_ok path =
     (if list_ex (\<lambda>a. prefix a path \<or> path = rstrip_chars ''/'' a) allowed
         \<or> under_prefix virtual_path_prefix path \<or> is_skills_path env path
         \<or> is_acp_workspace_path path \<or> is_custom_mount_path env path
      then rbind (reject_path_traversal path) (\<lambda>_. Inr True)
      else Inr (system_ok
                \<and> list_ex (\<lambda>p. path = rstrip_chars ''/'' p \<or> prefix p path) local_bash_system_path_prefixes))"

fun next_cd_target :: "string list \<Rightarrow> string option \<times> string list" where
  "next_cd_target [] = (None, [])"
| "next_cd_target [t] =
     (if is_shell_command_separator t then (None, [t])
      else if is_shell_redirection_operator t then (None, [])
      else if prefix ''-'' t \<and> t \<noteq> ''-'' then (None, [])
      else (Some t, []))"
| "next_cd_target (t # u # ts) =
     (if is_shell_command_separator t then (None, t # u # ts)
      else if is_shell_redirection_operator t then next_cd_target ts
      else if prefix ''-'' t \<and> t \<noteq> ''-'' then next_cd_target (u # ts)
      else (Some t, u # ts))"

definition use_paths :: string where
  "use_paths = ''. Use paths under '' @ virtual_path_prefix"

definition unsafe_cwd :: "string \<Rightarrow> path_error" where
  "unsafe_cwd what = PermissionError (''Unsafe working directory change in command: '' @ what @ use_paths)"

definition validate_local_bash_cwd_target ::
    "path_env \<Rightarrow> string list \<Rightarrow> string \<Rightarrow> string option \<Rightarrow> path_error + unit" where
  "validate_local_bash_cwd_target env allowed name target =
     (case target of
        None \<Rightarrow> Inl (unsafe_cwd name)
      | Some t \<Rightarrow>
          if t = ''-'' then Inl (unsafe_cwd name)
          else if prefix ''$'' t \<or> prefix [CHR 0x60] t \<or> prefix ''~'' t then Inl (unsafe_cwd (name @ '' '' @ t))
          else if prefix ''/'' t then
            rbind (reject_path_traversal t) (\<lambda>_.
            rbind (is_allowed_local_bash_absolute_path env allowed False t) (\<lambda>ok.
              check ok (unsafe_cwd (name @ '' '' @ t))))
          else Inr ())"

fun root_path_scan :: "string list \<Rightarrow> path_error + unit" where
  "root_path_scan [] = Inr ()"
| "root_path_scan [t] =
     (if is_shell_command_separator t \<or> is_shell_redirection_operator t then Inr ()
      else check (\<not> (t = ''/'' \<and> \<not> is_non_file_url_token t))
             (PermissionError (''Unsafe absolute paths in command: /'' @ use_paths)))"
| "root_path_scan (t # u # ts) =
     (if is_shell_command_separator t then Inr ()
      else if is_shell_redirection_operator t then root_path_scan ts
      else rbind (check (\<not> (t = ''/'' \<and> \<not> is_non_file_url_token t))
                    (PermissionError (''Unsafe absolute paths in command: /'' @ use_paths)))
             (\<lambda>_. root_path_scan (u # ts)))"

definition validate_local_bash_root_path_args :: "string \<Rightarrow> string list \<Rightarrow> path_error + unit" where
  "validate_local_bash_root_path_args name ts =
     (if name \<notin> set local_bash_root_path_commands then Inr () else root_path_scan ts)"

lemma next_cd_target_shorter: "length (snd (next_cd_target ts)) \<le> length ts"
  by (induction ts rule: next_cd_target.induct) auto

lemma next_cd_target_tl: "length (snd (next_cd_target (tl ts))) \<le> length ts"
  using next_cd_target_shorter [of "tl ts"] by simp

text \<open>The loop over the tokens.\<close>

function check_commands :: "path_env \<Rightarrow> string list \<Rightarrow> bool \<Rightarrow> string list \<Rightarrow> path_error + unit" where
  "check_commands env allowed at_start [] = Inr ()"
| "check_commands env allowed at_start (t # ts) =
     (if is_shell_command_separator t then check_commands env allowed True ts
      else if is_shell_redirection_operator t then check_commands env allowed at_start ts
      else if at_start \<and> is_shell_assignment t then check_commands env allowed at_start ts
      else let name = last_segment t in
        if at_start \<and> name \<in> set (local_bash_command_prefix_keywords @ local_bash_command_end_keywords)
        then check_commands env allowed at_start ts
        else if \<not> at_start then check_commands env allowed False ts
        else if name \<in> set local_bash_command_wrappers \<and> ts \<noteq> []
                \<and> last_segment (hd ts) \<in> set local_bash_cwd_commands then
          rbind (validate_local_bash_cwd_target env allowed (last_segment (hd ts)) (fst (next_cd_target (tl ts))))
            (\<lambda>_. check_commands env allowed False (snd (next_cd_target (tl ts))))
        else
          rbind (if name \<in> set local_bash_command_wrappers \<and> ts \<noteq> []
                 then validate_local_bash_root_path_args (last_segment (hd ts)) (tl ts) else Inr ()) (\<lambda>_.
            if name \<notin> set local_bash_cwd_commands then
              rbind (validate_local_bash_root_path_args name ts) (\<lambda>_. check_commands env allowed False ts)
            else
              rbind (validate_local_bash_cwd_target env allowed name (fst (next_cd_target ts)))
                (\<lambda>_. check_commands env allowed False (snd (next_cd_target ts)))))"
  by pat_completeness auto
termination
  by (relation "measure (\<lambda>(_, _, _, ts). length ts)")
    (simp_all add: next_cd_target_shorter less_Suc_eq_le next_cd_target_tl)

text \<open>\<open>$(\<close>, then no closing parenthesis, then \<open>cd\<close> or \<open>pushd\<close> as a word.\<close>

fun substituted_cd :: "char \<Rightarrow> string \<Rightarrow> bool" where
  "substituted_cd front [] = False"
| "substituted_cd front (c # s) =
     ((\<not> is_word front
       \<and> list_ex (\<lambda>w. prefix w (c # s) \<and> (case drop (length w) (c # s) of [] \<Rightarrow> True | d # _ \<Rightarrow> \<not> is_word d))
           local_bash_cwd_commands)
      \<or> (c \<noteq> CHR '')'' \<and> substituted_cd c s))"

fun has_substituted_cd :: "string \<Rightarrow> bool" where
  "has_substituted_cd [] = False"
| "has_substituted_cd (c # s) =
     ((prefix ''$('' (c # s) \<and> substituted_cd (CHR ''('') (drop 1 s)) \<or> has_substituted_cd s)"

definition is_operator :: "string \<Rightarrow> bool" where
  "is_operator t \<longleftrightarrow> is_shell_command_separator t \<or> is_shell_redirection_operator t"

definition validate_local_bash_shell_tokens :: "path_env \<Rightarrow> string list \<Rightarrow> string \<Rightarrow> path_error + unit" where
  "validate_local_bash_shell_tokens env allowed command =
     rbind (check (\<not> has_substituted_cd command)
              (PermissionError (''Unsafe working directory change in command substitution'' @ use_paths))) (\<lambda>_.
       let tokens = split_shell_tokens command
       in rbind (check (list_all (\<lambda>t. is_operator t \<or> \<not> has_dotdot_path_segment t) tokens) traversal)
            (\<lambda>_. check_commands env allowed True tokens))"

section \<open>Absolute paths\<close>

function brace_blocks :: "string \<Rightarrow> string list" where
  "brace_blocks [] = []"
| "brace_blocks (c # s) =
     (let inner = takeWhile (\<lambda>d. d \<notin> set ''{}'') s; rest = drop (length inner) s
      in if c = CHR ''{'' \<and> prefix ''}'' rest then inner # brace_blocks (tl rest) else brace_blocks s)"
  by pat_completeness auto
termination by (relation "measure length") auto

definition braces_are_identifier_placeholders_only :: "string \<Rightarrow> bool" where
  "braces_are_identifier_placeholders_only fragment \<longleftrightarrow>
     \<not> contains_text ''${'' fragment
     \<and> count_list fragment (CHR ''{'') = length (brace_blocks fragment)
     \<and> count_list fragment (CHR ''}'') = length (brace_blocks fragment)
     \<and> list_all is_identifier (brace_blocks fragment)"

definition is_non_path_literal_fragment :: "string \<Rightarrow> bool" where
  "is_non_path_literal_fragment fragment \<longleftrightarrow>
     list_ex (\<lambda>c. 127 < (of_char c :: nat)) fragment
     \<or> ((CHR ''{'' \<in> set fragment \<or> CHR ''}'' \<in> set fragment) \<and> braces_are_identifier_placeholders_only fragment)"

definition absolute_match :: "string \<Rightarrow> string \<Rightarrow> nat option" where
  "absolute_match front s =
     (case s of
        [] \<Rightarrow> None
      | c # t \<Rightarrow>
          (let m = length (takeWhile (\<lambda>d. \<not> command_stop d) t)
           in if c = slash \<and> 0 < m
                 \<and> (case front of [] \<Rightarrow> True | b # _ \<Rightarrow> b \<noteq> CHR '':'' \<and> \<not> is_word b)
                 \<and> \<not> prefix [slash, CHR '':''] front
              then Some (Suc m) else None))"

definition file_url_match :: "string \<Rightarrow> string \<Rightarrow> nat option" where
  "file_url_match front s =
     (let m = length (takeWhile (\<lambda>d. \<not> is_space d) (drop 7 s))
      in if at_word_start front \<and> is_file_url s \<and> 0 < m then Some (7 + m) else None)"

fun unsafe_absolute_paths ::
    "path_env \<Rightarrow> string list \<Rightarrow> (nat \<times> nat) list \<Rightarrow> (nat \<times> string) list \<Rightarrow> path_error + string list" where
  "unsafe_absolute_paths env allowed spans [] = Inr []"
| "unsafe_absolute_paths env allowed spans ((i, p) # ms) =
     (if is_in_spans i spans \<or> is_non_path_literal_fragment p then unsafe_absolute_paths env allowed spans ms
      else rbind (is_allowed_local_bash_absolute_path env allowed True p) (\<lambda>ok.
             rbind (unsafe_absolute_paths env allowed spans ms) (\<lambda>ps. Inr (if ok then ps else p # ps))))"

definition sort_texts :: "string list \<Rightarrow> string list" where
  "sort_texts = sort_key (map (of_char :: char \<Rightarrow> nat))"

definition validate_local_bash_command_paths ::
    "path_env \<Rightarrow> mcp_server list option \<Rightarrow> string \<Rightarrow> thread_dirs option \<Rightarrow> path_error + unit" where
  "validate_local_bash_command_paths env servers command td =
     (if td = None then Inl (SandboxRuntimeError ''Thread data not available for local sandbox'')
      else case find_matches file_url_match [] command of
        (_, url) # _ \<Rightarrow> Inl (PermissionError (''Unsafe file:// URL in command: '' @ url @ use_paths))
      | [] \<Rightarrow>
          (let allowed = get_mcp_allowed_paths servers
           in rbind (validate_local_bash_shell_tokens env allowed command) (\<lambda>_.
              rbind (unsafe_absolute_paths env allowed (non_file_url_spans command) (find_matches absolute_match [] command))
                (\<lambda>unsafe. check (unsafe = [])
                   (PermissionError (''Unsafe absolute paths in command: ''
                      @ join_with '', '' (sort_texts (fromkeys unsafe)) @ use_paths)))))) "

section \<open>Rewriting a command\<close>

text \<open>\<open>base(/...)?\<close>, without a boundary after the base.\<close>

definition base_match :: "string \<Rightarrow> string \<Rightarrow> nat option" where
  "base_match base s =
     (if prefix base s then Some (length base + path_tail {slash} (drop (length base) s)) else None)"

definition replace_base ::
    "string \<Rightarrow> (string \<Rightarrow> path_error + string) \<Rightarrow> string \<Rightarrow> path_error + string" where
  "replace_base base resolve text =
     sub_matches (base_match base) (\<lambda>m. rbind (resolve m) (\<lambda>p. Inr (replace_char backslash slash p))) text"

definition replace_virtual_paths_in_command ::
    "path_env \<Rightarrow> string \<Rightarrow> thread_dirs option \<Rightarrow> path_error + string" where
  "replace_virtual_paths_in_command env command td =
     (let tid = extract_thread_id_from_thread_data td
      in rbind (if nonempty (pv_skills_host env) \<and> contains_text (pv_skills_container env) command
                then replace_base (pv_skills_container env) (resolve_skills_path env) command else Inr command) (\<lambda>c1.
         rbind (if nonempty (pv_acp_host env tid) \<and> contains_text acp_workspace_virtual_path c1
                then replace_base acp_workspace_virtual_path (\<lambda>p. resolve_acp_workspace_path env p tid) c1 else Inr c1) (\<lambda>c2.
           if td \<noteq> None \<and> contains_text virtual_path_prefix c2
           then replace_base virtual_path_prefix (\<lambda>p. Inr (replace_virtual_path p td)) c2 else Inr c2)))"

definition apply_cwd_prefix :: "string \<Rightarrow> thread_dirs option \<Rightarrow> string" where
  "apply_cwd_prefix command td =
     (case td of
        None \<Rightarrow> command
      | Some d \<Rightarrow>
          if nonempty (td_workspace d) then ''cd '' @ shell_quote (the (td_workspace d)) @ '' && '' @ command else command)"

definition channel_user_id_env :: string where
  "channel_user_id_env = ''VASSILFLOW_CHANNEL_USER_ID''"

definition channel_identity_prefix :: "tool_runtime \<Rightarrow> string option" where
  "channel_identity_prefix rt =
     (case rt_context rt of
        None \<Rightarrow> None
      | Some ctx \<Rightarrow>
          (case map_of ctx ''channel_user_id'' of
             None \<Rightarrow> None
           | Some (PStr u) \<Rightarrow>
               (if 0 < length u \<and> length u \<le> 256 then Some (''export '' @ channel_user_id_env @ ''='' @ shell_quote u @ ''; '')
                else Some (''unset '' @ channel_user_id_env @ ''; ''))
           | Some _ \<Rightarrow> Some (''unset '' @ channel_user_id_env @ ''; '')))"

end
