(* ===== verification/BashTool.thy ===== *)
theory BashTool
  imports ShellGuard
begin

text \<open>
  Running a command on the local sandbox: the environment it gets (\<open>sandbox/env_policy.py\<close>), whether the
  host allows it (\<open>sandbox/security.py\<close>), the secrets of the run (\<open>runtime/secret_context.py\<close>),
  \<open>execute_command\<close> and the bounded capture of its output (\<open>sandbox/local/local_sandbox.py\<close>), and the
  \<open>bash\<close> tool (\<open>sandbox/tools.py\<close>).  The process itself is a parameter.
\<close>

section \<open>Environment of a command\<close>

text \<open>\<open>str.upper\<close> below 256; the two letters whose upper case lies above keep their place.\<close>

definition upper_text :: "string \<Rightarrow> string" where
  "upper_text s = concat (map (\<lambda>c. let n = (of_char c :: nat)
     in if n = 223 then ''SS''
        else if (97 \<le> n \<and> n \<le> 122) \<or> (224 \<le> n \<and> n \<noteq> 247 \<and> n < 255) then [char_of (n - 32)] else [c]) s)"

definition secret_name_patterns :: "string list" where
  "secret_name_patterns = [''KEY'', ''SECRET'', ''TOKEN'', ''PASSWORD'', ''PASSWD'', ''CREDENTIAL'', ''DSN'']"

definition blocked_exact_names :: "string list" where
  "blocked_exact_names =
     [''DATABASE_URL'', ''DATABASE_URI'', ''REDIS_URL'', ''MONGODB_URI'', ''MONGO_URL'', ''AMQP_URL'', ''RABBITMQ_URL'',
      ''POSTGRES_URL'', ''POSTGRESQL_URL'', ''MYSQL_URL'', ''CLICKHOUSE_URL'', ''CONNECTION_STRING'', ''CONN_STR'',
      ''GH_PAT'', ''GITHUB_PAT'']"

definition is_blocked_env_name :: "string \<Rightarrow> bool" where
  "is_blocked_env_name name \<longleftrightarrow>
     upper_text name \<in> set blocked_exact_names
     \<or> list_ex (\<lambda>p. contains_text p (upper_text name)) secret_name_patterns"

definition build_sandbox_env :: "(string \<times> string) list \<Rightarrow> (string \<times> string) list option \<Rightarrow> (string \<times> string) list" where
  "build_sandbox_env environ injected =
     od_update (filter (\<lambda>(k, _). \<not> is_blocked_env_name k) environ) (case injected of None \<Rightarrow> [] | Some e \<Rightarrow> e)"

definition validate_extra_env :: "(string \<times> string) list option \<Rightarrow> path_error + unit" where
  "validate_extra_env extra =
     (case extra of
        None \<Rightarrow> Inr ()
      | Some e \<Rightarrow>
          (case filter (\<lambda>(k, _). \<not> is_identifier k) e of
             [] \<Rightarrow> Inr ()
           | (k, _) # _ \<Rightarrow> Inl (OtherError (''extra_env key '' @ quoted k
               @ '' is not a valid POSIX environment variable name (must match ^[A-Za-z_][A-Za-z0-9_]*$).''))))"

section \<open>Whether the host allows it\<close>

record host_config =
  hc_use :: string
  hc_allow_host_bash :: bool

definition local_sandbox_provider_markers :: "string list" where
  "local_sandbox_provider_markers =
     [''vassilflow.sandbox.local:LocalSandboxProvider'',
      ''vassilflow.sandbox.local.local_sandbox_provider:LocalSandboxProvider'']"

definition uses_local_sandbox_provider :: "host_config option \<Rightarrow> bool" where
  "uses_local_sandbox_provider cfg \<longleftrightarrow>
     (let use = (case cfg of None \<Rightarrow> '''' | Some c \<Rightarrow> hc_use c)
      in use \<in> set local_sandbox_provider_markers
         \<or> (suffix '':LocalSandboxProvider'' use \<and> contains_text ''vassilflow.sandbox.local'' use))"

definition is_host_bash_allowed :: "host_config option \<Rightarrow> bool" where
  "is_host_bash_allowed cfg \<longleftrightarrow>
     (case cfg of
        None \<Rightarrow> False
      | Some c \<Rightarrow> \<not> uses_local_sandbox_provider cfg \<or> hc_allow_host_bash c)"

definition local_host_bash_disabled_message :: string where
  "local_host_bash_disabled_message =
     ''Host bash execution is disabled for LocalSandboxProvider because it is not a secure ''
     @ ''sandbox boundary. Switch to AioSandboxProvider for isolated bash access, or set ''
     @ ''sandbox.allow_host_bash: true only in a fully trusted local environment.''"

section \<open>Secrets of the run\<close>

definition secrets_context_key :: string where "secrets_context_key = ''secrets''"
definition active_secrets_context_key :: string where "active_secrets_context_key = ''__active_skill_secrets''"

definition redacted_context_keys :: "string list" where
  "redacted_context_keys =
     [secrets_context_key, active_secrets_context_key, ''__slash_skill_secret_source'', ''__skill_secrets_binding_audit'']"

definition string_pairs :: "pyval option \<Rightarrow> (string \<times> string) list" where
  "string_pairs raw =
     (case raw of
        Some (PDict d) \<Rightarrow> List.map_filter (\<lambda>kv. case kv of (PStr k, PStr v) \<Rightarrow> Some (k, v) | _ \<Rightarrow> None) d
      | _ \<Rightarrow> [])"

definition context_get :: "pydict option \<Rightarrow> string \<Rightarrow> pyval option" where
  "context_get ctx key = (case ctx of None \<Rightarrow> None | Some d \<Rightarrow> map_of d key)"

definition extract_request_secrets :: "pydict option \<Rightarrow> (string \<times> string) list" where
  "extract_request_secrets ctx = string_pairs (context_get ctx secrets_context_key)"

definition read_active_secrets :: "pydict option \<Rightarrow> (string \<times> string) list" where
  "read_active_secrets ctx = string_pairs (context_get ctx active_secrets_context_key)"

definition redact_secret_context_keys :: "pydict \<Rightarrow> pydict" where
  "redact_secret_context_keys ctx = filter (\<lambda>(k, _). k \<notin> set redacted_context_keys) ctx"

text \<open>A configuration whose context is a dictionary with text keys; any other value is kept as it is.\<close>

definition redact_config_secrets :: "(string \<times> (pydict + pyval)) list \<Rightarrow> (string \<times> (pydict + pyval)) list" where
  "redact_config_secrets config =
     (case map_of config ''context'' of
        Some (Inl ctx) \<Rightarrow> od_set ''context'' (Inl (redact_secret_context_keys ctx)) config
      | _ \<Rightarrow> config)"

section \<open>Bounded capture\<close>

record 'b pipe_capture =
  pc_limit :: nat
  pc_chunks :: "'b list list"
  pc_kept :: nat
  pc_total :: nat

definition capture_limit :: nat where "capture_limit = 10 * 1024 * 1024"

definition capture_init :: "nat \<Rightarrow> 'b pipe_capture" where
  "capture_init limit = \<lparr>pc_limit = limit, pc_chunks = [], pc_kept = 0, pc_total = 0\<rparr>"

definition capture_append :: "'b list \<Rightarrow> 'b pipe_capture \<Rightarrow> 'b pipe_capture" where
  "capture_append chunk pc =
     (let pc1 = pc\<lparr>pc_total := pc_total pc + length chunk\<rparr>
      in if pc_limit pc \<le> pc_kept pc then pc1
         else (let kept = take (pc_limit pc - pc_kept pc) chunk
               in pc1\<lparr>pc_chunks := pc_chunks pc @ [kept], pc_kept := pc_kept pc + length kept\<rparr>))"

text \<open>\<open>decode\<close> is \<open>bytes.decode\<close> with replacement of bytes that are not UTF-8.\<close>

definition capture_read :: "('b list \<Rightarrow> string) \<Rightarrow> 'b pipe_capture \<Rightarrow> string" where
  "capture_read decode pc =
     (let output = decode (concat (pc_chunks pc))
      in if pc_kept pc < pc_total pc
         then output @ LF # ''... [output truncated after '' @ dec (pc_kept pc) @ '' of '' @ dec (pc_total pc)
                @ '' bytes; remaining output discarded] ...''
         else output)"

text \<open>The pipe is read in chunks of at most 8192 bytes until it is closed.\<close>

function pipe_reads :: "'b list \<Rightarrow> 'b list list" where
  "pipe_reads bs = (if bs = [] then [] else take 8192 bs # pipe_reads (drop 8192 bs))"
  by pat_completeness auto
termination by (relation "measure length") auto

declare pipe_reads.simps [simp del]

definition drain_pipe :: "'b list list \<Rightarrow> 'b pipe_capture \<Rightarrow> 'b pipe_capture" where
  "drain_pipe reads pc = fold capture_append reads pc"

section \<open>Running a command\<close>

text \<open>What happens outside: the lookup of a program, the host's environment, and the process.
  \<open>he_run\<close> gets the arguments, the timeout and the environment, and may change the disk.\<close>

record process_result =
  pr_stdout :: string
  pr_stderr :: string
  pr_code :: int
  pr_timed_out :: bool

record host_env =
  he_windows :: bool
  he_absolute :: "string \<Rightarrow> bool"
  he_executable :: "string \<Rightarrow> bool"
  he_which :: "string \<Rightarrow> string option"
  he_powershell :: string
  he_environ :: "(string \<times> string) list"
  he_float_text :: "rat \<Rightarrow> string"
  he_run :: "string list \<Rightarrow> rat \<Rightarrow> (string \<times> string) list \<Rightarrow> disk \<Rightarrow> (path_error + process_result) \<times> disk"

fun find_first_available_shell :: "host_env \<Rightarrow> string list \<Rightarrow> string option" where
  "find_first_available_shell he [] = None"
| "find_first_available_shell he (c # cs) =
     (if he_absolute he c then (if he_executable he c then Some c else find_first_available_shell he cs)
      else (case he_which he c of Some p \<Rightarrow> Some p | None \<Rightarrow> find_first_available_shell he cs))"

definition get_shell :: "host_env \<Rightarrow> path_error + string" where
  "get_shell he =
     (case find_first_available_shell he [''/bin/zsh'', ''/bin/bash'', ''/bin/sh'', ''sh''] of
        Some s \<Rightarrow> Inr s
      | None \<Rightarrow>
          (if he_windows he then
             (case find_first_available_shell he
                     [''pwsh'', ''pwsh.exe'', ''powershell'', ''powershell.exe'', he_powershell he, ''cmd.exe''] of
                Some s \<Rightarrow> Inr s
              | None \<Rightarrow> Inl (OtherError (''No suitable shell executable found. Tried /bin/zsh, /bin/bash, /bin/sh, `sh` on PATH, ''
                  @ ''then PowerShell and cmd.exe fallbacks for Windows.'')))
           else Inl (OtherError ''No suitable shell executable found. Tried /bin/zsh, /bin/bash, /bin/sh, and `sh` on PATH.'')))"

definition shell_name :: "string \<Rightarrow> string" where
  "shell_name shell = str_lower (last_segment (replace_char backslash slash shell))"

definition is_powershell :: "string \<Rightarrow> bool" where
  "is_powershell shell \<longleftrightarrow> shell_name shell \<in> set [''powershell'', ''powershell.exe'', ''pwsh'', ''pwsh.exe'']"

definition is_cmd_shell :: "string \<Rightarrow> bool" where
  "is_cmd_shell shell \<longleftrightarrow> shell_name shell \<in> set [''cmd'', ''cmd.exe'']"

definition is_msys_shell :: "string \<Rightarrow> bool" where
  "is_msys_shell shell \<longleftrightarrow>
     shell_name shell \<in> set [''sh.exe'', ''bash.exe'']
     \<and> list_ex (\<lambda>p. contains_text p (str_lower (replace_char backslash slash shell))) [''/git/'', ''/mingw'', ''/msys'']"

definition shell_args :: "host_env \<Rightarrow> string \<Rightarrow> string \<Rightarrow> string list" where
  "shell_args he shell command =
     (if he_windows he then
        (if is_powershell shell then [shell, ''-NoProfile'', ''-Command'', command]
         else if is_cmd_shell shell then [shell, ''/c'', command]
         else [shell, ''-c'', command])
      else [shell, ''-c'', command])"

definition shell_env :: "host_env \<Rightarrow> string \<Rightarrow> (string \<times> string) list \<Rightarrow> (string \<times> string) list" where
  "shell_env he shell env =
     (if he_windows he \<and> \<not> is_powershell shell \<and> \<not> is_cmd_shell shell \<and> is_msys_shell shell
      then od_update env [(''MSYS_NO_PATHCONV'', ''1''), (''MSYS2_ARG_CONV_EXCL'', ''*'')] else env)"

definition format_timeout_duration :: "host_env \<Rightarrow> rat \<Rightarrow> string" where
  "format_timeout_duration he t =
     (if t = of_int \<lfloor>t\<rfloor> then int_str \<lfloor>t\<rfloor> else he_float_text he t) @ (if t = 1 then '' second'' else '' seconds'')"

definition format_timeout_notice :: "host_env \<Rightarrow> rat \<Rightarrow> string" where
  "format_timeout_notice he t =
     ''Command timed out after '' @ format_timeout_duration he t @ '' and was terminated. ''
     @ ''To run a long-lived process such as a web server, start it in the background ''
     @ ''and redirect its output, e.g. `your-command > /mnt/user-data/workspace/server.log 2>&1 &`.''"

definition default_command_timeout_seconds :: rat where
  "default_command_timeout_seconds = 600"

definition command_output :: "host_env \<Rightarrow> rat \<Rightarrow> process_result \<Rightarrow> string" where
  "command_output he timeout r =
     (let o1 = pr_stdout r;
          o2 = (if pr_stderr r = '''' then o1
                else if o1 = '''' then pr_stderr r
                else o1 @ LF # ''Std Error:'' @ LF # pr_stderr r);
          o3 = (if pr_timed_out r then
                  (if o2 = '''' then format_timeout_notice he timeout else o2 @ LF # format_timeout_notice he timeout)
                else if pr_code r \<noteq> 0 then o2 @ LF # ''Exit Code: '' @ int_str (pr_code r)
                else o2)
      in if o3 = '''' then ''(no output)'' else o3)"

definition execute_command ::
    "host_env \<Rightarrow> path_env \<Rightarrow> path_mapping list \<Rightarrow> string \<Rightarrow> (string \<times> string) list option \<Rightarrow> rat option \<Rightarrow> disk
      \<Rightarrow> (path_error + string) \<times> disk" where
  "execute_command he env ms command extra timeout d =
     (let t = (case timeout of None \<Rightarrow> default_command_timeout_seconds | Some t \<Rightarrow> t)
      in case rbind (validate_extra_env extra) (\<lambda>_.
                rbind (resolve_paths_in_command env ms command) (\<lambda>c.
                rbind (get_shell he) (\<lambda>shell. Inr (c, shell)))) of
           Inl e \<Rightarrow> (Inl e, d)
         | Inr (c, shell) \<Rightarrow>
             (case he_run he (shell_args he shell c) t (shell_env he shell (build_sandbox_env (he_environ he) extra)) d of
                (Inl e, d') \<Rightarrow> (Inl e, d')
              | (Inr r, d') \<Rightarrow> (reverse_resolve_paths_in_output env ms (command_output he t r), d')))"

section \<open>The bash tool\<close>

record bash_env =
  be_host :: host_env
  be_config :: "host_config option"
  be_servers :: "mcp_server list option"
  be_limit :: nat
  be_timeout :: "rat option"

definition bash_names :: "path_error \<Rightarrow> string option" where
  "bash_names e = (case e of PermissionError m \<Rightarrow> Some m | _ \<Rightarrow> None)"

definition injected_secrets :: "tool_runtime \<Rightarrow> (string \<times> string) list option" where
  "injected_secrets rt = (let s = read_active_secrets (rt_context rt) in if s = [] then None else Some s)"

text \<open>The command that reaches the sandbox.\<close>

definition prepared_command :: "tool_env \<Rightarrow> bash_env \<Rightarrow> tool_runtime \<Rightarrow> string \<Rightarrow> path_error + string" where
  "prepared_command te be rt command =
     (let td = get_thread_data rt
      in rbind (validate_local_bash_command_paths (te_paths te) (be_servers be) command td) (\<lambda>_.
         rbind (replace_virtual_paths_in_command (te_paths te) command td) (\<lambda>c.
           let anchored = apply_cwd_prefix c td
           in Inr (case channel_identity_prefix rt of
                     Some p \<Rightarrow> (if \<not> he_windows (be_host be) then p @ anchored else anchored)
                   | None \<Rightarrow> anchored))))"

definition local_bash ::
    "tool_env \<Rightarrow> bash_env \<Rightarrow> path_mapping list \<Rightarrow> string \<Rightarrow> tool_world \<Rightarrow> (path_error + string) \<times> tool_world" where
  "local_bash te be ms command w =
     (let rt = tw_runtime w; env = injected_secrets rt
      in case prepared_command te be rt command of
           Inl e \<Rightarrow> (Inl e, w)
         | Inr c \<Rightarrow>
             (case execute_command (be_host be) (te_paths te) ms c env (be_timeout be) (tw_disk w) of
                (Inl e, d) \<Rightarrow> (Inl e, w\<lparr>tw_disk := d\<rparr>)
              | (Inr output, d) \<Rightarrow>
                  (rbind (mask_local_paths_in_output (te_paths te) (get_thread_data rt) output) (\<lambda>m.
                     Inr (truncate_bash_output (mask_secret_values m (case env of None \<Rightarrow> [] | Some e \<Rightarrow> e)) (be_limit be))),
                   w\<lparr>tw_disk := d\<rparr>)))"

definition remote_bash ::
    "tool_env \<Rightarrow> bash_env \<Rightarrow> path_mapping list \<Rightarrow> string \<Rightarrow> tool_world \<Rightarrow> (path_error + string) \<times> tool_world" where
  "remote_bash te be ms command w =
     (let rt = tw_runtime w; env = injected_secrets rt;
          c = (case channel_identity_prefix rt of Some p \<Rightarrow> p @ command | None \<Rightarrow> command)
      in case execute_command (be_host be) (te_paths te) ms c env None (tw_disk w) of
           (Inl e, d) \<Rightarrow> (Inl e, w\<lparr>tw_disk := d\<rparr>)
         | (Inr output, d) \<Rightarrow>
             (Inr (truncate_bash_output (mask_secret_values output (case env of None \<Rightarrow> [] | Some e \<Rightarrow> e)) (be_limit be)),
              w\<lparr>tw_disk := d\<rparr>))"

definition bash_tool ::
    "tool_env \<Rightarrow> bash_env \<Rightarrow> (local_provider \<Rightarrow> local_provider) \<Rightarrow> string \<Rightarrow> tool_world
      \<Rightarrow> (path_error + string) \<times> tool_world" where
  "bash_tool te be others command w =
     (case ensure_sandbox_initialized te others w of
        (Inl e, w1) \<Rightarrow> (tool_failure te bash_names ''executing command'' e w1, w1)
      | (Inr (sid, sb), w1) \<Rightarrow>
          if is_local_sandbox (tw_runtime w1) \<and> \<not> is_host_bash_allowed (be_config be)
          then (Inr (''Error: '' @ local_host_bash_disabled_message), w1)
          else
            (case create_thread_directories (te_paths te) w1 of
               (Inl e, w2) \<Rightarrow> (tool_failure te bash_names ''executing command'' e w2, w2)
             | (Inr _, w2) \<Rightarrow>
                 (case (if is_local_sandbox (tw_runtime w1) then local_bash else remote_bash)
                         te be (ls_mappings sb) command w2 of
                    (Inl e, w3) \<Rightarrow> (tool_failure te bash_names ''executing command'' e w3, w3)
                  | (Inr t, w3) \<Rightarrow> (Inr t, w3))))"

end
