(* ===== verification/GuardSafety.thy ===== *)
theory GuardSafety
  imports ShellGuard
begin

text \<open>
  What a command the guard accepts may contain: every word that is an absolute path is allowed, and
  every simple command passes the check of its own.
\<close>

section \<open>Words of a command\<close>

definition stop_free :: "string \<Rightarrow> bool" where
  "stop_free w \<longleftrightarrow> list_all (\<lambda>c. \<not> command_stop c) w"

text \<open>A pattern whose matches hold no stop character.\<close>

definition word_pattern :: "(string \<Rightarrow> string \<Rightarrow> nat option) \<Rightarrow> bool" where
  "word_pattern M \<longleftrightarrow> (\<forall>f s n. M f s = Some n \<longrightarrow> n \<le> length s \<and> stop_free (take n s))"

lemma takeWhile_word: "n \<le> length (takeWhile (\<lambda>c. \<not> command_stop c) s) \<Longrightarrow> n \<le> length s \<and> stop_free (take n s)"
proof -
  assume n: "n \<le> length (takeWhile (\<lambda>c. \<not> command_stop c) s)"
  then have "take n s = take n (takeWhile (\<lambda>c. \<not> command_stop c) s)"
    by (metis min.absorb1 take_take takeWhile_eq_take)
  then show ?thesis
    using n length_takeWhile_le [of "\<lambda>c. \<not> command_stop c" s]
    by (auto simp: stop_free_def list_all_iff dest!: in_set_takeD set_takeWhileD)
qed

lemma scheme_not_stop: "scheme_char c \<Longrightarrow> \<not> command_stop c" "\<not> command_stop (CHR '':'')" "\<not> command_stop slash"
  by (auto simp: scheme_char_def ascii_letter_def is_digit_def command_stop_def path_stop_def is_space_def Let_def)

lemma scheme_word:
  assumes "scheme_length s = Some n"
  shows "n \<le> length s \<and> stop_free (take n s)"
proof -
  obtain c t where s: "s = c # t" and c: "ascii_letter c"
    and p: "prefix ''://'' (drop (length (takeWhile scheme_char t)) t)" and n: "n = length (takeWhile scheme_char t) + 4"
    using assms by (auto simp: scheme_length_def Let_def split: list.splits if_splits)
  let ?u = "takeWhile scheme_char t"
  obtain r where r: "t = ?u @ ''://'' @ r"
    using p by (metis append_take_drop_id prefix_def takeWhile_eq_take)
  have "scheme_char c" using c by (simp add: scheme_char_def)
  then have "stop_free (c # ?u @ ''://'')"
    using scheme_not_stop by (auto simp: stop_free_def list_all_iff dest: set_takeWhileD)
  moreover have "take n s = c # ?u @ ''://''"
  proof -
    have "take (length ?u + 3) (?u @ ''://'' @ r) = ?u @ ''://''" by simp
    with r have "take (length ?u + 3) t = ?u @ ''://''" by simp
    moreover have "n = Suc (length ?u + 3)" by (simp add: n)
    ultimately show ?thesis by (simp only: s take_Suc_Cons)
  qed
  moreover have "n \<le> length s"
    using arg_cong [OF r, of length] by (simp add: s n)
  ultimately show ?thesis by simp
qed

lemma url_word: "word_pattern url_match"
  unfolding word_pattern_def
proof (intro allI impI)
  fix f s n
  assume "url_match f s = Some n"
  then obtain k m where k: "scheme_length s = Some k" and n: "n = k + m"
    and m: "m = length (takeWhile (\<lambda>c. \<not> command_stop c) (drop k s))"
    by (auto simp: url_match_def Let_def split: option.splits if_splits)
  have "m \<le> length (drop k s) \<and> stop_free (take m (drop k s))" using takeWhile_word [of m "drop k s"] m by simp
  with scheme_word [OF k] show "n \<le> length s \<and> stop_free (take n s)"
    by (auto simp: n take_add stop_free_def)
qed

lemma absolute_word: "word_pattern absolute_match"
  unfolding word_pattern_def
proof (intro allI impI)
  fix f s n
  assume "absolute_match f s = Some n"
  then obtain t where s: "s = slash # t" and n: "n = Suc (length (takeWhile (\<lambda>c. \<not> command_stop c) t))"
    by (auto simp: absolute_match_def Let_def split: list.splits if_splits)
  show "n \<le> length s \<and> stop_free (take n s)"
    using takeWhile_word [of "length (takeWhile (\<lambda>c. \<not> command_stop c) t)" t] scheme_not_stop(3)
    by (simp add: s n stop_free_def)
qed

lemma match_within:
  assumes "stop_free (c # take n (a @ s))" and "n \<le> length (a @ s)" and "command_stop (last (c # a))"
  shows "n < length a"
proof (rule ccontr)
  assume "\<not> n < length a"
  then have "take n (a @ s) = a @ take (n - length a) s" by simp
  then have "last (c # a) \<in> set (c # take n (a @ s))" using last_in_set [of "c # a"] by auto
  with assms(1,3) show False by (simp only: stop_free_def list_all_iff)
qed

text \<open>Searching does not cross a stop character: what is found from it on is found by starting there.\<close>

lemma find_from_stop:
  assumes "word_pattern M" and "a = [] \<or> command_stop (last a)"
  shows "\<exists>ms. find_matches M f (a @ s) = ms @ find_matches M (rev a @ f) s
    \<and> (\<forall>(i, t) \<in> set ms. i + length t \<le> length f + length a)"
  using assms(2)
proof (induction "length a" arbitrary: a f rule: less_induct)
  case less
  show ?case
  proof (cases a)
    case Nil
    then show ?thesis by simp
  next
    case (Cons c b)
    with less.prems have stop: "command_stop (last (c # b))" by simp
    show ?thesis
    proof (cases "\<exists>n. M f (a @ s) = Some (Suc n)")
      case True
      then obtain n where n: "M f (c # b @ s) = Some (Suc n)" by (auto simp: Cons)
      then have w: "Suc n \<le> length (c # b @ s)" "stop_free (take (Suc n) (c # b @ s))"
        using assms(1) unfolding word_pattern_def by blast+
      have nb: "n < length b" using match_within [of c n b s] w stop by simp
      let ?a = "drop n b"
      have "length ?a < length a" by (simp add: Cons)
      moreover have "?a = [] \<or> command_stop (last ?a)" using nb stop by (cases b) (simp_all add: last_drop)
      ultimately obtain ms where
        ms: "find_matches M (rev (take n b) @ c # f) (?a @ s) = ms @ find_matches M (rev ?a @ rev (take n b) @ c # f) s"
        and b: "\<forall>(i, t) \<in> set ms. i + length t \<le> length (rev (take n b) @ c # f) + length ?a"
        using less.hyps by blast
      have r: "rev ?a @ rev (take n b) = rev b" by (metis append_take_drop_id rev_append)
      have "find_matches M f (a @ s)
          = (length f, c # take n b) # ms @ find_matches M (rev a @ f) s"
        using n ms nb r by (simp add: Cons) (metis append_assoc)
      moreover have "\<forall>(i, t) \<in> set ((length f, c # take n b) # ms). i + length t \<le> length f + length a"
        using b nb by (auto simp: Cons)
      ultimately show ?thesis by (metis append_Cons)
    next
      case False
      then have step: "find_matches M f (a @ s) = find_matches M (c # f) (b @ s)"
        by (auto simp: Cons split: option.splits nat.splits)
      have "b = [] \<or> command_stop (last b)" using stop by (auto split: if_splits)
      from less.hyps [of b "c # f", OF _ this] obtain ms where
        "find_matches M (c # f) (b @ s) = ms @ find_matches M (rev b @ c # f) s"
        "\<forall>(i, t) \<in> set ms. i + length t \<le> length (c # f) + length b"
        by (auto simp: Cons)
      then have "find_matches M f (a @ s) = ms @ find_matches M (rev a @ f) s
          \<and> (\<forall>(i, t) \<in> set ms. i + length t \<le> length f + length a)"
        unfolding step by (simp add: Cons)
      then show ?thesis by blast
    qed
  qed
qed

lemma find_positions: "(i, t) \<in> set (find_matches M f s) \<Longrightarrow> length f \<le> i"
proof (induction M f s rule: find_matches.induct)
  case (1 M f)
  then show ?case by simp
next
  case (2 M f c s)
  then show ?case by (force split: option.splits nat.splits)
qed

lemma word_found:
  assumes "a = [] \<or> command_stop (last a)" and "b = [] \<or> command_stop (hd b)" and "stop_free w"
    and "w = slash # v" and "v \<noteq> []"
  shows "(length a, w) \<in> set (find_matches absolute_match [] (a @ w @ b))"
    and "\<not> is_in_spans (length a) (non_file_url_spans (a @ w @ b))"
proof -
  have v: "takeWhile (\<lambda>c. \<not> command_stop c) (v @ b) = v"
    using assms(2-4) by (cases b) (auto simp: stop_free_def list_all_iff takeWhile_append)
  have front: "case rev a of [] \<Rightarrow> True | d # _ \<Rightarrow> d \<noteq> CHR '':'' \<and> \<not> is_word d \<and> d \<noteq> slash"
  proof (cases a rule: rev_cases)
    case (snoc x d)
    then have "command_stop d" using assms(1) by simp
    moreover have "\<not> command_stop d" if "is_word d"
      using that by (auto simp: command_stop_def path_stop_def is_word_def is_space_def Let_def)
    ultimately show ?thesis using scheme_not_stop(2,3) snoc by auto
  qed simp
  have M: "absolute_match (rev a) (w @ b) = Some (Suc (length v))"
    using v front assms(4,5) by (auto simp: absolute_match_def Let_def prefix_def split: list.splits)
  have hit: "(length a, w) \<in> set (find_matches absolute_match (rev a) (w @ b))"
    using M assms(4) by simp
  obtain ms where "find_matches absolute_match [] (a @ w @ b) = ms @ find_matches absolute_match (rev a) (w @ b)"
    using find_from_stop [OF absolute_word assms(1), of "[]" "w @ b"] by auto
  with hit show "(length a, w) \<in> set (find_matches absolute_match [] (a @ w @ b))" by simp
  obtain us where us: "find_matches url_match [] (a @ w @ b) = us @ find_matches url_match (rev a) (w @ b)"
    "\<forall>(i, t) \<in> set us. i + length t \<le> length a"
    using find_from_stop [OF url_word assms(1), of "[]" "w @ b"] by auto
  have "url_match (rev a) (w @ b) = None"
    using assms(4) by (simp add: url_match_def scheme_length_def ascii_letter_def Let_def)
  then have rest: "find_matches url_match (rev a) (w @ b) = find_matches url_match (slash # rev a) (v @ b)"
    using assms(4) by simp
  show "\<not> is_in_spans (length a) (non_file_url_spans (a @ w @ b))"
  proof
    assume "is_in_spans (length a) (non_file_url_spans (a @ w @ b))"
    then obtain i t where it: "(i, t) \<in> set (find_matches url_match [] (a @ w @ b))"
      and le: "i \<le> length a" "length a < i + length t"
      by (auto simp: is_in_spans_def non_file_url_spans_def list_ex_iff)
    then have "(i, t) \<in> set (find_matches url_match (slash # rev a) (v @ b))" using us rest by auto
    then have "Suc (length a) \<le> i" using find_positions by fastforce
    with le show False by simp
  qed
qed

lemma safe_paths_allowed:
  "unsafe_absolute_paths env allowed spans ms = Inr [] \<Longrightarrow> (i, p) \<in> set ms \<Longrightarrow> \<not> is_in_spans i spans
    \<Longrightarrow> is_non_path_literal_fragment p \<or> is_allowed_local_bash_absolute_path env allowed True p = Inr True"
  by (induction env allowed spans ms rule: unsafe_absolute_paths.induct)
    (auto simp: res_simps split: if_splits)

text \<open>C24. In a command the guard accepts, every word that starts with a slash (a maximal run of characters
  without white space, quotation marks, separators, redirections and parentheses) is the bare root directory, text
  that cannot be a path, or one of the allowed paths: below a virtual directory, a mount or a directory of a file
  server, and then without parent segments, or a system program or device.  URLs before it hide no such word.\<close>

theorem accepted_words_are_allowed:
  assumes "validate_local_bash_command_paths env servers (a @ w @ b) td = Inr ()"
    and "a = [] \<or> command_stop (last a)" and "b = [] \<or> command_stop (hd b)" and "stop_free w"
    and "w = slash # v"
  shows "w = [slash] \<or> is_non_path_literal_fragment w
    \<or> is_allowed_local_bash_absolute_path env (get_mcp_allowed_paths servers) True w = Inr True"
proof (cases "v = []")
  case True
  then show ?thesis using assms(5) by simp
next
  case False
  have "unsafe_absolute_paths env (get_mcp_allowed_paths servers) (non_file_url_spans (a @ w @ b))
      (find_matches absolute_match [] (a @ w @ b)) = Inr []"
    using assms(1)
    by (auto simp: validate_local_bash_command_paths_def Let_def res_simps split: if_splits list.splits)
  from safe_paths_allowed [OF this word_found [OF assms(2-5) False]] show ?thesis by blast
qed

text \<open>The exception is real: the pattern needs a character after the slash, and the bare root is refused only as an
  operand of the listed file commands.\<close>

section \<open>Simple commands\<close>












lemma slash_no_url [simp]: "\<not> is_non_file_url_token ''/''"
  by (simp add: is_non_file_url_token_def scheme_length_def ascii_letter_def Let_def)






lemma check_separator [simp]:
  "is_shell_command_separator t \<Longrightarrow> check_commands env allowed b (t # ts) = check_commands env allowed True ts"
  by simp

declare check_commands.simps(2) [simp del]






text \<open>A redirection in front of a command takes the place of the command name, so the directory change
  behind it is not seen.\<close>

lemma redirection_hides_cd: "check_commands env allowed True [''>'', ''out'', ''cd'', ''~''] = Inr ()"
  by (simp add: check_commands.simps is_shell_command_separator_def is_shell_redirection_operator_def
      is_shell_assignment_def last_segment_def local_bash_command_prefix_keywords_def
      local_bash_command_end_keywords_def local_bash_command_wrappers_def local_bash_cwd_commands_def
      validate_local_bash_root_path_args_def local_bash_root_path_commands_def)


section \<open>Concrete commands\<close>

definition guard_env :: path_env where
  "guard_env = \<lparr>pv_skills_container = ''/mnt/skills'', pv_skills_host = None, pv_mounts = [],
     pv_acp_host = (\<lambda>_. None), pv_resolve = Some\<rparr>"

definition guard_dirs :: thread_dirs where
  "guard_dirs = \<lparr>td_workspace = Some ''/w'', td_uploads = None, td_outputs = None\<rparr>"

lemma guard_accepts:
  "validate_local_bash_command_paths guard_env None (''ls '' @ ''/mnt/user-data/x'' @ '' | wc'') (Some guard_dirs) = Inr ()"
  by code_simp

lemma bare_root_is_accepted:
  "validate_local_bash_command_paths guard_env None ''tree /'' (Some guard_dirs) = Inr ()"
  by code_simp

theorem accepted_words_are_allowed_witness:
  "is_non_path_literal_fragment ''/mnt/user-data/x''
    \<or> is_allowed_local_bash_absolute_path guard_env (get_mcp_allowed_paths None) True ''/mnt/user-data/x'' = Inr True"
  using accepted_words_are_allowed [OF guard_accepts, where v = "''mnt/user-data/x''"]
  by (simp add: command_stop_def path_stop_def is_space_def stop_free_def)



end
