(* ===== verification/SandboxSafety.thy ===== *)
theory SandboxSafety
  imports SandboxTools
begin

text \<open>
  What the path policy of the tools and the mappings of the local sandbox guarantee together: writes
  end inside the directories of the thread or a writable mount, and where the two disagree.
\<close>

section \<open>Directories above a path\<close>

lemma rstrip_slashes:
  obtains n where "s = rstrip_chars ''/'' s @ replicate n slash"
proof -
  obtain p where p: "s = rstrip_chars ''/'' s @ p" "set p \<subseteq> {slash}" using rstrip_split [of s "''/''"] by auto
  then have "p = replicate (length p) slash" by (metis replicate_length_same singletonD subsetD)
  with p(1) show ?thesis using that by metis
qed

lemma rstrip_no_slash: "rstrip_chars ''/'' s \<noteq> [] \<Longrightarrow> last (rstrip_chars ''/'' s) \<noteq> slash"
  unfolding rstrip_chars_def
  by (metis (mono_tags, lifting) hd_dropWhile last_rev list.set_intros(1) rev_is_Nil_conv)

lemma rstrip_done: "s = [] \<or> last s \<noteq> slash \<Longrightarrow> rstrip_chars ''/'' s = s"
  by (cases s rule: rev_cases) (auto simp: rstrip_chars_def)

text \<open>The directory of a path is above it: its root is the same and its parts begin the parts of the path.\<close>

lemma dir_name_split:
  obtains h t where "s = h @ t" and "slash \<notin> set t" and "h = [] \<or> last h = slash"
    and "dir_name s = (if rstrip_chars ''/'' h = [] then h else rstrip_chars ''/'' h)"
proof -
  obtain w where w: "s = rev w" by (metis rev_rev_ident)
  let ?h = "dropWhile (\<lambda>c. c \<noteq> slash) w" and ?t = "takeWhile (\<lambda>c. c \<noteq> slash) w"
  have "s = rev ?h @ rev ?t" unfolding w by (metis rev_append takeWhile_dropWhile_id)
  moreover have "slash \<notin> set (rev ?t)" using set_takeWhileD by fastforce
  moreover have "rev ?h = [] \<or> last (rev ?h) = slash"
    using hd_dropWhile [of "\<lambda>c. c \<noteq> slash" w] by (auto simp: last_rev)
  moreover have "dir_name s = (if rstrip_chars ''/'' (rev ?h) = [] then rev ?h else rstrip_chars ''/'' (rev ?h))"
    by (simp add: dir_name_def Let_def w)
  ultimately show ?thesis by (rule that)
qed

lemma dir_name_above:
  assumes "dir_name s \<noteq> ''''"
  shows "path_below (pure_path_of s) (pure_path_of (dir_name s))"
proof -
  obtain h t where ht: "s = h @ t" "slash \<notin> set t" "h = [] \<or> last h = slash"
    and dir: "dir_name s = (if rstrip_chars ''/'' h = [] then h else rstrip_chars ''/'' h)" by (rule dir_name_split)
  have ends: "h \<noteq> []" "last h = slash" using assms dir ht(3) by (auto simp: rstrip_chars_def split: if_splits)
  obtain d n where d: "d = rstrip_chars ''/'' h" "h = d @ replicate n slash" by (metis rstrip_slashes)
  show ?thesis
  proof (cases "d = []")
    case True
    then have h: "h = replicate n slash" using d(2) by simp
    have "path_parts h = []" using path_parts_rstrip [of "[]" n] h by simp
    moreover have "posix_root s = posix_root h" using posix_root_slashes [OF ht(2)] ht(1) h by simp
    ultimately show ?thesis using True dir d(1) by (simp add: path_below_def pure_path_of_def)
  next
    case False
    then have last: "last d \<noteq> slash" using rstrip_no_slash d(1) by simp
    with d(2) ends obtain k where "n = Suc k" by (cases n) auto
    then have s: "s = (d @ replicate k slash) @ slash # t"
      using ht(1) d(2) by (simp add: replicate_app_Cons_same)
    have "path_parts s = path_parts d @ path_parts t"
      unfolding s path_parts_append path_parts_rstrip by (rule refl)
    moreover have "posix_root s = posix_root d"
      using posix_root_keeps [OF False last, of "replicate k slash @ slash # t"] s by simp
    ultimately show ?thesis using False dir d(1) by (simp add: path_below_def pure_path_of_def)
  qed
qed

text \<open>A step that only creates directories, at places where nothing was and that \<open>P\<close> allows.\<close>

definition new_dirs_only :: "(string \<Rightarrow> bool) \<Rightarrow> disk \<Rightarrow> disk \<Rightarrow> bool" where
  "new_dirs_only P d d' \<longleftrightarrow>
     (\<forall>q. map_of d' q = map_of d q \<or> (map_of d q = None \<and> map_of d' q = Some DirEntry \<and> P q))"

lemma new_dirs_refl [simp]: "new_dirs_only P d d"
  by (simp add: new_dirs_only_def)

lemma new_dirs_trans: "new_dirs_only P a b \<Longrightarrow> new_dirs_only P b c \<Longrightarrow> new_dirs_only P a c"
  unfolding new_dirs_only_def by (metis option.distinct(1))

lemma new_dirs_mono: "new_dirs_only P a b \<Longrightarrow> (\<And>q. P q \<Longrightarrow> Q q) \<Longrightarrow> new_dirs_only Q a b"
  unfolding new_dirs_only_def by blast

lemma new_dirs_fold:
  "new_dirs_only (\<lambda>q. q \<in> set ps) d (fold (\<lambda>s d. if map_of d s = None then od_set s DirEntry d else d) ps d)"
proof (induction ps arbitrary: d)
  case Nil
  then show ?case by simp
next
  case (Cons s ps)
  let ?d = "if map_of d s = None then od_set s DirEntry d else d"
  have "new_dirs_only (\<lambda>q. q \<in> set (s # ps)) d ?d" by (auto simp: new_dirs_only_def)
  moreover have "new_dirs_only (\<lambda>q. q \<in> set (s # ps)) ?d
      (fold (\<lambda>s d. if map_of d s = None then od_set s DirEntry d else d) ps ?d)"
    by (rule new_dirs_mono [OF Cons.IH]) simp
  ultimately have "new_dirs_only (\<lambda>q. q \<in> set (s # ps)) d
      (fold (\<lambda>s d. if map_of d s = None then od_set s DirEntry d else d) ps ?d)"
    by (rule new_dirs_trans)
  then show ?case by (simp only: fold.simps comp_apply)
qed

lemma create_dirs_made:
  assumes "path_ok p"
  shows "new_dirs_only (\<lambda>q. path_below p (pure_path_of q)) d (snd (create_dirs name p d))"
proof -
  have "new_dirs_only (\<lambda>q. path_below p (pure_path_of q)) d
      (fold (\<lambda>s d. if map_of d s = None then od_set s DirEntry d else d) (ancestor_paths p) d)"
    by (rule new_dirs_mono [OF new_dirs_fold]) (rule ancestor_above [OF _ assms])
  then show ?thesis by (simp add: create_dirs_def Let_def)
qed

lemma make_parent_new:
  "new_dirs_only (\<lambda>q. path_below (pure_path_of s) (pure_path_of q)) d (snd (make_parent name s d))"
proof (cases "dir_name s = ''''")
  case False
  then have "new_dirs_only (\<lambda>q. path_below (pure_path_of s) (pure_path_of q)) d
      (snd (create_dirs name (pure_path_of (dir_name s)) d))"
    by (intro new_dirs_mono [OF create_dirs_made]) (auto intro: path_below_trans [OF dir_name_above])
  with False show ?thesis by (simp add: make_parent_def)
qed (simp add: make_parent_def)

section \<open>Resolution in the sandbox\<close>

lemma resolved_ok: "resolve_path env s = Inr p \<Longrightarrow> pure_path_of (path_text p) = p"
  by (auto simp: resolve_path_def path_reads_back split: option.splits)

lemma resolved_local_lookup:
  assumes "resolved_local_paths env ms = Inr rs" and "m \<in> set ms"
  shows "\<exists>p. resolve_path env (pm_local m) = Inr p \<and> map_of rs m = Some (path_text p)"
  using assms unfolding resolved_local_paths_def
proof (induction ms arbitrary: rs)
  case Nil
  then show ?case by simp
next
  case (Cons n ms)
  then show ?case by (cases "m = n") (auto simp: res_simps)
qed

lemma first_mapping_mem: "first_mapping path ms = Some (m, rel) \<Longrightarrow> m \<in> set ms"
  by (induction ms) (auto simp: Let_def split: if_splits)

lemma find_mapping_mem: "find_path_mapping ms path = Some (m, rel) \<Longrightarrow> m \<in> set ms"
  using first_mapping_mem by (fastforce simp: find_path_mapping_def by_container_specificity_def)

definition matches_mapping :: "path_mapping \<Rightarrow> string \<Rightarrow> bool" where
  "matches_mapping m path \<longleftrightarrow>
     (if container_base m = ''/'' then prefix ''/'' path else under_prefix (container_base m) path)"

lemma first_mapping_found: "m \<in> set ms \<Longrightarrow> matches_mapping m path \<Longrightarrow> first_mapping path ms \<noteq> None"
  by (induction ms) (auto simp: Let_def matches_mapping_def split: if_splits)

lemma find_mapping_found: "m \<in> set ms \<Longrightarrow> matches_mapping m path \<Longrightarrow> find_path_mapping ms path \<noteq> None"
  by (simp add: find_path_mapping_def by_container_specificity_def first_mapping_found)

text \<open>A path below the resolved directory of a mapping.\<close>

definition below_mapping :: "path_env \<Rightarrow> path_mapping \<Rightarrow> string \<Rightarrow> bool" where
  "below_mapping env m q \<longleftrightarrow>
     (\<exists>base. resolve_path env (pm_local m) = Inr base \<and> path_below (pure_path_of q) base)"

lemma resolve_with_mapping_cases:
  assumes "resolve_path_with_mapping env ms path = Inr r"
  shows "(find_path_mapping ms path = None \<and> rp_path r = path \<and> rp_mapping r = None)
    \<or> (\<exists>m. m \<in> set ms \<and> rp_mapping r = Some m \<and> below_mapping env m (rp_path r))"
proof (cases "find_path_mapping ms path")
  case None
  then show ?thesis using assms by (auto simp: resolve_path_with_mapping_def)
next
  case (Some mr)
  obtain m rel where mr: "mr = (m, rel)" by (cases mr)
  from assms Some mr obtain rs resolved where
    rs: "resolved_local_paths env ms = Inr rs"
    and res: "(if rel = '''' then Inr (pure_path_of (the (map_of rs m)))
               else resolve_path env (path_text (path_join (pure_path_of (the (map_of rs m))) rel))) = Inr resolved"
    and below: "path_below resolved (pure_path_of (the (map_of rs m)))"
    and r: "r = \<lparr>rp_path = path_text resolved, rp_mapping = Some m\<rparr>"
    by (auto simp: resolve_path_with_mapping_def Let_def res_simps)
  have mem: "m \<in> set ms" using Some mr by (auto intro: find_mapping_mem)
  from resolved_local_lookup [OF rs mem] obtain p where
    p: "resolve_path env (pm_local m) = Inr p" "map_of rs m = Some (path_text p)" by blast
  have base: "pure_path_of (the (map_of rs m)) = p" using p resolved_ok by simp
  have "pure_path_of (path_text resolved) = resolved"
    using res base resolved_ok [OF p(1)] resolved_ok by (auto split: if_splits)
  with below p r mem base show ?thesis by (auto simp: below_mapping_def)
qed

section \<open>What a write changes\<close>

definition write_allowed :: "path_env \<Rightarrow> path_mapping list \<Rightarrow> string \<Rightarrow> bool" where
  "write_allowed env ms q \<longleftrightarrow> is_read_only_path env ms q = Inr False"

lemma target_resolved:
  "writable_target env ms path = Inr p \<Longrightarrow>
    \<exists>r. resolve_path_with_mapping env ms path = Inr r \<and> is_resolved_path_read_only env ms r = Inr False \<and> p = rp_path r"
  by (auto simp: writable_target_def res_simps)

text \<open>A write changes the place it goes to and creates directories above it, nothing else.\<close>

lemma write_file_effect:
  assumes "write_file env mix path content appending st = (res, st')"
    and "map_of (ss_disk st') q \<noteq> map_of (ss_disk st) q"
  shows "\<exists>p. writable_target env (ls_mappings (ss_sandbox st)) path = Inr p
    \<and> (q = p \<or> (map_of (ss_disk st) q = None \<and> map_of (ss_disk st') q = Some DirEntry
                  \<and> path_below (pure_path_of p) (pure_path_of q)))"
proof -
  from assms obtain p where p: "writable_target env (ls_mappings (ss_sandbox st)) path = Inr p"
    by (auto simp: write_file_def Let_def split: sum.splits)
  obtain x d where d: "make_parent path p (ss_disk st) = (x, d)" by fastforce
  have dirs: "new_dirs_only (\<lambda>q. path_below (pure_path_of p) (pure_path_of q)) (ss_disk st) d"
    using make_parent_new [of p "ss_disk st" path] d by simp
  have "ss_disk st' = d \<or> (\<exists>e. ss_disk st' = od_set p e d)"
    using assms(1) p d by (auto simp: write_file_def Let_def split: sum.splits)
  then have "q = p \<or> map_of (ss_disk st') q = map_of d q" by (auto split: if_splits)
  with p dirs assms(2) show ?thesis unfolding new_dirs_only_def by metis
qed

lemma not_read_only:
  assumes "is_resolved_path_read_only env ms r = Inr False"
  shows "write_allowed env ms (rp_path r)" and "rp_mapping r = Some m \<Longrightarrow> \<not> pm_read_only m"
  using assms by (auto simp: is_resolved_path_read_only_def write_allowed_def split: if_splits option.splits)

text \<open>A place a tool of the thread may write to: below a directory of the thread or a mapping that
  is not read-only, and not below a more specific read-only mapping.\<close>

definition writable_place :: "path_env \<Rightarrow> path_mapping list \<Rightarrow> thread_dirs option \<Rightarrow> string \<Rightarrow> bool" where
  "writable_place env ms td q \<longleftrightarrow>
     write_allowed env ms q
     \<and> ((\<exists>m \<in> set ms. \<not> pm_read_only m \<and> below_mapping env m q)
        \<or> (\<exists>d roots. td = Some d \<and> allowed_roots env d = Inr roots \<and> (\<exists>b \<in> set roots. path_below (pure_path_of q) b)))"

text \<open>Every custom mount the tools know is mapped by the sandbox.\<close>

definition mounts_agree :: "path_env \<Rightarrow> path_mapping list \<Rightarrow> bool" where
  "mounts_agree env ms \<longleftrightarrow>
     (\<forall>path. is_custom_mount_path env path \<and> \<not> is_skills_path env path \<longrightarrow> find_path_mapping ms path \<noteq> None)"

lemma write_policy:
  assumes "write_tool_path env path td = Inr p" and "mounts_agree env ms"
    and "resolve_path_with_mapping env ms p = Inr r" and "is_resolved_path_read_only env ms r = Inr False"
  shows "writable_place env ms td (rp_path r)"
proof -
  note ro = not_read_only [OF assms(4)]
  from assms(1) obtain d where d: "td = Some d" and valid: "validate_local_tool_path env path (Some d) False = Inr ()"
    by (cases td) (auto simp: write_tool_path_def validate_local_tool_path_def res_simps)
  have no_skills: "\<not> is_skills_path env path"
    using valid by (auto simp: validate_local_tool_path_def res_simps split: if_splits)
  from resolve_with_mapping_cases [OF assms(3)] show ?thesis
  proof
    assume "\<exists>m. m \<in> set ms \<and> rp_mapping r = Some m \<and> below_mapping env m (rp_path r)"
    with ro show ?thesis by (auto simp: writable_place_def)
  next
    assume none: "find_path_mapping ms p = None \<and> rp_path r = p \<and> rp_mapping r = None"
    have "\<not> is_custom_mount_path env path"
    proof
      assume m: "is_custom_mount_path env path"
      then have "p = path" using assms(1) by (auto simp: write_tool_path_def res_simps)
      with none m no_skills assms(2) show False by (auto simp: mounts_agree_def)
    qed
    then have "resolve_and_validate_user_data_path env path d = Inr p"
      using assms(1) d by (auto simp: write_tool_path_def res_simps)
    then obtain resolved roots where
      "resolve_path env (replace_virtual_path path (Some d)) = Inr resolved" "allowed_roots env d = Inr roots"
      "list_ex (path_below resolved) roots" "p = path_text resolved"
      by (auto simp: resolve_and_validate_user_data_path_def validate_resolved_user_data_path_def res_simps
          split: if_splits)
    moreover from this have "pure_path_of p = resolved" using resolved_ok by blast
    ultimately show ?thesis using ro(1) none d by (auto simp: writable_place_def list_ex_iff)
  qed
qed

lemma put_state_disk [simp]: "tw_disk (put_state sid st w) = ss_disk st"
  by (simp add: put_state_def)

text \<open>What a call may change: a writable place; or a directory is created where nothing was, and it is one of the
  directories of the thread, or one above a directory of the thread or above a writable place.\<close>

definition holds_thread_dir :: "path_env \<Rightarrow> thread_dirs option \<Rightarrow> string \<Rightarrow> bool" where
  "holds_thread_dir env td q \<longleftrightarrow>
     (\<exists>d s p. td = Some d \<and> Some s \<in> {td_workspace d, td_uploads d, td_outputs d}
        \<and> resolve_path env s = Inr p \<and> path_below p (pure_path_of q))"

definition holds_writable_place :: "path_env \<Rightarrow> path_mapping list \<Rightarrow> thread_dirs option \<Rightarrow> string \<Rightarrow> bool" where
  "holds_writable_place env ms td q \<longleftrightarrow>
     (\<exists>p. writable_place env ms td p \<and> path_below (pure_path_of p) (pure_path_of q))"

lemma write_inside:
  assumes "write_tool_path env path td = Inr p" and "mounts_agree env ms"
    and "write_file env mix p content appending st = (res, st')" and "ls_mappings (ss_sandbox st) = ms"
    and "map_of (ss_disk st') q \<noteq> map_of (ss_disk st) q"
  shows "(map_of (ss_disk st) q = None \<and> map_of (ss_disk st') q = Some DirEntry \<and> holds_writable_place env ms td q)
    \<or> writable_place env ms td q"
proof -
  from write_file_effect [OF assms(3,5)] assms(4) obtain p' where p': "writable_target env ms p = Inr p'"
    and q: "q = p' \<or> (map_of (ss_disk st) q = None \<and> map_of (ss_disk st') q = Some DirEntry
          \<and> path_below (pure_path_of p') (pure_path_of q))" by auto
  have "writable_place env ms td p'"
    using target_resolved [OF p'] write_policy [OF assms(1,2)] by blast
  with q show ?thesis by (auto simp: holds_writable_place_def)
qed

text \<open>Opening the sandbox only creates the directories of the thread.\<close>

lemma add_dirs_new:
  assumes "add_dirs env ps d = (x, d')"
  shows "new_dirs_only (\<lambda>q. \<exists>s p. Some s \<in> set ps \<and> resolve_path env s = Inr p \<and> path_below p (pure_path_of q)) d d'"
  using assms
proof (induction env ps d arbitrary: x d' rule: add_dirs.induct)
  case (3 env s ps d)
  let ?P = "\<lambda>q. \<exists>s' p. Some s' \<in> set (Some s # ps) \<and> resolve_path env s' = Inr p \<and> path_below p (pure_path_of q)"
  show ?case
  proof (cases "s = '''' \<or> (\<exists>e. resolve_path env s = Inl e)")
    case True
    then have "d' = d \<or> new_dirs_only (\<lambda>q. \<exists>s p. Some s \<in> set ps \<and> resolve_path env s = Inr p
        \<and> path_below p (pure_path_of q)) d d'"
      using 3 by (auto split: if_splits)
    then show ?thesis using new_dirs_mono [of _ d d' ?P] by force
  next
    case False
    then obtain p where p: "resolve_path env s = Inr p" "s \<noteq> ''''" by (cases "resolve_path env s") auto
    have ok: "path_ok p" using p(1) by (auto simp: resolve_path_def split: option.splits)
    obtain y d1 where y: "create_dirs s p d = (y, d1)" by fastforce
    have first: "new_dirs_only ?P d d1"
      using new_dirs_mono [OF create_dirs_made [OF ok, of d s], of ?P] y p(1) by auto
    show ?thesis
    proof (cases y)
      case (Inl e)
      then show ?thesis using first "3.prems" p y by auto
    next
      case (Inr u)
      then have rest: "add_dirs env ps d1 = (x, d')" using "3.prems" p y by simp
      have "new_dirs_only ?P d1 d'"
        by (rule new_dirs_mono [OF "3.IH"(2) [OF p(2,1) y [symmetric] Inr rest]]) auto
      with first show ?thesis by (rule new_dirs_trans)
    qed
  qed
qed (auto elim!: new_dirs_mono)

lemma thread_dirs_new:
  assumes "create_thread_directories env w = (x, w1)"
  shows "new_dirs_only (holds_thread_dir env (get_thread_data (tw_runtime w1))) (tw_disk w) (tw_disk w1)"
    and "get_thread_data (tw_runtime w1) = get_thread_data (tw_runtime w)"
proof -
  have "get_thread_data (tw_runtime w1) = get_thread_data (tw_runtime w)
    \<and> (tw_disk w1 = tw_disk w
       \<or> (\<exists>td y. get_thread_data (tw_runtime w) = Some td
            \<and> add_dirs env [td_workspace td, td_uploads td, td_outputs td] (tw_disk w) = (y, tw_disk w1)))"
    using assms
    by (auto simp: create_thread_directories_def get_thread_data_def Let_def simp del: add_dirs.simps
        split: option.splits if_splits sum.splits prod.splits)
  moreover have "new_dirs_only (holds_thread_dir env (Some td)) d d'"
    if "add_dirs env [td_workspace td, td_uploads td, td_outputs td] d = (y, d')" for td y d d'
    using add_dirs_new [OF that] by (rule new_dirs_mono) (auto simp: holds_thread_dir_def)
  ultimately show "new_dirs_only (holds_thread_dir env (get_thread_data (tw_runtime w1))) (tw_disk w) (tw_disk w1)"
    and "get_thread_data (tw_runtime w1) = get_thread_data (tw_runtime w)" by auto
qed

lemma ensure_sandbox_disk:
  "ensure_sandbox_initialized te others w = (x, w1) \<Longrightarrow> tw_disk w1 = tw_disk w"
  by (auto simp: ensure_sandbox_initialized_def existing_sandbox_def Let_def
      split: option.splits pyval.splits prod.splits sum.splits)

lemma open_sandbox_disk:
  assumes "open_sandbox te others w = (x, w1)"
  shows "new_dirs_only (holds_thread_dir (te_paths te) (get_thread_data (tw_runtime w1))) (tw_disk w) (tw_disk w1)"
proof -
  obtain y w2 where e: "ensure_sandbox_initialized te others w = (y, w2)" by fastforce
  have "w1 = w2 \<or> (\<exists>z. create_thread_directories (te_paths te) w2 = (z, w1))"
    using assms e by (auto simp: open_sandbox_def split: sum.splits prod.splits)
  then show ?thesis using thread_dirs_new(1) [of "te_paths te" w2 _ w1] ensure_sandbox_disk [OF e] by auto
qed

definition inside_change :: "path_env \<Rightarrow> path_mapping list \<Rightarrow> thread_dirs option \<Rightarrow> disk \<Rightarrow> disk \<Rightarrow> string \<Rightarrow> bool" where
  "inside_change env ms td d d' q \<longleftrightarrow>
     (map_of d q = None \<and> map_of d' q = Some DirEntry \<and> holds_writable_place env ms td q) \<or> writable_place env ms td q"

lemma written_inside:
  assumes "write_tool_path env path td = Inr p" and "mounts_agree env (ls_mappings sb)"
    and "write_file env mix p content appending \<lparr>ss_sandbox = sb, ss_disk = d\<rparr> = (res, st')"
    and "map_of (ss_disk st') q \<noteq> map_of d q"
  shows "inside_change env (ls_mappings sb) td d (ss_disk st') q"
  using write_inside [OF assms(1,2,3)] assms(4) by (simp add: inside_change_def)

lemma write_tool_changes:
  assumes "open_sandbox te others w = (Inr (sid, sb), w1)"
    and "is_local_sandbox (tw_runtime w1)" and "mounts_agree (te_paths te) (ls_mappings sb)"
    and "w' = snd (write_file_tool te others path content appending w)"
    and "map_of (tw_disk w') q \<noteq> map_of (tw_disk w) q" and "map_of (tw_disk w') q \<noteq> map_of (tw_disk w1) q"
  shows "inside_change (te_paths te) (ls_mappings sb) (get_thread_data (tw_runtime w1)) (tw_disk w1) (tw_disk w') q"
  using assms
  by (auto simp: write_file_tool_def sandbox_path_def Let_def intro: written_inside
      split: if_splits sum.splits prod.splits)

lemma replace_tool_changes:
  assumes "open_sandbox te others w = (Inr (sid, sb), w1)"
    and "is_local_sandbox (tw_runtime w1)" and "mounts_agree (te_paths te) (ls_mappings sb)"
    and "w' = snd (str_replace_tool te others path old_str new_str replace_all w)"
    and "map_of (tw_disk w') q \<noteq> map_of (tw_disk w1) q"
  shows "inside_change (te_paths te) (ls_mappings sb) (get_thread_data (tw_runtime w1)) (tw_disk w1) (tw_disk w') q"
  using assms
  by (auto simp: str_replace_tool_def sandbox_path_def Let_def intro: written_inside
      split: if_splits sum.splits prod.splits)


section \<open>Mounts of one configuration\<close>

text \<open>The mounts the tools know come from the configuration the provider was set up from; every
  existing mount has an absolute host path that resolves and an absolute container path.\<close>

definition tool_mount :: "mount_config \<Rightarrow> mount" where
  "tool_mount mc = \<lparr>mt_container = mc_container mc, mt_read_only = mc_read_only mc\<rparr>"

definition mounts_configured :: "path_env \<Rightarrow> skills_config \<Rightarrow> mount_config list \<Rightarrow> bool" where
  "mounts_configured env sk mcs \<longleftrightarrow>
     pv_mounts env = map tool_mount (filter mc_exists mcs) \<and> pv_skills_container env = sk_container sk
     \<and> (\<forall>mc \<in> set mcs. mc_exists mc \<longrightarrow> posix_root (mc_host mc) \<noteq> '''' \<and> prefix ''/'' (mc_container mc)
           \<and> (\<exists>p. resolve_path env (mc_host mc) = Inr p))"

lemma under_prefix_trans: "under_prefix a b \<Longrightarrow> under_prefix b c \<Longrightarrow> under_prefix a c"
  by (auto simp: under_prefix_def prefix_def)

text \<open>A path below a mount as it is written is below it without its trailing slashes.\<close>

lemma below_stripped:
  assumes "under_prefix (mc_container mc) path" and "prefix ''/'' (mc_container mc)"
  shows "(mount_container mc = ''/'' \<and> prefix ''/'' path)
    \<or> (mount_container mc \<noteq> ''/'' \<and> under_prefix (mount_container mc) path)"
proof -
  let ?b = "rstrip_chars ''/'' (mc_container mc)"
  obtain n where n: "mc_container mc = ?b @ replicate n slash" by (rule rstrip_slashes)
  have abs: "prefix ''/'' path" using assms by (auto simp: under_prefix_def prefix_def)
  show ?thesis
  proof (cases "?b = []")
    case True
    then show ?thesis using abs by (simp add: mount_container_def)
  next
    case False
    have "under_prefix ?b (mc_container mc)" using n by (cases n) (auto simp: under_prefix_def prefix_def)
    then have "under_prefix ?b path" using assms(1) by (rule under_prefix_trans)
    moreover have "?b \<noteq> ''/''" using rstrip_no_slash [OF False] by auto
    ultimately show ?thesis using False by (simp add: mount_container_def Let_def)
  qed
qed

lemma stripped_above:
  assumes "prefix ''/'' (mc_container mc)"
  shows "under_prefix (mount_container mc) (mc_container mc)" and "prefix ''/'' (mount_container mc)"
proof -
  let ?b = "rstrip_chars ''/'' (mc_container mc)"
  obtain n where n: "mc_container mc = ?b @ replicate n slash" by (rule rstrip_slashes)
  have "under_prefix (mount_container mc) (mc_container mc) \<and> prefix ''/'' (mount_container mc)"
  proof (cases "?b = []")
    case True
    with n assms obtain k where "mc_container mc = slash # replicate k slash" by (cases n) auto
    with True show ?thesis by (cases k) (auto simp: mount_container_def under_prefix_def)
  next
    case False
    then have "mount_container mc = ?b" by (simp add: mount_container_def Let_def)
    moreover have "under_prefix ?b (mc_container mc)" using n by (cases n) (auto simp: under_prefix_def prefix_def)
    moreover have "prefix ''/'' ?b"
    proof -
      obtain x y where "?b = x # y" using False by (cases ?b) auto
      with n assms show ?thesis by (auto simp: prefix_def)
    qed
    ultimately show ?thesis by simp
  qed
  then show "under_prefix (mount_container mc) (mc_container mc)" "prefix ''/'' (mount_container mc)" by auto
qed

lemma mount_base: "container_base \<lparr>pm_container = mount_container mc, pm_local = l, pm_read_only = r\<rparr> = mount_container mc"
proof (cases "rstrip_chars ''/'' (mc_container mc) = []")
  case True
  then show ?thesis by (simp add: container_base_def mount_container_def rstrip_chars_def)
next
  case False
  with rstrip_done [of "rstrip_chars ''/'' (mc_container mc)"] rstrip_no_slash [OF False] show ?thesis
    by (simp add: container_base_def mount_container_def Let_def)
qed

lemma mount_mapping_mem:
  assumes "mc \<in> set mcs" and "mount_admitted sk mc"
    and "\<forall>mc \<in> set mcs. mount_admitted sk mc \<longrightarrow> (\<exists>p. resolve_path env (mc_host mc) = Inr p)"
  shows "\<exists>l. \<lparr>pm_container = mount_container mc, pm_local = l, pm_read_only = mc_read_only mc\<rparr>
    \<in> set (mount_mappings env sk mcs)"
  using assms by (induction mcs) (auto split: sum.splits)

lemma thread_mapping_mem:
  assumes "build_thread_path_mappings dp t u = Inr ms" and "c \<in> {virtual_path_prefix, acp_workspace_virtual_path}"
  shows "\<exists>m \<in> set ms. container_base m = c"
proof -
  have base: "container_base (writable_mapping virtual_path_prefix p) = virtual_path_prefix"
    "container_base (writable_mapping acp_workspace_virtual_path p) = acp_workspace_virtual_path" for p
    by (simp_all add: container_base_def writable_mapping_def virtual_path_prefix_def acp_workspace_virtual_path_def
        rstrip_chars_def)
  from assms(1) obtain d w up out acp where "ms = [writable_mapping virtual_path_prefix d,
      writable_mapping (virtual_path_prefix @ ''/workspace'') w, writable_mapping (virtual_path_prefix @ ''/uploads'') up,
      writable_mapping (virtual_path_prefix @ ''/outputs'') out, writable_mapping acp_workspace_virtual_path acp]"
    by (auto simp: build_thread_path_mappings_def res_simps)
  with assms(2) base show ?thesis by auto
qed

lemma configured_mounts_agree:
  assumes cfg: "mounts_configured env sk mcs" and ms: "build_thread_path_mappings dp t u = Inr ms"
  shows "mounts_agree env (setup_path_mappings env (Some (sk, mcs)) @ ms)"
  unfolding mounts_agree_def
proof (intro allI impI)
  fix path
  assume path: "is_custom_mount_path env path \<and> \<not> is_skills_path env path"
  let ?all = "setup_path_mappings env (Some (sk, mcs)) @ ms"
  obtain mc where mc: "mc \<in> set mcs" "mc_exists mc" "under_prefix (mc_container mc) path"
    using path cfg by (auto simp: is_custom_mount_path_def mounts_configured_def list_ex_iff tool_mount_def)
  then have ok: "posix_root (mc_host mc) \<noteq> ''''" "prefix ''/'' (mc_container mc)"
    using cfg by (auto simp: mounts_configured_def)
  note below = below_stripped [OF mc(3) ok(2)]
  show "find_path_mapping ?all path \<noteq> None"
  proof (cases "mount_admitted sk mc")
    case True
    have "\<forall>mc \<in> set mcs. mount_admitted sk mc \<longrightarrow> (\<exists>p. resolve_path env (mc_host mc) = Inr p)"
      using cfg by (auto simp: mounts_configured_def mount_admitted_def)
    from mount_mapping_mem [OF mc(1) True this] obtain l where
      m: "\<lparr>pm_container = mount_container mc, pm_local = l, pm_read_only = mc_read_only mc\<rparr> \<in> set ?all" (is "?m \<in> _")
      by (auto simp: setup_path_mappings_def)
    have "matches_mapping ?m path" using below by (auto simp: matches_mapping_def mount_base)
    with m show ?thesis by (rule find_mapping_found)
  next
    case False
    with ok mc(2) stripped_above(2) obtain p where p: "p \<in> set (reserved_prefixes sk)" "under_prefix p (mount_container mc)"
      by (auto simp: mount_admitted_def list_ex_iff)
    have "under_prefix p path"
      using under_prefix_trans [OF under_prefix_trans [OF p(2) stripped_above(1) [OF ok(2)]] mc(3)] .
    then have "p \<in> {virtual_path_prefix, acp_workspace_virtual_path}"
      using p(1) path cfg by (auto simp: reserved_prefixes_def is_skills_path_def mounts_configured_def)
    from thread_mapping_mem [OF ms this] obtain m where "m \<in> set ms" "container_base m = p" by blast
    moreover have "p \<noteq> ''/''"
      using \<open>p \<in> {virtual_path_prefix, acp_workspace_virtual_path}\<close>
      by (auto simp: virtual_path_prefix_def acp_workspace_virtual_path_def)
    ultimately show ?thesis using \<open>under_prefix p path\<close>
      by (intro find_mapping_found [of m]) (auto simp: matches_mapping_def)
  qed
qed


section \<open>The sandbox a tool opens\<close>

lemma acquire_reachable:
  assumes "lp_reachable dp static cap lp" and "\<And>x. lp_reachable dp static cap x \<Longrightarrow> lp_reachable dp static cap (others x)"
  shows "lp_reachable dp static cap (snd (acquire dp others (Some t) u lp))"
proof (cases "map_of (lp_threads lp) (u, t)")
  case (Some sb)
  then show ?thesis using reach_cached [OF assms(1), of "(u, t)"]
    by (auto simp: acquire_def acquire_cached_def)
next
  case None
  have "lp_static lp = static" using reachable_provider_ok [OF assms(1)] by (simp add: provider_ok_def)
  with None reach_insert [OF assms(2) [OF assms(1)]] assms(2) [OF assms(1)] show ?thesis
    by (auto simp: acquire_def acquire_cached_def map_prod_def split: sum.splits prod.splits) (metis snd_conv)
qed

lemma get_sandbox_scoped:
  assumes "lp_reachable dp static cap lp" and "get_sandbox sid lp = (Some sb, lp')" and "sid \<noteq> ''local''"
  shows "prefix ''local:'' sid \<and> (\<exists>t u ms. build_thread_path_mappings dp t u = Inr ms \<and> ls_mappings sb = static @ ms)"
proof -
  obtain key where key: "key_from_sandbox_id sid = Some key" "map_of (lp_threads lp) key = Some sb"
    using assms(2,3) by (auto simp: get_sandbox_def split: option.splits)
  have "scoped_sandbox dp static key sb"
    using reachable_provider_ok [OF assms(1)] key(2) unfolding provider_ok_def by blast
  moreover have "prefix ''local:'' sid" using key(1) by (auto simp: key_from_sandbox_id_def split: if_splits)
  ultimately show ?thesis by (auto simp: scoped_sandbox_def)
qed

lemma ensured_sandbox_scoped:
  assumes "lp_reachable (te_data te) static cap (tw_provider w)"
    and "\<And>x. lp_reachable (te_data te) static cap x \<Longrightarrow> lp_reachable (te_data te) static cap (others x)"
    and "ensure_sandbox_initialized te others w = (Inr (sid, sb), w1)" and "sid \<noteq> ''local''"
  shows "(\<exists>s. rt_state (tw_runtime w1) = Some s \<and> rs_sandbox s = Some (PStr sid))
    \<and> prefix ''local:'' sid \<and> (\<exists>t u ms. build_thread_path_mappings (te_data te) t u = Inr ms \<and> ls_mappings sb = static @ ms)"
proof -
  obtain s where s: "rt_state (tw_runtime w) = Some s"
    using assms(3) by (auto simp: ensure_sandbox_initialized_def split: option.splits)
  obtain found w2 where ex: "existing_sandbox w = (found, w2)" by (cases "existing_sandbox w")
  show ?thesis
  proof (cases found)
    case (Some f)
    with assms(3) s ex have f: "f = (sid, sb)" "w1 = w2" by (auto simp: ensure_sandbox_initialized_def)
    from ex Some f s obtain lp where g: "get_sandbox sid (tw_provider w) = (Some sb, lp)"
      and state: "rs_sandbox s = Some (PStr sid)" "rt_state (tw_runtime w2) = Some s"
      by (auto simp: existing_sandbox_def note_sandbox_def split: option.splits pyval.splits prod.splits)
    from get_sandbox_scoped [OF assms(1) g assms(4)] state f show ?thesis by auto
  next
    case None
    have w2: "lp_reachable (te_data te) static cap (tw_provider w2)" "rt_state (tw_runtime w2) = Some s"
      using ex None s reach_get [OF assms(1)] assms(1)
      by (auto simp: existing_sandbox_def split: option.splits pyval.splits prod.splits) (metis snd_conv)+
    obtain t u where "\<exists>lp lp'. acquire (te_data te) others (Some t) u (tw_provider w2) = (Inr sid, lp)
        \<and> get_sandbox sid lp = (Some sb, lp')
        \<and> w1 = w2\<lparr>tw_provider := lp', tw_runtime := note_sandbox sid
              (tw_runtime w2\<lparr>rt_state := map_option (\<lambda>s. s\<lparr>rs_sandbox := Some (PStr sid)\<rparr>) (rt_state (tw_runtime w2))\<rparr>)\<rparr>"
      using assms(3) s ex None
      by (auto simp: ensure_sandbox_initialized_def Let_def split: option.splits prod.splits sum.splits)
    then obtain lp lp' where a: "acquire (te_data te) others (Some t) u (tw_provider w2) = (Inr sid, lp)"
        "get_sandbox sid lp = (Some sb, lp')"
      and w1: "w1 = w2\<lparr>tw_provider := lp', tw_runtime := note_sandbox sid
              (tw_runtime w2\<lparr>rt_state := map_option (\<lambda>s. s\<lparr>rs_sandbox := Some (PStr sid)\<rparr>) (rt_state (tw_runtime w2))\<rparr>)\<rparr>"
      by blast
    have "lp_reachable (te_data te) static cap lp"
      using acquire_reachable [where t = t and u = u and others = others, OF w2(1) assms(2)] a(1) by simp
    from get_sandbox_scoped [OF this a(2) assms(4)] w1 w2(2) show ?thesis by (auto simp: note_sandbox_def)
  qed
qed

lemma create_dirs_sandbox:
  assumes "create_thread_directories env w = (x, w1)" and "rt_state (tw_runtime w) = Some s"
  shows "\<exists>s'. rt_state (tw_runtime w1) = Some s' \<and> rs_sandbox s' = rs_sandbox s"
  using assms
  by (auto simp: create_thread_directories_def Let_def simp del: add_dirs.simps
      split: option.splits if_splits sum.splits prod.splits)

lemma opened_sandbox_scoped:
  assumes "lp_reachable (te_data te) static cap (tw_provider w)"
    and "\<And>x. lp_reachable (te_data te) static cap x \<Longrightarrow> lp_reachable (te_data te) static cap (others x)"
    and "open_sandbox te others w = (Inr (sid, sb), w1)" and "sid \<noteq> ''local''"
  shows "is_local_sandbox (tw_runtime w1)
    \<and> (\<exists>t u ms. build_thread_path_mappings (te_data te) t u = Inr ms \<and> ls_mappings sb = static @ ms)"
proof -
  obtain w2 z where e: "ensure_sandbox_initialized te others w = (Inr (sid, sb), w2)"
    and w1: "create_thread_directories (te_paths te) w2 = (z, w1)"
    using assms(3) by (auto simp: open_sandbox_def split: prod.splits sum.splits)
  from ensured_sandbox_scoped [OF assms(1,2) e assms(4)] create_dirs_sandbox [OF w1]
  show ?thesis by (auto simp: is_local_sandbox_def)
qed

section \<open>Properties\<close>

text \<open>C20. Whatever path, content and text they are given, \<open>write_file\<close> and \<open>str_replace\<close> on the sandbox of a
  thread change only paths that lie, symbolic links resolved, below a directory of the thread or below a mapped
  directory that is not read-only, and not in a more specific read-only mount, apart from creating directories
  where nothing was: the thread's own directories, the ones above them, and the ones above such a writable place.
  It holds as long as every existing mount of the configuration is absolute on both sides.\<close>

theorem tool_writes_stay_inside:
  assumes "mounts_configured (te_paths te) sk mcs"
    and "lp_reachable (te_data te) (setup_path_mappings (te_paths te) (Some (sk, mcs))) cap (tw_provider w)"
    and "\<And>x. lp_reachable (te_data te) (setup_path_mappings (te_paths te) (Some (sk, mcs))) cap x
          \<Longrightarrow> lp_reachable (te_data te) (setup_path_mappings (te_paths te) (Some (sk, mcs))) cap (others x)"
    and "open_sandbox te others w = (Inr (sid, sb), w1)" and "sid \<noteq> ''local''"
    and "w' = snd (write_file_tool te others path content appending w)
      \<or> w' = snd (str_replace_tool te others path old_str new_str replace_all w)"
    and "map_of (tw_disk w') q \<noteq> map_of (tw_disk w) q"
  shows "(map_of (tw_disk w) q = None \<and> map_of (tw_disk w') q = Some DirEntry
      \<and> (holds_thread_dir (te_paths te) (get_thread_data (tw_runtime w1)) q
         \<or> holds_writable_place (te_paths te) (ls_mappings sb) (get_thread_data (tw_runtime w1)) q))
    \<or> writable_place (te_paths te) (ls_mappings sb) (get_thread_data (tw_runtime w1)) q"
proof -
  have opened: "map_of (tw_disk w1) q = map_of (tw_disk w) q
      \<or> (map_of (tw_disk w) q = None \<and> map_of (tw_disk w1) q = Some DirEntry
         \<and> holds_thread_dir (te_paths te) (get_thread_data (tw_runtime w1)) q)"
    using open_sandbox_disk [OF assms(4)] by (simp add: new_dirs_only_def)
  show ?thesis
  proof (cases "map_of (tw_disk w') q = map_of (tw_disk w1) q")
    case True
    with opened assms(7) show ?thesis by auto
  next
    case False
    from opened_sandbox_scoped [OF assms(2-5)] obtain t u ms where local: "is_local_sandbox (tw_runtime w1)"
      and ms: "build_thread_path_mappings (te_data te) t u = Inr ms"
        "ls_mappings sb = setup_path_mappings (te_paths te) (Some (sk, mcs)) @ ms" by blast
    have agree: "mounts_agree (te_paths te) (ls_mappings sb)"
      unfolding ms(2) by (rule configured_mounts_agree [OF assms(1) ms(1)])
    from assms(6) have "inside_change (te_paths te) (ls_mappings sb) (get_thread_data (tw_runtime w1))
        (tw_disk w1) (tw_disk w') q"
      using write_tool_changes [OF assms(4) local agree _ assms(7) False]
        replace_tool_changes [OF assms(4) local agree _ False] by blast
    with opened show ?thesis by (auto simp: inside_change_def)
  qed
qed

section \<open>A concrete run\<close>

text \<open>A thread with only a workspace directory and no configured mount writes one file.\<close>

definition demo_tools :: tool_env where
  "demo_tools =
     \<lparr>te_paths = \<lparr>pv_skills_container = ''/mnt/skills'', pv_skills_host = None, pv_mounts = [],
        pv_acp_host = (\<lambda>_. None), pv_resolve = Some\<rparr>,
      te_data = demo_data, te_current_user = Some ''u1'', te_describe = (\<lambda>_. ''''), te_mix = (\<lambda>n _. n),
      te_read_limit = 50000, te_ls_limit = 20000, te_write_bytes = None, te_glob_config = None, te_grep_config = None\<rparr>"

definition demo_skills :: skills_config where
  "demo_skills = \<lparr>sk_host = ''/skills'', sk_exists = False, sk_container = ''/mnt/skills''\<rparr>"

definition demo_world :: tool_world where
  "demo_world =
     \<lparr>tw_runtime = \<lparr>rt_state = Some \<lparr>rs_sandbox = None,
          rs_thread_data = Some \<lparr>td_workspace = Some ''/w'', td_uploads = None, td_outputs = None\<rparr>,
          rs_dirs_created = True\<rparr>,
        rt_context = Some [(''thread_id'', PStr ''t1'')], rt_config_thread = PNone\<rparr>,
      tw_provider = provider_init [] 2, tw_disk = []\<rparr>"

lemma demo_build:
  "\<exists>l1 l2 l3 l4 l5. build_thread_path_mappings demo_data ''t1'' ''u1'' = Inr
     [writable_mapping virtual_path_prefix l1, writable_mapping (virtual_path_prefix @ ''/workspace'') l2,
      writable_mapping (virtual_path_prefix @ ''/uploads'') l3, writable_mapping (virtual_path_prefix @ ''/outputs'') l4,
      writable_mapping acp_workspace_virtual_path l5]"
  by (auto simp: build_thread_path_mappings_def standard_dirs_def sandbox_user_data_dir_def sandbox_work_dir_def
      sandbox_uploads_dir_def sandbox_outputs_dir_def acp_workspace_dir_def demo_thread_dirs)

definition demo_mappings :: "path_mapping list" where
  "demo_mappings = projr (build_thread_path_mappings demo_data ''t1'' ''u1'')"

lemma demo_built: "build_thread_path_mappings demo_data ''t1'' ''u1'' = Inr demo_mappings"
  using demo_build by (auto simp: demo_mappings_def)

lemma demo_shape:
  "\<exists>l1 l2 l3 l4 l5. demo_mappings =
     [writable_mapping virtual_path_prefix l1, writable_mapping (virtual_path_prefix @ ''/workspace'') l2,
      writable_mapping (virtual_path_prefix @ ''/uploads'') l3, writable_mapping (virtual_path_prefix @ ''/outputs'') l4,
      writable_mapping acp_workspace_virtual_path l5]"
  using demo_build unfolding demo_built by simp

lemma demo_key: "key_from_sandbox_id ''local:u1:t1'' = Some (''u1'', ''t1'')"
  by code_simp

lemma demo_sid: "sandbox_id_for_thread ''t1'' ''u1'' = ''local:u1:t1''"
  by (simp add: sandbox_id_for_thread_def)

definition demo_opened :: tool_world where
  "demo_opened = snd (open_sandbox demo_tools id demo_world)"

lemma demo_open:
  "open_sandbox demo_tools id demo_world = (Inr (''local:u1:t1'', fresh_sandbox ''local:u1:t1'' demo_mappings), demo_opened)"
  "tw_disk demo_opened = []"
  "rt_state (tw_runtime demo_opened) = Some \<lparr>rs_sandbox = Some (PStr ''local:u1:t1''),
          rs_thread_data = Some \<lparr>td_workspace = Some ''/w'', td_uploads = None, td_outputs = None\<rparr>,
          rs_dirs_created = True\<rparr>"
  by (simp_all add: demo_opened_def open_sandbox_def ensure_sandbox_initialized_def existing_sandbox_def demo_world_def demo_tools_def
      runtime_thread_id_def resolve_runtime_user_id_def get_effective_user_id_def acquire_def acquire_cached_def
      provider_init_def demo_built acquire_insert_def demo_sid evict_until_within_cap_def get_sandbox_def demo_key
      note_sandbox_def create_thread_directories_def is_local_sandbox_def get_thread_data_def Let_def
      fresh_sandbox_def od_move_to_end_def)

lemma demo_policy:
  "write_tool_path (te_paths demo_tools) ''/mnt/user-data/workspace/x''
     (Some \<lparr>td_workspace = Some ''/w'', td_uploads = None, td_outputs = None\<rparr>) = Inr ''/w/x''"
proof -
  have "write_tool_path \<lparr>pv_skills_container = ''/mnt/skills'', pv_skills_host = None, pv_mounts = [],
      pv_acp_host = (\<lambda>_. None), pv_resolve = Some\<rparr> ''/mnt/user-data/workspace/x''
     (Some \<lparr>td_workspace = Some ''/w'', td_uploads = None, td_outputs = None\<rparr>) = Inr ''/w/x''"
    by code_simp
  then show ?thesis by (simp add: demo_tools_def)
qed

lemma demo_resolve: "resolve_path (te_paths demo_tools) s = Inr (pure_path_of s)"
  using path_reads_back [OF path_ok_of] by (simp add: resolve_path_def demo_tools_def)

lemma demo_mem:
  assumes "m \<in> set demo_mappings"
  shows "\<not> pm_read_only m" and "\<exists>t. pm_container m = ''/mnt/'' @ t" and "container_base m = pm_container m"
proof -
  obtain l1 l2 l3 l4 l5 where s: "demo_mappings =
     [writable_mapping virtual_path_prefix l1, writable_mapping (virtual_path_prefix @ ''/workspace'') l2,
      writable_mapping (virtual_path_prefix @ ''/uploads'') l3, writable_mapping (virtual_path_prefix @ ''/outputs'') l4,
      writable_mapping acp_workspace_virtual_path l5]"
    using demo_shape by blast
  have "m = writable_mapping virtual_path_prefix l1 \<or> m = writable_mapping (virtual_path_prefix @ ''/workspace'') l2
      \<or> m = writable_mapping (virtual_path_prefix @ ''/uploads'') l3
      \<or> m = writable_mapping (virtual_path_prefix @ ''/outputs'') l4 \<or> m = writable_mapping acp_workspace_virtual_path l5"
    using assms unfolding s by (simp only: list.set insert_iff empty_iff) blast
  then obtain c p where m: "m = writable_mapping c p" and c: "c \<in> {virtual_path_prefix, virtual_path_prefix @ ''/workspace'',
      virtual_path_prefix @ ''/uploads'', virtual_path_prefix @ ''/outputs'', acp_workspace_virtual_path}"
    by blast
  show "\<not> pm_read_only m" by (simp add: m writable_mapping_def)
  have "\<exists>t. c = ''/mnt/'' @ t" using c by (auto simp: virtual_path_prefix_def acp_workspace_virtual_path_def)
  then show "\<exists>t. pm_container m = ''/mnt/'' @ t" by (simp add: m writable_mapping_def)
  have "rstrip_chars ''/'' c = c" "c \<noteq> []"
    using c by (auto simp: virtual_path_prefix_def acp_workspace_virtual_path_def rstrip_chars_def)
  then show "container_base m = pm_container m" by (simp add: m writable_mapping_def container_base_def)
qed

lemma demo_locals: "\<forall>m \<in> set demo_mappings. \<not> pm_read_only m"
  using demo_mem(1) by blast

lemma demo_find: "find_path_mapping demo_mappings ''/w/x'' = None"
proof -
  have bases: "\<forall>m \<in> set demo_mappings. prefix ''/mnt/'' (container_base m)"
    using demo_mem(2,3) by (metis prefixI)
  have "first_mapping ''/w/x'' ms = None" if "\<forall>m \<in> set ms. prefix ''/mnt/'' (container_base m)" for ms
  proof -
    have "b \<noteq> ''/'' \<and> \<not> under_prefix b ''/w/x''" if b: "prefix ''/mnt/'' b" for b
    proof -
      obtain t where "b = ''/mnt/'' @ t" using b by (auto simp: prefix_def)
      then show ?thesis by (simp add: under_prefix_def)
    qed
    with that show ?thesis by (induction ms) (auto simp: Let_def)
  qed
  with bases show ?thesis by (simp add: find_path_mapping_def by_container_specificity_def)
qed

lemma best_local_mem: "best_local p best rs = Some m \<Longrightarrow> m \<in> fst ` set rs \<or> (\<exists>n. best = Some (m, n))"
  by (induction p best rs rule: best_local.induct) (auto split: if_splits)

lemma resolved_local_keys: "resolved_local_paths env ms = Inr rs \<Longrightarrow> map fst rs = ms"
  unfolding resolved_local_paths_def by (induction ms arbitrary: rs) (auto simp: res_simps)

lemma demo_read_only: "is_read_only_path (te_paths demo_tools) demo_mappings p = Inr False"
proof -
  have "\<exists>rs. resolved_local_paths (te_paths demo_tools) ms = Inr rs" for ms
    unfolding resolved_local_paths_def by (induction ms) (auto simp: demo_resolve)
  then obtain rs where rs: "resolved_local_paths (te_paths demo_tools) demo_mappings = Inr rs" by blast
  have "\<not> pm_read_only m" if "best_local q None rs = Some m" for q m
    using best_local_mem [OF that] resolved_local_keys [OF rs] demo_locals by (metis list.set_map option.distinct(1))
  then show ?thesis by (auto simp: is_read_only_path_def demo_resolve rs split: option.splits)
qed

lemma demo_parent: "make_parent ''/w/x'' ''/w/x'' [] = (Inr (), [(''/w'', DirEntry)])"
  by code_simp

lemma demo_content: "resolve_paths_in_content (te_paths demo_tools) demo_mappings ''hi'' = Inr ''hi''"
proof -
  have mem: "set (container_alternatives demo_mappings) = pm_container ` set demo_mappings"
    by (simp add: container_alternatives_def)
  have alts: "\<forall>b \<in> set (container_alternatives demo_mappings). prefix ''/'' b"
    unfolding mem using demo_mem(2) by fastforce
  have "match_containers content_stop bs (c # s) = None" if "\<forall>b \<in> set bs. prefix ''/'' b" "c \<noteq> slash" for bs c s
    using that by (induction bs) (auto simp: prefix_def)
  with alts show ?thesis by (simp add: resolve_paths_in_content_def)
qed

lemma demo_write:
  "map_of (tw_disk (snd (write_file_tool demo_tools id ''/mnt/user-data/workspace/x'' ''hi'' False demo_world))) ''/w/x''
    = Some (FileEntry (TextContent ''hi''))"
proof -
  have size: "\<not> (0 < effective_write_file_max_bytes (te_write_bytes demo_tools)
      \<and> effective_write_file_max_bytes (te_write_bytes demo_tools) < int (utf8_size ''hi''))"
    by (simp add: effective_write_file_max_bytes_def demo_tools_def utf8_size_def)
  then have size': "\<not> (\<not> False \<and> 0 < effective_write_file_max_bytes (te_write_bytes demo_tools)
      \<and> effective_write_file_max_bytes (te_write_bytes demo_tools) < int (utf8_size ''hi''))"
    by simp
  have loc: "is_local_sandbox (tw_runtime demo_opened)" by (simp add: is_local_sandbox_def demo_open(3))
  have p: "sandbox_path write_tool_path demo_tools demo_opened ''/mnt/user-data/workspace/x'' = Inr ''/w/x''"
    using loc demo_policy by (simp add: sandbox_path_def get_thread_data_def demo_open(3))
  show ?thesis
    unfolding write_file_tool_def Let_def if_not_P [OF size'] using demo_open(2)
    by (simp add: demo_open(1) p write_file_def Let_def fresh_sandbox_def
        writable_target_def resolve_path_with_mapping_def demo_find is_resolved_path_read_only_def demo_read_only
        demo_content demo_parent
        put_state_def written_content_def)
qed

theorem tool_writes_stay_inside_witness:
  "map_of (tw_disk (snd (write_file_tool demo_tools id ''/mnt/user-data/workspace/x'' ''hi'' False demo_world))) ''/w/x''
      = Some (FileEntry (TextContent ''hi''))
    \<and> writable_place (te_paths demo_tools) demo_mappings
        (Some \<lparr>td_workspace = Some ''/w'', td_uploads = None, td_outputs = None\<rparr>) ''/w/x''"
proof -
  have static: "setup_path_mappings (te_paths demo_tools) (Some (demo_skills, [])) = []"
    by (simp add: setup_path_mappings_def demo_skills_def)
  have cfg: "mounts_configured (te_paths demo_tools) demo_skills []"
    by (simp add: mounts_configured_def demo_tools_def demo_skills_def)
  have reach: "lp_reachable (te_data demo_tools) (setup_path_mappings (te_paths demo_tools) (Some (demo_skills, []))) 2
      (tw_provider demo_world)"
    unfolding static using reach_init [of "te_data demo_tools" "[]" 2] by (simp add: demo_world_def)
  have changed: "map_of (tw_disk (snd (write_file_tool demo_tools id ''/mnt/user-data/workspace/x'' ''hi'' False demo_world)))
      ''/w/x'' \<noteq> map_of (tw_disk demo_world) ''/w/x''"
    by (simp add: demo_write) (simp add: demo_world_def)
  have "writable_place (te_paths demo_tools) (ls_mappings (fresh_sandbox ''local:u1:t1'' demo_mappings))
      (get_thread_data (tw_runtime demo_opened)) ''/w/x''"
    using tool_writes_stay_inside [where others = id, OF cfg reach _ demo_open(1) _ disjI1 [OF refl] changed] demo_write
    by simp
  then show ?thesis using demo_write by (simp add: fresh_sandbox_def get_thread_data_def demo_open(3))
qed

end
