(* ===== verification/BashSafety.thy ===== *)
theory BashSafety
  imports BashTool GuardSafety SandboxSafety
begin

text \<open>
  What the guard of the bash tool achieves: the paths and the directory changes of an accepted command,
  the prefixes it is given, the output that is kept, and what a call may have run.
\<close>

section \<open>Prefixes of a command\<close>

lemma lex_simps:
  "lex_space (CHR '' '')" "\<not> lex_space (CHR ''&'')" "\<not> lex_space (CHR '';'')" "lex_punct (CHR ''&'')" "lex_punct (CHR '';'')"
  "\<not> lex_quote (CHR '' '')" "\<not> lex_quote (CHR ''&'')" "\<not> lex_quote (CHR '';'')" "\<not> lex_punct (CHR '' '')"
  "lex_start (CHR ''&'') = (Punct, ''&'')"
  by (simp_all add: lex_space_def lex_punct_def lex_quote_def lex_start_def LF_def CR_def)

text \<open>How a word ends at white space and at the separators of the prefixes.\<close>

lemma lex_space_ends: "shell_lex InWord q tok ('' '' @ s) = emit q tok (shell_tokens s)"
  by (simp add: lex_simps shell_tokens_def)

lemma lex_and_starts: "shell_tokens (''&& '' @ s) = map_option ((#) ''&&'') (shell_tokens s)"
  by (simp add: lex_simps shell_tokens_def emit_def)

lemma lex_semicolon_ends: "shell_lex InWord q tok (''; '' @ s) = emit q tok (map_option ((#) '';'') (shell_tokens s))"
  by (simp add: lex_simps shell_tokens_def emit_def)

declare shell_lex.simps [simp del]

lemma lex_first_safe: "quote_safe c \<Longrightarrow> shell_tokens (c # s) = shell_lex InWord False [c] s"
  using quote_safe_plain [of c] by (simp add: lex_start_def shell_tokens_def shell_lex.simps(2))

lemma lex_safe_word:
  assumes "list_all quote_safe w" and "w \<noteq> []"
  shows "shell_tokens (w @ rest) = shell_lex InWord False w rest"
proof -
  obtain c t where w: "w = c # t" using assms(2) by (cases w) auto
  then show ?thesis using assms(1) lex_safe [of t False "[c]" rest] by (simp add: lex_first_safe)
qed

lemma emit_word: "q \<or> tok \<noteq> [] \<Longrightarrow> emit q tok r = map_option ((#) tok) r"
  by (auto simp: emit_def)

lemma quote_safe_letters: "list_all quote_safe ''cd''" "list_all quote_safe ''export''" "list_all quote_safe ''unset''"
  "list_all quote_safe (channel_user_id_env @ ''='')" "list_all quote_safe channel_user_id_env"
  by (simp_all add: quote_safe_def is_word_def channel_user_id_env_def)

lemma lex_plain_word:
  assumes "list_all quote_safe w" and "w \<noteq> []"
  shows "shell_tokens (w @ '' '' @ rest) = map_option ((#) w) (shell_tokens rest)"
  by (simp only: lex_safe_word [OF assms] lex_space_ends emit_word [OF disjI2, OF assms(2)])

lemma shell_tokens_cwd: "shell_tokens (''cd '' @ shell_quote v @ '' && '' @ command)
    = map_option (\<lambda>ts. [''cd'', v, ''&&''] @ ts) (shell_tokens command)"
proof -
  obtain q where q: "shell_lex InWord False [] (shell_quote v @ '' '' @ ''&& '' @ command)
      = shell_lex InWord q v ('' '' @ ''&& '' @ command)" "q \<or> v \<noteq> []"
    using lex_quote_in_word [of False "[]" v "'' '' @ ''&& '' @ command"] by (metis append_Nil)
  have "shell_tokens (shell_quote v @ '' '' @ ''&& '' @ command)
      = shell_lex InWord False [] (shell_quote v @ '' '' @ ''&& '' @ command)"
    by (simp only: lex_quote_starts shell_tokens_def)
  also have "\<dots> = map_option ((#) v) (map_option ((#) ''&&'') (shell_tokens command))"
    by (simp only: q(1) lex_space_ends emit_word [OF q(2)] lex_and_starts)
  finally have "shell_tokens (''cd'' @ '' '' @ shell_quote v @ '' '' @ ''&& '' @ command)
      = map_option ((#) ''cd'') (map_option ((#) v) (map_option ((#) ''&&'') (shell_tokens command)))"
    using lex_plain_word [OF quote_safe_letters(1)] by simp
  then show ?thesis by (simp add: option.map_comp comp_def)
qed

lemma shell_tokens_export: "shell_tokens (''export '' @ channel_user_id_env @ ''='' @ shell_quote v @ ''; '' @ command)
    = map_option (\<lambda>ts. [''export'', channel_user_id_env @ ''='' @ v, '';''] @ ts) (shell_tokens command)"
proof -
  let ?n = "channel_user_id_env @ ''=''"
  have n: "?n \<noteq> []" by simp
  obtain q where q: "shell_lex InWord False ?n (shell_quote v @ ''; '' @ command)
      = shell_lex InWord q (?n @ v) (''; '' @ command)"
    using lex_quote_in_word [of False ?n v "''; '' @ command"] by blast
  have "shell_tokens (?n @ shell_quote v @ ''; '' @ command)
      = map_option ((#) (?n @ v)) (map_option ((#) '';'') (shell_tokens command))"
    by (simp only: lex_safe_word [OF quote_safe_letters(4) n] q lex_semicolon_ends) (simp add: emit_word)
  then have "shell_tokens (''export'' @ '' '' @ ?n @ shell_quote v @ ''; '' @ command)
      = map_option ((#) ''export'') (map_option ((#) (?n @ v)) (map_option ((#) '';'') (shell_tokens command)))"
    using lex_plain_word [OF quote_safe_letters(2), of "?n @ shell_quote v @ ''; '' @ command"] by simp
  then show ?thesis by (simp add: option.map_comp comp_def)
qed

lemma shell_tokens_unset: "shell_tokens (''unset '' @ channel_user_id_env @ ''; '' @ command)
    = map_option (\<lambda>ts. [''unset'', channel_user_id_env, '';''] @ ts) (shell_tokens command)"
proof -
  have n: "channel_user_id_env \<noteq> []" by (simp add: channel_user_id_env_def)
  have "shell_tokens (channel_user_id_env @ ''; '' @ command)
      = map_option ((#) channel_user_id_env) (map_option ((#) '';'') (shell_tokens command))"
    by (simp only: lex_safe_word [OF quote_safe_letters(5) n] lex_semicolon_ends emit_word [OF disjI2, OF n])
  then have "shell_tokens (''unset'' @ '' '' @ channel_user_id_env @ ''; '' @ command)
      = map_option ((#) ''unset'') (map_option ((#) channel_user_id_env) (map_option ((#) '';'') (shell_tokens command)))"
    using lex_plain_word [OF quote_safe_letters(3), of "channel_user_id_env @ ''; '' @ command"] by simp
  then show ?thesis by (simp add: option.map_comp comp_def)
qed

section \<open>Kept output\<close>

lemma capture_kept:
  assumes "concat (pc_chunks pc) = take (pc_limit pc) out" and "pc_kept pc = min (pc_limit pc) (length out)"
    and "pc_total pc = length out"
  shows "concat (pc_chunks (fold capture_append reads pc)) = take (pc_limit pc) (out @ concat reads)
    \<and> pc_kept (fold capture_append reads pc) = min (pc_limit pc) (length (out @ concat reads))
    \<and> pc_total (fold capture_append reads pc) = length (out @ concat reads)"
  using assms
proof (induction reads arbitrary: pc out)
  case Nil
  then show ?case by simp
next
  case (Cons r reads)
  let ?pc = "capture_append r pc"
  have lim: "pc_limit ?pc = pc_limit pc" by (simp add: capture_append_def Let_def)
  have "concat (pc_chunks ?pc) = take (pc_limit ?pc) (out @ r)" "pc_kept ?pc = min (pc_limit ?pc) (length (out @ r))"
    "pc_total ?pc = length (out @ r)"
    using Cons.prems by (auto simp: capture_append_def Let_def min_def)
  from Cons.IH [OF this] show ?case by (simp add: lim add.assoc)
qed

lemma pipe_reads_all: "concat (pipe_reads bs) = bs"
  by (induction bs rule: pipe_reads.induct) (subst pipe_reads.simps, simp)


section \<open>What a call runs\<close>

lemma no_msys_secret: "\<not> is_blocked_env_name ''MSYS_NO_PATHCONV''" "\<not> is_blocked_env_name ''MSYS2_ARG_CONV_EXCL''"
  by code_simp+

lemma dom_od_update: "fst ` set (od_update d e) = fst ` set d \<union> fst ` set e"
  unfolding od_update_def by (induction e arbitrary: d) (simp_all add: split_beta Un_left_commute)

lemma command_env_clean:
  assumes "k \<in> fst ` set (shell_env he shell (build_sandbox_env environ extra))" and "is_blocked_env_name k"
  shows "\<exists>e. extra = Some e \<and> k \<in> fst ` set e"
proof -
  have "k \<in> fst ` set (build_sandbox_env environ extra)"
    using assms no_msys_secret by (auto simp only: shell_env_def dom_od_update list.set image_insert image_empty fst_conv
        Un_iff insert_iff empty_iff split: if_splits)
  moreover have "k \<notin> fst ` set (filter (\<lambda>(k, _). \<not> is_blocked_env_name k) environ)"
    using assms(2) by auto
  ultimately show ?thesis by (cases extra) (simp_all add: build_sandbox_env_def dom_od_update del: set_filter)
qed

text \<open>A command of the host ran with this line as its input.\<close>

definition ran_command ::
    "bash_env \<Rightarrow> path_env \<Rightarrow> path_mapping list \<Rightarrow> string \<Rightarrow> (string \<times> string) list option \<Rightarrow> disk \<Rightarrow> disk \<Rightarrow> bool" where
  "ran_command be env ms line extra d d' \<longleftrightarrow>
     (\<exists>c shell t vars. resolve_paths_in_command env ms line = Inr c \<and> get_shell (be_host be) = Inr shell
        \<and> d' = snd (he_run (be_host be) (shell_args (be_host be) shell c) t vars d)
        \<and> (\<forall>k \<in> fst ` set vars. is_blocked_env_name k \<longrightarrow> (\<exists>e. extra = Some e \<and> k \<in> fst ` set e)))"

lemma execute_ran:
  assumes "execute_command (be_host be) env ms line extra timeout d = (r, d')"
  shows "d' = d \<or> ran_command be env ms line extra d d'"
proof (cases "d' = d")
  case False
  with assms obtain c shell t where "resolve_paths_in_command env ms line = Inr c" "get_shell (be_host be) = Inr shell"
    "d' = snd (he_run (be_host be) (shell_args (be_host be) shell c) t
        (shell_env (be_host be) shell (build_sandbox_env (he_environ (be_host be)) extra)) d)"
    by (auto simp: execute_command_def Let_def res_simps split: sum.splits prod.splits) (metis snd_conv)+
  then show ?thesis unfolding ran_command_def using command_env_clean by blast
qed simp

text \<open>C23. If a call of the bash tool on a local sandbox changed the disk beyond creating the directories of the
  thread, then host bash is enabled, the guard accepted the command as it was given, and what ran is one
  shell with the rewritten and prefixed command, in an environment where every variable with the name of a
  credential was injected from the active secrets of the run.\<close>

theorem bash_runs_guarded_commands:
  assumes "ensure_sandbox_initialized te others w = (Inr (sid, sb), w1)" and "is_local_sandbox (tw_runtime w1)"
    and "bash_tool te be others command w = (r, w')" and "w2 = ensure_thread_directories_exist (te_paths te) w1"
    and "tw_disk w' \<noteq> tw_disk w1" and "tw_disk w' \<noteq> tw_disk w2"
  shows "is_host_bash_allowed (be_config be)
    \<and> validate_local_bash_command_paths (te_paths te) (be_servers be) command (get_thread_data (tw_runtime w2)) = Inr ()
    \<and> (\<exists>line. prepared_command te be (tw_runtime w2) command = Inr line
        \<and> ran_command be (te_paths te) (ls_mappings sb) line (injected_secrets (tw_runtime w2)) (tw_disk w2) (tw_disk w'))"
proof -
  have allowed: "is_host_bash_allowed (be_config be)"
    using assms by (auto simp: bash_tool_def split: if_splits)
  obtain x w3 where x: "local_bash te be (ls_mappings sb) command w2 = (x, w3)" by fastforce
  obtain made w2' where made: "create_thread_directories (te_paths te) w1 = (made, w2')" by fastforce
  then have "w2' = w2" using assms(4) by (simp add: ensure_thread_directories_exist_def)
  with made assms(1-3,6) allowed have "made = Inr ()" by (cases made) (auto simp: bash_tool_def)
  with made \<open>w2' = w2\<close> x have disk: "tw_disk w' = tw_disk w3"
    using assms(1-3) allowed by (auto simp: bash_tool_def split: sum.splits)
  obtain line where line: "prepared_command te be (tw_runtime w2) command = Inr line"
    using x disk assms(6) by (auto simp: local_bash_def Let_def split: sum.splits)
  obtain y d where y: "execute_command (be_host be) (te_paths te) (ls_mappings sb) line
      (injected_secrets (tw_runtime w2)) (be_timeout be) (tw_disk w2) = (y, d)" by fastforce
  have "tw_disk w3 = d"
    using x line y by (auto simp: local_bash_def Let_def split: sum.splits)
  with execute_ran [OF y] disk assms(6)
  have "ran_command be (te_paths te) (ls_mappings sb) line (injected_secrets (tw_runtime w2)) (tw_disk w2) (tw_disk w')"
    by auto
  moreover have "validate_local_bash_command_paths (te_paths te) (be_servers be) command (get_thread_data (tw_runtime w2)) = Inr ()"
    using line by (auto simp: prepared_command_def Let_def res_simps)
  ultimately show ?thesis using allowed line by blast
qed

text \<open>C26. The working directory and the channel identity are put in front of a command as single shell words:
  whatever characters the directory and the user id hold, the tokens of the prefixed command are those of the
  prefix, with the directory and the id as they are, followed by the tokens of the command.\<close>

theorem command_prefixes_are_inert:
  assumes "td_workspace td = Some dir" and "dir \<noteq> ''''" and "channel_identity_prefix rt = Some p"
  shows "\<exists>ident. shell_tokens (p @ apply_cwd_prefix command (Some td))
      = map_option (\<lambda>ts. ident @ [''cd'', dir, ''&&''] @ ts) (shell_tokens command)
    \<and> (ident = [''unset'', channel_user_id_env, '';'']
       \<or> (\<exists>ctx u. rt_context rt = Some ctx \<and> map_of ctx ''channel_user_id'' = Some (PStr u) \<and> length u \<le> 256
            \<and> ident = [''export'', channel_user_id_env @ ''='' @ u, '';'']))"
proof -
  have cwd: "shell_tokens (apply_cwd_prefix command (Some td))
      = map_option (\<lambda>ts. [''cd'', dir, ''&&''] @ ts) (shell_tokens command)"
    using assms(1,2) shell_tokens_cwd [of dir command] by (simp add: apply_cwd_prefix_def nonempty_def)
  from assms(3) obtain ctx v where ctx: "rt_context rt = Some ctx" "map_of ctx ''channel_user_id'' = Some v"
    by (auto simp: channel_identity_prefix_def split: option.splits)
  show ?thesis
  proof (cases "\<exists>u. v = PStr u \<and> 0 < length u \<and> length u \<le> 256")
    case True
    then obtain u where u: "v = PStr u" "0 < length u" "length u \<le> 256" by blast
    with assms(3) ctx have "p = ''export '' @ channel_user_id_env @ ''='' @ shell_quote u @ ''; ''"
      by (simp add: channel_identity_prefix_def)
    with shell_tokens_export [of u "apply_cwd_prefix command (Some td)"] cwd ctx u
    show ?thesis by (intro exI [of _ "[''export'', channel_user_id_env @ ''='' @ u, '';'']"])
        (simp add: option.map_comp comp_def)
  next
    case False
    with assms(3) ctx have "p = ''unset '' @ channel_user_id_env @ ''; ''"
      by (auto simp: channel_identity_prefix_def split: pyval.splits if_splits)
    with shell_tokens_unset [of "apply_cwd_prefix command (Some td)"] cwd
    show ?thesis by (intro exI [of _ "[''unset'', channel_user_id_env, '';'']"])
        (simp add: option.map_comp comp_def)
  qed
qed

text \<open>However the output of a command is cut into reads, the capture keeps its first \<open>limit\<close> bytes and tells how
  many of how many were kept exactly when there were more.\<close>

lemma captured_output_is_prefix:
  "capture_read decode (drain_pipe reads (capture_init limit))
    = decode (take limit (concat reads))
      @ (if length (concat reads) \<le> limit then ''''
         else LF # ''... [output truncated after '' @ dec limit @ '' of '' @ dec (length (concat reads))
                @ '' bytes; remaining output discarded] ...'')"
proof -
  have "concat (pc_chunks (drain_pipe reads (capture_init limit))) = take limit (concat reads)"
    "pc_kept (drain_pipe reads (capture_init limit)) = min limit (length (concat reads))"
    "pc_total (drain_pipe reads (capture_init limit)) = length (concat reads)"
    using capture_kept [of "capture_init limit" "[]" reads] by (simp_all add: drain_pipe_def capture_init_def)
  then show ?thesis by (auto simp: capture_read_def Let_def min_def)
qed


section \<open>A concrete command\<close>

definition demo_host :: host_env where
  "demo_host = \<lparr>he_windows = False, he_absolute = prefix ''/'', he_executable = (\<lambda>_. True), he_which = (\<lambda>_. None),
     he_powershell = '''', he_environ = [(''HOME'', ''/root''), (''API_KEY'', ''x'')], he_float_text = (\<lambda>_. ''''),
     he_run = (\<lambda>args t vars d. (Inr \<lparr>pr_stdout = ''hi'', pr_stderr = '''', pr_code = 0, pr_timed_out = False\<rparr>,
       od_set ''/w/out'' DirEntry d))\<rparr>"

definition demo_bash :: bash_env where
  "demo_bash = \<lparr>be_host = demo_host,
     be_config = Some \<lparr>hc_use = ''vassilflow.sandbox.local:LocalSandboxProvider'', hc_allow_host_bash = True\<rparr>,
     be_servers = None, be_limit = 20000, be_timeout = None\<rparr>"

definition demo_runtime :: tool_runtime where
  "demo_runtime = \<lparr>rt_state = Some \<lparr>rs_sandbox = Some (PStr ''local:u1:t1''),
       rs_thread_data = Some \<lparr>td_workspace = Some ''/w'', td_uploads = None, td_outputs = None\<rparr>, rs_dirs_created = True\<rparr>,
     rt_context = Some [(''thread_id'', PStr ''t1''), (''sandbox_id'', PStr ''local:u1:t1'')], rt_config_thread = PNone\<rparr>"

lemma demo_ensured:
  "ensure_sandbox_initialized demo_tools id demo_world
    = (Inr (''local:u1:t1'', fresh_sandbox ''local:u1:t1'' demo_mappings), demo_opened)"
  "ensure_thread_directories_exist (te_paths demo_tools) demo_opened = demo_opened"
  "create_thread_directories (te_paths demo_tools) demo_opened = (Inr (), demo_opened)"
  "tw_runtime demo_opened = demo_runtime"
  by (simp_all add: demo_opened_def open_sandbox_def ensure_sandbox_initialized_def existing_sandbox_def demo_world_def
      demo_tools_def runtime_thread_id_def resolve_runtime_user_id_def get_effective_user_id_def acquire_def
      acquire_cached_def provider_init_def demo_built acquire_insert_def demo_sid evict_until_within_cap_def
      get_sandbox_def demo_key note_sandbox_def ensure_thread_directories_exist_def create_thread_directories_def is_local_sandbox_def
      get_thread_data_def Let_def fresh_sandbox_def od_move_to_end_def demo_runtime_def)

lemma no_container_text:
  assumes "\<forall>b \<in> set bs. prefix ''/mnt/'' b" and "\<not> contains_text ''/mnt/'' s"
  shows "sub_matches (match_containers ends bs) f s = Inr s"
  using assms(2)
proof (induction s)
  case Nil
  then show ?case by simp
next
  case (Cons c s)
  have "match_containers ends bs (c # s) = None"
    using assms(1) Cons.prems by (induction bs) (auto simp: prefix_def)
  with Cons show ?case by simp
qed

lemma demo_dirs: "get_thread_data demo_runtime = Some \<lparr>td_workspace = Some ''/w'', td_uploads = None, td_outputs = None\<rparr>"
  by (simp add: get_thread_data_def demo_runtime_def)

lemma demo_line: "prepared_command demo_tools demo_bash demo_runtime ''ls'' = Inr ''cd /w && ls''"
proof -
  let ?td = "\<lparr>td_workspace = Some ''/w'', td_uploads = None, td_outputs = None\<rparr>"
  have "validate_local_bash_command_paths guard_env None ''ls'' (Some guard_dirs) = Inr ()"
    by code_simp
  then have "validate_local_bash_command_paths (te_paths demo_tools) (be_servers demo_bash) ''ls'' (Some ?td) = Inr ()"
    by (simp add: guard_env_def guard_dirs_def demo_tools_def demo_bash_def)
  moreover have "replace_virtual_paths_in_command (te_paths demo_tools) ''ls'' (Some ?td) = Inr ''ls''"
    by (simp add: replace_virtual_paths_in_command_def demo_tools_def nonempty_def virtual_path_prefix_def Let_def)
  moreover have "apply_cwd_prefix ''ls'' (Some ?td) = ''cd /w && ls''" by code_simp
  moreover have "channel_identity_prefix demo_runtime = None"
    by (simp add: channel_identity_prefix_def demo_runtime_def)
  ultimately show ?thesis by (simp add: prepared_command_def demo_dirs Let_def)
qed

lemma demo_resolved: "resolve_paths_in_command (te_paths demo_tools) demo_mappings ''cd /w && ls'' = Inr ''cd /w && ls''"
proof -
  have "\<forall>b \<in> set (container_alternatives demo_mappings). prefix ''/mnt/'' b"
    using demo_mem(2) by (fastforce simp: container_alternatives_def)
  moreover have "\<not> contains_text ''/mnt/'' ''cd /w && ls''" by code_simp
  ultimately show ?thesis unfolding resolve_paths_in_command_def by (rule no_container_text)
qed

definition demo_after :: tool_world where
  "demo_after = snd (bash_tool demo_tools demo_bash id ''ls'' demo_world)"

lemma demo_ran: "tw_disk demo_after = [(''/w/out'', DirEntry)]"
proof -
  have loc: "is_local_sandbox demo_runtime" and ctx: "injected_secrets demo_runtime = None"
    by code_simp+
  have allowed: "is_host_bash_allowed (be_config demo_bash)" by code_simp
  have shell: "get_shell (be_host demo_bash) = Inr ''/bin/zsh''" by code_simp
  obtain x where ran: "execute_command (be_host demo_bash) (te_paths demo_tools) demo_mappings ''cd /w && ls'' None
      (be_timeout demo_bash) [] = (x, [(''/w/out'', DirEntry)])"
    by (simp add: execute_command_def validate_extra_env_def demo_resolved shell Let_def)
      (simp add: demo_bash_def demo_host_def)
  obtain y w3 where y: "local_bash demo_tools demo_bash demo_mappings ''ls'' demo_opened = (y, w3)" by fastforce
  have "tw_disk w3 = [(''/w/out'', DirEntry)]"
    using ran y by (simp add: local_bash_def Let_def demo_ensured(4) demo_line ctx demo_open(2) split: sum.splits) auto
  then show ?thesis using y
    by (simp add: demo_after_def bash_tool_def demo_ensured(1,3) demo_ensured(4) loc allowed fresh_sandbox_def
        split: sum.splits)
qed

theorem bash_runs_guarded_commands_witness:
  "is_host_bash_allowed (be_config demo_bash)
    \<and> (\<exists>line. prepared_command demo_tools demo_bash demo_runtime ''ls'' = Inr line
        \<and> ran_command demo_bash (te_paths demo_tools) demo_mappings line None [] [(''/w/out'', DirEntry)])"
proof -
  have loc: "is_local_sandbox (tw_runtime demo_opened)" and ctx: "injected_secrets demo_runtime = None"
    unfolding demo_ensured(4) by code_simp+
  obtain r where r: "bash_tool demo_tools demo_bash id ''ls'' demo_world = (r, demo_after)"
    unfolding demo_after_def by (metis prod.collapse)
  have changed: "tw_disk demo_after \<noteq> tw_disk demo_opened" by (simp add: demo_ran demo_open(2))
  show ?thesis
    using bash_runs_guarded_commands [OF demo_ensured(1) loc r demo_ensured(2) [symmetric] changed changed]
    by (simp add: demo_ran demo_open(2) demo_ensured(4) ctx fresh_sandbox_def)
qed

theorem command_prefixes_are_inert_witness:
  "\<exists>ident. shell_tokens (''export VASSILFLOW_CHANNEL_USER_ID='' @ shell_quote ''u; rm'' @ ''; ''
        @ apply_cwd_prefix ''ls'' (Some \<lparr>td_workspace = Some ''/a b'', td_uploads = None, td_outputs = None\<rparr>))
      = Some (ident @ [''cd'', ''/a b'', ''&&'', ''ls''])"
proof -
  let ?td = "\<lparr>td_workspace = Some ''/a b'', td_uploads = None, td_outputs = None\<rparr>"
  let ?rt = "\<lparr>rt_state = None, rt_context = Some [(''channel_user_id'', PStr ''u; rm'')], rt_config_thread = PNone\<rparr>"
  have p: "channel_identity_prefix ?rt = Some (''export VASSILFLOW_CHANNEL_USER_ID='' @ shell_quote ''u; rm'' @ ''; '')"
    by (simp add: channel_identity_prefix_def channel_user_id_env_def)
  have ls: "shell_tokens ''ls'' = Some [''ls'']" by code_simp
  show ?thesis
    using command_prefixes_are_inert [OF _ _ p, of ?td "''/a b''" "''ls''"] ls by auto
qed

end
