(* ===== verification/LifecycleDocs.thy ===== *)
theory LifecycleDocs
  imports ActionStore
begin

text \<open>
  The documents of the lifecycle journal (first half of \<open>runtime/lifecycle_journal.py\<close>): normalisation of
  event payloads and handler keys, the identity an operation is named after, and the validation of every
  document that is read back.  Files, JSON objects and timestamps are those of the action journal.
  \<open>lc_digest\<close> is the hexadecimal SHA-256 of the canonical JSON text of a value, \<open>lc_canonical_len\<close> the
  length of that text.
\<close>

section \<open>Parameters, errors and constants\<close>

record lc_env =
  lc_doc :: doc_env
  lc_digest :: "pyval \<Rightarrow> string"
  lc_canonical_len :: "pyval \<Rightarrow> nat"

datatype lc_error =
    LcError string
  | LcConflict string
  | LcIntegrity string
  | LcNotFound string
  | LcTypeError

definition lc_event_schema :: string where "lc_event_schema = ''vassilflow.lifecycle.event.v1''"
definition lc_prepare_schema :: string where "lc_prepare_schema = ''vassilflow.lifecycle.source_prepare.v1''"
definition lc_commit_schema :: string where "lc_commit_schema = ''vassilflow.lifecycle.source_commit.v1''"
definition lc_abort_schema :: string where "lc_abort_schema = ''vassilflow.lifecycle.source_abort.v1''"
definition lc_start_schema :: string where "lc_start_schema = ''vassilflow.lifecycle.attempt.start.v1''"
definition lc_lease_schema :: string where "lc_lease_schema = ''vassilflow.lifecycle.attempt.lease.v1''"
definition lc_outcome_schema :: string where "lc_outcome_schema = ''vassilflow.lifecycle.attempt.outcome.v1''"

definition lc_max_document_bytes :: nat where "lc_max_document_bytes = 64 * 1024"
definition lc_max_operations :: nat where "lc_max_operations = 10000"
definition lc_max_handlers :: nat where "lc_max_handlers = 64"
definition lc_max_attempts :: nat where "lc_max_attempts = 100"

definition lc_operation_id_re :: "string \<Rightarrow> bool" where "lc_operation_id_re = tagged_hex ''lco_''"
definition lc_attempt_id_re :: "string \<Rightarrow> bool" where "lc_attempt_id_re = tagged_hex ''lca_''"
definition lc_handler_key_re :: "string \<Rightarrow> bool" where "lc_handler_key_re = dotted_name 95"

definition lc_event_names :: "string list" where
  "lc_event_names = [''thread_deleted'', ''thread_branched'']"

section \<open>Timestamps and identities\<close>

definition lc_parse_timestamp :: "lc_env \<Rightarrow> pyval \<Rightarrow> lc_error + int" where
  "lc_parse_timestamp env v =
     (case v of
        PStr s \<Rightarrow>
          if 64 < length s then Inl (LcIntegrity ''Lifecycle timestamp is invalid'')
          else (case iso_parse (lc_doc env) s of
                  None \<Rightarrow> Inl (LcIntegrity ''Lifecycle timestamp is invalid'')
                | Some (Naive _) \<Rightarrow> Inl (LcIntegrity ''Lifecycle timestamp must include a timezone'')
                | Some (Aware t) \<Rightarrow> Inr t)
      | _ \<Rightarrow> Inl (LcIntegrity ''Lifecycle timestamp is invalid''))"

definition lc_id :: "(string \<Rightarrow> bool) \<Rightarrow> string \<Rightarrow> pyval \<Rightarrow> lc_error + string" where
  "lc_id re msg v = (case v of PStr s \<Rightarrow> if re s then Inr s else Inl (LcError msg) | _ \<Rightarrow> Inl (LcError msg))"

definition lc_validate_owner_id :: "pyval \<Rightarrow> lc_error + string" where
  "lc_validate_owner_id = lc_id owner_id_re ''Lifecycle owner ID is invalid''"

definition validate_lifecycle_handler_key :: "pyval \<Rightarrow> lc_error + string" where
  "validate_lifecycle_handler_key = lc_id lc_handler_key_re ''Lifecycle handler key is invalid''"

definition lc_validate_operation_id :: "pyval \<Rightarrow> lc_error + string" where
  "lc_validate_operation_id = lc_id lc_operation_id_re ''Lifecycle operation ID is invalid''"

definition lc_validate_attempt_id :: "pyval \<Rightarrow> lc_error + string" where
  "lc_validate_attempt_id = lc_id lc_attempt_id_re ''Lifecycle attempt ID is invalid''"

definition bounded_identity :: "string \<Rightarrow> nat \<Rightarrow> pyval \<Rightarrow> lc_error + string" where
  "bounded_identity field_name maximum v =
     (case v of
        PStr s \<Rightarrow> if s = '''' \<or> maximum < length s \<or> CHR 0x00 \<in> set s then Inl (LcError (field_name @ '' is invalid'')) else Inr s
      | _ \<Rightarrow> Inl (LcError (field_name @ '' is invalid'')))"

section \<open>Event payloads\<close>

datatype lc_payload =
    DeletedPayload string
  | BranchedPayload (bp_source: string) (bp_target: string) (bp_assistant: string) (bp_mode: string)

definition lc_payload_event :: "lc_payload \<Rightarrow> string" where
  "lc_payload_event p = (case p of DeletedPayload _ \<Rightarrow> ''thread_deleted'' | BranchedPayload _ _ _ _ \<Rightarrow> ''thread_branched'')"

definition lc_payload_json :: "lc_payload \<Rightarrow> pyval" where
  "lc_payload_json p =
     (case p of
        DeletedPayload t \<Rightarrow> PDict [(PStr ''thread_id'', PStr t)]
      | BranchedPayload s t a m \<Rightarrow>
          PDict [(PStr ''source_thread_id'', PStr s), (PStr ''target_thread_id'', PStr t), (PStr ''assistant_id'', PStr a),
                 (PStr ''workspace_clone_mode'', PStr m)])"

text \<open>The test \<open>event_name not in FROZENSET\<close> raises \<open>TypeError\<close> for a list or an object.\<close>

definition normalize_event_payload :: "pyval \<Rightarrow> pyval \<Rightarrow> lc_error + lc_payload" where
  "normalize_event_payload event_name payload =
     (case event_name of
        PList _ \<Rightarrow> Inl LcTypeError
      | PDict _ \<Rightarrow> Inl LcTypeError
      | PStr n \<Rightarrow>
          if n \<notin> set lc_event_names then Inl (LcError ''Lifecycle event name is invalid'')
          else
            (case payload of
               PDict d \<Rightarrow>
                 if n = ''thread_deleted'' then
                   (if \<not> keys_are d [''thread_id''] then Inl (LcError ''Deleted-thread lifecycle payload is invalid'')
                    else rbind (bounded_identity ''Lifecycle thread ID'' 512 (get_key d ''thread_id'')) (\<lambda>t.
                           Inr (DeletedPayload t)))
                 else
                   (if \<not> keys_are d [''source_thread_id'', ''target_thread_id'', ''assistant_id'', ''workspace_clone_mode'']
                    then Inl (LcError ''Branched-thread lifecycle payload is invalid'')
                    else
                      rbind (bounded_identity ''Lifecycle source thread ID'' 512 (get_key d ''source_thread_id'')) (\<lambda>s.
                      rbind (bounded_identity ''Lifecycle target thread ID'' 512 (get_key d ''target_thread_id'')) (\<lambda>t.
                      rbind (bounded_identity ''Lifecycle assistant ID'' 128 (get_key d ''assistant_id'')) (\<lambda>a.
                      rbind (bounded_identity ''Lifecycle workspace clone mode'' 64 (get_key d ''workspace_clone_mode'')) (\<lambda>m.
                        if s = t then Inl (LcError ''Lifecycle branch identities must differ'')
                        else Inr (BranchedPayload s t a m))))))
             | _ \<Rightarrow> Inl (LcError ''Lifecycle event payload must be an object''))
      | _ \<Rightarrow> Inl (LcError ''Lifecycle event name is invalid''))"

text \<open>The identity of an event leaves out what is only observed after the mutation.\<close>

definition event_identity_payload :: "lc_payload \<Rightarrow> pyval" where
  "event_identity_payload p =
     (case p of
        DeletedPayload t \<Rightarrow> lc_payload_json p
      | BranchedPayload s t a m \<Rightarrow>
          PDict [(PStr ''source_thread_id'', PStr s), (PStr ''target_thread_id'', PStr t), (PStr ''assistant_id'', PStr a)])"

definition normalize_handler_keys :: "pyval \<Rightarrow> lc_error + string list" where
  "normalize_handler_keys v =
     (case v of
        PList vs \<Rightarrow>
          if lc_max_handlers < length vs then Inl (LcError ''Lifecycle handler count exceeds the limit'')
          else rbind (map_res validate_lifecycle_handler_key vs) (\<lambda>ks.
                 if distinct ks then Inr ks else Inl (LcError ''Lifecycle handler keys must be unique''))
      | _ \<Rightarrow> Inl (LcError ''Lifecycle handler keys must be a list''))"

text \<open>\<open>_canonical_json_bytes\<close> and \<open>_json_bytes\<close> on JSON values: only the size can be refused.\<close>

definition lc_event_digest :: "lc_env \<Rightarrow> string \<Rightarrow> string \<Rightarrow> pyval \<Rightarrow> lc_error + string" where
  "lc_event_digest env owner event payload =
     (let v = PDict [(PStr ''owner_user_id'', PStr owner), (PStr ''event'', PStr event), (PStr ''payload'', payload)]
      in if lc_max_document_bytes < lc_canonical_len env v
         then Inl (LcError ''Lifecycle metadata exceeds the storage limit'') else Inr (lc_digest env v))"

definition lc_json_bytes :: "lc_env \<Rightarrow> pyval \<Rightarrow> lc_error + pyval" where
  "lc_json_bytes env v =
     (if lc_max_document_bytes < json_len (lc_doc env) v
      then Inl (LcError ''Lifecycle metadata exceeds the storage limit'') else Inr v)"

definition lc_read_json_object :: "doc_file \<Rightarrow> lc_error + (pyval \<times> pyval) list" where
  "lc_read_json_object f =
     (case f of
        Absent \<Rightarrow> Inl (LcIntegrity ''Lifecycle metadata is missing or unsafe'')
      | Symlink \<Rightarrow> Inl (LcIntegrity ''Lifecycle metadata is missing or unsafe'')
      | Garbage \<Rightarrow> Inl (LcIntegrity ''Lifecycle metadata is not valid JSON'')
      | Doc v \<Rightarrow> (case v of PDict d \<Rightarrow> Inr d | _ \<Rightarrow> Inl (LcIntegrity ''Lifecycle metadata must be a JSON object'')))"

section \<open>Documents\<close>

record lc_event =
  ev_operation :: string
  ev_owner :: string
  ev_digest :: string
  ev_payload :: lc_payload
  ev_handlers :: "string list"
  ev_created_at :: string

record lc_commit =
  cm_payload :: lc_payload
  cm_committed_at :: string

record lc_abort =
  ab_aborted_at :: string
  ab_error_type :: string

record lc_lease =
  ll_generation :: int
  ll_renewed_at :: string
  ll_expires_at :: string

record lc_outcome =
  lo_status :: string
  lo_completed_at :: string
  lo_error_type :: "string option"

definition lc_operation_id_of :: "string \<Rightarrow> string" where
  "lc_operation_id_of digest = ''lco_'' @ take 32 digest"

definition lc_event_json :: "lc_event \<Rightarrow> pyval" where
  "lc_event_json e = PDict
     [(PStr ''schema'', PStr lc_event_schema), (PStr ''operation_id'', PStr (ev_operation e)),
      (PStr ''owner_user_id'', PStr (ev_owner e)), (PStr ''event'', PStr (lc_payload_event (ev_payload e))),
      (PStr ''idempotency_sha256'', PStr (ev_digest e)), (PStr ''payload'', lc_payload_json (ev_payload e)),
      (PStr ''handlers'', PList (map PStr (ev_handlers e))), (PStr ''created_at'', PStr (ev_created_at e))]"

definition lc_prepare_json :: "string \<Rightarrow> string \<Rightarrow> pyval" where
  "lc_prepare_json op t = PDict
     [(PStr ''schema'', PStr lc_prepare_schema), (PStr ''operation_id'', PStr op), (PStr ''prepared_at'', PStr t)]"

definition lc_commit_json :: "string \<Rightarrow> lc_commit \<Rightarrow> pyval" where
  "lc_commit_json op c = PDict
     [(PStr ''schema'', PStr lc_commit_schema), (PStr ''operation_id'', PStr op),
      (PStr ''payload'', lc_payload_json (cm_payload c)), (PStr ''committed_at'', PStr (cm_committed_at c))]"

definition lc_abort_json :: "string \<Rightarrow> lc_abort \<Rightarrow> pyval" where
  "lc_abort_json op a = PDict
     [(PStr ''schema'', PStr lc_abort_schema), (PStr ''operation_id'', PStr op),
      (PStr ''aborted_at'', PStr (ab_aborted_at a)), (PStr ''error_type'', PStr (ab_error_type a))]"

definition lc_start_json :: "string \<Rightarrow> string \<Rightarrow> string \<Rightarrow> string \<Rightarrow> pyval" where
  "lc_start_json op h aid t = PDict
     [(PStr ''schema'', PStr lc_start_schema), (PStr ''operation_id'', PStr op), (PStr ''handler_key'', PStr h),
      (PStr ''attempt_id'', PStr aid), (PStr ''started_at'', PStr t)]"

definition lc_lease_json :: "string \<Rightarrow> string \<Rightarrow> string \<Rightarrow> lc_lease \<Rightarrow> pyval" where
  "lc_lease_json op h aid l = PDict
     [(PStr ''schema'', PStr lc_lease_schema), (PStr ''operation_id'', PStr op), (PStr ''handler_key'', PStr h),
      (PStr ''attempt_id'', PStr aid), (PStr ''generation'', PInt (ll_generation l)),
      (PStr ''renewed_at'', PStr (ll_renewed_at l)), (PStr ''expires_at'', PStr (ll_expires_at l))]"

definition lc_outcome_json :: "string \<Rightarrow> string \<Rightarrow> string \<Rightarrow> lc_outcome \<Rightarrow> pyval" where
  "lc_outcome_json op h aid u = PDict
     [(PStr ''schema'', PStr lc_outcome_schema), (PStr ''operation_id'', PStr op), (PStr ''handler_key'', PStr h),
      (PStr ''attempt_id'', PStr aid), (PStr ''status'', PStr (lo_status u)),
      (PStr ''completed_at'', PStr (lo_completed_at u)),
      (PStr ''error_type'', (case lo_error_type u of None \<Rightarrow> PNone | Some t \<Rightarrow> PStr t))]"

section \<open>Validation\<close>

text \<open>\<open>except LifecycleJournalError\<close>; a \<open>TypeError\<close> passes.\<close>

definition lc_reraise :: "string \<Rightarrow> lc_error + 'a \<Rightarrow> lc_error + 'a" where
  "lc_reraise msg r = (case r of Inl LcTypeError \<Rightarrow> r | Inl _ \<Rightarrow> Inl (LcIntegrity msg) | Inr _ \<Rightarrow> r)"

definition lc_event_keys :: "string list" where
  "lc_event_keys = [''schema'', ''operation_id'', ''owner_user_id'', ''event'', ''idempotency_sha256'', ''payload'',
     ''handlers'', ''created_at'']"

definition lc_validate_event :: "lc_env \<Rightarrow> string \<Rightarrow> (pyval \<times> pyval) list \<Rightarrow> lc_error + lc_event" where
  "lc_validate_event env owner d =
     (if \<not> keys_are d lc_event_keys \<or> get_key d ''schema'' \<noteq> PStr lc_event_schema
      then Inl (LcIntegrity ''Lifecycle event record has an invalid schema'')
      else
        rbind (lc_reraise ''Lifecycle event record failed validation''
          (rbind (lc_validate_operation_id (get_key d ''operation_id'')) (\<lambda>op.
           rbind (lc_validate_owner_id (get_key d ''owner_user_id'')) (\<lambda>stored.
           rbind (normalize_event_payload (get_key d ''event'') (get_key d ''payload'')) (\<lambda>p.
           rbind (normalize_handler_keys (get_key d ''handlers'')) (\<lambda>hs. Inr (op, stored, p, hs))))))) (\<lambda>(op, stored, p, hs).
        rbind (check (stored = owner \<and> is_token sha256_re (get_key d ''idempotency_sha256''))
                 (LcIntegrity ''Lifecycle event identity is invalid'')) (\<lambda>_.
        rbind (lc_parse_timestamp env (get_key d ''created_at'')) (\<lambda>_.
        rbind (lc_event_digest env stored (lc_payload_event p) (lc_payload_json p)) (\<lambda>full.
        rbind (lc_event_digest env stored (lc_payload_event p) (event_identity_payload p)) (\<lambda>ident.
          let digest = str_of (get_key d ''idempotency_sha256'')
          in if digest \<notin> {full, ident} \<or> op \<noteq> lc_operation_id_of digest
             then Inl (LcIntegrity ''Lifecycle idempotency identity is invalid'')
             else Inr \<lparr>ev_operation = op, ev_owner = stored, ev_digest = digest, ev_payload = p, ev_handlers = hs,
                       ev_created_at = str_of (get_key d ''created_at'')\<rparr>))))))"

definition validate_source_prepare :: "lc_env \<Rightarrow> lc_event \<Rightarrow> (pyval \<times> pyval) list \<Rightarrow> lc_error + unit" where
  "validate_source_prepare env e d =
     (if \<not> keys_are d [''schema'', ''operation_id'', ''prepared_at''] \<or> get_key d ''schema'' \<noteq> PStr lc_prepare_schema
         \<or> get_key d ''operation_id'' \<noteq> PStr (ev_operation e)
      then Inl (LcIntegrity ''Lifecycle source preparation is invalid'')
      else rbind (lc_parse_timestamp env (get_key d ''prepared_at'')) (\<lambda>_. Inr ()))"

definition validate_source_commit :: "lc_env \<Rightarrow> lc_event \<Rightarrow> (pyval \<times> pyval) list \<Rightarrow> lc_error + lc_commit" where
  "validate_source_commit env e d =
     (if \<not> keys_are d [''schema'', ''operation_id'', ''payload'', ''committed_at'']
         \<or> get_key d ''schema'' \<noteq> PStr lc_commit_schema \<or> get_key d ''operation_id'' \<noteq> PStr (ev_operation e)
      then Inl (LcIntegrity ''Lifecycle source commit is invalid'')
      else
        rbind (lc_reraise ''Lifecycle source commit payload is invalid''
          (normalize_event_payload (PStr (lc_payload_event (ev_payload e))) (get_key d ''payload''))) (\<lambda>p.
        rbind (check (event_identity_payload p = event_identity_payload (ev_payload e))
                 (LcIntegrity ''Lifecycle source commit identity does not match its event'')) (\<lambda>_.
        rbind (lc_parse_timestamp env (get_key d ''committed_at'')) (\<lambda>_.
          Inr \<lparr>cm_payload = p, cm_committed_at = str_of (get_key d ''committed_at'')\<rparr>))))"

definition lc_error_type_ok :: "pyval \<Rightarrow> bool" where
  "lc_error_type_ok v \<longleftrightarrow> (case v of PStr s \<Rightarrow> s \<noteq> '''' \<and> length s \<le> 128 | _ \<Rightarrow> False)"

definition validate_source_abort :: "lc_env \<Rightarrow> lc_event \<Rightarrow> (pyval \<times> pyval) list \<Rightarrow> lc_error + lc_abort" where
  "validate_source_abort env e d =
     (if \<not> keys_are d [''schema'', ''operation_id'', ''aborted_at'', ''error_type'']
         \<or> get_key d ''schema'' \<noteq> PStr lc_abort_schema \<or> get_key d ''operation_id'' \<noteq> PStr (ev_operation e)
         \<or> \<not> lc_error_type_ok (get_key d ''error_type'')
      then Inl (LcIntegrity ''Lifecycle source abort is invalid'')
      else rbind (lc_parse_timestamp env (get_key d ''aborted_at'')) (\<lambda>_.
             Inr \<lparr>ab_aborted_at = str_of (get_key d ''aborted_at''), ab_error_type = str_of (get_key d ''error_type'')\<rparr>))"

definition attempt_identity :: "string \<Rightarrow> string \<Rightarrow> string \<Rightarrow> (pyval \<times> pyval) list \<Rightarrow> bool" where
  "attempt_identity op h aid d \<longleftrightarrow>
     get_key d ''operation_id'' = PStr op \<and> get_key d ''handler_key'' = PStr h \<and> get_key d ''attempt_id'' = PStr aid"

definition validate_attempt_start :: "lc_env \<Rightarrow> string \<Rightarrow> string \<Rightarrow> string \<Rightarrow> (pyval \<times> pyval) list \<Rightarrow> lc_error + string" where
  "validate_attempt_start env op h aid d =
     (if \<not> keys_are d [''schema'', ''operation_id'', ''handler_key'', ''attempt_id'', ''started_at'']
         \<or> get_key d ''schema'' \<noteq> PStr lc_start_schema \<or> \<not> attempt_identity op h aid d
      then Inl (LcIntegrity ''Lifecycle attempt start is invalid'')
      else rbind (lc_parse_timestamp env (get_key d ''started_at'')) (\<lambda>_. Inr (str_of (get_key d ''started_at''))))"

definition int_of :: "pyval \<Rightarrow> int" where
  "int_of v = (case v of PInt i \<Rightarrow> i | _ \<Rightarrow> 0)"

definition validate_attempt_lease :: "lc_env \<Rightarrow> string \<Rightarrow> string \<Rightarrow> string \<Rightarrow> (pyval \<times> pyval) list \<Rightarrow> lc_error + lc_lease" where
  "validate_attempt_lease env op h aid d =
     (if \<not> keys_are d [''schema'', ''operation_id'', ''handler_key'', ''attempt_id'', ''generation'', ''renewed_at'', ''expires_at'']
         \<or> get_key d ''schema'' \<noteq> PStr lc_lease_schema \<or> \<not> attempt_identity op h aid d
         \<or> \<not> (case get_key d ''generation'' of PInt g \<Rightarrow> 1 \<le> g \<and> g \<le> int lc_max_attempts | _ \<Rightarrow> False)
      then Inl (LcIntegrity ''Lifecycle attempt lease is invalid'')
      else
        rbind (lc_parse_timestamp env (get_key d ''renewed_at'')) (\<lambda>renewed.
        rbind (lc_parse_timestamp env (get_key d ''expires_at'')) (\<lambda>expires.
          if expires < renewed then Inl (LcIntegrity ''Lifecycle attempt lease expiry is invalid'')
          else Inr \<lparr>ll_generation = int_of (get_key d ''generation''), ll_renewed_at = str_of (get_key d ''renewed_at''),
                    ll_expires_at = str_of (get_key d ''expires_at'')\<rparr>)))"

text \<open>\<open>status not in {...}\<close> raises \<open>TypeError\<close> for a list or an object.\<close>

definition validate_attempt_outcome ::
    "lc_env \<Rightarrow> string \<Rightarrow> string \<Rightarrow> string \<Rightarrow> (pyval \<times> pyval) list \<Rightarrow> lc_error + lc_outcome" where
  "validate_attempt_outcome env op h aid d =
     (let status = get_key d ''status''; err = get_key d ''error_type'';
          bad = Inl (LcIntegrity ''Lifecycle attempt outcome is invalid'')
      in if \<not> keys_are d [''schema'', ''operation_id'', ''handler_key'', ''attempt_id'', ''status'', ''completed_at'', ''error_type'']
            \<or> get_key d ''schema'' \<noteq> PStr lc_outcome_schema \<or> \<not> attempt_identity op h aid d
         then bad
         else if (case status of PList _ \<Rightarrow> True | PDict _ \<Rightarrow> True | _ \<Rightarrow> False) then Inl LcTypeError
         else if status \<notin> {PStr ''succeeded'', PStr ''failed''}
                 \<or> (status = PStr ''succeeded'' \<and> err \<noteq> PNone)
                 \<or> (status = PStr ''failed'' \<and> \<not> lc_error_type_ok err)
         then bad
         else rbind (lc_parse_timestamp env (get_key d ''completed_at'')) (\<lambda>_.
                Inr \<lparr>lo_status = str_of status, lo_completed_at = str_of (get_key d ''completed_at''),
                     lo_error_type = (case err of PStr t \<Rightarrow> Some t | _ \<Rightarrow> None)\<rparr>))"

end
