(* ===== verification/LifecycleJournal.thy ===== *)
theory LifecycleJournal
  imports LifecycleDocs
begin

text \<open>
  \<open>FileThreadLifecycleJournal\<close> (\<open>runtime/lifecycle_journal.py\<close>): one directory per lifecycle operation with
  the immutable event, the outcome of its source mutation, and for each handler the attempts to project it.
  An operation runs under the journal lock and is one step; clock readings and generated ids are
  arguments.  Writes that create a file do not fail otherwise than by the size of a document.
\<close>

section \<open>State\<close>

record lc_attempt_dir =
  la_started :: doc_file
  la_lease_file :: doc_file
  la_outcome :: doc_file

datatype lc_attempt_entry = AttemptDir lc_attempt_dir | UnsafeAttempt

datatype lc_handler_entry = HandlerDir "(string \<times> lc_attempt_entry) list" | UnsafeHandler

record lc_op_dir =
  op_event :: doc_file
  op_prepared :: doc_file
  op_committed :: doc_file
  op_aborted :: doc_file
  op_attempts :: "(string \<times> lc_handler_entry) list"

datatype lc_entry = OperationDir lc_op_dir | UnsafeOperation

record lc_journal =
  lj_root :: root_state
  lj_entries :: "(string \<times> lc_entry) list"

section \<open>Projections\<close>

record lc_attempt =
  at_id :: string
  at_started_at :: string
  at_completed_at :: "string option"
  at_status :: string
  at_error_type :: "string option"
  at_generation :: int
  at_lease :: "(string \<times> string) option"

record lc_source =
  sr_status :: string
  sr_committed_at :: "string option"
  sr_aborted_at :: "string option"
  sr_error_type :: "string option"
  sr_payload :: lc_payload

record lc_operation =
  lop_event :: lc_event
  lop_source :: lc_source
  lop_status :: string
  lop_handlers :: "(string \<times> string \<times> lc_attempt list) list"

definition lc_prepare_root :: "lc_journal \<Rightarrow> lc_error + lc_journal" where
  "lc_prepare_root j =
     (case lj_root j of
        RootMissing \<Rightarrow> Inr (j\<lparr>lj_root := RootDir\<rparr>)
      | RootUnsafe \<Rightarrow> Inl (LcIntegrity ''Lifecycle journal root is missing or unsafe'')
      | RootDir \<Rightarrow> Inr j)"

definition lc_lock_name :: string where "lc_lock_name = ''.lifecycle.lock''"

definition lc_take_lock :: "lc_journal \<Rightarrow> lc_journal" where
  "lc_take_lock j = j\<lparr>lj_entries := (if lc_lock_name \<in> fst ` set (lj_entries j) then lj_entries j
     else lj_entries j @ [(lc_lock_name, UnsafeOperation)])\<rparr>"

definition load_event_in :: "lc_env \<Rightarrow> string \<Rightarrow> string \<Rightarrow> lc_op_dir \<Rightarrow> lc_error + lc_event" where
  "load_event_in env owner op d =
     rbind (lc_read_json_object (op_event d)) (\<lambda>p.
     rbind (lc_validate_event env owner p) (\<lambda>e.
       if ev_operation e \<noteq> op
       then Inl (LcIntegrity ''Lifecycle operation directory and record identities differ'') else Inr e))"

definition find_operation :: "string \<Rightarrow> lc_journal \<Rightarrow> lc_error + lc_op_dir" where
  "find_operation op j =
     (case map_of (lj_entries j) op of
        None \<Rightarrow> Inl (LcNotFound ''Lifecycle operation was not found'')
      | Some UnsafeOperation \<Rightarrow> Inl (LcIntegrity ''Lifecycle operation directory is unsafe'')
      | Some (OperationDir d) \<Rightarrow> Inr d)"

text \<open>One attempt; its generation is \<open>0\<close> where it has no lease.\<close>

definition load_attempt :: "lc_env \<Rightarrow> string \<Rightarrow> string \<Rightarrow> string \<times> lc_attempt_entry \<Rightarrow> lc_error + lc_attempt" where
  "load_attempt env op h entry =
     rbind (lc_validate_attempt_id (PStr (fst entry))) (\<lambda>aid.
       case snd entry of
         UnsafeAttempt \<Rightarrow> Inl (LcIntegrity ''Lifecycle attempt directory is unsafe'')
       | AttemptDir a \<Rightarrow>
           rbind (rbind (lc_read_json_object (la_started a)) (validate_attempt_start env op h aid)) (\<lambda>started.
           rbind (if la_lease_file a = Absent then Inr None
                  else rbind (rbind (lc_read_json_object (la_lease_file a)) (validate_attempt_lease env op h aid)) (\<lambda>l. Inr (Some l)))
             (\<lambda>lease.
           rbind (case lease of
                    None \<Rightarrow> Inr ()
                  | Some l \<Rightarrow>
                      rbind (lc_parse_timestamp env (PStr (ll_renewed_at l))) (\<lambda>r.
                      rbind (lc_parse_timestamp env (PStr started)) (\<lambda>s.
                        check (s \<le> r) (LcIntegrity ''Lifecycle attempt lease predates its start'')))) (\<lambda>_.
           rbind (if la_outcome a = Absent then Inr None
                  else rbind (rbind (lc_read_json_object (la_outcome a)) (validate_attempt_outcome env op h aid)) (\<lambda>u. Inr (Some u)))
             (\<lambda>outcome.
               Inr \<lparr>at_id = aid, at_started_at = started,
                    at_completed_at = map_option lo_completed_at outcome,
                    at_status = (case outcome of None \<Rightarrow> ''running'' | Some u \<Rightarrow> lo_status u),
                    at_error_type = (case outcome of None \<Rightarrow> None | Some u \<Rightarrow> lo_error_type u),
                    at_generation = (case lease of None \<Rightarrow> 0 | Some l \<Rightarrow> ll_generation l),
                    at_lease = map_option (\<lambda>l. (ll_renewed_at l, ll_expires_at l)) lease\<rparr>)))))"

function next_free :: "int list \<Rightarrow> int \<Rightarrow> int" where
  "next_free used n = (if n \<in> set used then next_free used (n + 1) else n)"
  by pat_completeness auto
termination
proof (relation "measure (\<lambda>(used, n). card {g \<in> set used. n \<le> g})", simp)
  fix used :: "int list" and n :: int
  assume n: "n \<in> set used"
  have "n \<in> {g \<in> set used. n \<le> g}" "n \<notin> {g \<in> set used. n + 1 \<le> g}" using n by auto
  moreover have "{g \<in> set used. n + 1 \<le> g} \<subseteq> {g \<in> set used. n \<le> g}" by auto
  ultimately have "{g \<in> set used. n + 1 \<le> g} \<subset> {g \<in> set used. n \<le> g}" by blast
  then show "((used, n + 1), used, n) \<in> measure (\<lambda>(used, n). card {g \<in> set used. n \<le> g})"
    by (simp add: psubset_card_mono)
qed

declare next_free.simps [simp del]

text \<open>Attempts without a lease get the free generations in order.\<close>

fun fill_generations :: "int list \<Rightarrow> int \<Rightarrow> lc_attempt list \<Rightarrow> lc_error + lc_attempt list" where
  "fill_generations used next [] = Inr []"
| "fill_generations used next (a # as) =
     (if at_lease a \<noteq> None then rbind (fill_generations used next as) (\<lambda>bs. Inr (a # bs))
      else
        (let g = next_free used next
         in if int lc_max_attempts < g then Inl (LcIntegrity ''Lifecycle attempt generation exceeds the limit'')
            else rbind (fill_generations (g # used) (g + 1) as) (\<lambda>bs. Inr (a\<lparr>at_generation := g\<rparr> # bs))))"

definition attempts_in :: "lc_env \<Rightarrow> string \<Rightarrow> string \<Rightarrow> lc_op_dir \<Rightarrow> lc_error + lc_attempt list" where
  "attempts_in env op h d =
     (case map_of (op_attempts d) h of
        None \<Rightarrow> Inr []
      | Some UnsafeHandler \<Rightarrow> Inl (LcIntegrity ''Lifecycle handler attempt directory is unsafe'')
      | Some (HandlerDir entries) \<Rightarrow>
          rbind (map_res (load_attempt env op h) (take lc_max_attempts entries)) (\<lambda>loaded.
          rbind (check (length entries \<le> lc_max_attempts)
                   (LcIntegrity ''Lifecycle handler retry count exceeds the limit'')) (\<lambda>_.
            let ordered = sort_key (\<lambda>a. (at_started_at a, at_id a)) loaded;
                leased = map at_generation (filter (\<lambda>a. at_lease a \<noteq> None) ordered)
            in if \<not> distinct leased then Inl (LcIntegrity ''Lifecycle attempt lease generations are duplicated'')
               else rbind (fill_generations leased 1 ordered) (\<lambda>filled.
                      Inr (sort_key (\<lambda>a. (at_generation a, at_started_at a, at_id a)) filled)))))"

definition source_in :: "lc_env \<Rightarrow> lc_event \<Rightarrow> lc_op_dir \<Rightarrow> lc_error + lc_source" where
  "source_in env e d =
     (if op_committed d \<noteq> Absent \<and> op_aborted d \<noteq> Absent
      then Inl (LcIntegrity ''Lifecycle source intent has conflicting outcomes'')
      else
        rbind (if op_prepared d = Absent then Inr ()
               else rbind (lc_read_json_object (op_prepared d)) (validate_source_prepare env e)) (\<lambda>_.
          if op_committed d \<noteq> Absent then
            rbind (rbind (lc_read_json_object (op_committed d)) (validate_source_commit env e)) (\<lambda>c.
              Inr \<lparr>sr_status = ''committed'', sr_committed_at = Some (cm_committed_at c), sr_aborted_at = None,
                   sr_error_type = None, sr_payload = cm_payload c\<rparr>)
          else if op_aborted d \<noteq> Absent then
            rbind (rbind (lc_read_json_object (op_aborted d)) (validate_source_abort env e)) (\<lambda>a.
              Inr \<lparr>sr_status = ''aborted'', sr_committed_at = None, sr_aborted_at = Some (ab_aborted_at a),
                   sr_error_type = Some (ab_error_type a), sr_payload = ev_payload e\<rparr>)
          else if op_prepared d = Absent then
            Inr \<lparr>sr_status = ''committed'', sr_committed_at = Some (ev_created_at e), sr_aborted_at = None,
                 sr_error_type = None, sr_payload = ev_payload e\<rparr>
          else
            Inr \<lparr>sr_status = ''prepared'', sr_committed_at = None, sr_aborted_at = None, sr_error_type = None,
                 sr_payload = ev_payload e\<rparr>))"

definition handler_status :: "lc_attempt list \<Rightarrow> string" where
  "handler_status as =
     (if list_ex (\<lambda>a. at_status a = ''succeeded'') as then ''succeeded''
      else if as = [] then ''pending'' else at_status (last as))"

definition operation_status :: "string \<Rightarrow> string list \<Rightarrow> string" where
  "operation_status source statuses =
     (if source = ''prepared'' then ''prepared''
      else if source = ''aborted'' then ''aborted''
      else if statuses = [] \<or> set statuses = {''succeeded''} then ''succeeded''
      else if ''running'' \<in> set statuses then ''running''
      else if ''failed'' \<in> set statuses then ''failed''
      else ''pending'')"

definition lc_get_in :: "lc_env \<Rightarrow> string \<Rightarrow> string \<Rightarrow> lc_op_dir \<Rightarrow> lc_error + lc_operation" where
  "lc_get_in env owner op d =
     rbind (load_event_in env owner op d) (\<lambda>e.
     rbind (source_in env e d) (\<lambda>s.
     rbind (map_res (\<lambda>h. rbind (attempts_in env op h d) (\<lambda>as. Inr (h, handler_status as, as))) (ev_handlers e)) (\<lambda>hs.
       Inr \<lparr>lop_event = e, lop_source = s,
            lop_status = operation_status (sr_status s) (map (fst \<circ> snd) hs), lop_handlers = hs\<rparr>)))"

definition lc_get :: "lc_env \<Rightarrow> string \<Rightarrow> pyval \<Rightarrow> lc_journal \<Rightarrow> lc_error + lc_operation" where
  "lc_get env owner v j =
     rbind (lc_validate_operation_id v) (\<lambda>op.
     rbind (find_operation op j) (lc_get_in env owner op))"

section \<open>Source intents\<close>

definition lc_new_event :: "lc_env \<Rightarrow> string \<Rightarrow> pyval \<Rightarrow> pyval \<Rightarrow> pyval \<Rightarrow> int \<Rightarrow> lc_error + lc_event" where
  "lc_new_event env owner event_name payload handler_keys now_t =
     rbind (normalize_event_payload event_name payload) (\<lambda>p.
     rbind (normalize_handler_keys handler_keys) (\<lambda>hs.
     rbind (lc_event_digest env owner (lc_payload_event p) (event_identity_payload p)) (\<lambda>digest.
       Inr \<lparr>ev_operation = lc_operation_id_of digest, ev_owner = owner, ev_digest = digest, ev_payload = p,
            ev_handlers = hs, ev_created_at = iso_text (lc_doc env) now_t\<rparr>)))"

text \<open>Existing operations keep their handlers; the rest of the identity has to agree.\<close>

definition same_lifecycle_event :: "lc_event \<Rightarrow> lc_event \<Rightarrow> bool" where
  "same_lifecycle_event a b \<longleftrightarrow>
     ev_operation a = ev_operation b \<and> ev_owner a = ev_owner b
     \<and> lc_payload_event (ev_payload a) = lc_payload_event (ev_payload b) \<and> ev_digest a = ev_digest b
     \<and> event_identity_payload (ev_payload a) = event_identity_payload (ev_payload b)"

definition lc_prepare ::
    "lc_env \<Rightarrow> string \<Rightarrow> pyval \<Rightarrow> pyval \<Rightarrow> pyval \<Rightarrow> int \<Rightarrow> lc_journal \<Rightarrow> (lc_error + lc_operation) \<times> lc_journal" where
  "lc_prepare env owner event_name payload handler_keys now_t j =
     (case rbind (lc_new_event env owner event_name payload handler_keys now_t) (\<lambda>e.
             rbind (lc_prepare_root j) (\<lambda>j1.
             rbind (lc_validate_operation_id (PStr (ev_operation e))) (\<lambda>op. Inr (e, op, j1)))) of
        Inl e \<Rightarrow> (Inl e, j)
      | Inr (e, op, j1) \<Rightarrow>
          (let j2 = lc_take_lock j1
           in if map_of (lj_entries j2) op \<noteq> None then
                (rbind (rbind (find_operation op j2) (load_event_in env owner op)) (\<lambda>existing.
                   if same_lifecycle_event existing e then lc_get env owner (PStr op) j2
                   else Inl (LcConflict ''Lifecycle idempotency key conflicts with an existing event'')), j2)
              else
                (case rbind (lc_json_bytes env (lc_event_json e)) (\<lambda>ej.
                        rbind (lc_json_bytes env (lc_prepare_json op (ev_created_at e))) (\<lambda>pj. Inr (ej, pj))) of
                   Inl err \<Rightarrow> (Inl err, j2)
                 | Inr (ej, pj) \<Rightarrow>
                     (let j3 = j2\<lparr>lj_entries := lj_entries j2 @ [(op, OperationDir
                            \<lparr>op_event = Doc ej, op_prepared = Doc pj, op_committed = Absent, op_aborted = Absent,
                             op_attempts = []\<rparr>)]\<rparr>
                      in (lc_get env owner (PStr op) j3, j3)))))"

text \<open>The frame of the other operations: validated ids, the root, the lock, and one step on the directory.\<close>

definition lc_on_operation ::
    "string \<Rightarrow> (lc_op_dir \<Rightarrow> (lc_error + 'a) \<times> lc_op_dir) \<Rightarrow> lc_journal \<Rightarrow> (lc_error + 'a) \<times> lc_journal" where
  "lc_on_operation op f j =
     (case lc_prepare_root j of
        Inl e \<Rightarrow> (Inl e, j)
      | Inr j1 \<Rightarrow>
          (let j2 = lc_take_lock j1
           in case find_operation op j2 of
                Inl e \<Rightarrow> (Inl e, j2)
              | Inr d \<Rightarrow> (case f d of (r, d') \<Rightarrow> (r, j2\<lparr>lj_entries := od_set op (OperationDir d') (lj_entries j2)\<rparr>))))"

definition lc_dbind ::
    "lc_error + 'a \<Rightarrow> lc_op_dir \<Rightarrow> ('a \<Rightarrow> (lc_error + 'b) \<times> lc_op_dir) \<Rightarrow> (lc_error + 'b) \<times> lc_op_dir" where
  "lc_dbind m d f = (case m of Inl e \<Rightarrow> (Inl e, d) | Inr x \<Rightarrow> f x)"

lemma lc_dbind_simps [simp]: "lc_dbind (Inl e) d f = (Inl e, d)" "lc_dbind (Inr x) d f = f x"
  by (simp_all add: lc_dbind_def)

definition commit_in :: "lc_env \<Rightarrow> string \<Rightarrow> string \<Rightarrow> pyval \<Rightarrow> int \<Rightarrow> lc_op_dir \<Rightarrow> (lc_error + unit) \<times> lc_op_dir" where
  "commit_in env owner op payload now_t d =
     lc_dbind (load_event_in env owner op d) d (\<lambda>e.
     lc_dbind (normalize_event_payload (PStr (lc_payload_event (ev_payload e))) payload) d (\<lambda>p.
       if op_aborted d \<noteq> Absent then
         lc_dbind (rbind (lc_read_json_object (op_aborted d)) (validate_source_abort env e)) d (\<lambda>_.
           (Inl (LcConflict ''Lifecycle source intent was already aborted''), d))
       else if op_committed d \<noteq> Absent then
         lc_dbind (rbind (lc_read_json_object (op_committed d)) (validate_source_commit env e)) d (\<lambda>existing.
           if cm_payload existing = p then (Inr (), d)
           else (Inl (LcConflict ''Lifecycle source intent has a different committed payload''), d))
       else
         (let c = \<lparr>cm_payload = p, cm_committed_at = iso_text (lc_doc env) now_t\<rparr>
          in lc_dbind (rbind (lc_read_json_object (Doc (lc_commit_json op c))) (validate_source_commit env e)) d (\<lambda>_.
             lc_dbind (lc_json_bytes env (lc_commit_json op c)) d (\<lambda>cj. (Inr (), d\<lparr>op_committed := Doc cj\<rparr>))))))"

definition lc_then_get ::
    "lc_env \<Rightarrow> string \<Rightarrow> string \<Rightarrow> (lc_error + unit) \<times> lc_journal \<Rightarrow> (lc_error + lc_operation) \<times> lc_journal" where
  "lc_then_get env owner op rj = (rbind (fst rj) (\<lambda>_. lc_get env owner (PStr op) (snd rj)), snd rj)"

definition lc_commit_source ::
    "lc_env \<Rightarrow> string \<Rightarrow> pyval \<Rightarrow> pyval \<Rightarrow> int \<Rightarrow> lc_journal \<Rightarrow> (lc_error + lc_operation) \<times> lc_journal" where
  "lc_commit_source env owner v payload now_t j =
     (case lc_validate_operation_id v of
        Inl e \<Rightarrow> (Inl e, j)
      | Inr op \<Rightarrow> lc_then_get env owner op (lc_on_operation op (commit_in env owner op payload now_t) j))"

definition lc_record ::
    "lc_env \<Rightarrow> string \<Rightarrow> pyval \<Rightarrow> pyval \<Rightarrow> pyval \<Rightarrow> int \<Rightarrow> int \<Rightarrow> lc_journal \<Rightarrow> (lc_error + lc_operation) \<times> lc_journal" where
  "lc_record env owner event_name payload handler_keys prepared_t committed_t j =
     (case lc_prepare env owner event_name payload handler_keys prepared_t j of
        (Inl e, j1) \<Rightarrow> (Inl e, j1)
      | (Inr o', j1) \<Rightarrow> lc_commit_source env owner (PStr (ev_operation (lop_event o'))) payload committed_t j1)"

definition abort_in :: "lc_env \<Rightarrow> string \<Rightarrow> string \<Rightarrow> string \<Rightarrow> int \<Rightarrow> lc_op_dir \<Rightarrow> (lc_error + unit) \<times> lc_op_dir" where
  "abort_in env owner op error_type now_t d =
     lc_dbind (load_event_in env owner op d) d (\<lambda>e.
       if op_committed d \<noteq> Absent then
         lc_dbind (rbind (lc_read_json_object (op_committed d)) (validate_source_commit env e)) d (\<lambda>_.
           (Inl (LcConflict ''Lifecycle source intent was already committed''), d))
       else if op_aborted d \<noteq> Absent then
         lc_dbind (rbind (lc_read_json_object (op_aborted d)) (validate_source_abort env e)) d (\<lambda>existing.
           if ab_error_type existing = error_type then (Inr (), d)
           else (Inl (LcConflict ''Lifecycle source intent has a different abort outcome''), d))
       else
         lc_dbind (lc_json_bytes env (lc_abort_json op \<lparr>ab_aborted_at = iso_text (lc_doc env) now_t, ab_error_type = error_type\<rparr>)) d
           (\<lambda>aj. (Inr (), d\<lparr>op_aborted := Doc aj\<rparr>)))"

definition lc_abort_source ::
    "lc_env \<Rightarrow> string \<Rightarrow> pyval \<Rightarrow> pyval \<Rightarrow> int \<Rightarrow> lc_journal \<Rightarrow> (lc_error + lc_operation) \<times> lc_journal" where
  "lc_abort_source env owner v error_type now_t j =
     (case rbind (lc_validate_operation_id v) (\<lambda>op.
             rbind (check (lc_error_type_ok error_type) (LcError ''Lifecycle source failure type is invalid'')) (\<lambda>_. Inr op)) of
        Inl e \<Rightarrow> (Inl e, j)
      | Inr op \<Rightarrow> lc_then_get env owner op (lc_on_operation op (abort_in env owner op (str_of error_type) now_t) j))"

section \<open>Attempts\<close>

text \<open>The checks \<open>begin_attempt\<close>, \<open>renew_attempt\<close> and \<open>finish_attempt\<close> share, before they read the attempts;
  \<open>finish_attempt\<close> makes the last two in the other order.\<close>

definition not_committed :: lc_error where
  "not_committed = LcError ''Lifecycle source intent is not committed''"

definition not_registered :: lc_error where
  "not_registered = LcError ''Lifecycle handler is not registered for this event''"

definition registered_attempts ::
    "lc_env \<Rightarrow> string \<Rightarrow> bool \<Rightarrow> string \<Rightarrow> string \<Rightarrow> lc_op_dir \<Rightarrow> lc_error + lc_attempt list" where
  "registered_attempts env owner source_first op h d =
     rbind (load_event_in env owner op d) (\<lambda>e.
     rbind (check (source_first \<or> h \<in> set (ev_handlers e)) not_registered) (\<lambda>_.
     rbind (source_in env e d) (\<lambda>s.
     rbind (check (sr_status s = ''committed'') not_committed) (\<lambda>_.
     rbind (check (h \<in> set (ev_handlers e)) not_registered) (\<lambda>_.
       attempts_in env op h d)))))"

text \<open>Whether an attempt is running and still held at \<open>now\<close>: by its lease, or, without one, by its age.\<close>

definition attempt_held :: "lc_env \<Rightarrow> int \<Rightarrow> int \<Rightarrow> lc_attempt \<Rightarrow> lc_error + bool" where
  "attempt_held env now_t running_lease a =
     (if at_status a \<noteq> ''running'' then Inr False
      else
        (case at_lease a of
           Some (_, expires) \<Rightarrow> rbind (lc_parse_timestamp env (PStr expires)) (\<lambda>t. Inr (now_t < t))
         | None \<Rightarrow> rbind (lc_parse_timestamp env (PStr (at_started_at a))) (\<lambda>t. Inr (now_t - t < running_lease))))"

fun any_held :: "lc_env \<Rightarrow> int \<Rightarrow> int \<Rightarrow> lc_attempt list \<Rightarrow> lc_error + bool" where
  "any_held env now_t running_lease [] = Inr False"
| "any_held env now_t running_lease (a # as) =
     rbind (attempt_held env now_t running_lease a) (\<lambda>b. if b then Inr True else any_held env now_t running_lease as)"

definition max_generation :: "lc_attempt list \<Rightarrow> int" where
  "max_generation as = Max (at_generation ` set as)"

definition handler_entries :: "string \<Rightarrow> lc_op_dir \<Rightarrow> (string \<times> lc_attempt_entry) list" where
  "handler_entries h d = (case map_of (op_attempts d) h of Some (HandlerDir es) \<Rightarrow> es | _ \<Rightarrow> [])"

definition put_attempt :: "string \<Rightarrow> string \<Rightarrow> lc_attempt_dir \<Rightarrow> lc_op_dir \<Rightarrow> lc_op_dir" where
  "put_attempt h aid a d =
     d\<lparr>op_attempts := od_set h (HandlerDir (od_set aid (AttemptDir a) (handler_entries h d))) (op_attempts d)\<rparr>"

text \<open>At most sixteen generated ids are tried; a document that is too large leaves the empty directory of the
  handler behind.\<close>

fun allocate_attempt ::
    "lc_env \<Rightarrow> string \<Rightarrow> string \<Rightarrow> int \<Rightarrow> int \<Rightarrow> int \<Rightarrow> pyval list \<Rightarrow> lc_op_dir \<Rightarrow> (lc_error + string option) \<times> lc_op_dir" where
  "allocate_attempt env op h generation now_t running_lease [] d =
     (Inl (LcConflict ''Could not allocate a unique lifecycle attempt ID''), d)"
| "allocate_attempt env op h generation now_t running_lease (v # vs) d =
     lc_dbind (lc_validate_attempt_id v) d (\<lambda>aid.
       if map_of (handler_entries h d) aid \<noteq> None then allocate_attempt env op h generation now_t running_lease vs d
       else
         (let t = iso_text (lc_doc env) now_t;
              lease = \<lparr>ll_generation = generation, ll_renewed_at = t,
                       ll_expires_at = iso_text (lc_doc env) (now_t + running_lease)\<rparr>
          in lc_dbind (rbind (lc_json_bytes env (lc_start_json op h aid t)) (\<lambda>sj.
                       rbind (lc_json_bytes env (lc_lease_json op h aid lease)) (\<lambda>lj. Inr (sj, lj))))
               (d\<lparr>op_attempts := od_set h (HandlerDir (handler_entries h d)) (op_attempts d)\<rparr>) (\<lambda>(sj, lj).
               (Inr (Some aid),
                put_attempt h aid \<lparr>la_started = Doc sj, la_lease_file = Doc lj, la_outcome = Absent\<rparr> d))))"

definition begin_in ::
    "lc_env \<Rightarrow> string \<Rightarrow> string \<Rightarrow> string \<Rightarrow> int \<Rightarrow> pyval list \<Rightarrow> int \<Rightarrow> lc_op_dir
      \<Rightarrow> (lc_error + string option) \<times> lc_op_dir" where
  "begin_in env owner op h running_lease ids now_t d =
     lc_dbind (registered_attempts env owner True op h d) d (\<lambda>as.
       if list_ex (\<lambda>a. at_status a = ''succeeded'') as then (Inr None, d)
       else if lc_max_attempts \<le> length as then (Inl (LcError ''Lifecycle handler retry count exceeds the limit''), d)
       else
         lc_dbind (any_held env now_t running_lease as) d (\<lambda>held.
           if held then (Inr None, d)
           else
             (let generation = (if as = [] then 1 else max_generation as + 1)
              in if int lc_max_attempts < generation
                 then (Inl (LcError ''Lifecycle handler retry count exceeds the limit''), d)
                 else allocate_attempt env op h generation now_t running_lease (take 16 ids) d)))"

definition lc_begin_attempt ::
    "lc_env \<Rightarrow> string \<Rightarrow> pyval \<Rightarrow> pyval \<Rightarrow> int \<Rightarrow> pyval list \<Rightarrow> int \<Rightarrow> lc_journal
      \<Rightarrow> (lc_error + string option) \<times> lc_journal" where
  "lc_begin_attempt env owner v k running_lease ids now_t j =
     (case rbind (lc_validate_operation_id v) (\<lambda>op.
             rbind (validate_lifecycle_handler_key k) (\<lambda>h.
             rbind (check (0 \<le> running_lease) (LcError ''Lifecycle running-attempt lease is invalid'')) (\<lambda>_. Inr (op, h)))) of
        Inl e \<Rightarrow> (Inl e, j)
      | Inr (op, h) \<Rightarrow> lc_on_operation op (begin_in env owner op h running_lease ids now_t) j)"

definition find_attempt :: "string \<Rightarrow> lc_attempt list \<Rightarrow> lc_error + lc_attempt" where
  "find_attempt aid as =
     (case find (\<lambda>a. at_id a = aid) as of
        None \<Rightarrow> Inl (LcError ''Lifecycle handler attempt was not found'')
      | Some a \<Rightarrow> Inr a)"

definition attempt_files :: "string \<Rightarrow> string \<Rightarrow> lc_op_dir \<Rightarrow> lc_attempt_dir" where
  "attempt_files h aid d =
     (case map_of (handler_entries h d) aid of
        Some (AttemptDir a) \<Rightarrow> a
      | _ \<Rightarrow> \<lparr>la_started = Absent, la_lease_file = Absent, la_outcome = Absent\<rparr>)"

definition renew_attempt_in ::
    "lc_env \<Rightarrow> string \<Rightarrow> string \<Rightarrow> string \<Rightarrow> string \<Rightarrow> int \<Rightarrow> int \<Rightarrow> lc_op_dir \<Rightarrow> (lc_error + lc_lease) \<times> lc_op_dir" where
  "renew_attempt_in env owner op h aid lease_duration now_t d =
     lc_dbind (registered_attempts env owner True op h d) d (\<lambda>as.
     lc_dbind (find_attempt aid as) d (\<lambda>current.
       if at_status current \<noteq> ''running'' \<or> at_generation current \<noteq> max_generation as
          \<or> list_ex (\<lambda>a. at_status a = ''succeeded'') as
       then (Inl (LcConflict ''Lifecycle handler attempt no longer owns its lease''), d)
       else
         (let lease = \<lparr>ll_generation = at_generation current, ll_renewed_at = iso_text (lc_doc env) now_t,
                       ll_expires_at = iso_text (lc_doc env) (now_t + lease_duration)\<rparr>
          in lc_dbind (lc_json_bytes env (lc_lease_json op h aid lease)) d (\<lambda>lj.
               (Inr lease, put_attempt h aid ((attempt_files h aid d)\<lparr>la_lease_file := Doc lj\<rparr>) d)))))"

definition lc_renew_attempt ::
    "lc_env \<Rightarrow> string \<Rightarrow> pyval \<Rightarrow> pyval \<Rightarrow> pyval \<Rightarrow> int \<Rightarrow> int \<Rightarrow> lc_journal \<Rightarrow> (lc_error + lc_lease) \<times> lc_journal" where
  "lc_renew_attempt env owner v k a lease_duration now_t j =
     (case rbind (lc_validate_operation_id v) (\<lambda>op.
             rbind (validate_lifecycle_handler_key k) (\<lambda>h.
             rbind (lc_validate_attempt_id a) (\<lambda>aid.
             rbind (check (0 < lease_duration) (LcError ''Lifecycle attempt lease duration is invalid'')) (\<lambda>_.
               Inr (op, h, aid))))) of
        Inl e \<Rightarrow> (Inl e, j)
      | Inr (op, h, aid) \<Rightarrow> lc_on_operation op (renew_attempt_in env owner op h aid lease_duration now_t) j)"

definition finish_attempt_in ::
    "lc_env \<Rightarrow> string \<Rightarrow> string \<Rightarrow> string \<Rightarrow> string \<Rightarrow> lc_outcome \<Rightarrow> lc_op_dir \<Rightarrow> (lc_error + unit) \<times> lc_op_dir" where
  "finish_attempt_in env owner op h aid u d =
     lc_dbind (registered_attempts env owner False op h d) d (\<lambda>as.
     lc_dbind (find_attempt aid as) d (\<lambda>current.
       if at_status current \<noteq> ''running'' then
         lc_dbind (rbind (lc_read_json_object (la_outcome (attempt_files h aid d))) (validate_attempt_outcome env op h aid)) d
           (\<lambda>existing.
             if lo_status existing = lo_status u \<and> lo_error_type existing = lo_error_type u then (Inr (), d)
             else (Inl (LcConflict ''Lifecycle attempt already has a different outcome''), d))
       else if at_generation current \<noteq> max_generation as
               \<or> list_ex (\<lambda>a. at_id a \<noteq> aid \<and> at_status a = ''succeeded'') as
       then (Inl (LcConflict ''Lifecycle handler attempt was superseded''), d)
       else lc_dbind (lc_json_bytes env (lc_outcome_json op h aid u)) d (\<lambda>uj.
              (Inr (), put_attempt h aid ((attempt_files h aid d)\<lparr>la_outcome := Doc uj\<rparr>) d))))"

definition lc_finish_attempt ::
    "lc_env \<Rightarrow> string \<Rightarrow> pyval \<Rightarrow> pyval \<Rightarrow> pyval \<Rightarrow> bool \<Rightarrow> pyval \<Rightarrow> int \<Rightarrow> lc_journal
      \<Rightarrow> (lc_error + lc_operation) \<times> lc_journal" where
  "lc_finish_attempt env owner v k a succeeded error_type now_t j =
     (case rbind (lc_validate_operation_id v) (\<lambda>op.
             rbind (validate_lifecycle_handler_key k) (\<lambda>h.
             rbind (lc_validate_attempt_id a) (\<lambda>aid.
             rbind (check (succeeded \<or> lc_error_type_ok error_type) (LcError ''Lifecycle failure type is invalid'')) (\<lambda>_.
               Inr (op, h, aid))))) of
        Inl e \<Rightarrow> (Inl e, j)
      | Inr (op, h, aid) \<Rightarrow>
          lc_then_get env owner op (lc_on_operation op (finish_attempt_in env owner op h aid
            \<lparr>lo_status = (if succeeded then ''succeeded'' else ''failed''), lo_completed_at = iso_text (lc_doc env) now_t,
             lo_error_type = (if succeeded then None else Some (str_of error_type))\<rparr>) j))"

section \<open>Listing\<close>

definition unfinished :: "lc_operation \<Rightarrow> bool" where
  "unfinished o' \<longleftrightarrow> lop_status o' \<notin> {''succeeded'', ''aborted''}"

definition lc_list :: "lc_env \<Rightarrow> string \<Rightarrow> int \<Rightarrow> bool \<Rightarrow> bool \<Rightarrow> lc_journal \<Rightarrow> lc_error + lc_operation list" where
  "lc_list env owner limit unfinished_only oldest_first j =
     (if \<not> (1 \<le> limit \<and> limit \<le> int lc_max_operations) then Inl (LcError ''Lifecycle list limit is invalid'')
      else
        (case lj_root j of
           RootMissing \<Rightarrow> Inr []
         | RootUnsafe \<Rightarrow> Inl (LcIntegrity ''Lifecycle journal root is unsafe'')
         | RootDir \<Rightarrow>
             (let names = filter (\<lambda>n. take 1 n \<noteq> ''.'') (map fst (lj_entries j))
              in rbind (map_res (\<lambda>n. lc_validate_operation_id (PStr n)) (take lc_max_operations names)) (\<lambda>ops.
                 rbind (check (length names \<le> lc_max_operations)
                          (LcError ''Lifecycle journal scan exceeds the safety limit'')) (\<lambda>_.
                 rbind (map_res (\<lambda>op. lc_get env owner (PStr op) j) ops) (\<lambda>all.
                   let key = (\<lambda>o'. (ev_created_at (lop_event o'), ev_operation (lop_event o')));
                       ordered = (if oldest_first then sort_key key all else sorted_desc key all)
                   in Inr (take (nat limit) (if unfinished_only then filter unfinished ordered else ordered))))))))"

end
