(* ===== verification/LifecycleSafety.thy ===== *)
theory LifecycleSafety
  imports LifecycleJournal
begin

text \<open>
  What every sequence of journal operations keeps: recorded facts, the exclusion of commit and abort, the
  finality of a success, and the fencing of superseded attempts.
\<close>

section \<open>Steps\<close>

inductive lc_step :: "lc_env \<Rightarrow> string \<Rightarrow> lc_journal \<Rightarrow> lc_journal \<Rightarrow> bool" for env owner where
  step_prepare: "lc_step env owner j (snd (lc_prepare env owner n p hs t j))"
| step_commit: "lc_step env owner j (snd (lc_commit_source env owner v p t j))"
| step_abort: "lc_step env owner j (snd (lc_abort_source env owner v e t j))"
| step_begin: "lc_step env owner j (snd (lc_begin_attempt env owner v k l ids t j))"
| step_renew: "lc_step env owner j (snd (lc_renew_attempt env owner v k a l t j))"
| step_finish: "lc_step env owner j (snd (lc_finish_attempt env owner v k a s e t j))"

inductive lc_steps :: "lc_env \<Rightarrow> string \<Rightarrow> lc_journal \<Rightarrow> lc_journal \<Rightarrow> bool" for env owner where
  steps_refl: "lc_steps env owner j j"
| steps_step: "lc_steps env owner j k \<Longrightarrow> lc_step env owner k l \<Longrightarrow> lc_steps env owner j l"

inductive_cases lc_stepE: "lc_step env owner j k"

section \<open>What is kept\<close>

definition lease_gen :: "doc_file \<Rightarrow> pyval" where
  "lease_gen f = (case f of Doc (PDict p) \<Rightarrow> get_key p ''generation'' | _ \<Rightarrow> PNone)"

definition attempt_kept :: "lc_attempt_dir \<Rightarrow> lc_attempt_dir \<Rightarrow> bool" where
  "attempt_kept a b \<longleftrightarrow>
     la_started b = la_started a
     \<and> (la_outcome a \<noteq> Absent \<longrightarrow> la_outcome b = la_outcome a)
     \<and> (la_lease_file a \<noteq> Absent \<longrightarrow> la_lease_file b \<noteq> Absent \<and> lease_gen (la_lease_file b) = lease_gen (la_lease_file a))"

definition entry_kept :: "lc_attempt_entry \<Rightarrow> lc_attempt_entry \<Rightarrow> bool" where
  "entry_kept e f \<longleftrightarrow>
     (case e of UnsafeAttempt \<Rightarrow> f = UnsafeAttempt | AttemptDir a \<Rightarrow> (\<exists>b. f = AttemptDir b \<and> attempt_kept a b))"

definition attempts_kept :: "(string \<times> lc_attempt_entry) list \<Rightarrow> (string \<times> lc_attempt_entry) list \<Rightarrow> bool" where
  "attempts_kept es fs \<longleftrightarrow> (\<forall>aid e. map_of es aid = Some e \<longrightarrow> (\<exists>f. map_of fs aid = Some f \<and> entry_kept e f))"

definition op_kept :: "lc_op_dir \<Rightarrow> lc_op_dir \<Rightarrow> bool" where
  "op_kept d e \<longleftrightarrow>
     op_event e = op_event d \<and> op_prepared e = op_prepared d
     \<and> (op_committed d \<noteq> Absent \<longrightarrow> op_committed e = op_committed d)
     \<and> (op_aborted d \<noteq> Absent \<longrightarrow> op_aborted e = op_aborted d)
     \<and> (op_committed d = Absent \<or> op_aborted d = Absent \<longrightarrow> op_committed e = Absent \<or> op_aborted e = Absent)
     \<and> (\<forall>h es. map_of (op_attempts d) h = Some (HandlerDir es)
          \<longrightarrow> (\<exists>fs. map_of (op_attempts e) h = Some (HandlerDir fs) \<and> attempts_kept es fs))"

definition journal_kept :: "lc_journal \<Rightarrow> lc_journal \<Rightarrow> bool" where
  "journal_kept j k \<longleftrightarrow>
     (\<forall>op d. map_of (lj_entries j) op = Some (OperationDir d)
        \<longrightarrow> (\<exists>e. map_of (lj_entries k) op = Some (OperationDir e) \<and> op_kept d e))
     \<and> (lj_root j = RootDir \<longrightarrow> lj_root k = RootDir) \<and> fst ` set (lj_entries j) \<subseteq> fst ` set (lj_entries k)"

text \<open>Names in the directory of a handler are distinct.\<close>

definition op_wf :: "lc_op_dir \<Rightarrow> bool" where
  "op_wf d \<longleftrightarrow> (\<forall>h es. map_of (op_attempts d) h = Some (HandlerDir es) \<longrightarrow> od_ok es)"

definition lc_wf :: "lc_journal \<Rightarrow> bool" where
  "lc_wf j \<longleftrightarrow> (\<forall>op d. map_of (lj_entries j) op = Some (OperationDir d) \<longrightarrow> op_wf d)"

lemma attempt_kept_refl [simp]: "attempt_kept a a"
  by (simp add: attempt_kept_def)

lemma entry_kept_refl [simp]: "entry_kept e e"
  by (cases e) (simp_all add: entry_kept_def)

lemma attempts_kept_refl [simp]: "attempts_kept es es"
  by (simp add: attempts_kept_def)

lemma op_kept_refl [simp]: "op_kept d d"
  by (simp add: op_kept_def)

lemma attempt_kept_trans: "attempt_kept a b \<Longrightarrow> attempt_kept b c \<Longrightarrow> attempt_kept a c"
  by (auto simp: attempt_kept_def)

lemma entry_kept_trans:
  assumes "entry_kept a b" "entry_kept b c"
  shows "entry_kept a c"
proof (cases a)
  case (AttemptDir x)
  with assms(1) obtain y where y: "b = AttemptDir y" "attempt_kept x y" by (auto simp: entry_kept_def)
  with assms(2) obtain z where "c = AttemptDir z" "attempt_kept y z" by (auto simp: entry_kept_def)
  with y attempt_kept_trans have "attempt_kept x z" by blast
  with \<open>c = AttemptDir z\<close> AttemptDir show ?thesis by (simp add: entry_kept_def)
next
  case UnsafeAttempt
  with assms show ?thesis by (simp add: entry_kept_def)
qed

lemma attempts_kept_trans: "attempts_kept a b \<Longrightarrow> attempts_kept b c \<Longrightarrow> attempts_kept a c"
  unfolding attempts_kept_def by (meson entry_kept_trans)

lemma op_kept_trans:
  assumes "op_kept a b" "op_kept b c"
  shows "op_kept a c"
proof -
  have "\<exists>gs. map_of (op_attempts c) h = Some (HandlerDir gs) \<and> attempts_kept es gs"
    if es: "map_of (op_attempts a) h = Some (HandlerDir es)" for h es
  proof -
    from assms(1) es obtain fs where fs: "map_of (op_attempts b) h = Some (HandlerDir fs)" "attempts_kept es fs"
      unfolding op_kept_def by blast
    with assms(2) obtain gs where "map_of (op_attempts c) h = Some (HandlerDir gs)" "attempts_kept fs gs"
      unfolding op_kept_def by blast
    with fs(2) attempts_kept_trans show ?thesis by blast
  qed
  with assms show ?thesis unfolding op_kept_def by metis
qed

lemma journal_kept_refl [simp]: "journal_kept j j"
  by (simp add: journal_kept_def)

lemma journal_kept_trans:
  assumes "journal_kept a b" "journal_kept b c"
  shows "journal_kept a c"
proof -
  have "\<exists>e. map_of (lj_entries c) op = Some (OperationDir e) \<and> op_kept d e"
    if "map_of (lj_entries a) op = Some (OperationDir d)" for op d
    using assms that op_kept_trans unfolding journal_kept_def by meson
  moreover have "fst ` set (lj_entries a) \<subseteq> fst ` set (lj_entries c)"
    using assms unfolding journal_kept_def by (elim conjE) (rule order_trans)
  ultimately show ?thesis using assms unfolding journal_kept_def by (elim conjE, intro conjI allI impI) simp_all
qed

text \<open>A step on one directory.\<close>

definition dir_step :: "lc_op_dir \<Rightarrow> lc_op_dir \<Rightarrow> bool" where
  "dir_step d e \<longleftrightarrow> op_kept d e \<and> (op_wf d \<longrightarrow> op_wf e)"

lemma dir_step_refl [simp]: "dir_step d d"
  by (simp add: dir_step_def)

lemma lc_dbind_step:
  assumes "\<And>x. m = Inr x \<Longrightarrow> dir_step d (snd (f x))"
  shows "dir_step d (snd (lc_dbind m d f))"
  using assms by (cases m) auto

lemma take_lock_lookup [simp]: "map_of (lj_entries (lc_take_lock j)) op = Some (OperationDir d)
    \<longleftrightarrow> map_of (lj_entries j) op = Some (OperationDir d)"
  by (auto simp: lc_take_lock_def map_add_def split: option.splits if_splits)

lemma take_lock_same [simp]: "lj_root (lc_take_lock j) = lj_root j"
  "fst ` set (lj_entries (lc_take_lock j)) = insert lc_lock_name (fst ` set (lj_entries j))"
  by (auto simp: lc_take_lock_def)

lemma prepare_root_lookup: "lc_prepare_root j = Inr j1 \<Longrightarrow> lj_entries j1 = lj_entries j"
  by (auto simp: lc_prepare_root_def split: root_state.splits)

lemma prepare_root_dir: "lc_prepare_root j = Inr j1 \<Longrightarrow> lj_root j1 = RootDir"
  by (auto simp: lc_prepare_root_def split: root_state.splits)

lemma on_operation_steps:
  assumes "\<And>d. op_wf d \<Longrightarrow> dir_step d (snd (f d))" and "lc_wf j"
  shows "journal_kept j (snd (lc_on_operation op f j)) \<and> lc_wf (snd (lc_on_operation op f j))"
proof (cases "lc_prepare_root j")
  case (Inl e)
  with assms(2) show ?thesis by (simp add: lc_on_operation_def)
next
  case (Inr j1)
  note root = Inr
  let ?j = "lc_take_lock j1"
  note same = prepare_root_lookup [OF Inr]
  have look: "map_of (lj_entries ?j) o' = Some (OperationDir d) \<longleftrightarrow> map_of (lj_entries j) o' = Some (OperationDir d)"
    for o' d using same by simp
  have wf: "lc_wf ?j" using assms(2) by (simp only: lc_wf_def look)
  show ?thesis
  proof (cases "find_operation op ?j")
    case (Inl e)
    then have "snd (lc_on_operation op f j) = ?j"
      using Inr by (simp add: lc_on_operation_def Let_def)
    with wf look same prepare_root_dir [OF Inr] show ?thesis by (auto simp: journal_kept_def)
  next
    case (Inr d)
    then have d: "map_of (lj_entries ?j) op = Some (OperationDir d)"
      by (auto simp: find_operation_def split: option.splits lc_entry.splits)
    obtain r e where fd: "f d = (r, e)" by fastforce
    have res: "snd (lc_on_operation op f j) = ?j\<lparr>lj_entries := od_set op (OperationDir e) (lj_entries ?j)\<rparr>"
      using Inr \<open>lc_prepare_root j = Inr j1\<close> fd by (simp add: lc_on_operation_def Let_def)
    have "op_wf d" using wf d by (auto simp: lc_wf_def)
    with assms(1) fd have "op_kept d e" "op_wf e" by (auto simp: dir_step_def) force+
    with d look wf same prepare_root_dir [OF root] show ?thesis unfolding res by (auto simp: journal_kept_def lc_wf_def)
  qed
qed

section \<open>Attempts that were read\<close>

lemma map_res_mem: "map_res f xs = Inr ys \<Longrightarrow> x \<in> set xs \<Longrightarrow> \<exists>y \<in> set ys. f x = Inr y"
  by (induction xs arbitrary: ys) (auto simp: res_simps)

lemma map_res_mem_rev: "map_res f xs = Inr ys \<Longrightarrow> y \<in> set ys \<Longrightarrow> \<exists>x \<in> set xs. f x = Inr y"
  by (induction xs arbitrary: ys) (auto simp: res_simps)

lemma lc_id_Inr: "lc_id re msg (PStr s) = Inr t \<Longrightarrow> t = s"
  by (auto simp: lc_id_def split: if_splits)

lemma loaded_attempt:
  assumes "load_attempt env op h (aid, AttemptDir a) = Inr v"
  shows "at_id v = aid" and "at_status v = ''running'' \<longleftrightarrow> la_outcome a = Absent"
    and "la_lease_file a \<noteq> Absent \<longleftrightarrow> at_lease v \<noteq> None"
    and "at_lease v \<noteq> None \<Longrightarrow> lease_gen (la_lease_file a) = PInt (at_generation v)"
    and "at_lease v = Some (r, x) \<Longrightarrow> \<exists>l. rbind (lc_read_json_object (la_lease_file a)) (validate_attempt_lease env op h aid) = Inr l
          \<and> r = ll_renewed_at l \<and> x = ll_expires_at l"
proof -
  obtain aid' started lease outcome where v: "lc_validate_attempt_id (PStr aid) = Inr aid'"
    and l: "(if la_lease_file a = Absent then Inr None
        else rbind (rbind (lc_read_json_object (la_lease_file a)) (validate_attempt_lease env op h aid')) (\<lambda>l. Inr (Some l)))
        = Inr lease"
    and u: "(if la_outcome a = Absent then Inr None
        else rbind (rbind (lc_read_json_object (la_outcome a)) (validate_attempt_outcome env op h aid')) (\<lambda>u. Inr (Some u)))
        = Inr outcome"
    and res: "v = \<lparr>at_id = aid', at_started_at = started, at_completed_at = map_option lo_completed_at outcome,
        at_status = (case outcome of None \<Rightarrow> ''running'' | Some u \<Rightarrow> lo_status u),
        at_error_type = (case outcome of None \<Rightarrow> None | Some u \<Rightarrow> lo_error_type u),
        at_generation = (case lease of None \<Rightarrow> 0 | Some l \<Rightarrow> ll_generation l),
        at_lease = map_option (\<lambda>l. (ll_renewed_at l, ll_expires_at l)) lease\<rparr>"
    using assms by (auto simp: load_attempt_def res_simps)
  have aid: "aid' = aid" using v by (auto simp: lc_validate_attempt_id_def dest: lc_id_Inr)
  show "at_id v = aid" by (simp add: res aid)
  have "lo_status w \<noteq> ''running''" if "validate_attempt_outcome env op h aid' p = Inr w" for p w
    using that by (auto simp: validate_attempt_outcome_def Let_def str_of_def res_simps split: if_splits)
  with u res show "at_status v = ''running'' \<longleftrightarrow> la_outcome a = Absent"
    by (auto simp: res_simps split: if_splits)
  from l res show "la_lease_file a \<noteq> Absent \<longleftrightarrow> at_lease v \<noteq> None"
    by (auto simp: res_simps split: if_splits)
  have gen: "get_key p ''generation'' = PInt (ll_generation w)" if "validate_attempt_lease env op h aid' p = Inr w" for p w
    using that by (auto simp: validate_attempt_lease_def Let_def int_of_def res_simps split: if_splits pyval.splits)
  show "lease_gen (la_lease_file a) = PInt (at_generation v)" if "at_lease v \<noteq> None"
    using that l res gen
    by (auto simp: lease_gen_def lc_read_json_object_def res_simps split: if_splits doc_file.splits pyval.splits)
  show "\<exists>l. rbind (lc_read_json_object (la_lease_file a)) (validate_attempt_lease env op h aid) = Inr l
      \<and> r = ll_renewed_at l \<and> x = ll_expires_at l" if "at_lease v = Some (r, x)"
    using that l res aid by (auto simp: res_simps split: if_splits)
qed

text \<open>Filling in generations changes only attempts without a lease.\<close>

lemma fill_generations_kept:
  "fill_generations used n as = Inr bs \<Longrightarrow>
    map (\<lambda>a. a\<lparr>at_generation := 0\<rparr>) bs = map (\<lambda>a. a\<lparr>at_generation := 0\<rparr>) as
    \<and> (\<forall>i < length as. at_lease (as ! i) \<noteq> None \<longrightarrow> bs ! i = as ! i)"
proof (induction used n as arbitrary: bs rule: fill_generations.induct)
  case (1 used n)
  then show ?case by simp
next
  case (2 used n a as)
  show ?case
  proof (cases "at_lease a \<noteq> None")
    case True
    with 2 show ?thesis by (auto simp: res_simps nth_Cons split: nat.splits)
  next
    case False
    with 2 show ?thesis by (auto simp: res_simps Let_def nth_Cons split: nat.splits if_splits)
  qed
qed

text \<open>Two attempts that differ at most in the generation, and in that only without a lease.\<close>

definition same_attempt :: "lc_attempt \<Rightarrow> lc_attempt \<Rightarrow> bool" where
  "same_attempt a b \<longleftrightarrow> a\<lparr>at_generation := 0\<rparr> = b\<lparr>at_generation := 0\<rparr> \<and> (at_lease a \<noteq> None \<longrightarrow> b = a)"

lemma filled_same:
  assumes "fill_generations used n as = Inr bs"
  shows "\<forall>a \<in> set as. \<exists>b \<in> set bs. same_attempt a b" and "\<forall>b \<in> set bs. \<exists>a \<in> set as. same_attempt a b"
proof -
  note k = fill_generations_kept [OF assms]
  then have len: "length bs = length as" by (metis length_map)
  have "same_attempt (as ! i) (bs ! i)" if "i < length as" for i
    using k that len by (auto simp: same_attempt_def) (metis nth_map)
  with len show "\<forall>a \<in> set as. \<exists>b \<in> set bs. same_attempt a b" and "\<forall>b \<in> set bs. \<exists>a \<in> set as. same_attempt a b"
    by (metis in_set_conv_nth)+
qed

lemma attempts_read:
  assumes "attempts_in env op h d = Inr as"
  shows "\<forall>x \<in> set (handler_entries h d). \<exists>v w. load_attempt env op h x = Inr v \<and> same_attempt v w \<and> w \<in> set as"
    and "\<forall>w \<in> set as. \<exists>x v. x \<in> set (handler_entries h d) \<and> load_attempt env op h x = Inr v \<and> same_attempt v w"
    and "map_of (op_attempts d) h \<noteq> Some UnsafeHandler"
proof -
  show safe: "map_of (op_attempts d) h \<noteq> Some UnsafeHandler"
    using assms by (auto simp: attempts_in_def)
  have "(\<forall>x \<in> set (handler_entries h d). \<exists>v w. load_attempt env op h x = Inr v \<and> same_attempt v w \<and> w \<in> set as)
      \<and> (\<forall>w \<in> set as. \<exists>x v. x \<in> set (handler_entries h d) \<and> load_attempt env op h x = Inr v \<and> same_attempt v w)"
  proof (cases "map_of (op_attempts d) h")
    case None
    with assms show ?thesis by (simp add: attempts_in_def handler_entries_def)
  next
    case (Some e)
    with safe obtain es where e: "map_of (op_attempts d) h = Some (HandlerDir es)" by (cases e) auto
    then have entries: "handler_entries h d = es" by (simp add: handler_entries_def)
    from assms e obtain loaded filled where
      l: "map_res (load_attempt env op h) (take lc_max_attempts es) = Inr loaded" "length es \<le> lc_max_attempts"
      and f: "fill_generations (map at_generation (filter (\<lambda>a. at_lease a \<noteq> None)
          (sort_key (\<lambda>a. (at_started_at a, at_id a)) loaded))) 1 (sort_key (\<lambda>a. (at_started_at a, at_id a)) loaded) = Inr filled"
      and as: "set as = set filled"
      by (auto simp: attempts_in_def Let_def res_simps split: if_splits)
    from l have l': "map_res (load_attempt env op h) es = Inr loaded" by simp
    note fs = filled_same [OF f]
    show ?thesis unfolding entries as
    proof (intro conjI ballI)
      fix x
      assume "x \<in> set es"
      then obtain v where v: "v \<in> set loaded" "load_attempt env op h x = Inr v" using map_res_mem [OF l'] by blast
      with fs(1) obtain w where "w \<in> set filled" "same_attempt v w" by fastforce
      with v show "\<exists>v w. load_attempt env op h x = Inr v \<and> same_attempt v w \<and> w \<in> set filled" by blast
    next
      fix w
      assume "w \<in> set filled"
      with fs(2) obtain v where v: "v \<in> set loaded" "same_attempt v w" by fastforce
      then obtain x where "x \<in> set es" "load_attempt env op h x = Inr v" using map_res_mem_rev [OF l'] by blast
      with v show "\<exists>x v. x \<in> set es \<and> load_attempt env op h x = Inr v \<and> same_attempt v w" by blast
    qed
  qed
  then show "\<forall>x \<in> set (handler_entries h d). \<exists>v w. load_attempt env op h x = Inr v \<and> same_attempt v w \<and> w \<in> set as"
    and "\<forall>w \<in> set as. \<exists>x v. x \<in> set (handler_entries h d) \<and> load_attempt env op h x = Inr v \<and> same_attempt v w"
    by simp_all
qed

lemma same_attempt_fields:
  assumes "same_attempt v w"
  shows "at_id w = at_id v" "at_status w = at_status v" "at_lease w = at_lease v" "at_started_at w = at_started_at v"
    and "at_lease v \<noteq> None \<Longrightarrow> at_generation w = at_generation v"
proof -
  have "v\<lparr>at_generation := 0\<rparr> = w\<lparr>at_generation := 0\<rparr>" using assms by (simp add: same_attempt_def)
  then have "at_id (v\<lparr>at_generation := 0\<rparr>) = at_id (w\<lparr>at_generation := 0\<rparr>)"
    "at_status (v\<lparr>at_generation := 0\<rparr>) = at_status (w\<lparr>at_generation := 0\<rparr>)"
    "at_lease (v\<lparr>at_generation := 0\<rparr>) = at_lease (w\<lparr>at_generation := 0\<rparr>)"
    "at_started_at (v\<lparr>at_generation := 0\<rparr>) = at_started_at (w\<lparr>at_generation := 0\<rparr>)" by metis+
  then show "at_id w = at_id v" "at_status w = at_status v" "at_lease w = at_lease v" "at_started_at w = at_started_at v"
    by simp_all
  show "at_generation w = at_generation v" if "at_lease v \<noteq> None" using assms that by (simp add: same_attempt_def)
qed

section \<open>One directory\<close>

lemma load_attempt_dir: "load_attempt env op h (aid, e) = Inr v \<Longrightarrow> \<exists>a. e = AttemptDir a"
  by (cases e) (auto simp: load_attempt_def res_simps)

lemma registered_read:
  assumes "registered_attempts env owner b op h d = Inr as"
  shows "attempts_in env op h d = Inr as"
  using assms by (auto simp: registered_attempts_def res_simps)

lemma handler_entries_ok: "op_wf d \<Longrightarrow> od_ok (handler_entries h d)"
  by (auto simp: op_wf_def handler_entries_def split: option.splits lc_handler_entry.splits)

text \<open>The attempt an operation found is a directory, and was read from it.\<close>

lemma found_attempt:
  assumes "attempts_in env op h d = Inr as" and "w \<in> set as" and "op_wf d"
  obtains a v where "map_of (handler_entries h d) (at_id w) = Some (AttemptDir a)"
    and "load_attempt env op h (at_id w, AttemptDir a) = Inr v" and "same_attempt v w"
    and "at_status w = ''running'' \<longleftrightarrow> la_outcome a = Absent"
    and "la_lease_file a \<noteq> Absent \<longleftrightarrow> at_lease w \<noteq> None"
    and "at_lease w \<noteq> None \<Longrightarrow> lease_gen (la_lease_file a) = PInt (at_generation w)"
proof -
  from attempts_read(2) [OF assms(1)] assms(2) obtain x v where
    x: "x \<in> set (handler_entries h d)" "load_attempt env op h x = Inr v" "same_attempt v w" by blast
  obtain aid e where "x = (aid, e)" by fastforce
  with x(2) load_attempt_dir obtain a where a: "x = (aid, AttemptDir a)" by blast
  note la = loaded_attempt [OF x(2) [unfolded a]]
  note sa = same_attempt_fields [OF x(3)]
  have "map_of (handler_entries h d) aid = Some (AttemptDir a)"
    using x(1) a handler_entries_ok [OF assms(3)] by (auto intro: map_of_is_SomeI)
  with la sa x a show ?thesis by (intro that) (simp_all add: la(1))
qed

lemma find_attempt_mem: "find_attempt aid as = Inr w \<Longrightarrow> w \<in> set as \<and> at_id w = aid"
  by (auto simp: find_attempt_def find_Some_iff split: option.splits)

lemma handler_entries_put [simp]:
  "handler_entries h (put_attempt h' aid a d)
    = (if h = h' then od_set aid (AttemptDir a) (handler_entries h d) else handler_entries h d)"
  by (simp add: handler_entries_def put_attempt_def)

lemma put_attempt_step:
  assumes "\<And>e. map_of (handler_entries h d) aid = Some e \<Longrightarrow> entry_kept e (AttemptDir b)"
  shows "dir_step d (put_attempt h aid b d)"
  using assms
  by (auto simp: dir_step_def op_kept_def put_attempt_def handler_entries_def attempts_kept_def op_wf_def
      split: option.splits lc_handler_entry.splits)

lemma commit_in_step: "dir_step d (snd (commit_in env owner op p t d))"
  unfolding commit_in_def
  by (intro lc_dbind_step) (auto simp: Let_def dir_step_def op_kept_def op_wf_def lc_dbind_def split: sum.splits)

lemma abort_in_step: "dir_step d (snd (abort_in env owner op e t d))"
  unfolding abort_in_def
  by (intro lc_dbind_step) (auto simp: dir_step_def op_kept_def op_wf_def lc_dbind_def split: sum.splits)

lemma touch_handler_step: "dir_step d (d\<lparr>op_attempts := od_set h (HandlerDir (handler_entries h d)) (op_attempts d)\<rparr>)"
  by (auto simp: dir_step_def op_kept_def handler_entries_def op_wf_def split: option.splits lc_handler_entry.splits)

lemma allocate_attempt_step: "dir_step d (snd (allocate_attempt env op h g t l ids d))"
proof (induction ids)
  case (Cons v vs)
  then show ?case
    unfolding allocate_attempt.simps
    by (intro lc_dbind_step)
      (auto simp: Let_def lc_dbind_def touch_handler_step split: sum.splits intro!: put_attempt_step)
qed simp

lemma begin_in_step: "dir_step d (snd (begin_in env owner op h l ids t d))"
  unfolding begin_in_def
  by (intro lc_dbind_step) (auto simp: Let_def intro!: lc_dbind_step allocate_attempt_step)

lemma lease_gen_json: "lc_json_bytes env (lc_lease_json op h aid l) = Inr x \<Longrightarrow> lease_gen (Doc x) = PInt (ll_generation l)"
  by (auto simp: lc_json_bytes_def lc_lease_json_def lease_gen_def get_key_def res_simps split: if_splits)

lemma attempt_files_found: "map_of (handler_entries h d) aid = Some (AttemptDir a) \<Longrightarrow> attempt_files h aid d = a"
  by (simp add: attempt_files_def)

lemma renew_attempt_in_step:
  assumes wf: "op_wf d"
  shows "dir_step d (snd (renew_attempt_in env owner op h aid l t d))"
  unfolding renew_attempt_in_def
proof (intro lc_dbind_step)
  fix as w
  assume as: "registered_attempts env owner True op h d = Inr as" and w: "find_attempt aid as = Inr w"
  note w' = find_attempt_mem [OF w]
  obtain a v where a: "map_of (handler_entries h d) (at_id w) = Some (AttemptDir a)"
    and lease: "la_lease_file a \<noteq> Absent \<longleftrightarrow> at_lease w \<noteq> None"
    and gen: "at_lease w \<noteq> None \<Longrightarrow> lease_gen (la_lease_file a) = PInt (at_generation w)"
    using found_attempt [OF registered_read [OF as] conjunct1 [OF w'] wf] by metis
  have step: "dir_step d (put_attempt h aid ((attempt_files h aid d)\<lparr>la_lease_file := Doc lj\<rparr>) d)"
    if "lc_json_bytes env (lc_lease_json op h aid \<lparr>ll_generation = at_generation w, ll_renewed_at = r, ll_expires_at = x\<rparr>)
      = Inr lj" for lj r x
    using a w' lease gen lease_gen_json [OF that]
    by (intro put_attempt_step) (auto simp: attempt_files_found entry_kept_def attempt_kept_def)
  show "dir_step d (snd (if at_status w \<noteq> ''running'' \<or> at_generation w \<noteq> max_generation as
          \<or> list_ex (\<lambda>a. at_status a = ''succeeded'') as
       then (Inl (LcConflict ''Lifecycle handler attempt no longer owns its lease''), d)
       else
         (let lease = \<lparr>ll_generation = at_generation w, ll_renewed_at = iso_text (lc_doc env) t,
                       ll_expires_at = iso_text (lc_doc env) (t + l)\<rparr>
          in lc_dbind (lc_json_bytes env (lc_lease_json op h aid lease)) d (\<lambda>lj.
               (Inr lease, put_attempt h aid ((attempt_files h aid d)\<lparr>la_lease_file := Doc lj\<rparr>) d)))))"
    by (simp add: Let_def lc_dbind_step step)
qed

lemma finish_attempt_in_step:
  assumes wf: "op_wf d"
  shows "dir_step d (snd (finish_attempt_in env owner op h aid u d))"
  unfolding finish_attempt_in_def
proof (intro lc_dbind_step)
  fix as w
  assume as: "registered_attempts env owner False op h d = Inr as" and w: "find_attempt aid as = Inr w"
  note w' = find_attempt_mem [OF w]
  obtain a v where a: "map_of (handler_entries h d) (at_id w) = Some (AttemptDir a)"
    and run: "at_status w = ''running'' \<longleftrightarrow> la_outcome a = Absent"
    using found_attempt [OF registered_read [OF as] conjunct1 [OF w'] wf] by metis
  have step: "dir_step d (put_attempt h aid ((attempt_files h aid d)\<lparr>la_outcome := Doc uj\<rparr>) d)"
    if "at_status w = ''running''" for uj
    using a w' run that by (intro put_attempt_step) (auto simp: attempt_files_found entry_kept_def attempt_kept_def)
  show "dir_step d (snd (if at_status w \<noteq> ''running'' then
         lc_dbind (rbind (lc_read_json_object (la_outcome (attempt_files h aid d))) (validate_attempt_outcome env op h aid)) d
           (\<lambda>existing.
             if lo_status existing = lo_status u \<and> lo_error_type existing = lo_error_type u then (Inr (), d)
             else (Inl (LcConflict ''Lifecycle attempt already has a different outcome''), d))
       else if at_generation w \<noteq> max_generation as
               \<or> list_ex (\<lambda>a. at_id a \<noteq> aid \<and> at_status a = ''succeeded'') as
       then (Inl (LcConflict ''Lifecycle handler attempt was superseded''), d)
       else lc_dbind (lc_json_bytes env (lc_outcome_json op h aid u)) d (\<lambda>uj.
              (Inr (), put_attempt h aid ((attempt_files h aid d)\<lparr>la_outcome := Doc uj\<rparr>) d))))"
    by (auto intro!: lc_dbind_step step)
qed

section \<open>The journal\<close>

lemma new_operation_steps:
  assumes "lc_wf j" and "map_of (lj_entries j) op = None" and "op_attempts d = []"
  shows "journal_kept j (j\<lparr>lj_entries := lj_entries j @ [(op, OperationDir d)]\<rparr>)
    \<and> lc_wf (j\<lparr>lj_entries := lj_entries j @ [(op, OperationDir d)]\<rparr>)"
  using assms by (auto simp: journal_kept_def lc_wf_def op_wf_def map_add_def split: option.splits if_splits)

lemma take_lock_steps: "lc_wf j \<Longrightarrow> journal_kept j (lc_take_lock j) \<and> lc_wf (lc_take_lock j)"
  by (auto simp: journal_kept_def lc_wf_def)

lemma prepare_root_steps:
  "lc_prepare_root j = Inr k \<Longrightarrow> lc_wf j \<Longrightarrow> journal_kept j k \<and> lc_wf k"
  by (simp add: journal_kept_def lc_wf_def prepare_root_lookup prepare_root_dir)

lemma prepare_steps:
  assumes wf: "lc_wf j"
  shows "journal_kept j (snd (lc_prepare env owner n p hs t j)) \<and> lc_wf (snd (lc_prepare env owner n p hs t j))"
proof (cases "rbind (lc_new_event env owner n p hs t) (\<lambda>e. rbind (lc_prepare_root j) (\<lambda>j1.
    rbind (lc_validate_operation_id (PStr (ev_operation e))) (\<lambda>op. Inr (e, op, j1))))")
  case (Inl e)
  with wf show ?thesis by (simp add: lc_prepare_def)
next
  case (Inr r)
  obtain e op j1 where r: "r = (e, op, j1)" by (metis prod_cases3)
  with Inr have "lc_prepare_root j = Inr j1" by (auto simp: res_simps)
  with wf have k1: "journal_kept j (lc_take_lock j1)" and w1: "lc_wf (lc_take_lock j1)"
    using prepare_root_steps take_lock_steps journal_kept_trans by meson+
  show ?thesis
    using k1 w1 new_operation_steps [OF w1, of op] journal_kept_trans [OF k1]
    by (auto simp: lc_prepare_def Inr r Let_def split: sum.splits)
qed

lemma lc_step_kept:
  assumes "lc_step env owner j k" and wf: "lc_wf j"
  shows "journal_kept j k \<and> lc_wf k"
proof -
  let ?P = "\<lambda>k. journal_kept j k \<and> lc_wf k"
  note on = on_operation_steps [OF _ wf, of "f :: lc_op_dir \<Rightarrow> (lc_error + 'a) \<times> lc_op_dir" for f]
  have j: "?P j" using wf by simp
  from assms(1) show ?thesis
  proof (cases rule: lc_step.cases)
    case step_prepare
    with wf prepare_steps show ?thesis by simp
  next
    case (step_commit v p t)
    then show ?thesis using j on [OF commit_in_step]
      by (simp add: lc_commit_source_def lc_then_get_def split: sum.splits)
  next
    case (step_abort v e t)
    then show ?thesis using j on [OF abort_in_step]
      by (simp add: lc_abort_source_def lc_then_get_def split: sum.splits prod.splits)
  next
    case (step_begin v k l ids t)
    then show ?thesis using j on [OF begin_in_step]
      by (simp add: lc_begin_attempt_def split: sum.splits prod.splits)
  next
    case (step_renew v k a l t)
    then show ?thesis using j on [OF renew_attempt_in_step]
      by (simp add: lc_renew_attempt_def split: sum.splits prod.splits)
  next
    case (step_finish v k a s e t)
    then show ?thesis using j on [OF finish_attempt_in_step]
      by (simp add: lc_finish_attempt_def lc_then_get_def split: sum.splits prod.splits)
  qed
qed

lemma lc_steps_kept:
  assumes "lc_steps env owner j k" and "lc_wf j"
  shows "journal_kept j k \<and> lc_wf k"
  using assms
proof (induction rule: lc_steps.induct)
  case (steps_step j k l)
  then show ?case using lc_step_kept journal_kept_trans by blast
qed simp

text \<open>A journal that was used once has its directory and its lock file.\<close>

definition lj_ready :: "lc_journal \<Rightarrow> bool" where
  "lj_ready j \<longleftrightarrow> lj_root j = RootDir \<and> lc_lock_name \<in> fst ` set (lj_entries j)"

lemma ready_prepare_root: "lj_ready j \<Longrightarrow> lc_prepare_root j = Inr j"
  by (simp add: lj_ready_def lc_prepare_root_def)

lemma ready_take_lock: "lj_ready j \<Longrightarrow> lc_take_lock j = j"
  by (simp add: lj_ready_def lc_take_lock_def)

lemma ready_kept: "journal_kept j k \<Longrightarrow> lj_ready j \<Longrightarrow> lj_ready k"
  by (auto simp: journal_kept_def lj_ready_def)

lemma od_set_same: "map_of d k = Some v \<Longrightarrow> od_set k v d = d"
  by (induction d) (auto split: if_splits)

text \<open>An operation on a journal that is in use.\<close>

lemma on_operation_ready:
  assumes "lj_ready j"
  shows "lc_on_operation op f j
    = (case find_operation op j of
         Inl e \<Rightarrow> (Inl e, j)
       | Inr d \<Rightarrow> (case f d of (r, d') \<Rightarrow> (r, j\<lparr>lj_entries := od_set op (OperationDir d') (lj_entries j)\<rparr>)))"
  using assms by (simp add: lc_on_operation_def ready_prepare_root ready_take_lock Let_def)

lemma on_operation_Inr:
  assumes "lc_on_operation op f j = (Inr r, k)"
  obtains d d' where "map_of (lj_entries j) op = Some (OperationDir d)" and "f d = (Inr r, d')"
    and "map_of (lj_entries k) op = Some (OperationDir d')" and "lj_ready k"
proof (cases "lc_prepare_root j")
  case (Inl e)
  with assms show ?thesis by (simp add: lc_on_operation_def)
next
  case (Inr j1)
  with assms obtain d where d: "find_operation op (lc_take_lock j1) = Inr d"
    by (auto simp: lc_on_operation_def Let_def split: sum.splits)
  obtain r' d' where f: "f d = (r', d')" by fastforce
  from assms Inr d f have k: "r' = Inr r"
    "k = (lc_take_lock j1)\<lparr>lj_entries := od_set op (OperationDir d') (lj_entries (lc_take_lock j1))\<rparr>"
    by (auto simp: lc_on_operation_def Let_def)
  from d have "map_of (lj_entries (lc_take_lock j1)) op = Some (OperationDir d)"
    by (auto simp: find_operation_def split: option.splits lc_entry.splits)
  then have "map_of (lj_entries j) op = Some (OperationDir d)"
    using prepare_root_lookup [OF Inr] by simp
  with f k prepare_root_dir [OF Inr] show ?thesis by (intro that) (auto simp: lj_ready_def)
qed

end
