(* ===== verification/LifecycleFencing.thy ===== *)
theory LifecycleFencing
  imports LifecycleSafety "HOL-Library.Code_Target_Nat"
begin

text \<open>
  What the lifecycle journal promises its users: recorded facts stay, a retried preparation finds the same
  operation, a takeover waits for the lease, a superseded attempt changes nothing, and a success is final.
\<close>

section \<open>A journal for the witnesses\<close>

text \<open>Timestamps in unary and a constant digest: enough to run every operation.\<close>

definition unary_env :: lc_env where
  "unary_env = \<lparr>lc_doc = \<lparr>json_len = (\<lambda>_. 200), iso_text = (\<lambda>t. replicate (nat t) CHR ''x''),
     iso_parse = (\<lambda>s. Some (Aware (int (length s))))\<rparr>,
     lc_digest = (\<lambda>_. replicate 64 CHR ''0''), lc_canonical_len = (\<lambda>_. 100)\<rparr>"

definition unary_op :: string where "unary_op = ''lco_'' @ replicate 32 CHR ''0''"
definition unary_a :: string where "unary_a = ''lca_'' @ replicate 32 CHR ''a''"
definition unary_b :: string where "unary_b = ''lca_'' @ replicate 32 CHR ''b''"

definition unary_payload :: pyval where "unary_payload = PDict [(PStr ''thread_id'', PStr ''t'')]"

definition unary_empty :: lc_journal where
  "unary_empty = \<lparr>lj_root = RootMissing, lj_entries = []\<rparr>"

definition unary_prepared :: lc_journal where
  "unary_prepared = snd (lc_prepare unary_env ''u'' (PStr ''thread_deleted'') unary_payload (PList [PStr ''h'']) 0 unary_empty)"

definition unary_committed :: lc_journal where
  "unary_committed = snd (lc_commit_source unary_env ''u'' (PStr unary_op) unary_payload 1 unary_prepared)"

definition unary_started :: lc_journal where
  "unary_started = snd (lc_begin_attempt unary_env ''u'' (PStr unary_op) (PStr ''h'') 5 [PStr unary_a] 2 unary_committed)"

definition unary_taken :: lc_journal where
  "unary_taken = snd (lc_begin_attempt unary_env ''u'' (PStr unary_op) (PStr ''h'') 5 [PStr unary_b] 9 unary_started)"

definition is_Inr :: "'a + 'b \<Rightarrow> bool" where
  "is_Inr x = (case x of Inl _ \<Rightarrow> False | Inr _ \<Rightarrow> True)"

lemma is_Inr_iff: "is_Inr x \<longleftrightarrow> (\<exists>y. x = Inr y)"
  by (cases x) (simp_all add: is_Inr_def)

lemma unary_empty_wf: "lc_wf unary_empty"
  by (simp add: lc_wf_def unary_empty_def)

lemma unary_prepared_ok:
  "is_Inr (fst (lc_prepare unary_env ''u'' (PStr ''thread_deleted'') unary_payload (PList [PStr ''h'']) 0 unary_empty))"
  by code_simp

lemma unary_committed_ok:
  "is_Inr (fst (lc_commit_source unary_env ''u'' (PStr unary_op) unary_payload 1 unary_prepared))"
  by code_simp

lemma unary_started_ok:
  "fst (lc_begin_attempt unary_env ''u'' (PStr unary_op) (PStr ''h'') 5 [PStr unary_a] 2 unary_committed) = Inr (Some unary_a)"
  by code_simp

lemma unary_taken_ok:
  "fst (lc_begin_attempt unary_env ''u'' (PStr unary_op) (PStr ''h'') 5 [PStr unary_b] 9 unary_started) = Inr (Some unary_b)"
  by code_simp

lemma unary_finished_ok:
  "is_Inr (fst (lc_finish_attempt unary_env ''u'' (PStr unary_op) (PStr ''h'') (PStr unary_a) True PNone 3 unary_started))"
  by code_simp

section \<open>Recorded facts\<close>

text \<open>C27. What the lifecycle journal has recorded of an operation stays through every sequence of preparations,
  commits, aborts and attempts: its event and its preparation, a commit, an abort (and never both), and for every
  handler each attempt with its start, its outcome once there is one, and the generation of its lease.\<close>
theorem lifecycle_facts_are_immutable:
  assumes "lc_steps env owner j k" and "lc_wf j" and "map_of (lj_entries j) op = Some (OperationDir d)"
  shows "\<exists>e. map_of (lj_entries k) op = Some (OperationDir e)
    \<and> op_event e = op_event d \<and> op_prepared e = op_prepared d
    \<and> (op_committed d \<noteq> Absent \<longrightarrow> op_committed e = op_committed d)
    \<and> (op_aborted d \<noteq> Absent \<longrightarrow> op_aborted e = op_aborted d)
    \<and> (op_committed d = Absent \<or> op_aborted d = Absent \<longrightarrow> op_committed e = Absent \<or> op_aborted e = Absent)
    \<and> (\<forall>h es aid a. map_of (op_attempts d) h = Some (HandlerDir es) \<and> map_of es aid = Some (AttemptDir a)
         \<longrightarrow> (\<exists>fs b. map_of (op_attempts e) h = Some (HandlerDir fs) \<and> map_of fs aid = Some (AttemptDir b)
               \<and> la_started b = la_started a \<and> (la_outcome a \<noteq> Absent \<longrightarrow> la_outcome b = la_outcome a)
               \<and> (la_lease_file a \<noteq> Absent \<longrightarrow> lease_gen (la_lease_file b) = lease_gen (la_lease_file a))))"
proof -
  from lc_steps_kept [OF assms(1,2)] assms(3) obtain e where
    e: "map_of (lj_entries k) op = Some (OperationDir e)" "op_kept d e"
    unfolding journal_kept_def by blast
  have "\<exists>fs b. map_of (op_attempts e) h = Some (HandlerDir fs) \<and> map_of fs aid = Some (AttemptDir b)
      \<and> la_started b = la_started a \<and> (la_outcome a \<noteq> Absent \<longrightarrow> la_outcome b = la_outcome a)
      \<and> (la_lease_file a \<noteq> Absent \<longrightarrow> lease_gen (la_lease_file b) = lease_gen (la_lease_file a))"
    if es: "map_of (op_attempts d) h = Some (HandlerDir es)" "map_of es aid = Some (AttemptDir a)" for h es aid a
  proof -
    from e(2) es(1) obtain fs where fs: "map_of (op_attempts e) h = Some (HandlerDir fs)" "attempts_kept es fs"
      unfolding op_kept_def by blast
    with es(2) obtain f where "map_of fs aid = Some f" "entry_kept (AttemptDir a) f"
      unfolding attempts_kept_def by blast
    with fs show ?thesis by (auto simp: entry_kept_def attempt_kept_def)
  qed
  with e show ?thesis unfolding op_kept_def by (intro exI [of _ e]) simp
qed

lemma steps_one: "lc_step env owner j k \<Longrightarrow> lc_steps env owner j k"
  by (rule steps_step [OF steps_refl])

lemma steps_trans: "lc_steps env owner k l \<Longrightarrow> lc_steps env owner j k \<Longrightarrow> lc_steps env owner j l"
  by (induction rule: lc_steps.induct) (auto intro: steps_step)

lemma unary_steps:
  "lc_steps unary_env ''u'' unary_empty unary_prepared" "lc_steps unary_env ''u'' unary_prepared unary_committed"
  "lc_steps unary_env ''u'' unary_committed unary_started" "lc_steps unary_env ''u'' unary_started unary_taken"
  unfolding unary_prepared_def unary_committed_def unary_started_def unary_taken_def
  by (rule steps_one, rule lc_step.intros)+

lemma unary_wf: "lc_wf unary_prepared" "lc_wf unary_committed" "lc_wf unary_started" "lc_wf unary_taken"
  using lc_steps_kept [OF unary_steps(1) unary_empty_wf] lc_steps_kept unary_steps by blast+

definition dir_of :: "string \<Rightarrow> lc_journal \<Rightarrow> lc_op_dir option" where
  "dir_of op j = (case map_of (lj_entries j) op of Some (OperationDir d) \<Rightarrow> Some d | _ \<Rightarrow> None)"

lemma dir_of_Some: "dir_of op j = Some d \<longleftrightarrow> map_of (lj_entries j) op = Some (OperationDir d)"
  by (auto simp: dir_of_def split: option.splits lc_entry.splits)

theorem lifecycle_facts_are_immutable_witness:
  "\<exists>d e. dir_of unary_op unary_started = Some d \<and> dir_of unary_op unary_taken = Some e
     \<and> op_committed d \<noteq> Absent \<and> op_committed e = op_committed d"
proof -
  have "case dir_of unary_op unary_started of None \<Rightarrow> False | Some d \<Rightarrow> op_committed d \<noteq> Absent" by code_simp
  then obtain d where d: "dir_of unary_op unary_started = Some d" "op_committed d \<noteq> Absent"
    by (auto split: option.splits)
  with lifecycle_facts_are_immutable [OF unary_steps(4) unary_wf(3), of unary_op d]
  show ?thesis by (auto simp: dir_of_Some)
qed

section \<open>Preparing twice\<close>

lemma bounded_identity_Inr:
  "bounded_identity f m v = Inr s \<longleftrightarrow> v = PStr s \<and> s \<noteq> [] \<and> length s \<le> m \<and> CHR 0x00 \<notin> set s"
  by (cases v) (auto simp: bounded_identity_def)

lemma payload_keys:
  "keys_are [(PStr ''thread_id'', a)] [''thread_id'']"
  "keys_are [(PStr ''source_thread_id'', a), (PStr ''target_thread_id'', b), (PStr ''assistant_id'', c),
     (PStr ''workspace_clone_mode'', e)] [''source_thread_id'', ''target_thread_id'', ''assistant_id'', ''workspace_clone_mode'']"
  by (simp_all add: keys_are_def)

lemma normalize_payload_again:
  assumes "normalize_event_payload n p = Inr x"
  shows "n = PStr (lc_payload_event x)" and "normalize_event_payload n (lc_payload_json x) = Inr x"
proof -
  from assms obtain m where n: "n = PStr m" by (cases n) (auto simp: normalize_event_payload_def)
  with assms have m: "m = ''thread_deleted'' \<or> m = ''thread_branched''"
    by (auto simp: normalize_event_payload_def lc_event_names_def split: if_splits)
  from assms n obtain d where p: "p = PDict d" by (cases p) (auto simp: normalize_event_payload_def split: if_splits)
  from m show "n = PStr (lc_payload_event x)"
    using assms n p by (auto simp: normalize_event_payload_def lc_payload_event_def res_simps split: if_splits)
  show "normalize_event_payload n (lc_payload_json x) = Inr x"
  proof (cases "m = ''thread_deleted''")
    case True
    with assms n p show ?thesis
      by (auto simp: normalize_event_payload_def lc_event_names_def lc_payload_json_def payload_keys bounded_identity_Inr
          get_key_def res_simps split: if_splits)
  next
    case False
    with assms n p m obtain s t a w where x: "x = BranchedPayload s t a w" "s \<noteq> t"
      and ids: "bounded_identity ''Lifecycle source thread ID'' 512 (PStr s) = Inr s"
        "bounded_identity ''Lifecycle target thread ID'' 512 (PStr t) = Inr t"
        "bounded_identity ''Lifecycle assistant ID'' 128 (PStr a) = Inr a"
        "bounded_identity ''Lifecycle workspace clone mode'' 64 (PStr w) = Inr w"
      by (auto simp: normalize_event_payload_def bounded_identity_Inr res_simps split: if_splits)
    have "lc_payload_json x = PDict [(PStr ''source_thread_id'', PStr s), (PStr ''target_thread_id'', PStr t),
        (PStr ''assistant_id'', PStr a), (PStr ''workspace_clone_mode'', PStr w)]"
      by (simp add: x lc_payload_json_def)
    moreover have "m = ''thread_branched''" using m False by simp
    ultimately show ?thesis
      by (simp add: n normalize_event_payload_def lc_event_names_def payload_keys get_key_def ids x)
  qed
qed

lemma new_event_same:
  assumes "lc_new_event env owner n p hs t = Inr e" and "lc_new_event env owner n p hs' t' = Inr e'"
  shows "ev_operation e' = ev_operation e" and "same_lifecycle_event x e \<longleftrightarrow> same_lifecycle_event x e'"
  using assms by (auto simp: lc_new_event_def res_simps same_lifecycle_event_def)

text \<open>The event of a fresh operation reads back as written.\<close>

lemma event_json_keys:
  "get_key (case lc_event_json e of PDict d \<Rightarrow> d) ''operation_id'' = PStr (ev_operation e)"
  "get_key (case lc_event_json e of PDict d \<Rightarrow> d) ''owner_user_id'' = PStr (ev_owner e)"
  "get_key (case lc_event_json e of PDict d \<Rightarrow> d) ''event'' = PStr (lc_payload_event (ev_payload e))"
  "get_key (case lc_event_json e of PDict d \<Rightarrow> d) ''idempotency_sha256'' = PStr (ev_digest e)"
  "get_key (case lc_event_json e of PDict d \<Rightarrow> d) ''payload'' = lc_payload_json (ev_payload e)"
  by (simp_all add: lc_event_json_def get_key_def)

lemma lc_reraise_Inr [simp]: "lc_reraise m r = Inr x \<longleftrightarrow> r = Inr x"
  by (auto simp: lc_reraise_def split: sum.splits lc_error.splits)

lemma event_reads_back:
  assumes "lc_new_event env owner n p hs t = Inr e" and "lc_validate_event env owner d = Inr x"
    and "lc_event_json e = PDict d"
  shows "same_lifecycle_event x e"
proof -
  note keys = event_json_keys [of e, unfolded assms(3), simplified]
  have n: "normalize_event_payload (PStr (lc_payload_event (ev_payload e))) (lc_payload_json (ev_payload e)) = Inr (ev_payload e)"
    using assms(1) normalize_payload_again by (fastforce simp: lc_new_event_def res_simps)
  have o': "ev_owner e = owner" using assms(1) by (auto simp: lc_new_event_def res_simps)
  from assms(2) keys n o' have "ev_operation x = ev_operation e" "ev_owner x = ev_owner e" "ev_payload x = ev_payload e"
    "ev_digest x = ev_digest e"
    by (auto simp: lc_validate_event_def res_simps Let_def lc_validate_operation_id_def str_of_def dest: lc_id_Inr
        split: if_splits)
  then show ?thesis by (simp add: same_lifecycle_event_def)
qed

lemma lc_get_event:
  assumes "lc_get env owner (PStr op) j = Inr o'"
  obtains d where "map_of (lj_entries j) op = Some (OperationDir d)" and "load_event_in env owner op d = Inr (lop_event o')"
proof -
  from assms obtain op' d where "lc_validate_operation_id (PStr op) = Inr op'" "find_operation op' j = Inr d"
      "lc_get_in env owner op' d = Inr o'"
    by (auto simp: lc_get_def res_simps)
  moreover from this have "op' = op" by (auto simp: lc_validate_operation_id_def dest: lc_id_Inr)
  ultimately show ?thesis
    by (intro that [of d]) (auto simp: find_operation_def lc_get_in_def res_simps split: option.splits lc_entry.splits)
qed

lemma prepare_Inr:
  assumes "lc_prepare env owner n p hs t j = (Inr o', j1)"
  obtains e d where "lc_new_event env owner n p hs t = Inr e"
    and "lc_validate_operation_id (PStr (ev_operation e)) = Inr (ev_operation e)"
    and "map_of (lj_entries j1) (ev_operation e) = Some (OperationDir d)"
    and "load_event_in env owner (ev_operation e) d = Inr (lop_event o')"
    and "same_lifecycle_event (lop_event o') e" and "lj_ready j1"
proof (cases "rbind (lc_new_event env owner n p hs t) (\<lambda>e. rbind (lc_prepare_root j) (\<lambda>j1.
    rbind (lc_validate_operation_id (PStr (ev_operation e))) (\<lambda>op. Inr (e, op, j1))))")
  case (Inl e)
  with assms show ?thesis by (simp add: lc_prepare_def)
next
  case (Inr r)
  obtain e op j0 where r: "r = (e, op, j0)" by (metis prod_cases3)
  with Inr have e: "lc_new_event env owner n p hs t = Inr e" "lc_prepare_root j = Inr j0"
      "lc_validate_operation_id (PStr (ev_operation e)) = Inr op"
    by (auto simp: res_simps)
  then have op: "op = ev_operation e" by (auto simp: lc_validate_operation_id_def dest: lc_id_Inr)
  have ready: "lj_ready (lc_take_lock j0)" using prepare_root_dir [OF e(2)] by (simp add: lj_ready_def)
  show ?thesis
  proof (cases "map_of (lj_entries (lc_take_lock j0)) op")
    case (Some x)
    have run: "lc_prepare env owner n p hs t j =
        (rbind (rbind (find_operation op (lc_take_lock j0)) (load_event_in env owner op)) (\<lambda>existing.
           if same_lifecycle_event existing e then lc_get env owner (PStr op) (lc_take_lock j0)
           else Inl (LcConflict ''Lifecycle idempotency key conflicts with an existing event'')), lc_take_lock j0)"
      unfolding lc_prepare_def Inr r by (simp add: Let_def Some)
    note res = trans [OF assms [symmetric] run]
    have j1: "j1 = lc_take_lock j0"
      and got: "rbind (rbind (find_operation op (lc_take_lock j0)) (load_event_in env owner op)) (\<lambda>existing.
           if same_lifecycle_event existing e then lc_get env owner (PStr op) (lc_take_lock j0)
           else Inl (LcConflict ''Lifecycle idempotency key conflicts with an existing event'')) = Inr o'"
      using res by (simp, simp only: prod.inject)
    obtain d where d0: "rbind (find_operation op (lc_take_lock j0)) (load_event_in env owner op) = Inr d"
      using got by (cases "rbind (find_operation op (lc_take_lock j0)) (load_event_in env owner op)") simp_all
    with got have d: "same_lifecycle_event d e" "lc_get env owner (PStr op) (lc_take_lock j0) = Inr o'"
      by (simp_all split: if_splits)
    obtain dd where dd: "map_of (lj_entries j1) op = Some (OperationDir dd)" "load_event_in env owner op dd = Inr (lop_event o')"
      using lc_get_event [OF d(2)] j1 by metis
    from dd(1) have "find_operation op (lc_take_lock j0) = Inr dd"
      unfolding j1 find_operation_def by (simp del: take_lock_lookup)
    with d0 dd(2) have "lop_event o' = d" by simp
    with e op dd d j1 ready show ?thesis by (intro that [of e dd]) simp_all
  next
    case None
    have "lc_prepare env owner n p hs t j =
        (case rbind (lc_json_bytes env (lc_event_json e)) (\<lambda>ej.
            rbind (lc_json_bytes env (lc_prepare_json op (ev_created_at e))) (\<lambda>pj. Inr (ej, pj))) of
           Inl err \<Rightarrow> (Inl err, lc_take_lock j0)
         | Inr (ej, pj) \<Rightarrow>
             (let j3 = (lc_take_lock j0)\<lparr>lj_entries := lj_entries (lc_take_lock j0) @ [(op, OperationDir
                  \<lparr>op_event = Doc ej, op_prepared = Doc pj, op_committed = Absent, op_aborted = Absent, op_attempts = []\<rparr>)]\<rparr>
              in (lc_get env owner (PStr op) j3, j3)))"
      unfolding lc_prepare_def Inr r by (simp add: Let_def None)
    with assms obtain ej pj where json: "rbind (lc_json_bytes env (lc_event_json e)) (\<lambda>ej.
            rbind (lc_json_bytes env (lc_prepare_json op (ev_created_at e))) (\<lambda>pj. Inr (ej, pj))) = Inr (ej, pj)"
      and j3: "lc_get env owner (PStr op) j1 = Inr o'"
        "j1 = (lc_take_lock j0)\<lparr>lj_entries := lj_entries (lc_take_lock j0) @ [(op, OperationDir
          \<lparr>op_event = Doc ej, op_prepared = Doc pj, op_committed = Absent, op_aborted = Absent, op_attempts = []\<rparr>)]\<rparr>"
      by (auto simp: Let_def split: sum.splits)
    from json have ej: "ej = lc_event_json e" by (auto simp: lc_json_bytes_def res_simps split: if_splits)
    obtain d where d: "map_of (lj_entries j1) op = Some (OperationDir d)" "load_event_in env owner op d = Inr (lop_event o')"
      using lc_get_event [OF j3(1)] by metis
    from d(1) j3(2) None ej have "op_event d = Doc (lc_event_json e)" by (auto simp: map_add_def)
    with d(2) have "rbind (lc_read_json_object (Doc (lc_event_json e))) (lc_validate_event env owner) = Inr (lop_event o')"
      by (auto simp: load_event_in_def res_simps split: if_splits)
    then obtain doc where "lc_event_json e = PDict doc" "lc_validate_event env owner doc = Inr (lop_event o')"
      by (auto simp: lc_read_json_object_def lc_event_json_def)
    with event_reads_back [OF e(1)] have "same_lifecycle_event (lop_event o') e" by blast
    moreover have "lj_ready j1" using ready j3(2) by (auto simp: lj_ready_def)
    ultimately show ?thesis using e op d by (intro that [of e d]) simp_all
  qed
qed

text \<open>C28. Preparing is idempotent: once a preparation succeeded, preparing the same event again, whatever was
  committed, aborted or attempted in between and with whatever handlers are registered by then, writes nothing
  and returns the current state of the same operation.\<close>
theorem retried_prepare_finds_operation:
  assumes "lc_prepare env owner n p hs t j = (Inr o', j1)" and "lc_wf j"
    and "lc_steps env owner j1 k" and "normalize_handler_keys hs' = Inr ks"
  shows "lc_prepare env owner n p hs' t' k = (lc_get env owner (PStr (ev_operation (lop_event o'))) k, k)"
proof -
  obtain e d where e: "lc_new_event env owner n p hs t = Inr e"
    "lc_validate_operation_id (PStr (ev_operation e)) = Inr (ev_operation e)"
    "map_of (lj_entries j1) (ev_operation e) = Some (OperationDir d)"
    "load_event_in env owner (ev_operation e) d = Inr (lop_event o')" "same_lifecycle_event (lop_event o') e" "lj_ready j1"
    by (rule prepare_Inr [OF assms(1)])
  have "lc_wf j1" using prepare_steps [OF assms(2)] assms(1) by (metis snd_conv)
  note kept = lc_steps_kept [OF assms(3) this, THEN conjunct1]
  have ready: "lj_ready k" using ready_kept [OF kept e(6)] .
  from kept e(3) obtain d' where d': "map_of (lj_entries k) (ev_operation e) = Some (OperationDir d')" "op_kept d d'"
    unfolding journal_kept_def by blast
  then have load: "load_event_in env owner (ev_operation e) d' = Inr (lop_event o')"
    using e(4) by (simp add: load_event_in_def op_kept_def)
  from e(1) assms(4) obtain e' where e': "lc_new_event env owner n p hs' t' = Inr e'"
    by (auto simp: lc_new_event_def res_simps)
  note same = new_event_same [OF e(1) e']
  have o': "ev_operation (lop_event o') = ev_operation e" using e(5) by (simp add: same_lifecycle_event_def)
  show ?thesis
    using e(2,5) same d' load
    by (simp add: lc_prepare_def e' ready_prepare_root [OF ready] ready_take_lock [OF ready] find_operation_def o')
qed

theorem retried_prepare_finds_operation_witness:
  "\<exists>op. lc_prepare unary_env ''u'' (PStr ''thread_deleted'') unary_payload (PList [PStr ''g'']) 50 unary_taken
     = (lc_get unary_env ''u'' (PStr op) unary_taken, unary_taken)"
proof -
  obtain o' where "fst (lc_prepare unary_env ''u'' (PStr ''thread_deleted'') unary_payload (PList [PStr ''h'']) 0 unary_empty)
      = Inr o'"
    using unary_prepared_ok by (auto simp: is_Inr_iff)
  then have first: "lc_prepare unary_env ''u'' (PStr ''thread_deleted'') unary_payload (PList [PStr ''h'']) 0 unary_empty
      = (Inr o', unary_prepared)"
    by (simp add: unary_prepared_def prod_eq_iff)
  have keys: "normalize_handler_keys (PList [PStr ''g'']) = Inr [''g'']" by code_simp
  have "lc_steps unary_env ''u'' unary_prepared unary_taken"
    using unary_steps(2-4) steps_trans by blast
  from retried_prepare_finds_operation [OF first unary_empty_wf this keys] show ?thesis by blast
qed

section \<open>Beginning an attempt\<close>

lemma lc_dbind_Inr: "lc_dbind m d f = (Inr y, d') \<longleftrightarrow> (\<exists>x. m = Inr x \<and> f x = (Inr y, d'))"
  by (cases m) simp_all

lemma allocate_Some:
  assumes "allocate_attempt env op h g t l ids d = (Inr (Some aid), d')"
  shows "\<exists>sj lj r x. map_of (handler_entries h d) aid = None
    \<and> lc_json_bytes env (lc_lease_json op h aid \<lparr>ll_generation = g, ll_renewed_at = r, ll_expires_at = x\<rparr>) = Inr lj
    \<and> d' = put_attempt h aid \<lparr>la_started = Doc sj, la_lease_file = Doc lj, la_outcome = Absent\<rparr> d"
  using assms
  by (induction ids) (auto simp: lc_dbind_Inr res_simps Let_def split: if_splits)

lemma begin_in_Some:
  assumes "begin_in env owner op h l ids t d = (Inr (Some aid), d')"
  obtains as g sj lj r x where "attempts_in env op h d = Inr as"
    and "\<forall>a \<in> set as. at_status a \<noteq> ''succeeded''" and "any_held env t l as = Inr False"
    and "\<forall>a \<in> set as. at_generation a < g" and "map_of (handler_entries h d) aid = None"
    and "lc_json_bytes env (lc_lease_json op h aid \<lparr>ll_generation = g, ll_renewed_at = r, ll_expires_at = x\<rparr>) = Inr lj"
    and "d' = put_attempt h aid \<lparr>la_started = Doc sj, la_lease_file = Doc lj, la_outcome = Absent\<rparr> d"
proof -
  from assms obtain as where as: "registered_attempts env owner True op h d = Inr as"
      "\<forall>a \<in> set as. at_status a \<noteq> ''succeeded''" "any_held env t l as = Inr False"
    and al: "allocate_attempt env op h (if as = [] then 1 else max_generation as + 1) t l (take 16 ids) d = (Inr (Some aid), d')"
    by (auto simp: begin_in_def lc_dbind_Inr Let_def list_ex_iff split: if_splits)
  have "at_generation a < (if as = [] then 1 else max_generation as + 1)" if "a \<in> set as" for a
  proof -
    from that have "at_generation a \<le> max_generation as" unfolding max_generation_def by (intro Max_ge) auto
    with that show ?thesis by (cases as) auto
  qed
  with as registered_read [OF as(1)] allocate_Some [OF al] that show ?thesis by blast
qed

lemma any_held_False: "any_held env t l as = Inr False \<Longrightarrow> a \<in> set as \<Longrightarrow> attempt_held env t l a = Inr False"
  by (induction as) (auto simp: res_simps split: if_splits)

lemma begin_attempt_Some:
  assumes "lc_begin_attempt env owner v k l ids t j = (Inr (Some aid), j1)"
  obtains d d' where "lc_validate_operation_id v = Inr (str_of v)" and "validate_lifecycle_handler_key k = Inr (str_of k)"
    and "map_of (lj_entries j) (str_of v) = Some (OperationDir d)"
    and "begin_in env owner (str_of v) (str_of k) l ids t d = (Inr (Some aid), d')"
    and "map_of (lj_entries j1) (str_of v) = Some (OperationDir d')" and "lj_ready j1"
proof -
  from assms obtain op h where ids: "lc_validate_operation_id v = Inr op" "validate_lifecycle_handler_key k = Inr h"
    and on: "lc_on_operation op (begin_in env owner op h l ids t) j = (Inr (Some aid), j1)"
    by (auto simp: lc_begin_attempt_def res_simps split: sum.splits)
  from ids have "op = str_of v" "h = str_of k"
    by (auto simp: lc_validate_operation_id_def validate_lifecycle_handler_key_def lc_id_def str_of_def
        split: pyval.splits if_splits)
  with ids on on_operation_Inr [OF on] that show ?thesis by metis
qed

text \<open>C29. A handler is taken over only when nobody holds it: where beginning an attempt succeeds, no recorded
  attempt of the handler had succeeded, and each one still running had a lease that had expired, or, without a
  lease, had been started longer ago than the lease asked for.  The new attempt is recorded under a name no
  attempt had.\<close>
theorem takeover_waits_for_leases:
  assumes "lc_begin_attempt env owner v k l ids t j = (Inr (Some aid), j1)" and "lc_wf j"
  shows "\<exists>d d'. map_of (lj_entries j) (str_of v) = Some (OperationDir d)
    \<and> map_of (lj_entries j1) (str_of v) = Some (OperationDir d')
    \<and> map_of (handler_entries (str_of k) d) aid = None
    \<and> (\<exists>a. map_of (handler_entries (str_of k) d') aid = Some (AttemptDir a) \<and> la_outcome a = Absent)
    \<and> (\<forall>b e. map_of (handler_entries (str_of k) d) b = Some e
         \<longrightarrow> (\<exists>w. load_attempt env (str_of v) (str_of k) (b, e) = Inr w \<and> at_status w \<noteq> ''succeeded''
           \<and> (at_status w = ''running'' \<longrightarrow>
                (case at_lease w of
                   Some (renewed, expires) \<Rightarrow> \<exists>x. lc_parse_timestamp env (PStr expires) = Inr x \<and> x \<le> t
                 | None \<Rightarrow> \<exists>s. lc_parse_timestamp env (PStr (at_started_at w)) = Inr s \<and> l \<le> t - s))))"
proof -
  let ?v = "str_of v" and ?k = "str_of k"
  obtain d d' where d: "map_of (lj_entries j) ?v = Some (OperationDir d)"
      "begin_in env owner ?v ?k l ids t d = (Inr (Some aid), d')"
      "map_of (lj_entries j1) ?v = Some (OperationDir d')"
    by (rule begin_attempt_Some [OF assms(1)])
  obtain as g sj lj r x where as: "attempts_in env ?v ?k d = Inr as" "\<forall>a \<in> set as. at_status a \<noteq> ''succeeded''"
      "any_held env t l as = Inr False" "map_of (handler_entries ?k d) aid = None"
      "d' = put_attempt ?k aid \<lparr>la_started = Doc sj, la_lease_file = Doc lj, la_outcome = Absent\<rparr> d"
    by (rule begin_in_Some [OF d(2)])
  have "\<exists>w. load_attempt env ?v ?k (b, e) = Inr w \<and> at_status w \<noteq> ''succeeded''
      \<and> (at_status w = ''running'' \<longrightarrow>
          (case at_lease w of
             Some (renewed, expires) \<Rightarrow> \<exists>x. lc_parse_timestamp env (PStr expires) = Inr x \<and> x \<le> t
           | None \<Rightarrow> \<exists>s. lc_parse_timestamp env (PStr (at_started_at w)) = Inr s \<and> l \<le> t - s))"
    if "map_of (handler_entries ?k d) b = Some e" for b e
  proof -
    from attempts_read(1) [OF as(1)] map_of_SomeD [OF that] obtain w z where
      w: "load_attempt env ?v ?k (b, e) = Inr w" "same_attempt w z" "z \<in> set as" by blast
    note same = same_attempt_fields [OF w(2)]
    have "attempt_held env t l z = attempt_held env t l w" by (simp only: attempt_held_def same)
    with any_held_False [OF as(3) w(3)] have "attempt_held env t l w = Inr False" by simp
    with as(2) w same show ?thesis
      by (intro exI [of _ w]) (auto simp: attempt_held_def res_simps not_less split: if_splits option.splits)
  qed
  with d as show ?thesis by (intro exI [of _ d] exI [of _ d']) auto
qed

theorem takeover_waits_for_leases_witness:
  "\<exists>d. map_of (lj_entries unary_started) unary_op = Some (OperationDir d)
     \<and> map_of (handler_entries ''h'' d) unary_b = None"
proof -
  have run: "lc_begin_attempt unary_env ''u'' (PStr unary_op) (PStr ''h'') 5 [PStr unary_b] 9 unary_started
      = (Inr (Some unary_b), unary_taken)"
    using unary_taken_ok by (simp add: unary_taken_def prod_eq_iff)
  from takeover_waits_for_leases [OF run unary_wf(3)] show ?thesis by (auto simp: str_of_def)
qed

section \<open>Superseded attempts\<close>

lemma handler_entry_kept:
  assumes "op_kept d e" and "map_of (handler_entries h d) aid = Some (AttemptDir a)"
  obtains b where "map_of (handler_entries h e) aid = Some (AttemptDir b)" and "attempt_kept a b"
proof -
  from assms(2) obtain es where es: "map_of (op_attempts d) h = Some (HandlerDir es)" "map_of es aid = Some (AttemptDir a)"
    by (auto simp: handler_entries_def split: option.splits lc_handler_entry.splits)
  with assms(1) obtain fs where fs: "map_of (op_attempts e) h = Some (HandlerDir fs)" "attempts_kept es fs"
    unfolding op_kept_def by blast
  with es(2) obtain f where "map_of fs aid = Some f" "entry_kept (AttemptDir a) f"
    unfolding attempts_kept_def by blast
  with fs that show ?thesis by (auto simp: entry_kept_def handler_entries_def)
qed

text \<open>An attempt with a lease is read with the generation its lease has.\<close>

lemma leased_attempt_read:
  assumes "attempts_in env op h d = Inr as" and "map_of (handler_entries h d) aid = Some (AttemptDir a)"
    and "la_lease_file a \<noteq> Absent"
  obtains w where "w \<in> set as" and "at_id w = aid" and "lease_gen (la_lease_file a) = PInt (at_generation w)"
proof -
  from attempts_read(1) [OF assms(1)] map_of_SomeD [OF assms(2)] obtain v w where
    v: "load_attempt env op h (aid, AttemptDir a) = Inr v" "same_attempt v w" "w \<in> set as" by blast
  note la = loaded_attempt [OF v(1)]
  note sa = same_attempt_fields [OF v(2)]
  from la sa assms(3) v(3) show ?thesis by (intro that [of w]) auto
qed

text \<open>A directory in which another attempt has a higher generation.\<close>

definition fenced :: "string \<Rightarrow> string \<Rightarrow> lc_op_dir \<Rightarrow> bool" where
  "fenced h b d \<longleftrightarrow>
     (\<exists>a c aid m n. map_of (handler_entries h d) b = Some (AttemptDir a) \<and> la_lease_file a \<noteq> Absent
        \<and> lease_gen (la_lease_file a) = PInt m
        \<and> map_of (handler_entries h d) aid = Some (AttemptDir c) \<and> la_lease_file c \<noteq> Absent
        \<and> lease_gen (la_lease_file c) = PInt n \<and> m < n)"

lemma fenced_kept: "fenced h b d \<Longrightarrow> op_kept d e \<Longrightarrow> fenced h b e"
  unfolding fenced_def
proof (elim exE conjE)
  fix a c aid m n
  assume k: "op_kept d e" and a: "map_of (handler_entries h d) b = Some (AttemptDir a)" "la_lease_file a \<noteq> Absent"
      "lease_gen (la_lease_file a) = PInt m"
    and c: "map_of (handler_entries h d) aid = Some (AttemptDir c)" "la_lease_file c \<noteq> Absent"
      "lease_gen (la_lease_file c) = PInt n" and mn: "m < n"
  obtain a' where a': "map_of (handler_entries h e) b = Some (AttemptDir a')" "attempt_kept a a'"
    by (rule handler_entry_kept [OF k a(1)])
  obtain c' where c': "map_of (handler_entries h e) aid = Some (AttemptDir c')" "attempt_kept c c'"
    by (rule handler_entry_kept [OF k c(1)])
  from a a' c c' mn show "\<exists>a c aid m n. map_of (handler_entries h e) b = Some (AttemptDir a) \<and> la_lease_file a \<noteq> Absent
        \<and> lease_gen (la_lease_file a) = PInt m
        \<and> map_of (handler_entries h e) aid = Some (AttemptDir c) \<and> la_lease_file c \<noteq> Absent
        \<and> lease_gen (la_lease_file c) = PInt n \<and> m < n"
    by (auto simp: attempt_kept_def)
qed

lemma fenced_not_current:
  assumes "fenced h b d" and "op_wf d" and "attempts_in env op h d = Inr as" and "find_attempt b as = Inr w"
  shows "at_generation w \<noteq> max_generation as"
proof -
  from assms(1) obtain a c aid m n where a: "map_of (handler_entries h d) b = Some (AttemptDir a)" "la_lease_file a \<noteq> Absent"
      "lease_gen (la_lease_file a) = PInt m"
    and c: "map_of (handler_entries h d) aid = Some (AttemptDir c)" "la_lease_file c \<noteq> Absent"
      "lease_gen (la_lease_file c) = PInt n" and mn: "m < n"
    unfolding fenced_def by blast
  note w = find_attempt_mem [OF assms(4)]
  obtain a0 v where a0: "map_of (handler_entries h d) (at_id w) = Some (AttemptDir a0)"
      "la_lease_file a0 \<noteq> Absent \<longleftrightarrow> at_lease w \<noteq> None"
      "at_lease w \<noteq> None \<Longrightarrow> lease_gen (la_lease_file a0) = PInt (at_generation w)"
    using found_attempt [OF assms(3) conjunct1 [OF w] assms(2)] by metis
  with w a have gw: "at_generation w = m" by auto
  obtain z where z: "z \<in> set as" "lease_gen (la_lease_file c) = PInt (at_generation z)"
    using leased_attempt_read [OF assms(3) c(1,2)] by metis
  with c have "at_generation z = n" by simp
  moreover have "at_generation z \<le> max_generation as" unfolding max_generation_def using z(1) by (intro Max_ge) auto
  ultimately show ?thesis using gw mn by simp
qed

lemma begin_in_fences:
  assumes "begin_in env owner op h l ids t d = (Inr (Some aid), d')" and "map_of (handler_entries h d) b = Some (AttemptDir a)"
    and "la_lease_file a \<noteq> Absent"
  shows "fenced h b d'"
proof -
  obtain as g sj lj r x where as: "attempts_in env op h d = Inr as" "\<forall>a \<in> set as. at_generation a < g"
      "map_of (handler_entries h d) aid = None"
      "lc_json_bytes env (lc_lease_json op h aid \<lparr>ll_generation = g, ll_renewed_at = r, ll_expires_at = x\<rparr>) = Inr lj"
      "d' = put_attempt h aid \<lparr>la_started = Doc sj, la_lease_file = Doc lj, la_outcome = Absent\<rparr> d"
    by (rule begin_in_Some [OF assms(1)])
  obtain w where w: "w \<in> set as" "lease_gen (la_lease_file a) = PInt (at_generation w)"
    using leased_attempt_read [OF as(1) assms(2,3)] by metis
  have g: "lease_gen (Doc lj) = PInt g" using lease_gen_json [OF as(4)] by simp
  from as(2) w(1) have "at_generation w < g" by blast
  with assms(2,3) as(3,5) w(2) g show ?thesis unfolding fenced_def
    by (intro exI [of _ a] exI [of _ "\<lparr>la_started = Doc sj, la_lease_file = Doc lj, la_outcome = Absent\<rparr>"]
        exI [of _ aid] exI [of _ "at_generation w"] exI [of _ g]) auto
qed

lemma fenced_registered:
  assumes "fenced h b d" and "op_wf d" and "registered_attempts env owner c op h d = Inr as" and "find_attempt b as = Inr w"
  shows "at_generation w \<noteq> max_generation as"
  using fenced_not_current [OF assms(1,2) registered_read [OF assms(3)] assms(4)] .

lemma fenced_renew:
  assumes "fenced h b d" and "op_wf d"
  shows "\<exists>e. renew_attempt_in env owner op h b l t d = (Inl e, d)"
proof (cases "registered_attempts env owner True op h d")
  case (Inr as)
  with fenced_registered [OF assms Inr] show ?thesis
    by (cases "find_attempt b as") (simp_all add: renew_attempt_in_def)
qed (simp add: renew_attempt_in_def)

lemma fenced_finish:
  assumes "fenced h b d" and "op_wf d"
  shows "snd (finish_attempt_in env owner op h b u d) = d"
proof (cases "registered_attempts env owner False op h d")
  case (Inr as)
  with fenced_registered [OF assms Inr] show ?thesis
    by (cases "find_attempt b as") (auto simp: finish_attempt_in_def lc_dbind_def split: sum.splits)
qed (simp add: finish_attempt_in_def)

lemma on_operation_nothing:
  assumes "lj_ready j" and "map_of (lj_entries j) op = Some (OperationDir d)" and "f d = (r, d)"
  shows "lc_on_operation op f j = (r, j)"
  using assms by (simp add: on_operation_ready find_operation_def od_set_same)

text \<open>C30. A superseded attempt changes nothing any more: once an attempt of a handler was begun, no attempt of that
  handler that had a lease before can renew that lease, and finishing it leaves the journal as it is, in every
  state that further operations lead to.\<close>
theorem superseded_attempts_are_fenced:
  assumes "lc_begin_attempt env owner v k l ids t j = (Inr (Some aid), j1)" and "lc_wf j"
    and "lc_steps env owner j1 j2"
    and "map_of (lj_entries j) (str_of v) = Some (OperationDir d)"
    and "map_of (handler_entries (str_of k) d) b = Some (AttemptDir a)" and "la_lease_file a \<noteq> Absent"
  shows "(\<exists>e. lc_renew_attempt env owner v k (PStr b) l' t' j2 = (Inl e, j2))
    \<and> snd (lc_finish_attempt env owner v k (PStr b) s er t' j2) = j2"
proof -
  let ?v = "str_of v" and ?k = "str_of k"
  obtain d' where ids: "lc_validate_operation_id v = Inr ?v" "validate_lifecycle_handler_key k = Inr ?k"
    and b: "begin_in env owner ?v ?k l ids t d = (Inr (Some aid), d')"
    and d': "map_of (lj_entries j1) ?v = Some (OperationDir d')" "lj_ready j1"
    using begin_attempt_Some [OF assms(1)] assms(4) by (metis lc_entry.inject option.inject)
  have "lc_wf j1"
    using lc_step_kept [OF step_begin assms(2), of env owner v k l ids t] assms(1) by simp
  with lc_steps_kept [OF assms(3)] have kept: "journal_kept j1 j2" "lc_wf j2" by auto
  from kept(1) d'(1) obtain e where e: "map_of (lj_entries j2) ?v = Some (OperationDir e)" "op_kept d' e"
    unfolding journal_kept_def by blast
  have f: "fenced ?k b e" using fenced_kept [OF begin_in_fences [OF b assms(5,6)] e(2)] .
  have w: "op_wf e" using kept(2) e(1) by (auto simp: lc_wf_def)
  have ready: "lj_ready j2" using ready_kept [OF kept(1) d'(2)] .
  have aid: "lc_validate_attempt_id (PStr b) = Inr x \<Longrightarrow> x = b" for x
    by (auto simp: lc_validate_attempt_id_def dest: lc_id_Inr)
  have "\<exists>e. lc_renew_attempt env owner v k (PStr b) l' t' j2 = (Inl e, j2)"
  proof -
    obtain m where "renew_attempt_in env owner ?v ?k b l' t' e = (Inl m, e)" using fenced_renew [OF f w] by metis
    with on_operation_nothing [OF ready e(1)] aid show ?thesis
      by (cases "lc_validate_attempt_id (PStr b)") (auto simp: lc_renew_attempt_def ids check_def)
  qed
  moreover have "snd (lc_finish_attempt env owner v k (PStr b) s er t' j2) = j2"
  proof -
    have "snd (lc_on_operation ?v (finish_attempt_in env owner ?v ?k b u) j2) = j2" for u
    proof -
      obtain r where "finish_attempt_in env owner ?v ?k b u e = (r, e)"
        using fenced_finish [OF f w] by (metis prod.collapse)
      with on_operation_nothing [OF ready e(1)] show ?thesis by (metis snd_conv)
    qed
    with aid show ?thesis
      by (cases "lc_validate_attempt_id (PStr b)")
        (auto simp: lc_finish_attempt_def ids check_def lc_then_get_def)
  qed
  ultimately show ?thesis ..
qed

theorem superseded_attempts_are_fenced_witness:
  "\<exists>e. lc_renew_attempt unary_env ''u'' (PStr unary_op) (PStr ''h'') (PStr unary_a) 100 10 unary_taken = (Inl e, unary_taken)"
proof -
  have run: "lc_begin_attempt unary_env ''u'' (PStr unary_op) (PStr ''h'') 5 [PStr unary_b] 9 unary_started
      = (Inr (Some unary_b), unary_taken)"
    using unary_taken_ok by (simp add: unary_taken_def prod_eq_iff)
  have "case dir_of unary_op unary_started of None \<Rightarrow> False
      | Some d \<Rightarrow> (case map_of (handler_entries ''h'' d) unary_a of Some (AttemptDir a) \<Rightarrow> la_lease_file a \<noteq> Absent | _ \<Rightarrow> False)"
    by code_simp
  then obtain d a where d: "map_of (lj_entries unary_started) unary_op = Some (OperationDir d)"
      "map_of (handler_entries ''h'' d) unary_a = Some (AttemptDir a)" "la_lease_file a \<noteq> Absent"
    by (auto simp: dir_of_def split: option.splits lc_entry.splits lc_attempt_entry.splits)
  from superseded_attempts_are_fenced [OF run unary_wf(3) steps_refl, of d unary_a a] d
  show ?thesis by (simp add: str_of_def)
qed

section \<open>A success is final\<close>

definition file_status :: "doc_file \<Rightarrow> pyval" where
  "file_status f = (case f of Doc (PDict p) \<Rightarrow> get_key p ''status'' | _ \<Rightarrow> PNone)"

lemma outcome_file_status:
  "rbind (lc_read_json_object f) (validate_attempt_outcome env op h aid) = Inr u \<Longrightarrow> file_status f = PStr (lo_status u)"
  by (auto simp: lc_read_json_object_def file_status_def validate_attempt_outcome_def Let_def str_of_def res_simps
      split: doc_file.splits pyval.splits if_splits)

lemma loaded_status:
  assumes "load_attempt env op h (aid, AttemptDir a) = Inr v" and "la_outcome a \<noteq> Absent"
  shows "file_status (la_outcome a) = PStr (at_status v)"
proof -
  from assms obtain aid' u where "lc_validate_attempt_id (PStr aid) = Inr aid'"
      "rbind (lc_read_json_object (la_outcome a)) (validate_attempt_outcome env op h aid') = Inr u" "at_status v = lo_status u"
    by (auto simp: load_attempt_def res_simps)
  with outcome_file_status show ?thesis by metis
qed

text \<open>A directory in which the handler has a recorded success.\<close>

definition settled_handler :: "string \<Rightarrow> lc_op_dir \<Rightarrow> bool" where
  "settled_handler h d \<longleftrightarrow>
     (\<exists>aid a. map_of (handler_entries h d) aid = Some (AttemptDir a) \<and> file_status (la_outcome a) = PStr ''succeeded'')"

lemma file_status_Absent: "file_status f = PStr s \<Longrightarrow> f \<noteq> Absent"
  by (auto simp: file_status_def)

lemma settled_kept:
  assumes "settled_handler h d" and "op_kept d e"
  shows "settled_handler h e"
proof -
  from assms(1) obtain aid a where a: "map_of (handler_entries h d) aid = Some (AttemptDir a)"
      "file_status (la_outcome a) = PStr ''succeeded''"
    unfolding settled_handler_def by blast
  obtain b where "map_of (handler_entries h e) aid = Some (AttemptDir b)" "attempt_kept a b"
    by (rule handler_entry_kept [OF assms(2) a(1)])
  with a(2) file_status_Absent [OF a(2)] show ?thesis unfolding settled_handler_def attempt_kept_def by fastforce
qed

lemma settled_begin:
  assumes "settled_handler h d"
  shows "\<exists>r. begin_in env owner op h l ids t d = (r, d) \<and> (\<forall>aid. r \<noteq> Inr (Some aid))"
proof (cases "registered_attempts env owner True op h d")
  case (Inr as)
  from assms obtain aid a where a: "map_of (handler_entries h d) aid = Some (AttemptDir a)"
      "file_status (la_outcome a) = PStr ''succeeded''"
    unfolding settled_handler_def by blast
  from attempts_read(1) [OF registered_read [OF Inr]] map_of_SomeD [OF a(1)] obtain v w where
    v: "load_attempt env op h (aid, AttemptDir a) = Inr v" "same_attempt v w" "w \<in> set as" by blast
  have "at_status w = ''succeeded''"
    using loaded_status [OF v(1) file_status_Absent [OF a(2)]] a(2) same_attempt_fields(2) [OF v(2)] by simp
  with v(3) Inr show ?thesis by (auto simp: begin_in_def list_ex_iff)
qed (simp add: begin_in_def)

lemma outcome_json_status:
  "lc_json_bytes env (lc_outcome_json op h aid u) = Inr x \<Longrightarrow> file_status (Doc x) = PStr (lo_status u)"
  by (auto simp: lc_json_bytes_def lc_outcome_json_def file_status_def get_key_def res_simps split: if_splits)

lemma finish_in_settles:
  assumes "finish_attempt_in env owner op h aid u d = (Inr (), d')" and "lo_status u = ''succeeded''" and "op_wf d"
  shows "settled_handler h d'"
proof -
  from assms(1) obtain as w where as: "registered_attempts env owner False op h d = Inr as" "find_attempt aid as = Inr w"
    by (auto simp: finish_attempt_in_def lc_dbind_Inr)
  note w = find_attempt_mem [OF as(2)]
  obtain a where a: "map_of (handler_entries h d) aid = Some (AttemptDir a)"
    using found_attempt [OF registered_read [OF as(1)] conjunct1 [OF w] assms(3)] w by metis
  show ?thesis
  proof (cases "at_status w = ''running''")
    case True
    with assms(1) as obtain uj where "lc_json_bytes env (lc_outcome_json op h aid u) = Inr uj"
        "d' = put_attempt h aid ((attempt_files h aid d)\<lparr>la_outcome := Doc uj\<rparr>) d"
      by (auto simp: finish_attempt_in_def lc_dbind_Inr split: if_splits)
    with outcome_json_status [of env op h aid u uj] assms(2) show ?thesis
      unfolding settled_handler_def by (intro exI [of _ aid]) simp
  next
    case False
    with assms(1) as a obtain e where
      "rbind (lc_read_json_object (la_outcome a)) (validate_attempt_outcome env op h aid) = Inr e"
      "lo_status e = lo_status u" "d' = d"
      by (auto simp: finish_attempt_in_def lc_dbind_Inr attempt_files_found split: if_splits)
    with outcome_file_status a assms(2) show ?thesis unfolding settled_handler_def by fastforce
  qed
qed

lemma lc_then_get_Inr: "lc_then_get env owner op rj = (Inr x, k) \<Longrightarrow> rj = (Inr (), k)"
  by (cases rj; cases "fst rj") (auto simp: lc_then_get_def)

lemma finish_attempt_Inr:
  assumes "lc_finish_attempt env owner v k a s er t j = (Inr o', j1)"
  obtains aid u d d' where "lc_validate_operation_id v = Inr (str_of v)" and "validate_lifecycle_handler_key k = Inr (str_of k)"
    and "map_of (lj_entries j) (str_of v) = Some (OperationDir d)"
    and "finish_attempt_in env owner (str_of v) (str_of k) aid u d = (Inr (), d')"
    and "lo_status u = (if s then ''succeeded'' else ''failed'')"
    and "map_of (lj_entries j1) (str_of v) = Some (OperationDir d')" and "lj_ready j1"
proof -
  let ?u = "\<lparr>lo_status = (if s then ''succeeded'' else ''failed''), lo_completed_at = iso_text (lc_doc env) t,
             lo_error_type = (if s then None else Some (str_of er))\<rparr>"
  from assms obtain op h aid where
    pre: "rbind (lc_validate_operation_id v) (\<lambda>op.
             rbind (validate_lifecycle_handler_key k) (\<lambda>h.
             rbind (lc_validate_attempt_id a) (\<lambda>aid.
             rbind (check (s \<or> lc_error_type_ok er) (LcError ''Lifecycle failure type is invalid'')) (\<lambda>_.
               Inr (op, h, aid))))) = Inr (op, h, aid)"
    and get: "lc_then_get env owner op (lc_on_operation op (finish_attempt_in env owner op h aid ?u) j) = (Inr o', j1)"
    unfolding lc_finish_attempt_def by (simp split: sum.splits prod.splits)
  from pre have ids: "lc_validate_operation_id v = Inr op" "validate_lifecycle_handler_key k = Inr h"
    by (auto simp: res_simps)
  note on = lc_then_get_Inr [OF get]
  from ids have "op = str_of v" "h = str_of k"
    by (auto simp: lc_validate_operation_id_def validate_lifecycle_handler_key_def lc_id_def str_of_def
        split: pyval.splits if_splits)
  moreover obtain d d' where "map_of (lj_entries j) op = Some (OperationDir d)"
      "finish_attempt_in env owner op h aid ?u d = (Inr (), d')" "map_of (lj_entries j1) op = Some (OperationDir d')" "lj_ready j1"
    by (rule on_operation_Inr [OF on])
  ultimately show ?thesis using ids by (intro that [of d aid ?u d']) simp_all
qed

text \<open>A handler that succeeded is never started again: after an attempt was finished as succeeded, beginning an
  attempt of the same handler hands out no attempt and writes nothing, in every state that further operations lead
  to.\<close>
lemma succeeded_handler_never_restarts:
  assumes "lc_finish_attempt env owner v k a True er t j = (Inr o', j1)" and "lc_wf j" and "lc_steps env owner j1 j2"
  shows "\<exists>r. lc_begin_attempt env owner v k l ids t' j2 = (r, j2) \<and> (\<forall>aid. r \<noteq> Inr (Some aid))"
proof -
  let ?v = "str_of v" and ?k = "str_of k"
  obtain aid u d d' where ids: "lc_validate_operation_id v = Inr ?v" "validate_lifecycle_handler_key k = Inr ?k"
    and d: "map_of (lj_entries j) ?v = Some (OperationDir d)"
      "finish_attempt_in env owner ?v ?k aid u d = (Inr (), d')" "lo_status u = ''succeeded''"
      "map_of (lj_entries j1) ?v = Some (OperationDir d')" "lj_ready j1"
    by (rule finish_attempt_Inr [OF assms(1)]) simp
  have "op_wf d" using assms(2) d(1) by (auto simp: lc_wf_def)
  with finish_in_settles [OF d(2,3)] have settled: "settled_handler ?k d'" by blast
  have "lc_wf j1"
    using lc_step_kept [OF step_finish assms(2), of env owner v k a True er t] assms(1) by simp
  with lc_steps_kept [OF assms(3)] have kept: "journal_kept j1 j2" by auto
  from kept d(4) obtain e where e: "map_of (lj_entries j2) ?v = Some (OperationDir e)" "op_kept d' e"
    unfolding journal_kept_def by blast
  obtain r where "begin_in env owner ?v ?k l ids t' e = (r, e)" "\<forall>aid. r \<noteq> Inr (Some aid)"
    using settled_begin [OF settled_kept [OF settled e(2)]] by metis
  with on_operation_nothing [OF ready_kept [OF kept d(5)] e(1)] show ?thesis
    by (auto simp: lc_begin_attempt_def ids check_def)
qed

end
