(* ===== verification/LifecycleDispatch.thy ===== *)
theory LifecycleDispatch
  imports LifecycleFencing "HOL-Library.Sublist"
begin

text \<open>
  \<open>ThreadLifecycleDispatcher\<close> (\<open>runtime/thread_lifecycle.py\<close>): lifecycle events of threads are written to the
  journal of the user, then fanned out to the registered handlers.  A handler is named by its key; whether a
  call raises is a parameter.  Each journal call runs in a worker thread, so other tasks and processes may use
  the same journal before it; what they do is a parameter as well.  Cancellation is not modelled.
\<close>

section \<open>Events, errors and configuration\<close>

datatype thread_event =
    ThreadDeleted (te_user: string) string
  | ThreadBranched (te_user: string) string string string string "string option"

record thread_intent =
  ti_user :: string
  ti_event :: string
  ti_operation :: "string option"

datatype dispatch_failure =
    HandlerUnavailable
  | JournalFailure lc_error
  | HandlerRaised string

datatype dispatch_error =
    DispatchFailed string "(string \<times> dispatch_failure) list" "string option"
  | DispatchJournal lc_error
  | DispatchValueError string
  | DispatchRuntimeError string

record dispatcher =
  td_keys :: "string list"
  td_journaled :: bool
  td_lease :: int
  td_interval :: "int option"

fun register_handlers :: "string list \<Rightarrow> pyval list \<Rightarrow> dispatch_error + string list" where
  "register_handlers ks [] = Inr ks"
| "register_handlers ks (v # vs) =
     (case validate_lifecycle_handler_key v of
        Inl e \<Rightarrow> Inl (DispatchJournal e)
      | Inr k \<Rightarrow>
          if k \<in> set ks then Inl (DispatchValueError (''Lifecycle handler key '' @ [CHR 0x27] @ k @ [CHR 0x27] @ '' is duplicated''))
          else register_handlers (ks @ [k]) vs)"

text \<open>Durations are microseconds; \<open>lease / 3\<close> rounds to the nearest one.\<close>

definition new_dispatcher :: "pyval list \<Rightarrow> bool \<Rightarrow> int \<Rightarrow> int option \<Rightarrow> dispatch_error + dispatcher" where
  "new_dispatcher keys journaled lease interval =
     (if lease < 0 then Inl (DispatchValueError ''Lifecycle running-attempt lease is invalid'')
      else if (case interval of None \<Rightarrow> False | Some i \<Rightarrow> i \<le> 0 \<or> lease \<le> 0 \<or> lease \<le> i)
      then Inl (DispatchValueError ''Lifecycle heartbeat interval must be shorter than its lease'')
      else
        (case register_handlers [] keys of
           Inl e \<Rightarrow> Inl e
         | Inr ks \<Rightarrow> Inr \<lparr>td_keys = ks, td_journaled = journaled, td_lease = lease,
             td_interval = (case interval of None \<Rightarrow> if 0 < lease then Some ((lease + 1) div 3) else None | Some i \<Rightarrow> Some i)\<rparr>))"

section \<open>The world of a dispatch\<close>

record td_env =
  te_journal :: lc_env
  te_handler :: "nat \<Rightarrow> string \<Rightarrow> thread_event \<Rightarrow> string option"
  te_beats :: "nat \<Rightarrow> nat"
  te_others :: "nat \<Rightarrow> string \<Rightarrow> lc_journal \<Rightarrow> lc_journal"
  te_clock :: "nat \<Rightarrow> int"
  te_ids :: "nat \<Rightarrow> pyval list"

text \<open>The calls made are a trace: the operation, the key of the handler and the event.\<close>

record td_world =
  tw_journal :: "string \<Rightarrow> lc_journal"
  tw_tick :: nat
  tw_calls :: "(string option \<times> string \<times> thread_event) list"

definition td_call :: "td_env \<Rightarrow> string \<Rightarrow> (nat \<Rightarrow> lc_journal \<Rightarrow> 'a \<times> lc_journal) \<Rightarrow> td_world \<Rightarrow> 'a \<times> td_world" where
  "td_call env u f w =
     (let j = te_others env (tw_tick w) u (tw_journal w u)
      in case f (tw_tick w) j of
           (r, j') \<Rightarrow> (r, w\<lparr>tw_journal := (tw_journal w)(u := j'), tw_tick := Suc (tw_tick w)\<rparr>))"

definition call_handler ::
    "td_env \<Rightarrow> string option \<Rightarrow> string \<Rightarrow> thread_event \<Rightarrow> td_world \<Rightarrow> string option \<times> td_world" where
  "call_handler env op key ev w =
     (te_handler env (tw_tick w) key ev, w\<lparr>tw_calls := tw_calls w @ [(op, key, ev)], tw_tick := Suc (tw_tick w)\<rparr>)"

section \<open>Preparing, direct dispatch\<close>

definition event_payload :: "thread_event \<Rightarrow> pyval" where
  "event_payload ev =
     (case ev of
        ThreadDeleted u t \<Rightarrow> PDict [(PStr ''thread_id'', PStr t)]
      | ThreadBranched u s t a m r \<Rightarrow>
          PDict [(PStr ''source_thread_id'', PStr s), (PStr ''target_thread_id'', PStr t), (PStr ''assistant_id'', PStr a),
                 (PStr ''workspace_clone_mode'', PStr m)])"

definition event_name_of :: "thread_event \<Rightarrow> string" where
  "event_name_of ev = (case ev of ThreadDeleted _ _ \<Rightarrow> ''thread_deleted'' | ThreadBranched _ _ _ _ _ _ \<Rightarrow> ''thread_branched'')"

text \<open>The factory of the gateway opens the journal of a user once the id was validated.\<close>

definition open_journal :: "string \<Rightarrow> dispatch_error + unit" where
  "open_journal u = (case lc_validate_owner_id (PStr u) of Inl e \<Rightarrow> Inl (DispatchJournal e) | Inr _ \<Rightarrow> Inr ())"

definition td_prepare :: "td_env \<Rightarrow> dispatcher \<Rightarrow> thread_event \<Rightarrow> td_world \<Rightarrow> (dispatch_error + thread_intent) \<times> td_world" where
  "td_prepare env cfg ev w =
     (if \<not> td_journaled cfg
      then (Inr \<lparr>ti_user = te_user ev, ti_event = event_name_of ev, ti_operation = None\<rparr>, w)
      else
        (case open_journal (te_user ev) of
           Inl e \<Rightarrow> (Inl e, w)
         | Inr _ \<Rightarrow>
             (case td_call env (te_user ev) (\<lambda>n. lc_prepare (te_journal env) (te_user ev) (PStr (event_name_of ev))
                       (event_payload ev) (PList (map PStr (td_keys cfg))) (te_clock env n)) w of
                (Inl e, w1) \<Rightarrow> (Inl (DispatchJournal e), w1)
              | (Inr o', w1) \<Rightarrow>
                  (Inr \<lparr>ti_user = te_user ev, ti_event = event_name_of ev,
                        ti_operation = Some (ev_operation (lop_event o'))\<rparr>, w1))))"

fun direct_all :: "td_env \<Rightarrow> thread_event \<Rightarrow> string list \<Rightarrow> td_world \<Rightarrow> (string \<times> dispatch_failure) list \<times> td_world" where
  "direct_all env ev [] w = ([], w)"
| "direct_all env ev (k # ks) w =
     (case call_handler env None k ev w of
        (r, w1) \<Rightarrow>
          (case direct_all env ev ks w1 of
             (fs, w2) \<Rightarrow> ((case r of None \<Rightarrow> fs | Some t \<Rightarrow> (k, HandlerRaised t) # fs), w2)))"

definition dispatch_direct :: "td_env \<Rightarrow> dispatcher \<Rightarrow> string \<Rightarrow> thread_event \<Rightarrow> td_world \<Rightarrow> (dispatch_error + unit) \<times> td_world" where
  "dispatch_direct env cfg name ev w =
     (case direct_all env ev (td_keys cfg) w of
        (fs, w1) \<Rightarrow> (if fs \<noteq> [] then Inl (DispatchFailed name fs None) else Inr (), w1))"

section \<open>Durable dispatch\<close>

definition restore_event :: "lc_operation \<Rightarrow> thread_event" where
  "restore_event o' =
     (case sr_payload (lop_source o') of
        DeletedPayload t \<Rightarrow> ThreadDeleted (ev_owner (lop_event o')) t
      | BranchedPayload s t a m \<Rightarrow> ThreadBranched (ev_owner (lop_event o')) s t a m (sr_committed_at (lop_source o')))"

text \<open>Renewals while the handler runs; the first one that fails ends them.\<close>

fun heartbeats :: "td_env \<Rightarrow> dispatcher \<Rightarrow> string \<Rightarrow> string \<Rightarrow> string \<Rightarrow> string \<Rightarrow> nat \<Rightarrow> td_world \<Rightarrow> td_world" where
  "heartbeats env cfg u op key aid 0 w = w"
| "heartbeats env cfg u op key aid (Suc n) w =
     (case td_call env u (\<lambda>i. lc_renew_attempt (te_journal env) u (PStr op) (PStr key) (PStr aid) (td_lease cfg) (te_clock env i)) w of
        (Inl _, w1) \<Rightarrow> w1
      | (Inr _, w1) \<Rightarrow> heartbeats env cfg u op key aid n w1)"

definition finish_call ::
    "td_env \<Rightarrow> string \<Rightarrow> string \<Rightarrow> string \<Rightarrow> string \<Rightarrow> bool \<Rightarrow> pyval \<Rightarrow> td_world \<Rightarrow> (lc_error + lc_operation) \<times> td_world" where
  "finish_call env u op key aid succeeded err w =
     td_call env u (\<lambda>i. lc_finish_attempt (te_journal env) u (PStr op) (PStr key) (PStr aid) succeeded err (te_clock env i)) w"

definition dispatch_one ::
    "td_env \<Rightarrow> dispatcher \<Rightarrow> string \<Rightarrow> string \<Rightarrow> thread_event \<Rightarrow> string \<Rightarrow> td_world \<Rightarrow> dispatch_failure option \<times> td_world" where
  "dispatch_one env cfg u op ev key w =
     (if key \<notin> set (td_keys cfg) then (Some HandlerUnavailable, w)
      else
        (case td_call env u (\<lambda>i. lc_begin_attempt (te_journal env) u (PStr op) (PStr key) (td_lease cfg) (te_ids env i) (te_clock env i)) w of
           (Inl e, w1) \<Rightarrow> (Some (JournalFailure e), w1)
         | (Inr None, w1) \<Rightarrow> (None, w1)
         | (Inr (Some aid), w1) \<Rightarrow>
             (case call_handler env (Some op) key ev w1 of
                (r, w2) \<Rightarrow>
                  (let w3 = (case td_interval cfg of
                               None \<Rightarrow> w2
                             | Some _ \<Rightarrow> heartbeats env cfg u op key aid (te_beats env (tw_tick w2)) w2)
                   in case r of
                        Some t \<Rightarrow> (Some (HandlerRaised t), snd (finish_call env u op key aid False (PStr (take 128 t)) w3))
                      | None \<Rightarrow>
                          (case finish_call env u op key aid True PNone w3 of
                             (Inl e, w4) \<Rightarrow> (Some (JournalFailure e), w4)
                           | (Inr _, w4) \<Rightarrow> (None, w4))))))"

fun dispatch_all ::
    "td_env \<Rightarrow> dispatcher \<Rightarrow> string \<Rightarrow> string \<Rightarrow> thread_event \<Rightarrow> string list \<Rightarrow> td_world
      \<Rightarrow> (string \<times> dispatch_failure) list \<times> td_world" where
  "dispatch_all env cfg u op ev [] w = ([], w)"
| "dispatch_all env cfg u op ev (k # ks) w =
     (case dispatch_one env cfg u op ev k w of
        (r, w1) \<Rightarrow>
          (case dispatch_all env cfg u op ev ks w1 of
             (fs, w2) \<Rightarrow> ((case r of None \<Rightarrow> fs | Some f \<Rightarrow> (k, f) # fs), w2)))"

definition dispatch_durable ::
    "td_env \<Rightarrow> dispatcher \<Rightarrow> string \<Rightarrow> lc_operation \<Rightarrow> td_world \<Rightarrow> (dispatch_error + lc_operation) \<times> td_world" where
  "dispatch_durable env cfg u o' w =
     (let e = lop_event o'; op = ev_operation e
      in case dispatch_all env cfg u op (restore_event o') (ev_handlers e) w of
           (fs, w1) \<Rightarrow>
             (case td_call env u (\<lambda>_ j. (lc_get (te_journal env) u (PStr op) j, j)) w1 of
                (Inl err, w2) \<Rightarrow> (Inl (DispatchJournal err), w2)
              | (Inr p, w2) \<Rightarrow>
                  (if fs \<noteq> [] then Inl (DispatchFailed (lc_payload_event (ev_payload e)) fs (Some op)) else Inr p, w2)))"

section \<open>Commit, abort and replay\<close>

definition td_commit ::
    "td_env \<Rightarrow> dispatcher \<Rightarrow> thread_intent \<Rightarrow> thread_event \<Rightarrow> td_world \<Rightarrow> (dispatch_error + unit) \<times> td_world" where
  "td_commit env cfg i ev w =
     (if te_user ev \<noteq> ti_user i then (Inl (DispatchValueError ''Lifecycle intent owner does not match its event''), w)
      else
        (case ti_operation i of
           None \<Rightarrow> dispatch_direct env cfg (ti_event i) ev w
         | Some op \<Rightarrow>
             if \<not> td_journaled cfg then (Inl (DispatchRuntimeError ''Lifecycle journaling is not configured''), w)
             else
               (case open_journal (ti_user i) of
                  Inl e \<Rightarrow> (Inl e, w)
                | Inr _ \<Rightarrow>
                    if ti_event i = ''thread_deleted'' \<and> event_name_of ev \<noteq> ''thread_deleted''
                    then (Inl (DispatchValueError ''Lifecycle delete intent has the wrong event type''), w)
                    else if ti_event i \<noteq> ''thread_deleted'' \<and> event_name_of ev \<noteq> ''thread_branched''
                    then (Inl (DispatchValueError ''Lifecycle branch intent has the wrong event type''), w)
                    else
                      (case td_call env (ti_user i) (\<lambda>n. lc_commit_source (te_journal env) (ti_user i) (PStr op) (event_payload ev)
                                (te_clock env n)) w of
                         (Inl e, w1) \<Rightarrow> (Inl (DispatchJournal e), w1)
                       | (Inr o', w1) \<Rightarrow>
                           (case dispatch_durable env cfg (ti_user i) o' w1 of
                              (Inl e, w2) \<Rightarrow> (Inl e, w2)
                            | (Inr _, w2) \<Rightarrow> (Inr (), w2))))))"

definition commit_thread_deleted ::
    "td_env \<Rightarrow> dispatcher \<Rightarrow> thread_intent \<Rightarrow> thread_event \<Rightarrow> td_world \<Rightarrow> (dispatch_error + unit) \<times> td_world" where
  "commit_thread_deleted env cfg i ev w =
     (if ti_event i \<noteq> ''thread_deleted'' then (Inl (DispatchValueError ''Lifecycle intent is not a thread delete''), w)
      else td_commit env cfg i ev w)"

definition commit_thread_branched ::
    "td_env \<Rightarrow> dispatcher \<Rightarrow> thread_intent \<Rightarrow> thread_event \<Rightarrow> td_world \<Rightarrow> (dispatch_error + unit) \<times> td_world" where
  "commit_thread_branched env cfg i ev w =
     (if ti_event i \<noteq> ''thread_branched'' then (Inl (DispatchValueError ''Lifecycle intent is not a thread branch''), w)
      else td_commit env cfg i ev w)"

definition td_abort :: "td_env \<Rightarrow> dispatcher \<Rightarrow> thread_intent \<Rightarrow> pyval \<Rightarrow> td_world \<Rightarrow> (dispatch_error + unit) \<times> td_world" where
  "td_abort env cfg i error_type w =
     (case ti_operation i of
        None \<Rightarrow> (Inr (), w)
      | Some op \<Rightarrow>
          if \<not> td_journaled cfg then (Inl (DispatchRuntimeError ''Lifecycle journaling is not configured''), w)
          else
            (case open_journal (ti_user i) of
               Inl e \<Rightarrow> (Inl e, w)
             | Inr _ \<Rightarrow>
                 (case td_call env (ti_user i) (\<lambda>n. lc_abort_source (te_journal env) (ti_user i) (PStr op) error_type (te_clock env n)) w of
                    (Inl e, w1) \<Rightarrow> (Inl (DispatchJournal e), w1)
                  | (Inr _, w1) \<Rightarrow> (Inr (), w1))))"

text \<open>\<open>thread_deleted\<close> and \<open>thread_branched\<close>: prepare, then commit.\<close>

definition thread_changed :: "td_env \<Rightarrow> dispatcher \<Rightarrow> thread_event \<Rightarrow> td_world \<Rightarrow> (dispatch_error + unit) \<times> td_world" where
  "thread_changed env cfg ev w =
     (case td_prepare env cfg ev w of
        (Inl e, w1) \<Rightarrow> (Inl e, w1)
      | (Inr i, w1) \<Rightarrow>
          (case ev of
             ThreadDeleted _ _ \<Rightarrow> commit_thread_deleted env cfg i ev w1
           | ThreadBranched _ _ _ _ _ _ \<Rightarrow> commit_thread_branched env cfg i ev w1))"

record replay_report =
  rp_scanned :: nat
  rp_pending :: nat
  rp_repaired :: nat
  rp_still_pending :: nat
  rp_failed :: nat
  rp_awaiting_source :: nat
  rp_limit_reached :: bool

text \<open>The loop counts repaired and failed operations; only \<open>ThreadLifecycleDispatchError\<close> is caught.\<close>

fun replay_loop ::
    "td_env \<Rightarrow> dispatcher \<Rightarrow> string \<Rightarrow> lc_operation list \<Rightarrow> nat \<Rightarrow> nat \<Rightarrow> td_world \<Rightarrow> (dispatch_error + nat \<times> nat) \<times> td_world" where
  "replay_loop env cfg u [] repaired failed w = (Inr (repaired, failed), w)"
| "replay_loop env cfg u (o' # os) repaired failed w =
     (case dispatch_durable env cfg u o' w of
        (Inl (DispatchFailed _ _ _), w1) \<Rightarrow> replay_loop env cfg u os repaired (Suc failed) w1
      | (Inl e, w1) \<Rightarrow> (Inl e, w1)
      | (Inr p, w1) \<Rightarrow>
          replay_loop env cfg u os (if lop_status p = ''succeeded'' then Suc repaired else repaired) failed w1)"

definition list_unfinished :: "td_env \<Rightarrow> string \<Rightarrow> td_world \<Rightarrow> (lc_error + lc_operation list) \<times> td_world" where
  "list_unfinished env u w = td_call env u (\<lambda>_ j. (lc_list (te_journal env) u 10000 True True j, j)) w"

definition replay_user ::
    "td_env \<Rightarrow> dispatcher \<Rightarrow> string \<Rightarrow> int \<Rightarrow> td_world \<Rightarrow> (dispatch_error + replay_report) \<times> td_world" where
  "replay_user env cfg u limit w =
     (if \<not> td_journaled cfg then (Inl (DispatchRuntimeError ''Lifecycle journaling is not configured''), w)
      else if \<not> (1 \<le> limit \<and> limit \<le> 500) then (Inl (DispatchValueError ''Lifecycle replay limit is invalid''), w)
      else
        (case open_journal u of
           Inl e \<Rightarrow> (Inl e, w)
         | Inr _ \<Rightarrow>
             (case list_unfinished env u w of
                (Inl e, w1) \<Rightarrow> (Inl (DispatchJournal e), w1)
              | (Inr pending, w1) \<Rightarrow>
                  (let committed = filter (\<lambda>o'. sr_status (lop_source o') = ''committed'') pending;
                       limited = take (nat limit) committed
                   in case replay_loop env cfg u limited 0 0 w1 of
                        (Inl e, w2) \<Rightarrow> (Inl e, w2)
                      | (Inr (repaired, failed), w2) \<Rightarrow>
                          (case list_unfinished env u w2 of
                             (Inl e, w3) \<Rightarrow> (Inl (DispatchJournal e), w3)
                           | (Inr remaining, w3) \<Rightarrow>
                               (Inr \<lparr>rp_scanned = length limited, rp_pending = length pending, rp_repaired = repaired,
                                    rp_still_pending = length remaining, rp_failed = failed,
                                    rp_awaiting_source = length (filter (\<lambda>o'. sr_status (lop_source o') = ''prepared'') remaining),
                                    rp_limit_reached = nat limit < length committed\<rparr>, w3))))))"

section \<open>Steps of the journal\<close>

text \<open>Other tasks and processes use the journal through its operations.\<close>

definition others_ok :: "td_env \<Rightarrow> bool" where
  "others_ok env \<longleftrightarrow> (\<forall>n u j. lc_steps (te_journal env) u j (te_others env n u j))"

definition world_steps :: "td_env \<Rightarrow> string \<Rightarrow> td_world \<Rightarrow> td_world \<Rightarrow> bool" where
  "world_steps env u w w' \<longleftrightarrow> lc_steps (te_journal env) u (tw_journal w u) (tw_journal w' u)"

lemma world_steps_refl [simp]: "world_steps env u w w"
  by (simp add: world_steps_def steps_refl)

lemma world_steps_trans: "world_steps env u w w' \<Longrightarrow> world_steps env u w' w'' \<Longrightarrow> world_steps env u w w''"
  unfolding world_steps_def using steps_trans by blast

lemma td_call_eq:
  "td_call env u f w = (r, w') \<Longrightarrow>
     \<exists>j'. f (tw_tick w) (te_others env (tw_tick w) u (tw_journal w u)) = (r, j') \<and> tw_journal w' u = j' \<and> tw_calls w' = tw_calls w"
  by (auto simp: td_call_def Let_def split: prod.splits)

lemma td_call_steps:
  assumes "others_ok env" and "td_call env u f w = (r, w')"
    and "\<And>n j. lc_steps (te_journal env) u j (snd (f n j))"
  shows "world_steps env u w w' \<and> tw_calls w' = tw_calls w"
proof -
  let ?j = "te_others env (tw_tick w) u (tw_journal w u)"
  from td_call_eq [OF assms(2)] have "tw_journal w' u = snd (f (tw_tick w) ?j)" "tw_calls w' = tw_calls w" by auto
  moreover have "lc_steps (te_journal env) u (tw_journal w u) ?j" using assms(1) by (simp add: others_ok_def)
  ultimately show ?thesis using assms(3) steps_trans unfolding world_steps_def by metis
qed

lemmas one_step = steps_one [OF step_prepare] steps_one [OF step_commit] steps_one [OF step_abort] steps_one [OF step_begin]
  steps_one [OF step_renew] steps_one [OF step_finish]

lemma call_handler_steps:
  "call_handler env op key ev w = (r, w') \<Longrightarrow> world_steps env u w w' \<and> tw_calls w' = tw_calls w @ [(op, key, ev)]"
  by (auto simp: call_handler_def world_steps_def steps_refl)

lemma heartbeats_steps:
  assumes "others_ok env"
  shows "world_steps env u w (heartbeats env cfg u op key aid n w) \<and> tw_calls (heartbeats env cfg u op key aid n w) = tw_calls w"
proof (induction n arbitrary: w)
  case (Suc n)
  obtain r w1 where call: "td_call env u (\<lambda>i. lc_renew_attempt (te_journal env) u (PStr op) (PStr key) (PStr aid) (td_lease cfg)
      (te_clock env i)) w = (r, w1)" by fastforce
  note k = td_call_steps [OF assms call one_step(5)]
  show ?case
  proof (cases r)
    case (Inl e)
    with k call show ?thesis by simp
  next
    case (Inr l)
    with k call Suc.IH [of w1] show ?thesis by (auto intro: world_steps_trans)
  qed
qed simp

lemma finish_call_steps:
  assumes "others_ok env"
  shows "world_steps env u w (snd (finish_call env u op key aid s err w)) \<and> tw_calls (snd (finish_call env u op key aid s err w)) = tw_calls w"
proof -
  obtain r w1 where "finish_call env u op key aid s err w = (r, w1)" by fastforce
  then show ?thesis using td_call_steps [OF assms _ one_step(6)] unfolding finish_call_def by fastforce
qed

section \<open>Settled handlers\<close>

definition settled_in :: "string \<Rightarrow> string \<Rightarrow> lc_journal \<Rightarrow> bool" where
  "settled_in op key j \<longleftrightarrow> (\<exists>d. map_of (lj_entries j) op = Some (OperationDir d) \<and> settled_handler key d)"

lemma settled_in_kept:
  assumes "settled_in op key j" and "lc_steps env owner j k" and "lc_wf j"
  shows "settled_in op key k"
proof -
  from assms(1) obtain d where d: "map_of (lj_entries j) op = Some (OperationDir d)" "settled_handler key d"
    by (auto simp: settled_in_def)
  from lc_steps_kept [OF assms(2,3)] d(1) obtain e where "map_of (lj_entries k) op = Some (OperationDir e)" "op_kept d e"
    unfolding journal_kept_def by blast
  with settled_kept [OF d(2)] show ?thesis by (auto simp: settled_in_def)
qed

lemma settled_in_begin:
  assumes "settled_in (str_of v) (str_of k) j"
  shows "lc_begin_attempt env owner v k l ids t j \<noteq> (Inr (Some aid), j1)"
proof
  assume "lc_begin_attempt env owner v k l ids t j = (Inr (Some aid), j1)"
  then obtain d d' where d: "map_of (lj_entries j) (str_of v) = Some (OperationDir d)"
      "begin_in env owner (str_of v) (str_of k) l ids t d = (Inr (Some aid), d')"
    by (rule begin_attempt_Some)
  with assms have "settled_handler (str_of k) d" by (auto simp: settled_in_def)
  from settled_begin [OF this, of env owner "str_of v" l ids t] d(2) show False by auto
qed

lemma finish_settles:
  assumes "lc_finish_attempt env owner v k a True er t j = (Inr o', j1)" and "lc_wf j"
  shows "settled_in (str_of v) (str_of k) j1"
proof -
  obtain aid u d d' where d: "map_of (lj_entries j) (str_of v) = Some (OperationDir d)"
      "finish_attempt_in env owner (str_of v) (str_of k) aid u d = (Inr (), d')" "lo_status u = ''succeeded''"
      "map_of (lj_entries j1) (str_of v) = Some (OperationDir d')"
    by (rule finish_attempt_Inr [OF assms(1)]) simp
  have "op_wf d" using assms(2) d(1) by (auto simp: lc_wf_def)
  with finish_in_settles [OF d(2,3)] d(4) show ?thesis by (auto simp: settled_in_def)
qed

lemma str_of_PStr [simp]: "str_of (PStr s) = s"
  by (simp add: str_of_def)

text \<open>One handler: it is called at most once, never after a recorded success, and a call that is not reported as
  a failure is recorded as a success.\<close>

lemma dispatch_one_calls:
  assumes ok: "others_ok env" and wf: "lc_wf (tw_journal w u)" and run: "dispatch_one env cfg u op ev key w = (r, w')"
  shows "world_steps env u w w'
    \<and> (tw_calls w' = tw_calls w
       \<or> tw_calls w' = tw_calls w @ [(Some op, key, ev)] \<and> \<not> settled_in op key (tw_journal w u)
         \<and> (r = None \<longrightarrow> settled_in op key (tw_journal w' u)))"
proof (cases "key \<in> set (td_keys cfg)")
  case False
  with run show ?thesis by (auto simp: dispatch_one_def)
next
  case True
  obtain b w1 where b: "td_call env u (\<lambda>i. lc_begin_attempt (te_journal env) u (PStr op) (PStr key) (td_lease cfg) (te_ids env i)
      (te_clock env i)) w = (b, w1)" by fastforce
  note k1 = td_call_steps [OF ok b one_step(4)]
  show ?thesis
  proof (cases "\<exists>aid. b = Inr (Some aid)")
    case False
    with run True b have "w' = w1"
      by (auto simp: dispatch_one_def split: sum.splits option.splits)
    with k1 show ?thesis by auto
  next
    case True
    then obtain aid where aid: "b = Inr (Some aid)" by blast
    obtain c w2 where c: "call_handler env (Some op) key ev w1 = (c, w2)" by fastforce
    note k2 = call_handler_steps [OF c, of u]
    define w3 where "w3 = (case td_interval cfg of None \<Rightarrow> w2
        | Some _ \<Rightarrow> heartbeats env cfg u op key aid (te_beats env (tw_tick w2)) w2)"
    have k3: "world_steps env u w2 w3 \<and> tw_calls w3 = tw_calls w2"
      using heartbeats_steps [OF ok] by (simp add: w3_def split: option.splits)
    let ?err = "case c of Some t \<Rightarrow> PStr (take 128 t) | None \<Rightarrow> PNone"
    obtain f w4 where f: "finish_call env u op key aid (c = None) ?err w3 = (f, w4)" by fastforce
    have k4: "world_steps env u w3 w4 \<and> tw_calls w4 = tw_calls w3"
      using finish_call_steps [OF ok, of u w3 op key aid "c = None" ?err] f by simp
    have res: "w' = w4 \<and> (r = None \<longrightarrow> c = None \<and> (\<exists>p. f = Inr p))"
      using run \<open>key \<in> set (td_keys cfg)\<close> b aid c f
      by (cases c) (auto simp: dispatch_one_def w3_def [symmetric] split: sum.splits)
    have steps: "world_steps env u w w3" using k1 k2 k3 world_steps_trans by blast
    have fresh: "\<not> settled_in op key (tw_journal w u)"
    proof
      assume s: "settled_in op key (tw_journal w u)"
      let ?j = "te_others env (tw_tick w) u (tw_journal w u)"
      have "lc_steps (te_journal env) u (tw_journal w u) ?j" using ok by (simp add: others_ok_def)
      from settled_in_kept [OF s this wf] have "settled_in op key ?j" .
      moreover from td_call_eq [OF b] aid obtain j' where
        "lc_begin_attempt (te_journal env) u (PStr op) (PStr key) (td_lease cfg) (te_ids env (tw_tick w))
           (te_clock env (tw_tick w)) ?j = (Inr (Some aid), j')" by auto
      ultimately show False using settled_in_begin [of "PStr op" "PStr key"] by simp
    qed
    have "settled_in op key (tw_journal w' u)" if "r = None"
    proof -
      let ?j = "te_others env (tw_tick w3) u (tw_journal w3 u)"
      from res that obtain p where p: "c = None" "f = Inr p" "w' = w4" by auto
      from f p obtain j' where fin: "lc_finish_attempt (te_journal env) u (PStr op) (PStr key) (PStr aid) True PNone
          (te_clock env (tw_tick w3)) ?j = (Inr p, j')" "tw_journal w4 u = j'"
        using td_call_eq unfolding finish_call_def by fastforce
      have "lc_steps (te_journal env) u (tw_journal w u) ?j"
        using steps ok steps_trans unfolding world_steps_def others_ok_def by blast
      with lc_steps_kept wf have "lc_wf ?j" by blast
      with finish_settles [OF fin(1)] fin(2) p show ?thesis by simp
    qed
    with res fresh k1 k2 k3 k4 steps world_steps_trans show ?thesis by auto
  qed
qed

lemma world_wf: "lc_wf (tw_journal w u) \<Longrightarrow> world_steps env u w w' \<Longrightarrow> lc_wf (tw_journal w' u)"
  unfolding world_steps_def using lc_steps_kept by blast

lemma world_settled:
  "settled_in op key (tw_journal w u) \<Longrightarrow> world_steps env u w w' \<Longrightarrow> lc_wf (tw_journal w u) \<Longrightarrow> settled_in op key (tw_journal w' u)"
  unfolding world_steps_def using settled_in_kept by blast

lemma dispatch_all_calls:
  assumes "others_ok env" and "lc_wf (tw_journal w u)" and "dispatch_all env cfg u op ev ks w = (fs, w')"
  shows "world_steps env u w w'
    \<and> (\<exists>called. tw_calls w' = tw_calls w @ map (\<lambda>k. (Some op, k, ev)) called \<and> subseq called ks
        \<and> (\<forall>k \<in> set called. \<not> settled_in op k (tw_journal w u)
             \<and> (k \<in> fst ` set fs \<or> settled_in op k (tw_journal w' u))))"
  using assms(2,3)
proof (induction ks arbitrary: w fs w')
  case Nil
  then show ?case by auto
next
  case (Cons k ks)
  obtain r w1 where one: "dispatch_one env cfg u op ev k w = (r, w1)" by fastforce
  obtain gs w2 where rest: "dispatch_all env cfg u op ev ks w1 = (gs, w2)" by fastforce
  from Cons.prems(2) one rest have res: "w' = w2" "fs = (case r of None \<Rightarrow> gs | Some f \<Rightarrow> (k, f) # gs)" by auto
  note k1 = dispatch_one_calls [OF assms(1) Cons.prems(1) one]
  have wf1: "lc_wf (tw_journal w1 u)" using world_wf [OF Cons.prems(1)] k1 by blast
  from Cons.IH [OF wf1 rest] obtain called where k2: "world_steps env u w1 w2"
    "tw_calls w2 = tw_calls w1 @ map (\<lambda>k. (Some op, k, ev)) called" "subseq called ks"
    "\<forall>k \<in> set called. \<not> settled_in op k (tw_journal w1 u) \<and> (k \<in> fst ` set gs \<or> settled_in op k (tw_journal w2 u))"
    by blast
  have all: "world_steps env u w w'" using k1 k2(1) res world_steps_trans by blast
  have kept: "\<forall>x \<in> set called. \<not> settled_in op x (tw_journal w u) \<and> (x \<in> fst ` set fs \<or> settled_in op x (tw_journal w' u))"
    using k2(4) res world_settled k1 Cons.prems(1) by (auto split: option.splits)
  show ?case
  proof (cases "tw_calls w1 = tw_calls w")
    case True
    with all k2 kept res show ?thesis by (intro conjI exI [of _ called]) (auto)
  next
    case False
    with k1 have c: "tw_calls w1 = tw_calls w @ [(Some op, k, ev)]" "\<not> settled_in op k (tw_journal w u)"
        "r = None \<longrightarrow> settled_in op k (tw_journal w1 u)" by auto
    have "k \<in> fst ` set fs \<or> settled_in op k (tw_journal w' u)"
      using c(3) res world_settled [OF _ k2(1) wf1] by (cases r) auto
    with all k2 kept res c show ?thesis by (intro conjI exI [of _ "k # called"]) auto
  qed
qed

lemma dispatched_calls:
  assumes "others_ok env" and "lc_wf (tw_journal w u)" and "dispatch_durable env cfg u o' w = (r, w')"
  shows "\<exists>called. tw_calls w' = tw_calls w @ map (\<lambda>k. (Some (ev_operation (lop_event o')), k, restore_event o')) called
    \<and> (\<forall>k \<in> set called. \<not> settled_in (ev_operation (lop_event o')) k (tw_journal w u))
    \<and> world_steps env u w w'"
proof -
  let ?e = "lop_event o'"
  obtain fs w1 where all: "dispatch_all env cfg u (ev_operation ?e) (restore_event o') (ev_handlers ?e) w = (fs, w1)" by fastforce
  obtain g w2 where get: "td_call env u (\<lambda>_ j. (lc_get (te_journal env) u (PStr (ev_operation ?e)) j, j)) w1 = (g, w2)" by fastforce
  from assms(3) all get have "w' = w2" by (auto simp: dispatch_durable_def Let_def split: sum.splits if_splits)
  moreover have "world_steps env u w1 w2 \<and> tw_calls w2 = tw_calls w1"
    using td_call_steps [OF assms(1) get] by (simp add: steps_refl)
  ultimately show ?thesis using dispatch_all_calls [OF assms(1,2) all] world_steps_trans by metis
qed

section \<open>Properties\<close>

text \<open>C31. A durable dispatch calls each handler of the operation at most once and in order, none that had a
  recorded success, and with the restored event; every call is afterwards either recorded in the journal as a
  success or its handler is among those the raised error names, unless reading the operation back fails.\<close>
theorem dispatched_calls_are_accounted:
  assumes "others_ok env" and "lc_wf (tw_journal w u)" and "dispatch_durable env cfg u o' w = (r, w')"
  shows "\<exists>called. tw_calls w' = tw_calls w @ map (\<lambda>k. (Some (ev_operation (lop_event o')), k, restore_event o')) called
    \<and> subseq called (ev_handlers (lop_event o'))
    \<and> (\<forall>k \<in> set called. \<not> settled_in (ev_operation (lop_event o')) k (tw_journal w u)
         \<and> (case r of
              Inr p \<Rightarrow> settled_in (ev_operation (lop_event o')) k (tw_journal w' u)
            | Inl (DispatchFailed name fs op) \<Rightarrow>
                k \<in> fst ` set fs \<or> settled_in (ev_operation (lop_event o')) k (tw_journal w' u)
            | Inl e \<Rightarrow> \<exists>err. e = DispatchJournal err))"
proof -
  let ?e = "lop_event o'"
  obtain fs w1 where all: "dispatch_all env cfg u (ev_operation ?e) (restore_event o') (ev_handlers ?e) w = (fs, w1)" by fastforce
  obtain g w2 where get: "td_call env u (\<lambda>_ j. (lc_get (te_journal env) u (PStr (ev_operation ?e)) j, j)) w1 = (g, w2)" by fastforce
  from assms(3) all get have res: "w' = w2" "r = (case g of Inl err \<Rightarrow> Inl (DispatchJournal err)
      | Inr p \<Rightarrow> if fs \<noteq> [] then Inl (DispatchFailed (lc_payload_event (ev_payload ?e)) fs (Some (ev_operation ?e))) else Inr p)"
    by (auto simp: dispatch_durable_def Let_def split: sum.splits)
  have k2: "world_steps env u w1 w2 \<and> tw_calls w2 = tw_calls w1"
    using td_call_steps [OF assms(1) get] by (simp add: steps_refl)
  from dispatch_all_calls [OF assms(1,2) all] obtain called where
    k1: "world_steps env u w w1" "tw_calls w1 = tw_calls w @ map (\<lambda>k. (Some (ev_operation ?e), k, restore_event o')) called"
      "subseq called (ev_handlers ?e)"
      "\<forall>k \<in> set called. \<not> settled_in (ev_operation ?e) k (tw_journal w u)
         \<and> (k \<in> fst ` set fs \<or> settled_in (ev_operation ?e) k (tw_journal w1 u))"
    by blast
  have "settled_in (ev_operation ?e) k (tw_journal w' u)" if "settled_in (ev_operation ?e) k (tw_journal w1 u)" for k
    using world_settled [OF that conjunct1 [OF k2] world_wf [OF assms(2) k1(1)]] res by simp
  with k1 k2 res show ?thesis by (intro exI [of _ called]) (auto split: sum.splits)
qed

lemma dispatch_durable_steps:
  "others_ok env \<Longrightarrow> lc_wf (tw_journal w u) \<Longrightarrow> dispatch_durable env cfg u o' w = (r, w') \<Longrightarrow> world_steps env u w w'"
  using dispatched_calls by blast

text \<open>The calls of one handler for one operation.\<close>

definition calls_of :: "string \<Rightarrow> string \<Rightarrow> td_world \<Rightarrow> (string option \<times> string \<times> thread_event) list" where
  "calls_of op key w = filter (\<lambda>c. fst c = Some op \<and> fst (snd c) = key) (tw_calls w)"

lemma durable_skips_settled:
  assumes "others_ok env" and "lc_wf (tw_journal w u)" and "settled_in op key (tw_journal w u)"
    and "dispatch_durable env cfg u o' w = (r, w')"
  shows "calls_of op key w' = calls_of op key w"
proof -
  from dispatched_calls [OF assms(1,2,4)] obtain called where
    c: "tw_calls w' = tw_calls w @ map (\<lambda>k. (Some (ev_operation (lop_event o')), k, restore_event o')) called"
      "\<forall>k \<in> set called. \<not> settled_in (ev_operation (lop_event o')) k (tw_journal w u)"
    by blast
  with assms(3) show ?thesis by (auto simp: calls_of_def filter_empty_conv)
qed

lemma replay_loop_skips_settled:
  assumes "others_ok env" and "lc_wf (tw_journal w u)" and "settled_in op key (tw_journal w u)"
    and "replay_loop env cfg u os n m w = (r, w')"
  shows "world_steps env u w w' \<and> calls_of op key w' = calls_of op key w"
  using assms(2-)
proof (induction os arbitrary: n m w)
  case (Cons o' os)
  obtain d w1 where d: "dispatch_durable env cfg u o' w = (d, w1)" by fastforce
  note s1 = dispatch_durable_steps [OF assms(1) Cons.prems(1) d]
  note c1 = durable_skips_settled [OF assms(1) Cons.prems(1,2) d]
  note wf1 = world_wf [OF Cons.prems(1) s1] and st1 = world_settled [OF Cons.prems(2) s1 Cons.prems(1)]
  have "w' = w1 \<or> (\<exists>n m. replay_loop env cfg u os n m w1 = (r, w'))"
    using Cons.prems(3) d by (auto split: sum.splits dispatch_error.splits)
  then show ?case
  proof
    assume "w' = w1"
    with s1 c1 show ?thesis by simp
  next
    assume "\<exists>n m. replay_loop env cfg u os n m w1 = (r, w')"
    then obtain n m where "replay_loop env cfg u os n m w1 = (r, w')" by blast
    from Cons.IH [OF wf1 st1 this] s1 c1 world_steps_trans show ?thesis by auto
  qed
qed simp

lemma list_unfinished_steps:
  "others_ok env \<Longrightarrow> list_unfinished env u w = (r, w') \<Longrightarrow> world_steps env u w w' \<and> tw_calls w' = tw_calls w"
  unfolding list_unfinished_def using td_call_steps by (fastforce simp: steps_refl)

lemma direct_all_calls:
  "direct_all env ev ks w = (fs, w') \<Longrightarrow>
     tw_calls w' = tw_calls w @ map (\<lambda>k. (None, k, ev)) ks \<and> tw_journal w' = tw_journal w"
  by (induction env ev ks w arbitrary: fs w' rule: direct_all.induct)
    (auto simp: call_handler_def split: prod.splits)

lemma dispatch_direct_calls:
  "tw_calls (snd (dispatch_direct env cfg name ev w)) = tw_calls w @ map (\<lambda>k. (None, k, ev)) (td_keys cfg)"
proof -
  obtain fs w1 where run: "direct_all env ev (td_keys cfg) w = (fs, w1)" by fastforce
  from direct_all_calls [OF run] show ?thesis by (simp add: dispatch_direct_def run)
qed

lemma replay_skips_settled:
  assumes "others_ok env" and "lc_wf (tw_journal w u)" and "settled_in op key (tw_journal w u)"
    and "replay_user env cfg u limit w = (r, w')"
  shows "calls_of op key w' = calls_of op key w"
proof -
  obtain p w1 where l1: "list_unfinished env u w = (p, w1)" by fastforce
  note s1 = list_unfinished_steps [OF assms(1) l1]
  show ?thesis
  proof (cases "w' = w \<or> w' = w1")
    case True
    with s1 show ?thesis by (auto simp: calls_of_def)
  next
    case False
    note run = assms(4) [unfolded replay_user_def l1]
    with False obtain pending where p: "p = Inr pending"
      by (cases p) (simp_all split: if_splits sum.splits)
    let ?ops = "take (nat limit) (filter (\<lambda>o'. sr_status (lop_source o') = ''committed'') pending)"
    obtain q w2 where q: "replay_loop env cfg u ?ops 0 0 w1 = (q, w2)" by fastforce
    obtain z w3 where l2: "list_unfinished env u w2 = (z, w3)" by fastforce
    from False run p q l2 have "w' = w2 \<or> w' = w3"
      by (cases q; cases z) (auto simp: Let_def split: if_splits sum.splits)
    moreover have "calls_of op key w2 = calls_of op key w1"
      using replay_loop_skips_settled [OF assms(1) _ _ q] world_wf [OF assms(2) conjunct1 [OF s1]]
        world_settled [OF assms(3) conjunct1 [OF s1] assms(2)] by blast
    ultimately show ?thesis using s1 list_unfinished_steps [OF assms(1) l2] by (auto simp: calls_of_def)
  qed
qed

lemma commit_skips_settled:
  assumes "others_ok env" and "lc_wf (tw_journal w (ti_user i))" and "settled_in op key (tw_journal w (ti_user i))"
    and "td_commit env cfg i ev w = (r, w')"
  shows "calls_of op key w' = calls_of op key w"
proof (cases "ti_operation i")
  case None
  then show ?thesis
    using assms(4) dispatch_direct_calls [of env cfg "ti_event i" ev w]
    by (auto simp: td_commit_def calls_of_def filter_empty_conv split: if_splits)
next
  case (Some o')
  obtain c w1 where c: "td_call env (ti_user i) (\<lambda>n. lc_commit_source (te_journal env) (ti_user i) (PStr o') (event_payload ev)
      (te_clock env n)) w = (c, w1)" by fastforce
  note s1 = td_call_steps [OF assms(1) c one_step(2)]
  show ?thesis
  proof (cases "w' = w \<or> w' = w1")
    case True
    with s1 show ?thesis by (auto simp: calls_of_def)
  next
    case False
    with assms(4) Some c obtain p d where "c = Inr p" "dispatch_durable env cfg (ti_user i) p w1 = (d, w')"
      by (auto simp: td_commit_def split: if_splits sum.splits prod.splits)
    with durable_skips_settled [OF assms(1) world_wf [OF assms(2) conjunct1 [OF s1]]
        world_settled [OF assms(3) conjunct1 [OF s1] assms(2)]] s1
    show ?thesis by (auto simp: calls_of_def)
  qed
qed

text \<open>C32. A handler whose success is recorded for an operation is never called for it again: neither by a replay of
  the user's unfinished operations nor by committing an intent again, whatever other tasks and processes do to the
  journal in the meantime.\<close>
theorem settled_handler_is_not_called_again:
  assumes "others_ok env" and "lc_wf (tw_journal w u)" and "settled_in op key (tw_journal w u)"
  shows "calls_of op key (snd (replay_user env cfg u limit w)) = calls_of op key w
    \<and> (ti_user i = u \<longrightarrow> calls_of op key (snd (td_commit env cfg i ev w)) = calls_of op key w)"
  using replay_skips_settled [OF assms prod.collapse [symmetric]]
    commit_skips_settled [OF assms(1) _ _ prod.collapse [symmetric], of w i op key cfg ev] assms(2,3)
  by blast

section \<open>A dispatch for the witnesses\<close>

definition solo_env :: td_env where
  "solo_env = \<lparr>te_journal = unary_env, te_handler = (\<lambda>_ _ _. None), te_beats = (\<lambda>_. 1), te_others = (\<lambda>_ _ j. j),
     te_clock = int, te_ids = (\<lambda>_. [PStr unary_a])\<rparr>"

definition solo_cfg :: dispatcher where
  "solo_cfg = \<lparr>td_keys = [''h''], td_journaled = True, td_lease = 50, td_interval = Some 17\<rparr>"

definition solo_world :: "lc_journal \<Rightarrow> td_world" where
  "solo_world j = \<lparr>tw_journal = (\<lambda>_. j), tw_tick = 0, tw_calls = []\<rparr>"

lemma solo_ok: "others_ok solo_env"
  by (simp add: others_ok_def solo_env_def steps_refl)

lemma committed_operation:
  "\<exists>o'. lc_get unary_env ''u'' (PStr unary_op) unary_committed = Inr o' \<and> ev_handlers (lop_event o') = [''h'']"
proof -
  have "case lc_get unary_env ''u'' (PStr unary_op) unary_committed of Inl _ \<Rightarrow> False | Inr o' \<Rightarrow> ev_handlers (lop_event o') = [''h'']"
    by code_simp
  then show ?thesis by (auto split: sum.splits)
qed

theorem dispatched_calls_are_accounted_witness:
  "\<exists>o' called. lc_get unary_env ''u'' (PStr unary_op) unary_committed = Inr o'
     \<and> map (fst \<circ> snd) (tw_calls (snd (dispatch_durable solo_env solo_cfg ''u'' o' (solo_world unary_committed)))) = called
     \<and> subseq called [''h'']"
proof -
  obtain o' where o': "lc_get unary_env ''u'' (PStr unary_op) unary_committed = Inr o'" "ev_handlers (lop_event o') = [''h'']"
    using committed_operation by blast
  have wf: "lc_wf (tw_journal (solo_world unary_committed) ''u'')" using unary_wf(2) by (simp add: solo_world_def)
  from dispatched_calls_are_accounted [OF solo_ok wf, of solo_cfg o', OF prod.collapse [symmetric]] obtain called where
    "tw_calls (snd (dispatch_durable solo_env solo_cfg ''u'' o' (solo_world unary_committed)))
       = tw_calls (solo_world unary_committed) @ map (\<lambda>k. (Some (ev_operation (lop_event o')), k, restore_event o')) called"
    "subseq called (ev_handlers (lop_event o'))" by blast
  with o' show ?thesis by (intro exI [of _ o'] exI [of _ called]) (simp add: solo_world_def comp_def)
qed

theorem settled_handler_is_not_called_again_witness:
  "\<exists>j. calls_of unary_op ''h'' (snd (replay_user solo_env solo_cfg ''u'' 5 (solo_world j))) = []"
proof -
  let ?f = "lc_finish_attempt unary_env ''u'' (PStr unary_op) (PStr ''h'') (PStr unary_a) True PNone 3 unary_started"
  obtain o' where "fst ?f = Inr o'" using unary_finished_ok by (auto simp: is_Inr_iff)
  then have f: "?f = (Inr o', snd ?f)" by (simp add: prod_eq_iff)
  have "lc_wf (tw_journal (solo_world (snd ?f)) ''u'')"
    using lc_step_kept [OF step_finish unary_wf(3)] by (simp add: solo_world_def)
  moreover have "settled_in unary_op ''h'' (tw_journal (solo_world (snd ?f)) ''u'')"
    using finish_settles [OF f unary_wf(3)] by (simp add: solo_world_def)
  ultimately show ?thesis
    using settled_handler_is_not_called_again [OF solo_ok, of "solo_world (snd ?f)" "''u''" unary_op "''h''" solo_cfg 5]
    by (intro exI [of _ "snd ?f"]) (simp add: calls_of_def solo_world_def)
qed

end
