(* ===== verification/MemoryQueue.thy ===== *)
theory MemoryQueue
  imports Prelude
begin

text \<open>
  \<open>MemoryUpdateQueue\<close> (\<open>agents/memory/queue.py\<close>): conversations wait for a debounced update of the memory.
  Each section under \<open>self._lock\<close> is one function of the state.  Time is counted in an arbitrary unit.  A
  timer that fired is a callback that waits for the lock, and so is a call of \<open>_process_queue\<close> by \<open>flush\<close>,
  which carries no generation.  The contexts handed to the updater are a trace.
\<close>

section \<open>State\<close>

record conversation =
  cc_thread :: string
  cc_messages :: "pyval list"
  cc_timestamp :: int
  cc_agent :: "string option"
  cc_user :: "string option"
  cc_correction :: bool
  cc_reinforcement :: bool
  cc_cancelled :: bool

record memory_queue =
  mq_queue :: "conversation list"
  mq_timer :: "(nat \<times> int) option"
  mq_generation :: nat
  mq_deadline :: "int option"
  mq_flush :: bool
  mq_processing :: bool
  mq_active :: "conversation list"
  mq_discarded :: "(string \<times> string option) list"
  mq_callbacks :: "nat option list"
  mq_position :: nat
  mq_started :: "conversation list"

record memory_config =
  mc_enabled :: bool
  mc_debounce :: int

definition new_memory_queue :: memory_queue where
  "new_memory_queue = \<lparr>mq_queue = [], mq_timer = None, mq_generation = 0, mq_deadline = None, mq_flush = False,
     mq_processing = False, mq_active = [], mq_discarded = [], mq_callbacks = [], mq_position = 0, mq_started = []\<rparr>"

definition queue_key :: "conversation \<Rightarrow> string \<times> string option \<times> string option" where
  "queue_key c = (cc_thread c, cc_user c, cc_agent c)"

section \<open>Timer\<close>

definition cancel_timer :: "memory_queue \<Rightarrow> memory_queue" where
  "cancel_timer q = q\<lparr>mq_generation := Suc (mq_generation q), mq_timer := None\<rparr>"

definition schedule_timer :: "int \<Rightarrow> int \<Rightarrow> memory_queue \<Rightarrow> memory_queue" where
  "schedule_timer now_t delay q0 =
     (let q = cancel_timer q0
      in if mq_queue q = [] then q\<lparr>mq_deadline := None, mq_flush := False\<rparr>
         else
           (let q1 = q\<lparr>mq_deadline := Some (now_t + delay), mq_flush := (mq_flush q \<or> delay \<le> 0)\<rparr>
            in if mq_processing q1 then q1
               else q1\<lparr>mq_timer := Some (mq_generation q1, now_t + (if mq_flush q1 then 0 else delay))\<rparr>))"

definition reset_timer :: "memory_config \<Rightarrow> int \<Rightarrow> memory_queue \<Rightarrow> memory_queue" where
  "reset_timer cfg now_t q = schedule_timer now_t (mc_debounce cfg) q"

section \<open>Adding\<close>

definition is_thread_discarded :: "memory_queue \<Rightarrow> string \<Rightarrow> string option \<Rightarrow> bool" where
  "is_thread_discarded q t u \<longleftrightarrow> (t, u) \<in> set (mq_discarded q) \<or> (t, None) \<in> set (mq_discarded q)"

text \<open>The argument is the new conversation with its own flags.\<close>

definition enqueue_locked :: "conversation \<Rightarrow> memory_queue \<Rightarrow> bool \<times> memory_queue" where
  "enqueue_locked c q =
     (if is_thread_discarded q (cc_thread c) (cc_user c) then (False, q)
      else
        (let existing = find (\<lambda>x. queue_key x = queue_key c) (mq_queue q);
             merged = c\<lparr>cc_correction := (cc_correction c \<or> (case existing of None \<Rightarrow> False | Some x \<Rightarrow> cc_correction x)),
                        cc_reinforcement := (cc_reinforcement c \<or> (case existing of None \<Rightarrow> False | Some x \<Rightarrow> cc_reinforcement x)),
                        cc_cancelled := False\<rparr>
         in (True, q\<lparr>mq_queue := filter (\<lambda>x. queue_key x \<noteq> queue_key c) (mq_queue q) @ [merged]\<rparr>)))"

definition mq_add :: "memory_config \<Rightarrow> int \<Rightarrow> conversation \<Rightarrow> memory_queue \<Rightarrow> memory_queue" where
  "mq_add cfg now_t c q =
     (if \<not> mc_enabled cfg then q
      else (case enqueue_locked c q of (ok, q1) \<Rightarrow> if \<not> ok then q1 else reset_timer cfg now_t q1))"

definition mq_add_nowait :: "memory_config \<Rightarrow> int \<Rightarrow> conversation \<Rightarrow> memory_queue \<Rightarrow> memory_queue" where
  "mq_add_nowait cfg now_t c q =
     (if \<not> mc_enabled cfg then q
      else (case enqueue_locked c q of (ok, q1) \<Rightarrow> if \<not> ok then q1 else schedule_timer now_t 0 q1))"

section \<open>Deleted threads\<close>

definition matches_thread :: "string \<Rightarrow> string option \<Rightarrow> conversation \<Rightarrow> bool" where
  "matches_thread t u c \<longleftrightarrow> cc_thread c = t \<and> (u = None \<or> cc_user c = u)"

definition cancel_matching :: "string \<Rightarrow> string option \<Rightarrow> conversation list \<Rightarrow> conversation list" where
  "cancel_matching t u cs = map (\<lambda>c. if matches_thread t u c then c\<lparr>cc_cancelled := True\<rparr> else c) cs"

definition discard_thread :: "string \<Rightarrow> string option \<Rightarrow> memory_queue \<Rightarrow> nat \<times> memory_queue" where
  "discard_thread t u q =
     (let discarded = filter (matches_thread t u) (mq_queue q);
          active = filter (matches_thread t u) (mq_active q);
          q1 = q\<lparr>mq_discarded := List.insert (t, u) (mq_discarded q),
                 mq_queue := filter (\<lambda>c. \<not> matches_thread t u c) (mq_queue q),
                 mq_active := cancel_matching t u (mq_active q)\<rparr>
      in (length discarded + length active,
          if mq_queue q1 = [] then (cancel_timer q1)\<lparr>mq_deadline := None, mq_flush := False\<rparr> else q1))"

definition allow_thread :: "string \<Rightarrow> string option \<Rightarrow> memory_queue \<Rightarrow> memory_queue" where
  "allow_thread t u q =
     q\<lparr>mq_discarded := filter (\<lambda>x. x \<noteq> (t, u) \<and> (u = None \<or> x \<noteq> (t, None))) (mq_discarded q)\<rparr>"

section \<open>Processing\<close>

text \<open>The first section of \<open>_process_queue\<close>.\<close>

definition process_begin :: "nat option \<Rightarrow> memory_queue \<Rightarrow> memory_queue" where
  "process_begin generation q =
     (if generation \<noteq> None \<and> generation \<noteq> Some (mq_generation q) then q
      else if mq_processing q then q\<lparr>mq_flush := (mq_queue q \<noteq> [])\<rparr>
      else
        (let q1 = (cancel_timer q)\<lparr>mq_deadline := None, mq_flush := False\<rparr>
         in if mq_queue q1 = [] then q1
            else q1\<lparr>mq_processing := True, mq_active := mq_queue q1, mq_queue := [], mq_position := 0\<rparr>))"

text \<open>One pass of the loop: a cancelled context is skipped.\<close>

definition process_next :: "memory_queue \<Rightarrow> memory_queue" where
  "process_next q =
     (let c = mq_active q ! mq_position q
      in q\<lparr>mq_position := Suc (mq_position q),
           mq_started := (if cc_cancelled c then mq_started q else mq_started q @ [c])\<rparr>)"

definition process_end :: "int \<Rightarrow> memory_queue \<Rightarrow> memory_queue" where
  "process_end now_t q =
     (let q1 = q\<lparr>mq_active := [], mq_processing := False\<rparr>
      in if mq_queue q1 = [] then q1
         else schedule_timer now_t
                (if mq_flush q1 then 0 else (case mq_deadline q1 of None \<Rightarrow> 0 | Some t \<Rightarrow> max 0 (t - now_t))) q1)"

definition mq_flush_begin :: "memory_queue \<Rightarrow> memory_queue" where
  "mq_flush_begin q = (cancel_timer q)\<lparr>mq_callbacks := None # mq_callbacks q\<rparr>"

definition flush_nowait :: "int \<Rightarrow> memory_queue \<Rightarrow> memory_queue" where
  "flush_nowait now_t q = schedule_timer now_t 0 q"

definition mq_clear :: "memory_queue \<Rightarrow> memory_queue" where
  "mq_clear q = (cancel_timer q)\<lparr>mq_deadline := None, mq_flush := False,
     mq_active := map (\<lambda>c. c\<lparr>cc_cancelled := True\<rparr>) (mq_active q), mq_queue := [], mq_discarded := []\<rparr>"

definition pending_count :: "memory_queue \<Rightarrow> nat" where
  "pending_count q = length (mq_queue q)"

section \<open>Steps\<close>

datatype mq_label =
    LAdd | LDiscard string "string option" | LAllow string "string option" | LClear | LOther

inductive mq_step :: "memory_config \<Rightarrow> mq_label \<Rightarrow> memory_queue \<Rightarrow> memory_queue \<Rightarrow> bool" for cfg where
  step_add: "mq_step cfg LAdd q (mq_add cfg now_t c q)"
| step_add_nowait: "mq_step cfg LAdd q (mq_add_nowait cfg now_t c q)"
| step_discard: "mq_step cfg (LDiscard t u) q (snd (discard_thread t u q))"
| step_allow: "mq_step cfg (LAllow t u) q (allow_thread t u q)"
| step_clear: "mq_step cfg LClear q (mq_clear q)"
| step_flush: "mq_step cfg LOther q (mq_flush_begin q)"
| step_flush_nowait: "mq_step cfg LOther q (flush_nowait now_t q)"
| step_fire: "mq_timer q = Some (g, due) \<Longrightarrow> due \<le> now_t
    \<Longrightarrow> mq_step cfg LOther q (q\<lparr>mq_timer := None, mq_callbacks := Some g # mq_callbacks q\<rparr>)"
| step_callback: "g \<in> set (mq_callbacks q)
    \<Longrightarrow> mq_step cfg LOther q (process_begin g (q\<lparr>mq_callbacks := remove1 g (mq_callbacks q)\<rparr>))"
| step_next: "mq_processing q \<Longrightarrow> mq_position q < length (mq_active q) \<Longrightarrow> mq_step cfg LOther q (process_next q)"
| step_end: "mq_processing q \<Longrightarrow> mq_step cfg LOther q (process_end now_t q)"

inductive mq_steps :: "memory_config \<Rightarrow> mq_label list \<Rightarrow> memory_queue \<Rightarrow> memory_queue \<Rightarrow> bool" for cfg where
  mq_refl: "mq_steps cfg [] q q"
| mq_trans: "mq_steps cfg ls q r \<Longrightarrow> mq_step cfg l r s \<Longrightarrow> mq_steps cfg (ls @ [l]) q s"

inductive_cases mq_stepE: "mq_step cfg l q r"

section \<open>Invariant\<close>

text \<open>Somebody is about to look at the queue: the worker, a pending timer, or a callback whose generation is still
  the current one.\<close>

definition will_process :: "memory_queue \<Rightarrow> bool" where
  "will_process q \<longleftrightarrow> mq_processing q \<or> (\<exists>due. mq_timer q = Some (mq_generation q, due))
     \<or> Some (mq_generation q) \<in> set (mq_callbacks q) \<or> None \<in> set (mq_callbacks q)"

definition mq_inv :: "memory_queue \<Rightarrow> bool" where
  "mq_inv q \<longleftrightarrow>
     (mq_queue q \<noteq> [] \<longrightarrow> will_process q)
     \<and> distinct (map queue_key (mq_queue q))
     \<and> (\<forall>c \<in> set (mq_queue q). \<not> cc_cancelled c \<and> \<not> is_thread_discarded q (cc_thread c) (cc_user c))
     \<and> (\<forall>g due. mq_timer q = Some (g, due) \<longrightarrow> g = mq_generation q \<and> \<not> mq_processing q \<and> mq_queue q \<noteq> [])
     \<and> (mq_processing q \<or> mq_active q = [])"

lemma distinct_map_filter_key: "distinct (map f xs) \<Longrightarrow> distinct (map f (filter P xs))"
  by (rule distinct_map_filter)

lemma schedule_inv:
  assumes "distinct (map queue_key (mq_queue q))" and "mq_processing q \<or> mq_active q = []"
    and "\<forall>c \<in> set (mq_queue q). \<not> cc_cancelled c \<and> \<not> is_thread_discarded q (cc_thread c) (cc_user c)"
  shows "mq_inv (schedule_timer now_t delay q)"
  using assms
  by (auto simp: mq_inv_def schedule_timer_def cancel_timer_def Let_def will_process_def is_thread_discarded_def)

lemma enqueue_inv:
  assumes "mq_inv q"
  shows "distinct (map queue_key (mq_queue (snd (enqueue_locked c q))))
    \<and> (\<forall>x \<in> set (mq_queue (snd (enqueue_locked c q))).
         \<not> cc_cancelled x \<and> \<not> is_thread_discarded (snd (enqueue_locked c q)) (cc_thread x) (cc_user x))"
  using assms
  by (auto simp: mq_inv_def enqueue_locked_def Let_def is_thread_discarded_def queue_key_def distinct_map_filter_key)

lemma enqueue_rest:
  "mq_processing (snd (enqueue_locked c q)) = mq_processing q" "mq_active (snd (enqueue_locked c q)) = mq_active q"
  "fst (enqueue_locked c q) = False \<Longrightarrow> snd (enqueue_locked c q) = q"
  by (auto simp: enqueue_locked_def Let_def)

lemma add_inv:
  assumes "mq_inv q"
  shows "mq_inv (mq_add cfg now_t c q)" and "mq_inv (mq_add_nowait cfg now_t c q)"
proof -
  obtain ok q1 where e: "enqueue_locked c q = (ok, q1)" by fastforce
  have "mq_processing q1 \<or> mq_active q1 = []" using assms enqueue_rest(1,2) [of c q] e by (auto simp: mq_inv_def)
  with enqueue_inv [OF assms, of c] e have s: "mq_inv (schedule_timer now_t d q1)" for d
    by (intro schedule_inv) auto
  have "\<not> ok \<Longrightarrow> q1 = q" using enqueue_rest(3) [of c q] e by simp
  with s assms e show "mq_inv (mq_add cfg now_t c q)" and "mq_inv (mq_add_nowait cfg now_t c q)"
    by (auto simp: mq_add_def mq_add_nowait_def reset_timer_def)
qed

lemma discard_inv:
  assumes "mq_inv q"
  shows "mq_inv (snd (discard_thread t u q))"
proof -
  have "will_process q" if "filter (\<lambda>c. \<not> matches_thread t u c) (mq_queue q) \<noteq> []"
    using assms that by (auto simp: mq_inv_def)
  with assms show ?thesis
    by (auto simp: mq_inv_def discard_thread_def Let_def cancel_timer_def will_process_def is_thread_discarded_def
        matches_thread_def cancel_matching_def distinct_map_filter_key)
qed

lemma allow_inv: "mq_inv q \<Longrightarrow> mq_inv (allow_thread t u q)"
  by (auto simp: mq_inv_def allow_thread_def will_process_def is_thread_discarded_def)

lemma clear_inv: "mq_inv q \<Longrightarrow> mq_inv (mq_clear q)"
  by (auto simp: mq_inv_def mq_clear_def cancel_timer_def)

lemma flush_inv: "mq_inv q \<Longrightarrow> mq_inv (mq_flush_begin q)"
  by (auto simp: mq_inv_def mq_flush_begin_def cancel_timer_def will_process_def is_thread_discarded_def)

lemma flush_nowait_inv: "mq_inv q \<Longrightarrow> mq_inv (flush_nowait now_t q)"
  unfolding flush_nowait_def by (rule schedule_inv) (auto simp: mq_inv_def)

lemma fire_inv:
  "mq_inv q \<Longrightarrow> mq_timer q = Some (g, due) \<Longrightarrow> mq_inv (q\<lparr>mq_timer := None, mq_callbacks := Some g # mq_callbacks q\<rparr>)"
  by (auto simp: mq_inv_def will_process_def is_thread_discarded_def)

lemma callback_inv:
  assumes "mq_inv q" and "g \<in> set (mq_callbacks q)"
  shows "mq_inv (process_begin g (q\<lparr>mq_callbacks := remove1 g (mq_callbacks q)\<rparr>))"
proof -
  let ?q = "q\<lparr>mq_callbacks := remove1 g (mq_callbacks q)\<rparr>"
  consider (stale) "g \<noteq> None \<and> g \<noteq> Some (mq_generation q)" | (busy) "g = None \<or> g = Some (mq_generation q)" "mq_processing q"
    | (free) "g = None \<or> g = Some (mq_generation q)" "\<not> mq_processing q" by (cases "mq_processing q"; cases "g = None \<or> g = Some (mq_generation q)") auto
  then show ?thesis
  proof cases
    case stale
    then have "process_begin g ?q = ?q" by (simp add: process_begin_def)
    moreover have "will_process ?q" if "will_process q" using that stale by (auto simp: will_process_def)
    ultimately show ?thesis using assms(1) by (auto simp: mq_inv_def is_thread_discarded_def)
  next
    case busy
    then have "process_begin g ?q = ?q\<lparr>mq_flush := mq_queue q \<noteq> []\<rparr>" by (auto simp: process_begin_def)
    with busy assms(1) show ?thesis by (auto simp: mq_inv_def will_process_def is_thread_discarded_def)
  next
    case free
    with assms(1) show ?thesis
      by (auto simp: process_begin_def mq_inv_def Let_def cancel_timer_def will_process_def is_thread_discarded_def)
  qed
qed

lemma next_inv: "mq_inv q \<Longrightarrow> mq_inv (process_next q)"
  by (auto simp: mq_inv_def process_next_def Let_def will_process_def is_thread_discarded_def)

lemma end_inv:
  assumes "mq_inv q"
  shows "mq_inv (process_end now_t q)"
proof -
  let ?q = "q\<lparr>mq_active := [], mq_processing := False\<rparr>"
  have s: "mq_inv (schedule_timer now_t d ?q)" for d
    using assms by (intro schedule_inv) (auto simp: mq_inv_def is_thread_discarded_def)
  show ?thesis
  proof (cases "mq_queue q = []")
    case True
    with assms show ?thesis by (auto simp: mq_inv_def process_end_def)
  next
    case False
    then show ?thesis unfolding process_end_def Let_def by (simp add: s)
  qed
qed

lemma step_inv: "mq_step cfg l q r \<Longrightarrow> mq_inv q \<Longrightarrow> mq_inv r"
  by (erule mq_step.cases)
    (simp_all add: add_inv discard_inv allow_inv clear_inv flush_inv flush_nowait_inv fire_inv callback_inv next_inv end_inv)

lemma new_inv: "mq_inv new_memory_queue"
  by (simp add: mq_inv_def new_memory_queue_def)

lemma steps_inv: "mq_steps cfg ls q r \<Longrightarrow> mq_inv q \<Longrightarrow> mq_inv r"
  by (induction rule: mq_steps.induct) (auto intro: step_inv)

text \<open>C33. A queued conversation is never stranded: in every state the queue can reach, whatever the order of
  additions, deletions, flushes, timers and batches, a non-empty queue will be looked at again, by the worker, by a
  timer or a callback of the current generation, or by a flush; and it holds at most one conversation per thread,
  user and agent, none of them cancelled or of a deleted thread.\<close>
theorem queued_updates_are_not_stranded:
  assumes "mq_steps cfg ls new_memory_queue q"
  shows "(mq_queue q \<noteq> [] \<longrightarrow>
            mq_processing q \<or> (\<exists>due. mq_timer q = Some (mq_generation q, due))
            \<or> Some (mq_generation q) \<in> set (mq_callbacks q) \<or> None \<in> set (mq_callbacks q))
    \<and> distinct (map queue_key (mq_queue q))
    \<and> (\<forall>c \<in> set (mq_queue q). \<not> cc_cancelled c \<and> \<not> is_thread_discarded q (cc_thread c) (cc_user c))"
  using steps_inv [OF assms new_inv] by (simp add: mq_inv_def will_process_def)

section \<open>Deleted threads are not updated\<close>

text \<open>Nothing of the thread is queued or can be queued, and what the worker holds is cancelled.\<close>

definition thread_dead :: "string \<Rightarrow> string option \<Rightarrow> memory_queue \<Rightarrow> bool" where
  "thread_dead t u q \<longleftrightarrow>
     (t, u) \<in> set (mq_discarded q)
     \<and> (\<forall>c \<in> set (mq_queue q). \<not> matches_thread t u c)
     \<and> (\<forall>c \<in> set (mq_active q). matches_thread t u c \<longrightarrow> cc_cancelled c)"

definition revives :: "string \<Rightarrow> mq_label \<Rightarrow> bool" where
  "revives t l \<longleftrightarrow> l = LClear \<or> (\<exists>u. l = LAllow t u)"

lemma schedule_fields [simp]:
  "mq_queue (schedule_timer n d q) = mq_queue q" "mq_active (schedule_timer n d q) = mq_active q"
  "mq_discarded (schedule_timer n d q) = mq_discarded q" "mq_started (schedule_timer n d q) = mq_started q"
  by (simp_all add: schedule_timer_def cancel_timer_def Let_def)

lemma thread_dead_cong:
  "mq_queue r = mq_queue q \<Longrightarrow> mq_active r = mq_active q \<Longrightarrow> mq_discarded r = mq_discarded q \<Longrightarrow> thread_dead t u q \<Longrightarrow> thread_dead t u r"
  by (simp add: thread_dead_def)

lemma dead_enqueue:
  assumes "thread_dead t u q"
  shows "thread_dead t u (snd (enqueue_locked c q)) \<and> mq_started (snd (enqueue_locked c q)) = mq_started q"
proof (cases "matches_thread t u c")
  case True
  with assms have "is_thread_discarded q (cc_thread c) (cc_user c)"
    by (auto simp: thread_dead_def matches_thread_def is_thread_discarded_def)
  with assms show ?thesis by (simp add: enqueue_locked_def)
next
  case False
  with assms show ?thesis
    by (auto simp: thread_dead_def enqueue_locked_def Let_def matches_thread_def)
qed

text \<open>What a step starts is not of the dead thread, and the thread stays dead.\<close>

definition starts_none :: "string \<Rightarrow> string option \<Rightarrow> memory_queue \<Rightarrow> memory_queue \<Rightarrow> bool" where
  "starts_none t u q r \<longleftrightarrow> (\<exists>cs. mq_started r = mq_started q @ cs \<and> (\<forall>c \<in> set cs. \<not> matches_thread t u c))"

lemma starts_none_same: "mq_started r = mq_started q \<Longrightarrow> starts_none t u q r"
  by (simp add: starts_none_def)

lemma dead_step:
  assumes "mq_step cfg l q r" and "thread_dead t u q" and "\<not> revives t l"
  shows "thread_dead t u r \<and> starts_none t u q r"
  using assms(1)
proof (cases rule: mq_step.cases)
  case (step_add n c)
  with dead_enqueue [OF assms(2), of c] show ?thesis
    by (auto simp: mq_add_def reset_timer_def starts_none_same assms(2) split: prod.splits intro: thread_dead_cong)
next
  case (step_add_nowait n c)
  with dead_enqueue [OF assms(2), of c] show ?thesis
    by (auto simp: mq_add_nowait_def starts_none_same assms(2) split: prod.splits intro: thread_dead_cong)
next
  case (step_discard t' u')
  with assms(2) show ?thesis
    by (auto simp: thread_dead_def discard_thread_def Let_def cancel_timer_def cancel_matching_def matches_thread_def
        starts_none_same)
next
  case (step_allow t' u')
  with assms(2,3) show ?thesis
    by (auto simp: thread_dead_def allow_thread_def revives_def starts_none_same)
next
  case step_clear
  with assms(3) show ?thesis by (simp add: revives_def)
next
  case step_flush
  with assms(2) show ?thesis by (auto simp: mq_flush_begin_def cancel_timer_def starts_none_same thread_dead_def)
next
  case (step_flush_nowait n)
  with assms(2) show ?thesis by (auto simp: flush_nowait_def starts_none_same intro: thread_dead_cong)
next
  case (step_fire g due n)
  with assms(2) show ?thesis by (auto simp: starts_none_same thread_dead_def)
next
  case (step_callback g)
  with assms(2) show ?thesis
    by (auto simp: process_begin_def Let_def cancel_timer_def starts_none_same thread_dead_def)
next
  case step_next
  then have "mq_active q ! mq_position q \<in> set (mq_active q)" by simp
  with step_next assms(2) show ?thesis
    by (auto simp: process_next_def Let_def thread_dead_def starts_none_def)
next
  case (step_end n)
  with assms(2) show ?thesis
    by (auto simp: process_end_def Let_def thread_dead_def starts_none_same)
qed

lemma dead_steps:
  assumes "mq_steps cfg ls q r" and "thread_dead t u q" and "\<forall>l \<in> set ls. \<not> revives t l"
  shows "thread_dead t u r \<and> starts_none t u q r"
  using assms
proof (induction rule: mq_steps.induct)
  case (mq_refl q)
  then show ?case by (simp add: starts_none_same)
next
  case (mq_trans ls q r l s)
  then have "thread_dead t u r" "starts_none t u q r" "thread_dead t u s" "starts_none t u r s"
    using dead_step by auto
  then show ?case by (auto simp: starts_none_def)
qed

text \<open>After a thread was discarded no update of its memory is started, not even for conversations the worker
  already took from the queue or that are added afterwards, as long as the thread is not allowed again and the
  queue is not cleared.\<close>
lemma discarded_threads_are_not_updated:
  assumes "mq_steps cfg ls (snd (discard_thread t u q)) r" and "\<forall>l \<in> set ls. \<not> revives t l"
  shows "\<exists>cs. mq_started r = mq_started q @ cs \<and> (\<forall>c \<in> set cs. cc_thread c = t \<longrightarrow> u \<noteq> None \<and> cc_user c \<noteq> u)"
proof -
  let ?d = "snd (discard_thread t u q)"
  have fields: "mq_queue ?d = filter (\<lambda>c. \<not> matches_thread t u c) (mq_queue q)"
    "mq_active ?d = cancel_matching t u (mq_active q)" "mq_discarded ?d = List.insert (t, u) (mq_discarded q)"
    "mq_started ?d = mq_started q"
    by (simp_all add: discard_thread_def Let_def cancel_timer_def)
  have "\<forall>c \<in> set (cancel_matching t u cs). matches_thread t u c \<longrightarrow> cc_cancelled c" for cs
    by (auto simp: cancel_matching_def)
  then have "thread_dead t u ?d" "mq_started ?d = mq_started q" by (simp_all add: thread_dead_def fields)
  with dead_steps [OF assms(1) _ assms(2), of u] obtain cs where
    "mq_started r = mq_started q @ cs" "\<forall>c \<in> set cs. \<not> matches_thread t u c"
    unfolding starts_none_def by metis
  then show ?thesis by (intro exI [of _ cs]) (auto simp: matches_thread_def)
qed

section \<open>The queue as a map\<close>

text \<open>What is pending for a thread, user and agent: the messages and the two flags.\<close>

definition pending_map :: "memory_queue \<Rightarrow> string \<times> string option \<times> string option \<Rightarrow> (pyval list \<times> bool \<times> bool) option" where
  "pending_map q = map_of (map (\<lambda>c. (queue_key c, cc_messages c, cc_correction c, cc_reinforcement c)) (mq_queue q))"

definition merge_pending ::
    "conversation \<Rightarrow> (pyval list \<times> bool \<times> bool) option \<Rightarrow> pyval list \<times> bool \<times> bool" where
  "merge_pending c p = (cc_messages c,
     cc_correction c \<or> (case p of None \<Rightarrow> False | Some (_, x, _) \<Rightarrow> x),
     cc_reinforcement c \<or> (case p of None \<Rightarrow> False | Some (_, _, x) \<Rightarrow> x))"

lemma find_pending:
  "map_option f (find (\<lambda>x. g x = k) xs) = map_of (map (\<lambda>c. (g c, f c)) xs) k"
  by (induction xs) auto

lemma map_of_filter_key:
  "map_of (map (\<lambda>c. (g c, f c)) (filter (\<lambda>c. P (g c)) xs)) = (\<lambda>k. if P k then map_of (map (\<lambda>c. (g c, f c)) xs) k else None)"
  by (induction xs) (auto simp: fun_eq_iff)

text \<open>C34. The queue implements a map of pending updates: adding a conversation replaces the pending messages of its
  thread, user and agent and keeps their flags raised, unless the thread is discarded; discarding a thread removes
  exactly its entries; a batch takes the whole map.\<close>
theorem queue_refines_pending_map:
  "pending_map (snd (enqueue_locked c q))
     = (if is_thread_discarded q (cc_thread c) (cc_user c) then pending_map q
        else (pending_map q)(queue_key c \<mapsto> merge_pending c (pending_map q (queue_key c))))
   \<and> pending_map (snd (discard_thread t u q))
     = (\<lambda>k. if fst k = t \<and> (u = None \<or> fst (snd k) = u) then None else pending_map q k)
   \<and> pending_map (process_begin g q)
     = (if (g = None \<or> g = Some (mq_generation q)) \<and> \<not> mq_processing q then Map.empty else pending_map q)"
proof (intro conjI)
  let ?f = "\<lambda>c. (cc_messages c, cc_correction c, cc_reinforcement c)"
  have pend: "pending_map q k = map_option ?f (find (\<lambda>x. queue_key x = k) (mq_queue q))" for k
    by (simp add: pending_map_def find_pending [of ?f queue_key])
  have flags: "(case find (\<lambda>x. queue_key x = k) (mq_queue q) of None \<Rightarrow> False | Some x \<Rightarrow> cc_correction x)
        = (case pending_map q k of None \<Rightarrow> False | Some (_, x, _) \<Rightarrow> x)"
      "(case find (\<lambda>x. queue_key x = k) (mq_queue q) of None \<Rightarrow> False | Some x \<Rightarrow> cc_reinforcement x)
        = (case pending_map q k of None \<Rightarrow> False | Some (_, _, x) \<Rightarrow> x)" for k
    by (simp_all add: pend split: option.splits)
  have others: "map_of (map (\<lambda>c. (queue_key c, ?f c)) (filter (\<lambda>x. queue_key x \<noteq> k) (mq_queue q))) = (pending_map q)(k := None)" for k
    using map_of_filter_key [of queue_key ?f "\<lambda>x. x \<noteq> k" "mq_queue q"] by (auto simp: pending_map_def fun_eq_iff)
  show "pending_map (snd (enqueue_locked c q)) = (if is_thread_discarded q (cc_thread c) (cc_user c) then pending_map q
        else (pending_map q)(queue_key c \<mapsto> merge_pending c (pending_map q (queue_key c))))"
  proof (cases "is_thread_discarded q (cc_thread c) (cc_user c)")
    case True
    then show ?thesis by (simp add: enqueue_locked_def)
  next
    case False
    let ?c = "c\<lparr>cc_correction := (cc_correction c \<or> (case pending_map q (queue_key c) of None \<Rightarrow> False | Some (_, x, _) \<Rightarrow> x)),
        cc_reinforcement := (cc_reinforcement c \<or> (case pending_map q (queue_key c) of None \<Rightarrow> False | Some (_, _, x) \<Rightarrow> x)),
        cc_cancelled := False\<rparr>"
    have "snd (enqueue_locked c q) = q\<lparr>mq_queue := filter (\<lambda>x. queue_key x \<noteq> queue_key c) (mq_queue q) @ [?c]\<rparr>"
      using False by (simp add: enqueue_locked_def Let_def flags)
    moreover have "queue_key ?c = queue_key c" by (simp add: queue_key_def)
    ultimately have "pending_map (snd (enqueue_locked c q))
        = map_of [(queue_key c, merge_pending c (pending_map q (queue_key c)))] ++ (pending_map q)(queue_key c := None)"
      by (simp add: pending_map_def [of "q\<lparr>mq_queue := _\<rparr>"] others merge_pending_def)
    with False show ?thesis by (auto simp: fun_eq_iff map_add_def split: option.splits)
  qed
  show "pending_map (snd (discard_thread t u q))
     = (\<lambda>k. if fst k = t \<and> (u = None \<or> fst (snd k) = u) then None else pending_map q k)"
  proof -
    let ?P = "\<lambda>k :: string \<times> string option \<times> string option. \<not> (fst k = t \<and> (u = None \<or> fst (snd k) = u))"
    have "mq_queue (snd (discard_thread t u q)) = filter (\<lambda>c. ?P (queue_key c)) (mq_queue q)"
      by (simp add: discard_thread_def Let_def cancel_timer_def matches_thread_def queue_key_def)
    then show ?thesis
      using map_of_filter_key [of queue_key ?f ?P "mq_queue q"] by (auto simp: pending_map_def fun_eq_iff)
  qed
  show "pending_map (process_begin g q)
     = (if (g = None \<or> g = Some (mq_generation q)) \<and> \<not> mq_processing q then Map.empty else pending_map q)"
    by (auto simp: process_begin_def pending_map_def Let_def cancel_timer_def)
qed

section \<open>Witnesses\<close>

definition demo_conversation :: conversation where
  "demo_conversation = \<lparr>cc_thread = ''t'', cc_messages = [PInt 1], cc_timestamp = 0, cc_agent = None, cc_user = Some ''u'',
     cc_correction = False, cc_reinforcement = True, cc_cancelled = False\<rparr>"

definition demo_queue :: memory_queue where
  "demo_queue = mq_add \<lparr>mc_enabled = True, mc_debounce = 30\<rparr> 100 demo_conversation new_memory_queue"

theorem queued_updates_are_not_stranded_witness:
  "mq_queue demo_queue \<noteq> [] \<and> mq_timer demo_queue = Some (1, 130) \<and> distinct (map queue_key (mq_queue demo_queue))"
proof -
  have "mq_steps \<lparr>mc_enabled = True, mc_debounce = 30\<rparr> ([] @ [LAdd]) new_memory_queue demo_queue"
    unfolding demo_queue_def by (rule mq_trans [OF mq_refl step_add])
  from queued_updates_are_not_stranded [OF this] show ?thesis
    by (simp add: demo_queue_def mq_add_def enqueue_locked_def new_memory_queue_def is_thread_discarded_def reset_timer_def
        schedule_timer_def cancel_timer_def)
qed

end
