(* ===== verification/JsonText.thy ===== *)
theory JsonText
  imports PyText
begin

text \<open>
  \<open>json.dumps(value, ensure_ascii=False, allow_nan=False, sort_keys=True, separators=(",", ":"))\<close> on JSON values
  with string keys.  The text of a finite float is a parameter.
\<close>

datatype json_error = JsonTypeError | JsonValueError

definition hex_digit :: "nat \<Rightarrow> char" where
  "hex_digit n = (if n < 10 then digit_char n else char_of (87 + n))"

definition json_char :: "char \<Rightarrow> string" where
  "json_char c =
     (if c = CHR 0x22 then [CHR 0x5C, CHR 0x22]
      else if c = CHR 0x5C then [CHR 0x5C, CHR 0x5C]
      else if c = CHR 0x0A then [CHR 0x5C, CHR ''n'']
      else if c = CHR 0x0D then [CHR 0x5C, CHR ''r'']
      else if c = CHR 0x09 then [CHR 0x5C, CHR ''t'']
      else if c = CHR 0x0C then [CHR 0x5C, CHR ''f'']
      else if c = CHR 0x08 then [CHR 0x5C, CHR ''b'']
      else if of_char c < (32 :: nat) then CHR 0x5C # ''u00'' @ [hex_digit (of_char c div 16), hex_digit (of_char c mod 16)]
      else [c])"

definition json_chars :: "string \<Rightarrow> string" where
  "json_chars s = concat (map json_char s)"

definition json_string :: "string \<Rightarrow> string" where
  "json_string s = CHR 0x22 # json_chars s @ [CHR 0x22]"

definition key_text :: "pyval \<Rightarrow> string" where
  "key_text k = (case k of PStr s \<Rightarrow> s | _ \<Rightarrow> [])"

definition str_key :: "pyval \<Rightarrow> bool" where
  "str_key k = (case k of PStr _ \<Rightarrow> True | _ \<Rightarrow> False)"

fun json_dumps :: "(rat \<Rightarrow> string) \<Rightarrow> pyval \<Rightarrow> json_error + string" where
  "json_dumps fl PNone = Inr ''null''"
| "json_dumps fl (PBool b) = Inr (if b then ''true'' else ''false'')"
| "json_dumps fl (PInt i) = Inr (int_str i)"
| "json_dumps fl (PFloat (Finite q)) = Inr (fl q)"
| "json_dumps fl (PFloat f) = Inl JsonValueError"
| "json_dumps fl (PStr s) = Inr (json_string s)"
| "json_dumps fl (PList vs) = rbind (map_res (json_dumps fl) vs) (\<lambda>ts. Inr (CHR ''['' # join_with '','' ts @ '']''))"
| "json_dumps fl (PDict d) =
     (if \<not> list_all (\<lambda>(k, v). str_key k) d then Inl JsonTypeError
      else rbind (map_res (\<lambda>(k, v). rbind (json_dumps fl v) (\<lambda>t. Inr (key_text k, t))) d) (\<lambda>es.
             Inr (CHR ''{'' # join_with '','' (map (\<lambda>(k, t). json_string k @ '':'' @ t) (sort_key fst es)) @ ''}'')))"
| "json_dumps fl (POther n) = Inl JsonTypeError"

text \<open>\<open>json.loads\<close> of that text: the value with its keys in order.\<close>

fun json_snapshot :: "pyval \<Rightarrow> pyval" where
  "json_snapshot (PList vs) = PList (map json_snapshot vs)"
| "json_snapshot (PDict d) = PDict (sort_key (\<lambda>(k, v). key_text k) (map (\<lambda>(k, v). (k, json_snapshot v)) d))"
| "json_snapshot v = v"

lemma json_chars_simps [simp]: "json_chars [] = []" "json_chars (c # s) = json_char c @ json_chars s"
  "json_chars (s @ t) = json_chars s @ json_chars t"
  by (simp_all add: json_chars_def)

lemma json_char_length: "1 \<le> length (json_char c)"
  by (simp add: json_char_def)

lemma json_chars_length: "length s \<le> length (json_chars s)"
proof (induction s)
  case (Cons c s)
  with json_char_length [of c] show ?case by simp
qed simp

lemma json_string_length: "length (json_string s) = length (json_chars s) + 2"
  by (simp add: json_string_def)

lemma length_join: "ts \<noteq> [] \<Longrightarrow> length (join_with s ts) = sum_list (map length ts) + (length ts - 1) * length s"
proof (induction s ts rule: join_with.induct)
  case (3 s x y xs)
  then show ?case by simp
qed simp_all

lemma map_insort_key: "map f (insort_key (\<lambda>x. g (f x)) x xs) = insort_key g (f x) (map f xs)"
  by (induction xs) auto

lemma map_sort_key: "map f (sort_key (\<lambda>x. g (f x)) xs) = sort_key g (map f xs)"
  by (induction xs) (simp_all add: map_insort_key)

lemma sort_key_twice: "sort_key f (sort_key f xs) = sort_key f xs"
  by (simp add: sort_key_id_if_sorted)

lemma map_res_values:
  "map_res f xs = Inr ys \<longleftrightarrow> (\<forall>x \<in> set xs. \<exists>y. f x = Inr y) \<and> ys = map (\<lambda>x. projr (f x)) xs"
  by (induction xs arbitrary: ys) (auto simp: res_simps)

text \<open>The text of the snapshot is the text itself.\<close>

lemma json_dumps_snapshot: "json_dumps fl v = Inr t \<Longrightarrow> json_dumps fl (json_snapshot v) = Inr t"
proof (induction v arbitrary: t rule: json_snapshot.induct)
  case (1 vs)
  then obtain ts where ts: "map_res (json_dumps fl) vs = Inr ts" "t = CHR ''['' # join_with '','' ts @ '']''"
    by (auto simp: res_simps)
  then have each: "json_dumps fl v = Inr (projr (json_dumps fl v))" if "v \<in> set vs" for v
    using that by (auto simp: map_res_values)
  then have "json_dumps fl (json_snapshot v) = Inr (projr (json_dumps fl v))" if "v \<in> set vs" for v
    using 1(1) that by blast
  then have "map_res (json_dumps fl) (map json_snapshot vs) = Inr ts" using ts(1) by (auto simp: map_res_values)
  with ts(2) show ?case by simp
next
  case (2 d)
  let ?f = "\<lambda>(k, v). rbind (json_dumps fl v) (\<lambda>t. Inr (key_text k, t))"
  let ?s = "map (\<lambda>(k, v). (k, json_snapshot v)) d"
  let ?p = "\<lambda>(k, v). (key_text k, projr (json_dumps fl v))"
  from 2(2) obtain es where keys: "list_all (\<lambda>(k, v). str_key k) d" and es: "map_res ?f d = Inr es"
    and t: "t = CHR ''{'' # join_with '','' (map (\<lambda>(k, t). json_string k @ '':'' @ t) (sort_key fst es)) @ ''}''"
    by (auto simp: res_simps split: if_splits)
  have ok: "\<exists>w. json_dumps fl v = Inr w" if "(k, v) \<in> set d" for k v
    using es that by (fastforce simp: map_res_values res_simps)
  have fd: "?f x = Inr (?p x)" if "x \<in> set d" for x
    using ok that by (cases x) force
  have es': "es = map ?p d" using es fd by (auto simp: map_res_values)
  have snap: "json_dumps fl (json_snapshot v) = Inr (projr (json_dumps fl v))" if kv: "(k, v) \<in> set d" for k v
  proof -
    from ok [OF kv] obtain w where w: "json_dumps fl v = Inr w" by blast
    from 2(1) [OF kv refl this] w show ?thesis by simp
  qed
  have fs: "?f x = Inr (?p x)" if x: "x \<in> set ?s" for x
  proof -
    from x obtain k v where kv: "(k, v) \<in> set d" "x = (k, json_snapshot v)" by auto
    with snap [OF kv(1)] show ?thesis by simp
  qed
  have ps: "?p (k, json_snapshot v) = ?p (k, v)" if "(k, v) \<in> set d" for k v using snap [OF that] by simp
  have "map_res ?f (sort_key (\<lambda>(k, v). key_text k) ?s) = Inr (map ?p (sort_key (\<lambda>(k, v). key_text k) ?s))"
    using fs by (auto simp: map_res_values)
  also have "map ?p (sort_key (\<lambda>(k, v). key_text k) ?s) = sort_key fst (map ?p ?s)"
    using map_sort_key [of ?p fst ?s] by (simp add: case_prod_unfold)
  also have "map ?p ?s = es" unfolding es' map_map by (rule map_cong [OF refl]) (use ps in force)
  finally have "map_res ?f (sort_key (\<lambda>(k, v). key_text k) ?s) = Inr (sort_key fst es)" .
  moreover have "list_all (\<lambda>(k, v). str_key k) (sort_key (\<lambda>(k, v). key_text k) ?s)"
    using keys by (auto simp: list_all_iff)
  ultimately show ?case unfolding json_snapshot.simps json_dumps.simps t by (simp add: sort_key_twice)
qed simp_all

end
