(* ===== verification/RunJournal.thy ===== *)
theory RunJournal
  imports PyText "HOL-Library.Multiset" "HOL-Library.AList" "HOL-Library.Code_Target_Nat"
begin

text \<open>
  \<open>RunJournal\<close> (\<open>runtime/journal.py\<close>): callbacks of the agent graph become events in a buffer that background
  tasks and the final flush write to the event store, and the token usage of a run is accumulated.  A message
  carries what the journal reads of it; \<open>jm_dump\<close> is its \<open>model_dump()\<close>.  Clock readings are whole
  milliseconds and one per callback.  A write ends in success, with an exception, or by
  cancellation; a final flush whose write is cancelled is over. Progress snapshots are not modelled.
\<close>

section \<open>Messages\<close>

datatype message_class = AiMessage | ToolResult | HumanText | OtherMessage

record journal_message =
  jm_class :: message_class
  jm_id :: "string option"
  jm_tool_call_id :: "string option"
  jm_name :: "string option"
  jm_content :: pyval
  jm_text :: string
  jm_kwargs :: py_items
  jm_tool_calls :: "pyval list"
  jm_usage :: py_items
  jm_response :: py_items
  jm_dump :: pyval

record journal_event =
  je_type :: string
  je_category :: string
  je_content :: pyval
  je_metadata :: pyval
  je_created :: string

record model_bucket =
  mb_input :: int
  mb_output :: int
  mb_total :: int
  mb_cache :: "int option"

text \<open>\<open>rj_written\<close> is what the store holds of this run; \<open>rj_log\<close> lists every event ever put, \<open>rj_lost\<close> the events of
  cancelled writes that are in no batch any more, and \<open>rj_entries\<close> every counted usage: its id, whether it came
  from outside, the caller and the total.\<close>

record run_journal =
  rj_thread :: string
  rj_run :: string
  rj_track :: bool
  rj_threshold :: int
  rj_buffer :: "journal_event list"
  rj_task :: "journal_event list option"
  rj_final :: "journal_event list option"
  rj_input :: int
  rj_output :: int
  rj_total :: int
  rj_calls :: nat
  rj_lead :: int
  rj_sub :: int
  rj_middleware :: int
  rj_models :: "(string \<times> model_bucket) list"
  rj_counted :: "string list"
  rj_external :: "string list"
  rj_counted_messages :: "string list"
  rj_last_ai :: "string option"
  rj_first_human :: "string option"
  rj_messages :: nat
  rj_fallback :: bool
  rj_fallback_text :: "string option"
  rj_starts :: "(string \<times> int) list"
  rj_index :: nat
  rj_seen :: "string list"
  rj_tool_names :: "(string \<times> string) list"
  rj_identities :: "string list"
  rj_written :: "journal_event list"
  rj_log :: "journal_event list"
  rj_lost :: "journal_event list"
  rj_entries :: "(string \<times> bool \<times> string \<times> int) list"

definition new_journal :: "string \<Rightarrow> string \<Rightarrow> bool \<Rightarrow> int \<Rightarrow> run_journal" where
  "new_journal run thread track threshold =
     \<lparr>rj_thread = thread, rj_run = run, rj_track = track, rj_threshold = threshold, rj_buffer = [], rj_task = None,
      rj_final = None, rj_input = 0, rj_output = 0, rj_total = 0, rj_calls = 0, rj_lead = 0, rj_sub = 0,
      rj_middleware = 0, rj_models = [], rj_counted = [], rj_external = [], rj_counted_messages = [], rj_last_ai = None,
      rj_first_human = None, rj_messages = 0, rj_fallback = False, rj_fallback_text = None, rj_starts = [], rj_index = 0,
      rj_seen = [], rj_tool_names = [], rj_identities = [], rj_written = [], rj_log = [], rj_lost = [], rj_entries = []\<rparr>"

text \<open>What a callback reads of its surroundings: whether an event loop runs, the time as text and in milliseconds.\<close>

record moment =
  mo_loop :: bool
  mo_iso :: string
  mo_ms :: int

section \<open>Buffer\<close>

definition flush_sync :: "bool \<Rightarrow> run_journal \<Rightarrow> run_journal" where
  "flush_sync running q =
     (if rj_buffer q = [] \<or> rj_task q \<noteq> None \<or> \<not> running then q
      else q\<lparr>rj_task := Some (rj_buffer q), rj_buffer := []\<rparr>)"

definition put_event :: "moment \<Rightarrow> string \<Rightarrow> string \<Rightarrow> pyval \<Rightarrow> pyval \<Rightarrow> run_journal \<Rightarrow> run_journal" where
  "put_event mo etype category content metadata q =
     (let e = \<lparr>je_type = etype, je_category = category, je_content = content, je_metadata = metadata, je_created = mo_iso mo\<rparr>;
          q1 = q\<lparr>rj_buffer := rj_buffer q @ [e], rj_log := rj_log q @ [e]\<rparr>
      in if rj_threshold q1 \<le> int (length (rj_buffer q1)) then flush_sync (mo_loop mo) q1 else q1)"

text \<open>The background task ends: its batch was written, or \<open>put_batch\<close> raised after writing the first \<open>k\<close> events and
  the batch goes back to the front of the buffer.\<close>

definition task_written :: "run_journal \<Rightarrow> run_journal" where
  "task_written q = (case rj_task q of None \<Rightarrow> q | Some b \<Rightarrow> q\<lparr>rj_task := None, rj_written := rj_written q @ b\<rparr>)"

definition task_failed :: "nat \<Rightarrow> run_journal \<Rightarrow> run_journal" where
  "task_failed k q =
     (case rj_task q of
        None \<Rightarrow> q
      | Some b \<Rightarrow> q\<lparr>rj_task := None, rj_written := rj_written q @ take k b, rj_buffer := b @ rj_buffer q\<rparr>)"

text \<open>A \<open>CancelledError\<close> is no \<open>Exception\<close>: the batch of a cancelled write does not return to the buffer.\<close>

definition task_cancelled :: "nat \<Rightarrow> run_journal \<Rightarrow> run_journal" where
  "task_cancelled k q =
     (case rj_task q of
        None \<Rightarrow> q
      | Some b \<Rightarrow> q\<lparr>rj_task := None, rj_written := rj_written q @ take k b, rj_lost := rj_lost q @ drop k b\<rparr>)"

text \<open>\<open>flush\<close>, once it has waited for the background task: batches of the threshold, one write at a time.\<close>

definition final_take :: "run_journal \<Rightarrow> run_journal" where
  "final_take q =
     (if rj_final q \<noteq> None \<or> rj_buffer q = [] then q
      else q\<lparr>rj_final := Some (py_slice None (Some (rj_threshold q)) (rj_buffer q)),
             rj_buffer := py_slice (Some (rj_threshold q)) None (rj_buffer q)\<rparr>)"

definition final_written :: "run_journal \<Rightarrow> run_journal" where
  "final_written q = (case rj_final q of None \<Rightarrow> q | Some b \<Rightarrow> q\<lparr>rj_final := None, rj_written := rj_written q @ b\<rparr>)"

definition final_failed :: "nat \<Rightarrow> run_journal \<Rightarrow> run_journal" where
  "final_failed k q =
     (case rj_final q of
        None \<Rightarrow> q
      | Some b \<Rightarrow> q\<lparr>rj_final := None, rj_written := rj_written q @ take k b, rj_buffer := b @ rj_buffer q\<rparr>)"

definition final_cancelled :: "nat \<Rightarrow> run_journal \<Rightarrow> run_journal" where
  "final_cancelled k q =
     (case rj_final q of
        None \<Rightarrow> q
      | Some b \<Rightarrow> q\<lparr>rj_final := None, rj_written := rj_written q @ take k b, rj_lost := rj_lost q @ drop k b\<rparr>)"

section \<open>Summaries\<close>

definition message_to_text :: "journal_message \<Rightarrow> string" where
  "message_to_text m =
     (case jm_content m of
        PStr s \<Rightarrow> s
      | PList bs \<Rightarrow>
          concat (map (\<lambda>b. case b of
              PStr s \<Rightarrow> s
            | PDict d \<Rightarrow> (case arg_of d ''text'' of PStr s \<Rightarrow> s | _ \<Rightarrow> (case arg_of d ''content'' of PStr s \<Rightarrow> s | _ \<Rightarrow> ''''))
            | _ \<Rightarrow> '''') bs)
      | PDict d \<Rightarrow> (case arg_of d ''text'' of PStr s \<Rightarrow> s | _ \<Rightarrow> (case arg_of d ''content'' of PStr s \<Rightarrow> s | _ \<Rightarrow> jm_text m))
      | _ \<Rightarrow> jm_text m)"

definition record_message_summary :: "journal_message \<Rightarrow> string option \<Rightarrow> run_journal \<Rightarrow> run_journal" where
  "record_message_summary m caller q =
     (let q1 = q\<lparr>rj_messages := Suc (rj_messages q)\<rparr>
      in if jm_class m = AiMessage \<and> (caller = None \<or> caller = Some ''lead_agent'') then
           (let text = str_strip (message_to_text m)
            in if text \<noteq> '''' then q1\<lparr>rj_last_ai := Some (take 2000 text)\<rparr> else q1)
         else q1)"

definition message_identity :: "journal_message \<Rightarrow> string option" where
  "message_identity m =
     (case jm_tool_call_id m of
        Some (c # cs) \<Rightarrow> Some (''tool:'' @ c # cs)
      | _ \<Rightarrow> (case jm_id m of Some (c # cs) \<Rightarrow> Some (''message:'' @ c # cs) | _ \<Rightarrow> None))"

definition persist_tool_result :: "moment \<Rightarrow> journal_message \<Rightarrow> run_journal \<Rightarrow> run_journal" where
  "persist_tool_result mo m q =
     (let q1 = put_event mo ''llm.tool.result'' ''message'' (jm_dump m) (PDict []) q;
          q2 = (case message_identity m of None \<Rightarrow> q1 | Some i \<Rightarrow> q1\<lparr>rj_identities := List.insert i (rj_identities q1)\<rparr>)
      in record_message_summary m None q2)"

definition identify_caller :: "string list \<Rightarrow> string" where
  "identify_caller tags =
     (case find (\<lambda>t. take 9 t = ''subagent:'' \<or> take 11 t = ''middleware:'' \<or> t = ''lead_agent'') tags of
        None \<Rightarrow> ''lead_agent''
      | Some t \<Rightarrow> t)"

section \<open>Chain callbacks\<close>

definition on_chain_start :: "moment \<Rightarrow> py_items \<Rightarrow> bool \<Rightarrow> string list \<Rightarrow> py_items \<Rightarrow> run_journal \<Rightarrow> run_journal" where
  "on_chain_start mo serialized is_root tags metadata q =
     (if is_root then
        put_event mo ''run.start'' ''trace'' (PDict [(PStr ''chain'', case map_of serialized (PStr ''name'') of None \<Rightarrow> PStr ''unknown'' | Some v \<Rightarrow> v)])
          (PDict (fold (\<lambda>(k, v) d. AList.update k v d) metadata [(PStr ''caller'', PStr (identify_caller tags))])) q
      else q)"

definition reconciled_names :: "string list" where
  "reconciled_names = [''ask_clarification'']"

definition should_reconcile :: "journal_message \<Rightarrow> run_journal \<Rightarrow> bool" where
  "should_reconcile m q \<longleftrightarrow>
     arg_of (jm_kwargs m) ''hide_from_ui'' \<noteq> PBool True
     \<and> (case jm_tool_call_id m of
          Some (c # cs) \<Rightarrow>
            (case map_of (rj_tool_names q) (c # cs) of
               None \<Rightarrow> False
             | Some n \<Rightarrow>
                 ((\<exists>x \<in> set reconciled_names. jm_name m = Some x) \<or> n \<in> set reconciled_names)
                 \<and> (case message_identity m of None \<Rightarrow> False | Some i \<Rightarrow> i \<notin> set (rj_identities q)))
        | _ \<Rightarrow> False)"

definition reconcile_final :: "moment \<Rightarrow> journal_message list \<Rightarrow> run_journal \<Rightarrow> run_journal" where
  "reconcile_final mo ms q =
     fold (\<lambda>m q. if jm_class m = ToolResult \<and> should_reconcile m q then persist_tool_result mo m q else q) ms q"

text \<open>\<open>outputs\<close> with the messages the code finds in it.\<close>

definition on_chain_end :: "moment \<Rightarrow> pyval \<Rightarrow> journal_message list \<Rightarrow> bool \<Rightarrow> run_journal \<Rightarrow> run_journal" where
  "on_chain_end mo outputs ms is_root q =
     (if \<not> is_root then q
      else flush_sync (mo_loop mo)
             (put_event mo ''run.end'' ''outputs'' outputs (PDict [(PStr ''status'', PStr ''success'')]) (reconcile_final mo ms q)))"

definition on_chain_error :: "moment \<Rightarrow> string \<Rightarrow> string \<Rightarrow> run_journal \<Rightarrow> run_journal" where
  "on_chain_error mo text error_type q =
     flush_sync (mo_loop mo)
       (put_event mo ''run.error'' ''error'' (PStr text) (PDict [(PStr ''error_type'', PStr error_type)]) q)"

section \<open>Model callbacks\<close>

definition non_empty_text :: "pyval \<Rightarrow> string option" where
  "non_empty_text v = (case v of PStr s \<Rightarrow> if str_strip s \<noteq> '''' then Some s else None | _ \<Rightarrow> None)"

text \<open>The source of a valid human-input response (\<open>agents/human_input.py\<close>).\<close>

definition human_response_source :: "py_items \<Rightarrow> string option" where
  "human_response_source kwargs =
     (case arg_of kwargs ''human_input_response'' of
        PDict raw \<Rightarrow>
          if arg_of raw ''version'' \<notin> {PInt 1, PBool True, PFloat (Finite 1)} \<or> arg_of raw ''kind'' \<noteq> PStr ''human_input_response''
          then None
          else
            (case (non_empty_text (arg_of raw ''source''), non_empty_text (arg_of raw ''request_id''),
                   non_empty_text (arg_of raw ''value'')) of
               (Some s, Some _, Some _) \<Rightarrow>
                 if arg_of raw ''response_kind'' = PStr ''text'' then Some s
                 else if arg_of raw ''response_kind'' = PStr ''option'' \<and> non_empty_text (arg_of raw ''option_id'') \<noteq> None then Some s
                 else None
             | _ \<Rightarrow> None)
      | _ \<Rightarrow> None)"

definition should_persist_human :: "journal_message \<Rightarrow> bool" where
  "should_persist_human m \<longleftrightarrow>
     jm_class m = HumanText \<and> jm_name m \<noteq> Some ''summary''
     \<and> (arg_of (jm_kwargs m) ''hide_from_ui'' \<noteq> PBool True
        \<or> human_response_source (jm_kwargs m) = Some ''ask_clarification'')"

definition set_first_human :: "string \<Rightarrow> run_journal \<Rightarrow> run_journal" where
  "set_first_human text q = q\<lparr>rj_first_human := (if text = '''' then None else Some (take 2000 text))\<rparr>"

text \<open>The newest suitable message of the newest batch; an empty one lets the search go on in older batches.\<close>

fun capture_human :: "moment \<Rightarrow> string \<Rightarrow> journal_message list list \<Rightarrow> run_journal \<Rightarrow> run_journal" where
  "capture_human mo caller [] q = q"
| "capture_human mo caller (batch # batches) q =
     (let q1 = (case find should_persist_human (rev batch) of
                  None \<Rightarrow> q
                | Some m \<Rightarrow>
                    record_message_summary m (Some caller)
                      (put_event mo ''llm.human.input'' ''message'' (jm_dump m) (PDict [(PStr ''caller'', PStr caller)])
                        (set_first_human (jm_text m) q)))
      in if rj_first_human q1 \<noteq> None then q1 else capture_human mo caller batches q1)"

definition on_chat_model_start :: "moment \<Rightarrow> string \<Rightarrow> string list \<Rightarrow> journal_message list list \<Rightarrow> run_journal \<Rightarrow> run_journal" where
  "on_chat_model_start mo rid tags batches q =
     (let q1 = q\<lparr>rj_starts := AList.update rid (mo_ms mo) (rj_starts q), rj_index := Suc (rj_index q),
                 rj_seen := List.insert rid (rj_seen q)\<rparr>;
          caller = identify_caller tags
      in if caller = ''lead_agent'' \<and> rj_first_human q1 = None then capture_human mo caller (rev batches) q1 else q1)"

definition on_llm_start :: "moment \<Rightarrow> string \<Rightarrow> run_journal \<Rightarrow> run_journal" where
  "on_llm_start mo rid q = q\<lparr>rj_starts := AList.update rid (mo_ms mo) (rj_starts q)\<rparr>"

definition tool_call_field :: "pyval \<Rightarrow> string \<Rightarrow> pyval" where
  "tool_call_field v k = (case v of PDict d \<Rightarrow> arg_of d k | _ \<Rightarrow> PNone)"

definition remember_tool_calls :: "journal_message \<Rightarrow> string \<Rightarrow> run_journal \<Rightarrow> run_journal" where
  "remember_tool_calls m caller q =
     (if caller \<noteq> ''lead_agent'' \<or> jm_class m \<noteq> AiMessage then q
      else fold (\<lambda>tc q. case tool_call_field tc ''id'' of
                   PStr (c # cs) \<Rightarrow>
                     q\<lparr>rj_tool_names := AList.update (c # cs)
                         (case tool_call_field tc ''name'' of PStr n \<Rightarrow> n | _ \<Rightarrow> '''') (rj_tool_names q)\<rparr>
                 | _ \<Rightarrow> q) (jm_tool_calls m) q)"

text \<open>An infinite count, for which \<open>int\<close> raises an exception that is not caught, is not modelled.\<close>

definition extract_cache_read :: "py_items \<Rightarrow> int" where
  "extract_cache_read usage =
     (case arg_of usage ''input_token_details'' of
        PDict d \<Rightarrow>
          (let v = arg_of d ''cache_read''
           in if \<not> truthy v then 0 else (case to_int v of IntOk i \<Rightarrow> max i 0 | _ \<Rightarrow> 0))
      | _ \<Rightarrow> 0)"

definition record_model_usage :: "string option \<Rightarrow> int \<Rightarrow> int \<Rightarrow> int \<Rightarrow> int \<Rightarrow> run_journal \<Rightarrow> run_journal" where
  "record_model_usage model i out t cache q =
     (if t \<le> 0 then q
      else
        (let name = (case model of Some (c # cs) \<Rightarrow> c # cs | _ \<Rightarrow> ''unknown'');
             b = (case map_of (rj_models q) name of
                    None \<Rightarrow> \<lparr>mb_input = 0, mb_output = 0, mb_total = 0, mb_cache = None\<rparr> | Some b \<Rightarrow> b)
         in q\<lparr>rj_models := AList.update name
               \<lparr>mb_input = mb_input b + i, mb_output = mb_output b + out, mb_total = mb_total b + t,
                mb_cache = (if 0 < cache then Some ((case mb_cache b of None \<Rightarrow> 0 | Some x \<Rightarrow> x) + cache) else mb_cache b)\<rparr>
               (rj_models q)\<rparr>))"

text \<open>Input, output and total of one counted usage, in the bucket of its caller.\<close>

definition add_tokens :: "string \<Rightarrow> int \<Rightarrow> int \<Rightarrow> int \<Rightarrow> run_journal \<Rightarrow> run_journal" where
  "add_tokens caller i out t q =
     (let q1 = q\<lparr>rj_input := rj_input q + i, rj_output := rj_output q + out, rj_total := rj_total q + t\<rparr>
      in if take 9 caller = ''subagent:'' then q1\<lparr>rj_sub := rj_sub q1 + t\<rparr>
         else if take 11 caller = ''middleware:'' then q1\<lparr>rj_middleware := rj_middleware q1 + t\<rparr>
         else q1\<lparr>rj_lead := rj_lead q1 + t\<rparr>)"

definition note_fallback :: "journal_message \<Rightarrow> run_journal \<Rightarrow> run_journal" where
  "note_fallback m q =
     (if \<not> truthy (arg_of (jm_kwargs m) ''vassilflow_error_fallback'') then q
      else
        (let text = str_strip (message_to_text m);
             q1 = q\<lparr>rj_fallback := True\<rparr>
         in case non_empty_text (arg_of (jm_kwargs m) ''error_detail'') of
              Some s \<Rightarrow> q1\<lparr>rj_fallback_text := Some (str_strip s)\<rparr>
            | None \<Rightarrow>
                (case non_empty_text (arg_of (jm_kwargs m) ''error_reason'') of
                   Some s \<Rightarrow> q1\<lparr>rj_fallback_text := Some (str_strip s)\<rparr>
                 | None \<Rightarrow> if text \<noteq> '''' then q1\<lparr>rj_fallback_text := Some (take 2000 text)\<rparr> else q1)))"

definition token_field :: "py_items \<Rightarrow> string \<Rightarrow> int" where
  "token_field u k = (case arg_of u k of PInt i \<Rightarrow> i | _ \<Rightarrow> 0)"

definition response_model :: "py_items \<Rightarrow> string option" where
  "response_model d =
     (case arg_of d ''model_name'' of
        PStr (c # cs) \<Rightarrow> Some (c # cs)
      | _ \<Rightarrow> (case arg_of d ''model'' of PStr s \<Rightarrow> Some s | _ \<Rightarrow> None))"

definition count_usage :: "string \<Rightarrow> string \<Rightarrow> journal_message \<Rightarrow> run_journal \<Rightarrow> run_journal" where
  "count_usage rid caller m q =
     (let i = token_field (jm_usage m) ''input_tokens'';
          out = token_field (jm_usage m) ''output_tokens'';
          t0 = token_field (jm_usage m) ''total_tokens'';
          t = (if t0 = 0 then i + out else t0)
      in if 0 < t \<and> rid \<notin> set (rj_counted q) then
           record_model_usage (response_model (jm_response m)) i out t (extract_cache_read (jm_usage m))
             ((add_tokens caller i out t q)
                \<lparr>rj_counted := rid # rj_counted q, rj_calls := Suc (rj_calls q),
                 rj_entries := rj_entries q @ [(rid, False, caller, t)]\<rparr>)
         else q)"

definition on_response :: "moment \<Rightarrow> string \<Rightarrow> string list \<Rightarrow> journal_message \<Rightarrow> run_journal \<Rightarrow> run_journal" where
  "on_response mo rid tags m q =
     (let caller = identify_caller tags;
          q1 = remember_tool_calls m caller q;
          start = map_of (rj_starts q1) rid;
          latency = (case start of None \<Rightarrow> PNone | Some s \<Rightarrow> if s = 0 then PNone else PInt (mo_ms mo - s));
          q2 = note_fallback m (q1\<lparr>rj_starts := filter (\<lambda>e. fst e \<noteq> rid) (rj_starts q1)\<rparr>);
          q3 = (if rid \<in> set (rj_seen q2) then q2 else q2\<lparr>rj_index := Suc (rj_index q2), rj_seen := rid # rj_seen q2\<rparr>);
          q4 = put_event mo ''llm.ai.response'' ''message'' (jm_dump m)
                 (PDict [(PStr ''caller'', PStr caller), (PStr ''usage'', PDict (jm_usage m)), (PStr ''latency_ms'', latency),
                         (PStr ''llm_call_index'', PInt (int (rj_index q3)))]) q3;
          q5 = (if rid \<in> set (rj_counted_messages q4) then q4 else record_message_summary m (Some caller) q4)
      in if rj_track q5 then count_usage rid caller m q5 else q5)"

definition on_llm_end :: "moment \<Rightarrow> string \<Rightarrow> string list \<Rightarrow> journal_message list \<Rightarrow> run_journal \<Rightarrow> run_journal" where
  "on_llm_end mo rid tags ms q =
     (let q1 = fold (on_response mo rid tags) ms q
      in if ms = [] then q1 else q1\<lparr>rj_counted_messages := List.insert rid (rj_counted_messages q1)\<rparr>)"

definition on_llm_error :: "moment \<Rightarrow> string \<Rightarrow> string \<Rightarrow> run_journal \<Rightarrow> run_journal" where
  "on_llm_error mo rid text q =
     put_event mo ''llm.error'' ''trace'' (PStr text) (PDict []) (q\<lparr>rj_starts := filter (\<lambda>e. fst e \<noteq> rid) (rj_starts q)\<rparr>)"

text \<open>The messages of a tool output: one result, or those of a command's update.\<close>

definition on_tool_end :: "moment \<Rightarrow> journal_message list \<Rightarrow> run_journal \<Rightarrow> run_journal" where
  "on_tool_end mo ms q = fold (persist_tool_result mo) ms q"

section \<open>Called by the worker\<close>

record external_usage =
  eu_source :: string
  eu_caller :: string
  eu_model :: "string option"
  eu_input :: int
  eu_output :: int
  eu_total :: int
  eu_cache :: int

definition record_external :: "external_usage \<Rightarrow> run_journal \<Rightarrow> run_journal" where
  "record_external r q =
     (if eu_source r = '''' \<or> eu_source r \<in> set (rj_external q) then q
      else
        (let t = (if eu_total r \<le> 0 then eu_input r + eu_output r else eu_total r)
         in if t \<le> 0 then q
            else
              record_model_usage (eu_model r) (eu_input r) (eu_output r) t (eu_cache r)
                ((add_tokens (eu_caller r) (eu_input r) (eu_output r) t q)
                   \<lparr>rj_external := eu_source r # rj_external q,
                    rj_entries := rj_entries q @ [(eu_source r, True, eu_caller r, t)]\<rparr>)))"

definition record_external_usage :: "external_usage list \<Rightarrow> run_journal \<Rightarrow> run_journal" where
  "record_external_usage rs q = (if \<not> rj_track q then q else fold record_external rs q)"

definition record_middleware :: "moment \<Rightarrow> string \<Rightarrow> string \<Rightarrow> string \<Rightarrow> string \<Rightarrow> pyval \<Rightarrow> run_journal \<Rightarrow> run_journal" where
  "record_middleware mo tag name hook action changes q =
     put_event mo (''middleware:'' @ tag) ''middleware''
       (PDict [(PStr ''name'', PStr name), (PStr ''hook'', PStr hook), (PStr ''action'', PStr action), (PStr ''changes'', changes)])
       (PDict []) q"

definition list_or_empty :: "pyval \<Rightarrow> pyval" where
  "list_or_empty v = (case v of PList _ \<Rightarrow> v | _ \<Rightarrow> PList [])"

definition record_action :: "moment \<Rightarrow> py_items \<Rightarrow> run_journal \<Rightarrow> string + run_journal" where
  "record_action mo a q =
     (if arg_of a ''source'' \<noteq> PStr ''agent_run'' \<or> arg_of a ''thread_id'' \<noteq> PStr (rj_thread q)
         \<or> arg_of a ''run_id'' \<noteq> PStr (rj_run q)
      then Inl ''Action identity does not match the receiving run journal''
      else if arg_of a ''status'' \<notin> {PStr ''succeeded'', PStr ''rejected'', PStr ''failed'', PStr ''partial''}
      then Inl ''Run journal accepts terminal actions only''
      else Inr (put_event mo ''domain.action'' ''action''
        (PDict [(PStr ''action_id'', arg_of a ''action_id''), (PStr ''operation'', arg_of a ''operation''),
                (PStr ''status'', arg_of a ''status''), (PStr ''references'', list_or_empty (arg_of a ''references'')),
                (PStr ''evidence'', list_or_empty (arg_of a ''evidence''))])
        (PDict [(PStr ''assistant_id'', arg_of a ''assistant_id'')]) q))"

definition optional_text :: "string option \<Rightarrow> pyval" where
  "optional_text x = (case x of None \<Rightarrow> PNone | Some s \<Rightarrow> PStr s)"

definition bucket_json :: "model_bucket \<Rightarrow> pyval" where
  "bucket_json b = PDict
     ([(PStr ''input_tokens'', PInt (mb_input b)), (PStr ''output_tokens'', PInt (mb_output b)),
       (PStr ''total_tokens'', PInt (mb_total b))]
      @ (case mb_cache b of None \<Rightarrow> [] | Some x \<Rightarrow> [(PStr ''cache_read_tokens'', PInt x)]))"

definition get_completion_data :: "run_journal \<Rightarrow> pyval" where
  "get_completion_data q = PDict
     [(PStr ''total_input_tokens'', PInt (rj_input q)), (PStr ''total_output_tokens'', PInt (rj_output q)),
      (PStr ''total_tokens'', PInt (rj_total q)), (PStr ''llm_call_count'', PInt (int (rj_calls q))),
      (PStr ''lead_agent_tokens'', PInt (rj_lead q)), (PStr ''subagent_tokens'', PInt (rj_sub q)),
      (PStr ''middleware_tokens'', PInt (rj_middleware q)),
      (PStr ''token_usage_by_model'', PDict (map (\<lambda>(k, b). (PStr k, bucket_json b)) (rj_models q))),
      (PStr ''message_count'', PInt (int (rj_messages q))), (PStr ''last_ai_message'', optional_text (rj_last_ai q)),
      (PStr ''first_human_message'', optional_text (rj_first_human q))]"

section \<open>Runs of the journal\<close>

datatype journal_call =
    ChainStart moment py_items bool "string list" py_items
  | ChainEnd moment pyval "journal_message list" bool
  | ChainError moment string string
  | ChatModelStart moment string "string list" "journal_message list list"
  | LlmStart moment string
  | LlmEnd moment string "string list" "journal_message list"
  | LlmError moment string string
  | ToolEnd moment "journal_message list"
  | ExternalUsage "external_usage list"
  | FirstHuman string
  | Middleware moment string string string string pyval
  | RecordAction moment py_items
  | TaskWritten
  | TaskFailed nat
  | TaskCancelled nat
  | FinalTake
  | FinalWritten
  | FinalFailed nat
  | FinalCancelled nat

fun journal_step :: "journal_call \<Rightarrow> run_journal \<Rightarrow> run_journal" where
  "journal_step (ChainStart mo d is_root tags metadata) q = on_chain_start mo d is_root tags metadata q"
| "journal_step (ChainEnd mo v ms is_root) q = on_chain_end mo v ms is_root q"
| "journal_step (ChainError mo text etype) q = on_chain_error mo text etype q"
| "journal_step (ChatModelStart mo rid tags batches) q = on_chat_model_start mo rid tags batches q"
| "journal_step (LlmStart mo rid) q = on_llm_start mo rid q"
| "journal_step (LlmEnd mo rid tags ms) q = on_llm_end mo rid tags ms q"
| "journal_step (LlmError mo rid text) q = on_llm_error mo rid text q"
| "journal_step (ToolEnd mo ms) q = on_tool_end mo ms q"
| "journal_step (ExternalUsage rs) q = record_external_usage rs q"
| "journal_step (FirstHuman text) q = set_first_human text q"
| "journal_step (Middleware mo tag name hook action changes) q = record_middleware mo tag name hook action changes q"
| "journal_step (RecordAction mo a) q = (case record_action mo a q of Inl _ \<Rightarrow> q | Inr q' \<Rightarrow> q')"
| "journal_step TaskWritten q = task_written q"
| "journal_step (TaskFailed k) q = task_failed k q"
| "journal_step FinalTake q = final_take q"
| "journal_step FinalWritten q = final_written q"
| "journal_step (FinalFailed k) q = final_failed k q"
| "journal_step (TaskCancelled k) q = task_cancelled k q"
| "journal_step (FinalCancelled k) q = final_cancelled k q"

definition run_calls :: "journal_call list \<Rightarrow> run_journal \<Rightarrow> run_journal" where
  "run_calls cs q = fold journal_step cs q"

text \<open>\<open>flush\<close> with a store that takes every batch from now on: the task is awaited, however it ends, then the
  batches go out, with no callback in between.  A threshold that is not positive is not modelled: the loop would not end.\<close>

definition write_batch :: "run_journal \<Rightarrow> run_journal" where
  "write_batch q = final_written (final_take q)"

function drain :: "run_journal \<Rightarrow> run_journal" where
  "drain q = (if rj_buffer q = [] \<or> rj_final q \<noteq> None \<or> rj_threshold q \<le> 0 then q else drain (write_batch q))"
  by pat_completeness auto
termination
proof (relation "measure (\<lambda>q. length (rj_buffer q))")
  fix q :: run_journal
  assume "\<not> (rj_buffer q = [] \<or> rj_final q \<noteq> None \<or> rj_threshold q \<le> 0)"
  then show "(write_batch q, q) \<in> measure (\<lambda>q. length (rj_buffer q))"
    by (auto simp: write_batch_def final_take_def final_written_def py_slice_def slice_bound_def Let_def)
qed simp

declare drain.simps [simp del]

datatype write_end = Written | Failed nat | Cancelled nat

definition await_task :: "write_end \<Rightarrow> run_journal \<Rightarrow> run_journal" where
  "await_task w q = (case w of Written \<Rightarrow> task_written q | Failed k \<Rightarrow> task_failed k q | Cancelled k \<Rightarrow> task_cancelled k q)"

definition journal_flush :: "write_end \<Rightarrow> run_journal \<Rightarrow> run_journal" where
  "journal_flush w q = drain (await_task w q)"

section \<open>Lemmas: events\<close>

text \<open>A property of the queue fields survives every callback when it survives a put and a flush: the callbacks
  touch these fields in no other way.\<close>

record queue_view =
  qv_written :: "journal_event list"
  qv_task :: "journal_event list option"
  qv_final :: "journal_event list option"
  qv_buffer :: "journal_event list"
  qv_log :: "journal_event list"
  qv_lost :: "journal_event list"
  qv_threshold :: int

definition queue_of :: "run_journal \<Rightarrow> queue_view" where
  "queue_of q = \<lparr>qv_written = rj_written q, qv_task = rj_task q, qv_final = rj_final q, qv_buffer = rj_buffer q,
                 qv_log = rj_log q, qv_lost = rj_lost q, qv_threshold = rj_threshold q\<rparr>"

definition qv_put :: "journal_event \<Rightarrow> queue_view \<Rightarrow> queue_view" where
  "qv_put e v = v\<lparr>qv_buffer := qv_buffer v @ [e], qv_log := qv_log v @ [e]\<rparr>"

definition qv_start :: "queue_view \<Rightarrow> queue_view" where
  "qv_start v = (if qv_task v = None then v\<lparr>qv_task := Some (qv_buffer v), qv_buffer := []\<rparr> else v)"

definition queue_stable :: "(queue_view \<Rightarrow> bool) \<Rightarrow> bool" where
  "queue_stable P \<longleftrightarrow> (\<forall>v e. P v \<longrightarrow> P (qv_put e v)) \<and> (\<forall>v. P v \<longrightarrow> P (qv_start v))"

lemma queue_of_flush:
  "queue_of (flush_sync b q) = queue_of q \<or> queue_of (flush_sync b q) = qv_start (queue_of q)"
  by (simp add: flush_sync_def qv_start_def queue_of_def)

lemma stable_flush: "queue_stable P \<Longrightarrow> P (queue_of q) \<Longrightarrow> P (queue_of (flush_sync b q))"
  using queue_of_flush [of b q] unfolding queue_stable_def by auto

lemma stable_put:
  assumes "queue_stable P" "P (queue_of q)"
  shows "P (queue_of (put_event mo t c v md q))"
proof -
  define e where "e = \<lparr>je_type = t, je_category = c, je_content = v, je_metadata = md, je_created = mo_iso mo\<rparr>"
  define q1 where "q1 = q\<lparr>rj_buffer := rj_buffer q @ [e], rj_log := rj_log q @ [e]\<rparr>"
  have "queue_of q1 = qv_put e (queue_of q)"
    by (simp add: q1_def qv_put_def queue_of_def)
  then have "P (queue_of q1)"
    using assms unfolding queue_stable_def by auto
  then show ?thesis
    using stable_flush [OF assms(1)] by (simp add: put_event_def e_def [symmetric] q1_def [symmetric] Let_def)
qed

lemma fold_keeps: "(\<And>x q. x \<in> set xs \<Longrightarrow> P q \<Longrightarrow> P (f x q)) \<Longrightarrow> P q \<Longrightarrow> P (fold f xs q)"
  by (induction xs arbitrary: q) auto

lemma queue_of_update [simp]:
  "queue_of (rj_input_update f1 q) = queue_of q"
  "queue_of (rj_output_update f2 q) = queue_of q"
  "queue_of (rj_total_update f3 q) = queue_of q"
  "queue_of (rj_calls_update f4 q) = queue_of q"
  "queue_of (rj_lead_update f5 q) = queue_of q"
  "queue_of (rj_sub_update f6 q) = queue_of q"
  "queue_of (rj_middleware_update f7 q) = queue_of q"
  "queue_of (rj_models_update f8 q) = queue_of q"
  "queue_of (rj_counted_update f9 q) = queue_of q"
  "queue_of (rj_external_update f10 q) = queue_of q"
  "queue_of (rj_counted_messages_update f11 q) = queue_of q"
  "queue_of (rj_last_ai_update f12 q) = queue_of q"
  "queue_of (rj_first_human_update f13 q) = queue_of q"
  "queue_of (rj_messages_update f14 q) = queue_of q"
  "queue_of (rj_fallback_update f15 q) = queue_of q"
  "queue_of (rj_fallback_text_update f16 q) = queue_of q"
  "queue_of (rj_starts_update f17 q) = queue_of q"
  "queue_of (rj_index_update f18 q) = queue_of q"
  "queue_of (rj_seen_update f19 q) = queue_of q"
  "queue_of (rj_tool_names_update f20 q) = queue_of q"
  "queue_of (rj_identities_update f21 q) = queue_of q"
  "queue_of (rj_entries_update f22 q) = queue_of q"
  by (simp_all add: queue_of_def)

lemma queue_summary [simp]: "queue_of (record_message_summary m c q) = queue_of q"
  by (simp add: record_message_summary_def Let_def)

lemma stable_persist:
  assumes "queue_stable P" "P (queue_of q)"
  shows "P (queue_of (persist_tool_result mo m q))"
proof -
  have "P (queue_of (put_event mo ''llm.tool.result'' ''message'' (jm_dump m) (PDict []) q))"
    using assms by (rule stable_put)
  then show ?thesis
    by (cases "message_identity m") (simp_all add: persist_tool_result_def Let_def)
qed

lemma stable_reconcile: "queue_stable P \<Longrightarrow> P (queue_of q) \<Longrightarrow> P (queue_of (reconcile_final mo ms q))"
  unfolding reconcile_final_def
  by (rule fold_keeps [where P = "\<lambda>q. P (queue_of q)"]) (auto intro: stable_persist)

lemma queue_first_human [simp]: "queue_of (set_first_human t q) = queue_of q"
  by (simp add: set_first_human_def)

lemma stable_capture: "queue_stable P \<Longrightarrow> P (queue_of q) \<Longrightarrow> P (queue_of (capture_human mo c bs q))"
proof (induction mo c bs q rule: capture_human.induct)
  case (2 mo c batch batches q)
  define q1 where "q1 = (case find should_persist_human (rev batch) of None \<Rightarrow> q
    | Some m \<Rightarrow> record_message_summary m (Some c) (put_event mo ''llm.human.input'' ''message'' (jm_dump m)
        (PDict [(PStr ''caller'', PStr c)]) (set_first_human (jm_text m) q)))"
  have "P (queue_of q1)"
    using "2.prems" by (auto simp: q1_def split: option.split intro!: stable_put [of P])
  then show ?case
    using "2.IH" [of q1] "2.prems"(1) by (simp add: q1_def [symmetric] Let_def)
qed simp

lemma queue_remember [simp]: "queue_of (remember_tool_calls m c q) = queue_of q"
proof -
  have "queue_of (fold f ts q) = queue_of q" if "\<And>t q. queue_of (f t q) = queue_of q" for f :: "pyval \<Rightarrow> run_journal \<Rightarrow> run_journal" and ts
    by (rule fold_keeps [where P = "\<lambda>x. queue_of x = queue_of q"]) (simp_all add: that)
  then show ?thesis
    by (simp add: remember_tool_calls_def split: pyval.split list.split)
qed

lemma queue_fallback [simp]: "queue_of (note_fallback m q) = queue_of q"
  by (simp add: note_fallback_def Let_def split: option.split)

lemma queue_model_usage [simp]: "queue_of (record_model_usage md i out t ch q) = queue_of q"
  by (simp add: record_model_usage_def Let_def)

lemma queue_add_tokens [simp]: "queue_of (add_tokens c i out t q) = queue_of q"
  by (simp add: add_tokens_def Let_def)

lemma queue_count [simp]: "queue_of (count_usage rid c m q) = queue_of q"
  by (simp add: count_usage_def Let_def)

lemma stable_response:
  assumes "queue_stable P" "P (queue_of q)"
  shows "P (queue_of (on_response mo rid tags m q))"
  using assms(2) unfolding on_response_def Let_def by (simp add: stable_put [OF assms(1)])

lemma stable_external: "P (queue_of q) \<Longrightarrow> P (queue_of (record_external r q))"
  by (simp add: record_external_def Let_def)

definition is_callback :: "journal_call \<Rightarrow> bool" where
  "is_callback c \<longleftrightarrow> (case c of
     TaskWritten \<Rightarrow> False | TaskFailed _ \<Rightarrow> False | TaskCancelled _ \<Rightarrow> False | FinalTake \<Rightarrow> False
   | FinalWritten \<Rightarrow> False | FinalFailed _ \<Rightarrow> False | FinalCancelled _ \<Rightarrow> False
   | _ \<Rightarrow> True)"

lemma stable_callback:
  assumes s: "queue_stable P" and p: "P (queue_of q)" and c: "is_callback c"
  shows "P (queue_of (journal_step c q))"
proof (cases c)
  case (ChainStart mo d b tags md)
  then show ?thesis using p by (simp add: on_chain_start_def stable_put [OF s])
next
  case (ChainEnd mo v ms b)
  then show ?thesis using p by (simp add: on_chain_end_def stable_put [OF s] stable_flush [OF s] stable_reconcile [OF s])
next
  case (ChainError mo t etype)
  then show ?thesis using p by (simp add: on_chain_error_def stable_put [OF s] stable_flush [OF s])
next
  case (ChatModelStart mo rid tags batches)
  then show ?thesis using p by (simp add: on_chat_model_start_def Let_def stable_capture [OF s])
next
  case (LlmEnd mo rid tags ms)
  have "P (queue_of (fold (on_response mo rid tags) ms q))"
    by (rule fold_keeps [where P = "\<lambda>q. P (queue_of q)"]) (simp_all add: stable_response [OF s] p)
  then show ?thesis using LlmEnd p by (simp add: on_llm_end_def Let_def)
next
  case (LlmError mo rid t)
  then show ?thesis using p by (simp add: on_llm_error_def stable_put [OF s])
next
  case (ToolEnd mo ms)
  have "P (queue_of (fold (persist_tool_result mo) ms q))"
    by (rule fold_keeps [where P = "\<lambda>q. P (queue_of q)"]) (simp_all add: stable_persist [OF s] p)
  then show ?thesis using ToolEnd by (simp add: on_tool_end_def)
next
  case (ExternalUsage rs)
  have "P (queue_of (fold record_external rs q))"
    by (rule fold_keeps [where P = "\<lambda>q. P (queue_of q)"]) (simp_all add: stable_external p)
  then show ?thesis using ExternalUsage p by (simp add: record_external_usage_def)
next
  case (RecordAction mo a)
  then show ?thesis using p by (simp add: record_action_def stable_put [OF s])
qed (insert p c, simp_all add: on_llm_start_def record_middleware_def stable_put [OF s] is_callback_def)

definition opt_list :: "'a list option \<Rightarrow> 'a list" where
  "opt_list x = (case x of None \<Rightarrow> [] | Some xs \<Rightarrow> xs)"

definition kept_events :: "run_journal \<Rightarrow> journal_event multiset" where
  "kept_events q = mset (rj_written q) + mset (opt_list (rj_task q)) + mset (opt_list (rj_final q)) + mset (rj_buffer q)"

lemma log_of_queue: "rj_log q = qv_log (queue_of q)"
  by (simp add: queue_of_def)

definition view_kept :: "queue_view \<Rightarrow> journal_event multiset" where
  "view_kept v = mset (qv_written v) + mset (opt_list (qv_task v)) + mset (opt_list (qv_final v)) + mset (qv_buffer v)
     + mset (qv_lost v)"

lemma kept_view: "kept_events q + mset (rj_lost q) = view_kept (queue_of q)"
  by (simp add: kept_events_def view_kept_def queue_of_def)

lemma view_kept_put [simp]:
  "view_kept (qv_put e v) = add_mset e (view_kept v)" "qv_log (qv_put e v) = qv_log v @ [e]"
  by (simp_all add: view_kept_def qv_put_def)

lemma view_kept_start [simp]: "view_kept (qv_start v) = view_kept v" "qv_log (qv_start v) = qv_log v"
  by (simp_all add: view_kept_def qv_start_def opt_list_def)

lemma kept_sub_stable: "queue_stable (\<lambda>v. mset (qv_log v) \<subseteq># view_kept v)"
  by (simp add: queue_stable_def view_kept_put view_kept_start)

lemma kept_eq_stable: "queue_stable (\<lambda>v. mset (qv_log v) = view_kept v)"
  by (simp add: queue_stable_def view_kept_put view_kept_start)

lemma lost_stable: "queue_stable (\<lambda>v. qv_lost v = ls)"
  by (simp add: queue_stable_def qv_put_def qv_start_def)

lemma order_stable:
  "queue_stable (\<lambda>v. qv_final v = None \<and> qv_written v @ opt_list (qv_task v) @ qv_buffer v = qv_log v)"
  by (auto simp: queue_stable_def qv_put_def qv_start_def opt_list_def)

definition no_partial :: "journal_call \<Rightarrow> bool" where
  "no_partial c \<longleftrightarrow> (case c of TaskFailed k \<Rightarrow> k = 0 | FinalFailed k \<Rightarrow> k = 0 | _ \<Rightarrow> True)"

definition before_flush :: "journal_call \<Rightarrow> bool" where
  "before_flush c \<longleftrightarrow> (case c of FinalTake \<Rightarrow> False | FinalWritten \<Rightarrow> False | FinalFailed _ \<Rightarrow> False | FinalCancelled _ \<Rightarrow> False
   | _ \<Rightarrow> True)"

definition is_cancel :: "journal_call \<Rightarrow> bool" where
  "is_cancel c \<longleftrightarrow> (case c of TaskCancelled _ \<Rightarrow> True | FinalCancelled _ \<Rightarrow> True | _ \<Rightarrow> False)"

lemma py_slice_split: "mset (py_slice None (Some k) xs) + mset (py_slice (Some k) None xs) = mset xs"
  by (simp add: py_slice_def Let_def flip: mset_append)

definition put_events :: "run_journal \<Rightarrow> journal_event multiset" where
  "put_events q = kept_events q + mset (rj_lost q)"

lemma writer_step_kept:
  assumes "\<not> is_callback c"
  shows "rj_log (journal_step c q) = rj_log q
    \<and> (\<exists>X. put_events (journal_step c q) = put_events q + X \<and> (no_partial c \<longrightarrow> X = {#}))"
proof -
  have split: "mset (take k b) + mset (drop k b) = mset b" for k and b :: "journal_event list"
    by (simp flip: mset_append)
  show ?thesis
  proof (cases c)
    case TaskWritten
    then show ?thesis by (auto simp: task_written_def put_events_def kept_events_def opt_list_def ac_simps split: option.split)
  next
    case (TaskFailed k)
    then show ?thesis
      by (cases "rj_task q") (auto simp: task_failed_def put_events_def kept_events_def opt_list_def no_partial_def ac_simps
          intro!: exI [of _ "mset (take k (opt_list (rj_task q)))"])
  next
    case (TaskCancelled k)
    then show ?thesis
      using split [of k "opt_list (rj_task q)"]
      by (cases "rj_task q") (auto simp: task_cancelled_def put_events_def kept_events_def opt_list_def ac_simps)
  next
    case FinalTake
    then show ?thesis
      by (auto simp: final_take_def put_events_def kept_events_def opt_list_def ac_simps
          simp flip: py_slice_split [of "rj_threshold q" "rj_buffer q"])
  next
    case FinalWritten
    then show ?thesis by (auto simp: final_written_def put_events_def kept_events_def opt_list_def ac_simps split: option.split)
  next
    case (FinalFailed k)
    then show ?thesis
      by (cases "rj_final q") (auto simp: final_failed_def put_events_def kept_events_def opt_list_def no_partial_def ac_simps
          intro!: exI [of _ "mset (take k (opt_list (rj_final q)))"])
  next
    case (FinalCancelled k)
    then show ?thesis
      using split [of k "opt_list (rj_final q)"]
      by (cases "rj_final q") (auto simp: final_cancelled_def put_events_def kept_events_def opt_list_def ac_simps)
  qed (use assms in \<open>simp_all add: is_callback_def\<close>)
qed

lemma step_kept_sub:
  assumes "mset (rj_log q) \<subseteq># put_events q"
  shows "mset (rj_log (journal_step c q)) \<subseteq># put_events (journal_step c q)"
proof (cases "is_callback c")
  case True
  then show ?thesis
    using stable_callback [OF kept_sub_stable, of q c] assms by (simp add: put_events_def kept_view log_of_queue)
next
  case False
  then show ?thesis
    using writer_step_kept [OF False, of q] assms by (metis mset_subset_eq_add_left subset_mset.order_trans)
qed

lemma step_kept_eq:
  assumes "mset (rj_log q) = put_events q" "no_partial c"
  shows "mset (rj_log (journal_step c q)) = put_events (journal_step c q)"
proof (cases "is_callback c")
  case True
  then show ?thesis
    using stable_callback [OF kept_eq_stable, of q c] assms by (simp add: put_events_def kept_view log_of_queue)
next
  case False
  then show ?thesis
    using writer_step_kept [OF False, of q] assms by auto
qed

lemma step_lost:
  assumes "\<not> is_cancel c"
  shows "rj_lost (journal_step c q) = rj_lost q"
proof (cases "is_callback c")
  case True
  from stable_callback [OF lost_stable [of "rj_lost q"] _ True, of q] show ?thesis
    by (simp add: queue_of_def)
next
  case False
  with assms show ?thesis
    by (cases c) (auto simp: is_callback_def is_cancel_def task_written_def task_failed_def final_take_def final_written_def
        final_failed_def split: option.split)
qed

definition in_order :: "run_journal \<Rightarrow> bool" where
  "in_order q \<longleftrightarrow> rj_final q = None \<and> rj_written q @ opt_list (rj_task q) @ rj_buffer q = rj_log q"

lemma in_order_view:
  "in_order q \<longleftrightarrow> (\<lambda>v. qv_final v = None \<and> qv_written v @ opt_list (qv_task v) @ qv_buffer v = qv_log v) (queue_of q)"
  by (simp add: in_order_def queue_of_def)

lemma step_in_order:
  assumes "in_order q" "no_partial c" "before_flush c" "\<not> is_cancel c"
  shows "in_order (journal_step c q)"
proof (cases "is_callback c")
  case True
  then show ?thesis
    using stable_callback [OF order_stable, of q c] assms(1) unfolding in_order_view by simp
next
  case False
  then show ?thesis
    using assms
    by (cases c) (auto simp: is_callback_def before_flush_def no_partial_def is_cancel_def in_order_def task_written_def
        task_failed_def opt_list_def split: option.split)
qed

lemma run_calls_simps [simp]:
  "run_calls [] q = q" "run_calls (c # cs) q = run_calls cs (journal_step c q)"
  by (simp_all add: run_calls_def)

lemma run_calls_keeps:
  "(\<And>c q. c \<in> set cs \<Longrightarrow> P q \<Longrightarrow> P (journal_step c q)) \<Longrightarrow> P q \<Longrightarrow> P (run_calls cs q)"
  by (induction cs arbitrary: q) auto

lemma new_journal_kept [simp]: "rj_log (new_journal r t tr th) = []" "put_events (new_journal r t tr th) = {#}"
  "in_order (new_journal r t tr th)" "rj_threshold (new_journal r t tr th) = th"
  "rj_final (new_journal r t tr th) = None" "rj_lost (new_journal r t tr th) = []"
  by (simp_all add: new_journal_def put_events_def kept_events_def opt_list_def in_order_def)

lemma drain_writes:
  "rj_final q = None \<Longrightarrow> 0 < rj_threshold q
   \<Longrightarrow> rj_buffer (drain q) = [] \<and> rj_written (drain q) = rj_written q @ rj_buffer q \<and> rj_log (drain q) = rj_log q
     \<and> rj_task (drain q) = rj_task q \<and> rj_final (drain q) = None \<and> rj_lost (drain q) = rj_lost q"
proof (induction q rule: drain.induct)
  case (1 q)
  show ?case
  proof (cases "rj_buffer q = []")
    case True
    then show ?thesis using 1(2) by (simp add: drain.simps [of q])
  next
    case False
    then have go: "\<not> (rj_buffer q = [] \<or> rj_final q \<noteq> None \<or> rj_threshold q \<le> 0)"
      using 1(2,3) by simp
    then have "drain q = drain (write_batch q)"
      by (subst drain.simps) simp
    moreover have "rj_final (write_batch q) = None" "rj_threshold (write_batch q) = rj_threshold q"
        "rj_written (write_batch q) @ rj_buffer (write_batch q) = rj_written q @ rj_buffer q"
        "rj_log (write_batch q) = rj_log q" "rj_task (write_batch q) = rj_task q" "rj_lost (write_batch q) = rj_lost q"
      using go by (auto simp: write_batch_def final_take_def final_written_def py_slice_def Let_def)
    ultimately show ?thesis
      using 1(1) [OF go] 1(3) by simp
  qed
qed

lemma await_fields [simp]:
  "rj_task (await_task w q) = None" "rj_final (await_task w q) = rj_final q" "rj_log (await_task w q) = rj_log q"
  "rj_threshold (await_task w q) = rj_threshold q"
  by (auto simp: await_task_def task_written_def task_failed_def task_cancelled_def split: write_end.split option.split)

lemma step_threshold: "rj_threshold (journal_step c q) = rj_threshold q"
proof (cases "is_callback c")
  case True
  have "queue_stable (\<lambda>v. qv_threshold v = rj_threshold q)"
    by (auto simp: queue_stable_def qv_put_def qv_start_def)
  from stable_callback [OF this _ True, of q] show ?thesis
    by (simp add: queue_of_def)
next
  case False
  then show ?thesis
    by (cases c) (auto simp: is_callback_def task_written_def task_failed_def task_cancelled_def final_take_def
        final_written_def final_failed_def final_cancelled_def split: option.split)
qed

lemma run_calls_threshold [simp]: "rj_threshold (run_calls cs q) = rj_threshold q"
  by (rule run_calls_keeps [where P = "\<lambda>x. rj_threshold x = rj_threshold q"]) (simp_all add: step_threshold)

lemma run_calls_in_order:
  "(\<forall>c \<in> set cs. no_partial c \<and> before_flush c \<and> \<not> is_cancel c) \<Longrightarrow> in_order (run_calls cs (new_journal r t tr th))"
  by (rule run_calls_keeps [where P = in_order]) (auto intro: step_in_order)

lemma run_calls_sub: "mset (rj_log (run_calls cs (new_journal r t tr th))) \<subseteq># put_events (run_calls cs (new_journal r t tr th))"
  by (rule run_calls_keeps [where P = "\<lambda>q. mset (rj_log q) \<subseteq># put_events q"]) (simp_all add: step_kept_sub)

lemma run_calls_lost: "(\<forall>c \<in> set cs. \<not> is_cancel c) \<Longrightarrow> rj_lost (run_calls cs (new_journal r t tr th)) = []"
  by (rule run_calls_keeps [where P = "\<lambda>q. rj_lost q = []"]) (simp_all add: step_lost)

text \<open>The final flush has not begun: nothing is in its hands.\<close>

lemma step_final:
  assumes "rj_final q = None" "before_flush c"
  shows "rj_final (journal_step c q) = None"
proof (cases "is_callback c")
  case True
  have "queue_stable (\<lambda>v. qv_final v = None)"
    by (simp add: queue_stable_def qv_put_def qv_start_def)
  from stable_callback [OF this _ True, of q] assms(1) show ?thesis
    by (simp add: queue_of_def)
next
  case False
  with assms show ?thesis
    by (cases c) (auto simp: is_callback_def before_flush_def task_written_def task_failed_def task_cancelled_def
        split: option.split)
qed

lemma await_step:
  "await_task w q = journal_step (case w of Written \<Rightarrow> TaskWritten | Failed k \<Rightarrow> TaskFailed k | Cancelled k \<Rightarrow> TaskCancelled k) q"
  by (simp add: await_task_def split: write_end.split)

lemma await_sub: "mset (rj_log q) \<subseteq># put_events q \<Longrightarrow> mset (rj_log (await_task w q)) \<subseteq># put_events (await_task w q)"
  unfolding await_step by (rule step_kept_sub)

lemma await_lost: "\<forall>k. w \<noteq> Cancelled k \<Longrightarrow> rj_lost (await_task w q) = rj_lost q"
  unfolding await_step by (rule step_lost) (simp add: is_cancel_def split: write_end.split)

lemma await_in_order: "in_order q \<Longrightarrow> w = Written \<or> w = Failed 0 \<Longrightarrow> in_order (await_task w q)"
  unfolding await_step by (rule step_in_order) (auto simp: no_partial_def before_flush_def is_cancel_def)

section \<open>Lemmas: tokens\<close>

lemma sum_update:
  fixes g :: "'b \<Rightarrow> int"
  shows "sum_list (map (g \<circ> snd) (AList.update k v al))
    = sum_list (map (g \<circ> snd) al) - (case map_of al k of None \<Rightarrow> 0 | Some b \<Rightarrow> g b) + g v"
  by (induction al) (auto split: option.split)

definition model_sum :: "run_journal \<Rightarrow> int" where
  "model_sum q = sum_list (map (mb_total \<circ> snd) (rj_models q))"

definition entry_sum :: "(string \<Rightarrow> bool) \<Rightarrow> run_journal \<Rightarrow> int" where
  "entry_sum p q = sum_list (map (\<lambda>(_, _, caller, t). if p caller then t else 0) (rj_entries q))"

definition by_subagent :: "string \<Rightarrow> bool" where
  "by_subagent c \<longleftrightarrow> take 9 c = ''subagent:''"

definition by_middleware :: "string \<Rightarrow> bool" where
  "by_middleware c \<longleftrightarrow> \<not> by_subagent c \<and> take 11 c = ''middleware:''"

definition counted_once :: "run_journal \<Rightarrow> bool" where
  "counted_once q \<longleftrightarrow>
     distinct (map (\<lambda>(i, ext, _, _). (i, ext)) (rj_entries q))
     \<and> (\<lambda>(i, ext, _, _). (i, ext)) ` set (rj_entries q)
        = (\<lambda>i. (i, False)) ` set (rj_counted q) \<union> (\<lambda>i. (i, True)) ` set (rj_external q)
     \<and> (\<forall>(_, _, _, t) \<in> set (rj_entries q). 0 < t)"

definition tokens_add_up :: "run_journal \<Rightarrow> bool" where
  "tokens_add_up q \<longleftrightarrow>
     rj_total q = entry_sum (\<lambda>_. True) q \<and> rj_sub q = entry_sum by_subagent q
     \<and> rj_middleware q = entry_sum by_middleware q
     \<and> rj_lead q + rj_sub q + rj_middleware q = rj_total q \<and> model_sum q = rj_total q"

record token_view =
  tv_entries :: "(string \<times> bool \<times> string \<times> int) list"
  tv_counted :: "string list"
  tv_external :: "string list"
  tv_total :: int
  tv_lead :: int
  tv_sub :: int
  tv_middleware :: int
  tv_models :: "(string \<times> model_bucket) list"

definition tokens_of :: "run_journal \<Rightarrow> token_view" where
  "tokens_of q = \<lparr>tv_entries = rj_entries q, tv_counted = rj_counted q, tv_external = rj_external q, tv_total = rj_total q,
     tv_lead = rj_lead q, tv_sub = rj_sub q, tv_middleware = rj_middleware q, tv_models = rj_models q\<rparr>"

lemma tokens_eqD:
  assumes "tokens_of q' = tokens_of q"
  shows "tokens_add_up q' = tokens_add_up q" "counted_once q' = counted_once q"
  using assms by (simp_all add: tokens_of_def tokens_add_up_def counted_once_def entry_sum_def model_sum_def)

lemma tokens_of_update [simp]:
  "tokens_of (rj_buffer_update f1 q) = tokens_of q"
  "tokens_of (rj_task_update f2 q) = tokens_of q"
  "tokens_of (rj_final_update f3 q) = tokens_of q"
  "tokens_of (rj_input_update f4 q) = tokens_of q"
  "tokens_of (rj_output_update f5 q) = tokens_of q"
  "tokens_of (rj_calls_update f6 q) = tokens_of q"
  "tokens_of (rj_counted_messages_update f7 q) = tokens_of q"
  "tokens_of (rj_last_ai_update f8 q) = tokens_of q"
  "tokens_of (rj_first_human_update f9 q) = tokens_of q"
  "tokens_of (rj_messages_update f10 q) = tokens_of q"
  "tokens_of (rj_fallback_update f11 q) = tokens_of q"
  "tokens_of (rj_fallback_text_update f12 q) = tokens_of q"
  "tokens_of (rj_starts_update f13 q) = tokens_of q"
  "tokens_of (rj_index_update f14 q) = tokens_of q"
  "tokens_of (rj_seen_update f15 q) = tokens_of q"
  "tokens_of (rj_tool_names_update f16 q) = tokens_of q"
  "tokens_of (rj_identities_update f17 q) = tokens_of q"
  "tokens_of (rj_written_update f18 q) = tokens_of q"
  "tokens_of (rj_log_update f19 q) = tokens_of q"
  "tokens_of (rj_lost_update f20 q) = tokens_of q"
  by (simp_all add: tokens_of_def)

lemma tokens_queue_ops [simp]:
  "tokens_of (flush_sync b q) = tokens_of q" "tokens_of (put_event mo t c v md q) = tokens_of q"
  "tokens_of (task_written q) = tokens_of q" "tokens_of (task_failed k q) = tokens_of q"
  "tokens_of (final_take q) = tokens_of q" "tokens_of (final_written q) = tokens_of q"
  "tokens_of (final_failed k q) = tokens_of q" "tokens_of (task_cancelled k q) = tokens_of q"
  "tokens_of (final_cancelled k q) = tokens_of q"
  by (simp_all add: flush_sync_def put_event_def task_written_def task_failed_def final_take_def final_written_def
      final_failed_def task_cancelled_def final_cancelled_def Let_def split: option.split)

lemma tokens_summary [simp]:
  "tokens_of (record_message_summary m c q) = tokens_of q" "tokens_of (persist_tool_result mo m q) = tokens_of q"
  "tokens_of (set_first_human t q) = tokens_of q" "tokens_of (note_fallback m q) = tokens_of q"
  by (simp_all add: record_message_summary_def persist_tool_result_def set_first_human_def note_fallback_def Let_def
      split: option.split)

lemma fold_tokens: "(\<And>x q. tokens_of (f x q) = tokens_of q) \<Longrightarrow> tokens_of (fold f xs q) = tokens_of q"
  by (rule fold_keeps [where P = "\<lambda>x. tokens_of x = tokens_of q"]) simp_all

lemma tokens_capture [simp]: "tokens_of (capture_human mo c bs q) = tokens_of q"
proof (induction mo c bs q rule: capture_human.induct)
  case (2 mo c batch batches q)
  define q1 where "q1 = (case find should_persist_human (rev batch) of None \<Rightarrow> q
    | Some m \<Rightarrow> record_message_summary m (Some c) (put_event mo ''llm.human.input'' ''message'' (jm_dump m)
        (PDict [(PStr ''caller'', PStr c)]) (set_first_human (jm_text m) q)))"
  have "tokens_of q1 = tokens_of q"
    by (simp add: q1_def split: option.split)
  then show ?case
    using "2.IH" [of q1] by (simp add: q1_def [symmetric] Let_def)
qed simp

lemma tokens_remember [simp]: "tokens_of (remember_tool_calls m c q) = tokens_of q"
proof -
  have "tokens_of (case v of PStr (x # xs) \<Rightarrow> q1\<lparr>rj_tool_names := f x xs\<rparr> | _ \<Rightarrow> q1) = tokens_of q1" for v f q1
    by (simp split: pyval.split list.split)
  then show ?thesis
    unfolding remember_tool_calls_def by (simp add: fold_tokens)
qed

definition tokens_ok :: "run_journal \<Rightarrow> bool" where
  "tokens_ok q \<longleftrightarrow> tokens_add_up q \<and> counted_once q"

lemma tokens_ok_eq: "tokens_of q' = tokens_of q \<Longrightarrow> tokens_ok q' = tokens_ok q"
  using tokens_eqD [of q' q] by (simp add: tokens_ok_def)

lemma add_fields [simp]:
  "rj_models (add_tokens c i out t q) = rj_models q" "rj_entries (add_tokens c i out t q) = rj_entries q"
  "rj_counted (add_tokens c i out t q) = rj_counted q" "rj_external (add_tokens c i out t q) = rj_external q"
  "rj_total (add_tokens c i out t q) = rj_total q + t"
  "rj_sub (add_tokens c i out t q) = rj_sub q + (if by_subagent c then t else 0)"
  "rj_middleware (add_tokens c i out t q) = rj_middleware q + (if by_middleware c then t else 0)"
  "rj_lead (add_tokens c i out t q) = rj_lead q + (if by_subagent c \<or> by_middleware c then 0 else t)"
  by (auto simp: add_tokens_def by_subagent_def by_middleware_def Let_def)

lemma model_usage_fields [simp]:
  "rj_entries (record_model_usage md i out t ch q) = rj_entries q" "rj_counted (record_model_usage md i out t ch q) = rj_counted q"
  "rj_external (record_model_usage md i out t ch q) = rj_external q" "rj_total (record_model_usage md i out t ch q) = rj_total q"
  "rj_sub (record_model_usage md i out t ch q) = rj_sub q" "rj_lead (record_model_usage md i out t ch q) = rj_lead q"
  "rj_middleware (record_model_usage md i out t ch q) = rj_middleware q"
  by (simp_all add: record_model_usage_def Let_def)

lemma model_sum_usage: "0 < t \<Longrightarrow> model_sum (record_model_usage md i out t ch q) = model_sum q + t"
  by (simp add: record_model_usage_def model_sum_def Let_def sum_update split: option.split)

text \<open>A counted usage is one more entry, in both bookkeepings.\<close>

lemma counted_tokens_ok:
  assumes ok: "tokens_ok q" and t: "0 < t"
    and new: "if ext then i \<notin> set (rj_external q) \<and> cs = rj_counted q \<and> es = i # rj_external q
              else i \<notin> set (rj_counted q) \<and> cs = i # rj_counted q \<and> es = rj_external q"
    and q1: "rj_models q1 = rj_models (add_tokens c a b t q)" "rj_total q1 = rj_total (add_tokens c a b t q)"
      "rj_sub q1 = rj_sub (add_tokens c a b t q)" "rj_lead q1 = rj_lead (add_tokens c a b t q)"
      "rj_middleware q1 = rj_middleware (add_tokens c a b t q)"
      "rj_counted q1 = cs" "rj_external q1 = es" "rj_entries q1 = rj_entries q @ [(i, ext, c, t)]"
  shows "tokens_ok (record_model_usage md a b t ch q1)"
proof -
  let ?q = "record_model_usage md a b t ch q1"
  have m: "model_sum q1 = model_sum q" using q1(1) by (simp add: model_sum_def)
  have e: "entry_sum p ?q = entry_sum p q + (if p c then t else 0)" for p
    using q1(8) by (simp add: entry_sum_def)
  have "tokens_add_up ?q"
    using ok t q1 by (auto simp: tokens_ok_def tokens_add_up_def e m model_sum_usage by_middleware_def)
  moreover have "(i, ext) \<notin> (\<lambda>(i, ext, _, _). (i, ext)) ` set (rj_entries q)"
    using ok new by (auto simp: tokens_ok_def counted_once_def split: if_splits)
  then have "counted_once ?q"
    using ok t new q1 by (auto simp: tokens_ok_def counted_once_def split: if_splits)
  ultimately show ?thesis by (simp add: tokens_ok_def)
qed

lemma count_usage_ok: "tokens_ok q \<Longrightarrow> tokens_ok (count_usage rid c m q)"
  unfolding count_usage_def Let_def
  by (auto intro!: counted_tokens_ok [where q = q and ext = False and i = rid and c = c])

lemma record_external_ok: "tokens_ok q \<Longrightarrow> tokens_ok (record_external r q)"
  unfolding record_external_def Let_def
  by (auto intro!: counted_tokens_ok [where q = q and ext = True and i = "eu_source r" and c = "eu_caller r"])

lemma on_response_ok:
  assumes "tokens_ok q"
  shows "tokens_ok (on_response mo rid tags m q)"
proof -
  have "tokens_ok (if b then count_usage rid c m q' else q')" if "tokens_of q' = tokens_of q" for b c q'
    using assms count_usage_ok tokens_ok_eq [OF that] by simp
  then show ?thesis
    unfolding on_response_def Let_def by simp
qed

lemma tokens_okI: "tokens_of q' = tokens_of q \<Longrightarrow> tokens_ok q \<Longrightarrow> tokens_ok q'"
  using tokens_ok_eq by blast

lemma tokens_ok_step:
  assumes "tokens_ok q"
  shows "tokens_ok (journal_step c q)"
proof (cases c)
  case (LlmEnd mo rid tags ms)
  have "tokens_ok (fold (on_response mo rid tags) ms q)"
    by (rule fold_keeps [where P = tokens_ok]) (simp_all add: on_response_ok assms)
  then show ?thesis
    unfolding LlmEnd by (rule tokens_okI [rotated]) (simp add: on_llm_end_def Let_def)
next
  case (ExternalUsage rs)
  have "tokens_ok (fold record_external rs q)"
    by (rule fold_keeps [where P = tokens_ok]) (simp_all add: record_external_ok assms)
  then show ?thesis
    using ExternalUsage assms by (simp add: record_external_usage_def)
next
  case (ChainEnd mo v ms b)
  have "tokens_of (reconcile_final mo ms q) = tokens_of q"
    unfolding reconcile_final_def by (simp add: fold_tokens)
  then show ?thesis
    unfolding ChainEnd by (intro tokens_okI [OF _ assms]) (simp add: on_chain_end_def)
next
  case (ToolEnd mo ms)
  show ?thesis
    unfolding ToolEnd by (rule tokens_okI [OF _ assms]) (simp add: on_tool_end_def fold_tokens)
qed (rule tokens_okI [OF _ assms], simp add: on_chain_start_def on_chain_error_def on_chat_model_start_def
  on_llm_start_def on_llm_error_def record_middleware_def record_action_def Let_def)+

lemma new_journal_tokens: "tokens_ok (new_journal r t tr th)"
  by (simp add: new_journal_def tokens_ok_def tokens_add_up_def counted_once_def entry_sum_def model_sum_def)

section \<open>Properties\<close>

definition sample_moment :: moment where
  "sample_moment = \<lparr>mo_loop = True, mo_iso = ''2026-01-01T00:00:00+00:00'', mo_ms = 1500\<rparr>"

definition sample_answer :: journal_message where
  "sample_answer = \<lparr>jm_class = AiMessage, jm_id = Some ''m1'', jm_tool_call_id = None, jm_name = None,
     jm_content = PStr ''done'', jm_text = ''done'', jm_kwargs = [], jm_tool_calls = [],
     jm_usage = [(PStr ''input_tokens'', PInt 7), (PStr ''output_tokens'', PInt 3)],
     jm_response = [(PStr ''model_name'', PStr ''gpt'')], jm_dump = PStr ''done''\<rparr>"

text \<open>One answer whose end is reported twice, with a failed and a successful write; a batch is two events.\<close>

definition sample_calls :: "journal_call list" where
  "sample_calls =
     [ChainStart sample_moment [] True [] [], LlmEnd sample_moment ''r1'' [] [sample_answer], TaskFailed 0,
      LlmEnd sample_moment ''r1'' [] [sample_answer], TaskWritten, LlmError sample_moment ''r2'' ''late'']"

text \<open>C37. The run journal loses no event but through cancellation: after any sequence of callbacks, ends of the
  background task and steps of the final flush, every event ever put is in the store, in a batch that is being written,
  in the buffer, or in a batch whose write was cancelled, as often as it was put; when no write was cancelled the last
  case is empty, and when no failed batch was written in part nothing is there twice either.\<close>

theorem journal_loses_no_event:
  fixes cs :: "journal_call list" and run thread :: string and track :: bool and threshold :: int
  defines "q \<equiv> run_calls cs (new_journal run thread track threshold)"
  shows "mset (rj_log q) \<subseteq># kept_events q + mset (rj_lost q)
    \<and> ((\<forall>c \<in> set cs. no_partial c) \<longrightarrow> mset (rj_log q) = kept_events q + mset (rj_lost q))
    \<and> ((\<forall>c \<in> set cs. \<not> is_cancel c) \<longrightarrow> rj_lost q = [])"
proof (intro conjI impI)
  show "mset (rj_log q) \<subseteq># kept_events q + mset (rj_lost q)"
    unfolding q_def put_events_def [symmetric] by (rule run_calls_sub)
  show "mset (rj_log q) = kept_events q + mset (rj_lost q)" if "\<forall>c \<in> set cs. no_partial c"
    unfolding q_def put_events_def [symmetric] using that
    by (intro run_calls_keeps [where P = "\<lambda>q. mset (rj_log q) = put_events q"]) (simp_all add: step_kept_eq)
  show "rj_lost q = []" if "\<forall>c \<in> set cs. \<not> is_cancel c"
    unfolding q_def using that by (rule run_calls_lost)
qed

theorem journal_loses_no_event_witness:
  "mset (rj_log (run_calls sample_calls (new_journal ''r'' ''t'' True 2)))
     = kept_events (run_calls sample_calls (new_journal ''r'' ''t'' True 2))
   \<and> length (rj_log (run_calls sample_calls (new_journal ''r'' ''t'' True 2))) = 4"
  (is "?A \<and> ?B")
proof
  have "\<forall>c \<in> set sample_calls. no_partial c" "\<forall>c \<in> set sample_calls. \<not> is_cancel c"
    by (simp_all add: sample_calls_def no_partial_def is_cancel_def)
  then show ?A
    using journal_loses_no_event [where cs = sample_calls and run = "''r''" and thread = "''t''" and track = True and threshold = 2]
    by simp
  show ?B by code_simp
qed

text \<open>C38. The flush at the end of a run empties the journal into the store.  Whatever the callbacks before it were and
  however the background writes ended, the one it waits for included: when its own writes succeed and no callback comes
  after it starts, buffer and task are empty and every event is in the store or was in a cancelled write.  Without a
  cancellation no event is missing; when moreover every failed write failed before its first event, the store holds
  exactly the events put, each once and in the order of the callbacks.\<close>

theorem flush_completes_the_log:
  fixes cs :: "journal_call list" and run thread :: string and track :: bool and threshold :: int
  defines "q \<equiv> run_calls cs (new_journal run thread track threshold)"
  assumes "\<forall>c \<in> set cs. before_flush c" and "0 < threshold"
  shows "rj_buffer (journal_flush w q) = [] \<and> rj_task (journal_flush w q) = None
    \<and> mset (rj_log q) \<subseteq># mset (rj_written (journal_flush w q)) + mset (rj_lost (journal_flush w q))
    \<and> ((\<forall>c \<in> set cs. \<not> is_cancel c) \<and> (\<forall>k. w \<noteq> Cancelled k) \<longrightarrow> rj_lost (journal_flush w q) = [])
    \<and> ((\<forall>c \<in> set cs. \<not> is_cancel c \<and> no_partial c) \<and> (w = Written \<or> w = Failed 0)
       \<longrightarrow> rj_written (journal_flush w q) = rj_log q)"
proof -
  have fin: "rj_final q = None"
    unfolding q_def using assms(2) by (intro run_calls_keeps [where P = "\<lambda>x. rj_final x = None"]) (simp_all add: step_final)
  define a where "a = await_task w q"
  have a: "rj_task a = None" "rj_final a = None" "rj_log a = rj_log q" "0 < rj_threshold a"
    using fin assms(3) by (simp_all add: a_def q_def)
  have d: "rj_buffer (drain a) = []" "rj_written (drain a) = rj_written a @ rj_buffer a" "rj_task (drain a) = None"
      "rj_lost (drain a) = rj_lost a"
    using drain_writes [OF a(2,4)] a(1) by simp_all
  have "mset (rj_log q) \<subseteq># put_events q"
    unfolding q_def by (rule run_calls_sub)
  then have "mset (rj_log a) \<subseteq># put_events a"
    unfolding a_def by (rule await_sub)
  then have sub: "mset (rj_log q) \<subseteq># mset (rj_written (drain a)) + mset (rj_lost (drain a))"
    by (simp add: put_events_def kept_events_def a d opt_list_def)
  have lost: "rj_lost a = []" if "\<forall>c \<in> set cs. \<not> is_cancel c" "\<forall>k. w \<noteq> Cancelled k"
    using run_calls_lost [OF that(1)] await_lost [OF that(2)] by (simp add: a_def q_def)
  have exact: "rj_written a @ rj_buffer a = rj_log q"
    if "\<forall>c \<in> set cs. \<not> is_cancel c \<and> no_partial c" "w = Written \<or> w = Failed 0"
  proof -
    have "in_order q"
      unfolding q_def by (rule run_calls_in_order) (use that(1) assms(2) in auto)
    then show ?thesis
      using await_in_order [OF _ that(2), of q] a by (simp add: a_def in_order_def opt_list_def)
  qed
  show ?thesis
    using d sub lost exact by (simp add: journal_flush_def a_def [symmetric])
qed

theorem flush_completes_the_log_witness:
  "map je_type (rj_written (journal_flush (Failed 0) (run_calls sample_calls (new_journal ''r'' ''t'' True 2))))
     = [''run.start'', ''llm.ai.response'', ''llm.ai.response'', ''llm.error'']"
proof -
  have "\<forall>c \<in> set sample_calls. before_flush c" "\<forall>c \<in> set sample_calls. \<not> is_cancel c \<and> no_partial c"
    by (simp_all add: sample_calls_def no_partial_def before_flush_def is_cancel_def)
  then have "rj_written (journal_flush (Failed 0) (run_calls sample_calls (new_journal ''r'' ''t'' True 2)))
      = rj_log (run_calls sample_calls (new_journal ''r'' ''t'' True 2))"
    using flush_completes_the_log [of sample_calls 2 "Failed 0" "''r''" "''t''" True] by simp
  moreover have "map je_type (rj_log (run_calls sample_calls (new_journal ''r'' ''t'' True 2)))
     = [''run.start'', ''llm.ai.response'', ''llm.ai.response'', ''llm.error'']"
    by code_simp
  ultimately show ?thesis by simp
qed

text \<open>C39. Token totals add up: after any sequence of calls the total of a run is the sum over the counted usages, so
  are the buckets of subagents and middlewares, the three buckets and the models each sum to the total, and no id of
  a model call or of an external record is counted twice.\<close>

theorem journal_token_totals:
  fixes cs :: "journal_call list" and run thread :: string and track :: bool and threshold :: int
  defines "q \<equiv> run_calls cs (new_journal run thread track threshold)"
  shows "rj_total q = sum_list (map (\<lambda>(_, _, _, t). t) (rj_entries q))
    \<and> rj_sub q = sum_list (map (\<lambda>(_, _, c, t). if by_subagent c then t else 0) (rj_entries q))
    \<and> rj_middleware q = sum_list (map (\<lambda>(_, _, c, t). if by_middleware c then t else 0) (rj_entries q))
    \<and> rj_lead q + rj_sub q + rj_middleware q = rj_total q
    \<and> sum_list (map (mb_total \<circ> snd) (rj_models q)) = rj_total q
    \<and> distinct (map (\<lambda>(i, external, _, _). (i, external)) (rj_entries q))"
proof -
  have "tokens_ok q"
    unfolding q_def by (rule run_calls_keeps [where P = tokens_ok]) (simp_all add: tokens_ok_step new_journal_tokens)
  then show ?thesis
    by (simp add: tokens_ok_def tokens_add_up_def counted_once_def entry_sum_def model_sum_def)
qed

theorem journal_token_totals_witness:
  "rj_total (run_calls sample_calls (new_journal ''r'' ''t'' True 2)) = 10
   \<and> rj_lead (run_calls sample_calls (new_journal ''r'' ''t'' True 2)) = 10"
proof -
  have e: "rj_entries (run_calls sample_calls (new_journal ''r'' ''t'' True 2)) = [(''r1'', False, ''lead_agent'', 10)]"
    by code_simp
  show ?thesis
    using journal_token_totals [where cs = sample_calls and run = "''r''" and thread = "''t''" and track = True and threshold = 2]
    unfolding e by (simp add: by_subagent_def by_middleware_def)
qed

end
