(* ===== verification/LifecycleTypes.thy ===== *)
theory LifecycleTypes
  imports LifecycleFencing
begin

text \<open>
  What a reader of the lifecycle journal may rely on whatever the files hold: an operation that loads is well
  typed, and the attempts of each handler carry distinct generations.
\<close>

section \<open>Typed operations\<close>

definition bounded_text :: "nat \<Rightarrow> string \<Rightarrow> bool" where
  "bounded_text n s \<longleftrightarrow> s \<noteq> '''' \<and> length s \<le> n \<and> CHR 0x00 \<notin> set s"

definition typed_payload :: "lc_payload \<Rightarrow> bool" where
  "typed_payload p \<longleftrightarrow>
     (case p of
        DeletedPayload t \<Rightarrow> bounded_text 512 t
      | BranchedPayload s t a m \<Rightarrow> bounded_text 512 s \<and> bounded_text 512 t \<and> s \<noteq> t \<and> bounded_text 128 a \<and> bounded_text 64 m)"

definition typed_event :: "string \<Rightarrow> string \<Rightarrow> lc_event \<Rightarrow> bool" where
  "typed_event owner op e \<longleftrightarrow>
     ev_operation e = op \<and> lc_operation_id_re op \<and> op = lc_operation_id_of (ev_digest e) \<and> ev_owner e = owner
     \<and> owner_id_re owner \<and> typed_payload (ev_payload e) \<and> distinct (ev_handlers e)
     \<and> length (ev_handlers e) \<le> lc_max_handlers \<and> (\<forall>h \<in> set (ev_handlers e). lc_handler_key_re h)"

definition typed_source :: "lc_event \<Rightarrow> lc_source \<Rightarrow> bool" where
  "typed_source e s \<longleftrightarrow>
     typed_payload (sr_payload s) \<and> event_identity_payload (sr_payload s) = event_identity_payload (ev_payload e)
     \<and> (sr_status s = ''committed'' \<and> sr_committed_at s \<noteq> None \<and> sr_aborted_at s = None \<and> sr_error_type s = None
        \<or> sr_status s = ''aborted'' \<and> sr_committed_at s = None \<and> sr_aborted_at s \<noteq> None \<and> sr_error_type s \<noteq> None
        \<or> sr_status s = ''prepared'' \<and> sr_committed_at s = None \<and> sr_aborted_at s = None \<and> sr_error_type s = None)"

definition typed_attempt :: "lc_attempt \<Rightarrow> bool" where
  "typed_attempt a \<longleftrightarrow>
     lc_attempt_id_re (at_id a) \<and> 1 \<le> at_generation a \<and> at_generation a \<le> int lc_max_attempts
     \<and> (at_status a = ''running'' \<and> at_completed_at a = None \<and> at_error_type a = None
        \<or> at_status a = ''succeeded'' \<and> at_completed_at a \<noteq> None \<and> at_error_type a = None
        \<or> at_status a = ''failed'' \<and> at_completed_at a \<noteq> None \<and> at_error_type a \<noteq> None)"

definition typed_attempts :: "lc_attempt list \<Rightarrow> bool" where
  "typed_attempts as \<longleftrightarrow>
     length as \<le> lc_max_attempts \<and> (\<forall>a \<in> set as. typed_attempt a) \<and> sorted (map at_generation as)
     \<and> distinct (map at_generation as)"

definition typed_operation :: "string \<Rightarrow> string \<Rightarrow> lc_operation \<Rightarrow> bool" where
  "typed_operation owner op x \<longleftrightarrow>
     typed_event owner op (lop_event x) \<and> typed_source (lop_event x) (lop_source x)
     \<and> map fst (lop_handlers x) = ev_handlers (lop_event x)
     \<and> (\<forall>(h, status, as) \<in> set (lop_handlers x). typed_attempts as \<and> status = handler_status as)"

section \<open>Events\<close>

lemma bounded_identity_typed: "bounded_identity f n v = Inr s \<Longrightarrow> bounded_text n s"
  by (auto simp: bounded_identity_def bounded_text_def not_less split: pyval.splits if_splits)

lemma lc_id_typed: "lc_id re msg v = Inr t \<Longrightarrow> re t \<and> v = PStr t"
  by (auto simp: lc_id_def split: pyval.splits if_splits)

lemma payload_typed:
  assumes "normalize_event_payload n v = Inr p"
  shows "typed_payload p"
  using assms
  by (auto simp: normalize_event_payload_def typed_payload_def res_simps dest: bounded_identity_typed
      split: pyval.splits if_splits)

lemma handlers_typed:
  assumes "normalize_handler_keys v = Inr ks"
  shows "distinct ks" and "length ks \<le> lc_max_handlers" and "\<forall>h \<in> set ks. lc_handler_key_re h"
proof -
  from assms obtain vs where vs: "length vs \<le> lc_max_handlers" "map_res validate_lifecycle_handler_key vs = Inr ks"
    and d: "distinct ks"
    by (auto simp: normalize_handler_keys_def res_simps not_less split: pyval.splits if_splits)
  have "length ks = length vs" if "map_res f vs = Inr ks" for f :: "pyval \<Rightarrow> lc_error + string" and vs ks
    using that by (induction vs arbitrary: ks) (auto simp: res_simps)
  with vs d show "distinct ks" "length ks \<le> lc_max_handlers" by auto
  show "\<forall>h \<in> set ks. lc_handler_key_re h"
    using map_res_mem_rev [OF vs(2)] by (auto simp: validate_lifecycle_handler_key_def dest: lc_id_typed)
qed

lemma event_typed:
  assumes "load_event_in env owner op d = Inr e"
  shows "typed_event owner op e"
proof -
  from assms obtain p where p: "lc_validate_event env owner p = Inr e" "ev_operation e = op"
    by (auto simp: load_event_in_def res_simps split: if_splits)
  from p(1) obtain hv nv pv ov wv where e: "lc_validate_operation_id ov = Inr (ev_operation e)"
      "lc_validate_owner_id wv = Inr owner" "normalize_event_payload nv pv = Inr (ev_payload e)"
      "normalize_handler_keys hv = Inr (ev_handlers e)" "ev_owner e = owner"
      "ev_operation e = lc_operation_id_of (ev_digest e)"
    by (auto simp: lc_validate_event_def res_simps Let_def split: if_splits)
  show ?thesis
    using p(2) e handlers_typed [OF e(4)] payload_typed [OF e(3)]
    by (auto simp: typed_event_def lc_validate_operation_id_def lc_validate_owner_id_def dest: lc_id_typed)
qed

lemma source_typed:
  assumes "source_in env e d = Inr s" and "typed_payload (ev_payload e)"
  shows "typed_source e s"
  using assms
  by (auto simp: source_in_def typed_source_def validate_source_commit_def res_simps dest: payload_typed
      split: if_splits)

section \<open>Attempts\<close>

lemma attempt_typed:
  assumes "load_attempt env op h x = Inr a"
  shows "typed_attempt (a\<lparr>at_generation := g\<rparr>) \<longleftrightarrow> 1 \<le> g \<and> g \<le> int lc_max_attempts"
    and "at_lease a \<noteq> None \<Longrightarrow> typed_attempt a"
proof -
  obtain aid y where x: "x = (aid, AttemptDir y)"
    using assms by (cases x; cases "snd x") (auto simp: load_attempt_def res_simps)
  from assms have id: "lc_attempt_id_re (at_id a)"
    by (auto simp: x load_attempt_def lc_validate_attempt_id_def res_simps dest!: lc_id_typed)
  have out: "lo_status u = ''succeeded'' \<and> lo_error_type u = None \<or> lo_status u = ''failed'' \<and> lo_error_type u \<noteq> None"
    if "validate_attempt_outcome env op h aid' p = Inr u" for aid' p u
    using that by (auto simp: validate_attempt_outcome_def Let_def res_simps str_of_def lc_error_type_ok_def
        split: if_splits pyval.splits)
  from assms obtain aid' outcome where
    u: "(if la_outcome y = Absent then Inr None
        else rbind (rbind (lc_read_json_object (la_outcome y)) (validate_attempt_outcome env op h aid')) (\<lambda>u. Inr (Some u)))
        = Inr outcome"
    and f: "at_status a = (case outcome of None \<Rightarrow> ''running'' | Some u \<Rightarrow> lo_status u)"
      "at_completed_at a = map_option lo_completed_at outcome"
      "at_error_type a = (case outcome of None \<Rightarrow> None | Some u \<Rightarrow> lo_error_type u)"
    by (auto simp: x load_attempt_def res_simps)
  from u have o: "outcome = None \<or> (\<exists>u p. outcome = Some u \<and> validate_attempt_outcome env op h aid' p = Inr u)"
    by (auto simp: res_simps split: if_splits)
  have status: "at_status a = ''running'' \<and> at_completed_at a = None \<and> at_error_type a = None
      \<or> at_status a = ''succeeded'' \<and> at_completed_at a \<noteq> None \<and> at_error_type a = None
      \<or> at_status a = ''failed'' \<and> at_completed_at a \<noteq> None \<and> at_error_type a \<noteq> None"
    using o f out by (cases outcome) auto
  then show "typed_attempt (a\<lparr>at_generation := g\<rparr>) \<longleftrightarrow> 1 \<le> g \<and> g \<le> int lc_max_attempts"
    using id by (auto simp: typed_attempt_def)
  assume l: "at_lease a \<noteq> None"
  have "1 \<le> ll_generation w \<and> ll_generation w \<le> int lc_max_attempts"
    if "validate_attempt_lease env op h aid' p = Inr w" for aid' p w
    using that by (auto simp: validate_attempt_lease_def int_of_def res_simps split: if_splits pyval.splits)
  then have "1 \<le> at_generation a \<and> at_generation a \<le> int lc_max_attempts"
    using assms l by (fastforce simp: x load_attempt_def res_simps split: if_splits)
  then show "typed_attempt a" using id status by (auto simp: typed_attempt_def)
qed

lemma next_free_spec: "next_free used n \<notin> set used" "n \<le> next_free used n"
  by (induction used n rule: next_free.induct) (subst next_free.simps, auto)+

lemma filled_generations:
  assumes "fill_generations used n as = Inr bs" and "1 \<le> n"
    and "distinct (map at_generation (filter (\<lambda>a. at_lease a \<noteq> None) as))"
    and "at_generation ` {a \<in> set as. at_lease a \<noteq> None} \<subseteq> set used"
  shows "distinct (map at_generation bs) \<and> length bs = length as
    \<and> (\<forall>b \<in> set bs. (b \<in> set as \<and> at_lease b \<noteq> None)
        \<or> at_generation b \<notin> set used \<and> 1 \<le> at_generation b \<and> at_generation b \<le> int lc_max_attempts)"
  using assms
proof (induction used n as arbitrary: bs rule: fill_generations.induct)
  case (2 used n a as)
  show ?case
  proof (cases "at_lease a \<noteq> None")
    case True
    with 2(3) obtain cs where cs: "fill_generations used n as = Inr cs" "bs = a # cs"
      by (auto simp: res_simps)
    note ih = 2(1) [OF True cs(1) 2(4)]
    have "distinct (map at_generation (filter (\<lambda>a. at_lease a \<noteq> None) as))"
      "at_generation a \<notin> at_generation ` {a \<in> set as. at_lease a \<noteq> None}"
      "at_generation ` {a \<in> set as. at_lease a \<noteq> None} \<subseteq> set used" "at_generation a \<in> set used"
      using 2(5,6) True by auto
    with ih cs(2) True show ?thesis by (fastforce simp: image_iff)
  next
    case False
    let ?g = "next_free used n"
    from False 2(3) obtain cs where g: "?g \<le> int lc_max_attempts" and cs: "fill_generations (?g # used) (?g + 1) as = Inr cs"
      and bs: "bs = a\<lparr>at_generation := ?g\<rparr> # cs"
      by (auto simp: res_simps Let_def not_less split: if_splits)
    have "distinct (map at_generation (filter (\<lambda>a. at_lease a \<noteq> None) as))"
      "at_generation ` {a \<in> set as. at_lease a \<noteq> None} \<subseteq> set (?g # used)"
      using 2(5,6) False by auto
    then have ih: "distinct (map at_generation cs) \<and> length cs = length as
      \<and> (\<forall>b \<in> set cs. (b \<in> set as \<and> at_lease b \<noteq> None)
        \<or> at_generation b \<notin> set (?g # used) \<and> 1 \<le> at_generation b \<and> at_generation b \<le> int lc_max_attempts)"
      using 2(2) [of ?g] False g cs 2(4) next_free_spec(2) [where used = used and n = n] by auto
    have "?g \<notin> at_generation ` set cs"
    proof
      assume "?g \<in> at_generation ` set cs"
      then obtain b where "b \<in> set cs" "at_generation b = ?g" by auto
      with ih 2(6) next_free_spec(1) [where used = used and n = n] show False by fastforce
    qed
    with ih bs g 2(4) next_free_spec [where used = used and n = n] show ?thesis by fastforce
  qed
qed simp

lemma attempts_typed:
  assumes "attempts_in env op h d = Inr as"
  shows "typed_attempts as"
proof (cases "map_of (op_attempts d) h")
  case None
  with assms show ?thesis by (simp add: attempts_in_def typed_attempts_def)
next
  case (Some e)
  with attempts_read(3) [OF assms] obtain es where e: "map_of (op_attempts d) h = Some (HandlerDir es)" by (cases e) auto
  let ?s = "\<lambda>xs. sort_key (\<lambda>a. (at_started_at a, at_id a)) xs"
  from assms e obtain loaded filled where
    l: "map_res (load_attempt env op h) (take lc_max_attempts es) = Inr loaded" "length es \<le> lc_max_attempts"
    and dl: "distinct (map at_generation (filter (\<lambda>a. at_lease a \<noteq> None) (?s loaded)))"
    and f: "fill_generations (map at_generation (filter (\<lambda>a. at_lease a \<noteq> None) (?s loaded))) 1 (?s loaded) = Inr filled"
    and as: "as = sort_key (\<lambda>a. (at_generation a, at_started_at a, at_id a)) filled"
    by (auto simp: attempts_in_def Let_def res_simps split: if_splits)
  have fg: "distinct (map at_generation filled) \<and> length filled = length (?s loaded)
    \<and> (\<forall>b \<in> set filled. (b \<in> set (?s loaded) \<and> at_lease b \<noteq> None)
        \<or> at_generation b \<notin> set (map at_generation (filter (\<lambda>a. at_lease a \<noteq> None) (?s loaded)))
          \<and> 1 \<le> at_generation b \<and> at_generation b \<le> int lc_max_attempts)"
    by (rule filled_generations [OF f _ dl]) auto
  have "length ys = length xs" if "map_res f xs = Inr ys" for f :: "string \<times> lc_attempt_entry \<Rightarrow> lc_error + lc_attempt" and xs ys
    using that by (induction xs arbitrary: ys) (auto simp: res_simps)
  with l have len: "length loaded \<le> lc_max_attempts" by fastforce
  have typed: "typed_attempt b" if b: "b \<in> set filled" for b
  proof -
    from filled_same(2) [OF f] b obtain v where v: "v \<in> set loaded" "same_attempt v b" by auto
    then obtain x where x: "load_attempt env op h x = Inr v" using map_res_mem_rev [OF l(1)] by blast
    from v(2) have bv: "b = v\<lparr>at_generation := at_generation b\<rparr>" "at_lease v \<noteq> None \<Longrightarrow> b = v"
      by (auto simp: same_attempt_def) (cases v; cases b; simp)
    show ?thesis
    proof (cases "at_lease v = None")
      case True
      then have "at_lease b = None" by (subst bv(1)) simp
      with fg b have "1 \<le> at_generation b \<and> at_generation b \<le> int lc_max_attempts" by blast
      with attempt_typed(1) [OF x, of "at_generation b"] bv(1) show ?thesis by simp
    next
      case False
      with attempt_typed(2) [OF x] bv(2) show ?thesis by simp
    qed
  qed
  have "sorted (map at_generation as)"
  proof -
    have "sorted (map (\<lambda>a. (at_generation a, at_started_at a, at_id a)) as)" unfolding as by simp
    then have "sorted_wrt (\<lambda>a b. at_generation a \<le> at_generation b) as"
      unfolding sorted_map by (rule sorted_wrt_mono_rel [rotated]) (auto simp: less_eq_prod_def)
    then show ?thesis by (simp add: sorted_map)
  qed
  moreover have "distinct (map at_generation as)"
    using fg unfolding as by (simp add: distinct_map)
  ultimately show ?thesis
    using typed len fg by (auto simp: typed_attempts_def as)
qed

section \<open>Property\<close>

text \<open>C40. Reading is type safe: whatever the files of a journal hold, an operation that loads has the id it was
  asked for, derived from its digest, the owner, a bounded payload, distinct registered handlers in that order, a
  source state that agrees with the event, and for each handler at most a hundred attempts with valid ids,
  consistent outcomes and distinct generations from one to a hundred in ascending order.\<close>
theorem loaded_operations_are_typed:
  assumes "lc_get env owner (PStr op) j = Inr x"
  shows "typed_operation owner op x"
proof -
  from assms obtain d e s hs where e: "load_event_in env owner op d = Inr e" and s: "source_in env e d = Inr s"
    and hs: "map_res (\<lambda>h. rbind (attempts_in env op h d) (\<lambda>as. Inr (h, handler_status as, as))) (ev_handlers e) = Inr hs"
    and x: "lop_event x = e" "lop_source x = s" "lop_handlers x = hs"
    by (auto simp: lc_get_def lc_get_in_def lc_validate_operation_id_def res_simps dest!: lc_id_typed)
  have te: "typed_event owner op e" by (rule event_typed [OF e])
  moreover have "typed_source e s" using source_typed [OF s] te by (simp add: typed_event_def)
  moreover have "map fst hs = ks"
    if "map_res (\<lambda>h. rbind (attempts_in env op h d) (\<lambda>as. Inr (h, handler_status as, as))) ks = Inr hs" for ks hs
    using that by (induction ks arbitrary: hs) (auto simp: res_simps)
  moreover have "typed_attempts as \<and> st = handler_status as" if "(h, st, as) \<in> set hs" for h st as
    using map_res_mem_rev [OF hs that] attempts_typed by (auto simp: res_simps)
  ultimately show ?thesis using hs by (auto simp: typed_operation_def x)
qed

theorem loaded_operations_are_typed_witness:
  "\<exists>x. lc_get unary_env ''u'' (PStr unary_op) unary_taken = Inr x \<and> typed_operation ''u'' unary_op x"
proof -
  have "is_Inr (lc_get unary_env ''u'' (PStr unary_op) unary_taken)" by code_simp
  then obtain x where "lc_get unary_env ''u'' (PStr unary_op) unary_taken = Inr x" by (auto simp: is_Inr_iff)
  with loaded_operations_are_typed show ?thesis by blast
qed

end
