(* ===== verification/Spec2Isabelle.thy ===== *)
theory Spec2Isabelle
  imports RunLifecycle StreamBridge EventStore ActionRepair LoopDetection LlmRetry DanglingCalls ToolProgress JsonlStore BashSafety LifecycleDispatch MemoryQueue Retrieval RunJournal LifecycleTypes
begin

text \<open>
  A verification library for the backend of VassilFlow, an agent server written in Python.  Paths
  below are relative to \<open>backend/packages/harness/vassilflow\<close> unless they name another package.

  \<^bold>\<open>The program.\<close>  A request starts a run on a conversation thread.  The run registry admits it,
  persists its row and hands it to a worker; the worker drives an agent graph and publishes
  events to a stream bridge, which SSE endpoints read, and to a run event store, which the history
  endpoints page through.  Inside the graph, middlewares surround each model call and each tool
  call: they repair transcripts, retry the provider, stop loops and block tools that make no
  progress.  Tools with outside effects leave a record in an action journal; a repair service
  settles the records of workers that died.  Callbacks of the graph fill a run journal, which writes the
  event store and adds up tokens.  Deleting or branching a thread calls handlers of other domains; a
  lifecycle journal on disk makes these calls survive crashes and takeovers.  Conversations wait in a queue
  for a worker that updates the memory of a user.  The core package answers questions from retrieved
  documents and checks the citations of the answer.

  \<^bold>\<open>Theories and the code they model.\<close>

  \<^item> \<open>Prelude\<close>: Python values, results of code that may raise, insertion-ordered dictionaries,
    slices and stable sorts.  \<open>PyText\<close>: decimal text, stripping, partition, bisection, text
    search.
  \<^item> \<open>ThreadIndex\<close>: the index from threads to runs (\<open>_runs_by_thread\<close>) and the locale
    \<open>indexed_registry\<close>, the contract between a table of runs and this index.
  \<^item> \<open>RunStore\<close>: \<open>MemoryRunStore\<close> of \<open>runtime/runs/store/memory.py\<close> and the statuses of
    \<open>schemas.py\<close>; it interprets the locale as \<open>ms\<close>.  Every method is one definition \<open>ms_*\<close>.
  \<^item> \<open>PersistRetry\<close>: \<open>_is_retryable_persistence_error\<close> and \<open>_call_store_with_retry\<close> of
    \<open>runtime/runs/manager.py\<close>.
  \<^item> \<open>RunManager\<close>: \<open>RunManager\<close> of the same file over the store; it interprets the locale as
    \<open>rm\<close>.  Each section under \<open>self._lock\<close> is one function of the state.  \<open>RunLifecycle\<close>: the
    interleavings of these sections as the step relation \<open>rm_step\<close>.
  \<^item> \<open>StreamBridge\<close>: \<open>runtime/stream_bridge/memory.py\<close>, with a subscriber interleaved with the
    producer.
  \<^item> \<open>EventStore\<close>: \<open>runtime/events/store/memory.py\<close>; the locale \<open>paged_log\<close> is what bisected
    pages promise, interpreted for threads (\<open>tm\<close>) and runs (\<open>rm_log\<close>).  \<open>JsonlStore\<close>:
    \<open>runtime/events/store/jsonl.py\<close>, files as texts.
  \<^item> \<open>ActionDocs\<close>, \<open>ActionStore\<close>: \<open>actions/models.py\<close> and \<open>actions/store.py\<close>, first the
    documents, then the directories and operations; \<open>ActionLifecycle\<close>: sequences of operations.
    \<open>ActionRepair\<close>: \<open>actions/reconciliation.py\<close>.
  \<^item> \<open>LoopDetection\<close>, \<open>LlmRetry\<close>, \<open>ToolProgress\<close>: the middlewares of the same names in
    \<open>agents/middlewares\<close>; \<open>ToolMeta\<close>: \<open>tool_result_meta.py\<close>, which \<open>ToolProgress\<close> reads.
  \<^item> \<open>DanglingCalls\<close>: \<open>vassilflow_core/middleware/dangling_tool_calls.py\<close> of the core package.
  \<^item> \<open>PosixPaths\<close>: what the code uses of \<open>pathlib\<close> and \<open>os.path\<close>.  \<open>DataPaths\<close>: \<open>config/paths.py\<close>, where
    the files of users and threads lie.
  \<^item> \<open>LocalProvider\<close>, \<open>LocalSandbox\<close>: \<open>sandbox/local/local_sandbox_provider.py\<close>, the cache of sandboxes,
    and \<open>local_sandbox.py\<close>, path mappings, file operations and the rewriting of paths in texts.
  \<^item> \<open>SandboxPaths\<close>, \<open>SandboxText\<close>, \<open>SandboxTools\<close>: \<open>sandbox/tools.py\<close>, the paths a tool accepts, the texts
    it returns, and the file tools on a runtime.  \<open>SandboxSafety\<close>: what tools, provider and sandbox
    guarantee together.
  \<^item> \<open>ShellWords\<close>: \<open>shlex\<close> and \<open>re.finditer\<close>.  \<open>ShellGuard\<close>: the guard of the bash tool in
    \<open>sandbox/tools.py\<close>.  \<open>BashTool\<close>: the tool itself, \<open>execute_command\<close>, the environment of a command
    (\<open>sandbox/env_policy.py\<close>, \<open>security.py\<close>) and the secrets of a run (\<open>runtime/secret_context.py\<close>).
    \<open>GuardSafety\<close>, \<open>BashSafety\<close>: what the guard accepts and what a call runs.
  \<^item> \<open>LifecycleDocs\<close>, \<open>LifecycleJournal\<close>: \<open>runtime/lifecycle_journal.py\<close>, first the documents and their
    validation, then the directories of an operation (\<open>lc_op_dir\<close>) and the operations \<open>lc_*\<close>.
    \<open>LifecycleSafety\<close>: the step relation \<open>lc_steps\<close> of interleaved users and what every step keeps;
    \<open>LifecycleFencing\<close>: leases, generations and idempotency; \<open>LifecycleTypes\<close>: what a reader may rely on.
  \<^item> \<open>LifecycleDispatch\<close>: \<open>runtime/thread_lifecycle.py\<close> and \<open>backend/app/gateway/domain_lifecycle.py\<close>, the
    registry of handlers, direct and durable dispatch, and replay.
  \<^item> \<open>RunJournal\<close>: \<open>runtime/journal.py\<close>; a call of the journal is a \<open>journal_call\<close>, and the ends of its
    background writes and the steps of its final flush are calls as well.
  \<^item> \<open>MemoryQueue\<close>: \<open>agents/memory/queue.py\<close>, each section under the lock one function of \<open>memory_queue\<close>.
  \<^item> \<open>JsonText\<close>: \<open>json.dumps\<close> as the code calls it.  \<open>Retrieval\<close>: \<open>rag.py\<close> of the core package.
\<close>

text \<open>
  \<^bold>\<open>What the theorems show.\<close>

  \<^item> Runs: a reservation leaves no other active run on the thread but one already asked to stop;
    a replacement waits for its predecessors or fails; index and registry stay in lockstep in every reachable state; failed
    creation is rolled back; cancellation and shutdown on every branch.
  \<^item> Persistence: a failure is retried exactly when a lock error is reachable in its chain of
    causes, which may be cyclic; the retry loop is bounded.
  \<^item> Streams: event ids are absolute offsets; a subscriber sees an increasing sequence and misses nothing but events that were evicted
    before it came to them; resumption by id equals a scan.
  \<^item> Events: the projections of a thread are filters of its log; pages are filters; a backward
    walk collects everything.  The file store refines the store in memory on every history of
    valid ids, positive limits and events whose lines read back; a line boundary inside a record (U+0085 in its
    text) makes the reader lose this event and no other.
  \<^item> Actions: recorded facts never change, the first outcome wins, leases and repair claims
    exclude each other until a claim expires; a repair pass leaves no claim of its own behind, whatever other processes do to the journal meanwhile.
  \<^item> Model and tool calls: the state of loop detection and of tool progress stays within its
    bounds; calls that repeat within the sliding window are stopped exactly at the
    limit, failing ones are blocked; a model call ends after boundedly many
    attempts; the circuit breaker is closed exactly below its threshold, under any interleaving;
    a repaired transcript answers every call once, and repairing is idempotent.
  \<^item> Sandbox: the directories of two threads have no path in common; deleting a thread leaves the
    others alone; a thread gets the sandbox of its own user and thread; writes of the file tools
    stay inside the thread's directories and writable mounts, and the directories they create are those, or
    lie above them; secrets are masked and output is cut.
  \<^item> Commands: words of an accepted command that begin with a slash are the bare root, no paths, or allowed paths;
    the pass over the tokens equals a check of each simple command; the prefixes of a command are single shell
    words; what runs was accepted by the guard and sees no credentials of the host.
  \<^item> Lifecycle of threads: facts of the lifecycle journal never change and commit excludes abort; preparing
    again finds the operation; a takeover waits for leases, after it the older attempts are fenced off by
    their generation; success is final; whatever the files hold, what loads is well typed.  A durable
    dispatch calls each handler at most once, and each call is recorded or reported; no interleaving of
    replays and commits calls a handler whose success is recorded.
  \<^item> Run journal: under any interleaving of callbacks and writes no event is lost but in a write that was
    cancelled; a final flush after writes that succeeded or wrote nothing completes the log; the token totals
    are sums over distinct calls.
  \<^item> Memory queue: a waiting conversation will be looked at, discarded threads are not updated, and the queue
    implements a map from its keys to the latest messages.
  \<^item> Retrieval: evidence stays within its limits, a cut text is the longest prefix that fits, and a returned
    answer cites only sources of its evidence.

  \<^bold>\<open>Parameters.\<close>  What is not under the repository is an argument: the JSON reader and writer
  (\<open>doc_env\<close>, \<open>text_env\<close>, \<open>json_env\<close>, \<open>dump\<close> and \<open>load\<close>), ISO and HTTP dates, MD5,
  \<open>float(text)\<close> (\<open>llm_env\<close>).  Where a theorem relies on them it says so by a named predicate
  (\<open>iso_ok\<close>, \<open>env_ok\<close>, \<open>json_codec\<close>), which the witnesses meet with concrete functions.  Clocks,
  fresh ids, the outcomes of store attempts and the changes other coroutines make while one waits
  are arguments as well, so the theorems hold for all of them.  \<open>lc_env\<close> adds the SHA-256 digest and the
  length of canonical JSON; \<open>td_env\<close> the handlers of other domains and the changes other users of the
  journal make; the retriever, the chat model and the text of a float are arguments of \<open>Retrieval\<close>.

  \<^bold>\<open>Loops.\<close>  The walk over an exception chain terminates by the number of unvisited nodes; the
  retry loops by the attempts left; decimal printing by division; the search for a free
  generation by the used ones left (\<open>next_free\<close>); the binary search for a prefix by its interval
  (\<open>longest_fit\<close>); the final flush of the run journal by the buffer (\<open>drain\<close>).  Only the client that walks a log
  backwards page by page (\<open>walk_back\<close>) is given fuel; any number above the length of the log is
  enough, which its theorem shows.

  \<^bold>\<open>Simplifications.\<close>  Strings hold the code points below 256.  Floats that the code only compares
  are rationals; the Jaccard quotient is exact.  Resolving symbolic links is a parameter that gives an
  absolute path without dots; the disk of the local sandbox maps resolved paths to entries, and paths
  are those of a POSIX host.  Each operation that runs under a lock, or between
  two awaits, is one step.  Atomic file replacement does not fail.
  The dash in the message of the frequency limit is written '-'.  A settled run persists its status without other
  sections in between (\<open>settle_run\<close>).  A JSON file over the size limit reads as one that does not parse
  (\<open>read_json_object\<close>).

  \<^bold>\<open>Not modelled.\<close>  Channel adapters, HTTP routers, container sandboxes, model providers, MCP, the SQL back
  ends and the frontend are input and output around these parts; the manifest lists each with its
  reason.  Left out of parts that are modelled: the throttled progress snapshots of the run journal, the
  search tools of the local sandbox over a real file system, and the language model that rewrites a memory.
  Also open are the smaller middlewares (token budget, title, uploads, summarisation), skills and subagents.
\<close>

end
